(* ===== verification/Ncm_Prelude.thy ===== *)
theory Ncm_Prelude
  imports "HOL-Library.Word" "HOL-Library.Multiset"
begin

text \<open>
  The shared vocabulary of the development: the machine integers of the C sources, byte-addressed
  memory with little-endian accessors (the FX3 is a little-endian ARM9), the errors a C program can
  run into (an access outside an object), and a state-and-error monad with its weakest precondition
  calculus.  The component theories prove their invariants through the rules collected in
  \<open>wp\<close>; \<open>word_to_nat\<close> collects the rules that move word arithmetic to \<open>nat\<close>.
\<close>

unbundle bit_operations_syntax

named_theorems wp \<open>weakest precondition rules of the primitive actions\<close>
named_theorems word_to_nat \<open>rules that read word expressions as natural numbers\<close>

section \<open>Machine integers\<close>

type_synonym u8 = "8 word"
type_synonym u16 = "16 word"
type_synonym u32 = "32 word"

lemma unat_u8_bound [simp]: "unat (x :: u8) < 256"
  using unsigned_less [of x, where ?'a = nat] by simp

lemma unat_u16_bound [simp]: "unat (x :: u16) < 65536"
  using unsigned_less [of x, where ?'a = nat] by simp

lemma unat_u32_bound [simp]: "unat (x :: u32) < 4294967296"
  using unsigned_less [of x, where ?'a = nat] by simp

lemma unat_u16_add [word_to_nat]: "unat (x + y :: u16) = (unat x + unat y) mod 65536"
  by (simp add: unat_word_ariths)

lemma unat_u32_add [word_to_nat]: "unat (x + y :: u32) = (unat x + unat y) mod 4294967296"
  by (simp add: unat_word_ariths)

lemma unat_of_nat_u8 [word_to_nat]: "unat (of_nat n :: u8) = n mod 256"
  by (simp add: unat_of_nat)

lemma unat_of_nat_u16 [word_to_nat]: "unat (of_nat n :: u16) = n mod 65536"
  by (simp add: unat_of_nat)

lemma unat_of_nat_u32 [word_to_nat]: "unat (of_nat n :: u32) = n mod 4294967296"
  by (simp add: unat_of_nat)

section \<open>Byte-addressed objects\<close>

text \<open>
  An object of the C program is its bytes, a function from offsets; the operations that access it
  check the offset against the object's size.
\<close>

type_synonym bytes = "nat \<Rightarrow> u8"

definition rd16 :: "bytes \<Rightarrow> nat \<Rightarrow> u16" where
  "rd16 m a = ucast (m a) OR push_bit 8 (ucast (m (a + 1)))"

definition wr16 :: "bytes \<Rightarrow> nat \<Rightarrow> u16 \<Rightarrow> bytes" where
  "wr16 m a v = m(a := ucast v, a + 1 := ucast (drop_bit 8 v))"

definition rd32 :: "bytes \<Rightarrow> nat \<Rightarrow> u32" where
  "rd32 m a = ucast (rd16 m a) OR push_bit 16 (ucast (rd16 m (a + 2)))"

definition wr32 :: "bytes \<Rightarrow> nat \<Rightarrow> u32 \<Rightarrow> bytes" where
  "wr32 m a v = wr16 (wr16 m a (ucast v)) (a + 2) (ucast (drop_bit 16 v))"

fun wr_list :: "bytes \<Rightarrow> nat \<Rightarrow> u8 list \<Rightarrow> bytes" where
  "wr_list m a [] = m"
| "wr_list m a (b # bs) = wr_list (m(a := b)) (a + 1) bs"

definition le16 :: "u16 \<Rightarrow> u8 list" where
  "le16 v = [ucast v, ucast (drop_bit 8 v)]"

definition le32 :: "u32 \<Rightarrow> u8 list" where
  "le32 v = le16 (ucast v) @ le16 (ucast (drop_bit 16 v))"

lemma length_le16 [simp]: "length (le16 v) = 2"
  by (simp add: le16_def)

lemma length_le32 [simp]: "length (le32 v) = 4"
  by (simp add: le32_def)

lemma rd16_wr16_same [simp]: "rd16 (wr16 m a v) a = v"
  unfolding rd16_def wr16_def by (rule bit_word_eqI) (auto simp: bit_simps)

lemma rd16_wr16_other [simp]: "b + 2 \<le> a \<or> a + 2 \<le> b \<Longrightarrow> rd16 (wr16 m a v) b = rd16 m b"
  unfolding rd16_def wr16_def by auto

lemma rd32_wr32_same [simp]: "rd32 (wr32 m a v) a = v"
  unfolding rd32_def wr32_def by (rule bit_word_eqI) (auto simp: bit_simps)

lemma rd16_wr32_other [simp]: "b + 2 \<le> a \<or> a + 4 \<le> b \<Longrightarrow> rd16 (wr32 m a v) b = rd16 m b"
  unfolding wr32_def by auto

lemma rd32_wr16_other [simp]: "b + 4 \<le> a \<or> a + 2 \<le> b \<Longrightarrow> rd32 (wr16 m a v) b = rd32 m b"
  unfolding rd32_def by auto

lemma rd32_wr32_other [simp]: "b + 4 \<le> a \<or> a + 4 \<le> b \<Longrightarrow> rd32 (wr32 m a v) b = rd32 m b"
  unfolding rd32_def by auto

lemma wr16_other [simp]: "i < a \<or> a + 2 \<le> i \<Longrightarrow> wr16 m a v i = m i"
  by (auto simp: wr16_def)

lemma wr_list_at: "wr_list m a bs i = (if a \<le> i \<and> i < a + length bs then bs ! (i - a) else m i)"
  by (induction bs arbitrary: m a) (auto simp: nth_Cons')

lemma rd16_wr_list_other [simp]:
  "i + 2 \<le> a \<or> a + length bs \<le> i \<Longrightarrow> rd16 (wr_list m a bs) i = rd16 m i"
  by (auto simp: rd16_def wr_list_at)

lemma rd32_wr_list_other [simp]:
  "i + 4 \<le> a \<or> a + length bs \<le> i \<Longrightarrow> rd32 (wr_list m a bs) i = rd32 m i"
  by (auto simp: rd32_def)

section \<open>Errors and the state monad\<close>

text \<open>
  What the C standard leaves undefined is an error of the model, so that a theorem about a result
  also says that no such access happens.  A loop that does not end is an error of its own.
\<close>

datatype c_error = OutOfBounds | NullDeref | NoReturn | EnvFault c_error

type_synonym ('s, 'a) act = "'s \<Rightarrow> c_error + ('a \<times> 's)"

definition act_return :: "'a \<Rightarrow> ('s, 'a) act" where
  "act_return x s = Inr (x, s)"

definition act_bind :: "('s, 'a) act \<Rightarrow> ('a \<Rightarrow> ('s, 'b) act) \<Rightarrow> ('s, 'b) act" where
  "act_bind m f s = (case m s of Inl e \<Rightarrow> Inl e | Inr (x, s') \<Rightarrow> f x s')"

definition act_gets :: "('s \<Rightarrow> 'a) \<Rightarrow> ('s, 'a) act" where
  "act_gets f s = Inr (f s, s)"

definition act_modify :: "('s \<Rightarrow> 's) \<Rightarrow> ('s, unit) act" where
  "act_modify f s = Inr ((), f s)"

definition act_check :: "c_error \<Rightarrow> bool \<Rightarrow> ('s, unit) act" where
  "act_check e b s = (if b then Inr ((), s) else Inl e)"

definition act_fail :: "c_error \<Rightarrow> ('s, 'a) act" where
  "act_fail e s = Inl e"

lemmas act_defs = act_fail_def act_return_def act_bind_def act_gets_def act_modify_def act_check_def

lemma act_bind_assoc: "act_bind (act_bind m f) g = act_bind m (\<lambda>x. act_bind (f x) g)"
  by (simp add: act_bind_def fun_eq_iff split: sum.split prod.split)

lemma act_bind_Inr: "m s = Inr (x, s') \<Longrightarrow> act_bind m f s = f x s'"
  by (simp add: act_bind_def)

text \<open>
  \<open>wpx F m Q s\<close>: started in \<open>s\<close>, \<open>m\<close> returns a result that satisfies \<open>Q\<close> or
  fails with one of the errors \<open>F\<close>.  With no error allowed this is total correctness
  (\<open>wp\<close>), with every error allowed partial correctness (\<open>wlp\<close>).  \<open>dwp\<close> allows
  exactly the faults of the environment: the code itself makes no invalid access, whatever the
  functions it calls do.
\<close>

definition wpx :: "c_error set \<Rightarrow> ('s, 'a) act \<Rightarrow> ('a \<Rightarrow> 's \<Rightarrow> bool) \<Rightarrow> 's \<Rightarrow> bool" where
  "wpx F m Q s = (case m s of Inl e \<Rightarrow> e \<in> F | Inr (x, s') \<Rightarrow> Q x s')"

abbreviation wp :: "('s, 'a) act \<Rightarrow> ('a \<Rightarrow> 's \<Rightarrow> bool) \<Rightarrow> 's \<Rightarrow> bool" where
  "wp \<equiv> wpx {}"

abbreviation wlp :: "('s, 'a) act \<Rightarrow> ('a \<Rightarrow> 's \<Rightarrow> bool) \<Rightarrow> 's \<Rightarrow> bool" where
  "wlp \<equiv> wpx UNIV"

abbreviation dwp :: "('s, 'a) act \<Rightarrow> ('a \<Rightarrow> 's \<Rightarrow> bool) \<Rightarrow> 's \<Rightarrow> bool" where
  "dwp \<equiv> wpx (range EnvFault)"

lemma wpx_return [wp, simp]: "wpx F (act_return x) Q s = Q x s"
  by (simp add: wpx_def act_return_def)

lemma wpx_return_ext [simp]: "wpx F (act_return x) Q = Q x"
  by (rule ext) simp

lemma wpx_bind [wp, simp]: "wpx F (act_bind m f) Q s = wpx F m (\<lambda>x. wpx F (f x) Q) s"
  by (simp add: wpx_def act_bind_def split: sum.split prod.split)

lemma wpx_gets [wp, simp]: "wpx F (act_gets f) Q s = Q (f s) s"
  by (simp add: wpx_def act_gets_def)

lemma wpx_modify [wp, simp]: "wpx F (act_modify f) Q s = Q () (f s)"
  by (simp add: wpx_def act_modify_def)

lemma wpx_check [wp, simp]: "wpx F (act_check e b) Q s = (if b then Q () s else e \<in> F)"
  by (simp add: wpx_def act_check_def)

lemma wpx_fail [wp, simp]: "wpx F (act_fail e) Q s = (e \<in> F)"
  by (simp add: wpx_def act_fail_def)

lemma wpx_if [wp, simp]: "wpx F (if b then m else n) Q s = (if b then wpx F m Q s else wpx F n Q s)"
  by simp

lemma wpx_case_option [wp, simp]:
  "wpx F (case x of None \<Rightarrow> m | Some y \<Rightarrow> n y) Q s =
     (case x of None \<Rightarrow> wpx F m Q s | Some y \<Rightarrow> wpx F (n y) Q s)"
  by (simp split: option.split)

lemma wpx_case_prod [wp, simp]:
  "wpx F (case x of (a, b) \<Rightarrow> m a b) Q s = (case x of (a, b) \<Rightarrow> wpx F (m a b) Q s)"
  by (simp split: prod.split)

lemma wpx_mono: "wpx F m Q s \<Longrightarrow> (\<And>x s'. Q x s' \<Longrightarrow> R x s') \<Longrightarrow> wpx F m R s"
  by (auto simp: wpx_def split: sum.splits)

lemma wpx_weaken: "wpx F m Q s \<Longrightarrow> F \<subseteq> G \<Longrightarrow> wpx G m Q s"
  by (auto simp: wpx_def split: sum.splits)

lemma wpx_conj: "wpx F m Q s \<Longrightarrow> wpx G m R s \<Longrightarrow> wpx (F \<inter> G) m (\<lambda>x s'. Q x s' \<and> R x s') s"
  by (auto simp: wpx_def split: sum.splits)

lemma wpx_Inr: "m s = Inr (x, s') \<Longrightarrow> wpx F m Q s = Q x s'"
  by (simp add: wpx_def)

lemma wp_iff_Inr: "wp m Q s \<longleftrightarrow> (\<exists>x s'. m s = Inr (x, s') \<and> Q x s')"
  by (auto simp: wpx_def split: sum.splits)

lemma wpxD: "wpx F m Q s \<Longrightarrow> m s = Inr (x, s') \<Longrightarrow> Q x s'"
  by (simp add: wpx_def)

lemma wlp_any: "(\<And>r w. Q r w) \<Longrightarrow> wlp m Q s"
  by (auto simp: wpx_def split: sum.splits)

lemma vimage_EnvFault [simp]: "EnvFault -` range EnvFault = UNIV" "EnvFault -` {} = {}"
  by auto

definition opt_list :: "'a option \<Rightarrow> 'a list" where
  "opt_list x = (case x of None \<Rightarrow> [] | Some y \<Rightarrow> [y])"

lemma opt_list_simps [simp]: "opt_list None = []" "opt_list (Some x) = [x]"
  by (simp_all add: opt_list_def)

lemma set_opt_list [simp]: "set (opt_list x) = set_option x" "distinct (opt_list x)"
  by (cases x; simp)+

end
