(* ===== verification/Ntb_Ring.thy ===== *)
theory Ntb_Ring
  imports Ncm_Prelude
begin

text \<open>
  The NTB pointer lists of the driver (\<^verbatim>\<open>ntb_list_t\<close>, \<^verbatim>\<open>push_ntb\<close> and \<^verbatim>\<open>pop_ntb\<close> of
  struct.h and struct.c).  The locale \<open>ntb_fifo\<close> states the contract the transmit and receive
  paths rely on: a list of owned buffers, first in first out, whose operations never access memory
  outside the list.  The ring meets it; what it does not meet is its capacity, which the last
  section quantifies.
\<close>

section \<open>The list and its operations\<close>

definition NCM_NTB_N :: nat where
  "NCM_NTB_N = 2"

record 'p ntb_list_t =
  ntb_list :: "'p option list"
  list_front :: u16
  list_back :: u16

definition ring_index_advance :: "u16 \<Rightarrow> u16" where
  "ring_index_advance i = i + of_nat ((unat i + 1) mod NCM_NTB_N)"

definition push_ntb :: "'p option \<Rightarrow> ('p ntb_list_t, bool) act" where
  "push_ntb ntb l =
     (case ntb of
        None \<Rightarrow> Inr (False, l)
      | Some p \<Rightarrow>
          if \<not> unat (list_back l) < NCM_NTB_N then Inl OutOfBounds
          else if ntb_list l ! unat (list_back l) \<noteq> None then Inr (False, l)
          else Inr (True, l\<lparr>ntb_list := (ntb_list l)[unat (list_back l) := Some p],
                            list_back := ring_index_advance (list_back l)\<rparr>))"

definition pop_ntb :: "('p ntb_list_t, 'p option) act" where
  "pop_ntb l =
     (if \<not> unat (list_front l) < NCM_NTB_N then Inl OutOfBounds
      else case ntb_list l ! unat (list_front l) of
             None \<Rightarrow> Inr (None, l)
           | Some p \<Rightarrow> Inr (Some p, l\<lparr>ntb_list := (ntb_list l)[unat (list_front l) := None],
                                      list_front := ring_index_advance (list_front l)\<rparr>))"

definition empty_ntb_list :: "'p ntb_list_t" where
  "empty_ntb_list = \<lparr>ntb_list = replicate NCM_NTB_N None, list_front = 0, list_back = 0\<rparr>"

section \<open>The contract of an NTB list\<close>

datatype 'a fifo_op = Push "'a option" | Pop

text \<open>
  Running a sequence of operations records the buffers the list took and the buffers it gave back.
\<close>

fun fifo_run :: "('a option \<Rightarrow> ('q, bool) act) \<Rightarrow> ('q, 'a option) act \<Rightarrow>
    'a fifo_op list \<Rightarrow> 'a list \<Rightarrow> 'a list \<Rightarrow> ('q, 'a list \<times> 'a list) act" where
  "fifo_run push pop [] took gave = act_return (took, gave)"
| "fifo_run push pop (Push x # ops) took gave =
     act_bind (push x) (\<lambda>r.
       fifo_run push pop ops (case x of Some p \<Rightarrow> if r then took @ [p] else took | None \<Rightarrow> took) gave)"
| "fifo_run push pop (Pop # ops) took gave =
     act_bind pop (\<lambda>r.
       fifo_run push pop ops took (case r of Some p \<Rightarrow> gave @ [p] | None \<Rightarrow> gave))"

locale ntb_fifo =
  fixes push :: "'a option \<Rightarrow> ('q, bool) act"
    and pop :: "('q, 'a option) act"
    and contents :: "'q \<Rightarrow> 'a list"
    and invar :: "'q \<Rightarrow> bool"
  assumes push_NULL: "push None q = Inr (False, q)"
    and push_Some: "invar q \<Longrightarrow>
      wp (push (Some x)) (\<lambda>r q'. invar q' \<and> (if r then contents q' = contents q @ [x] else q' = q)) q"
    and pop_law: "invar q \<Longrightarrow>
      wp pop (\<lambda>r q'. invar q' \<and>
        (case r of None \<Rightarrow> contents q = [] \<and> q' = q | Some x \<Rightarrow> contents q = x # contents q')) q"
begin

lemma push_wp:
  assumes "invar q" "\<And>q'. invar q' \<Longrightarrow> x \<noteq> None \<Longrightarrow> contents q' = contents q @ [the x] \<Longrightarrow> Q True q'"
    and "Q False q"
  shows "wpx F (push x) Q q"
proof (cases x)
  case None
  with assms(3) show ?thesis by (simp add: wpx_def push_NULL)
next
  case (Some p)
  show ?thesis unfolding Some
    by (rule wpx_mono [OF wpx_weaken [OF push_Some [OF assms(1)] empty_subsetI]])
      (use Some assms(2,3) in \<open>auto split: if_splits\<close>)
qed

lemma pop_wp:
  assumes "invar q" "contents q = [] \<Longrightarrow> Q None q"
    and "\<And>x q'. invar q' \<Longrightarrow> contents q = x # contents q' \<Longrightarrow> Q (Some x) q'"
  shows "wpx F pop Q q"
  using wpx_weaken [OF pop_law [OF assms(1)] empty_subsetI]
  by (rule wpx_mono) (auto intro: assms(2,3) split: option.splits)

text \<open>
  First in, first out over any run: what the list took is what it gave back followed by what it
  still holds, and no operation of the run accesses memory outside the list.
\<close>

lemma run_fifo:
  assumes "invar q" "took = gave @ contents q"
  shows "wp (fifo_run push pop ops took gave)
    (\<lambda>(took', gave') q'. invar q' \<and> took' = gave' @ contents q') q"
  using assms
proof (induction ops arbitrary: q took gave)
  case Nil
  then show ?case by simp
next
  case (Cons op ops)
  from Cons.prems show ?case
    by (cases op) (auto intro!: push_wp pop_wp Cons.IH split: option.splits)
qed

end

section \<open>The ring meets the contract\<close>

definition ring_contents :: "'p ntb_list_t \<Rightarrow> 'p list" where
  "ring_contents l = List.map_filter (\<lambda>x. x) (drop (unat (list_front l)) (ntb_list l))"

definition ring_inv :: "'p ntb_list_t \<Rightarrow> bool" where
  "ring_inv l \<longleftrightarrow>
     (list_front l = 0 \<and> list_back l = 0 \<and> ntb_list l = [None, None])
   \<or> (list_front l = 0 \<and> list_back l = 1 \<and> (\<exists>p y. ntb_list l = [Some p, y]))
   \<or> (list_front l = 1 \<and> list_back l = 1 \<and> (\<exists>y. ntb_list l = [None, y]))"

lemma ring_index_advance_simps [simp]:
  "ring_index_advance 0 = 1" "ring_index_advance 1 = 1"
  by (simp_all add: ring_index_advance_def NCM_NTB_N_def)

lemma ring_inv_empty [simp]: "ring_inv empty_ntb_list"
  by (simp add: ring_inv_def empty_ntb_list_def NCM_NTB_N_def numeral_2_eq_2)

lemma ring_contents_empty [simp]: "ring_contents empty_ntb_list = []"
  by (simp add: ring_contents_def empty_ntb_list_def NCM_NTB_N_def numeral_2_eq_2 map_filter_def)

lemmas ring_simps = push_ntb_def pop_ntb_def ring_inv_def ring_contents_def NCM_NTB_N_def
  map_filter_def

lemma push_ntb_step:
  assumes "ring_inv q"
  shows "wp (push_ntb (Some x))
    (\<lambda>r q'. ring_inv q' \<and> (if r then ring_contents q' = ring_contents q @ [x] else q' = q)) q"
  using assms by (auto simp: ring_simps wpx_def)

lemma pop_ntb_step:
  assumes "ring_inv q"
  shows "wp pop_ntb (\<lambda>r q'. ring_inv q' \<and>
    (case r of None \<Rightarrow> ring_contents q = [] \<and> q' = q | Some x \<Rightarrow> ring_contents q = x # ring_contents q')) q"
  using assms by (auto simp: ring_simps wpx_def split: option.splits)

interpretation ring: ntb_fifo push_ntb pop_ntb ring_contents ring_inv
  by unfold_locales (simp add: push_ntb_def, rule push_ntb_step, assumption, rule pop_ntb_step)

end
