(* ===== verification/Ntb_Layout.thy ===== *)
theory Ntb_Layout
  imports Ntb_Ring
begin

text \<open>
  The wire formats of ncm.h and the constant objects of struct.c: the NCM transfer block (NTB) with
  its header, datagram pointer table and payload, the NTB parameter structure and the two
  notifications.  The structures are packed, so the offset of a field is the sum of the sizes of the
  fields before it.
\<close>

section \<open>Constants of ncm.h\<close>

definition NCM_EP_SIZE :: nat where "NCM_EP_SIZE = 512"
definition NCM_EP_NOTIFY :: u8 where "NCM_EP_NOTIFY = 0x81"
definition NCM_EP_DATA_OUT :: u8 where "NCM_EP_DATA_OUT = 0x02"
definition NCM_EP_DATA_IN :: u8 where "NCM_EP_DATA_IN = 0x82"
definition NCM_NTB_MAX_SIZE :: nat where "NCM_NTB_MAX_SIZE = 3200"
definition NCM_MAX_DATAGRAMS_PER_NTB :: nat where "NCM_MAX_DATAGRAMS_PER_NTB = 8"
definition NCM_NDP_ALIGN_MIN_SIZE :: nat where "NCM_NDP_ALIGN_MIN_SIZE = 4"
definition NTH16_SIGNATURE :: u32 where "NTH16_SIGNATURE = 0x484D434E"
definition NDP16_SIGNATURE_NCM0 :: u32 where "NDP16_SIGNATURE_NCM0 = 0x304D434E"
definition USB_CDC_NOTIFY_NETWORK_CONNECTION :: u8 where "USB_CDC_NOTIFY_NETWORK_CONNECTION = 0x00"
definition USB_CDC_NOTIFY_SPEED_CHANGE :: u8 where "USB_CDC_NOTIFY_SPEED_CHANGE = 0x2a"
definition NCM_GET_NTB_PARAMETERS :: u8 where "NCM_GET_NTB_PARAMETERS = 0x80"
definition USB_DATA_DEVICE_TO_HOST :: nat where "USB_DATA_DEVICE_TO_HOST = 1"
definition USB_TYPE_STANDARD :: nat where "USB_TYPE_STANDARD = 0"
definition USB_TYPE_CLASS :: nat where "USB_TYPE_CLASS = 1"
definition USB_RECIP_INTERFACE :: nat where "USB_RECIP_INTERFACE = 1"
definition USB_REQ_GET_INTERFACE :: u8 where "USB_REQ_GET_INTERFACE = 0x0A"
definition USB_REQ_SET_INTERFACE :: u8 where "USB_REQ_SET_INTERFACE = 0x0B"

lemmas ncm_consts = NCM_EP_SIZE_def NCM_EP_NOTIFY_def NCM_EP_DATA_OUT_def NCM_EP_DATA_IN_def
  NCM_NTB_MAX_SIZE_def NCM_NTB_N_def NCM_MAX_DATAGRAMS_PER_NTB_def NCM_NDP_ALIGN_MIN_SIZE_def
  NTH16_SIGNATURE_def NDP16_SIGNATURE_NCM0_def USB_CDC_NOTIFY_NETWORK_CONNECTION_def
  USB_CDC_NOTIFY_SPEED_CHANGE_def NCM_GET_NTB_PARAMETERS_def USB_DATA_DEVICE_TO_HOST_def
  USB_TYPE_STANDARD_def USB_TYPE_CLASS_def USB_RECIP_INTERFACE_def USB_REQ_GET_INTERFACE_def
  USB_REQ_SET_INTERFACE_def

section \<open>The transfer block\<close>

text \<open>
  \<^verbatim>\<open>ntb_t\<close> and \<^verbatim>\<open>ntb_def_t\<close> are unions of the header structures with
  \<^verbatim>\<open>uint8_t data[NCM_NTB_MAX_SIZE]\<close>: one object of 3200 bytes, read and written through
  both views.
\<close>

type_synonym ntb_t = bytes

definition sizeof_nth16 :: nat where "sizeof_nth16 = 4 + 2 + 2 + 2 + 2"
definition sizeof_ndp16 :: nat where "sizeof_ndp16 = 4 + 2 + 2"
definition sizeof_ndp16_datagram :: nat where "sizeof_ndp16_datagram = 2 + 2"

definition sizeof_ndp_datagram_table :: nat where
  "sizeof_ndp_datagram_table = sizeof_ndp16_datagram * (NCM_MAX_DATAGRAMS_PER_NTB + 1)"

lemmas ntb_sizes = sizeof_nth16_def sizeof_ndp16_def sizeof_ndp16_datagram_def
  sizeof_ndp_datagram_table_def

definition nth_dwSignature :: "ntb_t \<Rightarrow> u32" where "nth_dwSignature m = rd32 m 0"
definition nth_wHeaderLength :: "ntb_t \<Rightarrow> u16" where "nth_wHeaderLength m = rd16 m 4"
definition nth_wSequence :: "ntb_t \<Rightarrow> u16" where "nth_wSequence m = rd16 m 6"
definition nth_wBlockLength :: "ntb_t \<Rightarrow> u16" where "nth_wBlockLength m = rd16 m 8"
definition nth_wNdpIndex :: "ntb_t \<Rightarrow> u16" where "nth_wNdpIndex m = rd16 m 10"
definition ndp_dwSignature :: "ntb_t \<Rightarrow> u32" where "ndp_dwSignature m = rd32 m 12"
definition ndp_wLength :: "ntb_t \<Rightarrow> u16" where "ndp_wLength m = rd16 m 16"
definition ndp_wNextNdpIndex :: "ntb_t \<Rightarrow> u16" where "ndp_wNextNdpIndex m = rd16 m 18"

text \<open>The offset of entry \<open>i\<close> of the datagram table of an \<^verbatim>\<open>ntb_def_t\<close>.\<close>

definition ndp_datagram_off :: "nat \<Rightarrow> nat" where
  "ndp_datagram_off i = sizeof_nth16 + sizeof_ndp16 + sizeof_ndp16_datagram * i"

definition ndp_wDatagramIndex :: "ntb_t \<Rightarrow> nat \<Rightarrow> u16" where
  "ndp_wDatagramIndex m i = rd16 m (ndp_datagram_off i)"

definition ndp_wDatagramLength :: "ntb_t \<Rightarrow> nat \<Rightarrow> u16" where
  "ndp_wDatagramLength m i = rd16 m (ndp_datagram_off i + 2)"

definition set_wBlockLength :: "u16 \<Rightarrow> ntb_t \<Rightarrow> ntb_t" where
  "set_wBlockLength v m = wr16 m 8 v"

definition set_ndp_datagram :: "nat \<Rightarrow> u16 \<Rightarrow> u16 \<Rightarrow> ntb_t \<Rightarrow> ntb_t" where
  "set_ndp_datagram i idx len m = wr16 (wr16 m (ndp_datagram_off i) idx) (ndp_datagram_off i + 2) len"

lemmas ntb_fields = nth_dwSignature_def nth_wHeaderLength_def nth_wSequence_def nth_wBlockLength_def
  nth_wNdpIndex_def ndp_dwSignature_def ndp_wLength_def ndp_wNextNdpIndex_def ndp_datagram_off_def
  ndp_wDatagramIndex_def ndp_wDatagramLength_def set_wBlockLength_def set_ndp_datagram_def ntb_sizes

text \<open>
  The header a fresh transmit NTB gets (the assignments of \<^verbatim>\<open>tx_accept_user_ntb\<close>): sequence
  number, one NDP right behind the header, an empty datagram table.  The payload area keeps what it
  held.
\<close>

definition ntb_populate :: "u16 \<Rightarrow> ntb_t \<Rightarrow> ntb_t" where
  "ntb_populate wseq m =
     (let m = wr32 m 0 NTH16_SIGNATURE;
          m = wr16 m 4 (of_nat sizeof_nth16);
          m = wr16 m 6 wseq;
          m = wr16 m 8 (of_nat (sizeof_nth16 + sizeof_ndp16 + sizeof_ndp_datagram_table));
          m = wr16 m 10 (of_nat sizeof_nth16);
          m = wr32 m 12 NDP16_SIGNATURE_NCM0;
          m = wr16 m 16 (of_nat (sizeof_ndp16 + sizeof_ndp_datagram_table));
          m = wr16 m 18 0
      in wr_list m (ndp_datagram_off 0) (replicate sizeof_ndp_datagram_table 0))"

text \<open>\<^verbatim>\<open>ALIGN_OFFSET(x)\<close> of struct.h, on a promoted \<^verbatim>\<open>uint16_t\<close>.\<close>

definition ALIGN_OFFSET :: "u16 \<Rightarrow> nat" where
  "ALIGN_OFFSET x =
     nat ((int 4 - (uint x AND int (NCM_NDP_ALIGN_MIN_SIZE - 1))) AND int (NCM_NDP_ALIGN_MIN_SIZE - 1))"

lemma ALIGN_OFFSET_eq: "ALIGN_OFFSET x = (4 - unat x mod 4) mod 4"
proof -
  have and3: "y AND 3 = y mod 4" for y :: int
    using take_bit_eq_mask [of 2 y] by (simp add: mask_eq_exp_minus_1 take_bit_eq_mod)
  have "uint x mod 4 = int (unat x mod 4)"
    by (simp add: zmod_int)
  moreover have "(4 - int (unat x mod 4)) mod 4 = int ((4 - unat x mod 4) mod 4)"
    using mod_less_divisor [of 4 "unat x"] by (simp only: zmod_int of_nat_diff less_imp_le) simp
  ultimately have "(4 - (uint x AND 3)) AND 3 = int ((4 - unat x mod 4) mod 4)"
    by (simp only: and3)
  then show ?thesis
    by (simp add: ALIGN_OFFSET_def NCM_NDP_ALIGN_MIN_SIZE_def)
qed

lemma ALIGN_OFFSET_less: "ALIGN_OFFSET x < 4"
  by (simp add: ALIGN_OFFSET_eq)

lemma pad4_dvd: "(4 :: nat) dvd n + (4 - n mod 4) mod 4"
proof -
  define q r where "q = n div 4" and "r = n mod 4"
  have "n = 4 * q + r" "r < 4"
    by (simp_all add: q_def r_def)
  moreover have "r = 0 \<or> r = 1 \<or> r = 2 \<or> r = 3" using \<open>r < 4\<close> by linarith
  ultimately have "n + (4 - r) mod 4 = 4 * q \<or> n + (4 - r) mod 4 = 4 * (q + 1)"
    by auto
  then show ?thesis
    unfolding r_def [symmetric] by (metis dvd_triv_left)
qed

lemma ALIGN_OFFSET_dvd: "4 dvd unat x + ALIGN_OFFSET x"
  unfolding ALIGN_OFFSET_eq by (rule pad4_dvd)

lemma ntb_populate_fields [simp]:
  "nth_dwSignature (ntb_populate q m) = NTH16_SIGNATURE"
  "nth_wHeaderLength (ntb_populate q m) = 12"
  "nth_wSequence (ntb_populate q m) = q"
  "nth_wBlockLength (ntb_populate q m) = 56"
  "nth_wNdpIndex (ntb_populate q m) = 12"
  "ndp_dwSignature (ntb_populate q m) = NDP16_SIGNATURE_NCM0"
  "ndp_wLength (ntb_populate q m) = 44"
  "ndp_wNextNdpIndex (ntb_populate q m) = 0"
  by (simp_all add: ntb_populate_def Let_def ntb_fields NCM_MAX_DATAGRAMS_PER_NTB_def)

lemma ntb_populate_table [simp]:
  assumes "i \<le> NCM_MAX_DATAGRAMS_PER_NTB"
  shows "ndp_wDatagramIndex (ntb_populate q m) i = 0" "ndp_wDatagramLength (ntb_populate q m) i = 0"
  using assms
  by (simp_all add: ntb_populate_def Let_def ntb_fields NCM_MAX_DATAGRAMS_PER_NTB_def rd16_def
      wr_list_at)

end
