(* ===== verification/Ncm_State.thy ===== *)
theory Ncm_State
  imports Ntb_Layout
begin

text \<open>
  The objects of the NCM class driver: the constant notification and parameter structures of
  struct.c with their memory images, the driver state \<^verbatim>\<open>ncm_interface_t\<close> of struct.h, the
  functions the driver calls in its environment (usb.h and the callbacks of net.h) and the actions
  by which driver code reads and writes its state.
\<close>

section \<open>Constant structures of struct.c\<close>

text \<open>
  \<^verbatim>\<open>bmRequestType\<close> is a packed bit field, allocated from the least significant bit:
  \<^verbatim>\<open>recipient : 5\<close>, \<^verbatim>\<open>type : 2\<close>, \<^verbatim>\<open>direction : 1\<close>.
\<close>

record bmRequestType_t =
  req_recipient :: "5 word"
  req_type :: "2 word"
  req_direction :: "1 word"

definition bmRequestType_byte :: "bmRequestType_t \<Rightarrow> u8" where
  "bmRequestType_byte b =
     ucast (req_recipient b) OR push_bit 5 (ucast (req_type b)) OR push_bit 7 (ucast (req_direction b))"

record usb_control_request_t =
  bmRequestType :: bmRequestType_t
  bRequest :: u8
  wValue :: u16
  wIndex :: u16
  wLength :: u16

record usb_cdc_notification_t =
  n_bmRequestType :: bmRequestType_t
  bNotificationType :: u8
  n_wValue :: u16
  n_wIndex :: u16
  n_wLength :: u16

record usb_cdc_notify_speed_t =
  header :: usb_cdc_notification_t
  DLBitRRate :: u32
  ULBitRate :: u32

record ntb_parameters_t =
  np_wLength :: u16
  bmNtbFormatsSupported :: u16
  dwNtbInMaxSize :: u32
  wNdpInDivisor :: u16
  wNdpInPayloadRemainder :: u16
  wNdpInAlignment :: u16
  wReserved :: u16
  dwNtbOutMaxSize :: u32
  wNdpOutDivisor :: u16
  wNdpOutPayloadRemainder :: u16
  wNdpOutAlignment :: u16
  wNtbOutMaxDatagrams :: u16

definition sizeof_ntb_parameters :: nat where
  "sizeof_ntb_parameters = 2 + 2 + 4 + 2 + 2 + 2 + 2 + 4 + 2 + 2 + 2 + 2"

text \<open>
  The initialiser \<^verbatim>\<open>{ USB_DATA_DEVICE_TO_HOST, USB_TYPE_CLASS, USB_RECIP_INTERFACE }\<close> is
  positional, so its first value is the recipient and its last the direction.
\<close>

definition notify_bmRequestType :: bmRequestType_t where
  "notify_bmRequestType = \<lparr>req_recipient = of_nat USB_DATA_DEVICE_TO_HOST,
     req_type = of_nat USB_TYPE_CLASS, req_direction = of_nat USB_RECIP_INTERFACE\<rparr>"

definition notify_connection :: usb_cdc_notification_t where
  "notify_connection = \<lparr>n_bmRequestType = notify_bmRequestType,
     bNotificationType = USB_CDC_NOTIFY_NETWORK_CONNECTION, n_wValue = 1, n_wIndex = 0, n_wLength = 0\<rparr>"

definition notify_speed :: usb_cdc_notify_speed_t where
  "notify_speed = \<lparr>header = \<lparr>n_bmRequestType = notify_bmRequestType,
       bNotificationType = USB_CDC_NOTIFY_SPEED_CHANGE, n_wValue = 0, n_wIndex = 0, n_wLength = 8\<rparr>,
     DLBitRRate = 480000000, ULBitRate = 480000000\<rparr>"

definition ntb_parameters :: ntb_parameters_t where
  "ntb_parameters = \<lparr>np_wLength = of_nat sizeof_ntb_parameters, bmNtbFormatsSupported = 0x01,
     dwNtbInMaxSize = of_nat NCM_NTB_MAX_SIZE, wNdpInDivisor = 1, wNdpInPayloadRemainder = 0,
     wNdpInAlignment = of_nat NCM_NDP_ALIGN_MIN_SIZE, wReserved = 0,
     dwNtbOutMaxSize = of_nat NCM_NDP_ALIGN_MIN_SIZE, wNdpOutDivisor = 1,
     wNdpOutPayloadRemainder = 0, wNdpOutAlignment = of_nat NCM_NDP_ALIGN_MIN_SIZE,
     wNtbOutMaxDatagrams = 6\<rparr>"

text \<open>Memory images of the packed structures, as the host receives them.\<close>

definition notification_bytes :: "usb_cdc_notification_t \<Rightarrow> u8 list" where
  "notification_bytes n = [bmRequestType_byte (n_bmRequestType n), bNotificationType n]
     @ le16 (n_wValue n) @ le16 (n_wIndex n) @ le16 (n_wLength n)"

definition notify_speed_bytes :: "usb_cdc_notify_speed_t \<Rightarrow> u8 list" where
  "notify_speed_bytes n = notification_bytes (header n) @ le32 (DLBitRRate n) @ le32 (ULBitRate n)"

definition ntb_parameters_bytes :: "ntb_parameters_t \<Rightarrow> u8 list" where
  "ntb_parameters_bytes p = le16 (np_wLength p) @ le16 (bmNtbFormatsSupported p)
     @ le32 (dwNtbInMaxSize p) @ le16 (wNdpInDivisor p) @ le16 (wNdpInPayloadRemainder p)
     @ le16 (wNdpInAlignment p) @ le16 (wReserved p) @ le32 (dwNtbOutMaxSize p)
     @ le16 (wNdpOutDivisor p) @ le16 (wNdpOutPayloadRemainder p) @ le16 (wNdpOutAlignment p)
     @ le16 (wNtbOutMaxDatagrams p)"

lemma length_notification_bytes [simp]: "length (notification_bytes n) = 8"
  by (simp add: notification_bytes_def)

lemma length_notify_speed_bytes [simp]: "length (notify_speed_bytes n) = 16"
  by (simp add: notify_speed_bytes_def)

lemma length_ntb_parameters_bytes [simp]: "length (ntb_parameters_bytes p) = sizeof_ntb_parameters"
  by (simp add: ntb_parameters_bytes_def sizeof_ntb_parameters_def)

section \<open>Driver state\<close>

text \<open>
  An \<^verbatim>\<open>ntb_t *\<close> of the driver is the address of an element of \<^verbatim>\<open>rx_ntb\<close> or
  \<^verbatim>\<open>tx_ntb\<close>; \<^verbatim>\<open>NULL\<close> is \<^const>\<open>None\<close>.
\<close>

datatype ntb_ptr = RxNtb nat | TxNtb nat

datatype notifiy_state_t = TX_NOTIFY_STATE_WAITING | TX_NOTIFY_STATE_SPEED_CHANGE
  | TX_NOTIFY_STATE_CONNECTED

record ncm_interface_t =
  interface_active :: u8
  rx_ntb :: "nat \<Rightarrow> ntb_t"
  rx_free_ntb :: "ntb_ptr ntb_list_t"
  rx_wait_ntb :: "ntb_ptr ntb_list_t"
  rx_usbd_ntb :: "ntb_ptr option"
  rx_user_ntb :: "ntb_ptr option"
  rx_user_ntb_datagram_index :: u16
  tx_ntb :: "nat \<Rightarrow> ntb_t"
  tx_free_ntb :: "ntb_ptr ntb_list_t"
  tx_wait_ntb :: "ntb_ptr ntb_list_t"
  tx_usbd_ntb :: "ntb_ptr option"
  tx_user_ntb :: "ntb_ptr option"
  tx_user_ntb_datagram_index :: u16
  tx_seq_count :: u16
  notification_state :: notifiy_state_t

text \<open>The value of a zeroed structure (static initialisation and \<^verbatim>\<open>memset\<close>).\<close>

definition ncm_zero :: ncm_interface_t where
  "ncm_zero = \<lparr>interface_active = 0, rx_ntb = (\<lambda>_ _. 0), rx_free_ntb = empty_ntb_list,
     rx_wait_ntb = empty_ntb_list, rx_usbd_ntb = None, rx_user_ntb = None,
     rx_user_ntb_datagram_index = 0, tx_ntb = (\<lambda>_ _. 0), tx_free_ntb = empty_ntb_list,
     tx_wait_ntb = empty_ntb_list, tx_usbd_ntb = None, tx_user_ntb = None,
     tx_user_ntb_datagram_index = 0, tx_seq_count = 0, notification_state = TX_NOTIFY_STATE_WAITING\<rparr>"

section \<open>The environment of the driver\<close>

text \<open>
  What a buffer pointer handed to the environment points to: nothing, an NTB (its pointer and its
  bytes at the time of the call), or a constant object.
\<close>

datatype usb_buf = BufNull | BufNtb ntb_ptr bytes | BufBytes "u8 list"

text \<open>
  The functions of usb.h and the callbacks of net.h, over a world \<open>'w\<close> of their own; \<open>'d\<close> is
  the type of the datagram handle an application passes to \<^verbatim>\<open>net_tx\<close>.  \<^verbatim>\<open>net_tx_cb\<close>
  returns the bytes it stores at its destination and its return value; \<^verbatim>\<open>net_rx_cb\<close> gets the
  NTB, the offset its pointer argument has in it, and the size.
\<close>

record ('w, 'd) ncm_env =
  usb_transfer_ep0 :: "usb_control_request_t \<Rightarrow> usb_buf \<Rightarrow> u16 \<Rightarrow> ('w, bool) act"
  usb_transfer_ep :: "u8 \<Rightarrow> usb_buf \<Rightarrow> u16 \<Rightarrow> ('w, bool) act"
  usb_control_status :: "usb_control_request_t \<Rightarrow> ('w, bool) act"
  usb_ep_busy :: "u8 \<Rightarrow> ('w, bool) act"
  net_tx_cb :: "'d \<Rightarrow> u16 \<Rightarrow> ('w, u8 list \<times> u16) act"
  net_rx_cb :: "bytes \<Rightarrow> nat \<Rightarrow> u16 \<Rightarrow> ('w, u16) act"

record 'w ncm_sys =
  ncm_if :: ncm_interface_t
  world :: 'w

section \<open>Actions on the driver state\<close>

definition modify_if :: "(ncm_interface_t \<Rightarrow> ncm_interface_t) \<Rightarrow> ('w ncm_sys, unit) act" where
  "modify_if f = act_modify (\<lambda>s. s\<lparr>ncm_if := f (ncm_if s)\<rparr>)"

definition get_if :: "(ncm_interface_t \<Rightarrow> 'a) \<Rightarrow> ('w ncm_sys, 'a) act" where
  "get_if f = act_gets (\<lambda>s. f (ncm_if s))"

text \<open>A call on one of the driver's lists, passed by address.\<close>

definition on_list :: "(ncm_interface_t \<Rightarrow> ntb_ptr ntb_list_t) \<Rightarrow>
    ((ntb_ptr ntb_list_t \<Rightarrow> ntb_ptr ntb_list_t) \<Rightarrow> ncm_interface_t \<Rightarrow> ncm_interface_t) \<Rightarrow>
    (ntb_ptr ntb_list_t, 'a) act \<Rightarrow> ('w ncm_sys, 'a) act" where
  "on_list get upd m s =
     (case m (get (ncm_if s)) of
        Inl e \<Rightarrow> Inl e
      | Inr (r, l) \<Rightarrow> Inr (r, s\<lparr>ncm_if := upd (\<lambda>_. l) (ncm_if s)\<rparr>))"

text \<open>A call into the environment.\<close>

definition in_world :: "('w, 'a) act \<Rightarrow> ('w ncm_sys, 'a) act" where
  "in_world m s =
     (case m (world s) of Inl e \<Rightarrow> Inl (EnvFault e) | Inr (r, w) \<Rightarrow> Inr (r, s\<lparr>world := w\<rparr>))"

text \<open>Reading and writing the object an NTB pointer points to.\<close>

fun ntb_valid :: "ntb_ptr \<Rightarrow> bool" where
  "ntb_valid (RxNtb i) = (i < NCM_NTB_N)"
| "ntb_valid (TxNtb i) = (i < NCM_NTB_N)"

fun ntb_obj :: "ncm_interface_t \<Rightarrow> ntb_ptr \<Rightarrow> ntb_t" where
  "ntb_obj s (RxNtb i) = rx_ntb s i"
| "ntb_obj s (TxNtb i) = tx_ntb s i"

fun ntb_obj_update :: "ntb_ptr \<Rightarrow> (ntb_t \<Rightarrow> ntb_t) \<Rightarrow> ncm_interface_t \<Rightarrow> ncm_interface_t" where
  "ntb_obj_update (RxNtb i) f s = s\<lparr>rx_ntb := (rx_ntb s)(i := f (rx_ntb s i))\<rparr>"
| "ntb_obj_update (TxNtb i) f s = s\<lparr>tx_ntb := (tx_ntb s)(i := f (tx_ntb s i))\<rparr>"

definition ntb_read :: "ntb_ptr \<Rightarrow> ('w ncm_sys, ntb_t) act" where
  "ntb_read p = act_bind (act_check OutOfBounds (ntb_valid p)) (\<lambda>_. get_if (\<lambda>s. ntb_obj s p))"

definition ntb_modify :: "ntb_ptr \<Rightarrow> (ntb_t \<Rightarrow> ntb_t) \<Rightarrow> ('w ncm_sys, unit) act" where
  "ntb_modify p f = act_bind (act_check OutOfBounds (ntb_valid p)) (\<lambda>_. modify_if (ntb_obj_update p f))"

text \<open>A read of \<open>n\<close> bytes at offset \<open>a\<close> of an NTB stays inside its 3200 bytes.\<close>

definition ntb_in_bounds :: "nat \<Rightarrow> nat \<Rightarrow> bool" where
  "ntb_in_bounds a n \<longleftrightarrow> a + n \<le> NCM_NTB_MAX_SIZE"

subsection \<open>Weakest preconditions of the actions\<close>

lemma wpx_modify_if [wp, simp]: "wpx F (modify_if f) Q s = Q () (s\<lparr>ncm_if := f (ncm_if s)\<rparr>)"
  by (simp add: modify_if_def)

lemma wpx_get_if [wp, simp]: "wpx F (get_if f) Q s = Q (f (ncm_if s)) s"
  by (simp add: get_if_def)

lemma wpx_on_list [wp, simp]:
  "wpx F (on_list get upd m) Q s =
     wpx F m (\<lambda>r l. Q r (s\<lparr>ncm_if := upd (\<lambda>_. l) (ncm_if s)\<rparr>)) (get (ncm_if s))"
  by (simp add: wpx_def on_list_def split: sum.split prod.split)

lemma wpx_in_world [wp, simp]:
  "wpx F (in_world m) Q s = wpx (EnvFault -` F) m (\<lambda>r w. Q r (s\<lparr>world := w\<rparr>)) (world s)"
  by (simp add: wpx_def in_world_def split: sum.split prod.split)

lemma wpx_ntb_read [wp, simp]:
  "wpx F (ntb_read p) Q s = (if ntb_valid p then Q (ntb_obj (ncm_if s) p) s else OutOfBounds \<in> F)"
  by (simp add: ntb_read_def)

lemma wpx_ntb_modify [wp, simp]:
  "wpx F (ntb_modify p f) Q s =
     (if ntb_valid p then Q () (s\<lparr>ncm_if := ntb_obj_update p f (ncm_if s)\<rparr>) else OutOfBounds \<in> F)"
  by (simp add: ntb_modify_def)

text \<open>
  The environment is unknown: a call into it may return anything or fault, and it does not touch
  the driver's state.  The same holds for a list operation of which nothing is known.
\<close>

lemmas world_any = wlp_any [where m = "usb_transfer_ep0 E r b n" for E r b n]
  wlp_any [where m = "usb_transfer_ep E e b n" for E e b n]
  wlp_any [where m = "usb_control_status E r" for E r]
  wlp_any [where m = "usb_ep_busy E e" for E e]
  wlp_any [where m = "net_tx_cb E d a" for E d a]
  wlp_any [where m = "net_rx_cb E m i n" for E m i n]

lemmas list_any = wlp_any [where m = "push_ntb p" for p] wlp_any [where m = pop_ntb]

lemma ntb_obj_update_frame [simp]:
  "interface_active (ntb_obj_update p f s) = interface_active s"
  "rx_free_ntb (ntb_obj_update p f s) = rx_free_ntb s"
  "rx_wait_ntb (ntb_obj_update p f s) = rx_wait_ntb s"
  "rx_usbd_ntb (ntb_obj_update p f s) = rx_usbd_ntb s"
  "rx_user_ntb (ntb_obj_update p f s) = rx_user_ntb s"
  "rx_user_ntb_datagram_index (ntb_obj_update p f s) = rx_user_ntb_datagram_index s"
  "tx_free_ntb (ntb_obj_update p f s) = tx_free_ntb s"
  "tx_wait_ntb (ntb_obj_update p f s) = tx_wait_ntb s"
  "tx_usbd_ntb (ntb_obj_update p f s) = tx_usbd_ntb s"
  "tx_user_ntb (ntb_obj_update p f s) = tx_user_ntb s"
  "tx_user_ntb_datagram_index (ntb_obj_update p f s) = tx_user_ntb_datagram_index s"
  "tx_seq_count (ntb_obj_update p f s) = tx_seq_count s"
  "notification_state (ntb_obj_update p f s) = notification_state s"
  by (cases p; simp)+

lemma ntb_obj_update_obj [simp]:
  "ntb_obj (ntb_obj_update p f s) q = (if p = q then f (ntb_obj s q) else ntb_obj s q)"
  by (cases p; cases q) auto

lemma ntb_obj_frame [simp]:
  "ntb_obj (interface_active_update f0 s) p = ntb_obj s p"
  "ntb_obj (rx_free_ntb_update f1 s) p = ntb_obj s p"
  "ntb_obj (rx_wait_ntb_update f2 s) p = ntb_obj s p"
  "ntb_obj (rx_usbd_ntb_update f3 s) p = ntb_obj s p"
  "ntb_obj (rx_user_ntb_update f4 s) p = ntb_obj s p"
  "ntb_obj (rx_user_ntb_datagram_index_update f5 s) p = ntb_obj s p"
  "ntb_obj (tx_free_ntb_update f6 s) p = ntb_obj s p"
  "ntb_obj (tx_wait_ntb_update f7 s) p = ntb_obj s p"
  "ntb_obj (tx_usbd_ntb_update f8 s) p = ntb_obj s p"
  "ntb_obj (tx_user_ntb_update f9 s) p = ntb_obj s p"
  "ntb_obj (tx_user_ntb_datagram_index_update f10 s) p = ntb_obj s p"
  "ntb_obj (tx_seq_count_update f11 s) p = ntb_obj s p"
  "ntb_obj (notification_state_update f12 s) p = ntb_obj s p"
  by (cases p; simp)+

lemma ntb_obj_update_comp [simp]:
  "ntb_obj_update p f (ntb_obj_update p g s) = ntb_obj_update p (\<lambda>m. f (g m)) s"
  by (cases p) simp_all

lemma ntb_obj_update_cong:
  "f (ntb_obj s p) = g (ntb_obj s p) \<Longrightarrow> ntb_obj_update p f s = ntb_obj_update p g s"
  by (cases p) simp_all

lemma ntb_obj_update_index [simp]:
  "tx_user_ntb_datagram_index_update f (ntb_obj_update p g s) =
     ntb_obj_update p g (tx_user_ntb_datagram_index_update f s)"
  by (cases p) simp_all

section \<open>Frame relations\<close>

text \<open>
  \<open>keeps R m\<close>: whenever \<open>m\<close> returns, the driver states before and after are related by
  \<open>R\<close>.  For a reflexive and transitive relation this composes over the actions, which is how the
  operations of the driver are shown to keep the parts of the state they do not own.
\<close>

definition keeps :: "(ncm_interface_t \<Rightarrow> ncm_interface_t \<Rightarrow> bool) \<Rightarrow> ('w ncm_sys, 'a) act \<Rightarrow> bool" where
  "keeps R m \<longleftrightarrow> (\<forall>s. wlp m (\<lambda>_ s'. R (ncm_if s) (ncm_if s')) s)"

lemma keepsD: "keeps R m \<Longrightarrow> m s = Inr (x, s') \<Longrightarrow> R (ncm_if s) (ncm_if s')"
  by (auto simp: keeps_def wpx_def dest: spec [of _ s])

lemma keeps_iff: "keeps R m \<longleftrightarrow> (\<forall>s x s'. m s = Inr (x, s') \<longrightarrow> R (ncm_if s) (ncm_if s'))"
  by (auto simp: keeps_def wpx_def split: sum.splits)

locale frame_rel =
  fixes R :: "ncm_interface_t \<Rightarrow> ncm_interface_t \<Rightarrow> bool"
  assumes refl: "R a a"
    and trans: "R a b \<Longrightarrow> R b c \<Longrightarrow> R a c"
begin

lemma keeps_return: "keeps R (act_return x)"
  by (simp add: keeps_def refl)

lemma keeps_get: "keeps R (get_if f)"
  by (simp add: keeps_def refl)

lemma keeps_check: "keeps R (act_check e b)"
  by (simp add: keeps_def refl)

lemma keeps_fail: "keeps R (act_fail e)"
  by (simp add: keeps_def)

lemma keeps_world: "keeps R (in_world m)"
  by (auto simp: keeps_def refl intro: wlp_any)

lemma keeps_read: "keeps R (ntb_read p)"
  by (simp add: keeps_def refl)

lemma keeps_modify: "(\<And>a. R a (f a)) \<Longrightarrow> keeps R (modify_if f)"
  by (simp add: keeps_def)

lemma keeps_ntb_modify: "(\<And>a. R a (ntb_obj_update p f a)) \<Longrightarrow> keeps R (ntb_modify p f)"
  by (simp add: keeps_def)

lemma keeps_list: "(\<And>a l. R a (upd (\<lambda>_. l) a)) \<Longrightarrow> keeps R (on_list get upd m)"
  by (auto simp: keeps_def intro: wlp_any)

lemma keeps_bind: "keeps R m \<Longrightarrow> (\<And>x. keeps R (f x)) \<Longrightarrow> keeps R (act_bind m f)"
  unfolding keeps_iff by (auto simp: act_bind_def split: sum.splits) (metis trans)

lemma keeps_if: "keeps R m \<Longrightarrow> keeps R n \<Longrightarrow> keeps R (if b then m else n)"
  by simp

lemma keeps_option: "keeps R m \<Longrightarrow> (\<And>y. keeps R (n y)) \<Longrightarrow> keeps R (case x of None \<Rightarrow> m | Some y \<Rightarrow> n y)"
  by (simp split: option.split)

lemma keeps_prod: "(\<And>a b. keeps R (m a b)) \<Longrightarrow> keeps R (case x of (a, b) \<Rightarrow> m a b)"
  by (simp split: prod.split)

lemmas keeps_rules = keeps_return keeps_get keeps_check keeps_fail keeps_world keeps_read keeps_bind
  keeps_if keeps_option keeps_prod

end

end
