(* ===== verification/Ncm_Tx.thy ===== *)
theory Ncm_Tx
  imports Ncm_State
begin

text \<open>
  The transmit path (tx.c of the driver the firmware links): notifications, zero-length packets,
  the choice of the NTB that collects datagrams and the start of a bulk IN transfer.
\<close>

section \<open>Operations\<close>

definition sizeof_notify_speed :: u16 where "sizeof_notify_speed = 16"
definition sizeof_notify_connection :: u16 where "sizeof_notify_connection = 8"

definition tx_notification :: "('w, 'd) ncm_env \<Rightarrow> bool \<Rightarrow> ('w ncm_sys, unit) act" where
  "tx_notification E force_next =
     act_bind (get_if notification_state) (\<lambda>st.
     if \<not> force_next \<and> st \<noteq> TX_NOTIFY_STATE_WAITING then act_return ()
     else if st = TX_NOTIFY_STATE_WAITING then
       act_bind (modify_if (notification_state_update (\<lambda>_. TX_NOTIFY_STATE_SPEED_CHANGE))) (\<lambda>_.
       act_bind (in_world (usb_transfer_ep E NCM_EP_NOTIFY
         (BufBytes (notify_speed_bytes notify_speed)) sizeof_notify_speed)) (\<lambda>_.
       act_bind (in_world (usb_transfer_ep E NCM_EP_NOTIFY
         (BufBytes (notification_bytes notify_connection)) sizeof_notify_connection)) (\<lambda>_.
       modify_if (notification_state_update (\<lambda>_. TX_NOTIFY_STATE_CONNECTED)))))
     else if st = TX_NOTIFY_STATE_CONNECTED then
       modify_if (notification_state_update (\<lambda>_. TX_NOTIFY_STATE_WAITING))
     else act_return ())"

definition tx_insert_zlp :: "('w, 'd) ncm_env \<Rightarrow> u16 \<Rightarrow> ('w ncm_sys, bool) act" where
  "tx_insert_zlp E sz =
     (if sz = 0 \<or> unat sz mod NCM_EP_SIZE \<noteq> 0 then act_return False
      else act_bind (in_world (usb_transfer_ep E NCM_EP_DATA_IN BufNull 0)) (\<lambda>_. act_return True))"

definition tx_datagram_fits_user_ntb :: "u16 \<Rightarrow> ('w ncm_sys, bool) act" where
  "tx_datagram_fits_user_ntb datagram_size =
     act_bind (get_if tx_user_ntb) (\<lambda>user.
     case user of
       None \<Rightarrow> act_return False
     | Some p \<Rightarrow>
         act_bind (get_if tx_user_ntb_datagram_index) (\<lambda>idx.
         if unat idx \<ge> NCM_MAX_DATAGRAMS_PER_NTB then act_return False
         else act_bind (ntb_read p) (\<lambda>ntb.
           if unat (nth_wBlockLength ntb) + unat datagram_size + ALIGN_OFFSET datagram_size
                > NCM_NTB_MAX_SIZE
           then act_return False else act_return True)))"

definition tx_accept_user_ntb :: "('w ncm_sys, bool) act" where
  "tx_accept_user_ntb =
     act_bind (get_if tx_user_ntb) (\<lambda>user.
     act_bind (if user \<noteq> None then on_list tx_wait_ntb tx_wait_ntb_update (push_ntb user)
               else act_return True) (\<lambda>pushed.
     if \<not> pushed then act_return False
     else
       act_bind (on_list tx_free_ntb tx_free_ntb_update pop_ntb) (\<lambda>fresh.
       act_bind (modify_if (tx_user_ntb_update (\<lambda>_. fresh))) (\<lambda>_.
       case fresh of
         None \<Rightarrow> act_return False
       | Some p \<Rightarrow>
           act_bind (modify_if (tx_user_ntb_datagram_index_update (\<lambda>_. 0))) (\<lambda>_.
           act_bind (get_if tx_seq_count) (\<lambda>wseq.
           act_bind (modify_if (tx_seq_count_update (\<lambda>n. n + 1))) (\<lambda>_.
           act_bind (ntb_modify p (ntb_populate wseq)) (\<lambda>_.
           act_return True))))))))"

definition tx_try_start :: "('w, 'd) ncm_env \<Rightarrow> ('w ncm_sys, bool) act" where
  "tx_try_start E =
     act_bind (get_if tx_usbd_ntb) (\<lambda>usbd.
     if usbd \<noteq> None then act_return False
     else act_bind (get_if interface_active) (\<lambda>active.
     if active \<noteq> 1 then act_return False
     else act_bind (in_world (usb_ep_busy E NCM_EP_DATA_IN)) (\<lambda>busy.
     if busy then act_return False
     else act_bind (on_list tx_wait_ntb tx_wait_ntb_update pop_ntb) (\<lambda>waiting.
     act_bind (modify_if (tx_usbd_ntb_update (\<lambda>_. waiting))) (\<lambda>_.
     act_bind (get_if tx_user_ntb) (\<lambda>user.
     act_bind (get_if tx_user_ntb_datagram_index) (\<lambda>idx.
     if waiting = None \<and> (user = None \<or> idx = 0) then act_return False
     else
       act_bind (if waiting = None
                 then modify_if (\<lambda>s. s\<lparr>tx_usbd_ntb := tx_user_ntb s, tx_user_ntb := None\<rparr>)
                 else act_return ()) (\<lambda>_.
       act_bind (get_if tx_usbd_ntb) (\<lambda>sending.
       case sending of
         None \<Rightarrow> act_fail NullDeref
       | Some p \<Rightarrow>
           act_bind (ntb_read p) (\<lambda>ntb.
           in_world (usb_transfer_ep E NCM_EP_DATA_IN (BufNtb p ntb) (nth_wBlockLength ntb))))))))))))"

section \<open>Well-formed transmit blocks\<close>

text \<open>
  \<open>ntb_wf m n\<close>: the block is an NTB16 with one NDP and \<open>n\<close> datagrams.  The table lists
  non-empty datagrams at aligned offsets behind the headers, in order and without overlap, inside the
  block; the remaining entries are zero, so the table is terminated; the block fits its buffer.
\<close>

definition ntb_wf :: "ntb_t \<Rightarrow> nat \<Rightarrow> bool" where
  "ntb_wf m n \<longleftrightarrow>
     nth_dwSignature m = NTH16_SIGNATURE \<and> nth_wHeaderLength m = 12 \<and> nth_wNdpIndex m = 12
   \<and> ndp_dwSignature m = NDP16_SIGNATURE_NCM0 \<and> ndp_wLength m = 44 \<and> ndp_wNextNdpIndex m = 0
   \<and> 56 \<le> unat (nth_wBlockLength m) \<and> unat (nth_wBlockLength m) \<le> NCM_NTB_MAX_SIZE
   \<and> 4 dvd unat (nth_wBlockLength m)
   \<and> n \<le> NCM_MAX_DATAGRAMS_PER_NTB
   \<and> (\<forall>i<n. 56 \<le> unat (ndp_wDatagramIndex m i) \<and> 4 dvd unat (ndp_wDatagramIndex m i)
          \<and> 0 < unat (ndp_wDatagramLength m i)
          \<and> unat (ndp_wDatagramIndex m i) + unat (ndp_wDatagramLength m i) \<le> unat (nth_wBlockLength m))
   \<and> (\<forall>j<n. \<forall>i<j. unat (ndp_wDatagramIndex m i) + unat (ndp_wDatagramLength m i)
          \<le> unat (ndp_wDatagramIndex m j))
   \<and> (\<forall>i. n \<le> i \<and> i \<le> NCM_MAX_DATAGRAMS_PER_NTB \<longrightarrow>
          ndp_wDatagramIndex m i = 0 \<and> ndp_wDatagramLength m i = 0)"

text \<open>The bytes of datagram \<open>i\<close>, and the host's reading of a block: the table up to its terminator.\<close>

definition ntb_datagram :: "ntb_t \<Rightarrow> nat \<Rightarrow> u8 list" where
  "ntb_datagram m i =
     map m [unat (ndp_wDatagramIndex m i) ..<
            unat (ndp_wDatagramIndex m i) + unat (ndp_wDatagramLength m i)]"

definition ntb_datagrams :: "ntb_t \<Rightarrow> u8 list list" where
  "ntb_datagrams m =
     map (ntb_datagram m)
       (takeWhile (\<lambda>i. ndp_wDatagramIndex m i \<noteq> 0 \<and> ndp_wDatagramLength m i \<noteq> 0)
         [0..<NCM_MAX_DATAGRAMS_PER_NTB + 1])"

lemma ntb_wf_populate [simp]: "ntb_wf (ntb_populate q m) 0"
  by (simp add: ntb_wf_def NCM_NTB_MAX_SIZE_def)

lemma ntb_wf_takeWhile:
  assumes "ntb_wf m n"
  shows "takeWhile (\<lambda>i. ndp_wDatagramIndex m i \<noteq> 0 \<and> ndp_wDatagramLength m i \<noteq> 0)
           [0..<NCM_MAX_DATAGRAMS_PER_NTB + 1] = [0..<n]" (is "takeWhile ?P _ = _")
proof -
  have n: "n \<le> NCM_MAX_DATAGRAMS_PER_NTB"
    using assms by (simp add: ntb_wf_def)
  have "[0..<NCM_MAX_DATAGRAMS_PER_NTB + 1] = [0..<n] @ n # [Suc n..<NCM_MAX_DATAGRAMS_PER_NTB + 1]"
    using n upt_add_eq_append [of 0 n "NCM_MAX_DATAGRAMS_PER_NTB + 1 - n"]
      upt_conv_Cons [of n "NCM_MAX_DATAGRAMS_PER_NTB + 1"] by simp
  moreover have "takeWhile ?P ([0..<n] @ n # ys) = [0..<n] @ takeWhile ?P (n # ys)" for ys
    by (rule takeWhile_append2) (use assms in \<open>auto simp: ntb_wf_def unat_gt_0\<close>)
  moreover have "\<not> ?P n"
    using assms n by (auto simp: ntb_wf_def)
  ultimately show ?thesis
    by (simp only: takeWhile.simps if_False append_Nil2)
qed

lemma ntb_datagrams_wf: "ntb_wf m n \<Longrightarrow> ntb_datagrams m = map (ntb_datagram m) [0..<n]"
  unfolding ntb_datagrams_def by (simp only: ntb_wf_takeWhile)

subsection \<open>Appending a datagram\<close>

lemma set_ndp_datagram_fields [simp]:
  "nth_dwSignature (set_ndp_datagram k a l m) = nth_dwSignature m"
  "nth_wHeaderLength (set_ndp_datagram k a l m) = nth_wHeaderLength m"
  "nth_wSequence (set_ndp_datagram k a l m) = nth_wSequence m"
  "nth_wBlockLength (set_ndp_datagram k a l m) = nth_wBlockLength m"
  "nth_wNdpIndex (set_ndp_datagram k a l m) = nth_wNdpIndex m"
  "ndp_dwSignature (set_ndp_datagram k a l m) = ndp_dwSignature m"
  "ndp_wLength (set_ndp_datagram k a l m) = ndp_wLength m"
  "ndp_wNextNdpIndex (set_ndp_datagram k a l m) = ndp_wNextNdpIndex m"
  "ndp_wDatagramIndex (set_ndp_datagram k a l m) i = (if i = k then a else ndp_wDatagramIndex m i)"
  "ndp_wDatagramLength (set_ndp_datagram k a l m) i = (if i = k then l else ndp_wDatagramLength m i)"
  by (cases i k rule: linorder_cases; auto simp: ntb_fields)+

lemma set_wBlockLength_fields [simp]:
  "nth_dwSignature (set_wBlockLength v m) = nth_dwSignature m"
  "nth_wHeaderLength (set_wBlockLength v m) = nth_wHeaderLength m"
  "nth_wSequence (set_wBlockLength v m) = nth_wSequence m"
  "nth_wBlockLength (set_wBlockLength v m) = v"
  "nth_wNdpIndex (set_wBlockLength v m) = nth_wNdpIndex m"
  "ndp_dwSignature (set_wBlockLength v m) = ndp_dwSignature m"
  "ndp_wLength (set_wBlockLength v m) = ndp_wLength m"
  "ndp_wNextNdpIndex (set_wBlockLength v m) = ndp_wNextNdpIndex m"
  "ndp_wDatagramIndex (set_wBlockLength v m) i = ndp_wDatagramIndex m i"
  "ndp_wDatagramLength (set_wBlockLength v m) i = ndp_wDatagramLength m i"
  by (auto simp: ntb_fields)

lemma payload_write_fields [simp]:
  assumes "56 \<le> a"
  shows "nth_dwSignature (wr_list m a bs) = nth_dwSignature m"
    "nth_wHeaderLength (wr_list m a bs) = nth_wHeaderLength m"
    "nth_wSequence (wr_list m a bs) = nth_wSequence m"
    "nth_wBlockLength (wr_list m a bs) = nth_wBlockLength m"
    "nth_wNdpIndex (wr_list m a bs) = nth_wNdpIndex m"
    "ndp_dwSignature (wr_list m a bs) = ndp_dwSignature m"
    "ndp_wLength (wr_list m a bs) = ndp_wLength m"
    "ndp_wNextNdpIndex (wr_list m a bs) = ndp_wNextNdpIndex m"
    "i \<le> NCM_MAX_DATAGRAMS_PER_NTB \<Longrightarrow> ndp_wDatagramIndex (wr_list m a bs) i = ndp_wDatagramIndex m i"
    "i \<le> NCM_MAX_DATAGRAMS_PER_NTB \<Longrightarrow> ndp_wDatagramLength (wr_list m a bs) i = ndp_wDatagramLength m i"
  using assms by (auto simp: ntb_fields NCM_MAX_DATAGRAMS_PER_NTB_def)

text \<open>The effect of \<^verbatim>\<open>net_tx\<close> on the collecting block: payload, table entry, block length.\<close>

definition ntb_append :: "nat \<Rightarrow> u8 list \<Rightarrow> u16 \<Rightarrow> ntb_t \<Rightarrow> ntb_t" where
  "ntb_append n bs sz m =
     (let m1 = wr_list m (unat (nth_wBlockLength m)) bs;
          m2 = set_ndp_datagram n (nth_wBlockLength m1) sz m1
      in set_wBlockLength (nth_wBlockLength m2 + of_nat (unat sz + ALIGN_OFFSET sz)) m2)"

lemma table_write_payload:
  "n \<le> NCM_MAX_DATAGRAMS_PER_NTB \<Longrightarrow> 56 \<le> j \<Longrightarrow> set_wBlockLength v (set_ndp_datagram n a l m) j = m j"
  by (auto simp: ntb_fields NCM_MAX_DATAGRAMS_PER_NTB_def)

lemma ntb_append_fields [simp]:
  assumes "56 \<le> unat (nth_wBlockLength m)"
  shows "nth_dwSignature (ntb_append n bs sz m) = nth_dwSignature m"
    "nth_wHeaderLength (ntb_append n bs sz m) = nth_wHeaderLength m"
    "nth_wSequence (ntb_append n bs sz m) = nth_wSequence m"
    "nth_wBlockLength (ntb_append n bs sz m) = nth_wBlockLength m + of_nat (unat sz + ALIGN_OFFSET sz)"
    "nth_wNdpIndex (ntb_append n bs sz m) = nth_wNdpIndex m"
    "ndp_dwSignature (ntb_append n bs sz m) = ndp_dwSignature m"
    "ndp_wLength (ntb_append n bs sz m) = ndp_wLength m"
    "ndp_wNextNdpIndex (ntb_append n bs sz m) = ndp_wNextNdpIndex m"
    "i \<le> NCM_MAX_DATAGRAMS_PER_NTB \<Longrightarrow> ndp_wDatagramIndex (ntb_append n bs sz m) i =
       (if i = n then nth_wBlockLength m else ndp_wDatagramIndex m i)"
    "i \<le> NCM_MAX_DATAGRAMS_PER_NTB \<Longrightarrow> ndp_wDatagramLength (ntb_append n bs sz m) i =
       (if i = n then sz else ndp_wDatagramLength m i)"
  using assms by (simp_all add: ntb_append_def Let_def)

lemma ntb_append_payload:
  assumes "56 \<le> unat (nth_wBlockLength m)" "n \<le> NCM_MAX_DATAGRAMS_PER_NTB" "56 \<le> j"
  shows "ntb_append n bs sz m j = wr_list m (unat (nth_wBlockLength m)) bs j"
  using assms by (simp add: ntb_append_def Let_def table_write_payload)

text \<open>The sum stays below the 16-bit limit whenever the block fits its buffer.\<close>

lemma block_length_add:
  assumes "unat (bl :: u16) + unat sz + ALIGN_OFFSET sz \<le> NCM_NTB_MAX_SIZE"
  shows "unat (bl + of_nat (unat sz + ALIGN_OFFSET sz)) = unat bl + unat sz + ALIGN_OFFSET sz"
  using assms by (simp add: word_to_nat NCM_NTB_MAX_SIZE_def del: of_nat_add)

lemma ntb_append_wf:
  assumes wf: "ntb_wf m n" and n: "n < NCM_MAX_DATAGRAMS_PER_NTB"
    and fits: "unat (nth_wBlockLength m) + unat sz + ALIGN_OFFSET sz \<le> NCM_NTB_MAX_SIZE"
    and sz: "0 < unat sz"
  shows "ntb_wf (ntb_append n bs sz m) (Suc n)"
proof -
  let ?m = "ntb_append n bs sz m"
  have bl: "56 \<le> unat (nth_wBlockLength m)" "4 dvd unat (nth_wBlockLength m)"
    using wf by (simp_all add: ntb_wf_def)
  have bl': "unat (nth_wBlockLength ?m) = unat (nth_wBlockLength m) + (unat sz + ALIGN_OFFSET sz)"
    using block_length_add [OF fits] bl by simp
  moreover have "4 dvd unat (nth_wBlockLength m) + (unat sz + ALIGN_OFFSET sz)"
    using bl ALIGN_OFFSET_dvd dvd_add by blast
  moreover have "\<forall>i<n. i \<le> NCM_MAX_DATAGRAMS_PER_NTB \<and> i \<noteq> n" using n by auto
  ultimately show ?thesis
    using wf n fits sz bl unfolding ntb_wf_def
    by (auto simp: less_Suc_eq simp del: of_nat_add)
qed

lemma ntb_append_datagrams:
  assumes wf: "ntb_wf m n" and n: "n < NCM_MAX_DATAGRAMS_PER_NTB"
    and fits: "unat (nth_wBlockLength m) + unat sz + ALIGN_OFFSET sz \<le> NCM_NTB_MAX_SIZE"
    and sz: "0 < unat sz" "unat sz = length bs"
  shows "ntb_datagrams (ntb_append n bs sz m) = ntb_datagrams m @ [bs]"
proof -
  have bl: "56 \<le> unat (nth_wBlockLength m)"
    using wf by (simp add: ntb_wf_def)
  have old: "ntb_datagram (ntb_append n bs sz m) i = ntb_datagram m i" if "i < n" for i
  proof -
    have "56 \<le> unat (ndp_wDatagramIndex m i)"
      "unat (ndp_wDatagramIndex m i) + unat (ndp_wDatagramLength m i) \<le> unat (nth_wBlockLength m)"
      using wf that by (auto simp: ntb_wf_def)
    then show ?thesis
      using n that bl by (auto simp: ntb_datagram_def ntb_append_payload wr_list_at)
  qed
  have new: "ntb_datagram (ntb_append n bs sz m) n = bs"
    using n bl sz by (auto simp: ntb_datagram_def ntb_append_payload wr_list_at intro!: nth_equalityI)
  show ?thesis
    using ntb_datagrams_wf [OF wf] ntb_datagrams_wf [OF ntb_append_wf [OF wf n fits sz(1), of bs]] old new
    by simp
qed

section \<open>The transmit invariant\<close>

text \<open>
  Every transmit NTB has one owner: the free list, the list waiting for USB, the USB side or the
  user.  The blocks that wait or are being sent are well formed, and the collecting block is well
  formed with as many datagrams as \<^verbatim>\<open>tx_user_ntb_datagram_index\<close> says.
\<close>

definition tx_owned :: "ncm_interface_t \<Rightarrow> ntb_ptr list" where
  "tx_owned s = ring_contents (tx_free_ntb s) @ ring_contents (tx_wait_ntb s)
     @ opt_list (tx_usbd_ntb s) @ opt_list (tx_user_ntb s)"

definition tx_inv :: "ncm_interface_t \<Rightarrow> bool" where
  "tx_inv s \<longleftrightarrow>
     ring_inv (tx_free_ntb s) \<and> ring_inv (tx_wait_ntb s)
   \<and> distinct (tx_owned s) \<and> set (tx_owned s) \<subseteq> {TxNtb 0, TxNtb 1}
   \<and> (\<forall>p \<in> set (ring_contents (tx_wait_ntb s)) \<union> set_option (tx_usbd_ntb s).
        \<exists>n. ntb_wf (ntb_obj s p) n)
   \<and> (\<forall>p. tx_user_ntb s = Some p \<longrightarrow> ntb_wf (ntb_obj s p) (unat (tx_user_ntb_datagram_index s)))"

text \<open>The transmit part of the state; the invariant depends on nothing else.\<close>

lemma tx_inv_frame [simp]:
  "tx_inv (interface_active_update f s) = tx_inv s"
  "tx_inv (rx_free_ntb_update f2 s) = tx_inv s"
  "tx_inv (rx_wait_ntb_update f3 s) = tx_inv s"
  "tx_inv (rx_usbd_ntb_update f4 s) = tx_inv s"
  "tx_inv (rx_user_ntb_update f5 s) = tx_inv s"
  "tx_inv (rx_user_ntb_datagram_index_update f6 s) = tx_inv s"
  "tx_inv (tx_seq_count_update f7 s) = tx_inv s"
  "tx_inv (notification_state_update f8 s) = tx_inv s"
  by (simp_all add: tx_inv_def tx_owned_def)

lemma tx_owned_frame [simp]:
  "tx_owned (interface_active_update f s) = tx_owned s"
  "tx_owned (rx_ntb_update f1 s) = tx_owned s"
  "tx_owned (rx_free_ntb_update f2 s) = tx_owned s"
  "tx_owned (rx_wait_ntb_update f3 s) = tx_owned s"
  "tx_owned (rx_usbd_ntb_update f4 s) = tx_owned s"
  "tx_owned (rx_user_ntb_update f5 s) = tx_owned s"
  "tx_owned (rx_user_ntb_datagram_index_update f6 s) = tx_owned s"
  "tx_owned (tx_seq_count_update f7 s) = tx_owned s"
  "tx_owned (tx_user_ntb_datagram_index_update f9 s) = tx_owned s"
  "tx_owned (notification_state_update f8 s) = tx_owned s"
  "tx_owned (ntb_obj_update p g s) = tx_owned s"
  by (simp_all add: tx_owned_def)

lemma tx_inv_rx_ntb:
  assumes "tx_inv s"
  shows "tx_inv (rx_ntb_update f s)"
proof -
  have "\<forall>p \<in> set (tx_owned s). ntb_obj (rx_ntb_update f s) p = ntb_obj s p"
    using assms by (auto simp: tx_inv_def)
  with assms show ?thesis
    by (auto simp: tx_inv_def tx_owned_def)
qed

lemma tx_inv_valid:
  assumes "tx_inv s" "p \<in> set (tx_owned s)"
  shows "ntb_valid p" "\<exists>i < NCM_NTB_N. p = TxNtb i"
  using assms by (auto simp: tx_inv_def NCM_NTB_N_def)

lemma tx_inv_ptrs:
  assumes "tx_inv s"
  shows "tx_user_ntb s = Some p \<Longrightarrow> ntb_valid p"
    "ring_contents (tx_wait_ntb s) = p # ps \<Longrightarrow> ntb_valid p"
    "ring_contents (tx_free_ntb s) = p # ps \<Longrightarrow> ntb_valid p"
    "ring_inv (tx_free_ntb s)" "ring_inv (tx_wait_ntb s)"
  using assms by (auto simp: tx_inv_def tx_owned_def NCM_NTB_N_def)

lemma tx_update_same [simp]:
  "tx_user_ntb s = x \<Longrightarrow> tx_user_ntb_update (\<lambda>_. x) s = s"
  "tx_usbd_ntb s = x \<Longrightarrow> tx_usbd_ntb_update (\<lambda>_. x) s = s"
  by auto

subsection \<open>Each operation keeps the invariant and every buffer\<close>

lemma tx_notification_keeps:
  assumes "P (ncm_if s)" "\<And>st x. P x \<Longrightarrow> P (x\<lparr>notification_state := st\<rparr>)"
  shows "dwp (tx_notification E force) (\<lambda>_ s'. P (ncm_if s')) s"
  using assms(1) by (auto simp: tx_notification_def intro!: world_any assms(2))

lemma tx_insert_zlp_keeps: "dwp (tx_insert_zlp E sz) (\<lambda>_ s'. ncm_if s' = ncm_if s) s"
  by (auto simp: tx_insert_zlp_def intro!: world_any)

lemma tx_datagram_fits_wp:
  assumes "tx_inv (ncm_if s)"
  shows "wp (tx_datagram_fits_user_ntb sz) (\<lambda>r s'. s' = s \<and>
    (r \<longleftrightarrow> (\<exists>p. tx_user_ntb (ncm_if s) = Some p
        \<and> unat (tx_user_ntb_datagram_index (ncm_if s)) < NCM_MAX_DATAGRAMS_PER_NTB
        \<and> unat (nth_wBlockLength (ntb_obj (ncm_if s) p)) + unat sz + ALIGN_OFFSET sz \<le> NCM_NTB_MAX_SIZE))) s"
proof (cases "tx_user_ntb (ncm_if s)")
  case None
  then show ?thesis by (simp add: tx_datagram_fits_user_ntb_def)
next
  case (Some p)
  then have "p \<in> set (tx_owned (ncm_if s))" by (simp add: tx_owned_def)
  with assms Some show ?thesis
    by (auto simp: tx_datagram_fits_user_ntb_def dest: tx_inv_valid(1))
qed

text \<open>Moving a buffer between owners.\<close>

lemma tx_inv_wait_user:
  assumes "tx_inv s" "tx_user_ntb s = Some p" "ring_inv l"
    and "ring_contents l = ring_contents (tx_wait_ntb s) @ [p]"
  shows "tx_inv (s\<lparr>tx_wait_ntb := l, tx_user_ntb := None\<rparr>)"
    "mset (tx_owned (s\<lparr>tx_wait_ntb := l, tx_user_ntb := None\<rparr>)) = mset (tx_owned s)"
  using assms by (auto simp: tx_inv_def tx_owned_def)

lemma tx_inv_take_free:
  assumes "tx_inv s" "tx_user_ntb s = None" "ring_inv l"
    and "ring_contents (tx_free_ntb s) = p # ring_contents l"
  shows "tx_inv (ntb_obj_update p (ntb_populate q) (tx_seq_count_update g
           (s\<lparr>tx_free_ntb := l, tx_user_ntb := Some p, tx_user_ntb_datagram_index := 0\<rparr>)))"
    "mset (tx_owned (s\<lparr>tx_free_ntb := l, tx_user_ntb := Some p\<rparr>)) = mset (tx_owned s)"
  using assms by (auto simp: tx_inv_def tx_owned_def)

lemma tx_inv_swap:
  assumes "tx_inv s" "tx_user_ntb s = Some u"
    and "ring_inv l" "ring_contents l = ring_contents (tx_wait_ntb s) @ [u]"
    and "ring_inv l'" "ring_contents (tx_free_ntb s) = p # ring_contents l'"
  shows "tx_inv (ntb_obj_update p (ntb_populate q) (tx_seq_count_update g (s\<lparr>tx_wait_ntb := l,
           tx_free_ntb := l', tx_user_ntb := Some p, tx_user_ntb_datagram_index := 0\<rparr>)))"
    "mset (tx_owned (s\<lparr>tx_wait_ntb := l, tx_free_ntb := l', tx_user_ntb := Some p\<rparr>)) = mset (tx_owned s)"
  using assms by (auto simp: tx_inv_def tx_owned_def)

lemma tx_inv_send_waiting:
  assumes "tx_inv s" "tx_usbd_ntb s = None" "ring_inv l"
    and "ring_contents (tx_wait_ntb s) = p # ring_contents l"
  shows "tx_inv (s\<lparr>tx_wait_ntb := l, tx_usbd_ntb := Some p\<rparr>)"
    "mset (tx_owned (s\<lparr>tx_wait_ntb := l, tx_usbd_ntb := Some p\<rparr>)) = mset (tx_owned s)"
  using assms by (auto simp: tx_inv_def tx_owned_def)

lemma tx_inv_send_user:
  assumes "tx_inv s" "tx_usbd_ntb s = None" "tx_user_ntb s = Some p"
  shows "tx_inv (s\<lparr>tx_usbd_ntb := Some p, tx_user_ntb := None\<rparr>)"
    "mset (tx_owned (s\<lparr>tx_usbd_ntb := Some p, tx_user_ntb := None\<rparr>)) = mset (tx_owned s)"
  using assms by (auto simp: tx_inv_def tx_owned_def)

lemma tx_accept_keeps:
  assumes inv: "tx_inv (ncm_if s)"
  shows "wp tx_accept_user_ntb (\<lambda>r s'. tx_inv (ncm_if s')
    \<and> mset (tx_owned (ncm_if s')) = mset (tx_owned (ncm_if s))
    \<and> tx_usbd_ntb (ncm_if s') = tx_usbd_ntb (ncm_if s) \<and> world s' = world s
    \<and> (\<not> r \<longrightarrow> (\<forall>q. ntb_obj (ncm_if s') q = ntb_obj (ncm_if s) q))
    \<and> (r \<longrightarrow> tx_user_ntb_datagram_index (ncm_if s') = 0
         \<and> (\<exists>p ps m. tx_user_ntb (ncm_if s') = Some p \<and> ring_contents (tx_free_ntb (ncm_if s)) = p # ps
               \<and> ntb_obj (ncm_if s') p = ntb_populate (tx_seq_count (ncm_if s)) m
               \<and> (\<forall>q. q \<noteq> p \<longrightarrow> ntb_obj (ncm_if s') q = ntb_obj (ncm_if s) q)))) s"
proof (cases "tx_user_ntb (ncm_if s)")
  case None
  show ?thesis unfolding tx_accept_user_ntb_def
    by (simp add: None, rule ring.pop_wp [OF tx_inv_ptrs(4) [OF inv]])
      (use inv None in \<open>auto dest: tx_inv_ptrs(3) intro!: tx_inv_take_free(1)
        simp: tx_inv_take_free(2)\<close>)
next
  case (Some u)
  have accept: "wp tx_accept_user_ntb Q s"
    if "\<And>l. ring_inv l \<Longrightarrow> ring_contents l = ring_contents (tx_wait_ntb (ncm_if s)) @ [u] \<Longrightarrow>
          Q False (s\<lparr>ncm_if := (ncm_if s)\<lparr>tx_wait_ntb := l, tx_user_ntb := None\<rparr>\<rparr>)"
      and "\<And>l l' p. ring_inv l \<Longrightarrow> ring_contents l = ring_contents (tx_wait_ntb (ncm_if s)) @ [u] \<Longrightarrow>
          ring_inv l' \<Longrightarrow> ring_contents (tx_free_ntb (ncm_if s)) = p # ring_contents l' \<Longrightarrow>
          Q True (s\<lparr>ncm_if := ntb_obj_update p (ntb_populate (tx_seq_count (ncm_if s)))
            (tx_seq_count_update (\<lambda>n. n + 1) ((ncm_if s)\<lparr>tx_wait_ntb := l, tx_free_ntb := l',
              tx_user_ntb := Some p, tx_user_ntb_datagram_index := 0\<rparr>))\<rparr>)"
      and "Q False s" for Q
    unfolding tx_accept_user_ntb_def
    by (simp add: Some, rule ring.push_wp [OF tx_inv_ptrs(5) [OF inv]])
      (auto intro!: ring.pop_wp [OF tx_inv_ptrs(4) [OF inv]] that dest: tx_inv_ptrs(3) [OF inv])
  show ?thesis
    by (rule accept) (use inv Some in \<open>auto simp: tx_inv_wait_user tx_inv_swap\<close>)
qed

lemma tx_try_start_keeps:
  assumes inv: "tx_inv (ncm_if s)"
  shows "dwp (tx_try_start E) (\<lambda>r s'. tx_inv (ncm_if s')
    \<and> mset (tx_owned (ncm_if s')) = mset (tx_owned (ncm_if s))
    \<and> (\<forall>q. ntb_obj (ncm_if s') q = ntb_obj (ncm_if s) q)
    \<and> (\<forall>p. tx_user_ntb (ncm_if s) = Some p \<longrightarrow>
         tx_user_ntb (ncm_if s') = Some p \<or> tx_usbd_ntb (ncm_if s') = Some p)) s"
  unfolding tx_try_start_def
  by (auto simp: inv tx_inv_send_waiting tx_inv_send_user dest: tx_inv_ptrs(1,2) [OF inv]
      split: option.splits intro!: world_any ring.pop_wp [OF tx_inv_ptrs(5) [OF inv]])

text \<open>
  While a block is with the USB side, \<^verbatim>\<open>tx_try_start\<close> refuses without calling the environment.
\<close>

lemma tx_try_start_busy: "tx_usbd_ntb (ncm_if s) \<noteq> None \<Longrightarrow> tx_try_start E s = Inr (False, s)"
  by (simp add: tx_try_start_def get_if_def act_defs)

lemma align_mono:
  assumes "unat len \<le> unat sz"
  shows "unat len + ALIGN_OFFSET len \<le> unat sz + ALIGN_OFFSET sz"
proof -
  have up: "n + (4 - n mod 4) mod 4 = 4 * ((n + 3) div 4)" for n :: nat
    using pad4_dvd [of n] by (auto elim!: dvdE)
  show ?thesis using assms by (simp add: ALIGN_OFFSET_eq up div_le_mono)
qed

text \<open>What the \<^verbatim>\<open>net_tx\<close> write does to the collecting block.\<close>

lemma tx_inv_append:
  assumes inv: "tx_inv s" and user: "tx_user_ntb s = Some p"
    and n: "unat (tx_user_ntb_datagram_index s) < NCM_MAX_DATAGRAMS_PER_NTB"
    and fits: "unat (nth_wBlockLength (ntb_obj s p)) + unat len + ALIGN_OFFSET len \<le> NCM_NTB_MAX_SIZE"
    and len: "0 < unat len"
  shows "tx_inv (ntb_obj_update p (ntb_append (unat (tx_user_ntb_datagram_index s)) bs len)
           (tx_user_ntb_datagram_index_update (\<lambda>i. i + 1) s))"
proof -
  have wf: "ntb_wf (ntb_obj s p) (unat (tx_user_ntb_datagram_index s))"
    using inv user by (simp add: tx_inv_def)
  have "unat (tx_user_ntb_datagram_index s + 1) = Suc (unat (tx_user_ntb_datagram_index s))"
    using n by (simp add: word_to_nat NCM_MAX_DATAGRAMS_PER_NTB_def)
  with ntb_append_wf [OF wf n fits len, of bs] inv user show ?thesis
    by (auto simp: tx_inv_def tx_owned_def)
qed

end
