(* ===== verification/Ncm_Rx.thy ===== *)
theory Ncm_Rx
  imports Ncm_State
begin

text \<open>
  The receive path (rx.c): the walk over the datagram table of a received NTB and the start of a
  bulk OUT transfer.  \<^verbatim>\<open>rx_validate_datagram\<close> accepts every NTB, so the table the walk reads
  is whatever the host sent; each read is checked against the NTB's bounds.
\<close>

section \<open>Operations\<close>

definition rx_validate_datagram :: "ntb_ptr option \<Rightarrow> u16 \<Rightarrow> ('w ncm_sys, bool) act" where
  "rx_validate_datagram ntb sz = act_return True"

text \<open>Entry \<open>i\<close> of the datagram table at \<^verbatim>\<open>data + wNdpIndex + sizeof(ndp16_t)\<close>.\<close>

definition rx_entry_off :: "ntb_t \<Rightarrow> nat \<Rightarrow> nat" where
  "rx_entry_off ntb i = unat (nth_wNdpIndex ntb) + sizeof_ndp16 + sizeof_ndp16_datagram * i"

definition rx_dIndex :: "ntb_t \<Rightarrow> nat \<Rightarrow> u16" where
  "rx_dIndex ntb i = rd16 ntb (rx_entry_off ntb i)"

definition rx_dLength :: "ntb_t \<Rightarrow> nat \<Rightarrow> u16" where
  "rx_dLength ntb i = rd16 ntb (rx_entry_off ntb i + 2)"

definition rx_entry :: "ntb_t \<Rightarrow> nat \<Rightarrow> ('w ncm_sys, u16 \<times> u16) act" where
  "rx_entry ntb i =
     act_bind (act_check OutOfBounds (ntb_in_bounds (rx_entry_off ntb i) sizeof_ndp16_datagram)) (\<lambda>_.
     act_return (rx_dIndex ntb i, rx_dLength ntb i))"

definition rx_update_user_ntb :: "('w, 'd) ncm_env \<Rightarrow> ('w ncm_sys, bool) act" where
  "rx_update_user_ntb E =
     act_bind (get_if rx_user_ntb) (\<lambda>user.
     act_bind (if user = None then
                 act_bind (on_list rx_wait_ntb rx_wait_ntb_update pop_ntb) (\<lambda>waiting.
                 modify_if (\<lambda>s. s\<lparr>rx_user_ntb := waiting, rx_user_ntb_datagram_index := 0\<rparr>))
               else act_return ()) (\<lambda>_.
     act_bind (get_if rx_user_ntb) (\<lambda>user.
     case user of
       None \<Rightarrow> act_return True
     | Some p \<Rightarrow>
         act_bind (ntb_read p) (\<lambda>ntb.
         act_bind (get_if rx_user_ntb_datagram_index) (\<lambda>idx.
         act_bind (rx_entry ntb (unat idx)) (\<lambda>(dIndex, dLength).
         act_bind (in_world (net_rx_cb E ntb (unat dIndex) dLength)) (\<lambda>taken.
         if taken = 0 then act_return True
         else
           act_bind (rx_entry ntb (unat idx + 1)) (\<lambda>(dIndex, dLength).
           if dIndex \<noteq> 0 \<and> dLength \<noteq> 0 then
             act_bind (modify_if (rx_user_ntb_datagram_index_update (\<lambda>i. i + 1))) (\<lambda>_.
             act_return True)
           else on_list rx_free_ntb rx_free_ntb_update (push_ntb (Some p))))))))))"

definition rx_try_start :: "('w, 'd) ncm_env \<Rightarrow> ('w ncm_sys, bool) act" where
  "rx_try_start E =
     act_bind (get_if rx_usbd_ntb) (\<lambda>usbd.
     if usbd \<noteq> None then act_return False
     else act_bind (get_if interface_active) (\<lambda>active.
     if active \<noteq> 1 then act_return False
     else act_bind (in_world (usb_ep_busy E NCM_EP_DATA_OUT)) (\<lambda>busy.
     if busy then act_return False
     else act_bind (on_list rx_free_ntb rx_free_ntb_update pop_ntb) (\<lambda>fresh.
     act_bind (modify_if (rx_usbd_ntb_update (\<lambda>_. fresh))) (\<lambda>_.
     case fresh of
       None \<Rightarrow> act_return False
     | Some p \<Rightarrow>
         act_bind (ntb_read p) (\<lambda>ntb.
         act_bind (in_world (usb_transfer_ep E NCM_EP_DATA_OUT (BufNtb p ntb)
             (of_nat NCM_NTB_MAX_SIZE))) (\<lambda>r.
         if \<not> r then
           act_bind (on_list rx_free_ntb rx_free_ntb_update (push_ntb (Some p))) (\<lambda>_.
           act_return False)
         else act_return True)))))))"

section \<open>Frame of the receive path\<close>

text \<open>
  The receive operations write only the receive lists, the two receive pointers and the datagram
  index; they never touch the contents of a block or the transmit side.
\<close>

definition rx_only :: "ncm_interface_t \<Rightarrow> ncm_interface_t \<Rightarrow> bool" where
  "rx_only a b \<longleftrightarrow> b = a\<lparr>rx_free_ntb := rx_free_ntb b, rx_wait_ntb := rx_wait_ntb b,
     rx_usbd_ntb := rx_usbd_ntb b, rx_user_ntb := rx_user_ntb b,
     rx_user_ntb_datagram_index := rx_user_ntb_datagram_index b\<rparr>"

lemma rx_only_fields:
  assumes "rx_only a b"
  shows "interface_active b = interface_active a" "rx_ntb b = rx_ntb a" "tx_ntb b = tx_ntb a"
    "tx_free_ntb b = tx_free_ntb a" "tx_wait_ntb b = tx_wait_ntb a" "tx_usbd_ntb b = tx_usbd_ntb a"
    "tx_user_ntb b = tx_user_ntb a" "tx_seq_count b = tx_seq_count a"
    "tx_user_ntb_datagram_index b = tx_user_ntb_datagram_index a"
    "notification_state b = notification_state a" "ntb_obj b p = ntb_obj a p"
  by (subst assms [unfolded rx_only_def], simp)+

lemma rx_only_trans: "rx_only a b \<Longrightarrow> rx_only b c \<Longrightarrow> rx_only a c"
  by (cases a; cases b; cases c) (auto simp: rx_only_def)

lemma rx_only_refl [simp]: "rx_only a a"
  by (simp add: rx_only_def)

interpretation rxf: frame_rel rx_only
  by unfold_locales (auto intro: rx_only_trans)

lemma rx_only_updates [simp]:
  "rx_only a (rx_free_ntb_update (\<lambda>_. l) a)" "rx_only a (rx_wait_ntb_update (\<lambda>_. l) a)"
  "rx_only a (rx_usbd_ntb_update (\<lambda>_. p) a)" "rx_only a (rx_user_ntb_datagram_index_update f a)"
  "rx_only a (a\<lparr>rx_user_ntb := p, rx_user_ntb_datagram_index := i\<rparr>)"
  by (simp_all add: rx_only_def)

lemma rx_update_only: "keeps rx_only (rx_update_user_ntb E)"
  unfolding rx_update_user_ntb_def rx_entry_def
  by (intro rxf.keeps_rules rxf.keeps_modify rxf.keeps_list rx_only_updates)

lemma rx_try_start_only: "keeps rx_only (rx_try_start E)"
  unfolding rx_try_start_def
  by (intro rxf.keeps_rules rxf.keeps_modify rxf.keeps_list rx_only_updates)

section \<open>Reading the datagram table\<close>

text \<open>
  A block whose table entries up to \<open>n\<close> lie inside the block; the bounds the missing validation
  of the receive path would have to establish.
\<close>

definition rx_table_ok :: "ntb_t \<Rightarrow> nat \<Rightarrow> bool" where
  "rx_table_ok m n \<longleftrightarrow> ntb_in_bounds (rx_entry_off m n) sizeof_ndp16_datagram"

lemma rx_table_ok_mono: "rx_table_ok m n \<Longrightarrow> i \<le> n \<Longrightarrow> rx_table_ok m i"
  by (simp add: rx_table_ok_def ntb_in_bounds_def rx_entry_off_def ntb_sizes)

lemma wpx_rx_entry [simp]:
  "wpx F (rx_entry m i) Q s =
     (if rx_table_ok m i then Q (rx_dIndex m i, rx_dLength m i) s
      else OutOfBounds \<in> F)"
  by (simp add: rx_entry_def rx_table_ok_def)

end
