(* ===== verification/Ncm_Net.thy ===== *)
theory Ncm_Net
  imports Ncm_Tx Ncm_Rx
begin

text \<open>
  The operations the driver offers (net.c): the network side calls \<^verbatim>\<open>net_init\<close>,
  \<^verbatim>\<open>net_can_tx\<close>, \<^verbatim>\<open>net_tx\<close> and \<^verbatim>\<open>net_rx_renew\<close>, the USB side
  \<^verbatim>\<open>net_usb_transfer\<close> on a completed transfer and \<^verbatim>\<open>net_usb_control_transfer\<close> on a
  control request.
\<close>

section \<open>Operations\<close>

definition net_can_tx :: "('w, 'd) ncm_env \<Rightarrow> u16 \<Rightarrow> ('w ncm_sys, bool) act" where
  "net_can_tx E sz =
     act_bind (tx_datagram_fits_user_ntb sz) (\<lambda>fits.
     act_bind (if fits then act_return True else tx_accept_user_ntb) (\<lambda>ok.
     if ok then act_return True
     else act_bind (tx_try_start E) (\<lambda>_. act_return False)))"

definition net_tx :: "('w, 'd) ncm_env \<Rightarrow> 'd \<Rightarrow> u16 \<Rightarrow> ('w ncm_sys, unit) act" where
  "net_tx E datagram arg =
     act_bind (get_if tx_user_ntb) (\<lambda>user.
     case user of
       None \<Rightarrow> act_return ()
     | Some p \<Rightarrow>
         act_bind (ntb_read p) (\<lambda>ntb.
         act_bind (in_world (net_tx_cb E datagram arg)) (\<lambda>(bs, sz).
         act_bind (act_check OutOfBounds
             (ntb_in_bounds (unat (nth_wBlockLength ntb)) (length bs))) (\<lambda>_.
         act_bind (ntb_modify p (\<lambda>m. wr_list m (unat (nth_wBlockLength ntb)) bs)) (\<lambda>_.
         act_bind (get_if tx_user_ntb_datagram_index) (\<lambda>idx.
         act_bind (act_check OutOfBounds (unat idx < NCM_MAX_DATAGRAMS_PER_NTB + 1)) (\<lambda>_.
         act_bind (ntb_modify p (\<lambda>m. set_ndp_datagram (unat idx) (nth_wBlockLength m) sz m)) (\<lambda>_.
         act_bind (modify_if (tx_user_ntb_datagram_index_update (\<lambda>i. i + 1))) (\<lambda>_.
         act_bind (ntb_modify p (\<lambda>m. set_wBlockLength
             (nth_wBlockLength m + of_nat (unat sz + ALIGN_OFFSET sz)) m)) (\<lambda>_.
         act_bind (ntb_read p) (\<lambda>ntb.
         if unat (nth_wBlockLength ntb) > NCM_NTB_MAX_SIZE then act_return ()
         else act_bind (tx_try_start E) (\<lambda>_. act_return ()))))))))))))"

definition net_rx_renew :: "('w, 'd) ncm_env \<Rightarrow> ('w ncm_sys, unit) act" where
  "net_rx_renew E =
     act_bind (rx_update_user_ntb E) (\<lambda>_.
     act_bind (rx_try_start E) (\<lambda>_. act_return ()))"

fun net_init_loop :: "nat list \<Rightarrow> ('w ncm_sys, unit) act" where
  "net_init_loop [] = act_return ()"
| "net_init_loop (n # ns) =
     act_bind (on_list tx_free_ntb tx_free_ntb_update (push_ntb (Some (TxNtb n)))) (\<lambda>_.
     act_bind (on_list rx_free_ntb rx_free_ntb_update (push_ntb (Some (RxNtb n)))) (\<lambda>_.
     net_init_loop ns))"

definition net_init :: "('w ncm_sys, unit) act" where
  "net_init = act_bind (modify_if (\<lambda>_. ncm_zero)) (\<lambda>_. net_init_loop [0..<NCM_NTB_N])"

definition net_usb_transfer :: "('w, 'd) ncm_env \<Rightarrow> u8 \<Rightarrow> u16 \<Rightarrow> ('w ncm_sys, bool) act" where
  "net_usb_transfer E ep_addr bs =
     (if ep_addr = NCM_EP_DATA_OUT then
        act_bind (get_if rx_usbd_ntb) (\<lambda>usbd.
        act_bind (rx_validate_datagram usbd bs) (\<lambda>valid.
        act_bind (if valid then
                    act_bind (on_list rx_wait_ntb rx_wait_ntb_update (push_ntb usbd)) (\<lambda>_.
                    act_return ())
                  else modify_if (rx_usbd_ntb_update (\<lambda>_. None))) (\<lambda>_.
        act_bind (net_rx_renew E) (\<lambda>_. act_return True))))
      else if ep_addr = NCM_EP_DATA_IN then
        act_bind (get_if rx_usbd_ntb) (\<lambda>usbd.
        act_bind (on_list rx_free_ntb rx_free_ntb_update (push_ntb usbd)) (\<lambda>_.
        act_bind (tx_insert_zlp E bs) (\<lambda>zlp.
        act_bind (if \<not> zlp then act_bind (tx_try_start E) (\<lambda>_. act_return ()) else act_return ()) (\<lambda>_.
        act_return True))))
      else if ep_addr = NCM_EP_NOTIFY then
        act_bind (tx_notification E True) (\<lambda>_. act_return True)
      else act_return True)"

definition net_usb_control_transfer ::
    "('w, 'd) ncm_env \<Rightarrow> usb_control_request_t \<Rightarrow> ('w ncm_sys, bool) act" where
  "net_usb_control_transfer E request =
     (if unat (req_type (bmRequestType request)) = USB_TYPE_STANDARD then
        if bRequest request = USB_REQ_GET_INTERFACE then
          act_bind (get_if interface_active) (\<lambda>active.
          act_bind (in_world (usb_transfer_ep0 E request (BufBytes [active]) 1)) (\<lambda>_.
          act_return True))
        else if bRequest request = USB_REQ_SET_INTERFACE then
          act_bind (modify_if (interface_active_update (\<lambda>_. ucast (wValue request)))) (\<lambda>_.
          act_bind (get_if interface_active) (\<lambda>active.
          act_bind (if active \<noteq> 0 then
                      act_bind (rx_update_user_ntb E) (\<lambda>_. tx_notification E False)
                    else act_return ()) (\<lambda>_.
          act_bind (in_world (usb_control_status E request)) (\<lambda>_.
          act_return True))))
        else act_return False
      else if unat (req_type (bmRequestType request)) = USB_TYPE_CLASS then
        if bRequest request = NCM_GET_NTB_PARAMETERS then
          act_bind (in_world (usb_transfer_ep0 E request
              (BufBytes (ntb_parameters_bytes ntb_parameters)) (of_nat sizeof_ntb_parameters))) (\<lambda>_.
          act_return True)
        else act_return False
      else act_return False)"

section \<open>Transmit contracts\<close>

text \<open>The largest datagram an empty block takes: 3200 bytes less headers and table.\<close>

definition max_datagram :: nat where
  "max_datagram = NCM_NTB_MAX_SIZE - (sizeof_nth16 + sizeof_ndp16 + sizeof_ndp_datagram_table)"

text \<open>There is room for a datagram of \<open>sz\<close> bytes in the collecting block.\<close>

definition tx_room :: "u16 \<Rightarrow> ncm_interface_t \<Rightarrow> bool" where
  "tx_room sz s \<longleftrightarrow> (\<exists>p. tx_user_ntb s = Some p
     \<and> unat (tx_user_ntb_datagram_index s) < NCM_MAX_DATAGRAMS_PER_NTB
     \<and> unat (nth_wBlockLength (ntb_obj s p)) + unat sz + ALIGN_OFFSET sz \<le> NCM_NTB_MAX_SIZE)"

text \<open>The block a datagram of \<open>sz\<close> bytes goes to: the one being collected when there is room in
  it, the first free one otherwise.\<close>

definition tx_collects :: "u16 \<Rightarrow> ncm_interface_t \<Rightarrow> ntb_ptr option" where
  "tx_collects sz s = (if tx_room sz s then tx_user_ntb s
     else case ring_contents (tx_free_ntb s) of [] \<Rightarrow> None | p # _ \<Rightarrow> Some p)"

text \<open>
  The bytes \<open>bs\<close> have become the last datagram of that block, which is now the user's or the one
  USB transmits; every other block is as before.
\<close>

definition tx_appended :: "u16 \<Rightarrow> ncm_interface_t \<Rightarrow> u8 list \<Rightarrow> ncm_interface_t \<Rightarrow> bool" where
  "tx_appended sz a bs b \<longleftrightarrow> (\<exists>p. tx_collects sz a = Some p
     \<and> (tx_user_ntb b = Some p \<or> tx_usbd_ntb b = Some p)
     \<and> ntb_datagrams (ntb_obj b p) = (if tx_room sz a then ntb_datagrams (ntb_obj a p) else []) @ [bs]
     \<and> (\<forall>q. q \<noteq> p \<longrightarrow> ntb_obj b q = ntb_obj a q))"

lemma max_datagram_fits:
  assumes "unat sz \<le> max_datagram"
  shows "56 + unat sz + ALIGN_OFFSET sz \<le> NCM_NTB_MAX_SIZE"
proof -
  have "unat (of_nat 3144 :: u16) = 3144" by simp
  then have "unat sz + ALIGN_OFFSET sz \<le> 3144 + ALIGN_OFFSET 3144"
    using assms align_mono [of sz 3144]
    by (simp add: max_datagram_def ntb_sizes ncm_consts)
  then show ?thesis by (simp add: ALIGN_OFFSET_eq ncm_consts)
qed

lemma tx_room_mono: "tx_room sz s \<Longrightarrow> unat len \<le> unat sz \<Longrightarrow> tx_room len s"
  using align_mono [of len sz] by (auto simp: tx_room_def)

lemma net_can_tx_spec:
  assumes inv: "tx_inv (ncm_if s)"
  shows "dwp (net_can_tx E sz) (\<lambda>r s'. tx_inv (ncm_if s')
    \<and> mset (tx_owned (ncm_if s')) = mset (tx_owned (ncm_if s))
    \<and> (r \<longrightarrow> unat sz \<le> max_datagram \<longrightarrow> tx_room sz (ncm_if s'))) s"
proof -
  note fits = wpx_weaken [OF tx_datagram_fits_wp [OF inv, of sz] empty_subsetI]
  note accept = wpx_weaken [OF tx_accept_keeps [OF inv] empty_subsetI]
  show ?thesis
    unfolding net_can_tx_def wpx_bind
  proof (rule wpx_mono [OF fits], goal_cases)
    case (1 f s1)
    show ?case
    proof (cases f)
      case True
      with 1 inv show ?thesis by (auto simp: tx_room_def)
    next
      case False
      have "dwp tx_accept_user_ntb (\<lambda>x. dwp (if x then act_return True
          else act_bind (tx_try_start E) (\<lambda>_. act_return False))
         (\<lambda>r s'. tx_inv (ncm_if s') \<and> mset (tx_owned (ncm_if s')) = mset (tx_owned (ncm_if s))
            \<and> (r \<longrightarrow> unat sz \<le> max_datagram \<longrightarrow> tx_room sz (ncm_if s')))) s"
      proof (rule wpx_mono [OF accept], goal_cases)
        case (1 ok s2)
        then show ?case
          using max_datagram_fits [of sz]
          by (auto simp: tx_room_def NCM_MAX_DATAGRAMS_PER_NTB_def
              intro: wpx_mono [OF tx_try_start_keeps])
      qed
      with 1 False show ?thesis by simp
    qed
  qed
qed

lemma net_tx_spec:
  assumes inv: "tx_inv (ncm_if s)" and user: "tx_user_ntb (ncm_if s) = Some p"
    and room: "tx_room len (ncm_if s)"
    and cb: "net_tx_cb E d arg (world s) = Inr ((bs, len), w)"
    and len: "unat len = length bs" "0 < length bs"
  shows "dwp (net_tx E d arg) (\<lambda>_ s'. tx_inv (ncm_if s')
    \<and> mset (tx_owned (ncm_if s')) = mset (tx_owned (ncm_if s))
    \<and> ntb_datagrams (ntb_obj (ncm_if s') p) = ntb_datagrams (ntb_obj (ncm_if s) p) @ [bs]
    \<and> (\<forall>q. q \<noteq> p \<longrightarrow> ntb_obj (ncm_if s') q = ntb_obj (ncm_if s) q)
    \<and> (tx_user_ntb (ncm_if s') = Some p \<or> tx_usbd_ntb (ncm_if s') = Some p)) s"
proof -
  let ?n = "unat (tx_user_ntb_datagram_index (ncm_if s))" and ?m = "ntb_obj (ncm_if s) p"
  define t where "t = ntb_obj_update p (ntb_append ?n bs len)
    (tx_user_ntb_datagram_index_update (\<lambda>i. i + 1) (ncm_if s))"
  have wf: "ntb_wf ?m ?n" and bl: "56 \<le> unat (nth_wBlockLength ?m)"
    using inv user by (auto simp: tx_inv_def ntb_wf_def)
  have n: "?n < NCM_MAX_DATAGRAMS_PER_NTB"
    and fits: "unat (nth_wBlockLength ?m) + unat len + ALIGN_OFFSET len \<le> NCM_NTB_MAX_SIZE"
    using room user by (auto simp: tx_room_def)
  have tinv: "tx_inv t"
    unfolding t_def by (rule tx_inv_append) (use inv user n fits len in auto)
  have t_len: "unat (nth_wBlockLength (ntb_obj t p)) \<le> NCM_NTB_MAX_SIZE"
    using fits block_length_add [OF fits] bl by (simp add: t_def)
  have t_dg: "ntb_datagrams (ntb_obj t p) = ntb_datagrams ?m @ [bs]"
    using ntb_append_datagrams [OF wf n fits, of bs] len by (simp add: t_def)
  let ?w = "\<lambda>m. wr_list m (unat (nth_wBlockLength ?m)) bs"
  have eq: "ntb_obj_update p (\<lambda>m. set_wBlockLength
      (nth_wBlockLength m + (len + word_of_nat (ALIGN_OFFSET len)))
      (set_ndp_datagram ?n (nth_wBlockLength m) len (?w m)))
      (tx_user_ntb_datagram_index_update (\<lambda>i. i + 1) (ncm_if s)) = t"
    unfolding t_def by (rule ntb_obj_update_cong) (use bl in \<open>simp add: ntb_append_def Let_def\<close>)
  have checks: "ntb_in_bounds (unat (nth_wBlockLength ?m)) (length bs)"
    "?n < Suc NCM_MAX_DATAGRAMS_PER_NTB"
    using fits n len by (simp_all add: ntb_in_bounds_def)
  have below: "\<not> NCM_NTB_MAX_SIZE < unat (nth_wBlockLength ?m + (len + word_of_nat (ALIGN_OFFSET len)))"
    using t_len bl by (simp add: t_def)
  have net_tx: "dwp (net_tx E d arg) Q s"
    if "dwp (tx_try_start E) (\<lambda>_. Q ()) (s\<lparr>world := w, ncm_if := t\<rparr>)" for Q
    using that bl unfolding net_tx_def
    by (simp add: user tx_inv_ptrs(1) [OF inv user] wpx_Inr [where m = "net_tx_cb E d arg", OF cb] checks below eq)
  show ?thesis
    by (rule net_tx, rule wpx_mono [OF tx_try_start_keeps])
      (use tinv t_dg user in \<open>auto simp: t_def\<close>)
qed

end
