(* ===== verification/Ncm_Machine.thy ===== *)
theory Ncm_Machine
  imports Ncm_Net
begin

text \<open>
  The driver as a state machine: the network side and the USB side call its operations in any
  order, the USB hardware fills receive blocks, the rest of the world moves on its own.  The
  invariants of every reachable state, and the two places where the machine stops making progress.
\<close>

section \<open>Initialisation\<close>

text \<open>The state after \<^verbatim>\<open>net_init\<close>: everything zero, every block in its free list.\<close>

definition ncm_ready :: ncm_interface_t where
  "ncm_ready = ncm_zero\<lparr>
     rx_free_ntb := \<lparr>ntb_list = [Some (RxNtb 0), Some (RxNtb 1)], list_front = 0, list_back = 1\<rparr>,
     tx_free_ntb := \<lparr>ntb_list = [Some (TxNtb 0), Some (TxNtb 1)], list_front = 0, list_back = 1\<rparr>\<rparr>"

lemma net_init_eq: "net_init s = Inr ((), s\<lparr>ncm_if := ncm_ready\<rparr>)"
  by (simp add: net_init_def NCM_NTB_N_def numeral_2_eq_2 modify_if_def act_defs on_list_def push_ntb_def
      ncm_zero_def ncm_ready_def empty_ntb_list_def)

lemma ncm_ready_inv: "tx_inv ncm_ready" "tx_owned ncm_ready = [TxNtb 0, TxNtb 1]"
  by (simp_all add: tx_inv_def tx_owned_def ncm_ready_def ncm_zero_def ring_inv_def ring_contents_def
      empty_ntb_list_def map_filter_def NCM_NTB_N_def numeral_2_eq_2)

section \<open>The operations keep the transmit invariant\<close>

definition tx_kept :: "ncm_interface_t \<Rightarrow> ncm_interface_t \<Rightarrow> bool" where
  "tx_kept a b \<longleftrightarrow> (tx_inv a \<longrightarrow> tx_inv b \<and> mset (tx_owned b) = mset (tx_owned a))"

interpretation txf: frame_rel tx_kept
  by unfold_locales (simp_all add: tx_kept_def)

lemma tx_kept_updates [simp]:
  "tx_kept a (interface_active_update f1 a)" "tx_kept a (rx_free_ntb_update f2 a)"
  "tx_kept a (rx_wait_ntb_update f3 a)" "tx_kept a (rx_usbd_ntb_update f4 a)"
  "tx_kept a (notification_state_update f5 a)"
  by (simp_all add: tx_kept_def)

lemma rx_only_tx_kept:
  assumes "rx_only a b"
  shows "tx_kept a b"
proof -
  have "tx_inv b = tx_inv a" "tx_owned b = tx_owned a"
    by (subst assms [unfolded rx_only_def], simp)+
  then show ?thesis by (simp add: tx_kept_def)
qed

lemma keeps_mono: "keeps R m \<Longrightarrow> (\<And>a b. R a b \<Longrightarrow> S a b) \<Longrightarrow> keeps S m"
  by (auto simp: keeps_iff)

lemma tx_keptI:
  assumes "\<And>s. tx_inv (ncm_if s) \<Longrightarrow> dwp m (\<lambda>_ s'. tx_inv (ncm_if s')
    \<and> mset (tx_owned (ncm_if s')) = mset (tx_owned (ncm_if s))) s"
  shows "keeps tx_kept m"
  using assms by (fastforce simp: keeps_iff tx_kept_def wpx_def)

lemma tx_kept_ops:
  "keeps tx_kept (rx_update_user_ntb E)" "keeps tx_kept (rx_try_start E)"
  "keeps tx_kept (tx_try_start E)" "keeps tx_kept (net_can_tx E sz)"
proof -
  show "keeps tx_kept (rx_update_user_ntb E)" "keeps tx_kept (rx_try_start E)"
    by (rule keeps_mono [OF rx_update_only], erule rx_only_tx_kept)
      (rule keeps_mono [OF rx_try_start_only], erule rx_only_tx_kept)
  show "keeps tx_kept (tx_try_start E)"
    by (rule tx_keptI, rule wpx_mono, erule tx_try_start_keeps) simp
  show "keeps tx_kept (net_can_tx E sz)"
    by (rule tx_keptI, rule wpx_mono, erule net_can_tx_spec) simp
qed

lemma tx_kept_usb:
  "keeps tx_kept (net_rx_renew E)" "keeps tx_kept (net_usb_transfer E ep n)"
  "keeps tx_kept (net_usb_control_transfer E req)"
  unfolding net_rx_renew_def net_usb_transfer_def net_usb_control_transfer_def
    rx_validate_datagram_def tx_insert_zlp_def tx_notification_def
  by (intro txf.keeps_rules txf.keeps_modify txf.keeps_list tx_kept_updates tx_kept_ops)+

section \<open>The step relation\<close>

text \<open>
  Sending a datagram is the network side's protocol: ask for room, then hand the datagram over
  (\<^verbatim>\<open>link_output_app\<close> of the application, \<^verbatim>\<open>main\<close> of the driver's own harness).
\<close>

definition net_send :: "('w, 'd) ncm_env \<Rightarrow> u16 \<Rightarrow> 'd \<Rightarrow> u16 \<Rightarrow> ('w ncm_sys, bool) act" where
  "net_send E sz d arg =
     act_bind (net_can_tx E sz) (\<lambda>ok.
     if ok then act_bind (net_tx E d arg) (\<lambda>_. act_return True) else act_return False)"

text \<open>
  What the driver needs of \<^verbatim>\<open>net_tx_cb\<close>: it returns the number of bytes it stored, at least
  one and no more than the size that was asked for; and that size fits an empty block.
\<close>

definition tx_cb_ok :: "('w, 'd) ncm_env \<Rightarrow> u16 \<Rightarrow> 'd \<Rightarrow> u16 \<Rightarrow> bool" where
  "tx_cb_ok E sz d arg \<longleftrightarrow> unat sz \<le> max_datagram \<and>
     (\<forall>w bs len w'. net_tx_cb E d arg w = Inr ((bs, len), w') \<longrightarrow>
        unat len = length bs \<and> 0 < length bs \<and> length bs \<le> unat sz)"

inductive ncm_step :: "('w, 'd) ncm_env \<Rightarrow> 'w ncm_sys \<Rightarrow> 'w ncm_sys \<Rightarrow> bool" for E where
  can_tx: "net_can_tx E sz s = Inr (r, s') \<Longrightarrow> ncm_step E s s'"
| send: "tx_cb_ok E sz d arg \<Longrightarrow> net_send E sz d arg s = Inr (r, s') \<Longrightarrow> ncm_step E s s'"
| rx_renew: "net_rx_renew E s = Inr ((), s') \<Longrightarrow> ncm_step E s s'"
| usb_done: "net_usb_transfer E ep n s = Inr (r, s') \<Longrightarrow> ncm_step E s s'"
| control: "net_usb_control_transfer E req s = Inr (r, s') \<Longrightarrow> ncm_step E s s'"
| host_out: "ncm_step E s (s\<lparr>ncm_if := (ncm_if s)\<lparr>rx_ntb := f\<rparr>\<rparr>)"
| elsewhere: "ncm_step E s (s\<lparr>world := w\<rparr>)"

inductive ncm_reach :: "('w, 'd) ncm_env \<Rightarrow> 'w ncm_sys \<Rightarrow> bool" for E where
  init: "net_init s = Inr ((), s') \<Longrightarrow> ncm_reach E s'"
| step: "ncm_reach E s \<Longrightarrow> ncm_step E s s' \<Longrightarrow> ncm_reach E s'"

inductive_cases ncm_stepE: "ncm_step E s s'"

text \<open>
  A relation that every operation keeps, and that allows the hardware to write receive blocks, holds
  along every run.
\<close>

locale step_rel = frame_rel +
  fixes E :: "('w, 'd) ncm_env"
  assumes op_can_tx: "keeps R (net_can_tx E sz)"
    and op_send: "tx_cb_ok E sz d arg \<Longrightarrow> keeps R (net_send E sz d arg)"
    and op_renew: "keeps R (net_rx_renew E)"
    and op_usb: "keeps R (net_usb_transfer E ep n)"
    and op_control: "keeps R (net_usb_control_transfer E req)"
    and op_host: "R a (a\<lparr>rx_ntb := f\<rparr>)"
begin

lemma step_rel: "ncm_step E s s' \<Longrightarrow> R (ncm_if s) (ncm_if s')"
  by (erule ncm_stepE) (auto simp: op_host refl
      dest: keepsD [OF op_can_tx] keepsD [OF op_send] keepsD [OF op_renew] keepsD [OF op_usb]
        keepsD [OF op_control])

lemma run_rel: "(ncm_step E)\<^sup>*\<^sup>* s s' \<Longrightarrow> R (ncm_if s) (ncm_if s')"
  by (induction rule: rtranclp_induct) (auto intro: refl trans dest: step_rel)

lemma reach_rel: "ncm_reach E s \<Longrightarrow> R ncm_ready (ncm_if s)"
  by (induction rule: ncm_reach.induct) (auto simp: net_init_eq intro: refl trans dest: step_rel)

end

lemma net_send_tx_kept:
  assumes ok: "tx_cb_ok E sz d arg"
  shows "keeps tx_kept (net_send E sz d arg)"
proof (rule tx_keptI)
  fix s :: "'a ncm_sys"
  assume inv: "tx_inv (ncm_if s)"
  have tx: "dwp (net_tx E d arg) (\<lambda>_ s'. tx_inv (ncm_if s')
      \<and> mset (tx_owned (ncm_if s')) = mset (tx_owned (ncm_if t))) t"
    if t: "tx_inv (ncm_if t)" "tx_room sz (ncm_if t)" for t
  proof -
    obtain p where p: "tx_user_ntb (ncm_if t) = Some p" using t by (auto simp: tx_room_def)
    show ?thesis
    proof (cases "net_tx_cb E d arg (world t)")
      case (Inl e)
      then show ?thesis
        using p tx_inv_ptrs(1) [OF t(1) p] by (simp add: net_tx_def wpx_def [of _ "net_tx_cb E d arg"])
    next
      case (Inr b)
      then obtain bs len w where cb: "net_tx_cb E d arg (world t) = Inr ((bs, len), w)"
        by (metis surj_pair)
      then have len: "unat len = length bs" "0 < length bs" "length bs \<le> unat sz"
        using ok by (auto simp: tx_cb_ok_def)
      then have "tx_room len (ncm_if t)"
        by (metis tx_room_mono t(2))
      from wpx_mono [OF net_tx_spec [OF t(1) p this cb len(1,2)]] show ?thesis by simp
    qed
  qed
  show "dwp (net_send E sz d arg) (\<lambda>_ s'. tx_inv (ncm_if s')
      \<and> mset (tx_owned (ncm_if s')) = mset (tx_owned (ncm_if s))) s"
    unfolding net_send_def wpx_bind
    by (rule wpx_mono [OF net_can_tx_spec [OF inv, of E sz]])
      (use ok in \<open>auto simp: tx_cb_ok_def intro!: wpx_mono [OF tx]\<close>)
qed

interpretation txm: step_rel tx_kept E for E :: "('w, 'd) ncm_env"
  by unfold_locales
    (rule tx_kept_ops tx_kept_usb, (erule net_send_tx_kept)?, (simp add: tx_kept_def tx_inv_rx_ntb)?)+

section \<open>A block handed to USB never comes back\<close>

text \<open>
  The completion handler of the IN endpoint does not clear \<^verbatim>\<open>tx_usbd_ntb\<close>, and the one of the
  OUT endpoint does not clear \<^verbatim>\<open>rx_usbd_ntb\<close>: once set, both keep their value.  The two proofs
  share what no operation but \<^verbatim>\<open>tx_try_start\<close> and \<^verbatim>\<open>rx_try_start\<close> can change.
\<close>

lemma act_bind_return [simp]: "act_bind (act_return x) f = f x"
  by (rule ext) (simp add: act_bind_def act_return_def)

lemmas ncm_op_defs = net_send_def net_can_tx_def net_tx_def net_rx_renew_def net_usb_transfer_def
  net_usb_control_transfer_def tx_datagram_fits_user_ntb_def tx_accept_user_ntb_def
  tx_notification_def tx_insert_zlp_def rx_update_user_ntb_def rx_entry_def rx_validate_datagram_def
  act_bind_return if_True

locale usbd_frame = frame_rel R for R :: "ncm_interface_t \<Rightarrow> ncm_interface_t \<Rightarrow> bool" +
  fixes E :: "('w, 'd) ncm_env"
  assumes upd_obj: "R a (ntb_obj_update p f a)"
    and upd_active: "R a (interface_active_update f1 a)"
    and upd_lists: "R a (rx_free_ntb_update f2 a)" "R a (rx_wait_ntb_update f2 a)"
      "R a (tx_free_ntb_update f2 a)" "R a (tx_wait_ntb_update f2 a)"
    and upd_user: "R a (a\<lparr>rx_user_ntb := x, rx_user_ntb_datagram_index := i\<rparr>)"
      "R a (tx_user_ntb_update f3 a)"
    and upd_index: "R a (rx_user_ntb_datagram_index_update f4 a)"
      "R a (tx_user_ntb_datagram_index_update f4 a)" "R a (tx_seq_count_update f4 a)"
    and upd_notify: "R a (notification_state_update f5 a)"
    and upd_rx_ntb: "R a (a\<lparr>rx_ntb := g\<rparr>)"
    and starts: "keeps R (tx_try_start E)" "keeps R (rx_try_start E)"
begin

lemmas usbd_rules = keeps_rules keeps_modify keeps_ntb_modify keeps_list upd_obj upd_active upd_lists
  upd_user upd_index upd_notify upd_rx_ntb starts

lemma ops_keep:
  "keeps R (net_can_tx E sz)" "keeps R (net_send E sz d arg)" "keeps R (net_rx_renew E)"
  "keeps R (net_usb_transfer E ep n)" "keeps R (net_usb_control_transfer E req)"
  unfolding ncm_op_defs by (intro usbd_rules)+

end

sublocale usbd_frame \<subseteq> step_rel R E
  by unfold_locales (rule ops_keep upd_rx_ntb)+

definition tx_sticky :: "ncm_interface_t \<Rightarrow> ncm_interface_t \<Rightarrow> bool" where
  "tx_sticky a b \<longleftrightarrow> (tx_usbd_ntb a \<noteq> None \<longrightarrow> tx_usbd_ntb b = tx_usbd_ntb a)"

definition rx_sticky :: "ncm_interface_t \<Rightarrow> ncm_interface_t \<Rightarrow> bool" where
  "rx_sticky a b \<longleftrightarrow> (rx_usbd_ntb a \<noteq> None \<longrightarrow> rx_usbd_ntb b = rx_usbd_ntb a)"

lemma rx_try_start_busy: "rx_usbd_ntb (ncm_if s) \<noteq> None \<Longrightarrow> rx_try_start E s = Inr (False, s)"
  by (simp add: rx_try_start_def get_if_def act_defs)

text \<open>An operation that returns at once where the relation says anything keeps it.\<close>

lemma keeps_refuse:
  assumes "\<And>s. P (ncm_if s) \<Longrightarrow> m s = Inr (r, s)" "\<And>a. R a a" "\<And>a b. \<not> P a \<Longrightarrow> R a b"
  shows "keeps R m"
  unfolding keeps_iff by (metis assms Inr_inject prod.inject)

lemma tx_try_start_sticky: "keeps tx_sticky (tx_try_start E)"
  by (rule keeps_refuse, erule tx_try_start_busy) (simp_all add: tx_sticky_def)

lemma rx_try_start_sticky: "keeps rx_sticky (rx_try_start E)"
  by (rule keeps_refuse, erule rx_try_start_busy) (simp_all add: rx_sticky_def)

lemma rx_start_tx_sticky: "keeps tx_sticky (rx_try_start E)"
  by (rule keeps_mono [OF rx_try_start_only]) (simp add: tx_sticky_def rx_only_fields)

interpretation rxf2: frame_rel "\<lambda>a b. rx_usbd_ntb b = rx_usbd_ntb a"
  by unfold_locales simp_all

lemma tx_start_rx_sticky: "keeps rx_sticky (tx_try_start E)"
proof (rule keeps_mono)
  show "keeps (\<lambda>a b. rx_usbd_ntb b = rx_usbd_ntb a) (tx_try_start E)"
    unfolding tx_try_start_def by (intro rxf2.keeps_rules rxf2.keeps_modify rxf2.keeps_list) simp_all
qed (simp add: rx_sticky_def)

interpretation txs: usbd_frame tx_sticky E for E :: "('w, 'd) ncm_env"
  by unfold_locales (simp_all add: tx_try_start_sticky rx_start_tx_sticky, simp_all add: tx_sticky_def)

interpretation rxs: usbd_frame rx_sticky E for E :: "('w, 'd) ncm_env"
  by unfold_locales (simp_all add: rx_try_start_sticky tx_start_rx_sticky, simp_all add: rx_sticky_def)

section \<open>The transmit stall\<close>

text \<open>
  No block with the user, none in the free list, one with USB: the transmit side refuses every
  datagram, and as the USB side never gives its block back, it does so for ever.
\<close>

definition tx_dead :: "ncm_interface_t \<Rightarrow> bool" where
  "tx_dead s \<longleftrightarrow> tx_usbd_ntb s \<noteq> None \<and> tx_user_ntb s = None \<and> pop_ntb (tx_free_ntb s) = Inr (None, tx_free_ntb s)"

definition tx_dead_kept :: "ncm_interface_t \<Rightarrow> ncm_interface_t \<Rightarrow> bool" where
  "tx_dead_kept a b \<longleftrightarrow> (tx_dead a \<longrightarrow> tx_dead b)"

interpretation txd: frame_rel tx_dead_kept
  by unfold_locales (auto simp: tx_dead_kept_def)

lemma net_can_tx_dead:
  assumes "tx_dead (ncm_if s)"
  shows "net_can_tx E sz s = Inr (False, s)"
proof -
  have "s\<lparr>ncm_if := (ncm_if s)\<lparr>tx_free_ntb := tx_free_ntb (ncm_if s), tx_user_ntb := None\<rparr>\<rparr> = s"
    using assms by (simp add: tx_dead_def)
  with assms tx_try_start_busy [of s E] show ?thesis
    by (auto simp: net_can_tx_def tx_datagram_fits_user_ntb_def tx_accept_user_ntb_def tx_dead_def
        act_defs get_if_def modify_if_def on_list_def)
qed

lemma tx_dead_ops:
  "keeps tx_dead_kept (net_can_tx E sz)" "keeps tx_dead_kept (net_send E sz d arg)"
  "keeps tx_dead_kept (tx_try_start E)"
proof -
  show "keeps tx_dead_kept (net_can_tx E sz)"
    by (auto simp: keeps_iff tx_dead_kept_def net_can_tx_dead)
  show "keeps tx_dead_kept (net_send E sz d arg)"
    by (auto simp: keeps_iff tx_dead_kept_def net_can_tx_dead net_send_def act_defs)
  show "keeps tx_dead_kept (tx_try_start E)"
    by (rule keeps_refuse, erule tx_try_start_busy) (simp_all add: tx_dead_kept_def tx_dead_def)
qed

lemma tx_dead_updates:
  "tx_dead_kept a (interface_active_update f1 a)" "tx_dead_kept a (rx_free_ntb_update f2 a)"
  "tx_dead_kept a (rx_wait_ntb_update f3 a)" "tx_dead_kept a (rx_usbd_ntb_update f4 a)"
  "tx_dead_kept a (notification_state_update f5 a)"
  by (simp_all add: tx_dead_kept_def tx_dead_def)

lemma rx_only_tx_dead: "rx_only a b \<Longrightarrow> tx_dead_kept a b"
  by (simp add: tx_dead_kept_def tx_dead_def rx_only_fields)

lemma tx_dead_rx: "keeps tx_dead_kept (rx_update_user_ntb E)" "keeps tx_dead_kept (rx_try_start E)"
  by (rule keeps_mono [OF rx_update_only], erule rx_only_tx_dead)
    (rule keeps_mono [OF rx_try_start_only], erule rx_only_tx_dead)

lemma tx_dead_usb:
  "keeps tx_dead_kept (net_rx_renew E)" "keeps tx_dead_kept (net_usb_transfer E ep n)"
  "keeps tx_dead_kept (net_usb_control_transfer E req)"
  unfolding net_rx_renew_def net_usb_transfer_def net_usb_control_transfer_def
    rx_validate_datagram_def tx_insert_zlp_def tx_notification_def
  by (intro txd.keeps_rules txd.keeps_modify txd.keeps_list tx_dead_updates tx_dead_ops tx_dead_rx)+

interpretation txd: step_rel tx_dead_kept E for E :: "('w, 'd) ncm_env"
  by unfold_locales (simp_all add: tx_dead_ops tx_dead_usb, simp add: tx_dead_kept_def tx_dead_def)

section \<open>The receive invariant\<close>

text \<open>
  The receive lists stay in bounds and every receive pointer points to a receive block.  A block may
  have several owners here: pushing it to a list does not clear the pointer it came from.
\<close>

definition rx_ptrs :: "ncm_interface_t \<Rightarrow> ntb_ptr set" where
  "rx_ptrs s = set (ring_contents (rx_free_ntb s)) \<union> set (ring_contents (rx_wait_ntb s))
     \<union> set_option (rx_usbd_ntb s) \<union> set_option (rx_user_ntb s)"

definition rx_inv :: "ncm_interface_t \<Rightarrow> bool" where
  "rx_inv s \<longleftrightarrow> ring_inv (rx_free_ntb s) \<and> ring_inv (rx_wait_ntb s) \<and> rx_ptrs s \<subseteq> {RxNtb 0, RxNtb 1}"

definition rx_kept :: "ncm_interface_t \<Rightarrow> ncm_interface_t \<Rightarrow> bool" where
  "rx_kept a b \<longleftrightarrow> (rx_inv a \<longrightarrow> rx_inv b)"

interpretation rxk: frame_rel rx_kept
  by unfold_locales (auto simp: rx_kept_def)

lemma rx_keptI:
  assumes "\<And>s. rx_inv (ncm_if s) \<Longrightarrow> wlp m (\<lambda>_ s'. rx_inv (ncm_if s')) s"
  shows "keeps rx_kept m"
  using assms by (fastforce simp: keeps_iff rx_kept_def wpx_def)

lemma rx_inv_ring: "rx_inv s \<Longrightarrow> ring_inv (rx_free_ntb s)" "rx_inv s \<Longrightarrow> ring_inv (rx_wait_ntb s)"
  by (simp_all add: rx_inv_def)

lemma rx_inv_valid: "rx_inv s \<Longrightarrow> p \<in> rx_ptrs s \<Longrightarrow> ntb_valid p"
  by (auto simp: rx_inv_def NCM_NTB_N_def)

lemma rx_kept_updates [simp]:
  "rx_kept a (ntb_obj_update p f0 a)" "rx_kept a (interface_active_update f1 a)"
  "rx_kept a (tx_free_ntb_update f2 a)" "rx_kept a (tx_wait_ntb_update f3 a)"
  "rx_kept a (tx_usbd_ntb_update f4 a)" "rx_kept a (tx_user_ntb_update f5 a)"
  "rx_kept a (tx_user_ntb_datagram_index_update f6 a)" "rx_kept a (tx_seq_count_update f7 a)"
  "rx_kept a (rx_user_ntb_datagram_index_update f8 a)" "rx_kept a (notification_state_update f9 a)"
  "rx_kept a (rx_ntb_update f10 a)" "rx_kept a (a\<lparr>tx_usbd_ntb := x, tx_user_ntb := y\<rparr>)"
  "rx_kept a (rx_usbd_ntb_update (\<lambda>_. None) a)"
  by (auto simp: rx_kept_def rx_inv_def rx_ptrs_def)

lemma rx_push_usbd:
  assumes "rx_inv (ncm_if s)"
  shows "wlp (on_list rx_wait_ntb rx_wait_ntb_update (push_ntb (rx_usbd_ntb (ncm_if s)))) (\<lambda>_ s'. rx_inv (ncm_if s')) s"
    "wlp (on_list rx_free_ntb rx_free_ntb_update (push_ntb (rx_usbd_ntb (ncm_if s)))) (\<lambda>_ s'. rx_inv (ncm_if s')) s"
  using assms by (auto intro!: ring.push_wp simp: rx_inv_def rx_ptrs_def)

lemma rx_update_kept: "keeps rx_kept (rx_update_user_ntb E)"
proof (rule rx_keptI)
  fix s :: "'a ncm_sys"
  assume inv: "rx_inv (ncm_if s)"
  note w = wlp_any [where m = "net_rx_cb E m i n" for m i n]
  show "wlp (rx_update_user_ntb E) (\<lambda>_ s'. rx_inv (ncm_if s')) s"
  proof (cases "rx_user_ntb (ncm_if s)")
    case None
    then show ?thesis unfolding rx_update_user_ntb_def
      by simp (rule ring.pop_wp [OF rx_inv_ring(2) [OF inv]];
          use inv in \<open>auto simp: rx_inv_def rx_ptrs_def intro!: w ring.push_wp\<close>)
  next
    case (Some p)
    then show ?thesis unfolding rx_update_user_ntb_def
      using inv by (auto simp: rx_inv_def rx_ptrs_def intro!: w ring.push_wp)
  qed
qed

lemma rx_start_kept: "keeps rx_kept (rx_try_start E)"
proof (rule rx_keptI)
  fix s :: "'a ncm_sys"
  assume inv: "rx_inv (ncm_if s)"
  show "wlp (rx_try_start E) (\<lambda>_ s'. rx_inv (ncm_if s')) s"
    unfolding rx_try_start_def
    using inv by (auto simp: rx_inv_def rx_ptrs_def intro!: world_any ring.pop_wp ring.push_wp) blast+
qed

lemma tx_start_rx_kept: "keeps rx_kept (tx_try_start E)"
  unfolding tx_try_start_def by (intro rxk.keeps_rules rxk.keeps_modify rxk.keeps_list) simp_all

lemma rx_kept_bind_push:
  assumes "\<And>x. keeps rx_kept (f x)"
  shows "keeps rx_kept (act_bind (get_if rx_usbd_ntb) (\<lambda>usbd.
      act_bind (on_list rx_wait_ntb rx_wait_ntb_update (push_ntb usbd)) f))"
    "keeps rx_kept (act_bind (get_if rx_usbd_ntb) (\<lambda>usbd.
      act_bind (on_list rx_free_ntb rx_free_ntb_update (push_ntb usbd)) f))"
proof -
  have f: "wlp (f x) (\<lambda>_ s'. rx_inv (ncm_if s')) s" if "rx_inv (ncm_if s)" for x s
    using assms [of x] that by (auto simp: keeps_def rx_kept_def elim!: wpx_mono dest: spec [of _ s])
  show "keeps rx_kept (act_bind (get_if rx_usbd_ntb) (\<lambda>usbd.
      act_bind (on_list rx_wait_ntb rx_wait_ntb_update (push_ntb usbd)) f))"
    "keeps rx_kept (act_bind (get_if rx_usbd_ntb) (\<lambda>usbd.
      act_bind (on_list rx_free_ntb rx_free_ntb_update (push_ntb usbd)) f))"
    by (rule rx_keptI, simp only: wpx_bind wpx_get_if, rule wpx_mono, erule rx_push_usbd, rule f, assumption)+
qed

lemmas rx_kept_rules = rxk.keeps_rules rxk.keeps_modify rxk.keeps_ntb_modify rxk.keeps_list
  rx_kept_updates rx_update_kept rx_start_kept tx_start_rx_kept

interpretation rxm: step_rel rx_kept E for E :: "('w, 'd) ncm_env"
proof unfold_locales
  show "keeps rx_kept (net_can_tx E sz)" "keeps rx_kept (net_send E sz d arg)" for sz d arg
    unfolding net_send_def net_can_tx_def tx_datagram_fits_user_ntb_def tx_accept_user_ntb_def net_tx_def
    by (intro rx_kept_rules)+
  show "keeps rx_kept (net_rx_renew E)" "keeps rx_kept (net_usb_control_transfer E req)" for req
    unfolding net_rx_renew_def net_usb_control_transfer_def tx_notification_def
    by (intro rx_kept_rules)+
  show "keeps rx_kept (net_usb_transfer E ep n)" for ep n
    unfolding net_usb_transfer_def rx_validate_datagram_def act_bind_return if_True act_bind_assoc
      net_rx_renew_def tx_notification_def tx_insert_zlp_def
    by (intro rxk.keeps_if rx_kept_bind_push rx_kept_rules)
  show "rx_kept a (a\<lparr>rx_ntb := f\<rparr>)" for a f by simp
qed

lemma ncm_ready_rx_inv: "rx_inv ncm_ready"
  by (simp add: rx_inv_def rx_ptrs_def ncm_ready_def ncm_zero_def ring_inv_def ring_contents_def
      empty_ntb_list_def map_filter_def NCM_NTB_N_def numeral_2_eq_2)

lemma reach_rx_inv: "ncm_reach E s \<Longrightarrow> rx_inv (ncm_if s)"
  using rxm.reach_rel [of E s] ncm_ready_rx_inv by (simp add: rx_kept_def)

lemma reach_tx_inv: "ncm_reach E s \<Longrightarrow> tx_inv (ncm_if s)"
  using txm.reach_rel [of E s] ncm_ready_inv by (simp add: tx_kept_def)

section \<open>A recording environment\<close>

text \<open>
  A concrete environment for runs: it accepts every transfer and every datagram and records the
  calls; the world is the record.
\<close>

datatype env_call = EpZero "u8 list" | EpData u8 "u8 list" | EpOut u16 | Status | RxDatagram "u8 list"

definition buf_bytes :: "usb_buf \<Rightarrow> u16 \<Rightarrow> u8 list" where
  "buf_bytes b n = (case b of BufNull \<Rightarrow> [] | BufNtb p m \<Rightarrow> map m [0..<unat n] | BufBytes bs \<Rightarrow> bs)"

definition log_env :: "(env_call list, u8 list) ncm_env" where
  "log_env = \<lparr>
     usb_transfer_ep0 = (\<lambda>req b n w. Inr (True, w @ [EpZero (buf_bytes b n)])),
     usb_transfer_ep = (\<lambda>ep b n w.
       Inr (True, w @ [if ep = NCM_EP_DATA_OUT then EpOut n else EpData ep (buf_bytes b n)])),
     usb_control_status = (\<lambda>req w. Inr (True, w @ [Status])),
     usb_ep_busy = (\<lambda>ep w. Inr (False, w)),
     net_tx_cb = (\<lambda>d arg w. Inr ((d, of_nat (length d)), w)),
     net_rx_cb = (\<lambda>m off n w. Inr (1, w @ [RxDatagram (map m [off..<off + unat n])]))\<rparr>"

definition log_init :: "env_call list ncm_sys" where
  "log_init = \<lparr>ncm_if = ncm_ready, world = []\<rparr>"

text \<open>The host selects alternate setting 1, which activates the data interface.\<close>

definition set_interface_1 :: usb_control_request_t where
  "set_interface_1 = \<lparr>bmRequestType = \<lparr>req_recipient = 1, req_type = 0, req_direction = 0\<rparr>,
     bRequest = USB_REQ_SET_INTERFACE, wValue = 1, wIndex = 1, wLength = 0\<rparr>"

lemma log_init_reach: "ncm_reach log_env log_init"
proof (rule ncm_reach.init)
  show "net_init \<lparr>ncm_if = ncm_zero, world = []\<rparr> = Inr ((), log_init)"
    by (simp add: net_init_eq log_init_def)
qed

lemma log_tx_cb_ok:
  "d \<noteq> [] \<Longrightarrow> length d \<le> unat sz \<Longrightarrow> unat sz \<le> max_datagram \<Longrightarrow> tx_cb_ok log_env sz d arg"
  using le_less_trans [OF _ unat_u16_bound, of "length d" sz]
  by (auto simp: tx_cb_ok_def log_env_def word_to_nat)

lemma empty_ntb_list_eq: "empty_ntb_list = \<lparr>ntb_list = [None, None], list_front = 0, list_back = 0\<rparr>"
  by (simp add: empty_ntb_list_def NCM_NTB_N_def numeral_2_eq_2)

text \<open>Running the operations on concrete inputs: the driver's code, unfolded.\<close>

lemmas ncm_run = ncm_op_defs tx_try_start_def rx_try_start_def push_ntb_def pop_ntb_def
  log_env_def log_init_def ncm_ready_def ncm_zero_def empty_ntb_list_eq ncm_consts act_defs get_if_def
  modify_if_def on_list_def in_world_def ntb_read_def ntb_modify_def ALIGN_OFFSET_eq
  ntb_in_bounds_def set_interface_1_def

section \<open>Scripted runs\<close>

text \<open>A script of operations of the machine leads from a reachable state to a reachable state.\<close>

definition ncm_path :: "('w, 'd) ncm_env \<Rightarrow> ('w ncm_sys, 'a) act \<Rightarrow> bool" where
  "ncm_path E m \<longleftrightarrow> (\<forall>s x s'. ncm_reach E s \<longrightarrow> m s = Inr (x, s') \<longrightarrow> ncm_reach E s')"

lemma ncm_path_bind: "ncm_path E m \<Longrightarrow> (\<And>x. ncm_path E (f x)) \<Longrightarrow> ncm_path E (act_bind m f)"
  unfolding ncm_path_def
proof (intro allI impI, goal_cases)
  case (1 s x s')
  from 1(4) obtain y t where "m s = Inr (y, t)" "f y t = Inr (x, s')"
    by (auto simp: act_bind_def split: sum.splits)
  with 1(1-3) show ?case by blast
qed

lemma ncm_path_ops:
  "ncm_path E (act_return x)" "ncm_path E (net_can_tx E sz)"
  "tx_cb_ok E sz d arg \<Longrightarrow> ncm_path E (net_send E sz d arg)" "ncm_path E (net_rx_renew E)"
  "ncm_path E (net_usb_transfer E ep n)" "ncm_path E (net_usb_control_transfer E req)"
  by (auto simp: ncm_path_def act_return_def intro: ncm_reach.step ncm_step.intros)

lemma ncm_path_reach:
  assumes "ncm_path E m" "ncm_reach E s" "wp m (\<lambda>_ s'. P s') s"
  shows "\<exists>s'. ncm_reach E s' \<and> P s'"
  using assms by (auto simp: ncm_path_def wp_iff_Inr)

end
