(* ===== verification/Ncm_Props.thy ===== *)
theory Ncm_Props
  imports Ncm_Machine
begin

text \<open>
  The properties of the NCM driver: its lists, its transmit and receive paths, its control requests
  and the machine they form, each with a concrete run that meets its hypotheses.
\<close>

section \<open>The receive walk\<close>

text \<open>
  The host sends a block of \<open>len\<close> bytes and the USB side reports it; then the application polls
  \<open>k\<close> times.
\<close>

fun rx_polls :: "('w, 'd) ncm_env \<Rightarrow> nat \<Rightarrow> ('w ncm_sys, unit) act" where
  "rx_polls E 0 = act_return ()"
| "rx_polls E (Suc k) = act_bind (rx_polls E k) (\<lambda>_. net_rx_renew E)"

definition rx_session :: "('w, 'd) ncm_env \<Rightarrow> u16 \<Rightarrow> nat \<Rightarrow> ('w ncm_sys, unit) act" where
  "rx_session E len k = act_bind (net_usb_transfer E NCM_EP_DATA_OUT len) (\<lambda>_. rx_polls E k)"

text \<open>
  A block whose table has \<open>n\<close> datagrams and then a terminator, all of it inside the block; where
  the payload of the datagrams lies is up to the callback to check.
\<close>

definition rx_ntb_ok :: "ntb_t \<Rightarrow> nat \<Rightarrow> bool" where
  "rx_ntb_ok m n \<longleftrightarrow> 0 < n \<and> rx_table_ok m n
     \<and> (\<forall>i<n. rx_dIndex m i \<noteq> 0 \<and> rx_dLength m i \<noteq> 0)
     \<and> (rx_dIndex m n = 0 \<or> rx_dLength m n = 0)"

lemma rx_ntb_ok_bound: "rx_ntb_ok m n \<Longrightarrow> n < 65535"
  by (simp add: rx_ntb_ok_def rx_table_ok_def rx_entry_off_def ntb_in_bounds_def ntb_sizes ncm_consts)

text \<open>
  What one poll does to the number of the current datagram and to the world, where
  \<open>cb i\<close> is the call of the callback on datagram \<open>i\<close>: a refused datagram is offered again, an
  accepted one is followed by the next, the last one by itself.
\<close>

definition rx_turn :: "(nat \<Rightarrow> 'w \<Rightarrow> u16 \<times> 'w) \<Rightarrow> nat \<Rightarrow> nat \<times> 'w \<Rightarrow> nat \<times> 'w" where
  "rx_turn cb n = (\<lambda>(i, w). let (taken, w') = cb i w in (if taken = 0 then i else min (Suc i) (n - 1), w'))"

lemma rx_turn_below: "0 < n \<Longrightarrow> fst iw < n \<Longrightarrow> fst (rx_turn cb n iw) < n"
  by (auto simp: rx_turn_def split: prod.splits)

lemma rx_turns_accepted:
  assumes "\<And>i w. fst (cb i w) \<noteq> 0"
  shows "(rx_turn cb n ^^ k) (0, w) =
    (min k (n - 1), fold (\<lambda>i w. snd (cb i w)) (map (\<lambda>i. min i (n - 1)) [0..<k]) w)"
proof (induction k)
  case (Suc k)
  have "min (Suc (min k (n - 1))) (n - 1) = min (Suc k) (n - 1)" by simp
  then show ?case
    using Suc assms by (simp add: rx_turn_def case_prod_beta)
qed simp

text \<open>One poll with a block that is already the user's.\<close>

lemma rx_update_step:
  assumes m: "rx_ntb_ok m n" and user: "rx_user_ntb (ncm_if s) = Some p" "ntb_valid p"
    and obj: "ntb_obj (ncm_if s) p = m" and ring: "ring_inv (rx_free_ntb (ncm_if s))"
    and i: "unat (rx_user_ntb_datagram_index (ncm_if s)) = i" "i < n"
    and call: "net_rx_cb E m (unat (rx_dIndex m i)) (rx_dLength m i) (world s) = Inr (cb i (world s))"
  shows "wp (rx_update_user_ntb E) (\<lambda>_ s'. rx_user_ntb (ncm_if s') = Some p
    \<and> ntb_obj (ncm_if s') p = m \<and> ring_inv (rx_free_ntb (ncm_if s'))
    \<and> rx_usbd_ntb (ncm_if s') = rx_usbd_ntb (ncm_if s)
    \<and> (unat (rx_user_ntb_datagram_index (ncm_if s')), world s') = rx_turn cb n (i, world s)) s"
proof -
  obtain r w where r: "cb i (world s) = (r, w)" by force
  note cb = call [unfolded r]
  have ok: "rx_table_ok m i" "rx_table_ok m (Suc i)"
    using m i by (auto simp: rx_ntb_ok_def intro: rx_table_ok_mono)
  have nxt: "(rx_dIndex m (Suc i) \<noteq> 0 \<and> rx_dLength m (Suc i) \<noteq> 0) = (Suc i < n)"
    using m i by (cases "Suc i = n") (auto simp: rx_ntb_ok_def)
  have idx: "Suc i < n \<Longrightarrow> unat (rx_user_ntb_datagram_index (ncm_if s) + 1) = Suc i"
    using i rx_ntb_ok_bound [OF m] by (simp add: word_to_nat)
  have rest: "wp (if Suc i < n
        then act_bind (modify_if (rx_user_ntb_datagram_index_update (\<lambda>i. i + 1))) (\<lambda>_. act_return True)
        else on_list rx_free_ntb rx_free_ntb_update (push_ntb (Some p)))
      (\<lambda>_ s'. rx_user_ntb (ncm_if s') = Some p \<and> ntb_obj (ncm_if s') p = m
        \<and> ring_inv (rx_free_ntb (ncm_if s')) \<and> rx_usbd_ntb (ncm_if s') = rx_usbd_ntb (ncm_if s)
        \<and> unat (rx_user_ntb_datagram_index (ncm_if s')) = min (Suc i) (n - 1)
        \<and> world s' = world t) t"
    if "ncm_if t = ncm_if s" for t :: "'a ncm_sys"
    using that i user obj ring idx by (auto intro!: ring.push_wp)
  show ?thesis
    unfolding rx_update_user_ntb_def
    using rest [of "s\<lparr>world := w\<rparr>"] obj ring
    by (cases "r = 0") (simp_all add: user obj i ok nxt r rx_turn_def
        wpx_Inr [where m = "net_rx_cb E m a b" for a b, OF cb] split del: if_split)
qed

text \<open>
  The completion of a reception, and a poll, are \<^verbatim>\<open>rx_update_user_ntb\<close> alone as long as the
  USB side has a block: \<^verbatim>\<open>rx_try_start\<close> refuses.
\<close>

lemma net_rx_renew_busy:
  assumes "wpx F (rx_update_user_ntb E) (\<lambda>_ t. rx_usbd_ntb (ncm_if t) \<noteq> None \<and> Q t) s"
  shows "wpx F (net_rx_renew E) (\<lambda>_. Q) s"
proof -
  have "wpx F (rx_try_start E) (\<lambda>_. Q) t" if "rx_usbd_ntb (ncm_if t) \<noteq> None \<and> Q t" for t
    using that rx_try_start_busy [of t E] by (simp add: wpx_def)
  then show ?thesis
    unfolding net_rx_renew_def wpx_bind wpx_return by (rule wpx_mono [OF assms])
qed

lemma ring_inv_push_empty:
  assumes "ring_inv l" "ring_contents l = []"
  shows "\<exists>l'. push_ntb (Some p) l = Inr (True, l') \<and> ring_inv l' \<and> ring_contents l' = [p]"
  using assms by (auto simp: ring_simps split: option.splits if_splits)

lemma rx_complete_wp:
  assumes inv: "rx_inv (ncm_if s)" and usbd: "rx_usbd_ntb (ncm_if s) = Some p"
    and user: "rx_user_ntb (ncm_if s) = None" and wait: "ring_contents (rx_wait_ntb (ncm_if s)) = []"
    and upd: "\<And>l. ring_inv l \<Longrightarrow> wpx F (rx_update_user_ntb E) (\<lambda>_ t. rx_usbd_ntb (ncm_if t) \<noteq> None \<and> Q t)
      (s\<lparr>ncm_if := (ncm_if s)\<lparr>rx_wait_ntb := l, rx_user_ntb := Some p, rx_user_ntb_datagram_index := 0\<rparr>\<rparr>)"
  shows "wpx F (net_usb_transfer E NCM_EP_DATA_OUT len) (\<lambda>_. Q) s"
proof -
  obtain l where l: "push_ntb (Some p) (rx_wait_ntb (ncm_if s)) = Inr (True, l)" "ring_inv l" "ring_contents l = [p]"
    using ring_inv_push_empty [OF rx_inv_ring(2) [OF inv] wait] by blast
  have fetch: "wpx F (rx_update_user_ntb E) R (s\<lparr>ncm_if := (ncm_if s)\<lparr>rx_wait_ntb := l\<rparr>\<rparr>)"
    if "\<And>l'. ring_inv l' \<Longrightarrow> wpx F (rx_update_user_ntb E) R
      (s\<lparr>ncm_if := (ncm_if s)\<lparr>rx_wait_ntb := l', rx_user_ntb := Some p, rx_user_ntb_datagram_index := 0\<rparr>\<rparr>)" for R
  proof -
    obtain l' where l': "pop_ntb l = Inr (Some p, l')" "ring_inv l'"
      using pop_ntb_step [OF l(2)] l(3) by (auto simp: wpx_def split: sum.splits option.splits)
    from that [OF l'(2)] show ?thesis
      unfolding rx_update_user_ntb_def
      by (simp add: user wpx_Inr [where m = pop_ntb, OF l'(1)])
  qed
  have "wpx F (net_rx_renew E) (\<lambda>_. Q) (s\<lparr>ncm_if := (ncm_if s)\<lparr>rx_wait_ntb := l\<rparr>\<rparr>)"
    by (rule net_rx_renew_busy, rule fetch, rule upd)
  then show ?thesis
    unfolding net_usb_transfer_def rx_validate_datagram_def
    by (simp add: usbd wpx_Inr [where m = "push_ntb (Some p)", OF l(1)])
qed

lemma rx_session_walks:
  assumes inv: "rx_inv (ncm_if s)" and usbd: "rx_usbd_ntb (ncm_if s) = Some p"
    and user: "rx_user_ntb (ncm_if s) = None" and wait: "ring_contents (rx_wait_ntb (ncm_if s)) = []"
    and m: "rx_ntb_ok (ntb_obj (ncm_if s) p) n"
    and cb: "\<And>i w. net_rx_cb E (ntb_obj (ncm_if s) p) (unat (rx_dIndex (ntb_obj (ncm_if s) p) i))
      (rx_dLength (ntb_obj (ncm_if s) p) i) w = Inr (cb i w)"
  shows "wp (rx_session E len k) (\<lambda>_ s'. rx_user_ntb (ncm_if s') = Some p
    \<and> ntb_obj (ncm_if s') p = ntb_obj (ncm_if s) p \<and> ring_inv (rx_free_ntb (ncm_if s'))
    \<and> rx_usbd_ntb (ncm_if s') = Some p
    \<and> (unat (rx_user_ntb_datagram_index (ncm_if s')), world s') = (rx_turn cb n ^^ Suc k) (0, world s)) s"
proof -
  let ?m = "ntb_obj (ncm_if s) p"
  have valid: "ntb_valid p"
    using rx_inv_valid [OF inv] usbd by (simp add: rx_ptrs_def)
  have n: "0 < n" using m by (simp add: rx_ntb_ok_def)
  have below: "fst ((rx_turn cb n ^^ j) (0, w)) < n" for j w
    by (induction j) (simp_all add: n rx_turn_below)
  let ?P = "\<lambda>j t. rx_user_ntb (ncm_if t) = Some p \<and> ntb_obj (ncm_if t) p = ?m \<and> ring_inv (rx_free_ntb (ncm_if t))
    \<and> rx_usbd_ntb (ncm_if t) = Some p
    \<and> (unat (rx_user_ntb_datagram_index (ncm_if t)), world t) = (rx_turn cb n ^^ j) (0, world s)"
  have update: "wp (rx_update_user_ntb E) (\<lambda>_ t'. rx_usbd_ntb (ncm_if t') \<noteq> None \<and> ?P (Suc j) t') t" if "?P j t" for j t
  proof (rule wpx_mono [OF rx_update_step [OF m]])
    show "unat (rx_user_ntb_datagram_index (ncm_if t)) < n"
      using that below [of j "world s"] by (metis fst_conv)
  qed (use that valid cb in auto)
  have poll: "wp (net_rx_renew E) (\<lambda>_. ?P (Suc j)) t" if "?P j t" for j t
    by (rule net_rx_renew_busy, rule update, rule that)
  have polls: "wp (rx_polls E k) (\<lambda>_. ?P (Suc k)) t" if "?P (Suc 0) t" for t
  proof (induction k)
    case 0
    then show ?case using that by simp
  next
    case (Suc k)
    show ?case unfolding rx_polls.simps wpx_bind by (rule wpx_mono [OF Suc.IH], rule poll)
  qed
  have "wp (net_usb_transfer E NCM_EP_DATA_OUT len) (\<lambda>_. ?P (Suc 0)) s"
  proof (rule rx_complete_wp [OF inv usbd user wait], rule update, goal_cases)
    case (1 l)
    then show ?case using inv usbd by (cases p) (simp_all add: rx_inv_def)
  qed
  then show ?thesis
    unfolding rx_session_def wpx_bind by (rule wpx_mono) (rule polls)
qed

section \<open>The transmit path\<close>

text \<open>A run that activates the interface and sends three datagrams.\<close>

definition three_sends :: "(env_call list ncm_sys, bool \<times> bool \<times> bool) act" where
  "three_sends =
     act_bind (net_usb_control_transfer log_env set_interface_1) (\<lambda>_.
     act_bind (net_send log_env 3144 [1] 0) (\<lambda>a.
     act_bind (net_send log_env 3144 [2] 0) (\<lambda>b.
     act_bind (net_send log_env 3144 [3] 0) (\<lambda>c. act_return (a, b, c)))))"

lemma three_sends_path: "ncm_path log_env three_sends"
  unfolding three_sends_def
  by (intro ncm_path_bind ncm_path_ops log_tx_cb_ok)
    (simp_all add: max_datagram_def ntb_sizes ncm_consts)

lemma three_sends_run:
  "wp three_sends (\<lambda>r s. tx_usbd_ntb (ncm_if s) = Some (TxNtb 0) \<and> tx_user_ntb (ncm_if s) = None
     \<and> tx_dead (ncm_if s) \<and> r = (True, True, False)) log_init"
  by (simp add: wpx_def three_sends_def ncm_run tx_dead_def del: wr_list.simps)

lemma three_sends_reach:
  "\<exists>s. ncm_reach log_env s \<and> tx_usbd_ntb (ncm_if s) = Some (TxNtb 0) \<and> tx_dead (ncm_if s)"
  by (rule ncm_path_reach [OF three_sends_path log_init_reach], rule wpx_mono [OF three_sends_run]) simp

text \<open>C2. In every reachable state of the driver each of the two transmit blocks has exactly one
  owner among the free list, the wait list, the USB side and the user; the lists are in bounds; the
  blocks that wait or are with USB are well-formed NTBs, and the user's block is well formed with as
  many datagrams as its index says.\<close>

theorem tx_blocks_have_one_owner:
  assumes "ncm_reach E s"
  shows "tx_inv (ncm_if s) \<and> mset (tx_owned (ncm_if s)) = {#TxNtb 0, TxNtb 1#}"
  using txm.reach_rel [OF assms] ncm_ready_inv by (simp add: tx_kept_def)

theorem tx_blocks_have_one_owner_witness:
  "\<exists>s. ncm_reach log_env s \<and> tx_usbd_ntb (ncm_if s) = Some (TxNtb 0)
     \<and> tx_inv (ncm_if s) \<and> mset (tx_owned (ncm_if s)) = {#TxNtb 0, TxNtb 1#}"
  using three_sends_reach tx_blocks_have_one_owner [where E = log_env] by blast

text \<open>C7. Once a block has been handed to the USB side for transmission, no sequence of driver calls,
  completions, control requests or host activity takes it back, and \<^verbatim>\<open>tx_try_start\<close> refuses
  from then on without calling USB.\<close>

theorem tx_usbd_never_released:
  assumes "(ncm_step E)\<^sup>*\<^sup>* s s'" and "tx_usbd_ntb (ncm_if s) = Some p"
  shows "tx_usbd_ntb (ncm_if s') = Some p \<and> tx_try_start E s' = Inr (False, s')"
  using txs.run_rel [OF assms(1)] assms(2) tx_try_start_busy [of s' E] by (simp add: tx_sticky_def)

theorem tx_usbd_never_released_witness:
  "\<exists>s. ncm_reach log_env s \<and> tx_usbd_ntb (ncm_if s) = Some (TxNtb 0) \<and> tx_try_start log_env s = Inr (False, s)"
  using three_sends_reach tx_usbd_never_released [where E = log_env, OF rtranclp.rtrancl_refl] by blast

text \<open>The same for reception: a block handed to the USB side for reception stays there, and
  \<^verbatim>\<open>rx_try_start\<close> never starts another transfer.\<close>

theorem rx_usbd_never_released:
  assumes "(ncm_step E)\<^sup>*\<^sup>* s s'" and "rx_usbd_ntb (ncm_if s) = Some p"
  shows "rx_usbd_ntb (ncm_if s') = Some p \<and> rx_try_start E s' = Inr (False, s')"
  using rxs.run_rel [OF assms(1)] assms(2) rx_try_start_busy [of s' E] by (simp add: rx_sticky_def)

definition renewed :: "(env_call list ncm_sys, unit) act" where
  "renewed = act_bind (net_usb_control_transfer log_env set_interface_1) (\<lambda>_. net_rx_renew log_env)"

lemma renewed_reach: "\<exists>s. ncm_reach log_env s \<and> rx_usbd_ntb (ncm_if s) = Some (RxNtb 0)
  \<and> rx_user_ntb (ncm_if s) = None \<and> ring_contents (rx_wait_ntb (ncm_if s)) = []"
proof (rule ncm_path_reach [OF _ log_init_reach])
  show "ncm_path log_env renewed"
    unfolding renewed_def by (intro ncm_path_bind ncm_path_ops)
  show "wp renewed (\<lambda>_ s. rx_usbd_ntb (ncm_if s) = Some (RxNtb 0)
      \<and> rx_user_ntb (ncm_if s) = None \<and> ring_contents (rx_wait_ntb (ncm_if s)) = []) log_init"
    by (simp add: wpx_def renewed_def ring_contents_def map_filter_def ncm_run)
qed

text \<open>The USB side holds the first receive block and the host has filled it with \<open>m\<close>.\<close>

lemma host_block_reach:
  obtains s where "ncm_reach log_env s" "rx_usbd_ntb (ncm_if s) = Some (RxNtb 0)" "rx_user_ntb (ncm_if s) = None"
    "ring_contents (rx_wait_ntb (ncm_if s)) = []" "rx_ntb (ncm_if s) = (\<lambda>_. m)" "world s = []"
proof -
  obtain s where s: "ncm_reach log_env s" "rx_usbd_ntb (ncm_if s) = Some (RxNtb 0)"
    "rx_user_ntb (ncm_if s) = None" "ring_contents (rx_wait_ntb (ncm_if s)) = []"
    using renewed_reach by blast
  let ?s = "s\<lparr>ncm_if := (ncm_if s)\<lparr>rx_ntb := (\<lambda>_. m)\<rparr>\<rparr>"
  have "ncm_reach log_env (?s\<lparr>world := []\<rparr>)"
    by (rule ncm_reach.step [OF ncm_reach.step [OF s(1) ncm_step.host_out] ncm_step.elsewhere])
  with s(2-4) show ?thesis by (intro that [of "?s\<lparr>world := []\<rparr>"]) simp_all
qed

theorem rx_usbd_never_released_witness:
  "\<exists>s. ncm_reach log_env s \<and> rx_usbd_ntb (ncm_if s) = Some (RxNtb 0) \<and> rx_try_start log_env s = Inr (False, s)"
  using renewed_reach rx_usbd_never_released [where E = log_env, OF rtranclp.rtrancl_refl] by blast

text \<open>C8. When the user has no block, none is free and USB holds one, every later request for room is
  refused, whatever happens in between: a caller that waits for room waits for ever.\<close>

theorem tx_stall_is_permanent:
  assumes "(ncm_step E)\<^sup>*\<^sup>* s s'" and "tx_dead (ncm_if s)"
  shows "net_can_tx E sz s' = Inr (False, s')"
  using txd.run_rel [OF assms(1)] assms(2) by (simp add: tx_dead_kept_def net_can_tx_dead)

theorem tx_stall_is_permanent_witness:
  "\<exists>s. ncm_reach log_env s \<and> tx_dead (ncm_if s) \<and> net_can_tx log_env 100 s = Inr (False, s)"
  using three_sends_reach tx_stall_is_permanent [where E = log_env, OF rtranclp.rtrancl_refl] by blast

section \<open>What a datagram becomes\<close>

text \<open>What \<^verbatim>\<open>net_can_tx\<close> leaves behind: when it says yes, the block the datagram goes to is
  the user's, unchanged or fresh; every other block keeps its contents.\<close>

lemma net_can_tx_block:
  assumes inv: "tx_inv (ncm_if s)"
  shows "dwp (net_can_tx E sz) (\<lambda>r s'. (\<not> r \<longrightarrow> (\<forall>q. ntb_obj (ncm_if s') q = ntb_obj (ncm_if s) q))
    \<and> (r \<longrightarrow> world s' = world s \<and> (\<exists>p. tx_user_ntb (ncm_if s') = Some p \<and> tx_collects sz (ncm_if s) = Some p
      \<and> (if tx_room sz (ncm_if s) then s' = s else ntb_datagrams (ntb_obj (ncm_if s') p) = [])
      \<and> (\<forall>q. q \<noteq> p \<longrightarrow> ntb_obj (ncm_if s') q = ntb_obj (ncm_if s) q)))) s"
proof -
  have fresh: "ntb_datagrams (ntb_populate q m) = []" for q m
    by (simp add: ntb_datagrams_wf [OF ntb_wf_populate])
  have acc: "dwp tx_accept_user_ntb (\<lambda>ok. dwp (if ok then act_return True
      else act_bind (tx_try_start E) (\<lambda>_. act_return False))
      (\<lambda>r s'. (\<not> r \<longrightarrow> (\<forall>q. ntb_obj (ncm_if s') q = ntb_obj (ncm_if s) q))
      \<and> (r \<longrightarrow> world s' = world s \<and> (\<exists>p ps. tx_user_ntb (ncm_if s') = Some p
        \<and> ring_contents (tx_free_ntb (ncm_if s)) = p # ps \<and> ntb_datagrams (ntb_obj (ncm_if s') p) = []
        \<and> (\<forall>q. q \<noteq> p \<longrightarrow> ntb_obj (ncm_if s') q = ntb_obj (ncm_if s) q))))) s"
    by (rule wpx_mono [OF wpx_weaken [OF tx_accept_keeps [OF inv] empty_subsetI]])
      (auto simp: fresh intro!: wpx_mono [OF tx_try_start_keeps])
  show ?thesis
    unfolding net_can_tx_def wpx_bind
  proof (rule wpx_mono [OF wpx_weaken [OF tx_datagram_fits_wp [OF inv, of sz] empty_subsetI]], goal_cases)
    case (1 fits t)
    then have "t = s" "fits = tx_room sz (ncm_if s)" by (simp_all add: tx_room_def)
    moreover have "fits \<Longrightarrow> \<exists>p. tx_user_ntb (ncm_if s) = Some p" using 1 by auto
    moreover have "dwp tx_accept_user_ntb (\<lambda>ok. dwp (if ok then act_return True
        else act_bind (tx_try_start E) (\<lambda>_. act_return False))
        (\<lambda>r s'. (\<not> r \<longrightarrow> (\<forall>q. ntb_obj (ncm_if s') q = ntb_obj (ncm_if s) q))
        \<and> (r \<longrightarrow> world s' = world s \<and> (\<exists>p. tx_user_ntb (ncm_if s') = Some p \<and> tx_collects sz (ncm_if s) = Some p
          \<and> ntb_datagrams (ntb_obj (ncm_if s') p) = []
          \<and> (\<forall>q. q \<noteq> p \<longrightarrow> ntb_obj (ncm_if s') q = ntb_obj (ncm_if s) q))))) s"
      if "\<not> tx_room sz (ncm_if s)"
      by (rule wpx_mono [OF acc], erule wpx_mono) (use that in \<open>auto simp: tx_collects_def\<close>)
    ultimately show ?case
      by (cases fits) (auto simp: tx_collects_def)
  qed
qed



text \<open>The block a transfer would take: the oldest waiting one, else a non-empty user block.\<close>

definition tx_next :: "ncm_interface_t \<Rightarrow> ntb_ptr option" where
  "tx_next s = (case ring_contents (tx_wait_ntb s) of
       p # _ \<Rightarrow> Some p
     | [] \<Rightarrow> if tx_user_ntb_datagram_index s \<noteq> 0 then tx_user_ntb s else None)"

lemma tx_next_wf:
  assumes "tx_inv s" "tx_next s = Some p"
  shows "\<exists>n. ntb_wf (ntb_obj s p) n" "ntb_valid p"
proof -
  show "\<exists>n. ntb_wf (ntb_obj s p) n"
    using assms by (auto simp: tx_next_def tx_inv_def split: list.splits if_splits)
  show "ntb_valid p"
    using assms tx_inv_ptrs(1,2) [OF assms(1)] by (auto simp: tx_next_def split: list.splits if_splits)
qed

text \<open>C3. What goes out on the bulk IN endpoint: from a reachable state with an idle endpoint and an
  active interface, \<^verbatim>\<open>tx_try_start\<close> transfers the oldest waiting block, or else the user's block
  if it holds a datagram, over exactly the length its header states, and records it as the USB side's
  block; that block is a well-formed NTB of at most 3200 bytes.\<close>

theorem tx_try_start_transfers_wellformed_block:
  assumes reach: "ncm_reach E s" and idle: "tx_usbd_ntb (ncm_if s) = None" "interface_active (ncm_if s) = 1"
    and ready: "usb_ep_busy E NCM_EP_DATA_IN (world s) = Inr (False, w)"
    and p: "tx_next (ncm_if s) = Some p" and m: "m = ntb_obj (ncm_if s) p"
    and sent: "usb_transfer_ep E NCM_EP_DATA_IN (BufNtb p m) (nth_wBlockLength m) w = Inr (r, w')"
  shows "wp (tx_try_start E) (\<lambda>x s'. x = r \<and> world s' = w' \<and> tx_usbd_ntb (ncm_if s') = Some p) s
    \<and> (\<exists>n. ntb_wf m n)"
proof -
  have inv: "tx_inv (ncm_if s)"
    by (rule reach_tx_inv [OF reach])
  note valid = tx_next_wf(2) [OF inv p]
  have "wp (tx_try_start E) (\<lambda>x s'. x = r \<and> world s' = w' \<and> tx_usbd_ntb (ncm_if s') = Some p) s"
    unfolding tx_try_start_def
    by (simp add: idle wpx_Inr [where m = "usb_ep_busy E NCM_EP_DATA_IN", OF ready],
        rule ring.pop_wp [OF tx_inv_ptrs(5) [OF inv]])
      (use p valid in \<open>auto simp: tx_next_def wpx_Inr [where m = "usb_transfer_ep E a b c" for a b c,
        OF sent [unfolded m]] split: if_splits\<close>)
  then show ?thesis using tx_next_wf(1) [OF inv p] m by simp
qed

theorem tx_try_start_transfers_wellformed_block_witness:
  "\<exists>s. ncm_reach log_env s \<and> (\<exists>n. ntb_wf (ntb_obj (ncm_if s) (TxNtb 0)) n)
    \<and> wp (tx_try_start log_env) (\<lambda>r s'. r \<and> tx_usbd_ntb (ncm_if s') = Some (TxNtb 0)) s"
proof -
  let ?run = "act_bind (net_send log_env 100 [1, 2, 3] 0) (\<lambda>_. net_usb_control_transfer log_env set_interface_1)"
  have "\<exists>s. ncm_reach log_env s \<and> tx_usbd_ntb (ncm_if s) = None \<and> interface_active (ncm_if s) = 1
      \<and> tx_next (ncm_if s) = Some (TxNtb 0)"
  proof (rule ncm_path_reach [OF _ log_init_reach])
    show "ncm_path log_env ?run"
      by (intro ncm_path_bind ncm_path_ops log_tx_cb_ok)
        (simp_all add: max_datagram_def ntb_sizes ncm_consts)
    show "wp ?run (\<lambda>_ s. tx_usbd_ntb (ncm_if s) = None \<and> interface_active (ncm_if s) = 1
        \<and> tx_next (ncm_if s) = Some (TxNtb 0)) log_init"
      by (simp add: wpx_def tx_next_def ring_contents_def map_filter_def ncm_run del: wr_list.simps)
  qed
  then obtain s where s: "ncm_reach log_env s" "tx_usbd_ntb (ncm_if s) = None" "interface_active (ncm_if s) = 1"
      "tx_next (ncm_if s) = Some (TxNtb 0)" by blast
  let ?m = "ntb_obj (ncm_if s) (TxNtb 0)"
  have "wp (tx_try_start log_env) (\<lambda>x s'. x = True
      \<and> world s' = world s @ [EpData NCM_EP_DATA_IN (buf_bytes (BufNtb (TxNtb 0) ?m) (nth_wBlockLength ?m))]
      \<and> tx_usbd_ntb (ncm_if s') = Some (TxNtb 0)) s \<and> (\<exists>n. ntb_wf ?m n)"
    by (rule tx_try_start_transfers_wellformed_block [OF s(1-3) _ s(4) refl])
      (simp_all add: log_env_def ncm_consts)
  then have "wp (tx_try_start log_env) (\<lambda>r s'. r \<and> tx_usbd_ntb (ncm_if s') = Some (TxNtb 0)) s"
    "\<exists>n. ntb_wf ?m n"
    by (auto elim: wpx_mono)
  with s(1) show ?thesis by blast
qed

text \<open>A request for a datagram that no block can hold is granted when a fresh block is available,
  and the send that follows writes behind the end of the block.\<close>

theorem oversized_datagram_overflows:
  assumes free: "pop_ntb (tx_free_ntb (ncm_if s)) = Inr (Some p, l)" and user: "tx_user_ntb (ncm_if s) = None"
    and valid: "ntb_valid p"
    and cb: "net_tx_cb E d arg (world s) = Inr ((bs, len), w)" "max_datagram < length bs"
  shows "net_send E sz d arg s = Inl OutOfBounds"
proof -
  have "wpx {OutOfBounds} (net_send E sz d arg) (\<lambda>_ _. False) s"
    unfolding net_send_def net_can_tx_def tx_datagram_fits_user_ntb_def tx_accept_user_ntb_def net_tx_def
    using cb(2)
    by (simp add: user valid wpx_Inr [where m = pop_ntb, OF free] wpx_Inr [where m = "net_tx_cb E d arg", OF cb(1)]
        ntb_in_bounds_def max_datagram_def ntb_sizes ncm_consts)
  then show ?thesis
    by (auto simp: wpx_def split: sum.splits)
qed

theorem oversized_datagram_overflows_witness:
  "net_send log_env 3145 (replicate 3145 0) 0 log_init = Inl OutOfBounds"
proof (rule oversized_datagram_overflows)
  show "net_tx_cb log_env (replicate 3145 0) 0 (world log_init) = Inr ((replicate 3145 0, 3145), [])"
    by (simp add: log_env_def log_init_def)
  show "pop_ntb (tx_free_ntb (ncm_if log_init)) =
      Inr (Some (TxNtb 0), \<lparr>ntb_list = [None, Some (TxNtb 1)], list_front = 1, list_back = 1\<rparr>)"
    by (simp add: pop_ntb_def log_init_def ncm_ready_def NCM_NTB_N_def)
qed (simp_all add: log_init_def ncm_ready_def ncm_zero_def max_datagram_def ntb_sizes ncm_consts)

text \<open>Sequence numbers: each fresh transmit block carries the current 16-bit sequence count, which
  then advances modulo 65536.\<close>

theorem tx_accept_numbers_blocks:
  assumes "ncm_reach E s"
  shows "wp tx_accept_user_ntb (\<lambda>r s'. if r then
      (\<exists>p. tx_user_ntb (ncm_if s') = Some p \<and> nth_wSequence (ntb_obj (ncm_if s') p) = tx_seq_count (ncm_if s)
        \<and> unat (tx_seq_count (ncm_if s')) = Suc (unat (tx_seq_count (ncm_if s))) mod 65536)
      else tx_seq_count (ncm_if s') = tx_seq_count (ncm_if s)) s"
proof -
  have inv: "tx_inv (ncm_if s)"
    by (rule reach_tx_inv [OF assms])
  have seq: "unat (x + 1 :: u16) = Suc (unat x) mod 65536" for x
    by (simp add: word_to_nat)
  show ?thesis
    unfolding tx_accept_user_ntb_def
    by (auto simp: seq intro!: ring.push_wp [OF tx_inv_ptrs(5) [OF inv]] ring.pop_wp [OF tx_inv_ptrs(4) [OF inv]]
        dest: tx_inv_ptrs(3) [OF inv])
qed

theorem tx_accept_numbers_blocks_witness:
  "wp tx_accept_user_ntb (\<lambda>r s'. if r then
      (\<exists>p. tx_user_ntb (ncm_if s') = Some p \<and> nth_wSequence (ntb_obj (ncm_if s') p) = tx_seq_count (ncm_if log_init)
        \<and> unat (tx_seq_count (ncm_if s')) = Suc (unat (tx_seq_count (ncm_if log_init))) mod 65536)
      else tx_seq_count (ncm_if s') = tx_seq_count (ncm_if log_init)) log_init"
  by (rule tx_accept_numbers_blocks [OF log_init_reach])

section \<open>Reception\<close>

text \<open>C4. Receiving a block whose table lists \<open>n\<close> datagrams, from the completion of the transfer on:
  with no other block received before it, and whatever the datagram index was, the completion offers
  the first datagram to the callback and every later poll offers the current one, with the offset and
  the length the table states.  A refused datagram (the application refuses while a frame waits) is
  offered again; an accepted one is followed by the next in table order; the last one is offered
  again and again, because the block stays with the user.  A callback that accepts everything thus
  gets the \<open>n\<close> datagrams in order and then the last one at every poll.  The callback is assumed
  to return.\<close>

theorem rx_polls_walk_the_table:
  assumes inv: "rx_inv (ncm_if s)" and usbd: "rx_usbd_ntb (ncm_if s) = Some p"
    and user: "rx_user_ntb (ncm_if s) = None" and wait: "ring_contents (rx_wait_ntb (ncm_if s)) = []"
    and m: "rx_ntb_ok (ntb_obj (ncm_if s) p) n"
    and cb: "\<And>i w. net_rx_cb E (ntb_obj (ncm_if s) p) (unat (rx_dIndex (ntb_obj (ncm_if s) p) i))
      (rx_dLength (ntb_obj (ncm_if s) p) i) w = Inr (cb i w)"
  shows "wp (rx_session E len k) (\<lambda>_ s'. rx_user_ntb (ncm_if s') = Some p
    \<and> (unat (rx_user_ntb_datagram_index (ncm_if s')), world s') = (rx_turn cb n ^^ Suc k) (0, world s)
    \<and> ((\<forall>i w. fst (cb i w) \<noteq> 0) \<longrightarrow> world s' =
        fold (\<lambda>i w. snd (cb i w)) (map (\<lambda>i. min i (n - 1)) [0..<Suc k]) (world s))) s"
proof (rule wpx_mono [OF rx_session_walks [OF inv usbd user wait m cb, of len k]], goal_cases)
  case (1 x s')
  moreover have "world s' = snd ((rx_turn cb n ^^ Suc k) (0, world s))"
    using 1 by (metis snd_conv)
  ultimately show ?case
    using rx_turns_accepted [where cb = cb and n = n and k = "Suc k" and w = "world s"] by simp
qed

text \<open>A received block: NDP at offset 12, two datagrams of two and three bytes, terminator.\<close>

definition demo_ntb :: ntb_t where
  "demo_ntb = wr_list (\<lambda>_. 0) 0
     (le32 NTH16_SIGNATURE @ le16 12 @ le16 7 @ le16 40 @ le16 12
      @ le32 NDP16_SIGNATURE_NCM0 @ le16 20 @ le16 0
      @ le16 32 @ le16 2 @ le16 36 @ le16 3 @ le16 0 @ le16 0
      @ [0xAA, 0xBB, 0, 0, 1, 2, 3, 0])"

lemma demo_entries:
  "rx_entry_off demo_ntb i = 20 + 4 * i"
  "rx_dIndex demo_ntb 0 = 32" "rx_dLength demo_ntb 0 = 2" "rx_dIndex demo_ntb (Suc 0) = 36"
  "rx_dLength demo_ntb (Suc 0) = 3" "rx_dIndex demo_ntb 2 = 0" "rx_dLength demo_ntb 2 = 0"
  by (simp_all add: rx_dIndex_def rx_dLength_def rx_entry_off_def ntb_fields demo_ntb_def wr_list_at
      rd16_def le16_def le32_def ncm_consts)

lemma demo_ok: "rx_ntb_ok demo_ntb 2"
  by (auto simp: rx_ntb_ok_def rx_table_ok_def ntb_in_bounds_def demo_entries ntb_sizes ncm_consts
      dest!: less_2_cases)

lemma demo_payload: "map demo_ntb [32, 33] = [0xAA, 0xBB]" "map demo_ntb [36, 37, 38] = [1, 2, 3]"
  by (simp_all add: demo_ntb_def wr_list_at le16_def le32_def)

definition log_rx :: "nat \<Rightarrow> env_call list \<Rightarrow> u16 \<times> env_call list" where
  "log_rx i w = (1, w @ [RxDatagram (map demo_ntb [unat (rx_dIndex demo_ntb i) ..<
     unat (rx_dIndex demo_ntb i) + unat (rx_dLength demo_ntb i)])])"

lemma log_rx_call: "net_rx_cb log_env demo_ntb (unat (rx_dIndex demo_ntb i)) (rx_dLength demo_ntb i) w = Inr (log_rx i w)"
  by (simp add: log_env_def log_rx_def)

theorem rx_polls_walk_the_table_witness:
  "\<exists>s. ncm_reach log_env s \<and> wp (rx_session log_env 40 2) (\<lambda>_ s'. rx_user_ntb (ncm_if s') = Some (RxNtb 0)
     \<and> world s' = [RxDatagram [0xAA, 0xBB], RxDatagram [1, 2, 3], RxDatagram [1, 2, 3]]) s"
proof -
  obtain s where s: "ncm_reach log_env s" "rx_usbd_ntb (ncm_if s) = Some (RxNtb 0)" "rx_user_ntb (ncm_if s) = None"
    "ring_contents (rx_wait_ntb (ncm_if s)) = []" "rx_ntb (ncm_if s) = (\<lambda>_. demo_ntb)" "world s = []"
    by (rule host_block_reach)
  have "[0..<Suc 2] = [0, 1, 2::nat]" by (simp add: upt_rec)
  then have run: "fold (\<lambda>i w. snd (log_rx i w)) (map (\<lambda>i. min i (2 - 1)) [0..<Suc 2]) [] =
      [RxDatagram [0xAA, 0xBB], RxDatagram [1, 2, 3], RxDatagram [1, 2, 3]]"
    using demo_payload by (simp add: log_rx_def demo_entries)
  have acc: "\<forall>i w. fst (log_rx i w) \<noteq> 0" by (simp add: log_rx_def)
  have obj: "ntb_obj (ncm_if s) (RxNtb 0) = demo_ntb" by (simp add: s(5))
  have "wp (rx_session log_env 40 2) (\<lambda>_ s'. rx_user_ntb (ncm_if s') = Some (RxNtb 0)
      \<and> (unat (rx_user_ntb_datagram_index (ncm_if s')), world s') = (rx_turn log_rx 2 ^^ Suc 2) (0, world s)
      \<and> ((\<forall>i w. fst (log_rx i w) \<noteq> 0) \<longrightarrow> world s' =
          fold (\<lambda>i w. snd (log_rx i w)) (map (\<lambda>i. min i (2 - 1)) [0..<Suc 2]) (world s))) s"
    by (rule rx_polls_walk_the_table [OF reach_rx_inv [OF s(1)] s(2-4)]) (simp_all only: obj demo_ok log_rx_call)
  then show ?thesis
    using s(1) unfolding s(6) run using acc by (blast intro: wpx_mono)
qed

text \<open>C5. In every reachable state the receive lists are in bounds and every receive pointer points to
  a receive block, so a poll can fail only by reading a datagram table that the received block places
  outside itself: with the two entries it reads inside the block, it makes no invalid access.\<close>

theorem rx_update_safe_on_bounded_table:
  assumes reach: "ncm_reach E s"
    and table: "\<forall>p i. p \<in> rx_ptrs (ncm_if s) \<longrightarrow> i \<le> Suc (unat (rx_user_ntb_datagram_index (ncm_if s))) \<longrightarrow>
      rx_table_ok (ntb_obj (ncm_if s) p) i"
  shows "rx_inv (ncm_if s) \<and> dwp (rx_update_user_ntb E) (\<lambda>_ s'. rx_inv (ncm_if s')) s"
proof
  show inv: "rx_inv (ncm_if s)" by (rule reach_rx_inv [OF reach])
  have user: "\<And>p. rx_user_ntb (ncm_if s) = Some p \<Longrightarrow> p \<in> rx_ptrs (ncm_if s)"
    and waiting: "\<And>p ps. ring_contents (rx_wait_ntb (ncm_if s)) = p # ps \<Longrightarrow> p \<in> rx_ptrs (ncm_if s)"
    by (auto simp: rx_ptrs_def)
  have "dwp (rx_update_user_ntb E) (\<lambda>_ _. True) s"
    unfolding rx_update_user_ntb_def
    by (cases "rx_user_ntb (ncm_if s)")
      (auto intro!: ring.pop_wp ring.push_wp world_any rx_inv_ring inv simp: rx_inv_valid [OF inv] user
        waiting table)
  moreover have "wlp (rx_update_user_ntb E) (\<lambda>_ s'. rx_inv (ncm_if s')) s"
    using rx_update_kept [of E] inv by (auto simp: keeps_def rx_kept_def elim!: wpx_mono dest: spec [of _ s])
  ultimately show "dwp (rx_update_user_ntb E) (\<lambda>_ s'. rx_inv (ncm_if s')) s"
    by (auto simp: wpx_def split: sum.splits)
qed

text \<open>The host's block received and its first datagram delivered: a poll then reads the second entry.\<close>

interpretation rxb: frame_rel "\<lambda>a b. rx_ntb b = rx_ntb a"
  by unfold_locales simp_all

lemma net_usb_transfer_keeps_rx_ntb: "keeps (\<lambda>a b. rx_ntb b = rx_ntb a) (net_usb_transfer E NCM_EP_DATA_OUT n)"
  unfolding net_usb_transfer_def net_rx_renew_def rx_update_user_ntb_def rx_entry_def rx_try_start_def
    rx_validate_datagram_def tx_notification_def tx_insert_zlp_def if_P [OF refl]
  by (intro rxb.keeps_rules rxb.keeps_modify rxb.keeps_list) simp_all

lemma received_reach:
  obtains s where "ncm_reach log_env s" "rx_user_ntb (ncm_if s) = Some (RxNtb 0)"
    "rx_user_ntb_datagram_index (ncm_if s) = 1" "rx_ntb (ncm_if s) = (\<lambda>_. demo_ntb)"
proof -
  obtain s where s: "ncm_reach log_env s" "rx_usbd_ntb (ncm_if s) = Some (RxNtb 0)" "rx_user_ntb (ncm_if s) = None"
    "ring_contents (rx_wait_ntb (ncm_if s)) = []" "rx_ntb (ncm_if s) = (\<lambda>_. demo_ntb)" "world s = []"
    by (rule host_block_reach)
  have "wp (rx_session log_env 40 0) (\<lambda>_ s'. rx_user_ntb (ncm_if s') = Some (RxNtb 0)
      \<and> ntb_obj (ncm_if s') (RxNtb 0) = ntb_obj (ncm_if s) (RxNtb 0) \<and> ring_inv (rx_free_ntb (ncm_if s'))
      \<and> rx_usbd_ntb (ncm_if s') = Some (RxNtb 0)
      \<and> (unat (rx_user_ntb_datagram_index (ncm_if s')), world s') = (rx_turn log_rx 2 ^^ Suc 0) (0, world s)) s"
    by (rule rx_session_walks [OF reach_rx_inv [OF s(1)] s(2-4)])
      (simp_all only: s(5) ntb_obj.simps demo_ok log_rx_call)
  then obtain r t where t: "net_usb_transfer log_env NCM_EP_DATA_OUT 40 s = Inr (r, t)"
    "rx_user_ntb (ncm_if t) = Some (RxNtb 0)" "unat (rx_user_ntb_datagram_index (ncm_if t)) = 1"
    by (auto simp: rx_session_def wpx_def rx_turn_def log_rx_def act_bind_def act_return_def split: sum.splits)
  have "rx_ntb (ncm_if t) = (\<lambda>_. demo_ntb)"
    using keepsD [OF net_usb_transfer_keeps_rx_ntb t(1)] s(5) by simp
  moreover have "rx_user_ntb_datagram_index (ncm_if t) = 1"
    using t(3) by (metis unat_1 word_unat_eq_iff)
  ultimately show ?thesis
    using that [OF ncm_reach.step [OF s(1) ncm_step.usb_done [OF t(1)]] t(2)] by blast
qed

theorem rx_update_safe_on_bounded_table_witness:
  "\<exists>s. ncm_reach log_env s \<and> rx_user_ntb (ncm_if s) = Some (RxNtb 0) \<and> rx_user_ntb_datagram_index (ncm_if s) = 1
     \<and> rx_inv (ncm_if s) \<and> dwp (rx_update_user_ntb log_env) (\<lambda>_ s'. rx_inv (ncm_if s')) s"
proof -
  obtain s where s: "ncm_reach log_env s" "rx_user_ntb (ncm_if s) = Some (RxNtb 0)"
    "rx_user_ntb_datagram_index (ncm_if s) = 1" "rx_ntb (ncm_if s) = (\<lambda>_. demo_ntb)"
    by (rule received_reach)
  have "rx_table_ok (ntb_obj (ncm_if s) p) i" if "p \<in> rx_ptrs (ncm_if s)" "i \<le> 2" for p i
  proof -
    have "ntb_obj (ncm_if s) p = demo_ntb"
      using reach_rx_inv [OF s(1)] that(1) s(4) by (auto simp: rx_inv_def)
    then show ?thesis
      using demo_ok that(2) by (auto simp: rx_ntb_ok_def intro: rx_table_ok_mono)
  qed
  then have "\<forall>p i. p \<in> rx_ptrs (ncm_if s) \<longrightarrow> i \<le> Suc (unat (rx_user_ntb_datagram_index (ncm_if s))) \<longrightarrow>
      rx_table_ok (ntb_obj (ncm_if s) p) i"
    by (simp add: s(3) numeral_2_eq_2)
  from rx_update_safe_on_bounded_table [OF s(1) this] s(1-3) show ?thesis by blast
qed

text \<open>C6. The received block is not validated: when the host sends a block that places its datagram
  table outside the 3200 bytes and no other block is waiting or with the user, the completion of the
  transfer accepts the block and reads the table out of bounds, in every reachable state and for
  every reported length.\<close>

theorem malformed_block_is_read_out_of_bounds:
  assumes reach: "ncm_reach E s" and usbd: "rx_usbd_ntb (ncm_if s) = Some p"
    and user: "rx_user_ntb (ncm_if s) = None" and wait: "ring_contents (rx_wait_ntb (ncm_if s)) = []"
    and bad: "3200 < unat (nth_wNdpIndex (ntb_obj (ncm_if s) p)) + 12"
  shows "net_usb_transfer E NCM_EP_DATA_OUT len s = Inl OutOfBounds"
proof -
  note inv = reach_rx_inv [OF reach]
  have valid: "ntb_valid p"
    using rx_inv_valid [OF inv] usbd by (simp add: rx_ptrs_def)
  have obj: "ntb_obj ((ncm_if s)\<lparr>rx_wait_ntb := l, rx_user_ntb := u, rx_user_ntb_datagram_index := 0\<rparr>) p =
      ntb_obj (ncm_if s) p" for l u
    by (cases p) simp_all
  have "wpx {OutOfBounds} (net_usb_transfer E NCM_EP_DATA_OUT len) (\<lambda>_ _. False) s"
    by (rule rx_complete_wp [OF inv usbd user wait])
      (use bad in \<open>simp add: rx_update_user_ntb_def valid obj rx_table_ok_def ntb_in_bounds_def rx_entry_off_def
        ntb_sizes NCM_NTB_MAX_SIZE_def\<close>)
  then show ?thesis by (auto simp: wpx_def split: sum.splits)
qed

theorem malformed_block_is_read_out_of_bounds_witness:
  "\<exists>s. ncm_reach log_env s \<and> net_usb_transfer log_env NCM_EP_DATA_OUT 12 s = Inl OutOfBounds"
proof -
  obtain s where s: "ncm_reach log_env s" "rx_usbd_ntb (ncm_if s) = Some (RxNtb 0)" "rx_user_ntb (ncm_if s) = None"
    "ring_contents (rx_wait_ntb (ncm_if s)) = []" "rx_ntb (ncm_if s) = (\<lambda>_. wr16 (\<lambda>_. 0) 10 0xFFFF)" "world s = []"
    by (rule host_block_reach)
  moreover have "3200 < unat (nth_wNdpIndex (ntb_obj (ncm_if s) (RxNtb 0))) + 12"
    by (simp add: s(5) nth_wNdpIndex_def)
  ultimately show ?thesis
    using malformed_block_is_read_out_of_bounds by blast
qed

section \<open>The block lists\<close>

text \<open>C9. Over any sequence of pushes and pops on an empty list, the blocks come out in the order they
  went in: what was accepted is what was given back followed by what is still held, and no access
  leaves the list.\<close>

theorem ntb_list_is_fifo:
  "wp (fifo_run push_ntb pop_ntb ops [] [])
     (\<lambda>(took, gave) l. took = gave @ ring_contents l \<and> ring_inv l) empty_ntb_list"
  by (rule wpx_mono [OF ring.run_fifo]) auto

text \<open>C10. The list does not have the capacity its array suggests: its indices stop at 1 instead of
  wrapping around, so after one successful pop it holds at most one block, and a push onto a list
  that already holds one is refused although the other slot is empty.\<close>

theorem ntb_list_capacity_after_pop:
  assumes "ring_inv l" and "pop_ntb l = Inr (Some p, l')"
  shows "list_front l' = 1 \<and> list_back l' = 1 \<and> hd (ntb_list l') = None \<and> length (ring_contents l') \<le> 1
    \<and> (ring_contents l' \<noteq> [] \<longrightarrow> push_ntb (Some q) l' = Inr (False, l'))"
  using assms by (auto simp: ring_simps split: option.splits)

theorem ntb_list_capacity_after_pop_witness:
  "\<exists>l :: ntb_ptr ntb_list_t. ring_contents l = [TxNtb 1] \<and> hd (ntb_list l) = None
     \<and> push_ntb (Some (TxNtb 0)) l = Inr (False, l)"
  using ntb_list_capacity_after_pop [of "tx_free_ntb ncm_ready" "TxNtb 0"
      "\<lparr>ntb_list = [None, Some (TxNtb 1)], list_front = 1, list_back = 1\<rparr>" "TxNtb 0"]
  by (intro exI [of _ "\<lparr>ntb_list = [None, Some (TxNtb 1)], list_front = 1, list_back = 1\<rparr>"])
    (simp add: ncm_ready_def ring_simps)

section \<open>Notifications and parameters\<close>

text \<open>The notifications the host receives: NETWORK_CONNECTION with value 1 (connected) and
  CONNECTION_SPEED_CHANGE with 480 Mbit/s both ways, as class notifications to an interface in the
  byte layout of the CDC specification.\<close>

theorem notification_images:
  "notification_bytes notify_connection = [0xA1, 0x00, 1, 0, 0, 0, 0, 0]
   \<and> notify_speed_bytes notify_speed =
       [0xA1, 0x2A, 0, 0, 0, 0, 8, 0] @ [0x00, 0x38, 0x9C, 0x1C] @ [0x00, 0x38, 0x9C, 0x1C]"
  by (simp add: notification_bytes_def notify_speed_bytes_def notify_connection_def notify_speed_def
      notify_bmRequestType_def bmRequestType_byte_def le16_def le32_def ncm_consts)

text \<open>The answer to GET_NTB_PARAMETERS is 28 bytes that state their own length, the 16-bit format
  and an IN size of 3200 bytes with 4-byte alignment; the OUT size it states is 4 bytes, less than an
  NTB header, where the driver receives blocks of 3200 bytes.\<close>

theorem ntb_parameters_image:
  "ntb_parameters_bytes ntb_parameters =
     [28, 0, 1, 0] @ [0x80, 0x0C, 0, 0] @ [1, 0, 0, 0, 4, 0, 0, 0] @ [4, 0, 0, 0] @ [1, 0, 0, 0, 4, 0, 6, 0]
   \<and> unat (dwNtbOutMaxSize ntb_parameters) < sizeof_nth16
   \<and> unat (dwNtbInMaxSize ntb_parameters) = NCM_NTB_MAX_SIZE"
  by (simp add: ntb_parameters_bytes_def ntb_parameters_def sizeof_ntb_parameters_def le16_def le32_def
      ncm_consts ntb_sizes)

text \<open>A control request is refused exactly when it is none of GET_INTERFACE and SET_INTERFACE of
  the standard type and GET_NTB_PARAMETERS of the class type, and a refused request has no effect.\<close>

theorem control_request_refusal:
  assumes "net_usb_control_transfer E req s = Inr (r, s')"
  shows "r = ((unat (req_type (bmRequestType req)), bRequest req) \<in> {(0, 0x0A), (0, 0x0B), (1, 0x80)})
    \<and> (\<not> r \<longrightarrow> s' = s)"
proof -
  have bind_True: "act_bind m (\<lambda>_. act_return True) s1 = Inr (r, s') \<Longrightarrow> r" for m :: "('a ncm_sys, 'c) act" and s1
    by (auto simp: act_bind_def act_return_def split: sum.splits)
  show ?thesis
    using assms unfolding net_usb_control_transfer_def act_bind_assoc [symmetric]
    by (auto simp: ncm_consts act_return_def split: if_splits dest!: bind_True)
qed

theorem control_request_refusal_witness:
  "(1::nat, 0x81::u8) \<notin> {(0, 0x0A), (0, 0x0B), (1, 0x80)}
   \<and> net_usb_control_transfer log_env (set_interface_1\<lparr>bRequest := 0x81\<rparr>) log_init = Inr (False, log_init)"
proof -
  have run: "net_usb_control_transfer log_env (set_interface_1\<lparr>bRequest := 0x81\<rparr>) log_init = Inr (False, log_init)"
    by (simp add: net_usb_control_transfer_def set_interface_1_def ncm_consts act_return_def)
  from control_request_refusal [OF run] run show ?thesis by simp
qed

text \<open>Activating the interface from the initial state, a concrete run: the speed and the connection
  notification in this order, then the status stage.\<close>

lemma set_interface_notifies:
  "wp (net_usb_control_transfer log_env set_interface_1) (\<lambda>r s. r
     \<and> world s = [EpData 0x81 (notify_speed_bytes notify_speed),
                   EpData 0x81 (notification_bytes notify_connection), Status]
     \<and> notification_state (ncm_if s) = TX_NOTIFY_STATE_CONNECTED \<and> interface_active (ncm_if s) = 1) log_init"
  by (simp add: wpx_def ncm_run buf_bytes_def)

text \<open>The two transfers on the notification endpoint, \<open>f\<close> being the effect of one.\<close>

definition notify_pair :: "(usb_buf \<Rightarrow> u16 \<Rightarrow> 'w \<Rightarrow> 'w) \<Rightarrow> 'w \<Rightarrow> 'w" where
  "notify_pair f w = f (BufBytes (notification_bytes notify_connection)) sizeof_notify_connection
     (f (BufBytes (notify_speed_bytes notify_speed)) sizeof_notify_speed w)"

fun notify_completions :: "('w, 'd) ncm_env \<Rightarrow> u16 \<Rightarrow> nat \<Rightarrow> ('w ncm_sys, unit) act" where
  "notify_completions E n 0 = act_return ()"
| "notify_completions E n (Suc k) =
     act_bind (notify_completions E n k) (\<lambda>_. act_bind (net_usb_transfer E NCM_EP_NOTIFY n) (\<lambda>_. act_return ()))"

lemma notify_endpoint: "NCM_EP_NOTIFY \<noteq> NCM_EP_DATA_OUT" "NCM_EP_NOTIFY \<noteq> NCM_EP_DATA_IN"
  by (simp_all add: ncm_consts)

lemma tx_notification_waiting:
  assumes "notification_state (ncm_if s) = TX_NOTIFY_STATE_WAITING"
    and ep: "\<And>b n w. \<exists>r. usb_transfer_ep E NCM_EP_NOTIFY b n w = Inr (r, f b n w)"
  shows "wp (tx_notification E force) (\<lambda>_ s'. ncm_if s' = (ncm_if s)\<lparr>notification_state := TX_NOTIFY_STATE_CONNECTED\<rparr>
    \<and> world s' = notify_pair f (world s)) s"
proof -
  have any: "wp (usb_transfer_ep E NCM_EP_NOTIFY b n) Q w" if "\<And>r. Q r (f b n w)" for b n w Q
    using ep [of b n w] that by (auto simp: wpx_def)
  show ?thesis
    unfolding tx_notification_def using assms(1)
    by (auto simp: notify_pair_def intro!: any)
qed

lemma notify_completion_pair:
  assumes "notification_state (ncm_if s) = TX_NOTIFY_STATE_CONNECTED"
    and ep: "\<And>b n w. \<exists>r. usb_transfer_ep E NCM_EP_NOTIFY b n w = Inr (r, f b n w)"
  shows "wp (net_usb_transfer E NCM_EP_NOTIFY n) (\<lambda>_. wp (net_usb_transfer E NCM_EP_NOTIFY n)
    (\<lambda>_ s'. ncm_if s' = ncm_if s \<and> world s' = notify_pair f (world s))) s"
proof -
  let ?s = "s\<lparr>ncm_if := (ncm_if s)\<lparr>notification_state := TX_NOTIFY_STATE_WAITING\<rparr>\<rparr>"
  have "wp (net_usb_transfer E NCM_EP_NOTIFY n)
      (\<lambda>_ s'. ncm_if s' = ncm_if s \<and> world s' = notify_pair f (world s)) ?s"
    unfolding net_usb_transfer_def using tx_notification_waiting [of ?s E f True] ep assms(1)
    by (auto simp: notify_endpoint elim!: wpx_mono)
  then show ?thesis
    using assms(1) by (subst (1) net_usb_transfer_def) (simp add: notify_endpoint tx_notification_def)
qed

text \<open>C11. When the host activates the interface while no notification is under way and no received
  block is pending, the driver sends the speed and the connection notification, in this order, and
  then the status stage, whatever the transfers return; from then on every second completion on the
  notification endpoint sends the pair again, and nothing else: the exchange never ends by itself.
  The calls into USB are assumed to return.\<close>

theorem notifications_repeat:
  assumes inv: "rx_inv (ncm_if s)" and user: "rx_user_ntb (ncm_if s) = None"
    and wait: "ring_contents (rx_wait_ntb (ncm_if s)) = []"
    and st: "notification_state (ncm_if s) = TX_NOTIFY_STATE_WAITING"
    and req: "unat (req_type (bmRequestType req)) = USB_TYPE_STANDARD" "bRequest req = USB_REQ_SET_INTERFACE"
      "(ucast (wValue req) :: u8) \<noteq> 0"
    and ep: "\<And>b n w. \<exists>r. usb_transfer_ep E NCM_EP_NOTIFY b n w = Inr (r, f b n w)"
    and status: "\<And>w. \<exists>r. usb_control_status E req w = Inr (r, g w)"
  shows "wp (act_bind (net_usb_control_transfer E req) (\<lambda>r. act_bind (notify_completions E n (2 * k)) (\<lambda>_. act_return r)))
    (\<lambda>r s'. r \<and> interface_active (ncm_if s') = ucast (wValue req)
      \<and> notification_state (ncm_if s') = TX_NOTIFY_STATE_CONNECTED
      \<and> world s' = (notify_pair f ^^ k) (g (notify_pair f (world s)))) s"
proof -
  let ?P = "\<lambda>j t. interface_active (ncm_if t) = ucast (wValue req)
      \<and> notification_state (ncm_if t) = TX_NOTIFY_STATE_CONNECTED
      \<and> world t = (notify_pair f ^^ j) (g (notify_pair f (world s)))"
  have pairs: "wp (notify_completions E n (2 * k)) (\<lambda>_. ?P k) t" if "?P 0 t" for t
  proof (induction k)
    case (Suc k)
    let ?c = "act_bind (net_usb_transfer E NCM_EP_NOTIFY n) (\<lambda>_. act_return ())"
    have two: "wp ?c (\<lambda>_. wp ?c (\<lambda>_. ?P (Suc k))) u" if u: "?P k u" for u
    proof -
      have "wp (net_usb_transfer E NCM_EP_NOTIFY n) (\<lambda>_. wp (net_usb_transfer E NCM_EP_NOTIFY n) (\<lambda>_. ?P (Suc k))) u"
        using notify_completion_pair [of u E f n] ep u by (auto elim!: wpx_mono)
      then show ?thesis
        by (simp only: wpx_bind) (erule wpx_mono, simp only: wpx_bind wpx_return, erule wpx_mono, simp)
    qed
    have "2 * Suc k = Suc (Suc (2 * k))" by simp
    then show ?case
      by (simp only: notify_completions.simps wpx_bind) (rule wpx_mono [OF Suc.IH], rule two)
  qed (use that in simp)
  have other: "USB_REQ_SET_INTERFACE \<noteq> USB_REQ_GET_INTERFACE" by (simp add: ncm_consts)
  have status_wp: "wp (usb_control_status E req) Q w" if "\<And>r. Q r (g w)" for Q w
    using status [of w] that by (auto simp: wpx_def)
  let ?t = "s\<lparr>ncm_if := (ncm_if s)\<lparr>interface_active := ucast (wValue req)\<rparr>\<rparr>"
  let ?u = "?t\<lparr>ncm_if := (ncm_if ?t)\<lparr>rx_user_ntb := None, rx_user_ntb_datagram_index := 0\<rparr>\<rparr>"
  have pop: "pop_ntb (rx_wait_ntb (ncm_if s)) = Inr (None, rx_wait_ntb (ncm_if s))"
    using pop_ntb_step [OF rx_inv_ring(2) [OF inv]] wait by (auto simp: wpx_def split: sum.splits option.splits)
  have idle: "wp (rx_update_user_ntb E) Q ?t" if "Q True ?u" for Q
    using that user unfolding rx_update_user_ntb_def by (simp add: wpx_Inr [where m = pop_ntb, OF pop])
  have "wp (tx_notification E False) (\<lambda>_ s'. ncm_if s' = (ncm_if ?u)\<lparr>notification_state := TX_NOTIFY_STATE_CONNECTED\<rparr>
      \<and> world s' = notify_pair f (world s)) ?u"
    using tx_notification_waiting [of ?u E f False] st ep by simp
  then have "wp (net_usb_control_transfer E req) (\<lambda>r t. r \<and> ?P 0 t) s"
    unfolding net_usb_control_transfer_def
    by (simp add: req other) (rule idle, simp, erule wpx_mono, simp, rule status_wp, simp)
  then show ?thesis
    unfolding wpx_bind by (rule wpx_mono) (auto intro: wpx_mono [OF pairs])
qed

theorem notifications_repeat_witness:
  "wp (act_bind (net_usb_control_transfer log_env set_interface_1)
      (\<lambda>r. act_bind (notify_completions log_env 16 2) (\<lambda>_. act_return r)))
    (\<lambda>r s'. r \<and> notification_state (ncm_if s') = TX_NOTIFY_STATE_CONNECTED
      \<and> world s' = [EpData 0x81 (notify_speed_bytes notify_speed), EpData 0x81 (notification_bytes notify_connection),
          Status, EpData 0x81 (notify_speed_bytes notify_speed), EpData 0x81 (notification_bytes notify_connection)]) log_init"
proof -
  let ?f = "\<lambda>b n w. w @ [EpData NCM_EP_NOTIFY (buf_bytes b n)]" and ?g = "\<lambda>w. w @ [Status]"
  have "wp (act_bind (net_usb_control_transfer log_env set_interface_1)
      (\<lambda>r. act_bind (notify_completions log_env 16 (2 * 1)) (\<lambda>_. act_return r)))
    (\<lambda>r s'. r \<and> interface_active (ncm_if s') = ucast (wValue set_interface_1)
      \<and> notification_state (ncm_if s') = TX_NOTIFY_STATE_CONNECTED
      \<and> world s' = (notify_pair ?f ^^ 1) (?g (notify_pair ?f (world log_init)))) log_init"
    by (rule notifications_repeat)
      (simp_all add: reach_rx_inv [OF log_init_reach], auto simp: log_init_def ncm_ready_def ncm_zero_def
        set_interface_1_def log_env_def ncm_consts)
  then show ?thesis
    by (simp add: notify_pair_def buf_bytes_def log_init_def ncm_consts del: notify_completions.simps)
      (erule wpx_mono, erule wpx_mono, simp)
qed

end
