(* ===== verification/Ncm_Standalone.thy ===== *)
theory Ncm_Standalone
  imports Ncm_Machine
begin

text \<open>
  The stand-alone copy of the driver (the directory \<^verbatim>\<open>ncm\<close> at the top of the repository).  Its
  struct.c, rx.c and main.c are the files of the linked driver, line for line; this theory translates
  its tx.c and net.c, in which \<^verbatim>\<open>tx_notification\<close>, \<^verbatim>\<open>tx_try_start\<close> and
  \<^verbatim>\<open>net_usb_control_transfer\<close> differ, and the harness \<^verbatim>\<open>main\<close>, and shows what the
  differences mean.
\<close>

section \<open>Operations\<close>

definition sa_tx_notification :: "('w, 'd) ncm_env \<Rightarrow> bool \<Rightarrow> ('w ncm_sys, unit) act" where
  "sa_tx_notification E force_next =
     act_bind (get_if notification_state) (\<lambda>st.
     if \<not> force_next \<and> st \<noteq> TX_NOTIFY_STATE_WAITING then act_return ()
     else
       act_bind (modify_if (notification_state_update (\<lambda>_. TX_NOTIFY_STATE_SPEED_CHANGE))) (\<lambda>_.
       act_bind (get_if notification_state) (\<lambda>st.
       case st of
         TX_NOTIFY_STATE_SPEED_CHANGE \<Rightarrow>
           act_bind (modify_if (notification_state_update (\<lambda>_. TX_NOTIFY_STATE_CONNECTED))) (\<lambda>_.
           act_bind (in_world (usb_transfer_ep E NCM_EP_NOTIFY
             (BufBytes (notify_speed_bytes notify_speed)) 16)) (\<lambda>_. act_return ()))
       | TX_NOTIFY_STATE_CONNECTED \<Rightarrow>
           act_bind (modify_if (notification_state_update (\<lambda>_. TX_NOTIFY_STATE_WAITING))) (\<lambda>_.
           act_bind (in_world (usb_transfer_ep E NCM_EP_NOTIFY
             (BufBytes (notification_bytes notify_connection)) 8)) (\<lambda>_. act_return ()))
       | TX_NOTIFY_STATE_WAITING \<Rightarrow> act_return ())))"

definition sa_tx_insert_zlp :: "('w, 'd) ncm_env \<Rightarrow> u16 \<Rightarrow> ('w ncm_sys, bool) act" where
  "sa_tx_insert_zlp E sz =
     (if sz = 0 \<or> unat sz mod NCM_EP_SIZE \<noteq> 0 then act_return False
      else act_bind (in_world (usb_transfer_ep E NCM_EP_DATA_IN BufNull 0)) (\<lambda>_. act_return True))"

definition sa_tx_datagram_fits_user_ntb :: "u16 \<Rightarrow> ('w ncm_sys, bool) act" where
  "sa_tx_datagram_fits_user_ntb datagram_size =
     act_bind (get_if tx_user_ntb) (\<lambda>user.
     case user of
       None \<Rightarrow> act_return False
     | Some p \<Rightarrow>
         act_bind (get_if tx_user_ntb_datagram_index) (\<lambda>idx.
         if unat idx \<ge> NCM_MAX_DATAGRAMS_PER_NTB then act_return False
         else act_bind (ntb_read p) (\<lambda>ntb.
           if unat (nth_wBlockLength ntb) + unat datagram_size + ALIGN_OFFSET datagram_size
                > NCM_NTB_MAX_SIZE
           then act_return False else act_return True)))"

definition sa_tx_accept_user_ntb :: "('w ncm_sys, bool) act" where
  "sa_tx_accept_user_ntb =
     act_bind (get_if tx_user_ntb) (\<lambda>user.
     act_bind (if user \<noteq> None then on_list tx_wait_ntb tx_wait_ntb_update (push_ntb user)
               else act_return True) (\<lambda>pushed.
     if \<not> pushed then act_return False
     else
       act_bind (on_list tx_free_ntb tx_free_ntb_update pop_ntb) (\<lambda>fresh.
       act_bind (modify_if (tx_user_ntb_update (\<lambda>_. fresh))) (\<lambda>_.
       case fresh of
         None \<Rightarrow> act_return False
       | Some p \<Rightarrow>
           act_bind (modify_if (tx_user_ntb_datagram_index_update (\<lambda>_. 0))) (\<lambda>_.
           act_bind (get_if tx_seq_count) (\<lambda>wseq.
           act_bind (modify_if (tx_seq_count_update (\<lambda>n. n + 1))) (\<lambda>_.
           act_bind (ntb_modify p (ntb_populate wseq)) (\<lambda>_.
           act_return True))))))))"

text \<open>
  The last path of \<^verbatim>\<open>tx_try_start\<close> ends without a \<^verbatim>\<open>return\<close>: it has no value, here
  \<^const>\<open>None\<close>.
\<close>

definition sa_tx_try_start :: "('w, 'd) ncm_env \<Rightarrow> ('w ncm_sys, bool option) act" where
  "sa_tx_try_start E =
     act_bind (get_if tx_usbd_ntb) (\<lambda>usbd.
     if usbd \<noteq> None then act_return (Some False)
     else act_bind (get_if interface_active) (\<lambda>active.
     if active \<noteq> 1 then act_return (Some False)
     else act_bind (in_world (usb_ep_busy E NCM_EP_DATA_IN)) (\<lambda>busy.
     if busy then act_return (Some False)
     else act_bind (on_list tx_wait_ntb tx_wait_ntb_update pop_ntb) (\<lambda>waiting.
     act_bind (modify_if (tx_usbd_ntb_update (\<lambda>_. waiting))) (\<lambda>_.
     act_bind (get_if tx_user_ntb) (\<lambda>user.
     act_bind (get_if tx_user_ntb_datagram_index) (\<lambda>idx.
     if waiting = None \<and> (user = None \<or> idx = 0) then act_return (Some False)
     else
       act_bind (if waiting = None
                 then modify_if (\<lambda>s. s\<lparr>tx_usbd_ntb := tx_user_ntb s, tx_user_ntb := None\<rparr>)
                 else act_return ()) (\<lambda>_.
       act_bind (get_if tx_usbd_ntb) (\<lambda>sending.
       case sending of
         None \<Rightarrow> act_fail NullDeref
       | Some p \<Rightarrow>
           act_bind (ntb_read p) (\<lambda>ntb.
           act_bind (in_world (usb_transfer_ep E NCM_EP_DATA_IN (BufNtb p ntb) (nth_wBlockLength ntb))) (\<lambda>_.
           act_return None)))))))))))"

definition sa_net_usb_control_transfer ::
    "('w, 'd) ncm_env \<Rightarrow> usb_control_request_t \<Rightarrow> ('w ncm_sys, bool) act" where
  "sa_net_usb_control_transfer E request =
     (if unat (req_type (bmRequestType request)) = USB_TYPE_STANDARD then
        if bRequest request = USB_REQ_GET_INTERFACE then
          act_bind (get_if interface_active) (\<lambda>active.
          act_bind (in_world (usb_transfer_ep0 E request (BufBytes [active]) 1)) (\<lambda>_.
          act_return True))
        else if bRequest request = USB_REQ_SET_INTERFACE then
          act_bind (modify_if (interface_active_update (\<lambda>_. ucast (wValue request)))) (\<lambda>_.
          act_bind (get_if interface_active) (\<lambda>active.
          act_bind (if active \<noteq> 0 then
                      act_bind (rx_update_user_ntb E) (\<lambda>_. sa_tx_notification E False)
                    else act_return ()) (\<lambda>_.
          act_bind (in_world (usb_control_status E request)) (\<lambda>_.
          act_return True))))
        else act_return False
      else if unat (req_type (bmRequestType request)) = USB_TYPE_CLASS then
        if bRequest request = NCM_GET_NTB_PARAMETERS then
          act_bind (in_world (usb_transfer_ep0 E request
              (BufBytes (notify_speed_bytes notify_speed)) 16)) (\<lambda>_.
          act_return True)
        else act_return False
      else act_return False)"

text \<open>
  The callers of \<^verbatim>\<open>tx_try_start\<close> and \<^verbatim>\<open>tx_notification\<close> read as in the linked
  driver; they are written out because they call the functions above.
\<close>

definition sa_net_can_tx :: "('w, 'd) ncm_env \<Rightarrow> u16 \<Rightarrow> ('w ncm_sys, bool) act" where
  "sa_net_can_tx E sz =
     act_bind (sa_tx_datagram_fits_user_ntb sz) (\<lambda>fits.
     act_bind (if fits then act_return True else sa_tx_accept_user_ntb) (\<lambda>ok.
     if ok then act_return True
     else act_bind (sa_tx_try_start E) (\<lambda>_. act_return False)))"

definition sa_net_tx :: "('w, 'd) ncm_env \<Rightarrow> 'd \<Rightarrow> u16 \<Rightarrow> ('w ncm_sys, unit) act" where
  "sa_net_tx E datagram arg =
     act_bind (get_if tx_user_ntb) (\<lambda>user.
     case user of
       None \<Rightarrow> act_return ()
     | Some p \<Rightarrow>
         act_bind (ntb_read p) (\<lambda>ntb.
         act_bind (in_world (net_tx_cb E datagram arg)) (\<lambda>(bs, sz).
         act_bind (act_check OutOfBounds
             (ntb_in_bounds (unat (nth_wBlockLength ntb)) (length bs))) (\<lambda>_.
         act_bind (ntb_modify p (\<lambda>m. wr_list m (unat (nth_wBlockLength ntb)) bs)) (\<lambda>_.
         act_bind (get_if tx_user_ntb_datagram_index) (\<lambda>idx.
         act_bind (act_check OutOfBounds (unat idx < NCM_MAX_DATAGRAMS_PER_NTB + 1)) (\<lambda>_.
         act_bind (ntb_modify p (\<lambda>m. set_ndp_datagram (unat idx) (nth_wBlockLength m) sz m)) (\<lambda>_.
         act_bind (modify_if (tx_user_ntb_datagram_index_update (\<lambda>i. i + 1))) (\<lambda>_.
         act_bind (ntb_modify p (\<lambda>m. set_wBlockLength
             (nth_wBlockLength m + of_nat (unat sz + ALIGN_OFFSET sz)) m)) (\<lambda>_.
         act_bind (ntb_read p) (\<lambda>ntb.
         if unat (nth_wBlockLength ntb) > NCM_NTB_MAX_SIZE then act_return ()
         else act_bind (sa_tx_try_start E) (\<lambda>_. act_return ()))))))))))))"

definition sa_net_usb_transfer :: "('w, 'd) ncm_env \<Rightarrow> u8 \<Rightarrow> u16 \<Rightarrow> ('w ncm_sys, bool) act" where
  "sa_net_usb_transfer E ep_addr bs =
     (if ep_addr = NCM_EP_DATA_OUT then
        act_bind (get_if rx_usbd_ntb) (\<lambda>usbd.
        act_bind (rx_validate_datagram usbd bs) (\<lambda>valid.
        act_bind (if valid then
                    act_bind (on_list rx_wait_ntb rx_wait_ntb_update (push_ntb usbd)) (\<lambda>_.
                    act_return ())
                  else modify_if (rx_usbd_ntb_update (\<lambda>_. None))) (\<lambda>_.
        act_bind (net_rx_renew E) (\<lambda>_. act_return True))))
      else if ep_addr = NCM_EP_DATA_IN then
        act_bind (get_if rx_usbd_ntb) (\<lambda>usbd.
        act_bind (on_list rx_free_ntb rx_free_ntb_update (push_ntb usbd)) (\<lambda>_.
        act_bind (sa_tx_insert_zlp E bs) (\<lambda>zlp.
        act_bind (if \<not> zlp then act_bind (sa_tx_try_start E) (\<lambda>_. act_return ()) else act_return ()) (\<lambda>_.
        act_return True))))
      else if ep_addr = NCM_EP_NOTIFY then
        act_bind (sa_tx_notification E True) (\<lambda>_. act_return True)
      else act_return True)"

text \<open>The harness: two datagrams sent, one poll; \<open>d\<close> stands for its null datagram pointer.\<close>

definition ncm_main :: "('w, 'd) ncm_env \<Rightarrow> 'd \<Rightarrow> ('w ncm_sys, unit) act" where
  "ncm_main E d =
     act_bind net_init (\<lambda>_.
     act_bind (sa_net_can_tx E 1000) (\<lambda>_.
     act_bind (sa_net_tx E d 0) (\<lambda>_.
     act_bind (sa_net_can_tx E 1000) (\<lambda>_.
     act_bind (sa_net_tx E d 0) (\<lambda>_.
     net_rx_renew E)))))"

section \<open>The two copies compared\<close>

lemma act_bind_if: "act_bind (if b then m else n) f = (if b then act_bind m f else act_bind n f)"
  by simp

lemma act_bind_option: "act_bind (case x of None \<Rightarrow> m | Some y \<Rightarrow> n y) f =
    (case x of None \<Rightarrow> act_bind m f | Some y \<Rightarrow> act_bind (n y) f)"
  by (simp split: option.split)

lemma act_bind_fail: "act_bind (act_fail e) f = act_fail e"
  by (rule ext) (simp add: act_bind_def act_fail_def)

lemma sa_tx_try_start_effect:
  "act_bind (sa_tx_try_start E) (\<lambda>_. act_return x) = act_bind (tx_try_start E) (\<lambda>_. act_return x)"
  unfolding sa_tx_try_start_def tx_try_start_def act_bind_assoc act_bind_if act_bind_option
    act_bind_return act_bind_fail ..

lemma sa_helpers_agree:
  "sa_tx_insert_zlp E sz = tx_insert_zlp E sz"
  "sa_tx_datagram_fits_user_ntb sz = tx_datagram_fits_user_ntb sz"
  "sa_tx_accept_user_ntb = tx_accept_user_ntb"
  unfolding sa_tx_insert_zlp_def tx_insert_zlp_def sa_tx_datagram_fits_user_ntb_def
    tx_datagram_fits_user_ntb_def sa_tx_accept_user_ntb_def tx_accept_user_ntb_def by (rule refl)+

text \<open>The data path of the two copies is the same: they grant room, collect datagrams and handle
  completions on the data endpoints identically in every state and environment, although the
  stand-alone \<^verbatim>\<open>tx_try_start\<close> returns no value when it has started a transfer.\<close>

lemma sa_data_path_agrees:
  "sa_net_can_tx E sz = net_can_tx E sz" "sa_net_tx E d arg = net_tx E d arg"
  "ep \<noteq> NCM_EP_NOTIFY \<Longrightarrow> sa_net_usb_transfer E ep n = net_usb_transfer E ep n"
  unfolding sa_net_can_tx_def net_can_tx_def sa_net_tx_def net_tx_def sa_net_usb_transfer_def
    net_usb_transfer_def sa_tx_try_start_effect sa_helpers_agree by simp_all

fun sa_notifications :: "bool list \<Rightarrow> (env_call list ncm_sys, unit) act" where
  "sa_notifications [] = act_return ()"
| "sa_notifications (force # fs) =
     act_bind (sa_tx_notification log_env force) (\<lambda>_. sa_notifications fs)"

text \<open>The stand-alone copy never tells the host that the network is connected: whatever sequence of
  notification calls is made, only speed notifications go out.\<close>

theorem sa_never_notifies_connection:
  "wp (sa_notifications fs) (\<lambda>_ s'. \<exists>k. world s' =
      world s @ replicate k (EpData NCM_EP_NOTIFY (notify_speed_bytes notify_speed))) s"
proof (induction fs arbitrary: s)
  case Nil
  show ?case by (auto intro: exI [of _ 0])
next
  case (Cons f fs)
  let ?call = "EpData NCM_EP_NOTIFY (notify_speed_bytes notify_speed)"
  have one: "wp (sa_tx_notification log_env f) (\<lambda>_ t. world t = world s \<or> world t = world s @ [?call]) s"
    by (simp add: sa_tx_notification_def wpx_def buf_bytes_def ncm_run)
  show ?case
    unfolding sa_notifications.simps wpx_bind
  proof (rule wpx_mono [OF one], goal_cases)
    case (1 x t)
    obtain j where "world t = world s @ replicate j ?call"
      using 1 by (auto intro: that [of 0] that [of 1])
    then show ?case
      by (intro wpx_mono [OF Cons.IH [of t]]) (auto simp: replicate_add [symmetric])
  qed
qed

text \<open>Asked for its NTB parameters, the stand-alone copy answers with the 16 bytes of the speed
  notification; the linked driver answers with the 28 bytes of the parameters.\<close>

theorem sa_get_ntb_parameters_answer:
  assumes "unat (req_type (bmRequestType req)) = 1" and "bRequest req = 0x80"
  shows "wp (sa_net_usb_control_transfer log_env req)
      (\<lambda>r t. r \<and> world t = world s @ [EpZero (notify_speed_bytes notify_speed)]) s
    \<and> wp (net_usb_control_transfer log_env req)
      (\<lambda>r t. r \<and> world t = world s @ [EpZero (ntb_parameters_bytes ntb_parameters)]) s
    \<and> notify_speed_bytes notify_speed \<noteq> ntb_parameters_bytes ntb_parameters"
proof -
  have "length (notify_speed_bytes notify_speed) \<noteq> length (ntb_parameters_bytes ntb_parameters)"
    by (simp add: sizeof_ntb_parameters_def)
  then have "notify_speed_bytes notify_speed \<noteq> ntb_parameters_bytes ntb_parameters" by metis
  with assms show ?thesis
    by (simp add: sa_net_usb_control_transfer_def wpx_def buf_bytes_def ncm_run)
qed

theorem sa_get_ntb_parameters_answer_witness:
  "wp (sa_net_usb_control_transfer log_env
      (set_interface_1\<lparr>bmRequestType := \<lparr>req_recipient = 1, req_type = 1, req_direction = 1\<rparr>, bRequest := 0x80\<rparr>))
     (\<lambda>r t. r \<and> world t = [EpZero (notify_speed_bytes notify_speed)]) log_init"
  using sa_get_ntb_parameters_answer [where s = log_init and req = "set_interface_1\<lparr>bmRequestType :=
      \<lparr>req_recipient = 1, req_type = 1, req_direction = 1\<rparr>, bRequest := 0x80\<rparr>"]
  by (simp add: log_init_def)

text \<open>The harness collects both datagrams in the first block and sends nothing: the interface is idle.\<close>

lemma ncm_main_run:
  "wp (ncm_main log_env [1, 2, 3]) (\<lambda>_ s. world s = [] \<and> tx_user_ntb (ncm_if s) = Some (TxNtb 0)
     \<and> tx_user_ntb_datagram_index (ncm_if s) = 2 \<and> tx_usbd_ntb (ncm_if s) = None) log_init"
  by (simp add: wpx_def ncm_main_def sa_data_path_agrees net_init_eq ncm_run del: wr_list.simps)

end
