(* ===== verification/Usb_Desc.thy ===== *)
theory Usb_Desc
  imports Ntb_Layout
begin

text \<open>
  The USB descriptors of the device (desc_types.h, desc_value.h, usb_desc.h, usb_desc.c) with their
  memory images, and the host's reading of the configuration: a chain of descriptors walked by their
  length bytes, grouped into interfaces and endpoints.
\<close>

section \<open>Constants\<close>

definition USB_DT_DEVICE :: u8 where "USB_DT_DEVICE = 0x01"
definition USB_DT_CONFIG :: u8 where "USB_DT_CONFIG = 0x02"
definition USB_DT_STRING :: u8 where "USB_DT_STRING = 0x03"
definition USB_DT_INTERFACE :: u8 where "USB_DT_INTERFACE = 0x04"
definition USB_DT_ENDPOINT :: u8 where "USB_DT_ENDPOINT = 0x05"
definition USB_DT_INTERFACE_ASSOC :: u8 where "USB_DT_INTERFACE_ASSOC = 0x0b"
definition USB_DT_CS_INTERFACE :: u8 where "USB_DT_CS_INTERFACE = 0x24"
definition USB_CLASS_COMM :: u8 where "USB_CLASS_COMM = 0x02"
definition USB_CLASS_CDC_DATA :: u8 where "USB_CLASS_CDC_DATA = 0x0a"
definition USB_ENDPOINT_XFER_BULK :: u8 where "USB_ENDPOINT_XFER_BULK = 2"
definition USB_ENDPOINT_XFER_INT :: u8 where "USB_ENDPOINT_XFER_INT = 3"
definition USB_CDC_SUBCLASS_NCM :: u8 where "USB_CDC_SUBCLASS_NCM = 0x0d"
definition USB_CDC_PROTO_NONE :: u8 where "USB_CDC_PROTO_NONE = 0"
definition USB_CDC_NCM_PROTO_NTB :: u8 where "USB_CDC_NCM_PROTO_NTB = 1"
definition USB_CDC_HEADER_TYPE :: u8 where "USB_CDC_HEADER_TYPE = 0x00"
definition USB_CDC_UNION_TYPE :: u8 where "USB_CDC_UNION_TYPE = 0x06"
definition USB_CDC_ETHERNET_TYPE :: u8 where "USB_CDC_ETHERNET_TYPE = 0x0f"
definition USB_CDC_NCM_TYPE :: u8 where "USB_CDC_NCM_TYPE = 0x1a"
definition CY_FX_EP_NOTIFIER :: u8 where "CY_FX_EP_NOTIFIER = 0x81"
definition CY_FX_EP_PRODUCER :: u8 where "CY_FX_EP_PRODUCER = 0x02"
definition CY_FX_EP_CONSUMER :: u8 where "CY_FX_EP_CONSUMER = 0x82"
definition STR_ID_MACA :: u8 where "STR_ID_MACA = 3"
definition STR_ID_INTF :: u8 where "STR_ID_INTF = 4"
definition NCM_STATUS_BYTECOUNT :: u16 where "NCM_STATUS_BYTECOUNT = 16"

lemmas desc_consts = USB_DT_DEVICE_def USB_DT_CONFIG_def USB_DT_STRING_def USB_DT_INTERFACE_def
  USB_DT_ENDPOINT_def USB_DT_INTERFACE_ASSOC_def USB_DT_CS_INTERFACE_def
  USB_CLASS_COMM_def USB_CLASS_CDC_DATA_def USB_ENDPOINT_XFER_BULK_def
  USB_ENDPOINT_XFER_INT_def USB_CDC_SUBCLASS_NCM_def USB_CDC_PROTO_NONE_def
  USB_CDC_NCM_PROTO_NTB_def USB_CDC_HEADER_TYPE_def USB_CDC_UNION_TYPE_def
  USB_CDC_ETHERNET_TYPE_def USB_CDC_NCM_TYPE_def CY_FX_EP_NOTIFIER_def
  CY_FX_EP_PRODUCER_def CY_FX_EP_CONSUMER_def STR_ID_MACA_def STR_ID_INTF_def
  NCM_STATUS_BYTECOUNT_def

section \<open>Descriptor types\<close>

record usb_device_descriptor_t =
  dev_bLength :: u8
  dev_bDescriptorType :: u8
  dev_bcdUSB :: u16
  dev_bDeviceClass :: u8
  dev_bDeviceSubClass :: u8
  dev_bDeviceProtocol :: u8
  dev_bMaxPacketSize0 :: u8
  dev_idVendor :: u16
  dev_idProduct :: u16
  dev_bcdDevice :: u16
  dev_iManufacturer :: u8
  dev_iProduct :: u8
  dev_iSerialNumber :: u8
  dev_bNumConfigurations :: u8

definition dev_bytes :: "usb_device_descriptor_t \<Rightarrow> u8 list" where
  "dev_bytes d = [dev_bLength d] @ [dev_bDescriptorType d] @ le16 (dev_bcdUSB d)
     @ [dev_bDeviceClass d] @ [dev_bDeviceSubClass d] @ [dev_bDeviceProtocol d]
     @ [dev_bMaxPacketSize0 d] @ le16 (dev_idVendor d) @ le16 (dev_idProduct d)
     @ le16 (dev_bcdDevice d) @ [dev_iManufacturer d] @ [dev_iProduct d]
     @ [dev_iSerialNumber d] @ [dev_bNumConfigurations d]"

definition sizeof_usb_device_descriptor_t :: nat where
  "sizeof_usb_device_descriptor_t = 1 + 1 + 2 + 1 + 1 + 1 + 1 + 2 + 2 + 2 + 1 + 1 + 1 + 1"

record usb_interface_assoc_descriptor_t =
  iad_bLength :: u8
  iad_bDescriptorType :: u8
  iad_bFirstInterface :: u8
  iad_bInterfaceCount :: u8
  iad_bFunctionClass :: u8
  iad_bFunctionSubClass :: u8
  iad_bFunctionProtocol :: u8
  iad_iFunction :: u8

definition iad_bytes :: "usb_interface_assoc_descriptor_t \<Rightarrow> u8 list" where
  "iad_bytes d = [iad_bLength d] @ [iad_bDescriptorType d] @ [iad_bFirstInterface d]
     @ [iad_bInterfaceCount d] @ [iad_bFunctionClass d] @ [iad_bFunctionSubClass d]
     @ [iad_bFunctionProtocol d] @ [iad_iFunction d]"

definition sizeof_usb_interface_assoc_descriptor_t :: nat where
  "sizeof_usb_interface_assoc_descriptor_t = 1 + 1 + 1 + 1 + 1 + 1 + 1 + 1"

record usb_config_descriptor_t =
  cfg_bLength :: u8
  cfg_bDescriptorType :: u8
  cfg_wTotalLength :: u16
  cfg_bNumInterfaces :: u8
  cfg_bConfigurationValue :: u8
  cfg_iConfiguration :: u8
  cfg_bmAttributes :: u8
  cfg_MaxPower :: u8

definition cfg_bytes :: "usb_config_descriptor_t \<Rightarrow> u8 list" where
  "cfg_bytes d = [cfg_bLength d] @ [cfg_bDescriptorType d] @ le16 (cfg_wTotalLength d)
     @ [cfg_bNumInterfaces d] @ [cfg_bConfigurationValue d] @ [cfg_iConfiguration d]
     @ [cfg_bmAttributes d] @ [cfg_MaxPower d]"

definition sizeof_usb_config_descriptor_t :: nat where
  "sizeof_usb_config_descriptor_t = 1 + 1 + 2 + 1 + 1 + 1 + 1 + 1"

record usb_interface_descriptor_t =
  itf_bLength :: u8
  itf_bDescriptorType :: u8
  itf_bInterfaceNumber :: u8
  itf_bAlternateSetting :: u8
  itf_bNumEndpoints :: u8
  itf_bInterfaceClass :: u8
  itf_bInterfaceSubClass :: u8
  itf_bInterfaceProtocol :: u8
  itf_iInterface :: u8

definition itf_bytes :: "usb_interface_descriptor_t \<Rightarrow> u8 list" where
  "itf_bytes d = [itf_bLength d] @ [itf_bDescriptorType d] @ [itf_bInterfaceNumber d]
     @ [itf_bAlternateSetting d] @ [itf_bNumEndpoints d] @ [itf_bInterfaceClass d]
     @ [itf_bInterfaceSubClass d] @ [itf_bInterfaceProtocol d] @ [itf_iInterface d]"

definition sizeof_usb_interface_descriptor_t :: nat where
  "sizeof_usb_interface_descriptor_t = 1 + 1 + 1 + 1 + 1 + 1 + 1 + 1 + 1"

record usb_endpoint_descriptor_t =
  ep_bLength :: u8
  ep_bDescriptorType :: u8
  ep_bEndpointAddress :: u8
  ep_bmAttributes :: u8
  ep_wMaxPacketSize :: u16
  ep_bInterval :: u8

definition ep_bytes :: "usb_endpoint_descriptor_t \<Rightarrow> u8 list" where
  "ep_bytes d = [ep_bLength d] @ [ep_bDescriptorType d] @ [ep_bEndpointAddress d]
     @ [ep_bmAttributes d] @ le16 (ep_wMaxPacketSize d) @ [ep_bInterval d]"

definition sizeof_usb_endpoint_descriptor_t :: nat where
  "sizeof_usb_endpoint_descriptor_t = 1 + 1 + 1 + 1 + 2 + 1"

record usb_cdc_header_desc_t =
  hdr_bLength :: u8
  hdr_bDescriptorType :: u8
  hdr_bDescriptorSubType :: u8
  hdr_bcdCDC :: u16

definition hdr_bytes :: "usb_cdc_header_desc_t \<Rightarrow> u8 list" where
  "hdr_bytes d = [hdr_bLength d] @ [hdr_bDescriptorType d] @ [hdr_bDescriptorSubType d]
     @ le16 (hdr_bcdCDC d)"

definition sizeof_usb_cdc_header_desc_t :: nat where
  "sizeof_usb_cdc_header_desc_t = 1 + 1 + 1 + 2"

record usb_cdc_union_desc_t =
  uni_bLength :: u8
  uni_bDescriptorType :: u8
  uni_bDescriptorSubType :: u8
  uni_bMasterInterface0 :: u8
  uni_bSlaveInterface0 :: u8

definition uni_bytes :: "usb_cdc_union_desc_t \<Rightarrow> u8 list" where
  "uni_bytes d = [uni_bLength d] @ [uni_bDescriptorType d] @ [uni_bDescriptorSubType d]
     @ [uni_bMasterInterface0 d] @ [uni_bSlaveInterface0 d]"

definition sizeof_usb_cdc_union_desc_t :: nat where
  "sizeof_usb_cdc_union_desc_t = 1 + 1 + 1 + 1 + 1"

record usb_cdc_ether_desc_t =
  eth_bLength :: u8
  eth_bDescriptorType :: u8
  eth_bDescriptorSubType :: u8
  eth_iMACAddress :: u8
  eth_bmEthernetStatistics :: u32
  eth_wMaxSegmentSize :: u16
  eth_wNumberMCFilters :: u16
  eth_bNumberPowerFilters :: u8

definition eth_bytes :: "usb_cdc_ether_desc_t \<Rightarrow> u8 list" where
  "eth_bytes d = [eth_bLength d] @ [eth_bDescriptorType d] @ [eth_bDescriptorSubType d]
     @ [eth_iMACAddress d] @ le32 (eth_bmEthernetStatistics d)
     @ le16 (eth_wMaxSegmentSize d) @ le16 (eth_wNumberMCFilters d)
     @ [eth_bNumberPowerFilters d]"

definition sizeof_usb_cdc_ether_desc_t :: nat where
  "sizeof_usb_cdc_ether_desc_t = 1 + 1 + 1 + 1 + 4 + 2 + 2 + 1"

record usb_cdc_ncm_desc_t =
  ncmd_bLength :: u8
  ncmd_bDescriptorType :: u8
  ncmd_bDescriptorSubType :: u8
  ncmd_bcdNcmVersion :: u16
  ncmd_bmNetworkCapabilities :: u8

definition ncmd_bytes :: "usb_cdc_ncm_desc_t \<Rightarrow> u8 list" where
  "ncmd_bytes d = [ncmd_bLength d] @ [ncmd_bDescriptorType d] @ [ncmd_bDescriptorSubType d]
     @ le16 (ncmd_bcdNcmVersion d) @ [ncmd_bmNetworkCapabilities d]"

definition sizeof_usb_cdc_ncm_desc_t :: nat where
  "sizeof_usb_cdc_ncm_desc_t = 1 + 1 + 1 + 2 + 1"

lemmas desc_sizes = sizeof_usb_device_descriptor_t_def sizeof_usb_interface_assoc_descriptor_t_def
  sizeof_usb_config_descriptor_t_def sizeof_usb_interface_descriptor_t_def
  sizeof_usb_endpoint_descriptor_t_def sizeof_usb_cdc_header_desc_t_def
  sizeof_usb_cdc_union_desc_t_def sizeof_usb_cdc_ether_desc_t_def
  sizeof_usb_cdc_ncm_desc_t_def

lemmas desc_bytes = dev_bytes_def iad_bytes_def cfg_bytes_def itf_bytes_def ep_bytes_def hdr_bytes_def uni_bytes_def eth_bytes_def ncmd_bytes_def

section \<open>The device's descriptors\<close>

definition usb_device_desc :: usb_device_descriptor_t where
  "usb_device_desc =
     \<lparr>dev_bLength = of_nat sizeof_usb_device_descriptor_t, dev_bDescriptorType = USB_DT_DEVICE,
       dev_bcdUSB = 0x200, dev_bDeviceClass = USB_CLASS_COMM,
       dev_bDeviceSubClass = USB_CDC_SUBCLASS_NCM, dev_bDeviceProtocol = USB_CDC_PROTO_NONE,
       dev_bMaxPacketSize0 = 64, dev_idVendor = 0xCAFE,
       dev_idProduct = 0xEEEE, dev_bcdDevice = 0x0101,
       dev_iManufacturer = 1, dev_iProduct = 2,
       dev_iSerialNumber = 3, dev_bNumConfigurations = 1\<rparr>"

record usb_desc_t =
  config_desc :: usb_config_descriptor_t
  ncm_iad_desc :: usb_interface_assoc_descriptor_t
  ncm_control_intf :: usb_interface_descriptor_t
  ncm_header_desc :: usb_cdc_header_desc_t
  ncm_union_desc :: usb_cdc_union_desc_t
  ecm_desc :: usb_cdc_ether_desc_t
  ncm_desc :: usb_cdc_ncm_desc_t
  ncm_notify_ep_desc :: usb_endpoint_descriptor_t
  ncm_data_nop_intf :: usb_interface_descriptor_t
  ncm_data_intf :: usb_interface_descriptor_t
  ncm_in_ep_desc :: usb_endpoint_descriptor_t
  ncm_out_ep_desc :: usb_endpoint_descriptor_t

definition usb_desc_parts :: "usb_desc_t \<Rightarrow> u8 list list" where
  "usb_desc_parts d = [cfg_bytes (config_desc d),
     iad_bytes (ncm_iad_desc d),
     itf_bytes (ncm_control_intf d),
     hdr_bytes (ncm_header_desc d),
     uni_bytes (ncm_union_desc d),
     eth_bytes (ecm_desc d),
     ncmd_bytes (ncm_desc d),
     ep_bytes (ncm_notify_ep_desc d),
     itf_bytes (ncm_data_nop_intf d),
     itf_bytes (ncm_data_intf d),
     ep_bytes (ncm_in_ep_desc d),
     ep_bytes (ncm_out_ep_desc d)]"

definition usb_desc_bytes :: "usb_desc_t \<Rightarrow> u8 list" where
  "usb_desc_bytes d = concat (usb_desc_parts d)"

definition sizeof_usb_desc_t :: nat where
  "sizeof_usb_desc_t = sizeof_usb_config_descriptor_t + sizeof_usb_interface_assoc_descriptor_t
     + sizeof_usb_interface_descriptor_t + sizeof_usb_cdc_header_desc_t
     + sizeof_usb_cdc_union_desc_t + sizeof_usb_cdc_ether_desc_t
     + sizeof_usb_cdc_ncm_desc_t + sizeof_usb_endpoint_descriptor_t
     + sizeof_usb_interface_descriptor_t + sizeof_usb_interface_descriptor_t
     + sizeof_usb_endpoint_descriptor_t + sizeof_usb_endpoint_descriptor_t"

definition usb_config_desc :: usb_desc_t where
  "usb_config_desc = \<lparr>
     config_desc =
       \<lparr>cfg_bLength = of_nat sizeof_usb_config_descriptor_t, cfg_bDescriptorType = USB_DT_CONFIG,
       cfg_wTotalLength = of_nat sizeof_usb_desc_t, cfg_bNumInterfaces = 2,
       cfg_bConfigurationValue = 1, cfg_iConfiguration = 0,
       cfg_bmAttributes = 0x80, cfg_MaxPower = of_nat (500 div 2)\<rparr>,
     ncm_iad_desc =
       \<lparr>iad_bLength = of_nat sizeof_usb_interface_assoc_descriptor_t, iad_bDescriptorType = USB_DT_INTERFACE_ASSOC,
       iad_bFirstInterface = 0, iad_bInterfaceCount = 2,
       iad_bFunctionClass = USB_CLASS_COMM, iad_bFunctionSubClass = USB_CDC_SUBCLASS_NCM,
       iad_bFunctionProtocol = USB_CDC_PROTO_NONE, iad_iFunction = 0\<rparr>,
     ncm_control_intf =
       \<lparr>itf_bLength = of_nat sizeof_usb_interface_descriptor_t, itf_bDescriptorType = USB_DT_INTERFACE,
       itf_bInterfaceNumber = 0, itf_bAlternateSetting = 0,
       itf_bNumEndpoints = 1, itf_bInterfaceClass = USB_CLASS_COMM,
       itf_bInterfaceSubClass = USB_CDC_SUBCLASS_NCM, itf_bInterfaceProtocol = USB_CDC_PROTO_NONE,
       itf_iInterface = STR_ID_INTF\<rparr>,
     ncm_header_desc =
       \<lparr>hdr_bLength = of_nat sizeof_usb_cdc_header_desc_t, hdr_bDescriptorType = USB_DT_CS_INTERFACE,
       hdr_bDescriptorSubType = USB_CDC_HEADER_TYPE, hdr_bcdCDC = 0x0110\<rparr>,
     ncm_union_desc =
       \<lparr>uni_bLength = of_nat sizeof_usb_cdc_union_desc_t, uni_bDescriptorType = USB_DT_CS_INTERFACE,
       uni_bDescriptorSubType = USB_CDC_UNION_TYPE, uni_bMasterInterface0 = 0,
       uni_bSlaveInterface0 = 1\<rparr>,
     ecm_desc =
       \<lparr>eth_bLength = of_nat sizeof_usb_cdc_ether_desc_t, eth_bDescriptorType = USB_DT_CS_INTERFACE,
       eth_bDescriptorSubType = USB_CDC_ETHERNET_TYPE, eth_iMACAddress = STR_ID_MACA,
       eth_bmEthernetStatistics = 0, eth_wMaxSegmentSize = 1514,
       eth_wNumberMCFilters = 0, eth_bNumberPowerFilters = 0\<rparr>,
     ncm_desc =
       \<lparr>ncmd_bLength = of_nat sizeof_usb_cdc_ncm_desc_t, ncmd_bDescriptorType = USB_DT_CS_INTERFACE,
       ncmd_bDescriptorSubType = USB_CDC_NCM_TYPE, ncmd_bcdNcmVersion = 0x0100,
       ncmd_bmNetworkCapabilities = 0\<rparr>,
     ncm_notify_ep_desc =
       \<lparr>ep_bLength = of_nat sizeof_usb_endpoint_descriptor_t, ep_bDescriptorType = USB_DT_ENDPOINT,
       ep_bEndpointAddress = CY_FX_EP_NOTIFIER, ep_bmAttributes = USB_ENDPOINT_XFER_INT,
       ep_wMaxPacketSize = NCM_STATUS_BYTECOUNT, ep_bInterval = 9\<rparr>,
     ncm_data_nop_intf =
       \<lparr>itf_bLength = of_nat sizeof_usb_interface_descriptor_t, itf_bDescriptorType = USB_DT_INTERFACE,
       itf_bInterfaceNumber = 1, itf_bAlternateSetting = 0,
       itf_bNumEndpoints = 0, itf_bInterfaceClass = USB_CLASS_CDC_DATA,
       itf_bInterfaceSubClass = 0, itf_bInterfaceProtocol = USB_CDC_NCM_PROTO_NTB,
       itf_iInterface = STR_ID_INTF\<rparr>,
     ncm_data_intf =
       \<lparr>itf_bLength = of_nat sizeof_usb_interface_descriptor_t, itf_bDescriptorType = USB_DT_INTERFACE,
       itf_bInterfaceNumber = 1, itf_bAlternateSetting = 1,
       itf_bNumEndpoints = 2, itf_bInterfaceClass = USB_CLASS_CDC_DATA,
       itf_bInterfaceSubClass = 0, itf_bInterfaceProtocol = USB_CDC_NCM_PROTO_NTB,
       itf_iInterface = STR_ID_INTF\<rparr>,
     ncm_in_ep_desc =
       \<lparr>ep_bLength = of_nat sizeof_usb_endpoint_descriptor_t, ep_bDescriptorType = USB_DT_ENDPOINT,
       ep_bEndpointAddress = CY_FX_EP_CONSUMER, ep_bmAttributes = USB_ENDPOINT_XFER_BULK,
       ep_wMaxPacketSize = 512, ep_bInterval = 0\<rparr>,
     ncm_out_ep_desc =
       \<lparr>ep_bLength = of_nat sizeof_usb_endpoint_descriptor_t, ep_bDescriptorType = USB_DT_ENDPOINT,
       ep_bEndpointAddress = CY_FX_EP_PRODUCER, ep_bmAttributes = USB_ENDPOINT_XFER_BULK,
       ep_wMaxPacketSize = 512, ep_bInterval = 0\<rparr>\<rparr>"

section \<open>String descriptors\<close>

text \<open>
  A \<^verbatim>\<open>usb_string_descriptor_t\<close> holds 31 UTF-16 code units.  Its length byte is
  \<^verbatim>\<open>sizeof\<close> of the literal: two bytes per character and two for the terminator.
\<close>

record usb_string_descriptor_t =
  str_bLength :: u8
  str_bDescriptorType :: u8
  str_bString :: "u16 list"

definition str_bytes :: "usb_string_descriptor_t \<Rightarrow> u8 list" where
  "str_bytes d = [str_bLength d, str_bDescriptorType d] @ concat (map le16 (str_bString d))"

definition utf16 :: "string \<Rightarrow> u16 list" where
  "utf16 s = map of_char s"

text \<open>The initialiser: the literal's code units, then zeros.\<close>

definition str_literal :: "string \<Rightarrow> usb_string_descriptor_t" where
  "str_literal s = \<lparr>str_bLength = of_nat (2 * (length s + 1)), str_bDescriptorType = USB_DT_STRING,
     str_bString = take 31 (utf16 s @ replicate 31 0)\<rparr>"

definition str_desc_langid :: usb_string_descriptor_t where
  "str_desc_langid = \<lparr>str_bLength = 4, str_bDescriptorType = USB_DT_STRING,
     str_bString = 0x0409 # replicate 30 0\<rparr>"

definition str_desc_manufacturer :: usb_string_descriptor_t where
  "str_desc_manufacturer = str_literal ''pureLiFi''"

definition str_desc_product :: usb_string_descriptor_t where
  "str_desc_product = str_literal ''PnP''"

definition str_desc_interface :: usb_string_descriptor_t where
  "str_desc_interface = str_literal ''USB CDC-NCM''"

definition str_desc_serial :: usb_string_descriptor_t where
  "str_desc_serial = str_literal ''2EF5F368DCE6''"

section \<open>The host's view\<close>

text \<open>
  A host walks a configuration by the length bytes; a length below 2 or beyond the end is an error.
  The fuel is the number of bytes, enough as every descriptor has at least two.
\<close>

fun desc_walk :: "nat \<Rightarrow> u8 list \<Rightarrow> u8 list list option" where
  "desc_walk n [] = Some []"
| "desc_walk 0 (b # bs) = None"
| "desc_walk (Suc n) (b # bs) =
     (if unat b < 2 \<or> length (b # bs) < unat b then None
      else case desc_walk n (drop (unat b) (b # bs)) of
             None \<Rightarrow> None
           | Some ds \<Rightarrow> Some (take (unat b) (b # bs) # ds))"

definition desc_parse :: "u8 list \<Rightarrow> u8 list list option" where
  "desc_parse bs = desc_walk (length bs) bs"

text \<open>A descriptor states its own length.\<close>

definition desc_ok :: "u8 list \<Rightarrow> bool" where
  "desc_ok d \<longleftrightarrow> 2 \<le> length d \<and> unat (hd d) = length d"

lemma desc_walk_concat:
  assumes "\<forall>d \<in> set ds. desc_ok d" "length (concat ds) \<le> n"
  shows "desc_walk n (concat ds) = Some ds"
  using assms
proof (induction ds arbitrary: n)
  case Nil
  then show ?case by simp
next
  case (Cons d ds)
  then obtain b bs where d: "d = b # bs" "unat b = length d" "2 \<le> length d"
    by (cases d) (auto simp: desc_ok_def)
  obtain k where n: "n = Suc k" "length (concat ds) \<le> k"
    using Cons.prems d by (cases n) auto
  have "desc_walk k (concat ds) = Some ds"
    using Cons n by simp
  with d n show ?case by (cases bs) simp_all
qed

lemma desc_parse_concat: "\<forall>d \<in> set ds. desc_ok d \<Longrightarrow> desc_parse (concat ds) = Some ds"
  by (simp add: desc_parse_def desc_walk_concat)

text \<open>
  The interfaces of a parsed configuration: number, alternate setting, stated endpoint count and the
  addresses of the endpoint descriptors that follow it.
\<close>

fun desc_interfaces :: "u8 list list \<Rightarrow> (u8 \<times> u8 \<times> u8 \<times> u8 list) list" where
  "desc_interfaces [] = []"
| "desc_interfaces (d # ds) =
     (if d ! 1 = USB_DT_INTERFACE then
        (d ! 2, d ! 3, d ! 4,
         map (\<lambda>e. e ! 2) (filter (\<lambda>e. e ! 1 = USB_DT_ENDPOINT)
           (takeWhile (\<lambda>e. e ! 1 \<noteq> USB_DT_INTERFACE) ds))) # desc_interfaces ds
      else desc_interfaces ds)"

lemma desc_length:
  "length (cfg_bytes c) = 9" "length (iad_bytes i) = 8" "length (itf_bytes f) = 9"
  "length (hdr_bytes h) = 5" "length (uni_bytes u) = 5" "length (eth_bytes e) = 13"
  "length (ncmd_bytes n) = 6" "length (ep_bytes p) = 7" "length (dev_bytes v) = 18"
  by (simp_all add: desc_bytes)

lemma config_parts_ok: "\<forall>d \<in> set (usb_desc_parts usb_config_desc). desc_ok d"
  unfolding desc_ok_def usb_desc_parts_def
  by (simp add: desc_length) (simp add: desc_bytes usb_config_desc_def desc_sizes)

text \<open>C12. The configuration the device reports is a proper descriptor chain: a host that walks it by
  the length bytes finds exactly the twelve descriptors of \<^verbatim>\<open>usb_desc_t\<close> in order, and the
  total length the configuration descriptor states is the length of the chain (94 bytes).\<close>

theorem usb_config_parses:
  "desc_parse (usb_desc_bytes usb_config_desc) = Some (usb_desc_parts usb_config_desc)
   \<and> unat (cfg_wTotalLength (config_desc usb_config_desc)) = length (usb_desc_bytes usb_config_desc)
   \<and> length (usb_desc_bytes usb_config_desc) = 94"
proof -
  have "length (usb_desc_bytes usb_config_desc) = 94"
    by (simp add: usb_desc_bytes_def usb_desc_parts_def desc_length)
  then show ?thesis
    by (simp add: usb_desc_bytes_def desc_parse_concat [OF config_parts_ok])
      (simp add: usb_config_desc_def desc_sizes sizeof_usb_desc_t_def)
qed

text \<open>Every interface descriptor is followed by exactly the number of endpoint descriptors it
  states, and their addresses are the endpoint numbers the driver uses: notification IN on the
  control interface, nothing on the idle setting of the data interface, bulk IN and OUT on its
  active setting.\<close>

theorem usb_config_endpoints:
  "desc_interfaces (usb_desc_parts usb_config_desc) =
     [(0, 0, 1, [NCM_EP_NOTIFY]), (1, 0, 0, []), (1, 1, 2, [NCM_EP_DATA_IN, NCM_EP_DATA_OUT])]"
  by (simp add: usb_desc_parts_def usb_config_desc_def desc_bytes le16_def le32_def desc_consts ncm_consts)

lemma length_concat_le16 [simp]: "length (concat (map le16 ws)) = 2 * length ws"
  by (induction ws) simp_all

lemma str_literal_reads:
  assumes "length s \<le> 31"
  shows "length (str_bytes (str_literal s)) = 64"
    "take (unat (str_bLength (str_literal s))) (str_bytes (str_literal s)) =
       [of_nat (2 + 2 * length s), USB_DT_STRING] @ concat (map (\<lambda>c. le16 (of_char c)) s)"
proof -
  have "unat (of_nat (2 * (length s + 1)) :: u8) = 2 + 2 * length s"
    using assms by (simp only: unat_of_nat_u8) simp
  then have "unat (str_bLength (str_literal s)) = 2 + 2 * length s"
    by (simp only: str_literal_def usb_string_descriptor_t.simps)
  moreover define body where "body = concat (map (\<lambda>c. le16 (of_char c)) s)"
  moreover have len: "length body = 2 * length s"
    using length_concat_le16 [of "utf16 s"] by (simp add: body_def utf16_def comp_def)
  moreover define pad where "pad = concat (map le16 (replicate (31 - length s) 0))"
  moreover have "str_bytes (str_literal s) = [of_nat (2 + 2 * length s), USB_DT_STRING] @ body @ pad"
    using assms by (simp add: str_bytes_def str_literal_def utf16_def comp_def min_absorb1 body_def pad_def)
  moreover have "length pad = 62 - 2 * length s"
    unfolding pad_def length_concat_le16 by simp
  ultimately show "length (str_bytes (str_literal s)) = 64"
    "take (unat (str_bLength (str_literal s))) (str_bytes (str_literal s)) =
       [of_nat (2 + 2 * length s), USB_DT_STRING] @ concat (map (\<lambda>c. le16 (of_char c)) s)"
    using assms by simp_all
qed

text \<open>Each string descriptor is well formed: its length byte covers the two header bytes and two
  bytes per character of its string, all inside the 64-byte object, so that what the host reads is
  the string in UTF-16.\<close>

theorem string_descriptors_wellformed:
  "\<forall>(d, s) \<in> {(str_desc_manufacturer, ''pureLiFi''), (str_desc_product, ''PnP''),
       (str_desc_interface, ''USB CDC-NCM''), (str_desc_serial, ''2EF5F368DCE6'')}.
     length (str_bytes d) = 64 \<and> take (unat (str_bLength d)) (str_bytes d) =
       [of_nat (2 + 2 * length s), USB_DT_STRING] @ concat (map (\<lambda>c. le16 (of_char c)) s)"
  by (simp only: ball_simps split str_desc_manufacturer_def str_desc_product_def str_desc_interface_def
      str_desc_serial_def) (simp add: str_literal_reads)

theorem string_descriptors_wellformed_witness:
  "take (unat (str_bLength str_desc_product)) (str_bytes str_desc_product) = [8, 3, 80, 0, 110, 0, 80, 0]"
  using bspec [OF string_descriptors_wellformed, of "(str_desc_product, ''PnP'')"]
  by (simp add: le16_def USB_DT_STRING_def)

end
