(* ===== verification/Fx3_Bitmap.thy ===== *)
theory Fx3_Bitmap
  imports Ncm_Prelude
begin

text \<open>
  The status bitmap of the DMA buffer manager (cyfx_tx.c): one bit per 32-byte cache line.
  \<^verbatim>\<open>CyU3PDmaBufMgrSetStatus\<close>, the search loop of \<^verbatim>\<open>CyU3PDmaBufferAlloc\<close> and the counting
  loop of \<^verbatim>\<open>CyU3PDmaBufferFree\<close>.  Positions and counts are natural numbers: the code keeps them in
  32-bit variables and they stay below 32 times the number of status words.
\<close>

section \<open>Bits of the status array\<close>

definition used_bit :: "u32 list \<Rightarrow> nat \<Rightarrow> bool" where
  "used_bit st i = bit (st ! (i div 32)) (i mod 32)"

text \<open>The mask the code computes: ones at the positions from \<open>a\<close> up to \<open>b\<close>.\<close>

definition status_mask :: "nat \<Rightarrow> nat \<Rightarrow> u32" where
  "status_mask startbit endbit =
     (if endbit = 32 then 0xFFFFFFFF else push_bit endbit 1 - 1) - (push_bit startbit 1 - 1)"

lemma status_mask_eq:
  assumes "a \<le> b" "b \<le> 32"
  shows "status_mask a b = mask b AND NOT (mask a)"
proof -
  have b: "(if b = 32 then 0xFFFFFFFF else push_bit b 1 - 1 :: u32) = mask b"
    by (simp add: mask_eq_exp_minus_1)
  have a: "(push_bit a 1 - 1 :: u32) = mask a"
    by (simp add: mask_eq_exp_minus_1)
  have "(mask b AND NOT (mask a)) + mask a = ((mask b AND NOT (mask a)) OR mask a :: u32)"
    by (rule disjunctive_add) (simp add: bit_simps)
  also have "\<dots> = mask b"
    using assms by (intro bit_word_eqI) (auto simp: bit_simps)
  finally have "mask b - mask a = (mask b AND NOT (mask a) :: u32)"
    by (simp add: algebra_simps)
  then show ?thesis by (simp only: status_mask_def a b)
qed

lemma bit_status_mask:
  assumes "a \<le> b" "b \<le> 32"
  shows "bit (status_mask a b) i \<longleftrightarrow> a \<le> i \<and> i < b"
  using assms by (auto simp: status_mask_eq bit_simps)

section \<open>Setting and clearing a range\<close>

text \<open>
  The loop of \<^verbatim>\<open>CyU3PDmaBufMgrSetStatus\<close>; \<open>None\<close> is an index outside the status array, or an empty
  mask with bits left, with which the loop would not end.  After the first word every word starts at
  bit 0.
\<close>

function set_status_loop :: "u32 list \<Rightarrow> nat \<Rightarrow> nat \<Rightarrow> nat \<Rightarrow> nat \<Rightarrow> bool \<Rightarrow> u32 list option" where
  "set_status_loop st wordnum startbit endbit numBits val =
     (if numBits = 0 then Some st
      else if \<not> wordnum < length st \<or> \<not> startbit < endbit then None
      else
        let msk = status_mask startbit endbit;
            w = (if val then st ! wordnum OR msk else st ! wordnum AND NOT msk);
            n = numBits - (endbit - startbit)
        in set_status_loop (st[wordnum := w]) (wordnum + 1) 0 (if n \<ge> 32 then 32 else n) n val)"
  by auto
termination
  by (relation "measure (\<lambda>(st, w, s, e, n, v). n)") auto

declare set_status_loop.simps [simp del]

definition CyU3PDmaBufMgrSetStatus :: "u32 list \<Rightarrow> nat \<Rightarrow> nat \<Rightarrow> bool \<Rightarrow> u32 list option" where
  "CyU3PDmaBufMgrSetStatus st startPos numBits val =
     set_status_loop st (startPos div 32) (startPos mod 32) (min 32 (startPos mod 32 + numBits)) numBits val"

lemma set_status_loop_spec:
  assumes "s < 32" "e = min 32 (s + n)" "32 * w + s + n \<le> 32 * length st"
  shows "\<exists>st'. set_status_loop st w s e n val = Some st' \<and> length st' = length st
    \<and> (\<forall>i. used_bit st' i = (if 32 * w + s \<le> i \<and> i < 32 * w + s + n then val else used_bit st i))"
  using assms
proof (induction n arbitrary: st w s e rule: less_induct)
  case (less n)
  show ?case
  proof (cases "n = 0")
    case True
    then show ?thesis by (auto simp: set_status_loop.simps)
  next
    case False
    define msk where "msk = status_mask s e"
    define x where "x = (if val then st ! w OR msk else st ! w AND NOT msk)"
    have e: "s < e" "e \<le> 32" using less.prems False by auto
    have w: "w < length st" using less.prems False by linarith
    let ?n = "n - (e - s)" and ?st = "st[w := x]"
    have step: "set_status_loop st w s e n val = set_status_loop ?st (w + 1) 0 (min 32 ?n) ?n val"
      using False e w by (simp add: set_status_loop.simps [of st w s e n val] Let_def msk_def x_def min_def)
    have bits: "used_bit ?st i = (if 32 * w + s \<le> i \<and> i < 32 * w + e then val else used_bit st i)" for i
    proof (cases "i div 32 = w")
      case True
      then have i: "i = 32 * w + i mod 32" by (metis mult_div_mod_eq)
      have "bit msk (i mod 32) \<longleftrightarrow> s \<le> i mod 32 \<and> i mod 32 < e"
        unfolding msk_def using e by (intro bit_status_mask) auto
      also have "\<dots> \<longleftrightarrow> 32 * w + s \<le> i \<and> i < 32 * w + e"
        by (subst (3 4) i) simp
      finally show ?thesis
        using True w by (auto simp: used_bit_def x_def bit_simps)
    next
      case False
      then have "\<not> (32 * w + s \<le> i \<and> i < 32 * w + e)"
        using e by (auto simp: div_nat_eqI)
      then show ?thesis using False by (auto simp: used_bit_def)
    qed
    have n': "?n < n" using e False by simp
    have end_eq: "?n = 0 \<or> e = 32" using less.prems(2) by auto
    have "32 * (w + 1) + 0 + ?n \<le> 32 * length ?st \<or> ?n = 0"
      using end_eq less.prems e by auto
    then obtain st' where st': "set_status_loop ?st (w + 1) 0 (min 32 ?n) ?n val = Some st'"
        "length st' = length ?st"
        "\<forall>i. used_bit st' i = (if 32 * (w + 1) \<le> i \<and> i < 32 * (w + 1) + ?n then val else used_bit ?st i)"
    proof (cases "?n = 0")
      case True
      then show ?thesis by (intro that [of ?st]) (auto simp: set_status_loop.simps)
    next
      case False
      then show ?thesis
        using less.IH [OF n', of 0 "min 32 ?n" "w + 1" ?st] end_eq less.prems e that by auto
    qed
    have "(32 * (w + 1) \<le> i \<and> i < 32 * (w + 1) + ?n) \<or> (32 * w + s \<le> i \<and> i < 32 * w + e) \<longleftrightarrow>
        32 * w + s \<le> i \<and> i < 32 * w + s + n" for i
      using end_eq e less.prems(2) by auto
    then show ?thesis
      using st' step bits by (intro exI [of _ st']) (simp, metis)
  qed
qed

lemma set_status_bits:
  assumes "p + n \<le> 32 * length st"
  shows "\<exists>st'. CyU3PDmaBufMgrSetStatus st p n val = Some st' \<and> length st' = length st
    \<and> (\<forall>i. used_bit st' i = (if p \<le> i \<and> i < p + n then val else used_bit st i))"
  using set_status_loop_spec [of "p mod 32" _ n "p div 32" st val] assms
  by (simp add: CyU3PDmaBufMgrSetStatus_def)

section \<open>Searching for a free run\<close>

text \<open>
  The search loop of \<^verbatim>\<open>CyU3PDmaBufferAlloc\<close>.  It visits every word once, from
  \<^verbatim>\<open>searchPos\<close> to the end and then from the start, and restarts its count at the wrap.  The
  result is the final count, the start of the last run, and the new search position when the run was
  found.  \<open>Inl\<close> is an index outside the array; \<open>None\<close> is running out of fuel.
\<close>

fun search_loop :: "nat \<Rightarrow> u32 list \<Rightarrow> nat \<Rightarrow> nat \<Rightarrow> nat \<Rightarrow> nat \<Rightarrow> nat \<Rightarrow> nat \<Rightarrow>
    (c_error + nat \<times> nat \<times> nat option) option" where
  "search_loop 0 st need wordnum bitnum cnt start tmp = None"
| "search_loop (Suc fuel) st need wordnum bitnum cnt start tmp =
     (if \<not> tmp < length st then Some (Inr (cnt, start, None))
      else if \<not> wordnum < length st then Some (Inl OutOfBounds)
      else
        let free = (st ! wordnum AND push_bit bitnum 1 = 0);
            start = (if free \<and> cnt = 0 then 32 * wordnum + bitnum + 1 else start);
            cnt = (if free then cnt + 1 else 0)
        in if free \<and> cnt = need then Some (Inr (cnt, start, Some wordnum))
           else if bitnum + 1 = 32 then
             if wordnum + 1 = length st then search_loop fuel st need 0 0 0 start (tmp + 1)
             else search_loop fuel st need (wordnum + 1) 0 cnt start (tmp + 1)
           else search_loop fuel st need wordnum (bitnum + 1) cnt start tmp)"

text \<open>A bit is visited at most once: 32 steps per word, and one to leave the loop.\<close>

definition buf_search :: "u32 list \<Rightarrow> nat \<Rightarrow> nat \<Rightarrow> (c_error + nat \<times> nat \<times> nat option) option" where
  "buf_search st need searchPos = search_loop (32 * length st + 1) st need searchPos 0 0 0 0"

text \<open>The reference: a scan over a range of positions for \<open>need\<close> free ones in a row.\<close>

fun run_scan :: "(nat \<Rightarrow> bool) \<Rightarrow> nat \<Rightarrow> nat list \<Rightarrow> nat \<Rightarrow> nat \<Rightarrow> nat \<times> nat \<times> nat option" where
  "run_scan used need [] cnt start = (cnt, start, None)"
| "run_scan used need (p # ps) cnt start =
     (if used p then run_scan used need ps 0 start
      else let start = (if cnt = 0 then p + 1 else start)
           in if cnt + 1 = need then (need, start, Some (p div 32)) else run_scan used need ps (cnt + 1) start)"

text \<open>
  What a scan of \<open>[p..<hi]\<close> finds when the \<open>cnt\<close> positions before \<open>p\<close> are free: the first
  run of \<open>need\<close> free positions at or after \<open>p - cnt\<close>.
\<close>

definition free_run :: "(nat \<Rightarrow> bool) \<Rightarrow> nat \<Rightarrow> nat \<Rightarrow> bool" where
  "free_run used q n \<longleftrightarrow> (\<forall>i. q \<le> i \<and> i < q + n \<longrightarrow> \<not> used i)"

definition scan_ok :: "(nat \<Rightarrow> bool) \<Rightarrow> nat \<Rightarrow> nat \<Rightarrow> nat \<Rightarrow> nat \<times> nat \<times> nat option \<Rightarrow> bool" where
  "scan_ok used need lo hi r \<longleftrightarrow>
     (case r of
        (c, s, Some w) \<Rightarrow> c = need \<and> (\<exists>q. s = q + 1 \<and> lo \<le> q \<and> q + need \<le> hi
           \<and> free_run used q need \<and> w = (q + need - 1) div 32)
      | (c, s, None) \<Rightarrow> c < need \<and> (\<forall>q. lo \<le> q \<and> q + need \<le> hi \<longrightarrow> \<not> free_run used q need))"

lemma scan_ok_skip:
  assumes "scan_ok used need lo' hi r" "lo \<le> lo'"
    and "\<And>q. lo \<le> q \<Longrightarrow> q < lo' \<Longrightarrow> q + need \<le> hi \<Longrightarrow> \<not> free_run used q need"
  shows "scan_ok used need lo hi r"
  using assms unfolding scan_ok_def
  by (auto split: option.splits intro: le_trans) (metis not_le)

lemma run_scan_spec:
  assumes "cnt < need" "cnt \<le> p" "free_run used (p - cnt) cnt" "0 < cnt \<longrightarrow> start = p - cnt + 1" "p \<le> hi"
  shows "scan_ok used need (p - cnt) hi (run_scan used need [p..<hi] cnt start)"
  using assms
proof (induction "hi - p" arbitrary: p cnt start)
  case 0
  then have none: "\<not> (p - cnt \<le> q \<and> q + need \<le> hi)" for q by linarith
  have "[p..<hi] = []" using 0 by simp
  then show ?case using 0 none by (auto simp: scan_ok_def)
next
  case (Suc k)
  then have p: "p < hi" "k = hi - Suc p" by simp_all
  have ps: "[p..<hi] = p # [Suc p..<hi]" using p by (simp add: upt_conv_Cons)
  show ?case
  proof (cases "used p")
    case True
    have "\<not> free_run used q need" if "p - cnt \<le> q" "q < Suc p" "q + need \<le> hi" for q
      using that True Suc.prems by (auto simp: free_run_def intro!: exI [of _ p])
    moreover have "scan_ok used need (Suc p - 0) hi (run_scan used need [Suc p..<hi] 0 start)"
      using Suc.prems p by (intro Suc.hyps) (auto simp: free_run_def)
    ultimately have "scan_ok used need (p - cnt) hi (run_scan used need [Suc p..<hi] 0 start)"
      by (elim scan_ok_skip) auto
    then show ?thesis using True by (simp add: ps)
  next
    case free: False
    let ?s = "if cnt = 0 then p + 1 else start"
    have s: "?s = p - cnt + 1" using Suc.prems by auto
    have run: "free_run used (p - cnt) (Suc cnt)"
      using Suc.prems free by (auto simp: free_run_def less_Suc_eq)
    show ?thesis
    proof (cases "Suc cnt = need")
      case True
      then show ?thesis
        using free s run Suc.prems p by (auto simp: ps scan_ok_def intro!: exI [of _ "p - cnt"])
    next
      case False
      have "scan_ok used need (Suc p - Suc cnt) hi (run_scan used need [Suc p..<hi] (Suc cnt) ?s)"
        using Suc.prems p False run s by (intro Suc.hyps) auto
      moreover have "run_scan used need [p..<hi] cnt start = run_scan used need [Suc p..<hi] (Suc cnt) ?s"
        using free False by (simp add: ps Let_def)
      ultimately show ?thesis by simp
    qed
  qed
qed

section \<open>The search loop is the scan\<close>

lemma free_test: "bn < 32 \<Longrightarrow> (st ! w AND push_bit bn 1 = 0) \<longleftrightarrow> \<not> used_bit st (32 * w + bn)"
  using and_exp_eq_0_iff_not_bit [of "st ! w" bn] by (simp add: used_bit_def push_bit_of_1)

text \<open>Leaving one word: the loop from a bit to the end of the word.\<close>

lemma search_word:
  assumes "tmp < length st" "w < length st" "b < 32" "cnt < need"
  shows "search_loop (fuel + (32 - b)) st need w b cnt start tmp =
    (case run_scan (used_bit st) need [32 * w + b..<32 * (w + 1)] cnt start of
       (c, s, Some x) \<Rightarrow> Some (Inr (c, s, Some x))
     | (c, s, None) \<Rightarrow>
         if w + 1 = length st then search_loop fuel st need 0 0 0 s (tmp + 1)
         else search_loop fuel st need (w + 1) 0 c s (tmp + 1))"
  using assms
proof (induction "31 - b" arbitrary: b cnt start)
  case 0
  then have b: "b = 31" by simp
  have ps: "[32 * w + 31..<32 * (w + 1)] = [32 * w + 31]" by (simp add: upt_conv_Cons)
  have "(32 * w + 31) div 32 = w" by simp
  then show ?case using "0.prems" free_test [of 31 st w] unfolding b ps by (simp add: Let_def)
next
  case (Suc k)
  then have b: "b < 31" "k = 31 - Suc b" by simp_all
  have ps: "[32 * w + b..<32 * (w + 1)] = (32 * w + b) # [32 * w + Suc b..<32 * (w + 1)]"
    using b by (simp add: upt_conv_Cons)
  have fuel: "fuel + (32 - b) = Suc (fuel + (32 - Suc b))" using b by simp
  have "(32 * w + b) div 32 = w" using b by simp
  then show ?case
    using Suc.hyps(1) [OF b(2)] Suc.prems b free_test [of b st w]
    unfolding fuel ps by (auto simp: Let_def)
qed

declare search_loop.simps(2) [simp del]

lemma free_run_0 [simp]: "free_run used q 0"
  by (auto simp: free_run_def)

lemma run_scan_append:
  "run_scan used need (xs @ ys) cnt start =
     (case run_scan used need xs cnt start of
        (c, s, Some x) \<Rightarrow> (c, s, Some x)
      | (c, s, None) \<Rightarrow> run_scan used need ys c s)"
  by (induction xs arbitrary: cnt start) (simp_all add: Let_def)

lemma run_scan_count: "run_scan used need xs cnt start = (c, s, None) \<Longrightarrow> cnt < need \<Longrightarrow> c < need"
  by (induction xs arbitrary: cnt start) (auto simp: Let_def split: if_splits)

text \<open>A stretch of whole words.\<close>

lemma search_words:
  assumes "w + k \<le> length st" "tmp + k \<le> length st" "cnt < need"
  shows "search_loop (fuel + 32 * k) st need w 0 cnt start tmp =
    (case run_scan (used_bit st) need [32 * w..<32 * (w + k)] cnt start of
       (c, s, Some x) \<Rightarrow> Some (Inr (c, s, Some x))
     | (c, s, None) \<Rightarrow>
         if 0 < k \<and> w + k = length st then search_loop fuel st need 0 0 0 s (tmp + k)
         else search_loop fuel st need (w + k) 0 c s (tmp + k))"
  using assms
proof (induction k arbitrary: w cnt start tmp)
  case 0
  then show ?case by simp
next
  case (Suc k)
  have ps: "[32 * w..<32 * (w + Suc k)] = [32 * w..<32 * (w + 1)] @ [32 * (w + 1)..<32 * (w + 1 + k)]"
    using upt_add_eq_append [of "32 * w" "32 * (w + 1)" "32 * k"] by (simp add: algebra_simps)
  have word: "search_loop (fuel + 32 * Suc k) st need w 0 cnt start tmp =
    (case run_scan (used_bit st) need [32 * w..<32 * (w + 1)] cnt start of
       (c, s, Some x) \<Rightarrow> Some (Inr (c, s, Some x))
     | (c, s, None) \<Rightarrow>
         if w + 1 = length st then search_loop (fuel + 32 * k) st need 0 0 0 s (tmp + 1)
         else search_loop (fuel + 32 * k) st need (w + 1) 0 c s (tmp + 1))"
  proof -
    have fuel: "fuel + 32 * Suc k = (fuel + 32 * k) + (32 - 0)" by simp
    show ?thesis
      using search_word [of tmp st w 0 cnt need "fuel + 32 * k" start] Suc.prems
      unfolding fuel by (simp only: add_0_right)
  qed
  obtain c s x where r: "run_scan (used_bit st) need [32 * w..<32 * (w + 1)] cnt start = (c, s, x)"
    by (metis prod_cases3)
  show ?case
  proof (cases x)
    case (Some y)
    then show ?thesis unfolding word ps run_scan_append r by simp
  next
    case None
    with r Suc.prems(3) have c: "c < need" using run_scan_count by blast
    show ?thesis
    proof (cases "w + 1 = length st")
      case True
      then have "k = 0" using Suc.prems by simp
      with True None show ?thesis unfolding word ps run_scan_append r by simp
    next
      case False
      have "search_loop (fuel + 32 * k) st need (w + 1) 0 c s (tmp + 1) =
        (case run_scan (used_bit st) need [32 * (w + 1)..<32 * (w + 1 + k)] c s of
           (c, s, Some x) \<Rightarrow> Some (Inr (c, s, Some x))
         | (c, s, None) \<Rightarrow>
             if 0 < k \<and> w + 1 + k = length st then search_loop fuel st need 0 0 0 s (tmp + 1 + k)
             else search_loop fuel st need (w + 1 + k) 0 c s (tmp + 1 + k))"
        using Suc.prems c by (intro Suc.IH) simp_all
      moreover have "(0 < k \<and> w + 1 + k = length st) = (w + Suc k = length st)"
        using False by auto
      ultimately show ?thesis
        using None False unfolding word ps run_scan_append r by (simp split: prod.split option.split)
    qed
  qed
qed

lemma buf_search_eq:
  assumes "w < length st" "0 < need"
  shows "buf_search st need w =
    Some (Inr (case run_scan (used_bit st) need [32 * w..<32 * length st] 0 0 of
      (c, s, Some x) \<Rightarrow> (c, s, Some x)
    | (c, s, None) \<Rightarrow> run_scan (used_bit st) need [0..<32 * w] 0 s))"
proof -
  let ?N = "length st"
  have fuel: "32 * ?N + 1 = (Suc (32 * w)) + 32 * (?N - w)" using assms by simp
  have first: "buf_search st need w =
    (case run_scan (used_bit st) need [32 * w..<32 * ?N] 0 0 of
       (c, s, Some x) \<Rightarrow> Some (Inr (c, s, Some x))
     | (c, s, None) \<Rightarrow> search_loop (Suc (32 * w)) st need 0 0 0 s (?N - w))"
    unfolding buf_search_def fuel using search_words [of w "?N - w" st 0 0 need "Suc (32 * w)" 0] assms by simp
  have second: "search_loop (Suc (32 * w)) st need 0 0 0 s (?N - w) =
      Some (Inr (run_scan (used_bit st) need [0..<32 * w] 0 s))" for s
    using search_words [of 0 w st "?N - w" 0 need "Suc 0" s] assms
    by (auto simp: search_loop.simps(2) split: prod.splits option.splits)
  show ?thesis
    unfolding first second by (simp split: prod.split option.split)
qed

text \<open>
  The search always returns.  It finds a run of \<open>need\<close> free positions inside the array, or there is
  none that does not straddle the word it started from.
\<close>

lemma buf_search_spec:
  assumes "w < length st" "0 < need"
  shows "\<exists>c s x. buf_search st need w = Some (Inr (c, s, x)) \<and>
    (case x of
       Some y \<Rightarrow> c = need \<and> y < length st \<and>
         (\<exists>q. s = q + 1 \<and> q + need \<le> 32 * length st \<and> free_run (used_bit st) q need)
     | None \<Rightarrow> c < need \<and> (\<forall>q. q + need \<le> 32 * length st \<and> free_run (used_bit st) q need \<longrightarrow>
         q < 32 * w \<and> 32 * w < q + need))"
proof -
  have bound: "(q + need - 1) div 32 < length st" if "q + need \<le> 32 * hi" "hi \<le> length st" for q hi
    using that assms(2) by (simp add: div_less_iff_less_mult)
  obtain c s x where r1: "run_scan (used_bit st) need [32 * w..<32 * length st] 0 0 = (c, s, x)"
    by (metis prod_cases3)
  have ok1: "scan_ok (used_bit st) need (32 * w) (32 * length st) (c, s, x)"
    using run_scan_spec [of 0 need "32 * w" "used_bit st" 0 "32 * length st"] assms r1 by simp
  show ?thesis
  proof (cases x)
    case (Some y)
    then show ?thesis
      using ok1 bound [of _ "length st"] buf_search_eq [OF assms]
      by (fastforce simp: r1 scan_ok_def)
  next
    case None
    obtain c2 s2 x2 where r2: "run_scan (used_bit st) need [0..<32 * w] 0 s = (c2, s2, x2)"
      by (metis prod_cases3)
    have ok2: "scan_ok (used_bit st) need 0 (32 * w) (c2, s2, x2)"
      using run_scan_spec [of 0 need 0 "used_bit st" s "32 * w"] assms r2 by simp
    have eq: "buf_search st need w = Some (Inr (c2, s2, x2))"
      using buf_search_eq [OF assms] None by (simp add: r1 r2)
    show ?thesis
    proof (cases x2)
      case (Some y)
      then show ?thesis
        using ok2 bound [of _ w] assms eq by (fastforce simp: scan_ok_def)
    next
      case x2: None
      have "q < 32 * w \<and> 32 * w < q + need" if "q + need \<le> 32 * length st" "free_run (used_bit st) q need" for q
        using ok1 ok2 None x2 that by (auto simp: scan_ok_def) (metis not_le)+
      then show ?thesis using ok2 x2 eq by (auto simp: scan_ok_def)
    qed
  qed
qed

section \<open>Counting the bits of a block\<close>

text \<open>
  The loop of \<^verbatim>\<open>CyU3PDmaBufferFree\<close>: consecutive ones from a position, up to the end of the
  array.  Fuel: one step per position and one to leave the loop.
\<close>

fun ones_loop :: "nat \<Rightarrow> u32 list \<Rightarrow> nat \<Rightarrow> nat \<Rightarrow> nat \<Rightarrow> nat option" where
  "ones_loop 0 st wordnum bitnum cnt = None"
| "ones_loop (Suc fuel) st wordnum bitnum cnt =
     (if wordnum < length st \<and> st ! wordnum AND push_bit bitnum 1 \<noteq> 0 then
        if bitnum + 1 = 32 then ones_loop fuel st (wordnum + 1) 0 (cnt + 1)
        else ones_loop fuel st wordnum (bitnum + 1) (cnt + 1)
      else Some cnt)"

definition count_ones :: "u32 list \<Rightarrow> nat \<Rightarrow> nat option" where
  "count_ones st start = ones_loop (32 * length st + 1) st (start div 32) (start mod 32) 0"

lemma ones_loop_spec:
  assumes "b < 32" "\<forall>i < n. used_bit st (32 * w + b + i)" "32 * w + b + n \<le> 32 * length st"
    and "32 * w + b + n = 32 * length st \<or> \<not> used_bit st (32 * w + b + n)" "n < fuel"
  shows "ones_loop fuel st w b c = Some (c + n)"
  using assms
proof (induction n arbitrary: w b c fuel)
  case 0
  then obtain f where f: "fuel = Suc f" by (cases fuel) auto
  have "\<not> (w < length st \<and> st ! w AND push_bit b 1 \<noteq> 0)"
    using 0 free_test [of b st w] by auto
  then show ?case by (auto simp: f)
next
  case (Suc n)
  then obtain f where f: "fuel = Suc f" "n < f" by (cases fuel) auto
  have "used_bit st (32 * w + b)" using Suc.prems(2) by (metis add_0_right zero_less_Suc)
  then have w: "w < length st" "st ! w AND push_bit b 1 \<noteq> 0"
    using Suc.prems free_test [of b st w] by auto
  have shift: "\<forall>i<n. used_bit st (32 * w + b + Suc i)" using Suc.prems(2) by blast
  show ?case
  proof (cases "b = 31")
    case True
    then have pos: "32 * (w + 1) + 0 + i = 32 * w + b + Suc i" for i by simp
    have "ones_loop f st (w + 1) 0 (c + 1) = Some (c + 1 + n)"
      by (rule Suc.IH; (unfold pos)?; use Suc.prems f shift in simp)
    with True w f show ?thesis by simp
  next
    case False
    then have pos: "32 * w + (b + 1) + i = 32 * w + b + Suc i" for i by simp
    have "ones_loop f st w (b + 1) (c + 1) = Some (c + 1 + n)"
      by (rule Suc.IH; (unfold pos)?; use Suc.prems f shift False in simp)
    with False w f Suc.prems show ?thesis by simp
  qed
qed

lemma count_ones_eq:
  assumes "\<forall>i < n. used_bit st (p + i)" "p + n < 32 * length st" "\<not> used_bit st (p + n)"
  shows "count_ones st p = Some n"
  unfolding count_ones_def
  using ones_loop_spec [of "p mod 32" n st "p div 32" "32 * length st + 1" 0] assms by simp

end
