(* ===== verification/Fx3_Mem.thy ===== *)
theory Fx3_Mem
  imports Ncm_Prelude
begin

text \<open>
  The memory routines of the FX3 support code (cyfx_tx.c): \<^verbatim>\<open>CyU3PMemSet\<close>,
  \<^verbatim>\<open>CyU3PMemCopy\<close> and \<^verbatim>\<open>CyU3PMemCmp\<close>, over a flat 32-bit address space without
  protection, where every address is valid and pointer arithmetic wraps.  The unrolled loops are
  shown equal to their byte-wise meaning; the copy is correct for overlapping blocks.
\<close>

section \<open>Operations\<close>

type_synonym mem = "u32 \<Rightarrow> u8"

definition memset8 :: "mem \<Rightarrow> u32 \<Rightarrow> u8 \<Rightarrow> mem" where
  "memset8 m p d = m(p := d, p + 1 := d, p + 2 := d, p + 3 := d, p + 4 := d, p + 5 := d, p + 6 := d, p + 7 := d)"

lemma count_minus_8: "drop_bit 3 (n :: u32) \<noteq> 0 \<Longrightarrow> unat (n - 8) = unat n - 8 \<and> 8 \<le> unat n"
proof -
  assume "drop_bit 3 n \<noteq> 0"
  then have "unat (drop_bit 3 n) \<noteq> 0" by (simp add: unat_eq_0)
  then have "unat n div 8 \<noteq> 0" by (simp add: drop_bit_eq_div unat_div)
  then have n: "8 \<le> unat n" by (cases "unat n < 8") simp_all
  then have "8 \<le> n" by (simp add: word_le_nat_alt)
  with n show ?thesis by (simp add: unat_sub)
qed

lemma unat_pred: "(n :: u32) \<noteq> 0 \<Longrightarrow> unat (n - 1) = unat n - 1 \<and> 0 < unat n"
  by (simp add: unat_minus_one unat_gt_0)

function memset_unrolled :: "mem \<Rightarrow> u32 \<Rightarrow> u8 \<Rightarrow> u32 \<Rightarrow> mem \<times> u32 \<times> u32" where
  "memset_unrolled m ptr data cnt =
     (if drop_bit 3 cnt \<noteq> 0 then memset_unrolled (memset8 m ptr data) (ptr + 8) data (cnt - 8)
      else (m, ptr, cnt))"
  by auto
termination
  by (relation "measure (\<lambda>(m, p, d, n). unat n)") (auto dest: count_minus_8)

function memset_tail :: "mem \<Rightarrow> u32 \<Rightarrow> u8 \<Rightarrow> u32 \<Rightarrow> mem" where
  "memset_tail m ptr data cnt =
     (if cnt \<noteq> 0 then memset_tail (m(ptr := data)) (ptr + 1) data (cnt - 1) else m)"
  by auto
termination
  by (relation "measure (\<lambda>(m, p, d, n). unat n)") (auto dest: unat_pred)

definition CyU3PMemSet :: "mem \<Rightarrow> u32 \<Rightarrow> u8 \<Rightarrow> u32 \<Rightarrow> mem" where
  "CyU3PMemSet m ptr data cnt =
     (case memset_unrolled m ptr data cnt of (m, ptr, cnt) \<Rightarrow> memset_tail m ptr data cnt)"

text \<open>One store of the copy loops: the byte at \<open>s\<close>, as memory holds it now, to \<open>d\<close>.\<close>

definition mv :: "u32 \<Rightarrow> u32 \<Rightarrow> mem \<Rightarrow> mem" where
  "mv d s m = m(d := m s)"

definition copy8_up :: "mem \<Rightarrow> u32 \<Rightarrow> u32 \<Rightarrow> mem" where
  "copy8_up m d s = mv (d + 7) (s + 7) (mv (d + 6) (s + 6) (mv (d + 5) (s + 5) (mv (d + 4) (s + 4)
     (mv (d + 3) (s + 3) (mv (d + 2) (s + 2) (mv (d + 1) (s + 1) (mv d s m)))))))"

definition copy8_down :: "mem \<Rightarrow> u32 \<Rightarrow> u32 \<Rightarrow> mem" where
  "copy8_down m d s = mv d s (mv (d + 1) (s + 1) (mv (d + 2) (s + 2) (mv (d + 3) (s + 3)
     (mv (d + 4) (s + 4) (mv (d + 5) (s + 5) (mv (d + 6) (s + 6) (mv (d + 7) (s + 7) m)))))))"

lemma count_ge_8: "8 \<le> (n :: u32) \<Longrightarrow> unat (n - 8) = unat n - 8 \<and> 8 \<le> unat n"
  by (simp add: unat_sub word_le_nat_alt)

function copy_up_unrolled :: "mem \<Rightarrow> u32 \<Rightarrow> u32 \<Rightarrow> u32 \<Rightarrow> mem \<times> u32 \<times> u32 \<times> u32" where
  "copy_up_unrolled m dest src cnt =
     (if 8 \<le> cnt then copy_up_unrolled (copy8_up m dest src) (dest + 8) (src + 8) (cnt - 8)
      else (m, dest, src, cnt))"
  by auto
termination
  by (relation "measure (\<lambda>(m, d, s, n). unat n)") (auto dest: count_ge_8)

function copy_up_tail :: "mem \<Rightarrow> u32 \<Rightarrow> u32 \<Rightarrow> u32 \<Rightarrow> mem" where
  "copy_up_tail m dest src cnt =
     (if 0 < cnt then copy_up_tail (mv dest src m) (dest + 1) (src + 1) (cnt - 1) else m)"
  by auto
termination
  by (relation "measure (\<lambda>(m, d, s, n). unat n)") (auto dest: unat_pred simp: word_gt_0)

function copy_down_unrolled :: "mem \<Rightarrow> u32 \<Rightarrow> u32 \<Rightarrow> u32 \<Rightarrow> mem \<times> u32 \<times> u32 \<times> u32" where
  "copy_down_unrolled m dest src cnt =
     (if 8 \<le> cnt then copy_down_unrolled (copy8_down m (dest - 8) (src - 8)) (dest - 8) (src - 8) (cnt - 8)
      else (m, dest, src, cnt))"
  by auto
termination
  by (relation "measure (\<lambda>(m, d, s, n). unat n)") (auto dest: count_ge_8)

function copy_down_tail :: "mem \<Rightarrow> u32 \<Rightarrow> u32 \<Rightarrow> u32 \<Rightarrow> mem" where
  "copy_down_tail m dest src cnt =
     (if 0 < cnt then copy_down_tail (mv (dest - 1) (src - 1) m) (dest - 1) (src - 1) (cnt - 1) else m)"
  by auto
termination
  by (relation "measure (\<lambda>(m, d, s, n). unat n)") (auto dest: unat_pred simp: word_gt_0)

definition CyU3PMemCopy :: "mem \<Rightarrow> u32 \<Rightarrow> u32 \<Rightarrow> u32 \<Rightarrow> mem" where
  "CyU3PMemCopy m dest src cnt =
     (if src < dest then
        case copy_down_unrolled m (dest + cnt) (src + cnt) cnt of
          (m, dest, src, cnt) \<Rightarrow> copy_down_tail m dest src cnt
      else
        case copy_up_unrolled m dest src cnt of
          (m, dest, src, cnt) \<Rightarrow> copy_up_tail m dest src cnt)"

function CyU3PMemCmp :: "mem \<Rightarrow> u32 \<Rightarrow> u32 \<Rightarrow> u32 \<Rightarrow> int" where
  "CyU3PMemCmp m ptr1 ptr2 n =
     (if n \<noteq> 0 then
        if m ptr1 \<noteq> m ptr2 then uint (m ptr1) - uint (m ptr2)
        else CyU3PMemCmp m (ptr1 + 1) (ptr2 + 1) (n - 1)
      else 0)"
  by auto
termination
  by (relation "measure (\<lambda>(m, p, q, n). unat n)") (auto dest: unat_pred)

text \<open>The firmware's own \<^verbatim>\<open>memcmp\<close> (main.c): the loop ends at the first difference or at the count.\<close>

function memcmp_scan :: "mem \<Rightarrow> u32 \<Rightarrow> u32 \<Rightarrow> u32 \<Rightarrow> u32 \<times> u32 \<times> u32" where
  "memcmp_scan m l r n =
     (if n \<noteq> 0 \<and> m l = m r then memcmp_scan m (l + 1) (r + 1) (n - 1) else (l, r, n))"
  by auto
termination
  by (relation "measure (\<lambda>(m, p, q, n). unat n)") (auto dest: unat_pred)

definition memcmp :: "mem \<Rightarrow> u32 \<Rightarrow> u32 \<Rightarrow> u32 \<Rightarrow> int" where
  "memcmp m vl vr n =
     (case memcmp_scan m vl vr n of (l, r, n) \<Rightarrow> if n \<noteq> 0 then uint (m l) - uint (m r) else 0)"

declare memcmp_scan.simps [simp del]
declare memset_unrolled.simps [simp del] memset_tail.simps [simp del] copy_up_unrolled.simps [simp del]
  copy_up_tail.simps [simp del] copy_down_unrolled.simps [simp del] copy_down_tail.simps [simp del]
  CyU3PMemCmp.simps [simp del]

section \<open>Byte-wise references\<close>

fun set_bytes :: "nat \<Rightarrow> mem \<Rightarrow> u32 \<Rightarrow> u8 \<Rightarrow> mem" where
  "set_bytes 0 m p d = m"
| "set_bytes (Suc n) m p d = set_bytes n (m(p := d)) (p + 1) d"

fun copy_up :: "nat \<Rightarrow> mem \<Rightarrow> u32 \<Rightarrow> u32 \<Rightarrow> mem" where
  "copy_up 0 m d s = m"
| "copy_up (Suc n) m d s = copy_up n (mv d s m) (d + 1) (s + 1)"

fun copy_down :: "nat \<Rightarrow> mem \<Rightarrow> u32 \<Rightarrow> u32 \<Rightarrow> mem" where
  "copy_down 0 m d s = m"
| "copy_down (Suc n) m d s = copy_down n (mv (d - 1) (s - 1) m) (d - 1) (s - 1)"

lemma add_8_nat: "8 \<le> unat (n :: u32) \<Longrightarrow> unat n = Suc (Suc (Suc (Suc (Suc (Suc (Suc (Suc (unat n - 8))))))))"
  by simp

lemma set_bytes_8: "set_bytes (Suc (Suc (Suc (Suc (Suc (Suc (Suc (Suc n)))))))) m p d = set_bytes n (memset8 m p d) (p + 8) d"
  by (simp add: memset8_def add.assoc)

lemma copy_up_8: "copy_up (Suc (Suc (Suc (Suc (Suc (Suc (Suc (Suc n)))))))) m d s = copy_up n (copy8_up m d s) (d + 8) (s + 8)"
  by (simp add: copy8_up_def add.assoc)

lemma copy_down_8: "copy_down (Suc (Suc (Suc (Suc (Suc (Suc (Suc (Suc n)))))))) m d s =
    copy_down n (copy8_down m (d - 8) (s - 8)) (d - 8) (s - 8)"
  by (simp add: copy8_down_def diff_diff_eq algebra_simps)

lemma memset_tail_bytes: "memset_tail m p d n = set_bytes (unat n) m p d"
proof (induction m p d n rule: memset_tail.induct)
  case (1 m p d n)
  show ?case
  proof (cases "n = 0")
    case False
    then have "unat n = Suc (unat (n - 1))" using unat_pred [of n] by simp
    with False 1 show ?thesis by (simp add: memset_tail.simps [of m p d n] fun_upd_def)
  qed (simp add: memset_tail.simps)
qed

lemma memset_bytes: "CyU3PMemSet m p d n = set_bytes (unat n) m p d"
  unfolding CyU3PMemSet_def
proof (induction m p d n rule: memset_unrolled.induct)
  case (1 m p d n)
  show ?case
  proof (cases "drop_bit 3 n = 0")
    case False
    with 1 show ?thesis
      using count_minus_8 [OF False] set_bytes_8 [of "unat n - 8" m p d] add_8_nat [of n]
      by (simp only: memset_unrolled.simps [of m p d n] if_True simp_thms)
  qed (simp add: memset_unrolled.simps memset_tail_bytes)
qed

lemma copy_up_tail_bytes: "copy_up_tail m d s n = copy_up (unat n) m d s"
proof (induction m d s n rule: copy_up_tail.induct)
  case (1 m d s n)
  show ?case
  proof (cases "n = 0")
    case False
    then have "unat n = Suc (unat (n - 1))" using unat_pred [of n] by simp
    with False 1 show ?thesis by (simp add: copy_up_tail.simps [of m d s n] word_gt_0)
  qed (simp add: copy_up_tail.simps)
qed

lemma copy_up_bytes:
  "(case copy_up_unrolled m d s n of (m, d, s, n) \<Rightarrow> copy_up_tail m d s n) = copy_up (unat n) m d s"
proof (induction m d s n rule: copy_up_unrolled.induct)
  case (1 m d s n)
  show ?case
  proof (cases "8 \<le> n")
    case True
    with 1 show ?thesis
      using count_ge_8 [OF True] copy_up_8 [of "unat n - 8" m d s] add_8_nat [of n]
      by (simp only: copy_up_unrolled.simps [of m d s n] if_True)
  next
    case False
    then show ?thesis by (simp add: copy_up_unrolled.simps copy_up_tail_bytes)
  qed
qed

lemma copy_down_tail_bytes: "copy_down_tail m d s n = copy_down (unat n) m d s"
proof (induction m d s n rule: copy_down_tail.induct)
  case (1 m d s n)
  show ?case
  proof (cases "n = 0")
    case False
    then have "unat n = Suc (unat (n - 1))" using unat_pred [of n] by simp
    with False 1 show ?thesis by (simp add: copy_down_tail.simps [of m d s n] word_gt_0)
  qed (simp add: copy_down_tail.simps)
qed

lemma copy_down_bytes:
  "(case copy_down_unrolled m d s n of (m, d, s, n) \<Rightarrow> copy_down_tail m d s n) = copy_down (unat n) m d s"
proof (induction m d s n rule: copy_down_unrolled.induct)
  case (1 m d s n)
  show ?case
  proof (cases "8 \<le> n")
    case True
    with 1 show ?thesis
      using count_ge_8 [OF True] copy_down_8 [of "unat n - 8" m d s] add_8_nat [of n]
      by (simp only: copy_down_unrolled.simps [of m d s n] if_True)
  next
    case False
    then show ?thesis by (simp add: copy_down_unrolled.simps copy_down_tail_bytes)
  qed
qed

section \<open>What the routines do\<close>

text \<open>Offsets from a moving base address.\<close>

lemma offset_succ: "(a :: u32) \<noteq> p \<Longrightarrow> unat (a - (p + 1)) = unat (a - p) - 1 \<and> 0 < unat (a - p)"
  using unat_pred [of "a - p"] by (simp add: algebra_simps)

lemma offset_self: "unat ((p :: u32) - (p + 1)) = 4294967295"
  by (simp add: unsigned_minus_1_eq_mask mask_eq_exp_minus_1)

lemma set_bytes_at:
  assumes "n \<le> 4294967296"
  shows "set_bytes n m p d a = (if unat (a - p) < n then d else m a)"
  using assms
proof (induction n arbitrary: m p)
  case (Suc n)
  show ?case
  proof (cases "a = p")
    case True
    with Suc show ?thesis by (simp add: offset_self)
  next
    case False
    with Suc offset_succ [OF False] show ?thesis by (auto simp: less_diff_conv)
  qed
qed simp

text \<open>\<^verbatim>\<open>CyU3PMemSet\<close> writes the value to exactly the \<open>count\<close> bytes from its pointer, for
  every pointer and count, and changes nothing else; the unrolled loop terminates.\<close>

theorem MemSet_correct:
  "CyU3PMemSet m ptr data n = (\<lambda>a. if unat (a - ptr) < unat n then data else m a)"
  using less_imp_le [OF unat_u32_bound [of n]] by (simp add: fun_eq_iff memset_bytes set_bytes_at)

text \<open>Upward and downward copies on blocks that do not wrap around the address space.\<close>

lemma copy_up_at:
  assumes "d \<le> s" "unat s + n \<le> 4294967296"
  shows "copy_up n m d s a = (if unat (a - d) < n then m (s + (a - d)) else m a)"
  using assms
proof (induction n arbitrary: m d s)
  case (Suc n)
  show ?case
  proof (cases "n = 0")
    case True
    then show ?thesis by (auto simp: mv_def unat_eq_0)
  next
    case False
    with Suc.prems have s: "unat (s + 1) = unat s + 1" "unat (d + 1) = unat d + 1"
      by (simp_all add: word_to_nat word_le_nat_alt)
    then have IH: "copy_up n (mv d s m) (d + 1) (s + 1) a =
        (if unat (a - (d + 1)) < n then mv d s m (s + 1 + (a - (d + 1))) else mv d s m a)"
      using Suc.prems by (intro Suc.IH) (simp_all add: word_le_nat_alt)
    show ?thesis
    proof (cases "a = d")
      case True
      with IH Suc.prems False show ?thesis by (simp add: offset_self mv_def)
    next
      case a: False
      note off = offset_succ [OF a]
      have "s + (a - d) \<noteq> d" if "unat (a - d) < Suc n"
      proof
        assume "s + (a - d) = d"
        then have "unat (s + (a - d)) = unat d" by (rule arg_cong)
        then show False
          using that off Suc.prems by (simp add: word_to_nat word_le_nat_alt)
      qed
      moreover have "s + 1 + (a - (d + 1)) = s + (a - d)" by simp
      ultimately show ?thesis
        using IH off a by (auto simp: mv_def)
    qed
  qed
qed simp

lemma copy_down_at:
  assumes "s < d" "unat d + n \<le> 4294967296"
  shows "copy_down n m (d + of_nat n) (s + of_nat n) a =
    (if unat (a - d) < n then m (s + (a - d)) else m a)"
  using assms(2)
proof (induction n arbitrary: m)
  case (Suc n)
  let ?e = "d + of_nat n" and ?t = "s + of_nat n"
  have step: "copy_down (Suc n) m (d + of_nat (Suc n)) (s + of_nat (Suc n)) a =
      copy_down n (mv ?e ?t m) ?e ?t a" by (simp add: algebra_simps)
  have n: "unat (of_nat n :: u32) = n" using Suc.prems by (simp add: word_to_nat)
  have IH: "copy_down n (mv ?e ?t m) ?e ?t a =
      (if unat (a - d) < n then mv ?e ?t m (s + (a - d)) else mv ?e ?t m a)"
    using Suc by simp
  have "a = ?e \<longleftrightarrow> a - d = of_nat n" by (auto simp: algebra_simps)
  then have e: "a = ?e \<longleftrightarrow> unat (a - d) = n"
    by (simp add: word_unat_eq_iff n)
  have "s + (a - d) \<noteq> ?e" if "unat (a - d) < n"
  proof
    assume "s + (a - d) = ?e"
    then have "unat (s + (a - d)) = unat ?e" by (rule arg_cong)
    then show False
      using that assms(1) Suc.prems n by (simp add: word_to_nat word_less_nat_alt)
  qed
  then show ?case
    unfolding step IH by (auto simp: mv_def e less_Suc_eq)
qed simp

text \<open>C39. \<^verbatim>\<open>CyU3PMemCopy\<close> is a correct move of overlapping blocks: for any two blocks that do not
  wrap around the end of the address space the destination receives the bytes the source held before
  the call, and nothing else changes.\<close>

theorem MemCopy_correct:
  assumes "unat dest + unat n \<le> 4294967296" "unat src + unat n \<le> 4294967296"
  shows "CyU3PMemCopy m dest src n =
    (\<lambda>a. if unat (a - dest) < unat n then m (src + (a - dest)) else m a)"
proof (rule ext)
  fix a
  show "CyU3PMemCopy m dest src n a = (if unat (a - dest) < unat n then m (src + (a - dest)) else m a)"
  proof (cases "src < dest")
    case True
    then show ?thesis
      using copy_down_at [of src dest "unat n" m a] assms(1)
      by (simp add: CyU3PMemCopy_def copy_down_bytes)
  next
    case False
    then have "dest \<le> src" by simp
    then show ?thesis
      using copy_up_at [of dest src "unat n" m a] assms(2) False
      by (simp only: CyU3PMemCopy_def copy_up_bytes if_False)
  qed
qed

theorem MemCopy_correct_witness:
  "CyU3PMemCopy (\<lambda>a. ucast a) 0x40000003 0x40000000 9 0x40000005 = 2
   \<and> CyU3PMemCopy (\<lambda>a. ucast a) 0x40000000 0x40000003 9 0x40000005 = 8"
  using MemCopy_correct [where dest = "0x40000003" and n = 9 and src = "0x40000000"]
    MemCopy_correct [where dest = "0x40000000" and n = 9 and src = "0x40000003"] by simp

text \<open>\<^verbatim>\<open>CyU3PMemCmp\<close> compares its blocks: it returns 0 when all bytes agree and otherwise the
  difference of the first two bytes that differ.\<close>

theorem MemCmp_correct:
  "(CyU3PMemCmp m p q n = 0 \<and> (\<forall>i < unat n. m (p + of_nat i) = m (q + of_nat i)))
   \<or> (\<exists>k < unat n. (\<forall>i < k. m (p + of_nat i) = m (q + of_nat i)) \<and> m (p + of_nat k) \<noteq> m (q + of_nat k)
        \<and> CyU3PMemCmp m p q n = uint (m (p + of_nat k)) - uint (m (q + of_nat k)))"
proof (induction m p q n rule: CyU3PMemCmp.induct)
  case (1 m p q n)
  consider "n = 0" | "n \<noteq> 0" "m p \<noteq> m q" | "n \<noteq> 0" "m p = m q" by blast
  then show ?case
  proof cases
    case 1
    then show ?thesis by (simp add: CyU3PMemCmp.simps)
  next
    case 2
    then show ?thesis
      using unat_pred [of n] by (intro disjI2 exI [of _ 0]) (simp add: CyU3PMemCmp.simps)
  next
    case 3
    have step: "CyU3PMemCmp m p q n = CyU3PMemCmp m (p + 1) (q + 1) (n - 1)"
      using 3 by (simp add: CyU3PMemCmp.simps [of m p q n])
    have n: "unat n = Suc (unat (n - 1))" using unat_pred [OF 3(1)] by simp
    have shift: "x + 1 + of_nat i = x + of_nat (Suc i)" for x :: u32 and i by (simp add: algebra_simps)
    have all: "(\<forall>i < Suc k. m (p + of_nat i) = m (q + of_nat i)) \<longleftrightarrow>
        (\<forall>i < k. m (p + of_nat (Suc i)) = m (q + of_nat (Suc i)))" for k
      using 3(2) by (auto simp: less_Suc_eq_0_disj)
    from "1.IH" [OF 3(1)] 3(2) have
      "(CyU3PMemCmp m (p + 1) (q + 1) (n - 1) = 0 \<and> (\<forall>i < unat (n - 1). m (p + of_nat (Suc i)) = m (q + of_nat (Suc i))))
       \<or> (\<exists>k < unat (n - 1). (\<forall>i < k. m (p + of_nat (Suc i)) = m (q + of_nat (Suc i)))
          \<and> m (p + of_nat (Suc k)) \<noteq> m (q + of_nat (Suc k))
          \<and> CyU3PMemCmp m (p + 1) (q + 1) (n - 1) = uint (m (p + of_nat (Suc k))) - uint (m (q + of_nat (Suc k))))"
      by (simp only: shift not_not simp_thms)
    then show ?thesis
      unfolding step n all [symmetric] by (metis Suc_less_eq)
  qed
qed

theorem MemCmp_correct_witness: "CyU3PMemCmp ((\<lambda>_. 0)(0x12 := 7)) 0 0x10 4 = - 7"
proof -
  let ?m = "((\<lambda>_. 0)(0x12 := 7)) :: mem"
  have eq: "?m (0 + of_nat i) = ?m (0x10 + of_nat i) \<longleftrightarrow> i \<noteq> 2" if i: "i < 4" for i :: nat
  proof -
    consider "i = 0" | "i = 1" | "i = 2" | "i = 3" using i by linarith
    then show ?thesis by cases simp_all
  qed
  have four: "unat (4 :: u32) = 4" by simp
  consider "\<forall>i < 4. ?m (0 + of_nat i) = ?m (0x10 + of_nat i)"
    | k where "k < 4" "?m (0 + of_nat k) \<noteq> ?m (0x10 + of_nat k)"
        "CyU3PMemCmp ?m 0 0x10 4 = uint (?m (0 + of_nat k)) - uint (?m (0x10 + of_nat k))"
    using MemCmp_correct [of ?m 0 "0x10" 4] unfolding four by blast
  then show ?thesis
  proof cases
    case 1
    then have "?m (0 + of_nat 2) = ?m (0x10 + of_nat 2)" by (elim allE [of _ 2]) simp
    with eq [of 2] show ?thesis by simp
  next
    case 2
    then have "k = 2" using eq by blast
    with 2(3) show ?thesis by simp
  qed
qed

text \<open>The application's \<^verbatim>\<open>memcmp\<close> and the support code's \<^verbatim>\<open>CyU3PMemCmp\<close> are the same
  function.\<close>

theorem memcmp_is_MemCmp: "memcmp m l r n = CyU3PMemCmp m l r n"
  unfolding memcmp_def
proof (induction m l r n rule: memcmp_scan.induct)
  case (1 m l r n)
  then show ?case
    by (cases "n \<noteq> 0 \<and> m l = m r")
      (auto simp: memcmp_scan.simps [of m l r n] CyU3PMemCmp.simps [of m l r n])
qed

end
