(* ===== verification/Fx3_Heap.thy ===== *)
theory Fx3_Heap
  imports Fx3_Mem
begin

text \<open>
  The driver heap of the FX3 support code (cyfx_tx.c): \<^verbatim>\<open>CyU3PMemAlloc\<close> and
  \<^verbatim>\<open>CyU3PMemFree\<close> over the byte pool of the RTOS, with the optional headers and footers that detect
  leaks and corruption.  The RTOS services and the layout of the SDK's \<^verbatim>\<open>MemBlockInfo\<close> are
  parameters.  The in-use list is doubly linked through the headers in memory; the lemmas show that
  allocation and release keep it, and what the corruption check finds.
\<close>

section \<open>Words in memory\<close>

definition ld32 :: "mem \<Rightarrow> u32 \<Rightarrow> u32" where
  "ld32 m a = ucast (m a) OR push_bit 8 (ucast (m (a + 1))) OR push_bit 16 (ucast (m (a + 2)))
     OR push_bit 24 (ucast (m (a + 3)))"

definition st32 :: "mem \<Rightarrow> u32 \<Rightarrow> u32 \<Rightarrow> mem" where
  "st32 m a v = m(a := ucast v, a + 1 := ucast (drop_bit 8 v), a + 2 := ucast (drop_bit 16 v),
     a + 3 := ucast (drop_bit 24 v))"

lemma ld32_st32 [simp]: "ld32 (st32 m a v) a = v"
proof (rule bit_word_eqI)
  fix n assume "n < LENGTH(32)"
  then consider "n < 8" | "8 \<le> n" "n < 16" | "16 \<le> n" "n < 24" | "24 \<le> n" "n < 32" by fastforce
  then show "bit (ld32 (st32 m a v) a) n = bit v n"
    by cases (auto simp: ld32_def st32_def bit_simps)
qed

text \<open>Which bytes a store touches, relative to a base address.\<close>

lemma small_add: "unat o' + i < 4294967296 \<Longrightarrow> unat (o' + of_nat i :: u32) = unat o' + i"
  by (simp add: word_to_nat)

lemma st32_other: "4 \<le> unat (a - p) \<Longrightarrow> st32 m p v a = m a"
proof -
  assume "4 \<le> unat (a - p)"
  then have "a - p \<noteq> 0" "a - p \<noteq> 1" "a - p \<noteq> 2" "a - p \<noteq> 3" by auto
  then have "a \<noteq> p" "a \<noteq> p + 1" "a \<noteq> p + 2" "a \<noteq> p + 3" by auto
  then show ?thesis by (simp add: st32_def)
qed

lemma ld32_cong:
  assumes "\<And>i. i < 4 \<Longrightarrow> m (a + of_nat i) = m' (a + of_nat i)"
  shows "ld32 m a = ld32 m' a"
  using assms [of 0] assms [of 1] assms [of 2] assms [of 3] by (simp add: ld32_def)

lemma ld32_st32_apart:
  assumes "unat x + 4 \<le> unat y" "unat y + 4 \<le> 4294967296"
  shows "ld32 (st32 m (b + x) v) (b + y) = ld32 m (b + y)"
    "ld32 (st32 m (b + y) v) (b + x) = ld32 m (b + x)"
proof -
  have off: "4 \<le> unat (y + of_nat i - x)" "4 \<le> unat (x + of_nat i - y)" if "i < 4" for i
    using assms that small_add [of y i] small_add [of x i]
    by (simp_all add: unat_sub_if')
  have shift: "b + y + of_nat i - (b + x) = y + of_nat i - x" "b + x + of_nat i - (b + y) = x + of_nat i - y" for i
    by simp_all
  show "ld32 (st32 m (b + x) v) (b + y) = ld32 m (b + y)"
    "ld32 (st32 m (b + y) v) (b + x) = ld32 m (b + x)"
    by (intro ld32_cong st32_other; simp only: shift off)+
qed

section \<open>State and environment\<close>

text \<open>The globals of cyfx_tx.c.  A callback pointer is its address, 0 when none is registered.\<close>

record 'o fx3_sys =
  ram :: mem
  glMemPoolInit :: bool
  glMemEnableChecks :: bool
  glMemAllocCnt :: u32
  glMemFreeCnt :: u32
  glMemInUseList :: u32
  glMemBadCb :: u32
  glBufMgrEnableChecks :: bool
  glBufAllocCnt :: u32
  glBufFreeCnt :: u32
  glBufInUseList :: u32
  glBufBadCb :: u32
  bm_startAddr :: u32
  bm_regionSize :: u32
  bm_usedStatus :: u32
  bm_status :: "u32 list"
  bm_searchPos :: nat
  rtos :: 'o

datatype os_wait = NO_WAIT | WAIT_FOREVER | WAIT_TICKS nat

datatype fx3_status = SUCCESS | ERROR_ALREADY_STARTED | ERROR_FAILURE

text \<open>
  The RTOS services the code calls; \<^verbatim>\<open>CyU3PByteAlloc\<close> yields a pointer when it succeeds, the
  mutex operations say whether they succeed.  The last fields are the offsets of the members of
  \<^verbatim>\<open>MemBlockInfo\<close>, a 20-byte structure of the SDK.
\<close>

record 'o fx3_os =
  os_BytePoolCreate :: "u32 \<Rightarrow> u32 \<Rightarrow> ('o, unit) act"
  os_BytePoolDestroy :: "('o, unit) act"
  os_ByteAlloc :: "u32 \<Rightarrow> os_wait \<Rightarrow> ('o, u32 option) act"
  os_ByteFree :: "u32 \<Rightarrow> ('o, unit) act"
  os_ThreadIdentify :: "('o, bool) act"
  os_MutexCreate :: "('o, bool) act"
  os_MutexGet :: "os_wait \<Rightarrow> ('o, bool) act"
  os_MutexPut :: "('o, unit) act"
  os_MutexDestroy :: "('o, unit) act"
  os_BadCb :: "u32 \<Rightarrow> u32 \<Rightarrow> ('o, unit) act"
  off_alloc_id :: u32
  off_alloc_size :: u32
  off_prev_blk :: u32
  off_next_blk :: u32
  off_start_sig :: u32

definition mbi_ok :: "'o fx3_os \<Rightarrow> bool" where
  "mbi_ok os \<longleftrightarrow> distinct [off_alloc_id os, off_alloc_size os, off_prev_blk os, off_next_blk os, off_start_sig os]
     \<and> set [off_alloc_id os, off_alloc_size os, off_prev_blk os, off_next_blk os, off_start_sig os] \<subseteq> {0, 4, 8, 12, 16}"

definition in_os :: "('o, 'a) act \<Rightarrow> ('o fx3_sys, 'a) act" where
  "in_os m s =
     (case m (rtos s) of Inl e \<Rightarrow> Inl (EnvFault e) | Inr (r, w) \<Rightarrow> Inr (r, s\<lparr>rtos := w\<rparr>))"

lemma wpx_in_os [wp, simp]:
  "wpx F (in_os m) Q s = wpx (EnvFault -` F) m (\<lambda>r w. Q r (s\<lparr>rtos := w\<rparr>)) (rtos s)"
  by (simp add: wpx_def in_os_def split: sum.split prod.split)

definition CY_U3P_MEM_HEAP_BASE :: u32 where "CY_U3P_MEM_HEAP_BASE = 0x40038000"
definition CY_U3P_MEM_HEAP_SIZE :: u32 where "CY_U3P_MEM_HEAP_SIZE = 0x8000"
definition CY_U3P_SYS_MEM_TOP :: u32 where "CY_U3P_SYS_MEM_TOP = 0x40078000"

definition CY_U3P_BUFFER_HEAP_BASE :: u32 where
  "CY_U3P_BUFFER_HEAP_BASE = CY_U3P_MEM_HEAP_BASE + CY_U3P_MEM_HEAP_SIZE"

definition CY_U3P_BUFFER_HEAP_SIZE :: u32 where
  "CY_U3P_BUFFER_HEAP_SIZE = CY_U3P_SYS_MEM_TOP - CY_U3P_BUFFER_HEAP_BASE"

definition CY_U3P_MEM_ALLOC_TIMEOUT :: nat where "CY_U3P_MEM_ALLOC_TIMEOUT = 10"
definition CY_U3P_MEM_START_SIG :: u32 where "CY_U3P_MEM_START_SIG = 0x4658334D"
definition CY_U3P_MEM_END_SIG :: u32 where "CY_U3P_MEM_END_SIG = 0x454E444D"

lemmas heap_consts = CY_U3P_MEM_HEAP_BASE_def CY_U3P_MEM_HEAP_SIZE_def CY_U3P_SYS_MEM_TOP_def
  CY_U3P_BUFFER_HEAP_BASE_def CY_U3P_BUFFER_HEAP_SIZE_def

definition ROUND_UP :: "u32 \<Rightarrow> u32 \<Rightarrow> u32" where
  "ROUND_UP s n = (s + n - 1) AND NOT (n - 1)"

section \<open>Headers and the in-use list\<close>

text \<open>
  The header and footer of a new block, in the order of the stores: header, back link of the previous
  head, footer.
\<close>

definition dbg_link :: "'o fx3_os \<Rightarrow> u32 \<Rightarrow> u32 \<Rightarrow> u32 \<Rightarrow> u32 \<Rightarrow> mem \<Rightarrow> mem" where
  "dbg_link os block_p alloc_id sz head m =
     (let m = st32 m (block_p + off_alloc_id os) alloc_id;
          m = st32 m (block_p + off_alloc_size os) sz;
          m = st32 m (block_p + off_prev_blk os) head;
          m = st32 m (block_p + off_next_blk os) 0;
          m = st32 m (block_p + off_start_sig os) CY_U3P_MEM_START_SIG;
          m = (if head \<noteq> 0 then st32 m (head + off_next_blk os) block_p else m)
      in st32 m (block_p + 4 * (drop_bit 2 sz - 1)) CY_U3P_MEM_END_SIG)"

definition dbg_corrupt :: "'o fx3_os \<Rightarrow> mem \<Rightarrow> u32 \<Rightarrow> bool" where
  "dbg_corrupt os m block_p \<longleftrightarrow>
     ld32 m (block_p + off_start_sig os) \<noteq> CY_U3P_MEM_START_SIG
   \<or> ld32 m (block_p + ld32 m (block_p + off_alloc_size os) - 4) \<noteq> CY_U3P_MEM_END_SIG"

text \<open>Dropping a block from the list; the pointers are read as memory holds them at each store.\<close>

definition dbg_unlink :: "'o fx3_os \<Rightarrow> u32 \<Rightarrow> u32 \<Rightarrow> mem \<Rightarrow> mem \<times> u32" where
  "dbg_unlink os block_p head m =
     (let nxt = ld32 m (block_p + off_next_blk os);
          m = (if nxt \<noteq> 0 then st32 m (nxt + off_prev_blk os) (ld32 m (block_p + off_prev_blk os)) else m);
          prv = ld32 m (block_p + off_prev_blk os);
          m = (if prv \<noteq> 0 then st32 m (prv + off_next_blk os) (ld32 m (block_p + off_next_blk os)) else m)
      in (m, if head = block_p then ld32 m (block_p + off_prev_blk os) else head))"

text \<open>
  The walk of the corruption checks from the newest block: \<open>None\<close> when the fuel is used up, else the
  status and the block the callback is called for.
\<close>

fun dbg_walk :: "'o fx3_os \<Rightarrow> nat \<Rightarrow> u32 \<Rightarrow> u32 \<Rightarrow> mem \<Rightarrow> u32 \<Rightarrow> (fx3_status \<times> u32 option) option" where
  "dbg_walk os 0 lo hi m block_p = None"
| "dbg_walk os (Suc fuel) lo hi m block_p =
     (if block_p = 0 then Some (SUCCESS, None)
      else if block_p < lo \<or> hi \<le> block_p then Some (ERROR_FAILURE, None)
      else if dbg_corrupt os m block_p then Some (ERROR_FAILURE, Some block_p)
      else dbg_walk os fuel lo hi m (ld32 m (block_p + off_prev_blk os)))"

section \<open>Operations of the heap\<close>

definition CyU3PMemEnableChecks :: "bool \<Rightarrow> u32 \<Rightarrow> ('o fx3_sys, fx3_status) act" where
  "CyU3PMemEnableChecks enable cb =
     act_bind (act_gets glMemPoolInit) (\<lambda>started.
     if \<not> started then
       act_bind (act_modify (\<lambda>s. s\<lparr>glMemEnableChecks := enable, glMemBadCb := cb\<rparr>)) (\<lambda>_.
       act_return SUCCESS)
     else act_return ERROR_ALREADY_STARTED)"

definition CyU3PMemInit :: "'o fx3_os \<Rightarrow> ('o fx3_sys, unit) act" where
  "CyU3PMemInit os =
     act_bind (act_gets glMemPoolInit) (\<lambda>started.
     if \<not> started then
       act_bind (act_modify (\<lambda>s. s\<lparr>glMemPoolInit := True\<rparr>)) (\<lambda>_.
       in_os (os_BytePoolCreate os CY_U3P_MEM_HEAP_BASE CY_U3P_MEM_HEAP_SIZE))
     else act_return ())"

definition CyU3PMemAlloc :: "'o fx3_os \<Rightarrow> u32 \<Rightarrow> ('o fx3_sys, u32) act" where
  "CyU3PMemAlloc os sz =
     act_bind (act_gets glMemEnableChecks) (\<lambda>checks.
     let sz = ROUND_UP sz 4;
         sz = (if checks then sz + (20 + 4) else sz)
     in
     act_bind (in_os (os_ThreadIdentify os)) (\<lambda>thread.
     act_bind (in_os (os_ByteAlloc os sz (if thread then WAIT_TICKS CY_U3P_MEM_ALLOC_TIMEOUT else NO_WAIT))) (\<lambda>ret.
     case ret of
       None \<Rightarrow> act_return 0
     | Some block_p \<Rightarrow>
         if checks then
           act_bind (act_modify (\<lambda>s. s\<lparr>
               ram := dbg_link os block_p (glMemAllocCnt s) sz (glMemInUseList s) (ram s),
               glMemAllocCnt := glMemAllocCnt s + 1, glMemInUseList := block_p\<rparr>)) (\<lambda>_.
           act_return (block_p + 20))
         else act_return block_p)))"

definition CyU3PMemFree :: "'o fx3_os \<Rightarrow> u32 \<Rightarrow> ('o fx3_sys, unit) act" where
  "CyU3PMemFree os mem_p =
     (if mem_p < CY_U3P_MEM_HEAP_BASE then act_return ()
      else
        act_bind (act_gets glMemEnableChecks) (\<lambda>checks.
        if checks then
          let block_p = mem_p - 20 in
          act_bind (act_gets (\<lambda>s. dbg_corrupt os (ram s) block_p \<and> glMemBadCb s \<noteq> 0)) (\<lambda>bad.
          act_bind (if bad then act_bind (act_gets glMemBadCb) (\<lambda>cb. in_os (os_BadCb os cb mem_p))
                    else act_return ()) (\<lambda>_.
          act_bind (act_modify (\<lambda>s. s\<lparr>glMemFreeCnt := glMemFreeCnt s + 1\<rparr>)) (\<lambda>_.
          act_bind (act_modify (\<lambda>s. case dbg_unlink os block_p (glMemInUseList s) (ram s) of
              (m, head) \<Rightarrow> s\<lparr>ram := m, glMemInUseList := head\<rparr>)) (\<lambda>_.
          in_os (os_ByteFree os block_p)))))
        else in_os (os_ByteFree os mem_p)))"

definition CyU3PMemGetCounts :: "('o fx3_sys, u32 \<times> u32) act" where
  "CyU3PMemGetCounts = act_gets (\<lambda>s. (glMemAllocCnt s, glMemFreeCnt s))"

definition CyU3PMemGetActiveList :: "('o fx3_sys, u32) act" where
  "CyU3PMemGetActiveList = act_gets glMemInUseList"

definition CyU3PMemCorruptionCheck :: "'o fx3_os \<Rightarrow> nat \<Rightarrow> ('o fx3_sys, fx3_status option) act" where
  "CyU3PMemCorruptionCheck os fuel =
     act_bind (act_gets (\<lambda>s. dbg_walk os fuel CY_U3P_MEM_HEAP_BASE CY_U3P_BUFFER_HEAP_BASE (ram s) (glMemInUseList s))) (\<lambda>r.
     act_bind (act_gets glMemBadCb) (\<lambda>cb.
     case r of
       None \<Rightarrow> act_return None
     | Some (stat, None) \<Rightarrow> act_return (Some stat)
     | Some (stat, Some block_p) \<Rightarrow>
         act_bind (if cb \<noteq> 0 then in_os (os_BadCb os cb (block_p + 20)) else act_return ()) (\<lambda>_.
         act_return (Some stat))))"

section \<open>The list of live blocks\<close>

text \<open>A block is its address and its total size; its region is the set of its addresses.\<close>

type_synonym block = "u32 \<times> u32"

definition region :: "u32 \<Rightarrow> u32 \<Rightarrow> u32 set" where
  "region b sz = {a. unat (a - b) < unat sz}"

definition block_ok :: "'o fx3_os \<Rightarrow> mem \<Rightarrow> u32 \<Rightarrow> u32 \<Rightarrow> bool" where
  "block_ok os m b sz \<longleftrightarrow> 24 \<le> unat sz \<and> b \<noteq> 0
     \<and> ld32 m (b + off_start_sig os) = CY_U3P_MEM_START_SIG \<and> ld32 m (b + off_alloc_size os) = sz
     \<and> ld32 m (b + (sz - 4)) = CY_U3P_MEM_END_SIG"

text \<open>The address of the first block, and of the last, with a default for the empty list.\<close>

fun hd_addr :: "block list \<Rightarrow> u32 \<Rightarrow> u32" where
  "hd_addr [] e = e"
| "hd_addr ((b, sz) # bs) e = b"

fun last_addr :: "block list \<Rightarrow> u32 \<Rightarrow> u32" where
  "last_addr [] n = n"
| "last_addr ((b, sz) # bs) n = last_addr bs b"

text \<open>
  A doubly linked segment: \<open>n\<close> is what the first block's next pointer holds, \<open>e\<close> what the last
  block's previous pointer holds.
\<close>

fun chain :: "'o fx3_os \<Rightarrow> mem \<Rightarrow> u32 \<Rightarrow> block list \<Rightarrow> u32 \<Rightarrow> bool" where
  "chain os m n [] e = True"
| "chain os m n ((b, sz) # bs) e =
     (block_ok os m b sz \<and> ld32 m (b + off_prev_blk os) = hd_addr bs e
      \<and> ld32 m (b + off_next_blk os) = n \<and> chain os m b bs e)"

definition apart :: "block \<Rightarrow> block \<Rightarrow> bool" where
  "apart p q \<longleftrightarrow> region (fst p) (snd p) \<inter> region (fst q) (snd q) = {}"

fun separate :: "block list \<Rightarrow> bool" where
  "separate [] = True"
| "separate (p # bs) = ((\<forall>q \<in> set bs. apart p q) \<and> separate bs)"

definition live_blocks :: "'o fx3_os \<Rightarrow> mem \<Rightarrow> u32 \<Rightarrow> block list \<Rightarrow> bool" where
  "live_blocks os m head bs \<longleftrightarrow> head = hd_addr bs 0 \<and> chain os m 0 bs 0 \<and> separate bs"

lemma hd_addr_append [simp]: "hd_addr (xs @ ys) e = hd_addr xs (hd_addr ys e)"
  by (cases xs) auto

lemma last_addr_snoc [simp]: "last_addr (xs @ [(c, t)]) n = c"
  by (induction xs arbitrary: n) auto

lemma chain_append [simp]:
  "chain os m n (xs @ ys) e \<longleftrightarrow> chain os m n xs (hd_addr ys e) \<and> chain os m (last_addr xs n) ys e"
  by (induction xs arbitrary: n) auto

lemma separate_append:
  "separate (xs @ ys) \<longleftrightarrow> separate xs \<and> separate ys
     \<and> (\<forall>p \<in> set xs. \<forall>q \<in> set ys. apart p q)"
  by (induction xs) auto

lemma apart_sym: "apart p q \<Longrightarrow> apart q p"
  by (auto simp: apart_def)

subsection \<open>Fields of one block\<close>

lemma mbi_offset:
  assumes "mbi_ok os" "x \<in> {off_alloc_id os, off_alloc_size os, off_prev_blk os, off_next_blk os, off_start_sig os}"
  shows "unat x \<le> 16 \<and> 4 dvd unat x"
proof -
  have "x \<in> {0, 4, 8, 12, 16}" using assms unfolding mbi_ok_def list.set by blast
  then show ?thesis by auto
qed

lemma mbi_offsets:
  assumes "mbi_ok os"
  shows "x \<in> {off_alloc_id os, off_alloc_size os, off_prev_blk os, off_next_blk os, off_start_sig os} \<Longrightarrow> unat x \<le> 16"
    "off_alloc_size os \<noteq> off_prev_blk os" "off_alloc_size os \<noteq> off_next_blk os"
    "off_alloc_size os \<noteq> off_start_sig os" "off_prev_blk os \<noteq> off_next_blk os"
    "off_prev_blk os \<noteq> off_start_sig os" "off_next_blk os \<noteq> off_start_sig os"
  using assms by (simp add: mbi_offset del: insert_iff) (use assms in \<open>simp_all add: mbi_ok_def\<close>)

lemma field_apart:
  assumes "mbi_ok os" "x \<noteq> y"
    and "{x, y} \<subseteq> {off_alloc_id os, off_alloc_size os, off_prev_blk os, off_next_blk os, off_start_sig os}"
  shows "ld32 (st32 m (b + x) v) (b + y) = ld32 m (b + y)"
proof -
  have x: "unat x \<le> 16" "4 dvd unat x" and y: "unat y \<le> 16" "4 dvd unat y"
    using mbi_offset [OF assms(1)] assms(3) by blast+
  have "unat x \<noteq> unat y" using assms(2) by (simp add: word_unat_eq_iff)
  with x y have "unat x + 4 \<le> unat y \<or> unat y + 4 \<le> unat x" "unat x + 4 \<le> 4294967296" "unat y + 4 \<le> 4294967296"
    by (auto elim!: dvdE)
  then show ?thesis using ld32_st32_apart by blast
qed

lemma footer_off:
  fixes sz :: u32
  assumes "4 dvd unat sz" "24 \<le> unat sz"
  shows "4 * (drop_bit 2 sz - 1) = sz - 4"
proof -
  have "4 * drop_bit 2 sz = sz"
  proof -
    have "unat (4 * drop_bit 2 sz) = (4 * (unat sz div 4)) mod 4294967296"
      by (simp add: unat_word_ariths drop_bit_eq_div unat_div mod_mult_right_eq)
    then have "unat (4 * drop_bit 2 sz) = unat sz"
      using assms by (simp add: dvd_mult_div_cancel)
    then show ?thesis by (simp add: word_unat_eq_iff)
  qed
  then show ?thesis by (simp add: algebra_simps)
qed

lemma unat_footer: "24 \<le> unat (sz :: u32) \<Longrightarrow> unat (sz - 4) = unat sz - 4"
  by (simp add: unat_sub_if')

lemma footer_apart:
  assumes "mbi_ok os" "24 \<le> unat sz"
    and "x \<in> {off_alloc_id os, off_alloc_size os, off_prev_blk os, off_next_blk os, off_start_sig os}"
  shows "ld32 (st32 m (b + x) v) (b + (sz - 4)) = ld32 m (b + (sz - 4))"
    "ld32 (st32 m (b + (sz - 4)) v) (b + x) = ld32 m (b + x)"
proof -
  have "unat x + 4 \<le> unat (sz - 4)" "unat (sz - 4) + 4 \<le> 4294967296"
    using mbi_offsets(1) [OF assms(1,3)] assms(2) unat_footer [OF assms(2)]
      less_imp_le [OF unat_u32_bound [of sz]] by simp_all
  from ld32_st32_apart [OF this] show "ld32 (st32 m (b + x) v) (b + (sz - 4)) = ld32 m (b + (sz - 4))"
    "ld32 (st32 m (b + (sz - 4)) v) (b + x) = ld32 m (b + x)" by auto
qed

subsection \<open>Stores in another block\<close>

lemma offset_in_region:
  assumes "unat x + 4 \<le> unat sz" "i < 4"
  shows "b + x + of_nat i \<in> region b sz"
proof -
  have "b + x + of_nat i - b = x + of_nat i" by simp
  moreover have "unat (x + of_nat i) = unat x + i"
    by (rule small_add) (use assms unat_u32_bound [of sz] in linarith)
  ultimately show ?thesis using assms by (simp add: region_def)
qed

lemma st32_frame:
  assumes "unat x + 4 \<le> unat sz" "region b sz \<inter> R = {}" "a \<in> R"
  shows "st32 m (b + x) v a = m a"
proof -
  have "a \<noteq> b + x + of_nat i" if "i < 4" for i :: nat
    using offset_in_region [OF assms(1) that, of b] assms(2,3) by auto
  from this [of 0] this [of 1] this [of 2] this [of 3] show ?thesis
    by (simp add: st32_def)
qed

text \<open>A chain depends only on the regions of its blocks.\<close>

lemma chain_frame:
  assumes "mbi_ok os" "chain os m n bs e" "\<And>b sz a. (b, sz) \<in> set bs \<Longrightarrow> a \<in> region b sz \<Longrightarrow> m' a = m a"
  shows "chain os m' n bs e"
  using assms(2,3)
proof (induction bs arbitrary: n)
  case (Cons p bs)
  obtain b sz where p: "p = (b, sz)" by (cases p)
  have sz: "24 \<le> unat sz" using Cons.prems p by (simp add: block_ok_def)
  have same: "ld32 m' (b + x) = ld32 m (b + x)" if "unat x + 4 \<le> unat sz" for x
    using offset_in_region [OF that] Cons.prems(2) [of b sz] p by (intro ld32_cong) auto
  have fields: "ld32 m' (b + x) = ld32 m (b + x)"
    if "x \<in> {off_alloc_id os, off_alloc_size os, off_prev_blk os, off_next_blk os, off_start_sig os}" for x
    using mbi_offsets(1) [OF assms(1) that] sz by (intro same) simp
  have "ld32 m' (b + (sz - 4)) = ld32 m (b + (sz - 4))"
    using unat_footer [OF sz] sz by (intro same) simp
  moreover have "chain os m b bs e" using Cons.prems(1) p by simp
  then have "chain os m' b bs e"
    by (rule Cons.IH) (use Cons.prems(2) in auto)
  ultimately show ?case
    using Cons.prems(1) unfolding p chain.simps block_ok_def by (simp add: fields)
qed simp

lemma chain_sizes: "chain os m n bs e \<Longrightarrow> (b, sz) \<in> set bs \<Longrightarrow> 24 \<le> unat sz \<and> b \<noteq> 0"
  by (induction bs arbitrary: n) (auto simp: block_ok_def)

text \<open>A store into a block that is apart from a chain.\<close>

lemma chain_store:
  assumes "mbi_ok os" "chain os m n bs e" "unat x + 4 \<le> unat sz" "\<forall>q \<in> set bs. apart (b, sz) q"
  shows "chain os (st32 m (b + x) v) n bs e"
  using assms(1,2)
proof (rule chain_frame)
  fix c t a assume "(c, t) \<in> set bs" "a \<in> region c t"
  then show "st32 m (b + x) v a = m a"
    using bspec [OF assms(4), of "(c, t)"]
    by (intro st32_frame [OF assms(3), of _ "region c t"]) (simp_all add: apart_def)
qed

text \<open>Changing the next pointer of the first block, or the previous pointer of the last.\<close>

lemma chain_set_next:
  assumes ok: "mbi_ok os" and ch: "chain os m n ((b, sz) # bs) e" and sep: "separate ((b, sz) # bs)"
  shows "chain os (st32 m (b + off_next_blk os) v) v ((b, sz) # bs) e"
proof -
  have sz: "24 \<le> unat sz" using ch by (simp add: block_ok_def)
  have "chain os (st32 m (b + off_next_blk os) v) b bs e"
    using ch sep sz mbi_offsets(1) [OF ok, of "off_next_blk os"]
    by (intro chain_store [OF ok, of _ _ _ _ _ sz]) simp_all
  then show ?thesis
    using ch mbi_offsets(2-) [OF ok]
    by (simp add: block_ok_def field_apart [OF ok] footer_apart [OF ok sz])
qed

lemma chain_set_prev:
  assumes ok: "mbi_ok os" and ch: "chain os m n [(b, sz)] e"
  shows "chain os (st32 m (b + off_prev_blk os) v) n [(b, sz)] v"
proof -
  have sz: "24 \<le> unat sz" using ch by (simp add: block_ok_def)
  show ?thesis
    using ch mbi_offsets(2-) [OF ok]
    by (simp add: block_ok_def field_apart [OF ok] footer_apart [OF ok sz])
qed

lemma dbg_link_chain:
  assumes ok: "mbi_ok os" and live: "live_blocks os m head bs" and sz: "24 \<le> unat sz" "4 dvd unat sz"
    and b: "b \<noteq> 0" "\<forall>q \<in> set bs. apart (b, sz) q"
  shows "live_blocks os (dbg_link os b n sz head m) b ((b, sz) # bs)"
proof -
  note off = mbi_offsets [OF ok]
  have fits: "unat x + 4 \<le> unat sz"
    if "x \<in> {off_alloc_id os, off_alloc_size os, off_prev_blk os, off_next_blk os, off_start_sig os}" for x
    using off(1) [OF that] sz by simp
  define m5 where "m5 = st32 (st32 (st32 (st32 (st32 m (b + off_alloc_id os) n) (b + off_alloc_size os) sz)
    (b + off_prev_blk os) head) (b + off_next_blk os) 0) (b + off_start_sig os) CY_U3P_MEM_START_SIG"
  define m6 where "m6 = (if head \<noteq> 0 then st32 m5 (head + off_next_blk os) b else m5)"
  have link: "dbg_link os b n sz head m = st32 m6 (b + (sz - 4)) CY_U3P_MEM_END_SIG"
    using footer_off [OF sz(2,1)] by (simp add: dbg_link_def m5_def m6_def Let_def)
  have head: "head = hd_addr bs 0" and bs: "separate bs" "chain os m 0 bs 0"
    using live by (simp_all add: live_blocks_def)
  have c5: "chain os m5 0 bs 0"
    unfolding m5_def by (intro chain_store [OF ok _ fits b(2)] bs) simp_all
  have hdr: "ld32 m5 (b + off_alloc_size os) = sz" "ld32 m5 (b + off_prev_blk os) = head"
    "ld32 m5 (b + off_next_blk os) = 0" "ld32 m5 (b + off_start_sig os) = CY_U3P_MEM_START_SIG"
    using off(2-) by (simp_all add: m5_def field_apart [OF ok])
  have m6: "chain os m6 b bs 0 \<and> (\<forall>a \<in> region b sz. m6 a = m5 a)"
  proof (cases bs)
    case Nil
    then show ?thesis by (simp add: m6_def head)
  next
    case (Cons p bs')
    obtain c t where p: "p = (c, t)" by (cases p)
    have ct: "24 \<le> unat t" "c \<noteq> 0" using chain_sizes [OF bs(2), of c t] Cons p by auto
    have "m6 = st32 m5 (c + off_next_blk os) b" using ct by (simp add: m6_def head Cons p)
    moreover have "st32 m5 (c + off_next_blk os) b a = m5 a" if "a \<in> region b sz" for a
      using b(2) Cons p that off(1) [of "off_next_blk os"] ct
      by (intro st32_frame [of _ t c "region b sz"]) (auto simp: apart_def)
    ultimately show ?thesis
      using chain_set_next [OF ok, of m5 0 c t bs' 0 b] c5 bs(1) by (simp add: Cons p)
  qed
  have rd: "ld32 m6 (b + x) = ld32 m5 (b + x)"
    if "x \<in> {off_alloc_id os, off_alloc_size os, off_prev_blk os, off_next_blk os, off_start_sig os}" for x
    using m6 offset_in_region [OF fits [OF that]] by (intro ld32_cong) blast
  have "chain os (st32 m6 (b + (sz - 4)) CY_U3P_MEM_END_SIG) b bs 0"
    using m6 unat_footer [OF sz(1)] sz b(2) by (intro chain_store [OF ok, of _ _ _ _ _ sz]) simp_all
  then have "chain os (dbg_link os b n sz head m) 0 ((b, sz) # bs) 0"
    using hdr sz b(1) unfolding link head [symmetric]
    by (simp add: block_ok_def footer_apart(2) [OF ok sz(1)] rd head [symmetric])
  then show ?thesis using bs b(2) by (simp add: live_blocks_def)
qed

lemma dbg_unlink_chain:
  assumes ok: "mbi_ok os" and live: "live_blocks os m head (xs @ (b, sz) # ys)"
  shows "case dbg_unlink os b head m of (m', head') \<Rightarrow> live_blocks os m' head' (xs @ ys)"
proof -
  let ?p = "off_prev_blk os" and ?n = "off_next_blk os"
  define m1 where "m1 = (if last_addr xs 0 \<noteq> 0 then st32 m (last_addr xs 0 + ?p) (hd_addr ys 0) else m)"
  define m2 where "m2 = (if hd_addr ys 0 \<noteq> 0 then st32 m1 (hd_addr ys 0 + ?n) (last_addr xs 0) else m1)"
  have head: "head = hd_addr xs b" and sep: "separate (xs @ (b, sz) # ys)"
    and ch: "chain os m 0 xs b" "chain os m (last_addr xs 0) ((b, sz) # ys) 0"
    using live by (simp_all add: live_blocks_def)
  have seps: "separate xs" "separate ys" "\<forall>p\<in>set xs. \<forall>q\<in>set ys. apart p q"
    "\<forall>p\<in>set xs. apart p (b, sz)" "\<forall>q\<in>set ys. apart (b, sz) q"
    using sep by (auto simp: separate_append)
  have sz: "24 \<le> unat sz" "b \<noteq> 0" using ch by (simp_all add: block_ok_def)
  have fits: "unat ?p + 4 \<le> unat t" "unat ?n + 4 \<le> unat t" if "24 \<le> unat t" for t :: u32
    using that mbi_offsets(1) [OF ok, of ?p] mbi_offsets(1) [OF ok, of ?n] by simp_all
  have m1: "chain os m1 0 xs (hd_addr ys 0) \<and> chain os m1 (last_addr xs 0) ((b, sz) # ys) 0"
  proof (cases xs rule: rev_cases)
    case Nil
    then show ?thesis using ch by (simp add: m1_def)
  next
    case (snoc xs' c)
    obtain c t where c: "xs = xs' @ [(c, t)]" using snoc by (cases c) auto
    have last: "last_addr xs 0 = c" by (simp add: c)
    have ct: "24 \<le> unat t" "c \<noteq> 0" using chain_sizes [OF ch(1), of c t] by (simp_all add: c)
    have m1: "m1 = st32 m (c + ?p) (hd_addr ys 0)" using ct last by (simp add: m1_def)
    have "chain os m1 0 xs' c" "chain os m1 (last_addr xs' 0) [(c, t)] (hd_addr ys 0)"
    proof -
      show "chain os m1 0 xs' c"
        unfolding m1 using ch(1) seps(1) ct(1) by (intro chain_store [OF ok _ fits(1)]) (auto simp: c separate_append intro: apart_sym)
      show "chain os m1 (last_addr xs' 0) [(c, t)] (hd_addr ys 0)"
        unfolding m1 by (rule chain_set_prev [OF ok]) (use ch(1) in \<open>simp add: c\<close>)
    qed
    moreover have "chain os m1 c ((b, sz) # ys) 0"
      unfolding m1 using ch(2) seps ct(1) last by (intro chain_store [OF ok _ fits(1)]) (auto simp: c)
    ultimately show ?thesis by (simp add: c last [unfolded c])
  qed
  have m2: "chain os m2 0 xs (hd_addr ys 0) \<and> chain os m2 (last_addr xs 0) ys 0
      \<and> ld32 m2 (b + ?p) = hd_addr ys 0"
  proof (cases ys)
    case Nil
    then show ?thesis using m1 by (simp add: m2_def)
  next
    case (Cons d ys')
    obtain c t where d: "ys = (c, t) # ys'" using Cons by (cases d) auto
    have ct: "24 \<le> unat t" "c \<noteq> 0" using chain_sizes [of os m1 _ "(b, sz) # ys" 0 c t] m1 by (auto simp: d)
    have m2: "m2 = st32 m1 (c + ?n) (last_addr xs 0)" using ct by (simp add: m2_def d)
    have "chain os m2 0 xs (hd_addr ys 0)"
      unfolding m2 using m1 seps ct(1) by (intro chain_store [OF ok _ fits(2)]) (auto simp: d intro: apart_sym)
    moreover have "chain os m2 (last_addr xs 0) ys 0"
      unfolding m2 d by (rule chain_set_next [OF ok]) (use m1 seps in \<open>auto simp: d\<close>)
    moreover have "chain os m2 (last_addr xs 0) [(b, sz)] (hd_addr ys 0)"
      unfolding m2 using m1 seps ct(1) by (intro chain_store [OF ok _ fits(2)]) (auto simp: d intro: apart_sym)
    ultimately show ?thesis by simp
  qed
  have u: "dbg_unlink os b head m = (m2, if head = b then hd_addr ys 0 else head)"
  proof -
    have f: "ld32 m (b + ?n) = last_addr xs 0" "ld32 m (b + ?p) = hd_addr ys 0"
      "ld32 m1 (b + ?p) = hd_addr ys 0" "ld32 m1 (b + ?n) = last_addr xs 0" "ld32 m2 (b + ?p) = hd_addr ys 0"
      using ch m1 m2 by simp_all
    show ?thesis by (simp only: dbg_unlink_def Let_def f m1_def [symmetric] m2_def [symmetric])
  qed
  have "(if head = b then hd_addr ys 0 else head) = hd_addr (xs @ ys) 0"
  proof (cases xs)
    case (Cons p xs')
    obtain c t where p: "p = (c, t)" by (cases p)
    have "24 \<le> unat t" using chain_sizes [OF ch(1), of c t] by (simp add: Cons p)
    then have "c \<in> region c t" "b \<in> region b sz" using sz by (simp_all add: region_def)
    moreover have "apart (c, t) (b, sz)" using seps(4) by (simp add: Cons p)
    ultimately have "c \<noteq> b" by (auto simp: apart_def)
    then show ?thesis by (simp add: head Cons p)
  qed (simp add: head)
  then show ?thesis
    using m2 seps by (simp add: u live_blocks_def separate_append)
qed

subsection \<open>The corruption walk\<close>

lemma block_ok_intact: "block_ok os m b sz \<Longrightarrow> \<not> dbg_corrupt os m b"
  by (simp add: block_ok_def dbg_corrupt_def add_diff_eq [symmetric])

lemma dbg_walk_chain:
  assumes "chain os m n xs e" "\<forall>(b, sz) \<in> set xs. lo \<le> b \<and> b < hi"
  shows "dbg_walk os (length xs + k) lo hi m (hd_addr xs e) = dbg_walk os k lo hi m e"
  using assms
proof (induction xs arbitrary: n)
  case (Cons p xs)
  obtain b sz where p: "p = (b, sz)" by (cases p)
  have "b \<noteq> 0" "\<not> dbg_corrupt os m b"
    using Cons.prems p block_ok_intact by (auto simp: block_ok_def)
  then show ?case using Cons p by (auto simp: not_less)
qed simp

lemma ROUND_UP_4:
  assumes "unat sz \<le> 4294967292"
  shows "unat (ROUND_UP sz 4) = 4 * ((unat sz + 3) div 4)"
proof -
  have "(4 - 1 :: u32) = mask 2" "sz + 4 - 1 = sz + 3" by (simp_all add: mask_eq_exp_minus_1)
  then have "ROUND_UP sz 4 = (sz + 3) AND NOT (mask 2)" unfolding ROUND_UP_def by presburger
  also have "\<dots> = push_bit 2 (drop_bit 2 (sz + 3))"
    by (rule bit_word_eqI) (auto simp: bit_simps simp flip: add_2_eq_Suc)
  finally have "ROUND_UP sz 4 = push_bit 2 (drop_bit 2 (sz + 3))" .
  then have "unat (ROUND_UP sz 4) = (4 * (unat (sz + 3) div 4)) mod 4294967296"
    by (simp add: push_bit_eq_mult drop_bit_eq_div unat_word_ariths unat_div mod_mult_left_eq mod_mult_right_eq)
  moreover have "unat (sz + 3) = unat sz + 3" using assms by (simp add: word_to_nat)
  ultimately show ?thesis using assms by simp
qed

section \<open>Properties of the heap\<close>

text \<open>A concrete RTOS for runs: its byte pool hands out addresses upwards; the world is the next address.\<close>

definition demo_os :: "u32 fx3_os" where
  "demo_os = \<lparr>os_BytePoolCreate = (\<lambda>_ _ w. Inr ((), w)), os_BytePoolDestroy = (\<lambda>w. Inr ((), w)),
     os_ByteAlloc = (\<lambda>n _ w. Inr (Some w, w + n)), os_ByteFree = (\<lambda>_ w. Inr ((), w)),
     os_ThreadIdentify = (\<lambda>w. Inr (True, w)), os_MutexCreate = (\<lambda>w. Inr (True, w)),
     os_MutexGet = (\<lambda>_ w. Inr (True, w)), os_MutexPut = (\<lambda>w. Inr ((), w)),
     os_MutexDestroy = (\<lambda>w. Inr ((), w)), os_BadCb = (\<lambda>_ _ w. Inr ((), w)),
     off_alloc_id = 0, off_alloc_size = 4, off_prev_blk = 8, off_next_blk = 12, off_start_sig = 16\<rparr>"

definition demo_heap :: "u32 fx3_sys" where
  "demo_heap = \<lparr>ram = (\<lambda>_. 0), glMemPoolInit = True, glMemEnableChecks = True, glMemAllocCnt = 0,
     glMemFreeCnt = 0, glMemInUseList = 0, glMemBadCb = 0, glBufMgrEnableChecks = True, glBufAllocCnt = 0,
     glBufFreeCnt = 0, glBufInUseList = 0, glBufBadCb = 0, bm_startAddr = 0, bm_regionSize = 0,
     bm_usedStatus = 0, bm_status = [], bm_searchPos = 0, rtos = 0x40038100\<rparr>"

definition demo_live :: "u32 fx3_sys" where
  "demo_live = demo_heap\<lparr>ram := dbg_link demo_os 0x40038100 0 36 0 (\<lambda>_. 0), glMemInUseList := 0x40038100\<rparr>"

lemma demo_mbi: "mbi_ok demo_os"
  by (simp add: mbi_ok_def demo_os_def)

lemma demo_live_blocks: "live_blocks demo_os (ram demo_live) (glMemInUseList demo_live) [(0x40038100, 36)]"
  using dbg_link_chain [OF demo_mbi, of "\<lambda>_. 0" 0 "[]" 36 "0x40038100" 0]
  by (simp add: demo_live_def live_blocks_def)

text \<open>With checks enabled, a successful \<^verbatim>\<open>CyU3PMemAlloc\<close> puts the new block at the head of the
  in-use list with valid header and footer, keeps every block that was in the list, counts the
  allocation and returns the address behind the header, with room for the requested bytes before the
  footer.  The RTOS is only asked for a block that overlaps no block in use.\<close>

theorem MemAlloc_links_block:
  assumes ok: "mbi_ok os" and on: "glMemEnableChecks s"
    and live: "live_blocks os (ram s) (glMemInUseList s) bs" and n: "unat n \<le> 4294967268"
    and thread: "os_ThreadIdentify os (rtos s) = Inr (t, w)"
    and got: "os_ByteAlloc os (ROUND_UP n 4 + 24) (if t then WAIT_TICKS 10 else NO_WAIT) w = Inr (Some b, w')"
    and fresh: "b \<noteq> 0" "\<forall>q \<in> set bs. apart (b, ROUND_UP n 4 + 24) q"
  shows "wp (CyU3PMemAlloc os n) (\<lambda>p s'. p = b + 20
    \<and> live_blocks os (ram s') (glMemInUseList s') ((b, ROUND_UP n 4 + 24) # bs)
    \<and> glMemAllocCnt s' = glMemAllocCnt s + 1 \<and> 20 + unat n + 4 \<le> unat (ROUND_UP n 4 + 24)) s"
proof -
  have r: "unat (ROUND_UP n 4) = 4 * ((unat n + 3) div 4)" using n by (intro ROUND_UP_4) simp
  have "4 * ((unat n + 3) div 4) \<le> unat n + 3" "unat n \<le> 4 * ((unat n + 3) div 4)" by simp_all
  then have r24: "unat (ROUND_UP n 4 + 24) = 4 * ((unat n + 3) div 4) + 24" "unat n \<le> unat (ROUND_UP n 4)"
    using n r by (simp_all add: word_to_nat)
  have "live_blocks os (dbg_link os b (glMemAllocCnt s) (ROUND_UP n 4 + 24) (glMemInUseList s) (ram s)) b
      ((b, ROUND_UP n 4 + 24) # bs)"
    by (rule dbg_link_chain [OF ok live _ _ fresh]) (simp_all add: r24)
  then show ?thesis
    using r24 r got unfolding CyU3PMemAlloc_def
    by (cases t; simp add: on wpx_Inr [where m = "os_ThreadIdentify os", OF thread] CY_U3P_MEM_ALLOC_TIMEOUT_def
        wpx_Inr [where m = "os_ByteAlloc os x y" for x y] add.assoc Let_def)
qed

theorem MemAlloc_links_block_witness:
  "wp (CyU3PMemAlloc demo_os 10) (\<lambda>p s'. p = 0x40038114
     \<and> live_blocks demo_os (ram s') (glMemInUseList s') [(0x40038100, 36)] \<and> glMemAllocCnt s' = 1) demo_heap"
proof -
  have r: "ROUND_UP 10 4 + 24 = 36" by (simp add: ROUND_UP_def)
  have "wp (CyU3PMemAlloc demo_os 10) (\<lambda>p s'. p = 0x40038100 + 20
    \<and> live_blocks demo_os (ram s') (glMemInUseList s') ((0x40038100, ROUND_UP 10 4 + 24) # [])
    \<and> glMemAllocCnt s' = glMemAllocCnt demo_heap + 1 \<and> 20 + unat (10 :: u32) + 4 \<le> unat (ROUND_UP 10 4 + 24)) demo_heap"
    by (rule MemAlloc_links_block [OF demo_mbi, where t = True and w = "0x40038100" and w' = "0x40038124"])
      (simp_all add: demo_heap_def demo_os_def live_blocks_def r)
  then show ?thesis by (rule wpx_mono) (simp_all add: r demo_heap_def)
qed

text \<open>Freeing a block of the in-use list unlinks exactly that block: the others stay linked in order
  with their headers and footers intact, the free is counted, the corruption callback is not called
  and the block's own address goes back to the RTOS.\<close>

theorem MemFree_unlinks_block:
  assumes ok: "mbi_ok os" and on: "glMemEnableChecks s"
    and live: "live_blocks os (ram s) (glMemInUseList s) (xs @ (b, sz) # ys)"
    and heap: "CY_U3P_MEM_HEAP_BASE \<le> b + 20"
    and freed: "os_ByteFree os b (rtos s) = Inr ((), w)"
  shows "wp (CyU3PMemFree os (b + 20)) (\<lambda>_ s'. live_blocks os (ram s') (glMemInUseList s') (xs @ ys)
    \<and> glMemFreeCnt s' = glMemFreeCnt s + 1 \<and> rtos s' = w) s"
proof -
  have intact: "\<not> dbg_corrupt os (ram s) b"
    using live block_ok_intact by (auto simp: live_blocks_def)
  obtain m h where u: "dbg_unlink os b (glMemInUseList s) (ram s) = (m, h)" by (cases "dbg_unlink os b (glMemInUseList s) (ram s)")
  have "live_blocks os m h (xs @ ys)" using dbg_unlink_chain [OF ok live] u by simp
  then show ?thesis
    using heap unfolding CyU3PMemFree_def
    by (simp add: on Let_def intact u not_less [symmetric] wpx_Inr [where m = "os_ByteFree os b", OF freed])
qed

theorem MemFree_unlinks_block_witness:
  "wp (CyU3PMemFree demo_os 0x40038114) (\<lambda>_ s'. live_blocks demo_os (ram s') (glMemInUseList s') []
     \<and> glMemFreeCnt s' = 1) demo_live"
proof -
  have "wp (CyU3PMemFree demo_os (0x40038100 + 20)) (\<lambda>_ s'. live_blocks demo_os (ram s') (glMemInUseList s') ([] @ [])
    \<and> glMemFreeCnt s' = glMemFreeCnt demo_live + 1 \<and> rtos s' = 0x40038100) demo_live"
  proof (rule MemFree_unlinks_block [OF demo_mbi, where sz = 36])
    show "live_blocks demo_os (ram demo_live) (glMemInUseList demo_live) ([] @ (0x40038100, 36) # [])"
      using demo_live_blocks by simp
  qed (simp_all add: demo_live_def demo_heap_def demo_os_def heap_consts)
  moreover have "(0x40038100 + 20 :: u32) = 0x40038114" "glMemFreeCnt demo_live + 1 = 1"
    by (simp_all add: demo_live_def demo_heap_def)
  ultimately show ?thesis by (auto elim!: wpx_mono)
qed

text \<open>The corruption check walks the whole in-use list and reports success when every block is
  intact; if a client has overwritten the footer of a block, it reports failure at that block,
  whatever the blocks behind it hold.\<close>

theorem MemCorruptionCheck_finds_overrun:
  assumes ok: "mbi_ok os" and live: "live_blocks os (ram s) (glMemInUseList s) (xs @ (b, sz) # ys)"
    and range: "\<forall>(c, t) \<in> set (xs @ (b, sz) # ys). CY_U3P_MEM_HEAP_BASE \<le> c \<and> c < CY_U3P_BUFFER_HEAP_BASE"
    and fuel: "length (xs @ (b, sz) # ys) < fuel" and v: "v \<noteq> CY_U3P_MEM_END_SIG"
    and cb: "glMemBadCb s = 0"
  shows "CyU3PMemCorruptionCheck os fuel s = Inr (Some SUCCESS, s)
    \<and> CyU3PMemCorruptionCheck os fuel (s\<lparr>ram := st32 (ram s) (b + (sz - 4)) v\<rparr>) =
        Inr (Some ERROR_FAILURE, s\<lparr>ram := st32 (ram s) (b + (sz - 4)) v\<rparr>)"
proof
  let ?bs = "xs @ (b, sz) # ys" and ?m = "st32 (ram s) (b + (sz - 4)) v"
  let ?walk = "\<lambda>k m. dbg_walk os k CY_U3P_MEM_HEAP_BASE CY_U3P_BUFFER_HEAP_BASE m"
  have head: "glMemInUseList s = hd_addr ?bs 0" and ch: "chain os (ram s) 0 ?bs 0"
    and sep: "separate ?bs" using live by (simp_all add: live_blocks_def)
  obtain k where k: "fuel = length ?bs + Suc k" using fuel by (metis less_imp_Suc_add add_Suc_right)
  have "?walk fuel (ram s) (hd_addr ?bs 0) = Some (SUCCESS, None)"
    using dbg_walk_chain [OF ch range, of "Suc k"] by (simp only: k) simp
  then show "CyU3PMemCorruptionCheck os fuel s = Inr (Some SUCCESS, s)"
    by (simp add: CyU3PMemCorruptionCheck_def act_defs head)
  have sz: "24 \<le> unat sz" "b \<noteq> 0" and old: "ld32 (ram s) (b + off_alloc_size os) = sz"
    using ch by (simp_all add: block_ok_def)
  have newer: "chain os ?m 0 xs b"
    using ch sep unat_footer [OF sz(1)] sz
    by (intro chain_store [OF ok, of _ _ _ _ _ sz]) (auto simp: separate_append intro: apart_sym)
  have bad: "dbg_corrupt os ?m b"
    using v old by (simp add: dbg_corrupt_def footer_apart(2) [OF ok sz(1)] add_diff_eq [symmetric])
  have "?walk (length xs + Suc (length ys + Suc k)) ?m (hd_addr xs b) = ?walk (Suc (length ys + Suc k)) ?m b"
    by (rule dbg_walk_chain [OF newer]) (use range in auto)
  moreover have "?walk (Suc (length ys + Suc k)) ?m b = Some (ERROR_FAILURE, Some b)"
    using bad sz(2) range by (simp add: not_less not_le)
  moreover have "fuel = length xs + Suc (length ys + Suc k)" by (simp add: k)
  ultimately have "?walk fuel ?m (hd_addr xs b) = Some (ERROR_FAILURE, Some b)"
    by (simp only:)
  then show "CyU3PMemCorruptionCheck os fuel (s\<lparr>ram := ?m\<rparr>) = Inr (Some ERROR_FAILURE, s\<lparr>ram := ?m\<rparr>)"
    by (simp add: CyU3PMemCorruptionCheck_def act_defs head cb)
qed

theorem MemCorruptionCheck_finds_overrun_witness:
  "CyU3PMemCorruptionCheck demo_os 2 demo_live = Inr (Some SUCCESS, demo_live)
   \<and> CyU3PMemCorruptionCheck demo_os 2 (demo_live\<lparr>ram := st32 (ram demo_live) 0x40038120 0\<rparr>) =
       Inr (Some ERROR_FAILURE, demo_live\<lparr>ram := st32 (ram demo_live) 0x40038120 0\<rparr>)"
  using MemCorruptionCheck_finds_overrun [OF demo_mbi, of demo_live "[]" "0x40038100" 36 "[]" 2 0] demo_live_blocks
  by (simp add: heap_consts CY_U3P_MEM_END_SIG_def) (simp add: demo_live_def demo_heap_def)

end
