(* ===== verification/Fx3_DmaBuf.thy ===== *)
theory Fx3_DmaBuf
  imports Fx3_Bitmap Fx3_Heap
begin

text \<open>
  The DMA buffer allocator of the FX3 support code (cyfx_tx.c): cache-line aligned buffers from a
  reserved area, tracked by the status bitmap.  A block of \<open>n\<close> lines sets the bits of all its lines
  but the last, so that the end of a block can be found when it is freed, and the search asks for one
  free line more.  The locale \<open>block_pool\<close> states what the rest of the firmware relies on; the
  bitmap implements it.
\<close>

section \<open>Lines: allocation and release in the bitmap\<close>

text \<open>The status array of a heap of \<open>lns\<close> cache lines, as \<^verbatim>\<open>CyU3PDmaBufferInit\<close> fills it.\<close>

definition init_status :: "u32 \<Rightarrow> u32 list" where
  "init_status lns =
     (let n = unat (ROUND_UP lns 32) div 32;
          st = replicate n 0
      in if lns AND 31 \<noteq> 0 then
           let tmp = 32 - (lns AND 31) in st[n - 1 := NOT (push_bit (unat tmp) 1 - 1)]
         else st)"

text \<open>
  The search and the marking of \<^verbatim>\<open>CyU3PDmaBufferAlloc\<close> for \<open>sz\<close> lines: the first line of the
  block if one was found, the new bitmap and the new search position.
\<close>

definition alloc_lines :: "u32 list \<Rightarrow> nat \<Rightarrow> nat \<Rightarrow> c_error + nat option \<times> u32 list \<times> nat" where
  "alloc_lines st searchPos sz =
     (let need = (sz + 1) mod 65536 in
      case buf_search st need searchPos of
        None \<Rightarrow> Inl NoReturn
      | Some (Inl e) \<Rightarrow> Inl e
      | Some (Inr (cnt, start, found)) \<Rightarrow>
          let pos = (case found of Some w \<Rightarrow> w | None \<Rightarrow> searchPos) in
          if cnt = need then
            case CyU3PDmaBufMgrSetStatus st start (sz - 1) True of
              None \<Rightarrow> Inl OutOfBounds
            | Some st' \<Rightarrow> Inr (Some start, st', pos)
          else Inr (None, st, pos))"

text \<open>The counting and clearing of \<^verbatim>\<open>CyU3PDmaBufferFree\<close>.\<close>

definition free_lines :: "u32 list \<Rightarrow> nat \<Rightarrow> c_error + u32 list" where
  "free_lines st start =
     (case count_ones st start of
        None \<Rightarrow> Inl NoReturn
      | Some cnt \<Rightarrow>
          (case CyU3PDmaBufMgrSetStatus st start cnt False of
             None \<Rightarrow> Inl OutOfBounds
           | Some st' \<Rightarrow> Inr st'))"

section \<open>The contract of a block pool\<close>

datatype pool_op = PAlloc nat | PFree nat

text \<open>A client's run: allocations, and releases of the \<open>i\<close>-th of its live blocks.\<close>

fun pool_run :: "('p \<Rightarrow> nat \<Rightarrow> c_error + nat option \<times> 'p) \<Rightarrow> ('p \<Rightarrow> nat \<Rightarrow> c_error + 'p) \<Rightarrow>
    pool_op list \<Rightarrow> 'p \<Rightarrow> (nat \<times> nat) list \<Rightarrow> c_error + 'p \<times> (nat \<times> nat) list" where
  "pool_run alloc free [] P live = Inr (P, live)"
| "pool_run alloc free (PAlloc n # ops) P live =
     (case alloc P n of
        Inl e \<Rightarrow> Inl e
      | Inr (None, P') \<Rightarrow> pool_run alloc free ops P' live
      | Inr (Some p, P') \<Rightarrow> pool_run alloc free ops P' ((p, n) # live))"
| "pool_run alloc free (PFree i # ops) P live =
     (if i < length live then
        case free P (fst (live ! i)) of
          Inl e \<Rightarrow> Inl e
        | Inr P' \<Rightarrow> pool_run alloc free ops P' (take i live @ drop (Suc i) live)
      else pool_run alloc free ops P live)"

definition disjoint_blocks :: "(nat \<times> nat) list \<Rightarrow> bool" where
  "disjoint_blocks live \<longleftrightarrow> (\<forall>i < length live. \<forall>j < length live. i \<noteq> j \<longrightarrow>
     fst (live ! i) + snd (live ! i) \<le> fst (live ! j) \<or> fst (live ! j) + snd (live ! j) \<le> fst (live ! i))"

locale block_pool =
  fixes alloc :: "'p \<Rightarrow> nat \<Rightarrow> c_error + nat option \<times> 'p"
    and free :: "'p \<Rightarrow> nat \<Rightarrow> c_error + 'p"
    and inv :: "'p \<Rightarrow> (nat \<times> nat) set \<Rightarrow> bool"
    and ok_size :: "nat \<Rightarrow> bool"
  assumes alloc_law: "inv P B \<Longrightarrow> ok_size n \<Longrightarrow> \<exists>r P'. alloc P n = Inr (r, P')
      \<and> (case r of None \<Rightarrow> inv P' B | Some p \<Rightarrow> (p, n) \<notin> B \<and> inv P' (insert (p, n) B))"
    and free_law: "inv P B \<Longrightarrow> (p, n) \<in> B \<Longrightarrow> \<exists>P'. free P p = Inr P' \<and> inv P' (B - {(p, n)})"
    and blocks_law: "inv P B \<Longrightarrow> (p, n) \<in> B \<Longrightarrow> (q, k) \<in> B \<Longrightarrow> (p, n) \<noteq> (q, k) \<Longrightarrow> p + n \<le> q \<or> q + k \<le> p"
begin

definition legal :: "pool_op list \<Rightarrow> bool" where
  "legal ops \<longleftrightarrow> (\<forall>n. PAlloc n \<in> set ops \<longrightarrow> ok_size n)"

lemma run_keeps:
  assumes "inv P (set live)" "distinct live" "legal ops"
  shows "\<exists>P' live'. pool_run alloc free ops P live = Inr (P', live') \<and> inv P' (set live') \<and> distinct live'"
  using assms
proof (induction ops arbitrary: P live)
  case Nil
  then show ?case by simp
next
  case (Cons op ops)
  have ops: "legal ops" using Cons.prems(3) by (simp add: legal_def)
  show ?case
  proof (cases op)
    case (PAlloc n)
    then have "ok_size n" using Cons.prems(3) by (simp add: legal_def)
    from alloc_law [OF Cons.prems(1) this] obtain r P' where r: "alloc P n = Inr (r, P')"
      "case r of None \<Rightarrow> inv P' (set live) | Some p \<Rightarrow> (p, n) \<notin> set live \<and> inv P' (insert (p, n) (set live))"
      by blast
    then show ?thesis
      using Cons.IH [of P' live] Cons.IH [of P' "(_, n) # live"] Cons.prems(2) ops
      by (cases r) (simp_all add: PAlloc)
  next
    case (PFree i)
    show ?thesis
    proof (cases "i < length live")
      case True
      obtain p n where pn: "live ! i = (p, n)" by (cases "live ! i")
      then have "(p, n) \<in> set live" using True by (metis nth_mem)
      from free_law [OF Cons.prems(1) this] obtain P' where P': "free P p = Inr P'" "inv P' (set live - {(p, n)})"
        by blast
      obtain xs ys where l: "live = xs @ (p, n) # ys" "length xs = i"
        using True pn by (metis id_take_nth_drop length_take min.absorb4)
      have d: "distinct (xs @ ys)" "set (xs @ ys) = set live - {(p, n)}"
        using Cons.prems(2) by (auto simp: l(1))
      have eq: "take i live @ drop (Suc i) live = xs @ ys"
        by (simp add: l(1) l(2) [symmetric])
      show ?thesis
        using Cons.IH [of P' "xs @ ys"] P' d ops True pn eq by (simp add: PFree)
    next
      case False
      then show ?thesis using Cons PFree ops by simp
    qed
  qed
qed

lemma run_disjoint:
  assumes "inv P {}" "legal ops"
  shows "\<exists>P' live'. pool_run alloc free ops P [] = Inr (P', live') \<and> inv P' (set live') \<and> disjoint_blocks live'"
proof -
  obtain P' live' where r: "pool_run alloc free ops P [] = Inr (P', live')" "inv P' (set live')" "distinct live'"
    using run_keeps [of P "[]" ops] assms by auto
  have "disjoint_blocks live'"
    unfolding disjoint_blocks_def
  proof (intro allI impI)
    fix i j assume "i < length live'" "j < length live'" "i \<noteq> j"
    then have "live' ! i \<noteq> live' ! j" "live' ! i \<in> set live'" "live' ! j \<in> set live'"
      using r(3) by (simp_all add: nth_eq_iff_index_eq)
    then show "fst (live' ! i) + snd (live' ! i) \<le> fst (live' ! j) \<or> fst (live' ! j) + snd (live' ! j) \<le> fst (live' ! i)"
      using blocks_law [OF r(2)] by (metis prod.collapse)
  qed
  with r show ?thesis by blast
qed

end

section \<open>The bitmap meets the contract\<close>

text \<open>
  The bitmap tracks a set of blocks (first line, number of lines): they lie inside the heap, do not
  overlap, and the set bits are exactly the lines of the blocks without their last lines.
\<close>

definition lines_inv :: "u32 list \<Rightarrow> (nat \<times> nat) set \<Rightarrow> bool" where
  "lines_inv st B \<longleftrightarrow>
     (\<forall>(p, n) \<in> B. 2 \<le> n \<and> 1 \<le> p \<and> p + n \<le> 32 * length st)
   \<and> (\<forall>(p, n) \<in> B. \<forall>(q, k) \<in> B. (p, n) = (q, k) \<or> p + n \<le> q \<or> q + k \<le> p)
   \<and> (\<forall>i < 32 * length st. used_bit st i \<longleftrightarrow> (\<exists>(p, n) \<in> B. p \<le> i \<and> i < p + n - 1))"

lemma lines_invD:
  assumes "lines_inv st B" "(p, n) \<in> B"
  shows "2 \<le> n" "1 \<le> p" "p + n \<le> 32 * length st"
    "(q, k) \<in> B \<Longrightarrow> (p, n) \<noteq> (q, k) \<Longrightarrow> p + n \<le> q \<or> q + k \<le> p"
    "p \<le> i \<Longrightarrow> i < p + n - 1 \<Longrightarrow> used_bit st i"
  using assms unfolding lines_inv_def by fastforce+

lemma lines_inv_used: "lines_inv st B \<Longrightarrow> i < 32 * length st \<Longrightarrow> used_bit st i \<Longrightarrow> \<exists>(p, n) \<in> B. p \<le> i \<and> i < p + n - 1"
  unfolding lines_inv_def by blast

lemma lines_inv_iff:
  assumes "lines_inv st B" "i < 32 * length st"
  shows "used_bit st i \<longleftrightarrow> (\<exists>(p, n) \<in> B. p \<le> i \<and> i < p + n - 1)"
proof -
  have "\<forall>i < 32 * length st. used_bit st i \<longleftrightarrow> (\<exists>(p, n) \<in> B. p \<le> i \<and> i < p + n - 1)"
    using assms(1) unfolding lines_inv_def by (elim conjE)
  then show ?thesis using assms(2) by (elim allE impE)
qed

lemma free_run_disjoint:
  assumes inv: "lines_inv st B" "(a, n) \<in> B"
    and run: "free_run (used_bit st) q (sz + 1)" and sz: "2 \<le> sz"
  shows "q + 1 + sz \<le> a \<or> a + n \<le> q + 1"
proof (rule ccontr)
  assume *: "\<not> (q + 1 + sz \<le> a \<or> a + n \<le> q + 1)"
  note B = lines_invD [OF inv]
  show False
  proof (cases "q \<le> a")
    case True
    have "used_bit st a" using B(1) by (intro B(5)) simp_all
    moreover have "\<not> used_bit st a" using run True * by (simp add: free_run_def)
    ultimately show False by simp
  next
    case False
    have "used_bit st q" using False * by (intro B(5)) simp_all
    moreover have "\<not> used_bit st q" using run by (simp add: free_run_def)
    ultimately show False by simp
  qed
qed

lemma lines_inv_insert:
  assumes inv: "lines_inv st B" and run: "free_run (used_bit st) q (sz + 1)" "q + (sz + 1) \<le> 32 * length st"
    and sz: "2 \<le> sz" and len: "length st' = length st"
    and bits: "\<forall>i. used_bit st' i = (if q + 1 \<le> i \<and> i < q + 1 + (sz - 1) then True else used_bit st i)"
  shows "(q + 1, sz) \<notin> B \<and> lines_inv st' (insert (q + 1, sz) B)"
proof
  note dis = free_run_disjoint [OF inv _ run(1) sz]
  show "(q + 1, sz) \<notin> B" using dis [of "q + 1" sz] sz by auto
  have ranges: "\<forall>(p, n) \<in> insert (q + 1, sz) B. 2 \<le> n \<and> 1 \<le> p \<and> p + n \<le> 32 * length st'"
    using inv sz run(2) len by (auto simp: lines_inv_def)
  have pairs: "(p, n) = (a, k) \<or> p + n \<le> a \<or> a + k \<le> p"
    if "(p, n) \<in> insert (q + 1, sz) B" "(a, k) \<in> insert (q + 1, sz) B" for p n a k
    using that dis [of p n] dis [of a k] lines_invD(4) [OF inv, of p n a k] by auto
  have used: "used_bit st' i \<longleftrightarrow> (\<exists>(p, n) \<in> insert (q + 1, sz) B. p \<le> i \<and> i < p + n - 1)"
    if "i < 32 * length st'" for i
    using inv that len sz bits by (simp add: lines_inv_def) blast
  show "lines_inv st' (insert (q + 1, sz) B)"
    unfolding lines_inv_def using ranges pairs used by blast
qed

lemma alloc_lines_spec:
  assumes inv: "lines_inv st B" and pos: "pos < length st" and sz: "2 \<le> sz" "sz < 65535"
  shows "\<exists>r st' pos'. alloc_lines st pos sz = Inr (r, st', pos') \<and> length st' = length st \<and> pos' < length st' \<and>
    (case r of
       Some p \<Rightarrow> (p, sz) \<notin> B \<and> lines_inv st' (insert (p, sz) B)
     | None \<Rightarrow> st' = st \<and> (\<forall>q. q + (sz + 1) \<le> 32 * length st \<and> free_run (used_bit st) q (sz + 1) \<longrightarrow>
         q < 32 * pos \<and> 32 * pos < q + (sz + 1)))"
proof -
  have need: "(sz + 1) mod 65536 = sz + 1" using sz by simp
  obtain c s x where r: "buf_search st (sz + 1) pos = Some (Inr (c, s, x))"
    and x: "case x of
       Some y \<Rightarrow> c = sz + 1 \<and> y < length st \<and>
         (\<exists>q. s = q + 1 \<and> q + (sz + 1) \<le> 32 * length st \<and> free_run (used_bit st) q (sz + 1))
     | None \<Rightarrow> c < sz + 1 \<and> (\<forall>q. q + (sz + 1) \<le> 32 * length st \<and> free_run (used_bit st) q (sz + 1) \<longrightarrow>
         q < 32 * pos \<and> 32 * pos < q + (sz + 1))"
    using buf_search_spec [OF pos, of "sz + 1"] by auto
  show ?thesis
  proof (cases x)
    case None
    then have "alloc_lines st pos sz = Inr (None, st, pos)"
      using x unfolding alloc_lines_def need Let_def r by simp
    then show ?thesis using x None pos by simp
  next
    case (Some y)
    with x obtain q where q: "c = sz + 1" "y < length st" "s = q + 1" "q + (sz + 1) \<le> 32 * length st"
      "free_run (used_bit st) q (sz + 1)" by auto
    obtain st' where st': "CyU3PDmaBufMgrSetStatus st (q + 1) (sz - 1) True = Some st'" "length st' = length st"
      "\<forall>i. used_bit st' i = (if q + 1 \<le> i \<and> i < q + 1 + (sz - 1) then True else used_bit st i)"
    proof -
      have "q + 1 + (sz - 1) \<le> 32 * length st" using q(4) by linarith
      from set_status_bits [OF this, of True] show ?thesis using that by blast
    qed
    have "(q + 1, sz) \<notin> B \<and> lines_inv st' (insert (q + 1, sz) B)"
      by (rule lines_inv_insert [OF inv q(5,4) sz(1) st'(2,3)])
    moreover have "alloc_lines st pos sz = Inr (Some (q + 1), st', y)"
      using st' q Some unfolding alloc_lines_def need Let_def r by simp
    ultimately show ?thesis using st'(2) q(2) by simp
  qed
qed

lemma free_lines_spec:
  assumes inv: "lines_inv st B" and p: "(p, n) \<in> B"
  shows "\<exists>st'. free_lines st p = Inr st' \<and> length st' = length st \<and> lines_inv st' (B - {(p, n)})
    \<and> (\<forall>i. used_bit st' i = (if p \<le> i \<and> i < p + (n - 1) then False else used_bit st i))"
proof -
  note B = lines_invD [OF inv p]
  have not_last: "\<not> used_bit st (p + (n - 1))"
  proof
    assume "used_bit st (p + (n - 1))"
    moreover have "p + (n - 1) < 32 * length st" using B by linarith
    ultimately obtain q k where q: "(q, k) \<in> B" "q \<le> p + (n - 1)" "p + (n - 1) < q + k - 1"
      using lines_inv_used [OF inv] by blast
    show False
    proof (cases "(p, n) = (q, k)")
      case True
      with q(2,3) show False by simp
    next
      case False
      with B(4) [OF q(1)] q(2,3) B(1) show False by linarith
    qed
  qed
  have "count_ones st p = Some (n - 1)"
    using B not_last by (intro count_ones_eq) auto
  moreover obtain st' where st': "CyU3PDmaBufMgrSetStatus st p (n - 1) False = Some st'" "length st' = length st"
    "\<forall>i. used_bit st' i = (if p \<le> i \<and> i < p + (n - 1) then False else used_bit st i)"
  proof -
    have "p + (n - 1) \<le> 32 * length st" using B(3) by linarith
    from set_status_bits [OF this, of False] show ?thesis using that by blast
  qed
  moreover have "lines_inv st' (B - {(p, n)})"
  proof -
    have used: "used_bit st' i \<longleftrightarrow> (\<exists>(q, k) \<in> B - {(p, n)}. q \<le> i \<and> i < q + k - 1)"
      if i: "i < 32 * length st" for i
    proof (cases "p \<le> i \<and> i < p + (n - 1)")
      case True
      have "\<not> (q \<le> i \<and> i < q + k - 1)" if "(q, k) \<in> B" "(p, n) \<noteq> (q, k)" for q k
        using B(4) [OF that] True by linarith
      moreover have "\<not> used_bit st' i" using st'(3) True by simp
      ultimately show ?thesis by auto
    next
      case False
      then have "used_bit st' i = used_bit st i" using st'(3) by auto
      also have "\<dots> \<longleftrightarrow> (\<exists>(q, k) \<in> B. q \<le> i \<and> i < q + k - 1)"
        by (rule lines_inv_iff [OF inv i])
      also have "\<dots> \<longleftrightarrow> (\<exists>(q, k) \<in> B - {(p, n)}. q \<le> i \<and> i < q + k - 1)"
        using False B(1) by auto
      finally show ?thesis .
    qed
    show ?thesis
      unfolding lines_inv_def using inv used st'(2) by (auto simp: lines_inv_def)
  qed
  ultimately show ?thesis by (simp add: free_lines_def)
qed

text \<open>The pool: bitmap and search position; a release restarts the search at the first word.\<close>

definition dma_pool_alloc :: "u32 list \<times> nat \<Rightarrow> nat \<Rightarrow> c_error + nat option \<times> u32 list \<times> nat" where
  "dma_pool_alloc P sz = (case P of (st, pos) \<Rightarrow> alloc_lines st pos sz)"

definition dma_pool_free :: "u32 list \<times> nat \<Rightarrow> nat \<Rightarrow> c_error + u32 list \<times> nat" where
  "dma_pool_free P p =
     (case P of (st, pos) \<Rightarrow> case free_lines st p of Inl e \<Rightarrow> Inl e | Inr st' \<Rightarrow> Inr (st', 0))"

definition dma_pool_inv :: "u32 list \<times> nat \<Rightarrow> (nat \<times> nat) set \<Rightarrow> bool" where
  "dma_pool_inv P B \<longleftrightarrow> lines_inv (fst P) B \<and> snd P < length (fst P)"

definition dma_ok_size :: "nat \<Rightarrow> bool" where
  "dma_ok_size n \<longleftrightarrow> 2 \<le> n \<and> n < 65535"

interpretation dma: block_pool dma_pool_alloc dma_pool_free dma_pool_inv dma_ok_size
proof
  fix P B n
  assume "dma_pool_inv P B" "dma_ok_size n"
  then show "\<exists>r P'. dma_pool_alloc P n = Inr (r, P')
      \<and> (case r of None \<Rightarrow> dma_pool_inv P' B | Some p \<Rightarrow> (p, n) \<notin> B \<and> dma_pool_inv P' (insert (p, n) B))"
    using alloc_lines_spec [of "fst P" B "snd P" n]
    by (cases P) (fastforce simp: dma_pool_inv_def dma_ok_size_def dma_pool_alloc_def split: option.splits)
next
  fix P B p n
  assume "dma_pool_inv P B" "(p, n) \<in> B"
  then show "\<exists>P'. dma_pool_free P p = Inr P' \<and> dma_pool_inv P' (B - {(p, n)})"
    using free_lines_spec [of "fst P" B p n]
    by (cases P) (auto simp: dma_pool_inv_def dma_pool_free_def)
next
  fix P B p n q k
  assume "dma_pool_inv P B" "(p, n) \<in> B" "(q, k) \<in> B" "(p, n) \<noteq> (q, k)"
  then show "p + n \<le> q \<or> q + k \<le> p"
    using lines_invD(4) [of "fst P" B p n q k] by (simp add: dma_pool_inv_def)
qed

section \<open>Operations of the buffer manager\<close>

definition FX3_CACHE_LINE_SZ :: u32 where "FX3_CACHE_LINE_SZ = 32"
definition CY_U3P_BUFFER_ALLOC_TIMEOUT :: nat where "CY_U3P_BUFFER_ALLOC_TIMEOUT = 10"

definition CyU3PBufEnableChecks :: "bool \<Rightarrow> u32 \<Rightarrow> ('o fx3_sys, fx3_status) act" where
  "CyU3PBufEnableChecks enable cb =
     act_bind (act_gets bm_usedStatus) (\<lambda>p.
     if p = 0 then
       act_bind (act_modify (\<lambda>s. s\<lparr>glBufMgrEnableChecks := enable, glBufBadCb := cb\<rparr>)) (\<lambda>_.
       act_return SUCCESS)
     else act_return ERROR_ALREADY_STARTED)"

text \<open>
  The status array is the heap object \<^verbatim>\<open>usedStatus\<close> points to; its words are \<open>bm_status\<close>, whose
  length is \<^verbatim>\<open>statusSize\<close>.
\<close>

definition CyU3PDmaBufferInit :: "'o fx3_os \<Rightarrow> ('o fx3_sys, unit) act" where
  "CyU3PDmaBufferInit os =
     act_bind (act_gets (\<lambda>s. bm_startAddr s \<noteq> 0 \<and> bm_regionSize s \<noteq> 0)) (\<lambda>started.
     if started then act_return ()
     else act_bind (in_os (os_MutexCreate os)) (\<lambda>created.
     if \<not> created then act_return ()
     else
       let lns = CY_U3P_BUFFER_HEAP_SIZE div FX3_CACHE_LINE_SZ;
           n = ROUND_UP lns 32 div 32
       in
       act_bind (CyU3PMemAlloc os (n * 4)) (\<lambda>p.
       act_bind (act_modify (\<lambda>s. s\<lparr>bm_usedStatus := p\<rparr>)) (\<lambda>_.
       if p = 0 then in_os (os_MutexDestroy os)
       else
         act_modify (\<lambda>s. s\<lparr>ram := CyU3PMemSet (ram s) p 0 (n * 4), bm_status := init_status lns,
           bm_startAddr := CY_U3P_BUFFER_HEAP_BASE, bm_regionSize := CY_U3P_BUFFER_HEAP_SIZE,
           bm_searchPos := 0\<rparr>)))))"

definition os_lock :: "'o fx3_os \<Rightarrow> os_wait \<Rightarrow> ('o fx3_sys, bool) act" where
  "os_lock os wait =
     act_bind (in_os (os_ThreadIdentify os)) (\<lambda>thread.
     in_os (os_MutexGet os (if thread then wait else NO_WAIT)))"

definition CyU3PDmaBufferDeInit :: "'o fx3_os \<Rightarrow> ('o fx3_sys, unit) act" where
  "CyU3PDmaBufferDeInit os =
     act_bind (os_lock os WAIT_FOREVER) (\<lambda>locked.
     if \<not> locked then act_return ()
     else
       act_bind (act_gets bm_usedStatus) (\<lambda>p.
       act_bind (CyU3PMemFree os p) (\<lambda>_.
       act_bind (act_modify (\<lambda>s. s\<lparr>bm_usedStatus := 0, bm_status := [], bm_startAddr := 0,
         bm_regionSize := 0, glBufAllocCnt := 0, glBufFreeCnt := 0, glBufInUseList := 0\<rparr>)) (\<lambda>_.
       act_bind (in_os (os_MutexPut os)) (\<lambda>_.
       in_os (os_MutexDestroy os))))))"

text \<open>The number of cache lines for a request, computed in 32 bits and stored in 16.\<close>

definition request_lines :: "u32 \<Rightarrow> u16" where
  "request_lines blk_size =
     (if blk_size \<le> FX3_CACHE_LINE_SZ then 2
      else ucast ((blk_size + FX3_CACHE_LINE_SZ - 1) div FX3_CACHE_LINE_SZ))"

definition CyU3PDmaBufferAlloc :: "'o fx3_os \<Rightarrow> u16 \<Rightarrow> ('o fx3_sys, u32) act" where
  "CyU3PDmaBufferAlloc os n =
     act_bind (os_lock os (WAIT_TICKS CY_U3P_BUFFER_ALLOC_TIMEOUT)) (\<lambda>locked.
     if \<not> locked then act_return 0
     else act_bind (act_gets (\<lambda>s. bm_startAddr s = 0 \<or> bm_regionSize s = 0)) (\<lambda>down.
     if down then act_bind (in_os (os_MutexPut os)) (\<lambda>_. act_return 0)
     else act_bind (act_gets glBufMgrEnableChecks) (\<lambda>checks.
       let blk_size = (if checks then ROUND_UP (ucast n) 4 + (20 + 4) else ucast n);
           sz = request_lines blk_size
       in
       act_bind (act_gets (\<lambda>s. alloc_lines (bm_status s) (bm_searchPos s) (unat sz))) (\<lambda>r.
       case r of
         Inl e \<Rightarrow> act_fail e
       | Inr (found, st, pos) \<Rightarrow>
           act_bind (act_modify (\<lambda>s. s\<lparr>bm_status := st, bm_searchPos := pos\<rparr>)) (\<lambda>_.
           act_bind (case found of
               None \<Rightarrow> act_return 0
             | Some start \<Rightarrow>
                 act_bind (act_gets (\<lambda>s. bm_startAddr s + push_bit 5 (of_nat start))) (\<lambda>block_p.
                 if checks then
                   act_bind (act_modify (\<lambda>s. s\<lparr>
                     ram := dbg_link os block_p (glBufAllocCnt s) blk_size (glBufInUseList s) (ram s),
                     glBufAllocCnt := glBufAllocCnt s + 1, glBufInUseList := block_p\<rparr>)) (\<lambda>_.
                   act_return (block_p + 20))
                 else act_return block_p)) (\<lambda>p.
           act_bind (in_os (os_MutexPut os)) (\<lambda>_. act_return p)))))))"

definition CyU3PDmaBufferFree :: "'o fx3_os \<Rightarrow> u32 \<Rightarrow> ('o fx3_sys, int) act" where
  "CyU3PDmaBufferFree os buffer =
     (if buffer < CY_U3P_BUFFER_HEAP_BASE then act_return (- 1)
      else act_bind (os_lock os (WAIT_TICKS CY_U3P_BUFFER_ALLOC_TIMEOUT)) (\<lambda>locked.
      if \<not> locked then act_return (- 1)
      else act_bind (act_gets glBufMgrEnableChecks) (\<lambda>checks.
        let block_p = (if checks then buffer - 20 else buffer) in
        act_bind (if checks then
            act_bind (act_gets (\<lambda>s. dbg_corrupt os (ram s) block_p \<and> glBufBadCb s \<noteq> 0)) (\<lambda>bad.
            act_bind (if bad then act_bind (act_gets glBufBadCb) (\<lambda>cb. in_os (os_BadCb os cb buffer))
                      else act_return ()) (\<lambda>_.
            act_bind (act_modify (\<lambda>s. s\<lparr>glBufFreeCnt := glBufFreeCnt s + 1\<rparr>)) (\<lambda>_.
            act_modify (\<lambda>s. case dbg_unlink os block_p (glBufInUseList s) (ram s) of
                (m, head) \<Rightarrow> s\<lparr>ram := m, glBufInUseList := head\<rparr>))))
          else act_return ()) (\<lambda>_.
        act_bind (act_gets (\<lambda>s. bm_startAddr s < block_p \<and> block_p < bm_startAddr s + bm_regionSize s)) (\<lambda>inside.
        act_bind (if inside then
            act_bind (act_gets (\<lambda>s. free_lines (bm_status s) (unat (drop_bit 5 (block_p - bm_startAddr s))))) (\<lambda>r.
            case r of
              Inl e \<Rightarrow> act_fail e
            | Inr st \<Rightarrow>
                act_bind (act_modify (\<lambda>s. s\<lparr>bm_status := st, bm_searchPos := 0\<rparr>)) (\<lambda>_. act_return 0))
          else act_return (- 1)) (\<lambda>ret.
        act_bind (in_os (os_MutexPut os)) (\<lambda>_. act_return ret)))))))"

definition CyU3PFreeHeaps :: "'o fx3_os \<Rightarrow> ('o fx3_sys, unit) act" where
  "CyU3PFreeHeaps os =
     act_bind (CyU3PDmaBufferDeInit os) (\<lambda>_.
     act_bind (in_os (os_BytePoolDestroy os)) (\<lambda>_.
     act_modify (\<lambda>s. s\<lparr>glMemPoolInit := False, glMemAllocCnt := 0, glMemFreeCnt := 0, glMemInUseList := 0\<rparr>)))"

definition CyU3PBufGetCounts :: "('o fx3_sys, u32 \<times> u32) act" where
  "CyU3PBufGetCounts = act_gets (\<lambda>s. (glBufAllocCnt s, glBufFreeCnt s))"

definition CyU3PBufGetActiveList :: "('o fx3_sys, u32) act" where
  "CyU3PBufGetActiveList = act_gets glBufInUseList"

definition CyU3PBufCorruptionCheck :: "'o fx3_os \<Rightarrow> nat \<Rightarrow> ('o fx3_sys, fx3_status option) act" where
  "CyU3PBufCorruptionCheck os fuel =
     act_bind (act_gets (\<lambda>s. dbg_walk os fuel CY_U3P_BUFFER_HEAP_BASE CY_U3P_SYS_MEM_TOP (ram s) (glBufInUseList s))) (\<lambda>r.
     act_bind (act_gets glBufBadCb) (\<lambda>cb.
     case r of
       None \<Rightarrow> act_return None
     | Some (stat, None) \<Rightarrow> act_return (Some stat)
     | Some (stat, Some block_p) \<Rightarrow>
         act_bind (if cb \<noteq> 0 then in_os (os_BadCb os cb (block_p + 20)) else act_return ()) (\<lambda>_.
         act_return (Some stat))))"

end
