(* ===== verification/Fx3_DmaProps.thy ===== *)
theory Fx3_DmaProps
  imports Fx3_DmaBuf
begin

text \<open>
  What the DMA buffer allocator of cyfx_tx.c guarantees: buffers are aligned, inside the reserved area
  and disjoint, over every sequence of calls; a release undoes an allocation; what happens when the
  lock is refused or the manager is down.  The client contract is the locale \<open>block_pool\<close>,
  here for the C entry points themselves, in byte addresses.
\<close>

section \<open>The state of the manager\<close>

text \<open>The RTOS grants the lock: its mutex calls return, and taking the mutex succeeds.\<close>

definition os_locks :: "'o fx3_os \<Rightarrow> bool" where
  "os_locks os \<longleftrightarrow> (\<forall>w. \<exists>t w'. os_ThreadIdentify os w = Inr (t, w'))
     \<and> (\<forall>wait w. \<exists>w'. os_MutexGet os wait w = Inr (True, w'))
     \<and> (\<forall>w. \<exists>w'. os_MutexPut os w = Inr ((), w'))"

definition dma_started :: "'o fx3_sys \<Rightarrow> (nat \<times> nat) set \<Rightarrow> bool" where
  "dma_started s B \<longleftrightarrow> bm_startAddr s = CY_U3P_BUFFER_HEAP_BASE \<and> bm_regionSize s = CY_U3P_BUFFER_HEAP_SIZE
     \<and> length (bm_status s) = 224 \<and> bm_searchPos s < 224 \<and> lines_inv (bm_status s) B
     \<and> \<not> glBufMgrEnableChecks s"

text \<open>The lines a request takes, as a number.\<close>

definition lines_of :: "nat \<Rightarrow> nat" where
  "lines_of n = (if n \<le> 32 then 2 else (n + 31) div 32)"

lemma request_lines_eq: "unat (request_lines (ucast (n :: u16))) = lines_of (unat n)"
proof -
  have u: "unat (ucast n :: u32) = unat n"
    unfolding unsigned_ucast_eq using unat_u16_bound [of n]
    by (intro take_bit_nat_eq_self) (rule less_trans, assumption, simp)
  have n: "unat n < 65536" by simp
  have le: "(ucast n :: u32) \<le> 32 \<longleftrightarrow> unat n \<le> 32" by (simp add: word_le_nat_alt u)
  have "unat n + 31 < 4294967296" using n by linarith
  then have "unat (ucast n + 31 :: u32) = unat n + 31" by (simp add: word_to_nat u)
  then have "unat ((ucast n + 31 :: u32) div 32) = (unat n + 31) div 32" by (simp add: unat_div)
  moreover have "(unat n + 31) div 32 < 65536" using n by linarith
  ultimately have "unat (ucast ((ucast n + 31 :: u32) div 32) :: u16) = (unat n + 31) div 32"
    by (simp add: unsigned_ucast_eq take_bit_nat_eq_self)
  then show ?thesis by (simp add: request_lines_def lines_of_def FX3_CACHE_LINE_SZ_def le add.commute)
qed

lemma lines_of_bounds: "2 \<le> lines_of n" "n < 65536 \<Longrightarrow> lines_of n < 65535" "n \<le> 32 * lines_of n"
  by (simp_all add: lines_of_def, linarith+)

lemma wp_os_lock:
  assumes "os_locks os" "\<And>w. Q True (s\<lparr>rtos := w\<rparr>)"
  shows "wpx F (os_lock os wait) Q s"
proof -
  obtain t w where 1: "os_ThreadIdentify os (rtos s) = Inr (t, w)" using assms(1) unfolding os_locks_def by blast
  obtain w' where 2: "os_MutexGet os (if t then wait else NO_WAIT) w = Inr (True, w')"
    using assms(1) unfolding os_locks_def by blast
  have "wpx F (os_lock os wait) Q s = Q True (s\<lparr>rtos := w'\<rparr>)"
    unfolding os_lock_def
    by (simp add: wpx_Inr [where m = "os_ThreadIdentify os", OF 1] wpx_Inr [where m = "os_MutexGet os x" for x, OF 2])
  then show ?thesis using assms(2) by simp
qed

lemma wp_os_put:
  assumes "os_locks os" "\<And>w'. Q () w'"
  shows "wpx F (os_MutexPut os) Q w"
proof -
  obtain w' where "os_MutexPut os w = Inr ((), w')" using assms(1) unfolding os_locks_def by blast
  then show ?thesis using assms(2) by (simp add: wpx_def)
qed


section \<open>One call\<close>

lemma lines_inv_line:
  assumes "lines_inv st B" "length st = 224" "(l, k) \<in> B"
  shows "1 \<le> l" "l + k \<le> 7168" "unat (push_bit 5 (of_nat l :: u32)) = 32 * l"
    "unat (CY_U3P_BUFFER_HEAP_BASE + push_bit 5 (of_nat l)) = unat CY_U3P_BUFFER_HEAP_BASE + 32 * l"
proof -
  note d = lines_invD(1-3) [OF assms(1,3)]
  show l: "1 \<le> l" "l + k \<le> 7168" using d assms(2) by simp_all
  then have "l < 7168" using d(1) by linarith
  then show p: "unat (push_bit 5 (of_nat l :: u32)) = 32 * l"
    by (simp add: push_bit_eq_mult unat_word_ariths unat_of_nat)
  show "unat (CY_U3P_BUFFER_HEAP_BASE + push_bit 5 (of_nat l)) = unat CY_U3P_BUFFER_HEAP_BASE + 32 * l"
    using \<open>l < 7168\<close> by (simp add: unat_u32_add p heap_consts)
qed

definition no_run :: "u32 list \<Rightarrow> nat \<Rightarrow> nat \<Rightarrow> bool" where
  "no_run st pos need \<longleftrightarrow> (\<forall>q. q + need \<le> 32 * length st \<and> free_run (used_bit st) q need \<longrightarrow>
     q < 32 * pos \<and> 32 * pos < q + need)"

lemma DmaBufferAlloc_spec:
  assumes os: "os_locks os" and s: "dma_started s B"
  shows "wp (CyU3PDmaBufferAlloc os n) (\<lambda>p s'.
    if p = 0 then dma_started s' B \<and> bm_status s' = bm_status s \<and> no_run (bm_status s) (bm_searchPos s) (lines_of (unat n) + 1)
    else \<exists>l. p = CY_U3P_BUFFER_HEAP_BASE + push_bit 5 (of_nat l) \<and> (l, lines_of (unat n)) \<notin> B
      \<and> dma_started s' (insert (l, lines_of (unat n)) B)) s"
proof -
  let ?sz = "lines_of (unat n)"
  have st: "lines_inv (bm_status s) B" "bm_searchPos s < length (bm_status s)" "length (bm_status s) = 224"
    and base: "bm_startAddr s = CY_U3P_BUFFER_HEAP_BASE" "bm_regionSize s = CY_U3P_BUFFER_HEAP_SIZE"
    and off: "\<not> glBufMgrEnableChecks s"
    using s by (simp_all add: dma_started_def)
  have nz: "\<not> (CY_U3P_BUFFER_HEAP_BASE = 0 \<or> CY_U3P_BUFFER_HEAP_SIZE = 0)" by (simp add: heap_consts)
  obtain r st' pos' where a: "alloc_lines (bm_status s) (bm_searchPos s) ?sz = Inr (r, st', pos')"
      "length st' = length (bm_status s)" "pos' < length st'"
    and r: "case r of Some p \<Rightarrow> (p, ?sz) \<notin> B \<and> lines_inv st' (insert (p, ?sz) B)
       | None \<Rightarrow> st' = bm_status s \<and> no_run (bm_status s) (bm_searchPos s) (?sz + 1)"
    using alloc_lines_spec [OF st(1,2) lines_of_bounds(1) lines_of_bounds(2) [OF unat_u16_bound [of n]]]
    unfolding no_run_def by blast
  show ?thesis
  proof (cases r)
    case None
    then show ?thesis
      unfolding CyU3PDmaBufferAlloc_def using a r s base off nz st
      by (auto intro!: wp_os_lock [OF os] wp_os_put [OF os] simp: request_lines_eq dma_started_def)
  next
    case (Some l)
    have inv: "lines_inv st' (insert (l, ?sz) B)" "(l, ?sz) \<notin> B" using r Some by simp_all
    have "unat (CY_U3P_BUFFER_HEAP_BASE + push_bit 5 (of_nat l)) \<noteq> 0"
      using lines_inv_line [OF inv(1), of l ?sz] a(2) st(3) by (simp add: heap_consts)
    then have "CY_U3P_BUFFER_HEAP_BASE + push_bit 5 (of_nat l) \<noteq> (0 :: u32)" by auto
    then show ?thesis
      unfolding CyU3PDmaBufferAlloc_def using a inv s base off nz st Some
      by (auto intro!: wp_os_lock [OF os] wp_os_put [OF os] simp: request_lines_eq dma_started_def)
  qed
qed

lemma DmaBufferFree_spec:
  assumes os: "os_locks os" and s: "dma_started s B" and l: "(l, k) \<in> B"
  shows "wp (CyU3PDmaBufferFree os (CY_U3P_BUFFER_HEAP_BASE + push_bit 5 (of_nat l)))
    (\<lambda>ret s'. ret = 0 \<and> dma_started s' (B - {(l, k)})) s"
proof -
  let ?p = "CY_U3P_BUFFER_HEAP_BASE + push_bit 5 (of_nat l)"
  have st: "lines_inv (bm_status s) B" "length (bm_status s) = 224"
    and base: "bm_startAddr s = CY_U3P_BUFFER_HEAP_BASE" "bm_regionSize s = CY_U3P_BUFFER_HEAP_SIZE"
    and off: "\<not> glBufMgrEnableChecks s"
    using s by (simp_all add: dma_started_def)
  note line = lines_inv_line [OF st l]
  have k: "2 \<le> k" using lines_invD(1) [OF st(1) l] .
  have ends: "unat CY_U3P_BUFFER_HEAP_BASE = 0x40040000"
    "unat (CY_U3P_BUFFER_HEAP_BASE + CY_U3P_BUFFER_HEAP_SIZE) = 0x40078000"
    by (simp_all add: heap_consts)
  have inside: "\<not> ?p < CY_U3P_BUFFER_HEAP_BASE" "CY_U3P_BUFFER_HEAP_BASE < ?p"
    "?p < CY_U3P_BUFFER_HEAP_BASE + CY_U3P_BUFFER_HEAP_SIZE"
    unfolding word_less_nat_alt line(4) ends using line(1,2) k by simp_all
  have pos: "unat (drop_bit 5 (?p - CY_U3P_BUFFER_HEAP_BASE)) = l"
    using line(3) by (simp add: drop_bit_eq_div unat_div)
  obtain st' where f: "free_lines (bm_status s) l = Inr st'" "length st' = length (bm_status s)"
      "lines_inv st' (B - {(l, k)})"
    using free_lines_spec [OF st(1) l] by blast
  show ?thesis
    unfolding CyU3PDmaBufferFree_def using inside(1) off base inside pos f st
    by (auto intro!: wp_os_lock [OF os] wp_os_put [OF os] simp: Let_def dma_started_def)
qed

section \<open>The contract, in bytes\<close>

text \<open>The C entry points as the operations of a pool: a null result is no block.\<close>

definition bm_alloc :: "'o fx3_os \<Rightarrow> 'o fx3_sys \<Rightarrow> nat \<Rightarrow> c_error + nat option \<times> 'o fx3_sys" where
  "bm_alloc os s n =
     (case CyU3PDmaBufferAlloc os (of_nat n) s of
        Inl e \<Rightarrow> Inl e
      | Inr (p, s') \<Rightarrow> Inr (if p = 0 then None else Some (unat p), s'))"

definition bm_free :: "'o fx3_os \<Rightarrow> 'o fx3_sys \<Rightarrow> nat \<Rightarrow> c_error + 'o fx3_sys" where
  "bm_free os s p = (case CyU3PDmaBufferFree os (of_nat p) s of Inl e \<Rightarrow> Inl e | Inr (r, s') \<Rightarrow> Inr s')"

definition line_block :: "nat \<times> nat \<Rightarrow> nat \<times> nat" where
  "line_block b = ((fst b - 0x40040000) div 32, lines_of (snd b))"

text \<open>Byte blocks are whole lines of the reserved area, each the image of one block of the bitmap.\<close>

definition bm_inv :: "'o fx3_sys \<Rightarrow> (nat \<times> nat) set \<Rightarrow> bool" where
  "bm_inv s B \<longleftrightarrow> dma_started s (line_block ` B) \<and> inj_on line_block B
     \<and> (\<forall>b \<in> B. 0x40040000 < fst b \<and> 32 dvd fst b \<and> fst b + snd b \<le> 0x40078000)"

lemma line_block_addr:
  assumes "lines_inv st L" "length st = 224" "(l, lines_of n) \<in> L"
  defines "a \<equiv> unat (CY_U3P_BUFFER_HEAP_BASE + push_bit 5 (of_nat l) :: u32)"
  shows "line_block (a, n) = (l, lines_of n)" "0x40040000 < a" "32 dvd a" "a + n \<le> 0x40078000"
proof -
  note line = lines_inv_line [OF assms(1-3)]
  have a: "a = 0x40040000 + 32 * l" unfolding a_def line(4) by (simp add: heap_consts)
  show "line_block (a, n) = (l, lines_of n)" "0x40040000 < a"
    using line(1) by (simp_all add: line_block_def a)
  show "32 dvd a" unfolding a by (intro dvd_add) (simp_all add: dvd_def)
  show "a + n \<le> 0x40078000" using line(2) lines_of_bounds(3) [of n] unfolding a by linarith
qed

lemma bm_inv_block:
  assumes "bm_inv s B" "(p, n) \<in> B"
  shows "p = 0x40040000 + 32 * fst (line_block (p, n))" "line_block (p, n) \<in> line_block ` B"
    "of_nat p = CY_U3P_BUFFER_HEAP_BASE + push_bit 5 (of_nat (fst (line_block (p, n))) :: u32)"
proof -
  have p: "0x40040000 < p" "32 dvd p" using assms unfolding bm_inv_def by auto
  then obtain j where j: "p = 32 * j" by (elim dvdE)
  with p show eq: "p = 0x40040000 + 32 * fst (line_block (p, n))" by (simp add: line_block_def)
  show "line_block (p, n) \<in> line_block ` B" using assms(2) by (rule imageI)
  show "of_nat p = CY_U3P_BUFFER_HEAP_BASE + push_bit 5 (of_nat (fst (line_block (p, n))) :: u32)"
    by (subst eq) (simp add: heap_consts push_bit_eq_mult)
qed

lemma bm_pool:
  assumes os: "os_locks os"
  shows "block_pool (bm_alloc os) (bm_free os) bm_inv (\<lambda>n. n < 65536)"
proof
  fix s :: "'a fx3_sys" and B n
  assume s: "bm_inv s B" and n: "n < (65536 :: nat)"
  have n': "unat (of_nat n :: u16) = n" using n by (simp add: unat_of_nat_u16)
  have started: "dma_started s (line_block ` B)" using s by (simp add: bm_inv_def)
  have w: "wp (CyU3PDmaBufferAlloc os (of_nat n)) (\<lambda>p s'.
    if p = 0 then dma_started s' (line_block ` B)
    else \<exists>l. p = CY_U3P_BUFFER_HEAP_BASE + push_bit 5 (of_nat l) \<and> (l, lines_of n) \<notin> line_block ` B
      \<and> dma_started s' (insert (l, lines_of n) (line_block ` B))) s"
    using DmaBufferAlloc_spec [OF os started, of "of_nat n", unfolded n'] by (rule wpx_mono) (auto split: if_splits)
  then obtain p s' where r: "CyU3PDmaBufferAlloc os (of_nat n) s = Inr (p, s')"
    and Q: "if p = 0 then dma_started s' (line_block ` B)
    else \<exists>l. p = CY_U3P_BUFFER_HEAP_BASE + push_bit 5 (of_nat l) \<and> (l, lines_of n) \<notin> line_block ` B
      \<and> dma_started s' (insert (l, lines_of n) (line_block ` B))"
    unfolding wp_iff_Inr by blast
  show "\<exists>r s'. bm_alloc os s n = Inr (r, s')
      \<and> (case r of None \<Rightarrow> bm_inv s' B | Some p \<Rightarrow> (p, n) \<notin> B \<and> bm_inv s' (insert (p, n) B))"
  proof (cases "p = 0")
    case True
    then show ?thesis using r Q s by (simp add: bm_alloc_def bm_inv_def)
  next
    case False
    with Q obtain l where l: "p = CY_U3P_BUFFER_HEAP_BASE + push_bit 5 (of_nat l)"
        "(l, lines_of n) \<notin> line_block ` B" "dma_started s' (insert (l, lines_of n) (line_block ` B))"
      by auto
    have li: "lines_inv (bm_status s') (insert (l, lines_of n) (line_block ` B))" "length (bm_status s') = 224"
      using l(3) by (simp_all add: dma_started_def)
    note a = line_block_addr [OF li insertI1, folded l(1)]
    have fresh: "(unat p, n) \<notin> B" using l(2) a(1) by (metis imageI)
    have "bm_inv s' (insert (unat p, n) B)"
      unfolding bm_inv_def using s l a fresh by (auto simp: bm_inv_def inj_on_insert)
    then show ?thesis using r False fresh by (simp add: bm_alloc_def)
  qed
next
  fix s :: "'a fx3_sys" and B p n
  assume s: "bm_inv s B" and p: "(p, n) \<in> B"
  note b = bm_inv_block [OF s p]
  have "wp (CyU3PDmaBufferFree os (of_nat p)) (\<lambda>ret s'. ret = 0 \<and> dma_started s' (line_block ` B - {line_block (p, n)})) s"
    using DmaBufferFree_spec [OF os, of s "line_block ` B" "fst (line_block (p, n))" "snd (line_block (p, n))"] s b(2)
    by (simp add: b(3) bm_inv_def)
  then obtain s' where f: "CyU3PDmaBufferFree os (of_nat p) s = Inr (0, s')"
      "dma_started s' (line_block ` B - {line_block (p, n)})"
    unfolding wp_iff_Inr by auto
  have "line_block ` B - {line_block (p, n)} = line_block ` (B - {(p, n)})"
    using s p inj_on_image_set_diff [of line_block B B "{(p, n)}"] by (simp add: bm_inv_def)
  then show "\<exists>s'. bm_free os s p = Inr s' \<and> bm_inv s' (B - {(p, n)})"
    using f s by (auto simp: bm_free_def bm_inv_def inj_on_def)
next
  fix s :: "'a fx3_sys" and B p n q k
  assume s: "bm_inv s B" and b: "(p, n) \<in> B" "(q, k) \<in> B" "(p, n) \<noteq> (q, k)"
  have ne: "line_block (p, n) \<noteq> line_block (q, k)" using s b by (auto simp: bm_inv_def inj_on_def)
  note p = bm_inv_block(1,2) [OF s b(1)] and q = bm_inv_block(1,2) [OF s b(2)]
  obtain i j where ij: "line_block (p, n) = (i, lines_of n)" "line_block (q, k) = (j, lines_of k)"
    by (simp add: line_block_def)
  have "lines_inv (bm_status s) (line_block ` B)" using s by (simp add: bm_inv_def dma_started_def)
  from lines_invD(4) [OF this p(2) [unfolded ij] q(2) [unfolded ij] ne [unfolded ij]]
  show "p + n \<le> q \<or> q + k \<le> p"
    using p(1) q(1) lines_of_bounds(3) [of n] lines_of_bounds(3) [of k] unfolding ij fst_conv by linarith
qed

section \<open>Properties\<close>

lemma lines_inv_empty: "st = replicate 224 (0 :: u32) \<Longrightarrow> lines_inv st {}"
  by (auto simp: lines_inv_def used_bit_def)

lemma init_status_heap: "init_status (CY_U3P_BUFFER_HEAP_SIZE div FX3_CACHE_LINE_SZ) = replicate 224 0"
  by (simp add: init_status_def heap_consts FX3_CACHE_LINE_SZ_def ROUND_UP_def)

text \<open>
  The mask for a partial last word has its zeros and ones exchanged: with 33 lines the lines 33 to 62,
  which do not exist, count as free.  The reserved area of the firmware is a multiple of 32 lines.
\<close>

lemma init_status_partial_word: "used_bit (init_status 33) 33 = False" "used_bit (init_status 33) 63 = True"
  by (simp_all add: init_status_def ROUND_UP_def used_bit_def bit_simps)

definition dma_ready :: "u32 fx3_sys" where
  "dma_ready = demo_heap\<lparr>glBufMgrEnableChecks := False, bm_startAddr := CY_U3P_BUFFER_HEAP_BASE,
     bm_regionSize := CY_U3P_BUFFER_HEAP_SIZE, bm_status := replicate 224 0\<rparr>"

lemma dma_ready_started: "dma_started dma_ready {}"
  by (simp add: dma_ready_def dma_started_def demo_heap_def lines_inv_empty)

lemma demo_locks: "os_locks demo_os"
  by (auto simp: os_locks_def demo_os_def)

text \<open>C38. Whatever sequence of \<^verbatim>\<open>CyU3PDmaBufferAlloc\<close> and \<^verbatim>\<open>CyU3PDmaBufferFree\<close> calls a client
  makes on a started manager without leak checks, one after the other so that each call is granted the mutex, every call returns without an invalid access, and the buffers the
  client holds are pairwise disjoint, aligned to a cache line and inside the reserved area.\<close>

theorem DmaBuffers_stay_disjoint:
  assumes "os_locks os" "dma_started s {}" "\<forall>n. PAlloc n \<in> set ops \<longrightarrow> n < 65536"
  shows "\<exists>s' live. pool_run (bm_alloc os) (bm_free os) ops s [] = Inr (s', live) \<and> disjoint_blocks live
    \<and> (\<forall>(p, n) \<in> set live. 32 dvd p \<and> 0x40040000 < p \<and> p + n \<le> 0x40078000)"
proof -
  have "bm_inv s {}" using assms(2) by (simp add: bm_inv_def)
  then obtain s' live where "pool_run (bm_alloc os) (bm_free os) ops s [] = Inr (s', live)"
      "bm_inv s' (set live)" "disjoint_blocks live"
    using block_pool.run_disjoint [OF bm_pool [OF assms(1)]] assms(3)
    by (metis block_pool.legal_def [OF bm_pool [OF assms(1)]])
  then show ?thesis by (auto simp: bm_inv_def)
qed

theorem DmaBuffers_stay_disjoint_witness:
  "\<exists>s' live. pool_run (bm_alloc demo_os) (bm_free demo_os) [PAlloc 512, PAlloc 65535, PFree 1, PAlloc 16] dma_ready [] =
     Inr (s', live) \<and> disjoint_blocks live
    \<and> (\<forall>(p, n) \<in> set live. 32 dvd p \<and> 0x40040000 < p \<and> p + n \<le> 0x40078000)"
  by (rule DmaBuffers_stay_disjoint [OF demo_locks dma_ready_started]) simp

text \<open>A call of \<^verbatim>\<open>CyU3PDmaBufferAlloc\<close> that yields the null pointer leaves the bitmap as it was, and
  there is no run of free lines long enough, except one that straddles the word the search
  started from; any other result is the address of lines no buffer in use had, marked as used.\<close>

theorem DmaBufferAlloc_fails_only_when_full:
  assumes "os_locks os" "dma_started s B"
  shows "wp (CyU3PDmaBufferAlloc os n) (\<lambda>p s'.
    if p = 0 then bm_status s' = bm_status s \<and> no_run (bm_status s) (bm_searchPos s) (lines_of (unat n) + 1)
    else \<exists>l. p = CY_U3P_BUFFER_HEAP_BASE + push_bit 5 (of_nat l) \<and> (l, lines_of (unat n)) \<notin> B
      \<and> dma_started s' (insert (l, lines_of (unat n)) B)) s"
  using DmaBufferAlloc_spec [OF assms] by (rule wpx_mono) (auto split: if_splits)

theorem DmaBufferAlloc_fails_only_when_full_witness:
  "wp (CyU3PDmaBufferAlloc demo_os 512) (\<lambda>p s'. p \<noteq> 0 \<longrightarrow> (\<exists>l. dma_started s' {(l, 16)})) dma_ready"
  using DmaBufferAlloc_fails_only_when_full [OF demo_locks dma_ready_started, of 512]
  by (rule wpx_mono) (auto simp: lines_of_def)

text \<open>Freeing the buffer an allocation just returned succeeds and restores the bitmap exactly.\<close>

theorem DmaBuffer_free_undoes_alloc:
  assumes os: "os_locks os" and s: "dma_started s B"
  shows "wp (act_bind (CyU3PDmaBufferAlloc os n) (\<lambda>p. if p = 0 then act_return 0 else CyU3PDmaBufferFree os p))
    (\<lambda>ret s'. ret = 0 \<and> bm_status s' = bm_status s \<and> dma_started s' B) s"
proof -
  have same: "st = st'" if "lines_inv st B" "lines_inv st' B" "length st = 224" "length st' = 224" for st st' :: "u32 list"
  proof (rule nth_equalityI)
    fix i assume i: "i < length st"
    show "st ! i = st' ! i"
    proof (rule bit_word_eqI)
      fix b assume b: "b < LENGTH(32)"
      have "used_bit st (32 * i + b) = used_bit st' (32 * i + b)"
        using lines_inv_iff [OF that(1), of "32 * i + b"] lines_inv_iff [OF that(2), of "32 * i + b"] i b that(3,4) by simp
      then show "bit (st ! i) b = bit (st' ! i) b" using b by (simp add: used_bit_def)
    qed
  qed (use that in simp)
  have "wp (if p = 0 then act_return 0 else CyU3PDmaBufferFree os p)
      (\<lambda>ret s'. ret = 0 \<and> bm_status s' = bm_status s \<and> dma_started s' B) s1"
    if "if p = 0 then dma_started s1 B \<and> bm_status s1 = bm_status s \<and> no_run (bm_status s) (bm_searchPos s) (lines_of (unat n) + 1)
    else \<exists>l. p = CY_U3P_BUFFER_HEAP_BASE + push_bit 5 (of_nat l) \<and> (l, lines_of (unat n)) \<notin> B
      \<and> dma_started s1 (insert (l, lines_of (unat n)) B)" for p s1
  proof (cases "p = 0")
    case False
    with that obtain l where l: "p = CY_U3P_BUFFER_HEAP_BASE + push_bit 5 (of_nat l)" "(l, lines_of (unat n)) \<notin> B"
        "dma_started s1 (insert (l, lines_of (unat n)) B)" by auto
    have "wp (CyU3PDmaBufferFree os p) (\<lambda>ret s'. ret = 0 \<and> dma_started s' B) s1"
      using DmaBufferFree_spec [OF os l(3) insertI1] l(1,2) by simp
    then have "wp (CyU3PDmaBufferFree os p) (\<lambda>ret s'. ret = 0 \<and> bm_status s' = bm_status s \<and> dma_started s' B) s1"
      by (rule wpx_mono) (use s in \<open>auto simp: dma_started_def intro: same\<close>)
    then show ?thesis using False by simp
  qed (use that in simp)
  then show ?thesis using DmaBufferAlloc_spec [OF os s, of n] unfolding wpx_bind by (rule wpx_mono [rotated])
qed

theorem DmaBuffer_free_undoes_alloc_witness:
  "wp (act_bind (CyU3PDmaBufferAlloc demo_os 512) (\<lambda>p. if p = 0 then act_return 0 else CyU3PDmaBufferFree demo_os p))
    (\<lambda>ret s'. ret = 0 \<and> bm_status s' = replicate 224 0) dma_ready"
  using DmaBuffer_free_undoes_alloc [OF demo_locks dma_ready_started, of 512]
  by (rule wpx_mono) (simp add: dma_ready_def)

text \<open>On a manager that is down, \<^verbatim>\<open>CyU3PDmaBufferInit\<close> that gets its mutex and its status array
  leaves the manager started with every line of the reserved area free; on a started manager it
  changes nothing.\<close>

theorem DmaBufferInit_starts_empty:
  assumes "bm_startAddr s = 0" "\<not> glBufMgrEnableChecks s" "os_MutexCreate os (rtos s) = Inr (True, w)"
    and "CyU3PMemAlloc os 896 (s\<lparr>rtos := w\<rparr>) = Inr (p, t)" "p \<noteq> 0" "\<not> glBufMgrEnableChecks t"
  shows "wp (CyU3PDmaBufferInit os) (\<lambda>_ s'. dma_started s' {} \<and> CyU3PDmaBufferInit os s' = Inr ((), s')) s"
proof -
  have n: "ROUND_UP (CY_U3P_BUFFER_HEAP_SIZE div FX3_CACHE_LINE_SZ) 32 div 32 * 4 = 896"
    by (simp add: heap_consts FX3_CACHE_LINE_SZ_def ROUND_UP_def)
  have nz: "CY_U3P_BUFFER_HEAP_BASE \<noteq> 0" "CY_U3P_BUFFER_HEAP_SIZE \<noteq> 0" by (simp_all add: heap_consts)
  have again: "CyU3PDmaBufferInit os s' = Inr ((), s')" if "dma_started s' {}" for s'
    using that nz by (simp add: CyU3PDmaBufferInit_def act_defs dma_started_def)
  have "wp (CyU3PDmaBufferInit os) (\<lambda>_ s'. dma_started s' {}) s"
    unfolding CyU3PDmaBufferInit_def Let_def n
    using assms(1,5,6) nz lines_inv_empty
    by (simp add: wpx_Inr [where m = "os_MutexCreate os", OF assms(3)] wpx_Inr [where m = "CyU3PMemAlloc os 896", OF assms(4)]
        init_status_heap dma_started_def)
  then show ?thesis by (rule wpx_mono) (simp add: again)
qed

theorem DmaBufferInit_starts_empty_witness:
  "wp (CyU3PDmaBufferInit demo_os) (\<lambda>_ s'. dma_started s' {})
     (demo_heap\<lparr>glMemEnableChecks := False, glBufMgrEnableChecks := False\<rparr>)"
proof -
  let ?s = "demo_heap\<lparr>glMemEnableChecks := False, glBufMgrEnableChecks := False\<rparr>"
  have "wp (CyU3PDmaBufferInit demo_os) (\<lambda>_ s'. dma_started s' {} \<and> CyU3PDmaBufferInit demo_os s' = Inr ((), s')) ?s"
    by (rule DmaBufferInit_starts_empty [where w = "0x40038100" and p = "0x40038100" and t = "?s\<lparr>rtos := 0x40038480\<rparr>"])
      (simp_all add: demo_heap_def demo_os_def CyU3PMemAlloc_def act_defs in_os_def Let_def ROUND_UP_def)
  then show ?thesis by (rule wpx_mono) simp
qed

end
