(* ===== verification/Lwip_Memp.thy ===== *)
theory Lwip_Memp
  imports Ncm_Prelude
begin

text \<open>
  The fixed-size memory pools of the network stack (lib/lwip/src/core/memp.c), in the configuration
  of the firmware: pools of their own memory, statistics on, no overflow checks.  The elements of a
  pool are numbered; the free ones form a linked list through their first word.  The locale
  \<open>element_pool\<close> is what the packet buffers rely on, the linked list implements it.
\<close>

section \<open>Pools\<close>

record stats_mem =
  st_err :: u16
  st_avail :: u16
  st_used :: u16
  st_max :: u16

record memp_desc =
  memp_num :: nat
  memp_next :: "nat \<Rightarrow> nat option"
  memp_tab :: "nat option"
  memp_stats :: stats_mem

text \<open>The loop of \<^verbatim>\<open>memp_init_pool\<close>: element \<open>i\<close> becomes the new head.\<close>

fun memp_init_loop :: "nat \<Rightarrow> nat \<Rightarrow> memp_desc \<Rightarrow> memp_desc" where
  "memp_init_loop 0 i d = d"
| "memp_init_loop (Suc n) i d =
     memp_init_loop n (i + 1) (d\<lparr>memp_next := (memp_next d)(i := memp_tab d), memp_tab := Some i\<rparr>)"

definition memp_init_pool :: "memp_desc \<Rightarrow> memp_desc" where
  "memp_init_pool d =
     (let d = memp_init_loop (memp_num d) 0 (d\<lparr>memp_tab := None\<rparr>)
      in d\<lparr>memp_stats := (memp_stats d)\<lparr>st_avail := of_nat (memp_num d)\<rparr>\<rparr>)"

definition do_memp_malloc_pool :: "memp_desc \<Rightarrow> nat option \<times> memp_desc" where
  "do_memp_malloc_pool d =
     (case memp_tab d of
        Some e \<Rightarrow>
          let st = (memp_stats d)\<lparr>st_used := st_used (memp_stats d) + 1\<rparr>;
              st = (if st_max st < st_used st then st\<lparr>st_max := st_used st\<rparr> else st)
          in (Some e, d\<lparr>memp_tab := memp_next d e, memp_stats := st\<rparr>)
      | None \<Rightarrow> (None, d\<lparr>memp_stats := (memp_stats d)\<lparr>st_err := st_err (memp_stats d) + 1\<rparr>\<rparr>))"

definition do_memp_free_pool :: "memp_desc \<Rightarrow> nat \<Rightarrow> memp_desc" where
  "do_memp_free_pool d e =
     d\<lparr>memp_stats := (memp_stats d)\<lparr>st_used := st_used (memp_stats d) - 1\<rparr>,
       memp_next := (memp_next d)(e := memp_tab d), memp_tab := Some e\<rparr>"

section \<open>The free list\<close>

fun memp_path :: "(nat \<Rightarrow> nat option) \<Rightarrow> nat option \<Rightarrow> nat list \<Rightarrow> bool" where
  "memp_path f p [] \<longleftrightarrow> p = None"
| "memp_path f p (e # es) \<longleftrightarrow> p = Some e \<and> memp_path f (f e) es"

definition free_list :: "memp_desc \<Rightarrow> nat list \<Rightarrow> bool" where
  "free_list d es \<longleftrightarrow> memp_path (memp_next d) (memp_tab d) es \<and> distinct es \<and> set es \<subseteq> {..<memp_num d}"

lemma memp_path_upd [simp]: "e \<notin> set es \<Longrightarrow> memp_path (f(e := x)) p es = memp_path f p es"
  by (induction es arbitrary: p) auto

lemma memp_path_unique: "memp_path f p es \<Longrightarrow> memp_path f p fs \<Longrightarrow> es = fs"
proof (induction es arbitrary: p fs)
  case Nil
  then show ?case by (cases fs) auto
next
  case (Cons e es)
  then show ?case by (cases fs) auto
qed

lemma free_list_unique: "free_list d es \<Longrightarrow> free_list d fs \<Longrightarrow> es = fs"
  using memp_path_unique by (auto simp: free_list_def)

lemma memp_init_loop_list:
  assumes "memp_path (memp_next d) (memp_tab d) es" "set es \<subseteq> {..<i}"
  shows "memp_path (memp_next (memp_init_loop n i d)) (memp_tab (memp_init_loop n i d)) (rev [i..<i + n] @ es)
    \<and> memp_num (memp_init_loop n i d) = memp_num d"
  using assms
proof (induction n arbitrary: i d es)
  case (Suc n)
  let ?d = "d\<lparr>memp_next := (memp_next d)(i := memp_tab d), memp_tab := Some i\<rparr>"
  have "i \<notin> set es" using Suc.prems(2) by auto
  then have "memp_path (memp_next ?d) (memp_tab ?d) (i # es)" using Suc.prems(1) by simp
  moreover have "set (i # es) \<subseteq> {..<i + 1}" using Suc.prems(2) by auto
  ultimately have "memp_path (memp_next (memp_init_loop n (i + 1) ?d)) (memp_tab (memp_init_loop n (i + 1) ?d))
      (rev [i + 1..<i + 1 + n] @ i # es) \<and> memp_num (memp_init_loop n (i + 1) ?d) = memp_num ?d"
    by (rule Suc.IH)
  moreover have "[i..<i + Suc n] = i # [i + 1..<i + 1 + n]" by (simp add: upt_conv_Cons)
  ultimately show ?case by simp
qed simp

lemma memp_init_free: "free_list (memp_init_pool d) (rev [0..<memp_num d])" "memp_num (memp_init_pool d) = memp_num d"
  using memp_init_loop_list [of "d\<lparr>memp_tab := None\<rparr>" "[]" 0 "memp_num d"]
  by (auto simp: memp_init_pool_def free_list_def Let_def)

lemma memp_malloc_list:
  assumes "free_list d es"
  shows "case es of
      [] \<Rightarrow> fst (do_memp_malloc_pool d) = None \<and> free_list (snd (do_memp_malloc_pool d)) []
    | e # es' \<Rightarrow> fst (do_memp_malloc_pool d) = Some e \<and> free_list (snd (do_memp_malloc_pool d)) es'"
    "memp_num (snd (do_memp_malloc_pool d)) = memp_num d"
  using assms by (cases es; auto simp: do_memp_malloc_pool_def free_list_def Let_def split: option.splits)+

lemma memp_free_list:
  assumes "free_list d es" "e < memp_num d" "e \<notin> set es"
  shows "free_list (do_memp_free_pool d e) (e # es)" "memp_num (do_memp_free_pool d e) = memp_num d"
  using assms by (auto simp: do_memp_free_pool_def free_list_def)

section \<open>The contract of a pool\<close>

text \<open>
  The free elements of a pool as a set: an allocation takes one of them or there is none, a release
  gives one back.
\<close>

locale element_pool =
  fixes malloc :: "'p \<Rightarrow> nat option \<times> 'p"
    and free :: "'p \<Rightarrow> nat \<Rightarrow> 'p"
    and avail :: "'p \<Rightarrow> nat set \<Rightarrow> bool"
    and total :: "'p \<Rightarrow> nat"
  assumes malloc_law: "avail d F \<Longrightarrow> malloc d = (r, d') \<Longrightarrow>
      (case r of None \<Rightarrow> F = {} \<and> avail d' F | Some e \<Rightarrow> e \<in> F \<and> avail d' (F - {e})) \<and> total d' = total d"
    and free_law: "avail d F \<Longrightarrow> e < total d \<Longrightarrow> e \<notin> F \<Longrightarrow> avail (free d e) (insert e F) \<and> total (free d e) = total d"
    and avail_bound: "avail d F \<Longrightarrow> F \<subseteq> {..<total d}"
begin

lemma malloc_cases:
  assumes "avail d F"
  obtains d' where "malloc d = (None, d')" "F = {}" "avail d' {}" "total d' = total d"
  | e d' where "malloc d = (Some e, d')" "e \<in> F" "e < total d" "avail d' (F - {e})" "total d' = total d"
proof -
  obtain r d' where r: "malloc d = (r, d')" by (cases "malloc d")
  show ?thesis
    using malloc_law [OF assms r] avail_bound [OF assms] r by (cases r) (auto intro: that)
qed

lemma malloc_free_restores:
  assumes "avail d F" "malloc d = (Some e, d')"
  shows "avail (free d' e) F"
proof -
  have e: "e \<in> F" "avail d' (F - {e})" "total d' = total d" using malloc_law [OF assms] by auto
  have "e < total d'" using e avail_bound [OF assms(1)] by auto
  then have "avail (free d' e) (insert e (F - {e}))"
    using free_law [OF e(2), of e] by blast
  then show ?thesis using e(1) by (simp add: insert_absorb)
qed

end

definition memp_avail :: "memp_desc \<Rightarrow> nat set \<Rightarrow> bool" where
  "memp_avail d F \<longleftrightarrow> (\<exists>es. free_list d es \<and> set es = F)"

interpretation memp: element_pool do_memp_malloc_pool do_memp_free_pool memp_avail memp_num
proof
  fix d F r d'
  assume "memp_avail d F" and r: "do_memp_malloc_pool d = (r, d')"
  then obtain es where es: "free_list d es" "set es = F" by (auto simp: memp_avail_def)
  have "distinct es" using es(1) by (simp add: free_list_def)
  then show "(case r of None \<Rightarrow> F = {} \<and> memp_avail d' F | Some e \<Rightarrow> e \<in> F \<and> memp_avail d' (F - {e}))
      \<and> memp_num d' = memp_num d"
    using memp_malloc_list [OF es(1)] r es(2) by (cases es) (auto simp: memp_avail_def intro!: exI)
next
  fix d F e
  assume "memp_avail d F" "e < memp_num d" "e \<notin> F"
  then show "memp_avail (do_memp_free_pool d e) (insert e F) \<and> memp_num (do_memp_free_pool d e) = memp_num d"
    using memp_free_list unfolding memp_avail_def by (metis list.simps(15))
next
  fix d F
  assume "memp_avail d F"
  then show "F \<subseteq> {..<memp_num d}" by (auto simp: memp_avail_def free_list_def)
qed

end
