(* ===== verification/Lwip_Pbuf.thy ===== *)
theory Lwip_Pbuf
  imports Lwip_Memp
begin

text \<open>
  The packet buffers of the network stack (lib/lwip/src/core/pbuf.c, include/lwip/pbuf.h) in the
  configuration of the firmware.  A buffer structure is an object of an explicit store, named by its
  address; an access through a null or dangling pointer is an error.  The memory a payload pointer
  points into belongs to its buffer: the room behind the structure, or the referenced object.  Structures
  come from the two pools of memp.c; the heap behind \<^verbatim>\<open>mem_malloc\<close> and the release functions
  of custom buffers are parameters.  The assertions of the stack have no effect here, since the port's
  \<^verbatim>\<open>LWIP_PLATFORM_ASSERT\<close> tests the message.
\<close>

section \<open>Structures\<close>

text \<open>The address of a structure says which allocator it came from.\<close>

datatype pptr = PoolPbuf nat | RefPbuf nat | HeapPbuf nat | CustomPbuf nat

record pbuf =
  pb_next :: "pptr option"
  pb_payload :: "nat option"
  pb_tot_len :: u16
  pb_len :: u16
  pb_type_internal :: u8
  pb_flags :: u8
  pb_ref :: u8
  pb_if_idx :: u8
  pb_mem :: "u8 list"

record 'h pbuf_sys =
  pb_obj :: "pptr \<Rightarrow> pbuf option"
  pool_PBUF_POOL :: memp_desc
  pool_PBUF :: memp_desc
  pbuf_free_ooseq_pending :: bool
  mem_heap :: 'h

record 'h mem_env =
  mem_malloc :: "u16 \<Rightarrow> ('h, nat option) act"
  mem_free :: "nat \<Rightarrow> ('h, unit) act"
  mem_trim :: "nat \<Rightarrow> u16 \<Rightarrow> ('h, unit) act"
  custom_free_function :: "nat \<Rightarrow> ('h pbuf_sys, unit) act"
  uninit :: "'h pbuf_sys \<Rightarrow> pptr \<Rightarrow> nat \<Rightarrow> u8"

definition PBUF_TRANSPORT_HLEN :: nat where "PBUF_TRANSPORT_HLEN = 20"
definition PBUF_IP_HLEN :: nat where "PBUF_IP_HLEN = 20"
definition PBUF_LINK_HLEN :: nat where "PBUF_LINK_HLEN = 14"
definition PBUF_LINK_ENCAPSULATION_HLEN :: nat where "PBUF_LINK_ENCAPSULATION_HLEN = 0"
definition TCP_MSS :: nat where "TCP_MSS = 1500 - 20 - 20"

type_synonym pbuf_layer = u16

definition PBUF_TRANSPORT :: pbuf_layer where
  "PBUF_TRANSPORT = of_nat (PBUF_LINK_ENCAPSULATION_HLEN + PBUF_LINK_HLEN + PBUF_IP_HLEN + PBUF_TRANSPORT_HLEN)"
definition PBUF_IP :: pbuf_layer where
  "PBUF_IP = of_nat (PBUF_LINK_ENCAPSULATION_HLEN + PBUF_LINK_HLEN + PBUF_IP_HLEN)"
definition PBUF_LINK :: pbuf_layer where
  "PBUF_LINK = of_nat (PBUF_LINK_ENCAPSULATION_HLEN + PBUF_LINK_HLEN)"
definition PBUF_RAW :: pbuf_layer where "PBUF_RAW = 0"

definition PBUF_TYPE_FLAG_STRUCT_DATA_CONTIGUOUS :: u16 where "PBUF_TYPE_FLAG_STRUCT_DATA_CONTIGUOUS = 0x80"
definition PBUF_TYPE_FLAG_DATA_VOLATILE :: u16 where "PBUF_TYPE_FLAG_DATA_VOLATILE = 0x40"
definition PBUF_TYPE_ALLOC_SRC_MASK :: u16 where "PBUF_TYPE_ALLOC_SRC_MASK = 0x0F"
definition PBUF_ALLOC_FLAG_RX :: u16 where "PBUF_ALLOC_FLAG_RX = 0x0100"
definition PBUF_ALLOC_FLAG_DATA_CONTIGUOUS :: u16 where "PBUF_ALLOC_FLAG_DATA_CONTIGUOUS = 0x0200"
definition ALLOC_SRC_STD_HEAP :: u16 where "ALLOC_SRC_STD_HEAP = 0x00"
definition ALLOC_SRC_STD_MEMP_PBUF :: u16 where "ALLOC_SRC_STD_MEMP_PBUF = 0x01"
definition ALLOC_SRC_STD_MEMP_PBUF_POOL :: u16 where "ALLOC_SRC_STD_MEMP_PBUF_POOL = 0x02"
definition PBUF_FLAG_IS_CUSTOM :: u8 where "PBUF_FLAG_IS_CUSTOM = 0x02"

datatype pbuf_type = PBUF_RAM | PBUF_ROM | PBUF_REF | PBUF_POOL

fun pbuf_type_code :: "pbuf_type \<Rightarrow> u16" where
  "pbuf_type_code PBUF_RAM =
     PBUF_ALLOC_FLAG_DATA_CONTIGUOUS OR PBUF_TYPE_FLAG_STRUCT_DATA_CONTIGUOUS OR ALLOC_SRC_STD_HEAP"
| "pbuf_type_code PBUF_ROM = ALLOC_SRC_STD_MEMP_PBUF"
| "pbuf_type_code PBUF_REF = PBUF_TYPE_FLAG_DATA_VOLATILE OR ALLOC_SRC_STD_MEMP_PBUF"
| "pbuf_type_code PBUF_POOL =
     PBUF_ALLOC_FLAG_RX OR PBUF_TYPE_FLAG_STRUCT_DATA_CONTIGUOUS OR ALLOC_SRC_STD_MEMP_PBUF_POOL"

definition pbuf_get_allocsrc :: "pbuf \<Rightarrow> u16" where
  "pbuf_get_allocsrc b = ucast (pb_type_internal b) AND PBUF_TYPE_ALLOC_SRC_MASK"

lemmas pbuf_consts = PBUF_TYPE_FLAG_STRUCT_DATA_CONTIGUOUS_def PBUF_TYPE_FLAG_DATA_VOLATILE_def
  PBUF_TYPE_ALLOC_SRC_MASK_def PBUF_ALLOC_FLAG_RX_def PBUF_ALLOC_FLAG_DATA_CONTIGUOUS_def
  ALLOC_SRC_STD_HEAP_def ALLOC_SRC_STD_MEMP_PBUF_def ALLOC_SRC_STD_MEMP_PBUF_POOL_def PBUF_FLAG_IS_CUSTOM_def

definition LWIP_MEM_ALIGN_SIZE :: "u32 \<Rightarrow> u32" where
  "LWIP_MEM_ALIGN_SIZE sz = (sz + 4 - 1) AND NOT (4 - 1)"

definition SIZEOF_STRUCT_PBUF :: u32 where "SIZEOF_STRUCT_PBUF = LWIP_MEM_ALIGN_SIZE 16"

definition PBUF_POOL_BUFSIZE_ALIGNED :: u32 where
  "PBUF_POOL_BUFSIZE_ALIGNED =
     LWIP_MEM_ALIGN_SIZE (LWIP_MEM_ALIGN_SIZE (of_nat (TCP_MSS + PBUF_IP_HLEN + PBUF_TRANSPORT_HLEN
       + PBUF_LINK_ENCAPSULATION_HLEN + PBUF_LINK_HLEN)))"

datatype err_t = ERR_OK | ERR_MEM | ERR_BUF | ERR_TIMEOUT | ERR_RTE | ERR_INPROGRESS | ERR_VAL | ERR_WOULDBLOCK | ERR_USE
  | ERR_ALREADY | ERR_ISCONN | ERR_CONN | ERR_IF | ERR_ABRT | ERR_RST | ERR_CLSD | ERR_ARG

section \<open>Access to buffers\<close>

definition pb_get :: "pptr option \<Rightarrow> ('h pbuf_sys, pbuf) act" where
  "pb_get p s =
     (case p of
        None \<Rightarrow> Inl NullDeref
      | Some x \<Rightarrow> (case pb_obj s x of None \<Rightarrow> Inl OutOfBounds | Some b \<Rightarrow> Inr (b, s)))"

definition pb_modify :: "pptr option \<Rightarrow> (pbuf \<Rightarrow> pbuf) \<Rightarrow> ('h pbuf_sys, unit) act" where
  "pb_modify p f s =
     (case p of
        None \<Rightarrow> Inl NullDeref
      | Some x \<Rightarrow>
          (case pb_obj s x of
             None \<Rightarrow> Inl OutOfBounds
           | Some b \<Rightarrow> Inr ((), s\<lparr>pb_obj := (pb_obj s)(x := Some (f b))\<rparr>)))"

text \<open>Bytes behind a payload pointer: in bounds of the object it points into.  No byte is accessed when \<open>n = 0\<close>.\<close>

definition payload_ok :: "pbuf \<Rightarrow> nat \<Rightarrow> nat \<Rightarrow> bool" where
  "payload_ok b off n \<longleftrightarrow> n = 0 \<or> (\<exists>a. pb_payload b = Some a \<and> a + off + n \<le> length (pb_mem b))"

definition payload_bytes :: "pbuf \<Rightarrow> nat \<Rightarrow> nat \<Rightarrow> u8 list" where
  "payload_bytes b off n =
     (case pb_payload b of None \<Rightarrow> [] | Some a \<Rightarrow> take n (drop (a + off) (pb_mem b)))"

definition mem_write :: "nat \<Rightarrow> u8 list \<Rightarrow> u8 list \<Rightarrow> u8 list" where
  "mem_write i bs xs = take i xs @ bs @ drop (i + length bs) xs"

definition payload_write :: "nat \<Rightarrow> u8 list \<Rightarrow> pbuf \<Rightarrow> pbuf" where
  "payload_write off bs b =
     (case pb_payload b of None \<Rightarrow> b | Some a \<Rightarrow> b\<lparr>pb_mem := mem_write (a + off) bs (pb_mem b)\<rparr>)"

definition pb_read :: "pptr option \<Rightarrow> nat \<Rightarrow> nat \<Rightarrow> ('h pbuf_sys, u8 list) act" where
  "pb_read p off n =
     act_bind (pb_get p) (\<lambda>b.
     act_bind (act_check OutOfBounds (payload_ok b off n)) (\<lambda>_.
     act_return (payload_bytes b off n)))"

definition pb_write :: "pptr option \<Rightarrow> nat \<Rightarrow> u8 list \<Rightarrow> ('h pbuf_sys, unit) act" where
  "pb_write p off bs =
     act_bind (pb_get p) (\<lambda>b.
     act_bind (act_check OutOfBounds (payload_ok b off (length bs))) (\<lambda>_.
     pb_modify p (payload_write off bs)))"

definition in_heap :: "('h, 'a) act \<Rightarrow> ('h pbuf_sys, 'a) act" where
  "in_heap m s =
     (case m (mem_heap s) of Inl e \<Rightarrow> Inl (EnvFault e) | Inr (r, h) \<Rightarrow> Inr (r, s\<lparr>mem_heap := h\<rparr>))"

text \<open>
  Loops follow the chain with fuel; a chain longer than the fuel (or a cyclic one) is \<^const>\<open>NoReturn\<close>.
  The buffers of one packet are at most 65535, the largest total length, when none is empty.
\<close>

definition chain_fuel :: nat where "chain_fuel = 65537"

section \<open>Allocation and release\<close>

definition pbuf_init_alloced_pbuf ::
    "pptr \<Rightarrow> nat option \<Rightarrow> u8 list \<Rightarrow> u16 \<Rightarrow> u16 \<Rightarrow> pbuf_type \<Rightarrow> u8 \<Rightarrow> ('h pbuf_sys, unit) act" where
  "pbuf_init_alloced_pbuf p payload memory tot l type flags =
     act_modify (\<lambda>s. s\<lparr>pb_obj := (pb_obj s)(p \<mapsto>
       \<lparr>pb_next = None, pb_payload = payload, pb_tot_len = tot, pb_len = l,
        pb_type_internal = ucast (pbuf_type_code type), pb_flags = flags, pb_ref = 1, pb_if_idx = 0,
        pb_mem = memory\<rparr>)\<rparr>)"

definition memp_malloc_POOL :: "('h pbuf_sys, pptr option) act" where
  "memp_malloc_POOL s =
     (case do_memp_malloc_pool (pool_PBUF_POOL s) of
        (e, d) \<Rightarrow> Inr (map_option PoolPbuf e, s\<lparr>pool_PBUF_POOL := d\<rparr>))"

definition memp_malloc_PBUF :: "('h pbuf_sys, pptr option) act" where
  "memp_malloc_PBUF s =
     (case do_memp_malloc_pool (pool_PBUF s) of
        (e, d) \<Rightarrow> Inr (map_option RefPbuf e, s\<lparr>pool_PBUF := d\<rparr>))"

text \<open>The structure is gone with its memory; a pointer into another allocator's memory is an error.\<close>

definition pb_drop :: "pptr \<Rightarrow> ('h pbuf_sys, unit) act" where
  "pb_drop p = act_modify (\<lambda>s. s\<lparr>pb_obj := (pb_obj s)(p := None)\<rparr>)"

fun memp_free_POOL :: "pptr \<Rightarrow> ('h pbuf_sys, unit) act" where
  "memp_free_POOL (PoolPbuf e) =
     act_bind (pb_drop (PoolPbuf e)) (\<lambda>_.
     act_modify (\<lambda>s. s\<lparr>pool_PBUF_POOL := do_memp_free_pool (pool_PBUF_POOL s) e\<rparr>))"
| "memp_free_POOL _ = act_fail OutOfBounds"

fun memp_free_PBUF :: "pptr \<Rightarrow> ('h pbuf_sys, unit) act" where
  "memp_free_PBUF (RefPbuf e) =
     act_bind (pb_drop (RefPbuf e)) (\<lambda>_.
     act_modify (\<lambda>s. s\<lparr>pool_PBUF := do_memp_free_pool (pool_PBUF s) e\<rparr>))"
| "memp_free_PBUF _ = act_fail OutOfBounds"

fun heap_free :: "'h mem_env \<Rightarrow> pptr \<Rightarrow> ('h pbuf_sys, unit) act" where
  "heap_free E (HeapPbuf e) = act_bind (pb_drop (HeapPbuf e)) (\<lambda>_. in_heap (mem_free E e))"
| "heap_free E _ = act_fail OutOfBounds"

fun custom_free :: "'h mem_env \<Rightarrow> pptr \<Rightarrow> ('h pbuf_sys, unit) act" where
  "custom_free E (CustomPbuf e) = act_bind (pb_drop (CustomPbuf e)) (\<lambda>_. custom_free_function E e)"
| "custom_free E _ = act_fail OutOfBounds"

text \<open>What \<^verbatim>\<open>pbuf_free\<close> does with a buffer whose last reference is gone.\<close>

definition pbuf_dealloc :: "'h mem_env \<Rightarrow> pptr \<Rightarrow> pbuf \<Rightarrow> ('h pbuf_sys, unit) act" where
  "pbuf_dealloc E p b =
     (if pb_flags b AND PBUF_FLAG_IS_CUSTOM \<noteq> 0 then custom_free E p
      else if pbuf_get_allocsrc b = ALLOC_SRC_STD_MEMP_PBUF_POOL then memp_free_POOL p
      else if pbuf_get_allocsrc b = ALLOC_SRC_STD_MEMP_PBUF then memp_free_PBUF p
      else if pbuf_get_allocsrc b = ALLOC_SRC_STD_HEAP then heap_free E p
      else act_return ())"

fun pbuf_free_loop :: "'h mem_env \<Rightarrow> nat \<Rightarrow> pptr option \<Rightarrow> u8 \<Rightarrow> ('h pbuf_sys, u8) act" where
  "pbuf_free_loop E 0 p cnt = act_fail NoReturn"
| "pbuf_free_loop E (Suc fuel) p cnt =
     (case p of
        None \<Rightarrow> act_return cnt
      | Some x \<Rightarrow>
          act_bind (pb_modify p (pb_ref_update (\<lambda>r. r - 1))) (\<lambda>_.
          act_bind (pb_get p) (\<lambda>b.
          if pb_ref b = 0 then
            act_bind (pbuf_dealloc E x b) (\<lambda>_. pbuf_free_loop E fuel (pb_next b) (cnt + 1))
          else act_return cnt)))"

definition pbuf_free :: "'h mem_env \<Rightarrow> pptr option \<Rightarrow> ('h pbuf_sys, u8) act" where
  "pbuf_free E p = pbuf_free_loop E chain_fuel p 0"

definition pbuf_alloc_reference ::
    "nat option \<Rightarrow> u8 list \<Rightarrow> u16 \<Rightarrow> pbuf_type \<Rightarrow> ('h pbuf_sys, pptr option) act" where
  "pbuf_alloc_reference payload memory l type =
     act_bind memp_malloc_PBUF (\<lambda>p.
     case p of
       None \<Rightarrow> act_return None
     | Some x \<Rightarrow> act_bind (pbuf_init_alloced_pbuf x payload memory l l type 0) (\<lambda>_. act_return p))"

text \<open>
  Memory that has just been allocated is not cleared: it holds whatever bytes are there, byte \<open>k\<close>
  of the object being \<open>uninit E s x k\<close>.
\<close>

definition fresh_mem :: "'h mem_env \<Rightarrow> pptr \<Rightarrow> nat \<Rightarrow> ('h pbuf_sys, u8 list) act" where
  "fresh_mem E x n = act_gets (\<lambda>s. map (uninit E s x) [0..<n])"

text \<open>
  The loop over the pool of \<^verbatim>\<open>pbuf_alloc\<close>: \<open>p\<close> is the head of the chain so far, \<open>lst\<close> its end.
  Every round takes one element of the pool, so its size bounds the number of rounds.
\<close>

definition pool_room :: "u16 \<Rightarrow> u16" where
  "pool_room offset = ucast (PBUF_POOL_BUFSIZE_ALIGNED - LWIP_MEM_ALIGN_SIZE (ucast offset))"

fun pbuf_alloc_pool :: "'h mem_env \<Rightarrow> nat \<Rightarrow> u16 \<Rightarrow> pptr option \<Rightarrow> pptr option \<Rightarrow> u16 \<Rightarrow>
    ('h pbuf_sys, pptr option) act" where
  "pbuf_alloc_pool E 0 offset p lst rem_len = act_fail NoReturn"
| "pbuf_alloc_pool E (Suc fuel) offset p lst rem_len =
     act_bind memp_malloc_POOL (\<lambda>q.
     case q of
       None \<Rightarrow>
         act_bind (act_modify (\<lambda>s. s\<lparr>pbuf_free_ooseq_pending := True\<rparr>)) (\<lambda>_.
         act_bind (if p \<noteq> None then act_bind (pbuf_free E p) (\<lambda>_. act_return ()) else act_return ()) (\<lambda>_.
         act_return None))
     | Some x \<Rightarrow>
         let qlen = min rem_len (pool_room offset) in
         act_bind (fresh_mem E x (unat PBUF_POOL_BUFSIZE_ALIGNED)) (\<lambda>memory.
         act_bind (pbuf_init_alloced_pbuf x (Some (unat (LWIP_MEM_ALIGN_SIZE (ucast offset))))
             memory rem_len qlen PBUF_POOL 0) (\<lambda>_.
         act_bind (if p = None then act_return () else pb_modify lst (pb_next_update (\<lambda>_. q))) (\<lambda>_.
         let p = (if p = None then q else p); rem_len = rem_len - qlen in
         if 0 < rem_len then pbuf_alloc_pool E fuel 0 p q rem_len else act_return p))))"

definition pbuf_alloc :: "'h mem_env \<Rightarrow> pbuf_layer \<Rightarrow> u16 \<Rightarrow> pbuf_type \<Rightarrow> ('h pbuf_sys, pptr option) act" where
  "pbuf_alloc E layer l type =
     (case type of
        PBUF_REF \<Rightarrow> pbuf_alloc_reference None [] l type
      | PBUF_ROM \<Rightarrow> pbuf_alloc_reference None [] l type
      | PBUF_POOL \<Rightarrow>
          act_bind (act_gets (\<lambda>s. memp_num (pool_PBUF_POOL s))) (\<lambda>n.
          pbuf_alloc_pool E (n + 1) layer None None l)
      | PBUF_RAM \<Rightarrow>
          (let payload_len = ucast (LWIP_MEM_ALIGN_SIZE (ucast layer) + LWIP_MEM_ALIGN_SIZE (ucast l)) :: u16;
               alloc_len = ucast (LWIP_MEM_ALIGN_SIZE SIZEOF_STRUCT_PBUF + ucast payload_len) :: u16
           in if ucast payload_len < LWIP_MEM_ALIGN_SIZE (ucast l)
                \<or> ucast alloc_len < LWIP_MEM_ALIGN_SIZE (ucast l) then act_return None
              else
                act_bind (in_heap (mem_malloc E alloc_len)) (\<lambda>r.
                case r of
                  None \<Rightarrow> act_return None
                | Some e \<Rightarrow>
                    act_bind (fresh_mem E (HeapPbuf e) (unat payload_len)) (\<lambda>memory.
                    act_bind (pbuf_init_alloced_pbuf (HeapPbuf e) (Some (unat (LWIP_MEM_ALIGN_SIZE (ucast layer))))
                        memory l l type 0) (\<lambda>_.
                    act_return (Some (HeapPbuf e)))))))"

definition pbuf_alloced_custom :: "pbuf_layer \<Rightarrow> u16 \<Rightarrow> pbuf_type \<Rightarrow> nat \<Rightarrow> u8 list option \<Rightarrow> u16 \<Rightarrow>
    ('h pbuf_sys, pptr option) act" where
  "pbuf_alloced_custom layer l type p payload_mem payload_mem_len =
     (if LWIP_MEM_ALIGN_SIZE (ucast layer) + ucast l > ucast payload_mem_len then act_return None
      else
        act_bind (pbuf_init_alloced_pbuf (CustomPbuf p)
            (map_option (\<lambda>_. unat (LWIP_MEM_ALIGN_SIZE (ucast layer))) payload_mem)
            (case payload_mem of None \<Rightarrow> [] | Some xs \<Rightarrow> xs) l l type PBUF_FLAG_IS_CUSTOM) (\<lambda>_.
        act_return (Some (CustomPbuf p))))"

section \<open>Headers\<close>

text \<open>
  \<^verbatim>\<open>pbuf_add_header_impl\<close>; the size is a 32-bit \<^verbatim>\<open>size_t\<close>.  Moving the payload pointer
  before the object it points into is an error.
\<close>

definition pbuf_add_header_impl :: "pptr option \<Rightarrow> u32 \<Rightarrow> bool \<Rightarrow> ('h pbuf_sys, bool) act" where
  "pbuf_add_header_impl p inc force =
     (if p = None \<or> inc > 0xFFFF then act_return True
      else if inc = 0 then act_return False
      else
        let magnitude = ucast inc :: u16 in
        act_bind (pb_get p) (\<lambda>b.
        if magnitude + pb_tot_len b < magnitude then act_return True
        else
          let grow = (\<lambda>a. act_bind (pb_modify p (\<lambda>b. b\<lparr>pb_payload := Some a,
                pb_len := pb_len b + magnitude, pb_tot_len := pb_tot_len b + magnitude\<rparr>)) (\<lambda>_. act_return False))
          in
          if ucast (pb_type_internal b) AND PBUF_TYPE_FLAG_STRUCT_DATA_CONTIGUOUS \<noteq> 0 then
            case pb_payload b of
              None \<Rightarrow> act_return True
            | Some a \<Rightarrow> if a < unat inc then act_return True else grow (a - unat inc)
          else if force then
            case pb_payload b of
              None \<Rightarrow> act_fail OutOfBounds
            | Some a \<Rightarrow> if a < unat inc then act_fail OutOfBounds else grow (a - unat inc)
          else act_return True))"

definition pbuf_add_header :: "pptr option \<Rightarrow> u32 \<Rightarrow> ('h pbuf_sys, bool) act" where
  "pbuf_add_header p inc = pbuf_add_header_impl p inc False"

definition pbuf_add_header_force :: "pptr option \<Rightarrow> u32 \<Rightarrow> ('h pbuf_sys, bool) act" where
  "pbuf_add_header_force p inc = pbuf_add_header_impl p inc True"

definition pbuf_remove_header :: "pptr option \<Rightarrow> u32 \<Rightarrow> ('h pbuf_sys, bool) act" where
  "pbuf_remove_header p dec =
     (if p = None \<or> dec > 0xFFFF then act_return True
      else if dec = 0 then act_return False
      else
        let magnitude = ucast dec :: u16 in
        act_bind (pb_get p) (\<lambda>b.
        if \<not> magnitude \<le> pb_len b then act_return True
        else
          act_bind (pb_modify p (\<lambda>b. b\<lparr>pb_payload := map_option (\<lambda>a. a + unat dec) (pb_payload b),
            pb_len := pb_len b - magnitude, pb_tot_len := pb_tot_len b - magnitude\<rparr>)) (\<lambda>_.
          act_return False)))"

text \<open>The signed interface: a 16-bit two's complement size.\<close>

definition pbuf_header_impl :: "pptr option \<Rightarrow> u16 \<Rightarrow> bool \<Rightarrow> ('h pbuf_sys, bool) act" where
  "pbuf_header_impl p inc force =
     (if sint inc < 0 then pbuf_remove_header p (of_int (- sint inc))
      else pbuf_add_header_impl p (of_int (sint inc)) force)"

definition pbuf_header :: "pptr option \<Rightarrow> u16 \<Rightarrow> ('h pbuf_sys, bool) act" where
  "pbuf_header p inc = pbuf_header_impl p inc False"

definition pbuf_header_force :: "pptr option \<Rightarrow> u16 \<Rightarrow> ('h pbuf_sys, bool) act" where
  "pbuf_header_force p inc = pbuf_header_impl p inc True"

fun free_header_loop :: "'h mem_env \<Rightarrow> nat \<Rightarrow> pptr option \<Rightarrow> u16 \<Rightarrow> ('h pbuf_sys, pptr option) act" where
  "free_header_loop E 0 p free_left = act_fail NoReturn"
| "free_header_loop E (Suc fuel) p free_left =
     (if free_left = 0 \<or> p = None then act_return p
      else
        act_bind (pb_get p) (\<lambda>b.
        if pb_len b \<le> free_left then
          act_bind (pb_modify p (pb_next_update (\<lambda>_. None))) (\<lambda>_.
          act_bind (pbuf_free E p) (\<lambda>_.
          free_header_loop E fuel (pb_next b) (free_left - pb_len b)))
        else
          act_bind (pbuf_remove_header p (ucast free_left)) (\<lambda>_. act_return p)))"

definition pbuf_free_header :: "'h mem_env \<Rightarrow> pptr option \<Rightarrow> u16 \<Rightarrow> ('h pbuf_sys, pptr option) act" where
  "pbuf_free_header E q sz = free_header_loop E chain_fuel q sz"

section \<open>Chains\<close>

text \<open>\<^verbatim>\<open>pbuf_realloc\<close>: the loop that steps over the buffers that remain, then the cut.\<close>

fun realloc_skip :: "nat \<Rightarrow> pptr option \<Rightarrow> u16 \<Rightarrow> u16 \<Rightarrow> ('h pbuf_sys, pptr option \<times> u16) act" where
  "realloc_skip 0 q rem_len shrink = act_fail NoReturn"
| "realloc_skip (Suc fuel) q rem_len shrink =
     act_bind (pb_get q) (\<lambda>b.
     if rem_len > pb_len b then
       act_bind (pb_modify q (pb_tot_len_update (\<lambda>t. t - shrink))) (\<lambda>_.
       realloc_skip fuel (pb_next b) (rem_len - pb_len b) shrink)
     else act_return (q, rem_len))"

text \<open>Trimming the heap block gives up the bytes behind the new length.\<close>

fun heap_trim :: "'h mem_env \<Rightarrow> pptr option \<Rightarrow> pbuf \<Rightarrow> u16 \<Rightarrow> ('h pbuf_sys, unit) act" where
  "heap_trim E (Some (HeapPbuf e)) b rem_len =
     (case pb_payload b of
        None \<Rightarrow> act_fail OutOfBounds
      | Some a \<Rightarrow>
          act_bind (in_heap (mem_trim E e (of_nat (unat SIZEOF_STRUCT_PBUF + a) + rem_len))) (\<lambda>_.
          pb_modify (Some (HeapPbuf e)) (pb_mem_update (take (a + unat rem_len)))))"
| "heap_trim E _ b rem_len = act_fail OutOfBounds"

definition pbuf_realloc :: "'h mem_env \<Rightarrow> pptr option \<Rightarrow> u16 \<Rightarrow> ('h pbuf_sys, unit) act" where
  "pbuf_realloc E p new_len =
     act_bind (pb_get p) (\<lambda>b.
     if new_len \<ge> pb_tot_len b then act_return ()
     else
       act_bind (realloc_skip chain_fuel p new_len (pb_tot_len b - new_len)) (\<lambda>(q, rem_len).
       act_bind (pb_get q) (\<lambda>b.
       act_bind (if pbuf_get_allocsrc b = ALLOC_SRC_STD_HEAP \<and> rem_len \<noteq> pb_len b
                   \<and> pb_flags b AND PBUF_FLAG_IS_CUSTOM = 0
                 then heap_trim E q b rem_len else act_return ()) (\<lambda>_.
       act_bind (pb_modify q (\<lambda>b. b\<lparr>pb_len := rem_len, pb_tot_len := rem_len\<rparr>)) (\<lambda>_.
       act_bind (pb_get q) (\<lambda>b.
       act_bind (if pb_next b \<noteq> None then act_bind (pbuf_free E (pb_next b)) (\<lambda>_. act_return ())
                 else act_return ()) (\<lambda>_.
       pb_modify q (pb_next_update (\<lambda>_. None)))))))))"

fun clen_loop :: "nat \<Rightarrow> pptr option \<Rightarrow> u16 \<Rightarrow> ('h pbuf_sys, u16) act" where
  "clen_loop 0 p n = act_fail NoReturn"
| "clen_loop (Suc fuel) p n =
     (if p = None then act_return n else act_bind (pb_get p) (\<lambda>b. clen_loop fuel (pb_next b) (n + 1)))"

definition pbuf_clen :: "pptr option \<Rightarrow> ('h pbuf_sys, u16) act" where
  "pbuf_clen p = clen_loop chain_fuel p 0"

definition pbuf_ref :: "pptr option \<Rightarrow> ('h pbuf_sys, unit) act" where
  "pbuf_ref p = (if p = None then act_return () else pb_modify p (pb_ref_update (\<lambda>r. r + 1)))"

fun cat_loop :: "nat \<Rightarrow> pptr option \<Rightarrow> pptr option \<Rightarrow> ('h pbuf_sys, pptr option) act" where
  "cat_loop 0 p t = act_fail NoReturn"
| "cat_loop (Suc fuel) p t =
     act_bind (pb_get p) (\<lambda>b.
     if pb_next b \<noteq> None then
       act_bind (pb_get t) (\<lambda>bt.
       act_bind (pb_modify p (pb_tot_len_update (\<lambda>n. n + pb_tot_len bt))) (\<lambda>_.
       cat_loop fuel (pb_next b) t))
     else act_return p)"

definition pbuf_cat :: "pptr option \<Rightarrow> pptr option \<Rightarrow> ('h pbuf_sys, unit) act" where
  "pbuf_cat h t =
     (if h = None \<or> t = None then act_return ()
      else
        act_bind (cat_loop chain_fuel h t) (\<lambda>p.
        act_bind (pb_get t) (\<lambda>bt.
        pb_modify p (\<lambda>b. b\<lparr>pb_tot_len := pb_tot_len b + pb_tot_len bt, pb_next := t\<rparr>))))"

definition pbuf_chain :: "pptr option \<Rightarrow> pptr option \<Rightarrow> ('h pbuf_sys, unit) act" where
  "pbuf_chain h t = act_bind (pbuf_cat h t) (\<lambda>_. pbuf_ref t)"

definition pbuf_dechain :: "'h mem_env \<Rightarrow> pptr option \<Rightarrow> ('h pbuf_sys, pptr option) act" where
  "pbuf_dechain E p =
     act_bind (pb_get p) (\<lambda>b.
     let q = pb_next b in
     act_bind (if q \<noteq> None then
         act_bind (pb_modify q (pb_tot_len_update (\<lambda>_. pb_tot_len b - pb_len b))) (\<lambda>_.
         act_bind (pb_modify p (\<lambda>b. b\<lparr>pb_next := None, pb_tot_len := pb_len b\<rparr>)) (\<lambda>_.
         pbuf_free E q))
       else act_return 1) (\<lambda>tail_gone.
     act_return (if tail_gone > 0 then None else q)))"

section \<open>Copying and reading\<close>

text \<open>
  \<^verbatim>\<open>pbuf_copy_partial_pbuf\<close>: the offsets are 32-bit, the remaining length 16-bit; the bytes of
  one round are copied between the two current buffers.
\<close>

text \<open>A buffer that ends its packet although another one follows is part of a queue.\<close>

definition ends_queue :: "pptr option \<Rightarrow> ('h pbuf_sys, bool) act" where
  "ends_queue p =
     (if p = None then act_return False
      else act_bind (pb_get p) (\<lambda>b. act_return (pb_len b = pb_tot_len b \<and> pb_next b \<noteq> None)))"

definition copy_pbuf_step :: "pptr option \<Rightarrow> pptr option \<Rightarrow> u16 \<Rightarrow> u32 \<Rightarrow> u32 \<Rightarrow>
    ('h pbuf_sys, err_t + pptr option \<times> pptr option \<times> u16 \<times> u32 \<times> u32) act" where
  "copy_pbuf_step to from copy_len offset_to offset_from =
     act_bind (pb_get to) (\<lambda>bt.
     act_bind (pb_get from) (\<lambda>bf.
     let room_to = ucast (pb_len bt) - offset_to;
         room_from = ucast (pb_len bf) - offset_from;
         l = min (ucast copy_len) (if room_to \<ge> room_from then room_from else room_to)
     in
     act_bind (pb_read from (unat offset_from) (unat l)) (\<lambda>bs.
     act_bind (pb_write to (unat offset_to) bs) (\<lambda>_.
     let offset_to = offset_to + l; offset_from = offset_from + l; copy_len = copy_len - ucast l;
         next_from = (offset_from \<ge> ucast (pb_len bf));
         from = (if next_from then pb_next bf else from);
         offset_from = (if next_from then 0 else offset_from);
         next_to = (offset_to = ucast (pb_len bt));
         to' = (if next_to then pb_next bt else to);
         offset_to = (if next_to then 0 else offset_to)
     in
     if next_from \<and> from = None \<and> copy_len \<noteq> 0 then act_return (Inl ERR_ARG)
     else if next_to \<and> to' = None \<and> copy_len \<noteq> 0 then act_return (Inl ERR_ARG)
     else
       act_bind (ends_queue from) (\<lambda>queue.
       if queue then act_return (Inl ERR_VAL)
       else act_bind (ends_queue to') (\<lambda>queue.
       if queue then act_return (Inl ERR_VAL)
       else act_return (Inr (to', from, copy_len, offset_to, offset_from))))))))"

primrec copy_pbuf_loop :: "nat \<Rightarrow> pptr option \<Rightarrow> pptr option \<Rightarrow> u16 \<Rightarrow> u32 \<Rightarrow> u32 \<Rightarrow> ('h pbuf_sys, err_t) act" where
  "copy_pbuf_loop 0 to from copy_len offset_to offset_from = act_fail NoReturn"
| "copy_pbuf_loop (Suc fuel) to from copy_len offset_to offset_from =
     act_bind (copy_pbuf_step to from copy_len offset_to offset_from) (\<lambda>r.
     case r of
       Inl e \<Rightarrow> act_return e
     | Inr (to, from, copy_len, offset_to, offset_from) \<Rightarrow>
         if copy_len \<noteq> 0 then copy_pbuf_loop fuel to from copy_len offset_to offset_from
         else act_return ERR_OK)"

definition pbuf_copy_partial_pbuf ::
    "pptr option \<Rightarrow> pptr option \<Rightarrow> u16 \<Rightarrow> u16 \<Rightarrow> ('h pbuf_sys, err_t) act" where
  "pbuf_copy_partial_pbuf to from copy_len offset =
     (if from = None then act_return ERR_ARG
      else act_bind (pb_get from) (\<lambda>bf.
      if \<not> pb_tot_len bf \<ge> copy_len then act_return ERR_ARG
      else if to = None then act_return ERR_ARG
      else act_bind (pb_get to) (\<lambda>bt.
      if \<not> unat (pb_tot_len bt) \<ge> unat offset + unat copy_len then act_return ERR_ARG
      else copy_pbuf_loop (2 * chain_fuel) to from copy_len (ucast offset) 0)))"

definition pbuf_copy :: "pptr option \<Rightarrow> pptr option \<Rightarrow> ('h pbuf_sys, err_t) act" where
  "pbuf_copy to from =
     (if from = None then act_return ERR_ARG
      else act_bind (pb_get from) (\<lambda>b. pbuf_copy_partial_pbuf to from (pb_tot_len b) 0))"

text \<open>
  \<^verbatim>\<open>pbuf_copy_partial\<close>: the bytes stored at the destination, in order, and the returned count.
\<close>

fun copy_partial_loop :: "nat \<Rightarrow> pptr option \<Rightarrow> u16 \<Rightarrow> u16 \<Rightarrow> u8 list \<Rightarrow> u16 \<Rightarrow> ('h pbuf_sys, u8 list \<times> u16) act" where
  "copy_partial_loop 0 p l offset out copied = act_fail NoReturn"
| "copy_partial_loop (Suc fuel) p l offset out copied =
     (if l = 0 \<or> p = None then act_return (out, copied)
      else
        act_bind (pb_get p) (\<lambda>b.
        if offset \<noteq> 0 \<and> offset \<ge> pb_len b then
          copy_partial_loop fuel (pb_next b) l (offset - pb_len b) out copied
        else
          let n = min l (pb_len b - offset) in
          act_bind (pb_read p (unat offset) (unat n)) (\<lambda>bs.
          copy_partial_loop fuel (pb_next b) (l - n) 0 (out @ bs) (copied + n))))"

definition pbuf_copy_partial :: "pptr option \<Rightarrow> u16 \<Rightarrow> u16 \<Rightarrow> ('h pbuf_sys, u8 list \<times> u16) act" where
  "pbuf_copy_partial p l offset =
     (if p = None then act_return ([], 0) else copy_partial_loop chain_fuel p l offset [] 0)"

fun skip_loop :: "nat \<Rightarrow> pptr option \<Rightarrow> u16 \<Rightarrow> ('h pbuf_sys, pptr option \<times> u16) act" where
  "skip_loop 0 q offset_left = act_fail NoReturn"
| "skip_loop (Suc fuel) q offset_left =
     (if q = None then act_return (q, offset_left)
      else
        act_bind (pb_get q) (\<lambda>b.
        if pb_len b \<le> offset_left then skip_loop fuel (pb_next b) (offset_left - pb_len b)
        else act_return (q, offset_left)))"

definition pbuf_skip :: "pptr option \<Rightarrow> u16 \<Rightarrow> ('h pbuf_sys, pptr option \<times> u16) act" where
  "pbuf_skip p offset = skip_loop chain_fuel p offset"

text \<open>
  \<^verbatim>\<open>pbuf_get_contiguous\<close>: where the result points to, and its bytes.
\<close>

datatype contiguous = InPayload pptr nat "u8 list" | InBuffer "u8 list"

definition pbuf_get_contiguous :: "pptr option \<Rightarrow> u32 \<Rightarrow> u16 \<Rightarrow> u16 \<Rightarrow> ('h pbuf_sys, contiguous option) act" where
  "pbuf_get_contiguous p bufsize l offset =
     (if p = None \<or> bufsize < ucast l then act_return None
      else
        act_bind (pbuf_skip p offset) (\<lambda>(q, out_offset).
        case q of
          None \<Rightarrow> act_return None
        | Some x \<Rightarrow>
            act_bind (pb_get q) (\<lambda>b.
            if unat (pb_len b) \<ge> unat out_offset + unat l then
              act_bind (pb_read q (unat out_offset) (unat l)) (\<lambda>bs.
              act_return (Some (InPayload x (unat out_offset) bs)))
            else
              act_bind (pbuf_copy_partial q l out_offset) (\<lambda>(bs, n).
              act_return (if n \<noteq> l then None else Some (InBuffer bs))))))"

fun take_loop :: "nat \<Rightarrow> pptr option \<Rightarrow> u8 list \<Rightarrow> ('h pbuf_sys, unit) act" where
  "take_loop 0 p bs = act_fail NoReturn"
| "take_loop (Suc fuel) p bs =
     (if bs = [] then act_return ()
      else
        act_bind (pb_get p) (\<lambda>b.
        let n = min (length bs) (unat (pb_len b)) in
        act_bind (pb_write p 0 (take n bs)) (\<lambda>_.
        take_loop fuel (pb_next b) (drop n bs))))"

definition pbuf_take :: "pptr option \<Rightarrow> u8 list \<Rightarrow> ('h pbuf_sys, err_t) act" where
  "pbuf_take p bs =
     (if p = None then act_return ERR_ARG
      else act_bind (pb_get p) (\<lambda>b.
      if \<not> unat (pb_tot_len b) \<ge> length bs then act_return ERR_MEM
      else act_bind (take_loop chain_fuel p bs) (\<lambda>_. act_return ERR_OK)))"

definition pbuf_take_at :: "pptr option \<Rightarrow> u8 list \<Rightarrow> u16 \<Rightarrow> ('h pbuf_sys, err_t) act" where
  "pbuf_take_at p bs offset =
     act_bind (pbuf_skip p offset) (\<lambda>(q, target).
     if q = None then act_return ERR_MEM
     else
       act_bind (pb_get q) (\<lambda>b.
       if unat (pb_tot_len b) \<ge> unat target + length bs then
         let first = min (unat (pb_len b) - unat target) (length bs) in
         act_bind (pb_write q (unat target) (take first bs)) (\<lambda>_.
         if first < length bs then pbuf_take (pb_next b) (drop first bs) else act_return ERR_OK)
       else act_return ERR_MEM))"

definition pbuf_clone :: "'h mem_env \<Rightarrow> pbuf_layer \<Rightarrow> pbuf_type \<Rightarrow> pptr option \<Rightarrow> ('h pbuf_sys, pptr option) act" where
  "pbuf_clone E layer type p =
     act_bind (pb_get p) (\<lambda>b.
     act_bind (pbuf_alloc E layer (pb_tot_len b) type) (\<lambda>q.
     if q = None then act_return None
     else act_bind (pbuf_copy q p) (\<lambda>_. act_return q)))"

definition pbuf_coalesce :: "'h mem_env \<Rightarrow> pptr option \<Rightarrow> pbuf_layer \<Rightarrow> ('h pbuf_sys, pptr option) act" where
  "pbuf_coalesce E p layer =
     act_bind (pb_get p) (\<lambda>b.
     if pb_next b = None then act_return p
     else
       act_bind (pbuf_clone E layer PBUF_RAM p) (\<lambda>q.
       if q = None then act_return p
       else act_bind (pbuf_free E p) (\<lambda>_. act_return q)))"

definition pbuf_try_get_at :: "pptr option \<Rightarrow> u16 \<Rightarrow> ('h pbuf_sys, int) act" where
  "pbuf_try_get_at p offset =
     act_bind (pbuf_skip p offset) (\<lambda>(q, q_idx).
     if q = None then act_return (- 1)
     else
       act_bind (pb_get q) (\<lambda>b.
       if pb_len b > q_idx then
         act_bind (pb_read q (unat q_idx) 1) (\<lambda>bs. act_return (uint (hd bs)))
       else act_return (- 1)))"

definition pbuf_get_at :: "pptr option \<Rightarrow> u16 \<Rightarrow> ('h pbuf_sys, u8) act" where
  "pbuf_get_at p offset =
     act_bind (pbuf_try_get_at p offset) (\<lambda>ret. act_return (if ret \<ge> 0 then of_int ret else 0))"

definition pbuf_put_at :: "pptr option \<Rightarrow> u16 \<Rightarrow> u8 \<Rightarrow> ('h pbuf_sys, unit) act" where
  "pbuf_put_at p offset data =
     act_bind (pbuf_skip p offset) (\<lambda>(q, q_idx).
     if q = None then act_return ()
     else
       act_bind (pb_get q) (\<lambda>b.
       if pb_len b > q_idx then pb_write q (unat q_idx) [data] else act_return ()))"

fun memcmp_loop :: "pptr option \<Rightarrow> u16 \<Rightarrow> nat \<Rightarrow> u8 list \<Rightarrow> ('h pbuf_sys, u16) act" where
  "memcmp_loop q start i [] = act_return 0"
| "memcmp_loop q start i (b # bs) =
     act_bind (pbuf_get_at q (start + of_nat i)) (\<lambda>a.
     if a \<noteq> b then act_return (of_nat (min (i + 1) 0xFFFF)) else memcmp_loop q start (i + 1) bs)"

definition pbuf_memcmp :: "pptr option \<Rightarrow> u16 \<Rightarrow> u8 list \<Rightarrow> ('h pbuf_sys, u16) act" where
  "pbuf_memcmp p offset s2 =
     act_bind (pb_get p) (\<lambda>b.
     if unat (pb_tot_len b) < unat offset + length s2 then act_return 0xFFFF
     else
       act_bind (skip_loop chain_fuel p offset) (\<lambda>(q, start).
       memcmp_loop q start 0 s2))"

text \<open>The search of \<^verbatim>\<open>pbuf_memfind\<close>; the index is 16-bit and the bound is inclusive.\<close>

fun memfind_loop :: "nat \<Rightarrow> pptr option \<Rightarrow> u8 list \<Rightarrow> u16 \<Rightarrow> u16 \<Rightarrow> ('h pbuf_sys, u16) act" where
  "memfind_loop 0 p s i max_cmp_start = act_fail NoReturn"
| "memfind_loop (Suc fuel) p s i max_cmp_start =
     (if \<not> i \<le> max_cmp_start then act_return 0xFFFF
      else
        act_bind (pbuf_memcmp p i s) (\<lambda>plus.
        if plus = 0 then act_return i else memfind_loop fuel p s (i + 1) max_cmp_start))"

definition pbuf_memfind :: "pptr option \<Rightarrow> u8 list \<Rightarrow> u16 \<Rightarrow> ('h pbuf_sys, u16) act" where
  "pbuf_memfind p s start_offset =
     act_bind (pb_get p) (\<lambda>b.
     if unat (pb_tot_len b) \<ge> length s + unat start_offset then
       memfind_loop chain_fuel p s start_offset (pb_tot_len b - of_nat (length s))
     else act_return 0xFFFF)"

definition pbuf_strstr :: "pptr option \<Rightarrow> u8 list option \<Rightarrow> ('h pbuf_sys, u16) act" where
  "pbuf_strstr p substr =
     (case substr of
        None \<Rightarrow> act_return 0xFFFF
      | Some s \<Rightarrow>
          if s = [] then act_return 0xFFFF
          else act_bind (pb_get p) (\<lambda>b.
            if pb_tot_len b = 0xFFFF \<or> length s \<ge> 0xFFFF then act_return 0xFFFF
            else pbuf_memfind p s 0))"

end
