(* ===== verification/Lwip_Chain.thy ===== *)
theory Lwip_Chain
  imports Lwip_Pbuf
begin

text \<open>
  Chains of packet buffers and the data they carry: the invariant the stack documents for
  \<^verbatim>\<open>struct pbuf\<close> (every \<^verbatim>\<open>tot_len\<close> is the length of the rest of the packet), the
  reading operations as operations on the carried bytes, concatenation, and release.
\<close>

section \<open>Segments and packets\<close>

type_synonym pheap = "pptr \<Rightarrow> pbuf option"

definition blen :: "pheap \<Rightarrow> pptr \<Rightarrow> nat" where
  "blen h x = (case h x of None \<Rightarrow> 0 | Some b \<Rightarrow> unat (pb_len b))"

definition lens :: "pheap \<Rightarrow> pptr list \<Rightarrow> nat" where
  "lens h xs = sum_list (map (blen h) xs)"

definition bdata :: "pheap \<Rightarrow> pptr \<Rightarrow> u8 list" where
  "bdata h x = (case h x of None \<Rightarrow> [] | Some b \<Rightarrow> payload_bytes b 0 (unat (pb_len b)))"

definition chain_data :: "pheap \<Rightarrow> pptr list \<Rightarrow> u8 list" where
  "chain_data h xs = concat (map (bdata h) xs)"

text \<open>
  A segment from \<open>p\<close> over the buffers \<open>xs\<close> to the pointer \<open>e\<close>; behind it the packet has \<open>k\<close> more
  bytes.
\<close>

fun seg :: "pheap \<Rightarrow> pptr option \<Rightarrow> pptr list \<Rightarrow> pptr option \<Rightarrow> nat \<Rightarrow> bool" where
  "seg h p [] e k \<longleftrightarrow> p = e"
| "seg h p (x # xs) e k \<longleftrightarrow> p = Some x \<and> (\<exists>b. h x = Some b \<and> payload_ok b 0 (unat (pb_len b))
     \<and> unat (pb_tot_len b) = unat (pb_len b) + lens h xs + k \<and> seg h (pb_next b) xs e k)"

definition packet :: "pheap \<Rightarrow> pptr option \<Rightarrow> pptr list \<Rightarrow> bool" where
  "packet h p xs \<longleftrightarrow> seg h p xs None 0 \<and> distinct xs"

lemma lens_simps [simp]: "lens h [] = 0" "lens h (x # xs) = blen h x + lens h xs"
    "lens h (xs @ ys) = lens h xs + lens h ys"
  by (simp_all add: lens_def)

lemma chain_data_simps [simp]: "chain_data h [] = []" "chain_data h (x # xs) = bdata h x @ chain_data h xs"
    "chain_data h (xs @ ys) = chain_data h xs @ chain_data h ys"
  by (simp_all add: chain_data_def)

lemma blen_Some [simp]: "h x = Some b \<Longrightarrow> blen h x = unat (pb_len b)"
  by (simp add: blen_def)

lemma bdata_Some: "h x = Some b \<Longrightarrow> bdata h x = payload_bytes b 0 (unat (pb_len b))"
  by (simp add: bdata_def)

lemma blen_upd [simp]: "x \<noteq> y \<Longrightarrow> blen (h(y := v)) x = blen h x" "blen (h(y \<mapsto> b)) y = unat (pb_len b)"
  by (simp_all add: blen_def)

lemma lens_upd [simp]: "y \<notin> set xs \<Longrightarrow> lens (h(y := v)) xs = lens h xs"
  unfolding lens_def by (intro arg_cong [where f = sum_list] map_cong) (auto simp: blen_def)

lemma chain_data_upd [simp]: "y \<notin> set xs \<Longrightarrow> chain_data (h(y := v)) xs = chain_data h xs"
  unfolding chain_data_def by (intro arg_cong [where f = concat] map_cong) (auto simp: bdata_def)

lemma seg_upd [simp]: "y \<notin> set xs \<Longrightarrow> seg (h(y := v)) p xs e k = seg h p xs e k"
  by (induction xs arbitrary: p) auto

lemma seg_append: "seg h p (xs @ ys) e k \<longleftrightarrow> (\<exists>q. seg h p xs q (lens h ys + k) \<and> seg h q ys e k)"
  by (induction xs arbitrary: p) (auto simp: ac_simps)

lemma length_bdata:
  assumes "h x = Some b" "payload_ok b 0 (unat (pb_len b))"
  shows "length (bdata h x) = unat (pb_len b)"
  using assms by (auto simp: bdata_def payload_bytes_def payload_ok_def split: option.splits)

lemma seg_length: "seg h p xs e k \<Longrightarrow> length (chain_data h xs) = lens h xs"
  by (induction xs arbitrary: p) (auto simp: length_bdata)

lemma seg_bound: "seg h p xs e k \<Longrightarrow> xs \<noteq> [] \<Longrightarrow> lens h xs + k < 65536"
proof (cases xs)
  case (Cons x xs')
  assume "seg h p xs e k"
  then obtain b where "h x = Some b" "unat (pb_tot_len b) = unat (pb_len b) + lens h xs' + k"
    using Cons by auto
  then show ?thesis using Cons unat_u16_bound [of "pb_tot_len b"] by simp
qed simp

lemma seg_objs: "seg h p xs e k \<Longrightarrow> x \<in> set xs \<Longrightarrow> \<exists>b. h x = Some b"
  by (induction xs arbitrary: p) auto

text \<open>The carried data depends on the payload fields only.\<close>

lemma data_upd_same:
  assumes "h x = Some b" "pb_payload b' = pb_payload b" "pb_len b' = pb_len b" "pb_mem b' = pb_mem b"
  shows "blen (h(x \<mapsto> b')) z = blen h z" "bdata (h(x \<mapsto> b')) z = bdata h z"
  using assms by (simp_all add: blen_def bdata_def payload_bytes_def split: option.split)

lemma data_ext:
  assumes "\<And>z. blen h' z = blen h z \<and> bdata h' z = bdata h z"
  shows "lens h' = lens h" "chain_data h' = chain_data h"
proof -
  have eq: "blen h' = blen h" "bdata h' = bdata h" using assms by (simp_all add: fun_eq_iff)
  show "lens h' = lens h" "chain_data h' = chain_data h"
    by (rule ext, simp only: lens_def chain_data_def eq)+
qed

section \<open>Access\<close>

lemma pb_get_Some [simp]: "pb_obj s x = Some b \<Longrightarrow> pb_get (Some x) s = Inr (b, s)"
  by (simp add: pb_get_def)

lemma pb_modify_Some [simp]:
  "pb_obj s x = Some b \<Longrightarrow> pb_modify (Some x) f s = Inr ((), s\<lparr>pb_obj := (pb_obj s)(x \<mapsto> f b)\<rparr>)"
  by (simp add: pb_modify_def)

lemma pb_read_Some [simp]:
  "pb_obj s x = Some b \<Longrightarrow> payload_ok b off n \<Longrightarrow> pb_read (Some x) off n s = Inr (payload_bytes b off n, s)"
  by (simp add: pb_read_def act_defs)

lemma pb_write_Some [simp]:
  "pb_obj s x = Some b \<Longrightarrow> payload_ok b off (length bs) \<Longrightarrow>
     pb_write (Some x) off bs s = Inr ((), s\<lparr>pb_obj := (pb_obj s)(x \<mapsto> payload_write off bs b)\<rparr>)"
  by (simp add: pb_write_def act_defs)

lemma payload_ok_part: "payload_ok b 0 n \<Longrightarrow> off + m \<le> n \<Longrightarrow> payload_ok b off m"
  by (auto simp: payload_ok_def)

lemma payload_bytes_part:
  assumes "payload_ok b 0 n" "off + m \<le> n"
  shows "payload_bytes b off m = take m (drop off (payload_bytes b 0 n))"
proof (cases "m = 0")
  case True
  then show ?thesis by (simp add: payload_bytes_def split: option.split)
next
  case False
  then obtain a where "pb_payload b = Some a" using assms by (auto simp: payload_ok_def)
  then show ?thesis using assms
    by (simp add: payload_bytes_def drop_take min_def) (simp add: add.commute)
qed

section \<open>Copying out of a packet\<close>

lemma copy_partial_loop_eq:
  assumes "seg (pb_obj s) p xs None k" "length xs < fuel"
  shows "copy_partial_loop fuel p l offset out copied s =
    (let bs = take (unat l) (drop (unat offset) (chain_data (pb_obj s) xs))
     in Inr ((out @ bs, copied + of_nat (length bs)), s))"
  using assms
proof (induction xs arbitrary: fuel p l offset out copied)
  case Nil
  then obtain f where "fuel = Suc f" by (cases fuel) auto
  then show ?case using Nil by (simp add: act_defs)
next
  case (Cons x xs)
  then obtain f where f: "fuel = Suc f" "length xs < f" by (cases fuel) auto
  obtain b where b: "p = Some x" "pb_obj s x = Some b" "payload_ok b 0 (unat (pb_len b))"
    and seg: "seg (pb_obj s) (pb_next b) xs None k" using Cons.prems by auto
  let ?d = "bdata (pb_obj s) x" and ?D = "chain_data (pb_obj s) xs"
  have d: "length ?d = unat (pb_len b)" using length_bdata [of "pb_obj s" x b] b(2,3) by simp
  note IH = Cons.IH [OF seg f(2)]
  consider "l = 0" | "l \<noteq> 0" "offset \<noteq> 0" "pb_len b \<le> offset" | "l \<noteq> 0" "offset < pb_len b \<or> offset = 0"
    by fastforce
  then show ?case
  proof cases
    case 1
    then show ?thesis by (simp add: f act_defs)
  next
    case 2
    have "unat (offset - pb_len b) = unat offset - unat (pb_len b)" "unat (pb_len b) \<le> unat offset"
      using 2(3) by (simp_all add: unat_sub word_le_nat_alt)
    then show ?thesis using 2 b d by (simp add: f act_defs IH Let_def)
  next
    case 3
    then have off: "unat offset \<le> unat (pb_len b)" by (auto simp: word_less_nat_alt)
    let ?n = "min l (pb_len b - offset)"
    have n: "unat ?n = min (unat l) (unat (pb_len b) - unat offset)"
      using off by (simp add: min_def word_le_nat_alt unat_sub)
    have sub: "unat (l - ?n) = unat l - unat ?n" using n by (simp add: unat_sub word_le_nat_alt)
    have part: "payload_bytes b (unat offset) (unat ?n) = take (unat ?n) (drop (unat offset) ?d)"
      using payload_bytes_part [OF b(3), of "unat offset" "unat ?n"] n off b(2) by (simp add: bdata_Some)
    have rd: "pb_read p (unat offset) (unat ?n) s = Inr (take (unat ?n) (drop (unat offset) ?d), s)"
      unfolding b(1) part [symmetric] using b(2) n off
      by (intro pb_read_Some payload_ok_part [OF b(3)]) simp_all
    have split: "take (unat l) (drop (unat offset) (?d @ ?D)) =
        take (unat ?n) (drop (unat offset) ?d) @ take (unat l - unat ?n) ?D"
      using off d n by (simp add: take_append min_def)
    have "length (take (unat ?n) (drop (unat offset) ?d)) = unat ?n" using d n off by simp
    then have cnt: "of_nat (length (take (unat ?n) (drop (unat offset) ?d))) = ?n" by (simp only: of_nat_unat ucast_id)
    have guard: "\<not> (offset \<noteq> 0 \<and> pb_len b \<le> offset)" using 3 by auto
    have "copy_partial_loop fuel p l offset out copied s =
        copy_partial_loop f (pb_next b) (l - ?n) 0 (out @ take (unat ?n) (drop (unat offset) ?d)) (copied + ?n) s"
      using 3(1) guard rd b by (auto simp: f act_defs Let_def)
    then show ?thesis
      using split cnt by (simp add: IH Let_def sub add.assoc)
  qed
qed

lemma pbuf_copy_partial_eq:
  assumes "packet (pb_obj s) p xs" "p \<noteq> None" "length xs < chain_fuel"
  shows "pbuf_copy_partial p l offset s =
    (let bs = take (unat l) (drop (unat offset) (chain_data (pb_obj s) xs)) in Inr ((bs, of_nat (length bs)), s))"
  using copy_partial_loop_eq [of s p xs 0 chain_fuel l offset "[]" 0] assms
  by (auto simp: packet_def pbuf_copy_partial_def Let_def)

section \<open>Writing into a packet\<close>

lemma pb_payload_write_fields [simp]:
  "pb_len (payload_write off bs b) = pb_len b" "pb_tot_len (payload_write off bs b) = pb_tot_len b"
  "pb_next (payload_write off bs b) = pb_next b" "pb_ref (payload_write off bs b) = pb_ref b"
  "pb_payload (payload_write off bs b) = pb_payload b" "pb_flags (payload_write off bs b) = pb_flags b"
  "pb_type_internal (payload_write off bs b) = pb_type_internal b"
  by (simp_all add: payload_write_def split: option.split)

lemma length_mem_write: "i + length bs \<le> length xs \<Longrightarrow> length (mem_write i bs xs) = length xs"
  by (simp add: mem_write_def)

lemma mem_write_append: "mem_write (length xs + off) bs (xs @ ys) = xs @ mem_write off bs ys"
  by (simp add: mem_write_def)

lemma mem_write_front: "off + length bs \<le> length ys \<Longrightarrow> mem_write off bs (ys @ zs) = mem_write off bs ys @ zs"
  by (simp add: mem_write_def)

lemma payload_ok_write:
  assumes "payload_ok b 0 n" "off + length bs \<le> n"
  shows "payload_ok (payload_write off bs b) off' m \<longleftrightarrow> payload_ok b off' m"
  using assms
  by (cases "n = 0") (auto simp: payload_ok_def payload_write_def length_mem_write mem_write_def split: option.split)

lemma payload_bytes_write:
  assumes "payload_ok b 0 n" "off + length bs \<le> n"
  shows "payload_bytes (payload_write off bs b) 0 n = mem_write off bs (payload_bytes b 0 n)"
proof (cases "n = 0")
  case True
  then show ?thesis using assms by (simp add: payload_bytes_def mem_write_def split: option.split)
next
  case False
  then obtain a where a: "pb_payload b = Some a" "a + n \<le> length (pb_mem b)"
    using assms(1) by (auto simp: payload_ok_def)
  define x D z where "x = take a (pb_mem b)" and "D = payload_bytes b 0 n" and "z = drop (a + n) (pb_mem b)"
  have D: "length x = a" "length D = n" "pb_mem b = x @ D @ z"
    using a by (simp_all add: x_def D_def z_def payload_bytes_def)
      (metis append_take_drop_id drop_drop add.commute)
  have w: "mem_write (a + off) bs (x @ D @ z) = x @ mem_write off bs D @ z"
    using mem_write_append [of x "off" bs "D @ z"] mem_write_front [of off bs D z] assms(2) D(1,2) by simp
  have "length (mem_write off bs D) = n" using length_mem_write assms(2) D(2) by simp
  then have "payload_bytes (payload_write off bs b) 0 n = mem_write off bs D"
    using a(1) D(1) by (simp add: payload_bytes_def payload_write_def D(3) w)
  then show ?thesis by (simp add: D_def)
qed

lemma mem_write_0: "mem_write 0 bs xs = bs @ drop (length bs) xs"
  by (simp add: mem_write_def)

lemma take_loop_run:
  assumes "seg (pb_obj s) p xs None k" "distinct xs" "length bs \<le> lens (pb_obj s) xs" "length xs < fuel"
  shows "\<exists>h. take_loop fuel p bs s = Inr ((), s\<lparr>pb_obj := h\<rparr>) \<and> seg h p xs None k
    \<and> chain_data h xs = bs @ drop (length bs) (chain_data (pb_obj s) xs)
    \<and> (\<forall>y. y \<notin> set xs \<longrightarrow> h y = pb_obj s y) \<and> (\<forall>y. blen h y = blen (pb_obj s) y)"
  using assms
proof (induction xs arbitrary: s p bs fuel)
  case Nil
  then obtain f where "fuel = Suc f" by (cases fuel) auto
  then show ?case using Nil by (auto simp: act_defs intro!: exI [of _ "pb_obj s"])
next
  case (Cons x xs)
  then obtain f where f: "fuel = Suc f" "length xs < f" by (cases fuel) auto
  show ?case
  proof (cases "bs = []")
    case True
    then show ?thesis using Cons.prems by (auto simp: f act_defs intro!: exI [of _ "pb_obj s"])
  next
    case False
    obtain b where b: "p = Some x" "pb_obj s x = Some b" "payload_ok b 0 (unat (pb_len b))"
        "unat (pb_tot_len b) = unat (pb_len b) + lens (pb_obj s) xs + k"
      and seg: "seg (pb_obj s) (pb_next b) xs None k" using Cons.prems by auto
    define n where "n = min (length bs) (unat (pb_len b))"
    define s1 where "s1 = s\<lparr>pb_obj := (pb_obj s)(x \<mapsto> payload_write 0 (take n bs) b)\<rparr>"
    have x: "x \<notin> set xs" "distinct xs" using Cons.prems(2) by auto
    have step: "take_loop fuel p bs s = take_loop f (pb_next b) (drop n bs) s1"
      using False b payload_ok_part [OF b(3), of 0 n]
      by (simp add: f act_defs Let_def n_def s1_def)
    have "seg (pb_obj s1) (pb_next b) xs None k" using seg x(1) by (simp add: s1_def)
    moreover have "length (drop n bs) \<le> lens (pb_obj s1) xs"
      using Cons.prems(3) x(1) b(2) by (auto simp: s1_def n_def)
    ultimately obtain h where h: "take_loop f (pb_next b) (drop n bs) s1 = Inr ((), s1\<lparr>pb_obj := h\<rparr>)"
        "seg h (pb_next b) xs None k" "chain_data h xs = drop n bs @ drop (length bs - n) (chain_data (pb_obj s1) xs)"
        "\<forall>y. y \<notin> set xs \<longrightarrow> h y = pb_obj s1 y" "\<forall>y. blen h y = blen (pb_obj s1) y"
      using Cons.IH [of s1 "pb_next b" "drop n bs" f] x(2) f(2) by auto
    have hx: "h x = Some (payload_write 0 (take n bs) b)" using h(4) x(1) by (simp add: s1_def)
    have lens: "lens h xs = lens (pb_obj s) xs"
      unfolding lens_def using h(5) x(1) by (intro arg_cong [where f = sum_list] map_cong) (auto simp: s1_def blen_def)
    have n: "n \<le> unat (pb_len b)" "n \<le> length bs" by (simp_all add: n_def)
    have blen: "blen h y = blen (pb_obj s) y" for y
      using h(5) b(2) by (cases "y = x") (simp_all add: s1_def)
    have data: "bdata h x = take n bs @ drop n (bdata (pb_obj s) x)"
      using payload_bytes_write [OF b(3), of 0 "take n bs"] n hx b(2) by (simp add: bdata_def mem_write_0)
    have seg': "seg h p (x # xs) None k"
      using h(2) hx b lens n by (auto simp: payload_ok_write [OF b(3)])
    have rest: "chain_data (pb_obj s1) xs = chain_data (pb_obj s) xs" using x(1) by (simp add: s1_def)
    have ld: "length (bdata (pb_obj s) x) = unat (pb_len b)" using length_bdata [of "pb_obj s" x b] b by simp
    have "chain_data h (x # xs) = bs @ drop (length bs) (chain_data (pb_obj s) (x # xs))"
    proof (cases "length bs \<le> unat (pb_len b)")
      case True
      then have "n = length bs" by (simp add: n_def)
      then show ?thesis using data h(3) rest ld True by simp
    next
      case False
      then have "n = unat (pb_len b)" by (simp add: n_def)
      then show ?thesis using data h(3) rest ld False by (simp add: append_assoc [symmetric] del: append_assoc)
    qed
    moreover have "h y = pb_obj s y" if "y \<notin> set (x # xs)" for y
      using h(4) that by (simp add: s1_def)
    ultimately show ?thesis
      using step h(1) seg' blen by (intro exI [of _ h]) (auto simp: s1_def)
  qed
qed

lemma pbuf_take_run:
  assumes "packet (pb_obj s) p xs" "p \<noteq> None" "length bs \<le> lens (pb_obj s) xs" "length xs < chain_fuel"
  shows "\<exists>h. pbuf_take p bs s = Inr (ERR_OK, s\<lparr>pb_obj := h\<rparr>) \<and> packet h p xs
    \<and> chain_data h xs = bs @ drop (length bs) (chain_data (pb_obj s) xs) \<and> (\<forall>y. y \<notin> set xs \<longrightarrow> h y = pb_obj s y)"
proof -
  obtain x xs' b where x: "xs = x # xs'" "p = Some x" "pb_obj s x = Some b"
      "unat (pb_tot_len b) = lens (pb_obj s) xs"
    using assms(1,2) by (cases xs) (auto simp: packet_def)
  obtain h where h: "take_loop chain_fuel p bs s = Inr ((), s\<lparr>pb_obj := h\<rparr>)" "seg h p xs None 0"
      "chain_data h xs = bs @ drop (length bs) (chain_data (pb_obj s) xs)" "\<forall>y. y \<notin> set xs \<longrightarrow> h y = pb_obj s y"
    using take_loop_run [of s p xs 0 bs chain_fuel] assms by (auto simp: packet_def)
  then show ?thesis
    using assms x(2-4) by (intro exI [of _ h]) (simp add: pbuf_take_def act_defs packet_def)
qed

end
