(* ===== verification/Lwip_Alloc.thy ===== *)
theory Lwip_Alloc
  imports Lwip_Chain
begin

text \<open>
  Concatenation, release and allocation of packet buffers (lib/lwip/src/core/pbuf.c): what they do to
  the chain, to the reference counts and to the pool.
\<close>

section \<open>Concatenation\<close>

definition cat_step :: "nat \<Rightarrow> pptr option \<Rightarrow> pptr option \<Rightarrow> ('h pbuf_sys, unit) act" where
  "cat_step fuel h t =
     act_bind (cat_loop fuel h t) (\<lambda>p.
     act_bind (pb_get t) (\<lambda>bt.
     pb_modify p (\<lambda>b. b\<lparr>pb_tot_len := pb_tot_len b + pb_tot_len bt, pb_next := t\<rparr>)))"

lemma u16_add_no_wrap: "unat (a :: u16) + unat b < 65536 \<Longrightarrow> unat (a + b) = unat a + unat b"
  by (simp add: unat_u16_add)

lemma cat_run:
  assumes "seg (pb_obj s) p xs None 0" "xs \<noteq> []" "distinct xs" "y \<notin> set xs" "pb_obj s y = Some bt"
    and "lens (pb_obj s) xs + unat (pb_tot_len bt) < 65536" "length xs \<le> fuel"
  shows "\<exists>h. cat_step fuel p (Some y) s = Inr ((), s\<lparr>pb_obj := h\<rparr>)
    \<and> seg h p xs (Some y) (unat (pb_tot_len bt)) \<and> (\<forall>z. z \<notin> set xs \<longrightarrow> h z = pb_obj s z)
    \<and> (\<forall>z. blen h z = blen (pb_obj s) z \<and> bdata h z = bdata (pb_obj s) z)"
  using assms
proof (induction xs arbitrary: s p fuel)
  case (Cons x xs)
  then obtain f where f: "fuel = Suc f" "length xs \<le> f" by (cases fuel) auto
  obtain b where b: "p = Some x" "pb_obj s x = Some b" "payload_ok b 0 (unat (pb_len b))"
      "unat (pb_tot_len b) = unat (pb_len b) + lens (pb_obj s) xs"
    and seg: "seg (pb_obj s) (pb_next b) xs None 0" using Cons.prems by auto
  have tot: "unat (pb_tot_len b + pb_tot_len bt) = unat (pb_tot_len b) + unat (pb_tot_len bt)"
    using Cons.prems(6) b by (intro u16_add_no_wrap) simp
  have y: "y \<noteq> x" "y \<notin> set xs" "x \<notin> set xs" using Cons.prems by auto
  show ?case
  proof (cases xs)
    case Nil
    then have nx: "pb_next b = None" using seg by simp
    let ?b = "b\<lparr>pb_tot_len := pb_tot_len b + pb_tot_len bt, pb_next := Some y\<rparr>"
    define h where "h = (pb_obj s)(x \<mapsto> ?b)"
    have "cat_step fuel p (Some y) s = Inr ((), s\<lparr>pb_obj := h\<rparr>)"
      using b nx Cons.prems(5) by (simp add: cat_step_def f act_defs h_def)
    moreover have "seg h p (x # xs) (Some y) (unat (pb_tot_len bt))"
      using Nil b tot by (simp add: payload_ok_def h_def)
    moreover have "blen h z = blen (pb_obj s) z \<and> bdata h z = bdata (pb_obj s) z" for z
      unfolding h_def using data_upd_same [of "pb_obj s" x b ?b z] b(2) by simp
    moreover have "h z = pb_obj s z" if "z \<notin> set (x # xs)" for z
      using that by (simp add: h_def)
    ultimately show ?thesis by (intro exI [of _ h]) blast
  next
    case (Cons x' xs')
    then have nx: "pb_next b = Some x'" using seg by simp
    let ?b = "pb_tot_len_update (\<lambda>n. n + pb_tot_len bt) b"
    define s1 where "s1 = s\<lparr>pb_obj := (pb_obj s)(x \<mapsto> ?b)\<rparr>"
    have same: "blen (pb_obj s1) z = blen (pb_obj s) z" "bdata (pb_obj s1) z = bdata (pb_obj s) z" for z
      using b(2) data_upd_same [of "pb_obj s" x b ?b z] by (simp_all add: s1_def)
    have lens1: "lens (pb_obj s1) zs = lens (pb_obj s) zs" for zs
      using data_ext(1) [of "pb_obj s1" "pb_obj s"] same by simp
    have step: "cat_step fuel p (Some y) s = cat_step f (pb_next b) (Some y) s1"
      using b nx Cons.prems(5) by (simp add: cat_step_def f act_defs s1_def)
    have "seg (pb_obj s1) (pb_next b) xs None 0" "pb_obj s1 y = Some bt"
      using seg y Cons.prems(5) by (simp_all add: s1_def)
    moreover have "lens (pb_obj s1) xs + unat (pb_tot_len bt) < 65536"
      unfolding lens1 using Cons.prems(6) by simp
    ultimately obtain h where h: "cat_step f (pb_next b) (Some y) s1 = Inr ((), s1\<lparr>pb_obj := h\<rparr>)"
        "seg h (pb_next b) xs (Some y) (unat (pb_tot_len bt))" "\<forall>z. z \<notin> set xs \<longrightarrow> h z = pb_obj s1 z"
        "\<forall>z. blen h z = blen (pb_obj s1) z \<and> bdata h z = bdata (pb_obj s1) z"
      using Cons.IH [of s1 "pb_next b" f] Cons.prems(3) y f(2) Cons by auto
    have hx: "h x = Some ?b" using h(3) y(3) by (simp add: s1_def)
    have "lens h xs = lens (pb_obj s) xs" using data_ext(1) [of h "pb_obj s"] h(4) same by simp
    then have "seg h p (x # xs) (Some y) (unat (pb_tot_len bt))"
      using h(2) hx b tot by (simp add: payload_ok_def)
    then show ?thesis
      using step h same by (intro exI [of _ h]) (auto simp: s1_def)
  qed
qed simp

lemma pbuf_cat_run:
  assumes h: "packet (pb_obj s) p xs" "p \<noteq> None" and t: "packet (pb_obj s) t ys" "t \<noteq> None"
    and dist: "set xs \<inter> set ys = {}" and sum: "lens (pb_obj s) xs + lens (pb_obj s) ys < 65536"
    and fuel: "length xs \<le> chain_fuel"
  shows "\<exists>h. pbuf_cat p t s = Inr ((), s\<lparr>pb_obj := h\<rparr>) \<and> packet h p (xs @ ys)
    \<and> chain_data h (xs @ ys) = chain_data (pb_obj s) xs @ chain_data (pb_obj s) ys
    \<and> (\<forall>z. z \<notin> set xs \<longrightarrow> h z = pb_obj s z)"
proof -
  obtain y ys' bt where y: "ys = y # ys'" "t = Some y" "pb_obj s y = Some bt"
      "unat (pb_tot_len bt) = lens (pb_obj s) ys"
    using t by (cases ys) (auto simp: packet_def)
  have xs: "xs \<noteq> []" using h by (cases xs) (auto simp: packet_def)
  have cat: "pbuf_cat p t s = cat_step chain_fuel p t s"
    using h(2) y(2) by (auto simp: pbuf_cat_def cat_step_def)
  obtain h' where h': "cat_step chain_fuel p (Some y) s = Inr ((), s\<lparr>pb_obj := h'\<rparr>)"
      "seg h' p xs (Some y) (unat (pb_tot_len bt))" "\<forall>z. z \<notin> set xs \<longrightarrow> h' z = pb_obj s z"
      "\<forall>z. blen h' z = blen (pb_obj s) z \<and> bdata h' z = bdata (pb_obj s) z"
    using cat_run [of s p xs y bt chain_fuel] assms xs y by (auto simp: packet_def)
  have data: "chain_data h' zs = chain_data (pb_obj s) zs" "lens h' zs = lens (pb_obj s) zs" for zs
    using data_ext [of h' "pb_obj s"] h'(4) by simp_all
  have "seg h' t ys None 0"
  proof -
    have "seg h' q zs None 0 = seg (pb_obj s) q zs None 0" if "set zs \<subseteq> set ys" for q zs
      using that
    proof (induction zs arbitrary: q)
      case (Cons z zs)
      then have "h' z = pb_obj s z" using h'(3) dist by auto
      then show ?case using Cons data(2) by auto
    qed simp
    then show ?thesis using t(1) by (simp add: packet_def)
  qed
  then have "packet h' p (xs @ ys)"
    using h'(2) h t dist y(2,4) data by (auto simp: packet_def seg_append)
  then show ?thesis
    using cat h' y data by (intro exI [of _ h']) simp
qed

section \<open>Release\<close>

text \<open>A buffer of the pool, as \<^verbatim>\<open>pbuf_alloc\<close> sets it up.\<close>

definition pool_buf :: "'h pbuf_sys \<Rightarrow> nat set \<Rightarrow> pptr \<Rightarrow> bool" where
  "pool_buf s F x \<longleftrightarrow> (\<exists>e b. x = PoolPbuf e \<and> e < memp_num (pool_PBUF_POOL s) \<and> e \<notin> F \<and> pb_obj s x = Some b
     \<and> pbuf_get_allocsrc b = ALLOC_SRC_STD_MEMP_PBUF_POOL \<and> pb_flags b AND PBUF_FLAG_IS_CUSTOM = 0)"

definition only_ref :: "pheap \<Rightarrow> pptr \<Rightarrow> bool" where
  "only_ref h x \<longleftrightarrow> (\<exists>b. h x = Some b \<and> pb_ref b = 1)"

definition freed :: "pheap \<Rightarrow> pptr list \<Rightarrow> pptr list" where
  "freed h xs = takeWhile (only_ref h) xs"

definition after_free :: "pheap \<Rightarrow> pptr list \<Rightarrow> pheap" where
  "after_free h xs =
     (\<lambda>y. if y \<in> set (freed h xs) then None
          else if dropWhile (only_ref h) xs \<noteq> [] \<and> y = hd (dropWhile (only_ref h) xs)
               then map_option (pb_ref_update (\<lambda>r. r - 1)) (h y)
          else h y)"

lemma only_ref_upd: "x \<notin> set xs \<Longrightarrow> takeWhile (only_ref (h(x := v))) xs = takeWhile (only_ref h) xs"
    "x \<notin> set xs \<Longrightarrow> dropWhile (only_ref (h(x := v))) xs = dropWhile (only_ref h) xs"
  by (auto intro!: takeWhile_cong dropWhile_cong simp: only_ref_def split: if_splits)

lemma free_loop_run:
  assumes "seg (pb_obj s) p xs None k" "distinct xs" "\<forall>x \<in> set xs. pool_buf s F x"
    and "memp_avail (pool_PBUF_POOL s) F" "length xs < fuel"
  shows "\<exists>d. pbuf_free_loop E fuel p cnt s =
      Inr (cnt + of_nat (length (freed (pb_obj s) xs)), s\<lparr>pb_obj := after_free (pb_obj s) xs, pool_PBUF_POOL := d\<rparr>)
    \<and> memp_avail d (F \<union> {e. PoolPbuf e \<in> set (freed (pb_obj s) xs)}) \<and> memp_num d = memp_num (pool_PBUF_POOL s)"
  using assms
proof (induction xs arbitrary: s p F fuel cnt)
  case Nil
  then obtain f where "fuel = Suc f" by (cases fuel) auto
  then show ?case using Nil by (intro exI [of _ "pool_PBUF_POOL s"]) (simp add: act_defs freed_def after_free_def)
next
  case (Cons x xs)
  then obtain f where f: "fuel = Suc f" "length xs < f" by (cases fuel) auto
  obtain e b where e: "x = PoolPbuf e" "e < memp_num (pool_PBUF_POOL s)" "e \<notin> F" and b: "pb_obj s x = Some b"
    and kind: "pbuf_get_allocsrc b = ALLOC_SRC_STD_MEMP_PBUF_POOL" "pb_flags b AND PBUF_FLAG_IS_CUSTOM = 0"
    using Cons.prems(3) by (auto simp: pool_buf_def)
  have p: "p = Some x" "seg (pb_obj s) (pb_next b) xs None k" using Cons.prems(1) b by auto
  have x: "x \<notin> set xs" "distinct xs" using Cons.prems(2) by auto
  let ?b = "pb_ref_update (\<lambda>r. r - 1) b"
  show ?case
  proof (cases "pb_ref b = 1")
    case False
    then have no: "\<not> only_ref (pb_obj s) x" using b by (simp add: only_ref_def)
    have "pbuf_free_loop E fuel p cnt s = Inr (cnt, s\<lparr>pb_obj := (pb_obj s)(x \<mapsto> ?b)\<rparr>)"
      using False b by (simp add: f p act_defs)
    moreover have "after_free (pb_obj s) (x # xs) = (pb_obj s)(x \<mapsto> ?b)"
      using no b by (auto simp: after_free_def freed_def fun_eq_iff)
    ultimately show ?thesis
      using no Cons.prems(4) by (intro exI [of _ "pool_PBUF_POOL s"]) (simp add: freed_def fun_upd_def)
  next
    case True
    define d1 where "d1 = do_memp_free_pool (pool_PBUF_POOL s) e"
    define s1 where "s1 = s\<lparr>pb_obj := (pb_obj s)(x := None), pool_PBUF_POOL := d1\<rparr>"
    have d1: "memp_avail d1 (insert e F)" "memp_num d1 = memp_num (pool_PBUF_POOL s)"
      using memp.free_law [OF Cons.prems(4) e(2,3)] by (simp_all add: d1_def)
    have src: "pbuf_get_allocsrc ?b = pbuf_get_allocsrc b" by (simp add: pbuf_get_allocsrc_def)
    have step: "pbuf_free_loop E fuel p cnt s = pbuf_free_loop E f (pb_next b) (cnt + 1) s1"
      using True b kind src by (simp add: f p act_defs pbuf_dealloc_def e(1) pb_drop_def s1_def d1_def fun_upd_def [symmetric])
    have "seg (pb_obj s1) (pb_next b) xs None k" using p(2) x(1) by (simp add: s1_def)
    moreover have "\<forall>y \<in> set xs. pool_buf s1 (insert e F) y"
      using Cons.prems(3) x(1) e(1) d1(2) by (auto simp: pool_buf_def s1_def)
    moreover have p1: "pool_PBUF_POOL s1 = d1" by (simp add: s1_def)
    ultimately obtain d where d: "pbuf_free_loop E f (pb_next b) (cnt + 1) s1 =
        Inr (cnt + 1 + of_nat (length (freed (pb_obj s1) xs)), s1\<lparr>pb_obj := after_free (pb_obj s1) xs, pool_PBUF_POOL := d\<rparr>)"
        "memp_avail d (insert e F \<union> {e. PoolPbuf e \<in> set (freed (pb_obj s1) xs)})" "memp_num d = memp_num d1"
      using Cons.IH [of s1 "pb_next b" "insert e F" f "cnt + 1"] x(2) f(2) d1(1) by auto
    have yes: "only_ref (pb_obj s) x" using True b by (simp add: only_ref_def)
    have fr: "freed (pb_obj s) (x # xs) = x # freed (pb_obj s1) xs"
      using yes x(1) by (simp add: freed_def s1_def only_ref_upd)
    have "after_free (pb_obj s1) xs = after_free (pb_obj s) (x # xs)"
      unfolding after_free_def fr using yes x(1)
      by (auto simp: fun_eq_iff s1_def only_ref_upd freed_def dest: set_takeWhileD hd_in_set set_dropWhileD)
    then show ?thesis
      using step d d1(2) fr e(1) by (intro exI [of _ d]) (auto simp: s1_def insert_Collect intro: back_subst [of "memp_avail d"])
  qed
qed

section \<open>Allocation from the pool\<close>

definition pool_ids :: "pptr list \<Rightarrow> nat set" where
  "pool_ids xs = {e. PoolPbuf e \<in> set xs}"

lemma pool_ids_simps [simp]: "pool_ids [] = {}" "pool_ids (PoolPbuf e # xs) = insert e (pool_ids xs)"
    "pool_ids (xs @ ys) = pool_ids xs \<union> pool_ids ys"
  by (auto simp: pool_ids_def)

text \<open>The free elements of the pool hold no buffer.\<close>

definition pool_inv :: "'h pbuf_sys \<Rightarrow> nat set \<Rightarrow> bool" where
  "pool_inv s F \<longleftrightarrow> memp_avail (pool_PBUF_POOL s) F \<and> (\<forall>e \<in> F. pb_obj s (PoolPbuf e) = None)"

definition pool_chain :: "'h pbuf_sys \<Rightarrow> nat set \<Rightarrow> pptr list \<Rightarrow> bool" where
  "pool_chain s F xs \<longleftrightarrow> distinct xs \<and> (\<forall>x \<in> set xs. pool_buf s F x \<and> only_ref (pb_obj s) x)"

lemma seg_set_next:
  assumes "seg h p xs None k" "xs \<noteq> []" "distinct xs"
  shows "\<exists>b. h (last xs) = Some b \<and> seg (h(last xs \<mapsto> b\<lparr>pb_next := q\<rparr>)) p xs q k
    \<and> lens (h(last xs \<mapsto> b\<lparr>pb_next := q\<rparr>)) = lens h"
proof -
  obtain ys z where xs: "xs = ys @ [z]" using assms(2) by (cases xs rule: rev_cases) auto
  obtain b where b: "h z = Some b" using seg_objs [OF assms(1), of z] xs by auto
  let ?h = "h(z \<mapsto> b\<lparr>pb_next := q\<rparr>)"
  have l: "lens ?h = lens h"
    using data_ext(1) [of ?h h] data_upd_same [of h z b "b\<lparr>pb_next := q\<rparr>"] b by simp
  have z: "z \<notin> set ys" using assms(3) xs by simp
  obtain r where r: "seg h p ys r (lens h [z] + k)" "seg h r [z] None k"
    using assms(1) unfolding xs seg_append by blast
  have "seg ?h p ys r (lens ?h [z] + k)" unfolding l using r(1) z by simp
  moreover have "seg ?h r [z] q k" using r(2) b by (simp add: payload_ok_def)
  ultimately show ?thesis using b l by (auto simp: xs seg_append)
qed

lemma align_4: "unat (x :: u32) \<le> 4294967292 \<Longrightarrow> unat (LWIP_MEM_ALIGN_SIZE x) = 4 * ((unat x + 3) div 4)"
proof -
  assume x: "unat x \<le> 4294967292"
  have "(4 - 1 :: u32) = mask 2" "x + 4 - 1 = x + 3" by (simp_all add: mask_eq_exp_minus_1)
  then have "LWIP_MEM_ALIGN_SIZE x = (x + 3) AND NOT (mask 2)" unfolding LWIP_MEM_ALIGN_SIZE_def by presburger
  also have "\<dots> = push_bit 2 (drop_bit 2 (x + 3))"
    by (rule bit_word_eqI) (auto simp: bit_simps simp flip: add_2_eq_Suc)
  finally have "LWIP_MEM_ALIGN_SIZE x = push_bit 2 (drop_bit 2 (x + 3))" .
  then have "unat (LWIP_MEM_ALIGN_SIZE x) = (4 * (unat (x + 3) div 4)) mod 4294967296"
    by (simp add: push_bit_eq_mult drop_bit_eq_div unat_word_ariths unat_div mod_mult_left_eq mod_mult_right_eq)
  moreover have "unat (x + 3) = unat x + 3" using x by (simp add: word_to_nat)
  ultimately show ?thesis using x by simp
qed

lemma pool_bufsize: "unat PBUF_POOL_BUFSIZE_ALIGNED = 1516"
  by (simp add: PBUF_POOL_BUFSIZE_ALIGNED_def TCP_MSS_def PBUF_IP_HLEN_def PBUF_TRANSPORT_HLEN_def
      PBUF_LINK_ENCAPSULATION_HLEN_def PBUF_LINK_HLEN_def LWIP_MEM_ALIGN_SIZE_def)

lemma unat_ucast_u16: "unat (ucast (x :: u16) :: u32) = unat x"
  unfolding unsigned_ucast_eq using unat_u16_bound [of x]
  by (intro take_bit_nat_eq_self) (rule less_trans, assumption, simp)

lemma pool_room_eq:
  assumes "unat offset \<le> 54"
  shows "unat (LWIP_MEM_ALIGN_SIZE (ucast offset)) + unat (pool_room offset) = 1516" "1460 \<le> unat (pool_room offset)"
proof -
  let ?a = "LWIP_MEM_ALIGN_SIZE (ucast offset)"
  have a: "unat ?a = 4 * ((unat offset + 3) div 4)" using assms by (simp add: align_4 unat_ucast_u16)
  have "(unat offset + 3) div 4 \<le> (54 + 3) div 4" using assms by (intro div_le_mono) simp
  then have le: "unat ?a \<le> 56" using a by simp
  have "unat (PBUF_POOL_BUFSIZE_ALIGNED - ?a) = 1516 - unat ?a"
    using le by (simp add: unat_sub_if' pool_bufsize)
  moreover have "1516 - unat ?a < 65536" by simp
  ultimately have "unat (pool_room offset) = 1516 - unat ?a"
    by (simp add: pool_room_def unsigned_ucast_eq take_bit_nat_eq_self)
  then show "unat ?a + unat (pool_room offset) = 1516" "1460 \<le> unat (pool_room offset)" using le by simp_all
qed

lemma fresh_mem_bind: "act_bind (fresh_mem E x n) f s = f (map (uninit E s x) [0..<n]) s"
  by (simp add: fresh_mem_def act_defs)

text \<open>One more element at the end of a chain under construction.\<close>

definition pool_pbuf :: "u8 list \<Rightarrow> u16 \<Rightarrow> u16 \<Rightarrow> u16 \<Rightarrow> pbuf" where
  "pool_pbuf memory offset rem_len qlen = \<lparr>pb_next = None, pb_payload = Some (unat (LWIP_MEM_ALIGN_SIZE (ucast offset))),
     pb_tot_len = rem_len, pb_len = qlen, pb_type_internal = ucast (pbuf_type_code PBUF_POOL), pb_flags = 0,
     pb_ref = 1, pb_if_idx = 0, pb_mem = memory\<rparr>"

lemma pool_pbuf_fields [simp]:
  "pb_next (pool_pbuf m o' r q) = None" "pb_tot_len (pool_pbuf m o' r q) = r" "pb_len (pool_pbuf m o' r q) = q"
  "pb_ref (pool_pbuf m o' r q) = 1" "pb_flags (pool_pbuf m o' r q) = 0"
  "pbuf_get_allocsrc (pool_pbuf m o' r q) = ALLOC_SRC_STD_MEMP_PBUF_POOL"
  by (simp_all add: pool_pbuf_def pbuf_get_allocsrc_def pbuf_consts)

lemma pool_pbuf_ok:
  assumes "unat offset \<le> 54" "qlen \<le> pool_room offset" "length m = unat PBUF_POOL_BUFSIZE_ALIGNED"
  shows "payload_ok (pool_pbuf m offset r qlen) 0 (unat qlen)"
  using pool_room_eq(1) [OF assms(1)] assms(2,3)
  by (simp add: payload_ok_def pool_pbuf_def pool_bufsize word_le_nat_alt)

lemma pool_append:
  assumes seg: "seg (pb_obj s) p xs None (unat rem_len)" and xs: "xs \<noteq> [] \<Longrightarrow> lst = Some (last xs)" "xs = [] \<Longrightarrow> p = None"
    and chain: "pool_chain s F xs" and inv: "pool_inv s F"
    and e: "do_memp_malloc_pool (pool_PBUF_POOL s) = (Some e, d)"
    and off: "unat offset \<le> 54" and q: "qlen \<le> rem_len" "qlen \<le> pool_room offset"
    and memory: "length memory = unat PBUF_POOL_BUFSIZE_ALIGNED"
  defines "x \<equiv> PoolPbuf e"
  shows "\<exists>s'. act_bind (pbuf_init_alloced_pbuf x (Some (unat (LWIP_MEM_ALIGN_SIZE (ucast offset))))
             memory rem_len qlen PBUF_POOL 0) (\<lambda>_.
      if p = None then act_return () else pb_modify lst (pb_next_update (\<lambda>_. Some x))) (s\<lparr>pool_PBUF_POOL := d\<rparr>) = Inr ((), s')
    \<and> seg (pb_obj s') (if p = None then Some x else p) (xs @ [x]) None (unat (rem_len - qlen))
    \<and> pool_chain s' (F - {e}) (xs @ [x]) \<and> pool_inv s' (F - {e}) \<and> e \<in> F
    \<and> lens (pb_obj s') (xs @ [x]) = lens (pb_obj s) xs + unat qlen
    \<and> memp_num (pool_PBUF_POOL s') = memp_num (pool_PBUF_POOL s)
    \<and> (\<forall>y. y \<notin> set (xs @ [x]) \<longrightarrow> pb_obj s' y = pb_obj s y)"
proof -
  have mp: "e \<in> F" "memp_avail d (F - {e})" "memp_num d = memp_num (pool_PBUF_POOL s)"
    using memp.malloc_law [of "pool_PBUF_POOL s" F "Some e" d] inv e by (simp_all add: pool_inv_def)
  have eb: "e < memp_num (pool_PBUF_POOL s)"
    using memp.avail_bound [of "pool_PBUF_POOL s" F] inv mp(1) by (auto simp: pool_inv_def)
  have x: "x \<notin> set xs" using chain mp(1) by (auto simp: pool_chain_def pool_buf_def x_def)
  have rest: "unat (rem_len - qlen) = unat rem_len - unat qlen" "unat qlen \<le> unat rem_len"
    using q(1) by (simp_all add: unat_sub word_le_nat_alt)
  let ?b = "pool_pbuf memory offset rem_len qlen"
  define h1 where "h1 = (pb_obj s)(x \<mapsto> ?b)"
  have seg1: "seg h1 p xs None (unat rem_len)" using seg x by (simp add: h1_def)
  obtain h2 where h2: "seg h2 (if p = None then Some x else p) xs (Some x) (unat rem_len)"
      "lens h2 = lens h1" "h2 x = Some ?b" "\<forall>y. y \<notin> set xs \<longrightarrow> h2 y = h1 y"
      "\<forall>y b. pb_obj s y = Some b \<longrightarrow> y \<noteq> x \<longrightarrow> (\<exists>b'. h2 y = Some b' \<and> pb_ref b' = pb_ref b \<and> pb_flags b' = pb_flags b
          \<and> pb_type_internal b' = pb_type_internal b)"
    and run: "(if p = None then act_return () else pb_modify lst (pb_next_update (\<lambda>_. Some x)))
        (s\<lparr>pool_PBUF_POOL := d, pb_obj := h1\<rparr>) = Inr ((), s\<lparr>pool_PBUF_POOL := d, pb_obj := h2\<rparr>)"
  proof (cases "xs = []")
    case True
    then show ?thesis
      using xs(2) by (intro that [of h1]) (auto simp: h1_def act_return_def)
  next
    case False
    obtain b where b: "h1 (last xs) = Some b" "seg (h1(last xs \<mapsto> b\<lparr>pb_next := Some x\<rparr>)) p xs (Some x) (unat rem_len)"
        "lens (h1(last xs \<mapsto> b\<lparr>pb_next := Some x\<rparr>)) = lens h1"
      using seg_set_next [OF seg1 False, of "Some x"] chain by (auto simp: pool_chain_def)
    have "p \<noteq> None" using seg False by (cases xs) auto
    moreover have "last xs \<in> set xs" using False by simp
    moreover have "last xs \<noteq> x" using x \<open>last xs \<in> set xs\<close> by metis
    moreover have "pb_next_update (\<lambda>_. Some x) b = b\<lparr>pb_next := Some x\<rparr>" by simp
    ultimately show ?thesis
      using b xs(1) False by (intro that [of "h1(last xs \<mapsto> b\<lparr>pb_next := Some x\<rparr>)"]) (auto simp: h1_def)
  qed
  define s' where "s' = s\<lparr>pool_PBUF_POOL := d, pb_obj := h2\<rparr>"
  have l: "lens h2 [x] = unat qlen" "lens h2 xs = lens (pb_obj s) xs"
    using h2(2,3) x by (simp_all add: h1_def)
  have "seg h2 (Some x) [x] None (unat (rem_len - qlen))"
    using h2(3) rest pool_pbuf_ok [OF off q(2) memory] by simp
  moreover have "lens h2 [x] + unat (rem_len - qlen) = unat rem_len" using l(1) rest by simp
  ultimately have 1: "seg h2 (if p = None then Some x else p) (xs @ [x]) None (unat (rem_len - qlen))"
    unfolding seg_append using h2(1) by (auto simp del: seg.simps lens_simps)
  have 2: "pool_chain s' (F - {e}) (xs @ [x])"
    unfolding pool_chain_def
  proof (rule conjI, goal_cases)
    case 1
    show ?case using chain x by (simp add: pool_chain_def)
  next
    case 2
    show ?case
    proof
    fix y assume y: "y \<in> set (xs @ [x])"
    show "pool_buf s' (F - {e}) y \<and> only_ref (pb_obj s') y"
    proof (cases "y = x")
      case True
      then show ?thesis using h2(3) eb mp(3) by (auto simp: pool_buf_def only_ref_def s'_def x_def pbuf_consts)
    next
      case False
      then have "pool_buf s F y" "only_ref (pb_obj s) y" using y chain by (auto simp: pool_chain_def)
      then obtain e' b where b: "y = PoolPbuf e'" "e' < memp_num (pool_PBUF_POOL s)" "e' \<notin> F" "pb_obj s y = Some b"
          "pbuf_get_allocsrc b = ALLOC_SRC_STD_MEMP_PBUF_POOL" "pb_flags b AND PBUF_FLAG_IS_CUSTOM = 0" "pb_ref b = 1"
        by (auto simp: pool_buf_def only_ref_def)
      obtain b' where "h2 y = Some b'" "pb_ref b' = pb_ref b" "pb_flags b' = pb_flags b" "pb_type_internal b' = pb_type_internal b"
        using h2(5) b(4) False by blast
      then show ?thesis using b mp(3) by (auto simp: pool_buf_def only_ref_def s'_def pbuf_get_allocsrc_def)
    qed
    qed
  qed
  have 3: "pool_inv s' (F - {e})"
  proof -
    have "PoolPbuf e' \<notin> set xs" if "e' \<in> F" for e' using that chain by (auto simp: pool_chain_def pool_buf_def)
    then show ?thesis using inv mp(2) h2(4) by (auto simp: pool_inv_def s'_def h1_def x_def)
  qed
  have "pbuf_init_alloced_pbuf x (Some (unat (LWIP_MEM_ALIGN_SIZE (ucast offset))))
      memory rem_len qlen PBUF_POOL 0 (s\<lparr>pool_PBUF_POOL := d\<rparr>) =
      Inr ((), s\<lparr>pool_PBUF_POOL := d, pb_obj := h1\<rparr>)"
    by (simp add: pbuf_init_alloced_pbuf_def act_modify_def h1_def pool_pbuf_def)
  then have 4: "act_bind (pbuf_init_alloced_pbuf x (Some (unat (LWIP_MEM_ALIGN_SIZE (ucast offset))))
             memory rem_len qlen PBUF_POOL 0) (\<lambda>_.
      if p = None then act_return () else pb_modify lst (pb_next_update (\<lambda>_. Some x))) (s\<lparr>pool_PBUF_POOL := d\<rparr>) = Inr ((), s')"
    using run by (simp add: act_bind_def s'_def)
  have 5: "pb_obj s' y = pb_obj s y" if "y \<notin> set (xs @ [x])" for y
    using that h2(4) by (simp add: s'_def h1_def)
  show ?thesis
    using 1 2 3 4 5 mp l by (intro exI [of _ s']) (simp add: s'_def)
qed

text \<open>A chain under construction is given back completely.\<close>

lemma pool_chain_release:
  assumes seg: "seg (pb_obj s) p xs None k" and chain: "pool_chain s F xs" and inv: "pool_inv s F"
    and fuel: "length xs < chain_fuel"
  shows "\<exists>s' n. pbuf_free E p s = Inr (n, s') \<and> pool_inv s' (F \<union> pool_ids xs)
    \<and> memp_num (pool_PBUF_POOL s') = memp_num (pool_PBUF_POOL s)
    \<and> pbuf_free_ooseq_pending s' = pbuf_free_ooseq_pending s
    \<and> pb_obj s' = (\<lambda>y. if y \<in> set xs then None else pb_obj s y) \<and> n = of_nat (length xs)"
proof -
  have all: "freed (pb_obj s) xs = xs" "dropWhile (only_ref (pb_obj s)) xs = []"
    using chain by (auto simp: pool_chain_def freed_def)
  obtain d where d: "pbuf_free_loop E chain_fuel p 0 s =
      Inr (0 + of_nat (length xs), s\<lparr>pb_obj := after_free (pb_obj s) xs, pool_PBUF_POOL := d\<rparr>)"
      "memp_avail d (F \<union> pool_ids xs)" "memp_num d = memp_num (pool_PBUF_POOL s)"
    using free_loop_run [OF seg, of F chain_fuel E 0] chain inv fuel
    by (auto simp: pool_chain_def pool_inv_def all pool_ids_def)
  have "after_free (pb_obj s) xs = (\<lambda>y. if y \<in> set xs then None else pb_obj s y)"
    by (simp add: after_free_def all fun_eq_iff)
  then show ?thesis
    using d inv by (auto simp: pbuf_free_def pool_inv_def pool_ids_def)
qed

text \<open>
  What the loop achieves from a chain \<open>xs\<close> under construction with \<open>n\<close> bytes to go: the finished
  packet, or everything given back.
\<close>

definition alloc_post :: "'h pbuf_sys \<Rightarrow> nat set \<Rightarrow> pptr list \<Rightarrow> nat \<Rightarrow> pptr option \<Rightarrow> 'h pbuf_sys \<Rightarrow> bool" where
  "alloc_post s F xs n r s' \<longleftrightarrow> memp_num (pool_PBUF_POOL s') = memp_num (pool_PBUF_POOL s) \<and>
    (case r of
       None \<Rightarrow> pool_inv s' (F \<union> pool_ids xs) \<and> pbuf_free_ooseq_pending s'
         \<and> pb_obj s' = (\<lambda>y. if y \<in> set xs then None else pb_obj s y)
     | Some _ \<Rightarrow> \<exists>ys. ys \<noteq> [] \<and> packet (pb_obj s') r (xs @ ys) \<and> pool_ids ys \<subseteq> F \<and> pool_inv s' (F - pool_ids ys)
         \<and> pool_chain s' (F - pool_ids ys) (xs @ ys) \<and> lens (pb_obj s') (xs @ ys) = lens (pb_obj s) xs + n
         \<and> (\<forall>y. y \<notin> set (xs @ ys) \<longrightarrow> pb_obj s' y = pb_obj s y))"

lemma alloc_post_extend:
  assumes post: "alloc_post s1 (F - {e}) (xs @ [PoolPbuf e]) m r s'" and e: "e \<in> F" and inv: "pool_inv s F"
    and s1: "lens (pb_obj s1) (xs @ [PoolPbuf e]) + m = lens (pb_obj s) xs + n"
      "memp_num (pool_PBUF_POOL s1) = memp_num (pool_PBUF_POOL s)"
      "\<forall>y. y \<notin> set (xs @ [PoolPbuf e]) \<longrightarrow> pb_obj s1 y = pb_obj s y"
  shows "alloc_post s F xs n r s'"
proof (cases r)
  case None
  have "F - {e} \<union> pool_ids (xs @ [PoolPbuf e]) = F \<union> pool_ids xs" using e by auto
  moreover have "(\<lambda>y. if y \<in> set (xs @ [PoolPbuf e]) then None else pb_obj s1 y) =
      (\<lambda>y. if y \<in> set xs then None else pb_obj s y)"
    using s1(3) inv e by (auto simp: fun_eq_iff pool_inv_def)
  ultimately show ?thesis using post None s1(2) by (simp add: alloc_post_def)
next
  case (Some z)
  then obtain ys where "packet (pb_obj s') r (xs @ PoolPbuf e # ys)" "pool_ids ys \<subseteq> F - {e}"
      "pool_inv s' (F - {e} - pool_ids ys)" "pool_chain s' (F - {e} - pool_ids ys) (xs @ PoolPbuf e # ys)"
      "lens (pb_obj s') (xs @ PoolPbuf e # ys) = lens (pb_obj s1) (xs @ [PoolPbuf e]) + m"
      "\<forall>y. y \<notin> set (xs @ PoolPbuf e # ys) \<longrightarrow> pb_obj s' y = pb_obj s1 y"
    using post by (auto simp: alloc_post_def)
  moreover have "F - pool_ids (PoolPbuf e # ys) = F - {e} - pool_ids ys" by auto
  ultimately show ?thesis
    using Some s1 e post by (auto simp: alloc_post_def intro!: exI [of _ "PoolPbuf e # ys"])
qed

lemma alloc_pool_exhausted:
  assumes inv: "pool_inv s F" "pool_chain s F xs" and seg: "seg (pb_obj s) p xs None k"
    and d: "do_memp_malloc_pool (pool_PBUF_POOL s) = (None, d)" "memp_avail d F" "memp_num d = memp_num (pool_PBUF_POOL s)"
    and fuel: "length xs < chain_fuel"
  shows "\<exists>s'. pbuf_alloc_pool E (Suc n) offset p lst rem_len s = Inr (None, s') \<and> alloc_post s F xs m None s'"
proof -
  define s1 where "s1 = s\<lparr>pool_PBUF_POOL := d, pbuf_free_ooseq_pending := True\<rparr>"
  have s1: "pool_inv s1 F" "pool_chain s1 F xs" "seg (pb_obj s1) p xs None k" "pb_obj s1 = pb_obj s"
    using inv seg d by (simp_all add: s1_def pool_inv_def pool_chain_def pool_buf_def)
  show ?thesis
  proof (cases "p = None")
    case True
    then have "xs = []" using seg by (cases xs) auto
    then show ?thesis
      using True d s1 by (simp add: memp_malloc_POOL_def act_defs s1_def alloc_post_def)
  next
    case False
    obtain s2 n where s2: "pbuf_free E p s1 = Inr (n, s2)" "pool_inv s2 (F \<union> pool_ids xs)"
        "memp_num (pool_PBUF_POOL s2) = memp_num (pool_PBUF_POOL s1)"
        "pbuf_free_ooseq_pending s2 = pbuf_free_ooseq_pending s1"
        "pb_obj s2 = (\<lambda>y. if y \<in> set xs then None else pb_obj s y)"
      using pool_chain_release [OF s1(3,2,1) fuel, of E] unfolding s1(4) by blast
    then show ?thesis
      using d False by (simp add: memp_malloc_POOL_def act_defs s1_def alloc_post_def)
  qed
qed

lemma alloc_pool_run:
  assumes "pool_inv s F" "pool_chain s F xs" "seg (pb_obj s) p xs None (unat rem_len)"
    and "xs \<noteq> [] \<Longrightarrow> lst = Some (last xs)" "xs = [] \<Longrightarrow> p = None"
    and "finite F" "card F < fuel" "unat offset \<le> 54" "length xs + card F < chain_fuel"
  shows "\<exists>r s'. pbuf_alloc_pool E fuel offset p lst rem_len s = Inr (r, s') \<and> alloc_post s F xs (unat rem_len) r s'"
  using assms
proof (induction fuel arbitrary: s F xs p lst rem_len offset)
  case (Suc fuel)
  have av: "memp_avail (pool_PBUF_POOL s) F" using Suc.prems(1) by (simp add: pool_inv_def)
  show ?case
  proof (cases rule: memp.malloc_cases [OF av])
    case (1 d)
    then have "memp_avail d F" "length xs < chain_fuel" using Suc.prems(9) by auto
    from alloc_pool_exhausted [OF Suc.prems(1-3) 1(1) this(1) 1(4) this(2)] show ?thesis by blast
  next
    case (2 e d)
    define qlen where "qlen = min rem_len (pool_room offset)"
    let ?x = "PoolPbuf e" and ?p = "if p = None then Some (PoolPbuf e) else p"
    let ?m = "map (uninit E (s\<lparr>pool_PBUF_POOL := d\<rparr>) ?x) [0..<unat PBUF_POOL_BUFSIZE_ALIGNED]"
    obtain s1 where step: "act_bind (pbuf_init_alloced_pbuf ?x (Some (unat (LWIP_MEM_ALIGN_SIZE (ucast offset))))
             ?m rem_len qlen PBUF_POOL 0) (\<lambda>_.
      if p = None then act_return () else pb_modify lst (pb_next_update (\<lambda>_. Some ?x))) (s\<lparr>pool_PBUF_POOL := d\<rparr>) = Inr ((), s1)"
      and s1: "seg (pb_obj s1) ?p (xs @ [?x]) None (unat (rem_len - qlen))" "pool_chain s1 (F - {e}) (xs @ [?x])"
        "pool_inv s1 (F - {e})" "e \<in> F" "lens (pb_obj s1) (xs @ [?x]) = lens (pb_obj s) xs + unat qlen"
        "memp_num (pool_PBUF_POOL s1) = memp_num (pool_PBUF_POOL s)" "\<forall>y. y \<notin> set (xs @ [?x]) \<longrightarrow> pb_obj s1 y = pb_obj s y"
      using pool_append [OF Suc.prems(3) Suc.prems(4,5) Suc.prems(2,1) 2(1) Suc.prems(8), of qlen ?m] by (auto simp: qlen_def)
    have run: "pbuf_alloc_pool E (Suc fuel) offset p lst rem_len s =
        (if 0 < rem_len - qlen then pbuf_alloc_pool E fuel 0 ?p (Some ?x) (rem_len - qlen) s1 else Inr (?p, s1))"
    proof -
      have "pbuf_alloc_pool E (Suc fuel) offset p lst rem_len s =
          act_bind (act_bind (pbuf_init_alloced_pbuf ?x (Some (unat (LWIP_MEM_ALIGN_SIZE (ucast offset))))
             ?m rem_len qlen PBUF_POOL 0) (\<lambda>_.
          if p = None then act_return () else pb_modify lst (pb_next_update (\<lambda>_. Some ?x)))) (\<lambda>_.
          if 0 < rem_len - qlen then pbuf_alloc_pool E fuel 0 ?p (Some ?x) (rem_len - qlen) else act_return ?p)
          (s\<lparr>pool_PBUF_POOL := d\<rparr>)"
        unfolding act_bind_assoc pbuf_alloc_pool.simps
        by (subst act_bind_def) (simp only: memp_malloc_POOL_def 2(1) prod.case option.map sum.case option.case Let_def qlen_def fresh_mem_bind)
      then show ?thesis
        by (simp only: act_bind_Inr [where m = "act_bind a b" for a b, OF step] act_return_def if_distribR)
    qed
    have q: "unat (rem_len - qlen) = unat rem_len - unat qlen" "unat qlen \<le> unat rem_len"
      by (simp_all add: qlen_def unat_sub word_le_nat_alt min_def)
    show ?thesis
    proof (cases "0 < rem_len - qlen")
      case False
      then have "unat (rem_len - qlen) = 0" by (simp add: word_gt_0)
      then show ?thesis
        using False run s1 q
        by (cases p) (auto simp: alloc_post_def packet_def pool_chain_def intro!: exI [of _ "[?x]"])
    next
      case True
      have "card (F - {e}) < card F" using s1(4) Suc.prems(6) by (intro psubset_card_mono) auto
      then obtain r s' where "pbuf_alloc_pool E fuel 0 ?p (Some ?x) (rem_len - qlen) s1 = Inr (r, s')"
          "alloc_post s1 (F - {e}) (xs @ [?x]) (unat (rem_len - qlen)) r s'"
        using Suc.IH [OF s1(3,2,1), of "Some ?x" 0] Suc.prems(6,7,9) by auto
      then show ?thesis
        using run True s1(5) q
        by (intro exI [of _ r] exI [of _ s'] conjI alloc_post_extend [OF _ s1(4) Suc.prems(1) _ s1(6,7)]) auto
    qed
  qed
qed simp

lemma pbuf_alloc_pool_spec:
  assumes inv: "pool_inv s F" and n: "memp_num (pool_PBUF_POOL s) \<le> 65535" and layer: "unat layer \<le> 54"
  shows "\<exists>r s'. pbuf_alloc E layer l PBUF_POOL s = Inr (r, s') \<and> alloc_post s F [] (unat l) r s'"
proof -
  have F: "F \<subseteq> {..<memp_num (pool_PBUF_POOL s)}"
    using memp.avail_bound inv by (auto simp: pool_inv_def)
  then have "finite F" "card F \<le> memp_num (pool_PBUF_POOL s)"
    using finite_subset card_mono [of "{..<memp_num (pool_PBUF_POOL s)}" F] by auto
  then show ?thesis
    using alloc_pool_run [OF inv, of "[]" None l None "memp_num (pool_PBUF_POOL s) + 1" layer E] n layer
    by (simp add: pbuf_alloc_def act_defs pool_chain_def chain_fuel_def)
qed

end
