(* ===== verification/Lwip_PbufProps.thy ===== *)
theory Lwip_PbufProps
  imports Lwip_Alloc
begin

text \<open>
  What the packet buffers guarantee (lib/lwip/src/core/pbuf.c), with concrete chains as witnesses.
\<close>

section \<open>Concrete chains\<close>

definition demo_buf :: "u8 list \<Rightarrow> pptr option \<Rightarrow> u16 \<Rightarrow> u8 \<Rightarrow> pbuf" where
  "demo_buf d nxt tot ref = \<lparr>pb_next = nxt, pb_payload = Some 0, pb_tot_len = tot, pb_len = of_nat (length d),
     pb_type_internal = ucast (pbuf_type_code PBUF_POOL), pb_flags = 0, pb_ref = ref, pb_if_idx = 0, pb_mem = d\<rparr>"

definition demo_pool :: memp_desc where
  "demo_pool = memp_init_pool \<lparr>memp_num = 4, memp_next = (\<lambda>_. None), memp_tab = None,
     memp_stats = \<lparr>st_err = 0, st_avail = 0, st_used = 0, st_max = 0\<rparr>\<rparr>"

definition demo_pbufs :: "unit pbuf_sys" where
  "demo_pbufs = \<lparr>pb_obj = (\<lambda>_. None), pool_PBUF_POOL = demo_pool, pool_PBUF = demo_pool,
     pbuf_free_ooseq_pending = False, mem_heap = ()\<rparr>"

definition demo_env :: "unit mem_env" where
  "demo_env = \<lparr>mem_malloc = (\<lambda>_ w. Inr (None, w)), mem_free = (\<lambda>_ w. Inr ((), w)), mem_trim = (\<lambda>_ _ w. Inr ((), w)),
     custom_free_function = (\<lambda>_ w. Inr ((), w)), uninit = (\<lambda>_ _ _. 0xA5)\<rparr>"

text \<open>Two elements of the pool in use, as one packet of five bytes; the second buffer has another owner.\<close>

definition demo_chain :: "unit pbuf_sys" where
  "demo_chain = demo_pbufs\<lparr>
     pb_obj := (\<lambda>_. None)(PoolPbuf 3 \<mapsto> demo_buf [1, 2, 3] (Some (PoolPbuf 2)) 5 1, PoolPbuf 2 \<mapsto> demo_buf [4, 5] None 2 2),
     pool_PBUF_POOL := snd (do_memp_malloc_pool (snd (do_memp_malloc_pool demo_pool)))\<rparr>"

lemma demo_pool_avail: "memp_avail demo_pool {0, 1, 2, 3}" "memp_num demo_pool = 4"
proof -
  let ?d = "\<lparr>memp_num = 4, memp_next = (\<lambda>_. None), memp_tab = None,
     memp_stats = \<lparr>st_err = 0, st_avail = 0, st_used = 0, st_max = 0\<rparr>\<rparr>"
  have "{0..<4} = {0, 1, 2, 3 :: nat}" by auto
  then show "memp_avail demo_pool {0, 1, 2, 3}"
    unfolding memp_avail_def demo_pool_def using memp_init_free(1) [of ?d] by (intro exI [of _ "rev [0..<4]"]) simp
  show "memp_num demo_pool = 4" unfolding demo_pool_def using memp_init_free(2) [of ?d] by simp
qed

lemma demo_pool_inv: "pool_inv demo_pbufs {0, 1, 2, 3}"
  using demo_pool_avail by (simp add: pool_inv_def demo_pbufs_def)

lemma demo_chain_list: "free_list (pool_PBUF_POOL demo_chain) [1, 0]"
    and demo_chain_num: "memp_num (pool_PBUF_POOL demo_chain) = 4"
proof -
  have "free_list demo_pool [3, 2, 1, 0]" "memp_num demo_pool = 4"
    using memp_init_free [of "\<lparr>memp_num = 4, memp_next = (\<lambda>_. None), memp_tab = None,
     memp_stats = \<lparr>st_err = 0, st_avail = 0, st_used = 0, st_max = 0\<rparr>\<rparr>"]
    by (simp_all add: demo_pool_def upt_rec One_nat_def [symmetric] del: One_nat_def)
  from memp_malloc_list [OF this(1)] this(2)
  have "free_list (snd (do_memp_malloc_pool demo_pool)) [2, 1, 0]" "memp_num (snd (do_memp_malloc_pool demo_pool)) = 4"
    by simp_all
  from memp_malloc_list [OF this(1)] this(2)
  show "free_list (pool_PBUF_POOL demo_chain) [1, 0]" "memp_num (pool_PBUF_POOL demo_chain) = 4"
    by (simp_all add: demo_chain_def)
qed

lemma demo_chain_avail: "memp_avail (pool_PBUF_POOL demo_chain) {0, 1}" "memp_num (pool_PBUF_POOL demo_chain) = 4"
  using demo_chain_list demo_chain_num by (auto simp: memp_avail_def intro!: exI [of _ "[1, 0]"])

lemma demo_packet: "packet (pb_obj demo_chain) (Some (PoolPbuf 3)) [PoolPbuf 3, PoolPbuf 2]"
    "packet (pb_obj demo_chain) (Some (PoolPbuf 2)) [PoolPbuf 2]"
  by (simp_all add: packet_def demo_chain_def demo_buf_def payload_ok_def)

lemma demo_obj: "pb_obj demo_chain (PoolPbuf 3) = Some (demo_buf [1, 2, 3] (Some (PoolPbuf 2)) 5 1)"
    "pb_obj demo_chain (PoolPbuf 2) = Some (demo_buf [4, 5] None 2 2)"
  by (simp_all add: demo_chain_def)

lemma demo_lens: "lens (pb_obj demo_chain) [PoolPbuf 3, PoolPbuf 2] = 5"
  by (simp add: demo_obj demo_buf_def)

lemma demo_data: "chain_data (pb_obj demo_chain) [PoolPbuf 3, PoolPbuf 2] = [1, 2, 3, 4, 5]"
  by (simp add: chain_data_def bdata_def demo_chain_def demo_buf_def payload_bytes_def)

section \<open>Properties\<close>

text \<open>\<^verbatim>\<open>pbuf_copy_partial\<close> copies exactly the requested part of the bytes the chain carries, clipped
  at the end of the packet, returns how many these are and changes nothing; it makes no access
  outside a buffer, whatever length and offset are asked for.\<close>

theorem pbuf_copy_partial_reads_data:
  assumes "packet (pb_obj s) p xs" "p \<noteq> None" "length xs < chain_fuel"
  shows "pbuf_copy_partial p l offset s =
    Inr ((take (unat l) (drop (unat offset) (chain_data (pb_obj s) xs)),
          of_nat (min (unat l) (length (chain_data (pb_obj s) xs) - unat offset))), s)"
  using pbuf_copy_partial_eq [OF assms] by (simp add: Let_def min.commute)

theorem pbuf_copy_partial_reads_data_witness:
  "pbuf_copy_partial (Some (PoolPbuf 3)) 10 1 demo_chain = Inr (([2, 3, 4, 5], 4), demo_chain)"
  using pbuf_copy_partial_reads_data [OF demo_packet(1), of 10 1] unfolding demo_data by (simp add: chain_fuel_def)

text \<open>\<^verbatim>\<open>pbuf_take\<close> stores its bytes at the start of the packet: reading them back with
  \<^verbatim>\<open>pbuf_copy_partial\<close> gives the same bytes, the rest of the packet and every other buffer keep their
  contents, and a packet that is too short is refused without a change.\<close>

theorem pbuf_take_roundtrip:
  assumes p: "packet (pb_obj s) p xs" "p \<noteq> None" and fuel: "length xs < chain_fuel"
    and n: "length bs < 65536"
  shows "if length bs \<le> lens (pb_obj s) xs then
      \<exists>s'. pbuf_take p bs s = Inr (ERR_OK, s') \<and> pbuf_copy_partial p (of_nat (length bs)) 0 s' = Inr ((bs, of_nat (length bs)), s')
        \<and> pbuf_copy_partial p 0xFFFF (of_nat (length bs)) s' =
            Inr ((drop (length bs) (chain_data (pb_obj s) xs), of_nat (lens (pb_obj s) xs - length bs)), s')
        \<and> (\<forall>y. y \<notin> set xs \<longrightarrow> pb_obj s' y = pb_obj s y)
    else pbuf_take p bs s = Inr (ERR_MEM, s)"
proof (cases "length bs \<le> lens (pb_obj s) xs")
  case False
  obtain x b where "p = Some x" "pb_obj s x = Some b" "unat (pb_tot_len b) = lens (pb_obj s) xs"
    using p by (cases xs) (auto simp: packet_def)
  then show ?thesis using False by (simp add: pbuf_take_def act_defs)
next
  case True
  from pbuf_take_run [OF p True fuel] obtain h where
    h: "pbuf_take p bs s = Inr (ERR_OK, s\<lparr>pb_obj := h\<rparr>)" "packet h p xs"
      "chain_data h xs = bs @ drop (length bs) (chain_data (pb_obj s) xs)" "\<forall>y. y \<notin> set xs \<longrightarrow> h y = pb_obj s y"
    by blast
  have l: "length (chain_data (pb_obj s) xs) = lens (pb_obj s) xs" "lens (pb_obj s) xs < 65536"
    using p seg_length seg_bound [of "pb_obj s" p xs None 0] by (auto simp: packet_def) (cases xs; fastforce)
  have u: "unat (of_nat (length bs) :: u16) = length bs" "unat (0xFFFF :: u16) = 65535" using n by (simp_all add: unat_of_nat_u16)
  have "packet (pb_obj (s\<lparr>pb_obj := h\<rparr>)) p xs" using h(2) by simp
  note cp = pbuf_copy_partial_eq [OF this p(2) fuel]
  show ?thesis
    using True h l u by (auto simp: cp Let_def min_def intro!: exI [of _ "s\<lparr>pb_obj := h\<rparr>"])
qed

theorem pbuf_take_roundtrip_witness:
  "\<exists>s'. pbuf_take (Some (PoolPbuf 3)) [9, 8, 7, 6] demo_chain = Inr (ERR_OK, s')
     \<and> pbuf_copy_partial (Some (PoolPbuf 3)) 0xFFFF 4 s' = Inr (([5], 1), s')"
  using pbuf_take_roundtrip [OF demo_packet(1), of "[9, 8, 7, 6]"] unfolding demo_data demo_lens
  by (auto simp: chain_fuel_def)

text \<open>\<^verbatim>\<open>pbuf_cat\<close> of two packets with no buffer in common and a combined length below 65536 gives one
  packet with the documented length invariant that carries the bytes of both in order.\<close>

theorem pbuf_cat_concatenates:
  assumes "packet (pb_obj s) p xs" "p \<noteq> None" "packet (pb_obj s) t ys" "t \<noteq> None" "set xs \<inter> set ys = {}"
    and "lens (pb_obj s) xs + lens (pb_obj s) ys < 65536" "length xs \<le> chain_fuel"
  shows "\<exists>h. pbuf_cat p t s = Inr ((), s\<lparr>pb_obj := h\<rparr>) \<and> packet h p (xs @ ys)
    \<and> chain_data h (xs @ ys) = chain_data (pb_obj s) xs @ chain_data (pb_obj s) ys"
  using pbuf_cat_run [OF assms] by blast

definition demo_two :: "unit pbuf_sys" where
  "demo_two = demo_pbufs\<lparr>pb_obj := (\<lambda>_. None)(PoolPbuf 0 \<mapsto> demo_buf [1, 2] None 2 1, PoolPbuf 1 \<mapsto> demo_buf [3] None 1 1)\<rparr>"

theorem pbuf_cat_concatenates_witness:
  "\<exists>h. pbuf_cat (Some (PoolPbuf 0)) (Some (PoolPbuf 1)) demo_two = Inr ((), demo_two\<lparr>pb_obj := h\<rparr>)
     \<and> packet h (Some (PoolPbuf 0)) [PoolPbuf 0, PoolPbuf 1] \<and> chain_data h [PoolPbuf 0, PoolPbuf 1] = [1, 2, 3]"
proof -
  have d: "chain_data (pb_obj demo_two) [PoolPbuf 0] = [1, 2]" "chain_data (pb_obj demo_two) [PoolPbuf 1] = [3]"
    by (simp_all add: bdata_def demo_two_def demo_buf_def payload_bytes_def)
  have "\<exists>h. pbuf_cat (Some (PoolPbuf 0)) (Some (PoolPbuf 1)) demo_two = Inr ((), demo_two\<lparr>pb_obj := h\<rparr>)
     \<and> packet h (Some (PoolPbuf 0)) ([PoolPbuf 0] @ [PoolPbuf 1])
     \<and> chain_data h ([PoolPbuf 0] @ [PoolPbuf 1]) = chain_data (pb_obj demo_two) [PoolPbuf 0] @ chain_data (pb_obj demo_two) [PoolPbuf 1]"
    by (rule pbuf_cat_concatenates)
      (simp_all add: packet_def demo_two_def demo_buf_def payload_ok_def chain_fuel_def)
  then show ?thesis unfolding d by simp
qed

text \<open>\<^verbatim>\<open>pbuf_free\<close> on a chain of pool buffers releases exactly the leading buffers whose only reference
  this was, gives them back to the pool, takes one reference from the first buffer that remains, touches
  nothing else and returns how many it released.\<close>

theorem pbuf_free_releases_unshared_prefix:
  assumes "packet (pb_obj s) p xs" "\<forall>x \<in> set xs. pool_buf s F x" "memp_avail (pool_PBUF_POOL s) F" "length xs < chain_fuel"
  shows "\<exists>d. pbuf_free E p s =
      Inr (of_nat (length (freed (pb_obj s) xs)), s\<lparr>pb_obj := after_free (pb_obj s) xs, pool_PBUF_POOL := d\<rparr>)
    \<and> memp_avail d (F \<union> {e. PoolPbuf e \<in> set (freed (pb_obj s) xs)})"
  using free_loop_run [of s p xs 0 F chain_fuel E 0] assms by (auto simp: packet_def pbuf_free_def)

theorem pbuf_free_releases_unshared_prefix_witness:
  "\<exists>s'. pbuf_free demo_env (Some (PoolPbuf 3)) demo_chain = Inr (1, s')
     \<and> pb_obj s' (PoolPbuf 3) = None \<and> map_option pb_ref (pb_obj s' (PoolPbuf 2)) = Some 1
     \<and> memp_avail (pool_PBUF_POOL s') {0, 1, 3}"
proof -
  have fr: "freed (pb_obj demo_chain) [PoolPbuf 3, PoolPbuf 2] = [PoolPbuf 3]"
    by (simp add: freed_def only_ref_def demo_chain_def demo_buf_def)
  have "\<forall>x \<in> set [PoolPbuf 3, PoolPbuf 2]. pool_buf demo_chain {0, 1} x"
    using demo_chain_avail(2) by (simp add: pool_buf_def pbuf_get_allocsrc_def pbuf_consts demo_chain_def demo_buf_def)
  from pbuf_free_releases_unshared_prefix [OF demo_packet(1) this demo_chain_avail(1), of demo_env]
  obtain d where d: "pbuf_free demo_env (Some (PoolPbuf 3)) demo_chain =
      Inr (1, demo_chain\<lparr>pb_obj := after_free (pb_obj demo_chain) [PoolPbuf 3, PoolPbuf 2], pool_PBUF_POOL := d\<rparr>)"
      "memp_avail d ({0, 1} \<union> {e. e = 3})"
    unfolding fr by (auto simp: chain_fuel_def)
  moreover have "after_free (pb_obj demo_chain) [PoolPbuf 3, PoolPbuf 2] (PoolPbuf 3) = None"
    "map_option pb_ref (after_free (pb_obj demo_chain) [PoolPbuf 3, PoolPbuf 2] (PoolPbuf 2)) = Some 1"
    by (simp_all add: after_free_def fr only_ref_def demo_obj demo_buf_def)
  moreover have "{0, 1} \<union> {e. e = 3} = {0, 1, 3 :: nat}" by auto
  ultimately show ?thesis by simp
qed

text \<open>\<^verbatim>\<open>pbuf_alloc\<close> from the pool is all or nothing: it returns a fresh packet of exactly the
  requested length, built from free elements of the pool, or the null pointer, and then every
  element it took is free again and the only trace is the request to free out-of-sequence data.\<close>

theorem pbuf_alloc_pool_all_or_nothing:
  assumes "pool_inv s F" "memp_num (pool_PBUF_POOL s) \<le> 65535" "unat layer \<le> 54"
  shows "\<exists>r s'. pbuf_alloc E layer l PBUF_POOL s = Inr (r, s') \<and>
    (case r of
       None \<Rightarrow> pool_inv s' F \<and> pb_obj s' = pb_obj s \<and> pbuf_free_ooseq_pending s'
     | Some _ \<Rightarrow> \<exists>xs. packet (pb_obj s') r xs \<and> lens (pb_obj s') xs = unat l \<and> pool_ids xs \<subseteq> F
         \<and> pool_inv s' (F - pool_ids xs) \<and> (\<forall>y. y \<notin> set xs \<longrightarrow> pb_obj s' y = pb_obj s y))"
proof -
  from pbuf_alloc_pool_spec [OF assms] obtain r s' where
    r: "pbuf_alloc E layer l PBUF_POOL s = Inr (r, s')" "alloc_post s F [] (unat l) r s'" by blast
  then show ?thesis by (cases r) (auto simp: alloc_post_def)
qed

theorem pbuf_alloc_pool_all_or_nothing_witness:
  "\<exists>r s'. pbuf_alloc demo_env PBUF_RAW 3000 PBUF_POOL demo_pbufs = Inr (r, s')
     \<and> (r \<noteq> None \<longrightarrow> (\<exists>xs. packet (pb_obj s') r xs \<and> lens (pb_obj s') xs = 3000))"
  using pbuf_alloc_pool_all_or_nothing [OF demo_pool_inv, of PBUF_RAW demo_env 3000] demo_pool_avail(2)
  by (fastforce simp: PBUF_RAW_def demo_pbufs_def split: option.splits)

text \<open>Revealing and hiding a header of \<open>n\<close> bytes are inverse: when there is room in front of the
  payload and the total length does not wrap, \<^verbatim>\<open>pbuf_add_header\<close> succeeds and
  \<^verbatim>\<open>pbuf_remove_header\<close> restores the buffer; without room the header is refused and nothing
  changes.\<close>

theorem pbuf_header_roundtrip:
  assumes b: "pb_obj s x = Some b" "ucast (pb_type_internal b) AND PBUF_TYPE_FLAG_STRUCT_DATA_CONTIGUOUS \<noteq> 0"
      "pb_payload b = Some a" "pb_len b \<le> pb_tot_len b"
    and n: "0 < n" "n \<le> 0xFFFF" "unat (pb_tot_len b) + unat n < 65536"
  shows "if unat n \<le> a then
      act_bind (pbuf_add_header (Some x) n) (\<lambda>r. act_bind (pbuf_remove_header (Some x) n) (\<lambda>r'. act_return (r, r'))) s =
        Inr ((False, False), s)
    else pbuf_add_header (Some x) n s = Inr (True, s)"
proof -
  let ?m = "ucast n :: u16"
  have n16: "unat n < 65536" using n(2) by (simp add: word_le_nat_alt)
  then have m: "unat ?m = unat n" by (simp add: unsigned_ucast_eq take_bit_nat_eq_self)
  have fits: "\<not> ?m + pb_tot_len b < ?m"
    using n(3) m by (simp add: word_less_nat_alt unat_u16_add)
  have le: "?m \<le> pb_len b + ?m"
  proof -
    have "unat (pb_len b) + unat n < 65536" using b(4) n(3) by (simp add: word_le_nat_alt)
    then show ?thesis using m by (simp add: word_le_nat_alt unat_u16_add)
  qed
  have n0: "n \<noteq> 0" "\<not> 0xFFFF < n" using n by auto
  show ?thesis
    using b n0 fits le
    by (auto simp: pbuf_add_header_def pbuf_add_header_impl_def pbuf_remove_header_def act_defs Let_def fun_upd_idem)
qed

theorem pbuf_header_roundtrip_witness:
  "act_bind (pbuf_add_header (Some (PoolPbuf 3)) 14) (\<lambda>r. act_bind (pbuf_remove_header (Some (PoolPbuf 3)) 14) (\<lambda>r'. act_return (r, r')))
     (demo_chain\<lparr>pb_obj := (pb_obj demo_chain)(PoolPbuf 3 \<mapsto> (demo_buf (replicate 30 0) None 16 1)\<lparr>pb_payload := Some 14, pb_len := 16\<rparr>)\<rparr>) =
   Inr ((False, False),
     demo_chain\<lparr>pb_obj := (pb_obj demo_chain)(PoolPbuf 3 \<mapsto> (demo_buf (replicate 30 0) None 16 1)\<lparr>pb_payload := Some 14, pb_len := 16\<rparr>)\<rparr>)"
  using pbuf_header_roundtrip [of "demo_chain\<lparr>pb_obj := (pb_obj demo_chain)(PoolPbuf 3 \<mapsto>
      (demo_buf (replicate 30 0) None 16 1)\<lparr>pb_payload := Some 14, pb_len := 16\<rparr>)\<rparr>" "PoolPbuf 3"
      "(demo_buf (replicate 30 0) None 16 1)\<lparr>pb_payload := Some 14, pb_len := 16\<rparr>" 14 14]
  by (simp add: demo_buf_def pbuf_consts)

end
