(* ===== verification/Lwip_Addr.thy ===== *)
theory Lwip_Addr
  imports Ncm_Prelude
begin

text \<open>
  Byte order and addresses of the network stack (lib/lwip/src/core/def.c, core/ipv4/ip4_addr.c,
  include/lwip/def.h, include/lwip/ip4_addr.h), on the little-endian FX3.  An IPv4 address is the 32-bit
  word that holds it in network byte order.
\<close>

section \<open>Byte order\<close>

definition PP_HTONS :: "u16 \<Rightarrow> u16" where
  "PP_HTONS x = push_bit 8 (x AND 0x00FF) OR drop_bit 8 (x AND 0xFF00)"

definition PP_HTONL :: "u32 \<Rightarrow> u32" where
  "PP_HTONL x = push_bit 24 (x AND 0x000000FF) OR push_bit 8 (x AND 0x0000FF00)
     OR drop_bit 8 (x AND 0x00FF0000) OR drop_bit 24 (x AND 0xFF000000)"

definition lwip_htons :: "u16 \<Rightarrow> u16" where "lwip_htons n = PP_HTONS n"

definition lwip_htonl :: "u32 \<Rightarrow> u32" where "lwip_htonl n = PP_HTONL n"

definition LWIP_MAKEU32 :: "u8 \<Rightarrow> u8 \<Rightarrow> u8 \<Rightarrow> u8 \<Rightarrow> u32" where
  "LWIP_MAKEU32 a b c d = push_bit 24 (ucast a) OR push_bit 16 (ucast b) OR push_bit 8 (ucast c) OR ucast d"

type_synonym ip4_addr_t = u32

definition IPADDR_ANY :: ip4_addr_t where "IPADDR_ANY = 0"
definition IPADDR_BROADCAST :: ip4_addr_t where "IPADDR_BROADCAST = 0xFFFFFFFF"
definition IPADDR_NONE :: ip4_addr_t where "IPADDR_NONE = 0xFFFFFFFF"

lemma byte_masks: "(0xFF :: u16) = mask 8" "(0xFF00 :: u16) = push_bit 8 (mask 8)"
    "(0xFF :: u32) = mask 8" "(0xFF00 :: u32) = push_bit 8 (mask 8)"
    "(0xFF0000 :: u32) = push_bit 16 (mask 8)" "(0xFF000000 :: u32) = push_bit 24 (mask 8)"
  by (simp_all add: mask_eq_exp_minus_1 push_bit_eq_mult)

lemma bit_htons: "bit (lwip_htons x) n = (n < 16 \<and> bit x (if n < 8 then 8 + n else n - 8))"
  unfolding lwip_htons_def PP_HTONS_def byte_masks by (auto simp: bit_simps)

lemma bit_htonl: "bit (lwip_htonl x) n = (n < 32 \<and> bit x (24 - 8 * (n div 8) + n mod 8))"
proof -
  consider "n < 8" | "8 \<le> n" "n < 16" | "16 \<le> n" "n < 24" | "24 \<le> n" "n < 32" | "32 \<le> n" by linarith
  then show ?thesis
  proof cases
    case 1
    then show ?thesis unfolding lwip_htonl_def PP_HTONL_def byte_masks by (auto simp: bit_simps add.commute)
  next
    case 2
    then have "n div 8 = 1" "n mod 8 = n - 8" by (simp_all add: div_nat_eqI mod_if)
    then show ?thesis using 2 unfolding lwip_htonl_def PP_HTONL_def byte_masks by (auto simp: bit_simps)
  next
    case 3
    then have "n div 8 = 2" "n mod 8 = n - 16" by (simp_all add: div_nat_eqI mod_if)
    then show ?thesis using 3 unfolding lwip_htonl_def PP_HTONL_def byte_masks by (auto simp: bit_simps)
  next
    case 4
    then have "n div 8 = 3" "n mod 8 = n - 24" by (simp_all add: div_nat_eqI mod_if)
    then show ?thesis using 4 unfolding lwip_htonl_def PP_HTONL_def byte_masks by (auto simp: bit_simps)
  next
    case 5
    then show ?thesis unfolding lwip_htonl_def PP_HTONL_def byte_masks by (auto simp: bit_simps)
  qed
qed

lemma htons_htons [simp]: "lwip_htons (lwip_htons x) = x"
  by (rule bit_word_eqI) (auto simp: bit_htons)

lemma htonl_htonl [simp]: "lwip_htonl (lwip_htonl x) = x"
proof (rule bit_word_eqI)
  fix n assume n: "n < LENGTH(32)"
  define q r where "q = n div 8" and "r = n mod 8"
  have "q \<le> 3" "r < 8" "n = 8 * q + r" using n by (simp_all add: q_def r_def)
  then have "24 - 8 * q + r = r + 8 * (3 - q)" "r + 8 * (3 - q) < 32" by simp_all
  moreover have "(r + 8 * (3 - q)) div 8 = 3 - q" "(r + 8 * (3 - q)) mod 8 = r" using \<open>r < 8\<close> by simp_all
  ultimately show "bit (lwip_htonl (lwip_htonl x)) n = bit x n"
    using n \<open>q \<le> 3\<close> \<open>n = 8 * q + r\<close> by (simp add: bit_htonl flip: q_def r_def) (simp add: algebra_simps)
qed

lemma le16_htons: "le16 (lwip_htons v) = [ucast (drop_bit 8 v), ucast v]"
  unfolding le16_def by (auto intro!: bit_word_eqI simp: bit_htons bit_simps)

end
