(* ===== verification/Lwip_Netif.thy ===== *)
theory Lwip_Netif
  imports Lwip_Addr
begin

text \<open>
  The network interface structure and its administration (lib/lwip/src/core/netif.c,
  include/lwip/netif.h), in the configuration of lwipopts.h: IPv4 only, one interface, no DHCP, no
  status callbacks.  The firmware has one interface object, so a pointer to an interface is the fact that
  it is set.  The function pointers of the structure are the names of the functions they point to.  The
  reactions of the other parts of the stack (TCP and UDP to a changed address, ARP) act on the state
  \<open>'x\<close> of that rest and are a parameter.
\<close>

section \<open>Data\<close>

datatype netif_fn = Fn_NULL | Fn_ip_input | Fn_netif_null_output_ip4 | Fn_ip4_output_app | Fn_link_output_app

record netif =
  ip_addr :: ip4_addr_t
  netmask :: ip4_addr_t
  gw :: ip4_addr_t
  nif_input :: netif_fn
  nif_output :: netif_fn
  nif_linkoutput :: netif_fn
  mtu :: u16
  hwaddr :: "u8 list"
  hwaddr_len :: u8
  nif_flags :: u8
  nif_name :: string
  nif_num :: u8

definition NETIF_FLAG_UP :: u8 where "NETIF_FLAG_UP = 0x01"
definition NETIF_FLAG_BROADCAST :: u8 where "NETIF_FLAG_BROADCAST = 0x02"
definition NETIF_FLAG_LINK_UP :: u8 where "NETIF_FLAG_LINK_UP = 0x04"
definition NETIF_FLAG_ETHARP :: u8 where "NETIF_FLAG_ETHARP = 0x08"
definition NETIF_REPORT_TYPE_IPV4 :: u8 where "NETIF_REPORT_TYPE_IPV4 = 0x01"
definition NETIF_REPORT_TYPE_IPV6 :: u8 where "NETIF_REPORT_TYPE_IPV6 = 0x02"

lemmas netif_consts = NETIF_FLAG_UP_def NETIF_FLAG_BROADCAST_def NETIF_FLAG_LINK_UP_def NETIF_FLAG_ETHARP_def
  NETIF_REPORT_TYPE_IPV4_def NETIF_REPORT_TYPE_IPV6_def

record 'x netif_env =
  netif_do_ip_addr_changed :: "ip4_addr_t \<Rightarrow> ip4_addr_t option \<Rightarrow> ('x, unit) act"
  etharp_gratuitous :: "netif \<Rightarrow> ('x, unit) act"
  etharp_cleanup_netif :: "netif \<Rightarrow> ('x, unit) act"

record 'x netif_sys =
  netif_data :: netif
  netif_default :: bool
  stack :: 'x

definition nif :: "(netif \<Rightarrow> 'a) \<Rightarrow> ('x netif_sys, 'a) act" where
  "nif f = act_gets (\<lambda>s. f (netif_data s))"

definition nif_modify :: "(netif \<Rightarrow> netif) \<Rightarrow> ('x netif_sys, unit) act" where
  "nif_modify f = act_modify (netif_data_update f)"

definition in_stack :: "('x, 'a) act \<Rightarrow> ('x netif_sys, 'a) act" where
  "in_stack m s = (case m (stack s) of Inl e \<Rightarrow> Inl (EnvFault e) | Inr (r, x) \<Rightarrow> Inr (r, s\<lparr>stack := x\<rparr>))"

section \<open>Flags and reports\<close>

definition netif_is_up :: "netif \<Rightarrow> bool" where
  "netif_is_up n \<longleftrightarrow> nif_flags n AND NETIF_FLAG_UP \<noteq> 0"

definition netif_is_link_up :: "netif \<Rightarrow> bool" where
  "netif_is_link_up n \<longleftrightarrow> nif_flags n AND NETIF_FLAG_LINK_UP \<noteq> 0"

definition netif_set_flags :: "u8 \<Rightarrow> netif \<Rightarrow> netif" where
  "netif_set_flags f n = n\<lparr>nif_flags := nif_flags n OR f\<rparr>"

definition netif_clear_flags :: "u8 \<Rightarrow> netif \<Rightarrow> netif" where
  "netif_clear_flags f n = n\<lparr>nif_flags := nif_flags n AND (NOT f AND 0xFF)\<rparr>"

definition netif_issue_reports :: "'x netif_env \<Rightarrow> u8 \<Rightarrow> ('x netif_sys, unit) act" where
  "netif_issue_reports E report_type =
     act_bind (nif id) (\<lambda>n.
     if \<not> netif_is_link_up n \<or> \<not> netif_is_up n then act_return ()
     else if report_type AND NETIF_REPORT_TYPE_IPV4 \<noteq> 0 \<and> ip_addr n \<noteq> IPADDR_ANY
         \<and> nif_flags n AND NETIF_FLAG_ETHARP \<noteq> 0
       then in_stack (etharp_gratuitous E n)
     else act_return ())"

definition netif_set_up :: "'x netif_env \<Rightarrow> ('x netif_sys, unit) act" where
  "netif_set_up E =
     act_bind (nif nif_flags) (\<lambda>fl.
     if fl AND NETIF_FLAG_UP = 0 then
       act_bind (nif_modify (netif_set_flags NETIF_FLAG_UP)) (\<lambda>_.
       netif_issue_reports E (NETIF_REPORT_TYPE_IPV4 OR NETIF_REPORT_TYPE_IPV6))
     else act_return ())"

definition netif_set_down :: "'x netif_env \<Rightarrow> ('x netif_sys, unit) act" where
  "netif_set_down E =
     act_bind (nif nif_flags) (\<lambda>fl.
     if fl AND NETIF_FLAG_UP \<noteq> 0 then
       act_bind (nif_modify (netif_clear_flags NETIF_FLAG_UP)) (\<lambda>_.
       act_bind (nif id) (\<lambda>n.
       if nif_flags n AND NETIF_FLAG_ETHARP \<noteq> 0 then in_stack (etharp_cleanup_netif E n) else act_return ()))
     else act_return ())"

definition netif_set_link_up :: "'x netif_env \<Rightarrow> ('x netif_sys, unit) act" where
  "netif_set_link_up E =
     act_bind (nif nif_flags) (\<lambda>fl.
     if fl AND NETIF_FLAG_LINK_UP = 0 then
       act_bind (nif_modify (netif_set_flags NETIF_FLAG_LINK_UP)) (\<lambda>_.
       netif_issue_reports E (NETIF_REPORT_TYPE_IPV4 OR NETIF_REPORT_TYPE_IPV6))
     else act_return ())"

definition netif_set_link_down :: "('x netif_sys, unit) act" where
  "netif_set_link_down =
     act_bind (nif nif_flags) (\<lambda>fl.
     if fl AND NETIF_FLAG_LINK_UP \<noteq> 0 then nif_modify (netif_clear_flags NETIF_FLAG_LINK_UP)
     else act_return ())"

section \<open>Addresses of the interface\<close>

text \<open>\<^verbatim>\<open>netif_do_set_ipaddr\<close> returns whether the address changed; TCP and UDP hear of it first.\<close>

definition netif_do_set_ipaddr :: "'x netif_env \<Rightarrow> ip4_addr_t \<Rightarrow> ('x netif_sys, bool) act" where
  "netif_do_set_ipaddr E a =
     act_bind (nif ip_addr) (\<lambda>old.
     if a \<noteq> old then
       act_bind (in_stack (netif_do_ip_addr_changed E old (Some a))) (\<lambda>_.
       act_bind (nif_modify (ip_addr_update (\<lambda>_. a))) (\<lambda>_.
       act_bind (netif_issue_reports E NETIF_REPORT_TYPE_IPV4) (\<lambda>_.
       act_return True)))
     else act_return False)"

definition netif_do_set_netmask :: "ip4_addr_t \<Rightarrow> ('x netif_sys, bool) act" where
  "netif_do_set_netmask a =
     act_bind (nif netmask) (\<lambda>old.
     if a \<noteq> old then act_bind (nif_modify (netmask_update (\<lambda>_. a))) (\<lambda>_. act_return True)
     else act_return False)"

definition netif_do_set_gw :: "ip4_addr_t \<Rightarrow> ('x netif_sys, bool) act" where
  "netif_do_set_gw a =
     act_bind (nif gw) (\<lambda>old.
     if a \<noteq> old then act_bind (nif_modify (gw_update (\<lambda>_. a))) (\<lambda>_. act_return True)
     else act_return False)"

text \<open>A null pointer stands for the any-address.\<close>

definition or_any :: "ip4_addr_t option \<Rightarrow> ip4_addr_t" where
  "or_any a = (case a of None \<Rightarrow> IPADDR_ANY | Some x \<Rightarrow> x)"

definition netif_set_ipaddr :: "'x netif_env \<Rightarrow> ip4_addr_t option \<Rightarrow> ('x netif_sys, unit) act" where
  "netif_set_ipaddr E a = act_bind (netif_do_set_ipaddr E (or_any a)) (\<lambda>_. act_return ())"

definition netif_set_netmask :: "ip4_addr_t option \<Rightarrow> ('x netif_sys, unit) act" where
  "netif_set_netmask a = act_bind (netif_do_set_netmask (or_any a)) (\<lambda>_. act_return ())"

definition netif_set_gw :: "ip4_addr_t option \<Rightarrow> ('x netif_sys, unit) act" where
  "netif_set_gw a = act_bind (netif_do_set_gw (or_any a)) (\<lambda>_. act_return ())"

definition netif_set_addr :: "'x netif_env \<Rightarrow> ip4_addr_t option \<Rightarrow> ip4_addr_t option \<Rightarrow> ip4_addr_t option \<Rightarrow>
    ('x netif_sys, unit) act" where
  "netif_set_addr E a nm g =
     (let rm = (or_any a = IPADDR_ANY) in
      act_bind (if rm then netif_do_set_ipaddr E (or_any a) else act_return False) (\<lambda>_.
      act_bind (netif_do_set_netmask (or_any nm)) (\<lambda>_.
      act_bind (netif_do_set_gw (or_any g)) (\<lambda>_.
      act_bind (if \<not> rm then netif_do_set_ipaddr E (or_any a) else act_return False) (\<lambda>_.
      act_return ())))))"

section \<open>Adding and removing the interface\<close>

text \<open>
  \<^verbatim>\<open>netif_add\<close> returns whether the interface was added (the pointer it returns is not null); the
  initialisation function of the driver runs on the interface and returns whether it succeeded.
\<close>

definition netif_add :: "'x netif_env \<Rightarrow> ip4_addr_t option \<Rightarrow> ip4_addr_t option \<Rightarrow> ip4_addr_t option \<Rightarrow>
    ('x netif_sys, bool) act \<Rightarrow> netif_fn \<Rightarrow> ('x netif_sys, bool) act" where
  "netif_add E a nm g init input =
     act_bind (act_gets netif_default) (\<lambda>d.
     if d then act_return False
     else
       act_bind (nif_modify (\<lambda>n. n\<lparr>ip_addr := 0, netmask := 0, gw := 0, nif_output := Fn_netif_null_output_ip4,
           mtu := 0, nif_flags := 0, nif_num := 0, nif_input := input\<rparr>)) (\<lambda>_.
       act_bind (netif_set_addr E a nm g) (\<lambda>_.
       act_bind init (\<lambda>ok. act_return ok))))"

definition netif_set_default :: "bool \<Rightarrow> ('x netif_sys, unit) act" where
  "netif_set_default n = act_modify (netif_default_update (\<lambda>_. n))"

definition netif_remove :: "'x netif_env \<Rightarrow> bool \<Rightarrow> ('x netif_sys, unit) act" where
  "netif_remove E n =
     (if \<not> n then act_return ()
      else
        act_bind (nif ip_addr) (\<lambda>a.
        act_bind (if a \<noteq> IPADDR_ANY then in_stack (netif_do_ip_addr_changed E a None) else act_return ()) (\<lambda>_.
        act_bind (nif netif_is_up) (\<lambda>up.
        act_bind (if up then netif_set_down E else act_return ()) (\<lambda>_.
        act_bind (act_gets netif_default) (\<lambda>d.
        if d then netif_set_default False else act_return ()))))))"

section \<open>Lemmas\<close>

text \<open>\<^verbatim>\<open>ip4_addr_isbroadcast_u32\<close> of core/ipv4/ip4_addr.c.\<close>

definition ip4_addr_isbroadcast_u32 :: "ip4_addr_t \<Rightarrow> netif \<Rightarrow> bool" where
  "ip4_addr_isbroadcast_u32 a n =
     (if NOT a = IPADDR_ANY \<or> a = IPADDR_ANY then True
      else if nif_flags n AND NETIF_FLAG_BROADCAST = 0 then False
      else if a = ip_addr n then False
      else a AND netmask n = ip_addr n AND netmask n
        \<and> a AND NOT (netmask n) = IPADDR_BROADCAST AND NOT (netmask n))"

lemmas netif_defs = nif_def nif_modify_def netif_do_set_ipaddr_def netif_do_set_netmask_def netif_do_set_gw_def
  netif_issue_reports_def netif_is_up_def netif_is_link_up_def or_any_def

text \<open>
  While the flags are clear no report goes out; setting the addresses then only tells the stack of a
  changed address.
\<close>

lemma netif_set_addr_quiet:
  assumes "nif_flags (netif_data s) = 0" "or_any a \<noteq> IPADDR_ANY" "or_any a \<noteq> ip_addr (netif_data s)"
    and "netif_do_ip_addr_changed E (ip_addr (netif_data s)) (Some (or_any a)) (stack s) = Inr ((), x)"
  shows "netif_set_addr E a nm g s = Inr ((), s\<lparr>netif_data := (netif_data s)
    \<lparr>ip_addr := or_any a, netmask := or_any nm, gw := or_any g\<rparr>, stack := x\<rparr>)"
  using assms by (auto simp: netif_set_addr_def netif_do_set_ipaddr_def netif_do_set_netmask_def netif_do_set_gw_def
      netif_issue_reports_def netif_is_link_up_def nif_def nif_modify_def in_stack_def act_defs Let_def)

end
