(* ===== verification/Fx3_Sdk.thy ===== *)
theory Fx3_Sdk
  imports Fx3_DmaBuf Lwip_Pbuf Lwip_Netif Usb_Desc Ncm_Net
begin

text \<open>
  The interface between the application (src/main.c) and what it runs on, and the state of the whole
  firmware.  The FX3 library and its RTOS are not part of the repository: they are a record of functions
  over their own state \<open>'k\<close>, a parameter of the application.  A call that only reports a status is a
  value of \<open>sdk_req\<close>, with its arguments.  The constants of the library's headers are fields of the
  same record; what a theorem needs of their values is a hypothesis of it.  Debug output is left out, and
  so are the buffers no function reads (\<^verbatim>\<open>inBuf\<close>, \<^verbatim>\<open>glEp0Buffer\<close>) and the option flags that every call
  of a function passes alike.
\<close>

section \<open>Arguments of the library's functions\<close>

datatype dma_channel = glChHandleNotifier | glChHandleBulkSink | glChHandleBulkSrc

datatype usb_speed = CY_U3P_FULL_SPEED | CY_U3P_HIGH_SPEED | CY_U3P_SUPER_SPEED | OTHER_SPEED

text \<open>\<open>EP_TYPE_ZERO\<close> is the type field of a structure that was set to zero.\<close>

datatype ep_type = EP_TYPE_ZERO | CY_U3P_USB_EP_INTR | CY_U3P_USB_EP_BULK

record CyU3PEpConfig_t =
  ep_enable :: bool
  epType :: ep_type
  burstLen :: u16
  streams :: u16
  pcktSize :: u16

datatype dma_socket = CY_U3P_CPU_SOCKET_PROD | CY_U3P_CPU_SOCKET_CONS | CY_U3P_UIB_SOCKET_CONS_1
  | CY_U3P_UIB_SOCKET_PROD_2 | CY_U3P_UIB_SOCKET_CONS_2

datatype dma_type = CY_U3P_DMA_TYPE_MANUAL_OUT | CY_U3P_DMA_TYPE_MANUAL_IN

datatype dma_mode = CY_U3P_DMA_MODE_BYTE

record CyU3PDmaChannelConfig_t =
  dma_size :: u16
  dma_count :: u16
  prodSckId :: dma_socket
  consSckId :: dma_socket
  dmaMode :: dma_mode
  dma_notification :: u32
  dma_cb :: bool
  prodHeader :: u16
  prodFooter :: u16
  consHeader :: u16
  prodAvailCount :: u16

record CyU3PDmaBuffer_t =
  buf_buffer :: u32
  buf_count :: u16
  buf_size :: u16
  buf_status :: u16

datatype desc_type = CY_U3P_USB_SET_HS_DEVICE_DESCR | CY_U3P_USB_SET_HS_CONFIG_DESCR
  | CY_U3P_USB_SET_FS_CONFIG_DESCR | CY_U3P_USB_SET_STRING_DESCR

datatype link_power = CyU3PUsbLPM_U0 | CyU3PUsbLPM_U1 | CyU3PUsbLPM_U2 | CyU3PUsbLPM_U3 | CyU3PUsbLPM_Other

datatype usb_event = CY_U3P_USB_EVENT_CONNECT | CY_U3P_USB_EVENT_DISCONNECT | CY_U3P_USB_EVENT_RESET
  | CY_U3P_USB_EVENT_SETCONF | CY_U3P_USB_EVENT_EP0_STAT_CPLT | CY_U3P_USB_EVENT_VBUS_REMOVED | OTHER_EVENT

datatype dma_cb_type = CY_U3P_DMA_CB_PROD_EVENT | CY_U3P_DMA_CB_CONS_EVENT | OTHER_DMA_CB

datatype ep_event = CYU3P_USBEP_SS_RETRY_EVT | OTHER_EP_EVT

text \<open>Of the enumerations of the configuration structures, the values the code uses.\<close>

datatype sys_clk = CY_U3P_SYS_CLK | CY_U3P_SYS_CLK_BY_2

datatype gpio_simple_div = CY_U3P_GPIO_SIMPLE_DIV_BY_16

datatype gpio_intr_mode = CY_U3P_GPIO_NO_INTR

datatype uart_baudrate = CY_U3P_UART_BAUDRATE_115200

datatype uart_stop_bit = CY_U3P_UART_ONE_STOP_BIT

datatype uart_parity = CY_U3P_UART_NO_PARITY

datatype sport_mode = CY_U3P_SPORT_INACTIVE

datatype lpp_mode = CY_U3P_IO_MATRIX_LPP_UART_ONLY

datatype lpp_socket = CY_U3P_LPP_SOCKET_UART_CONS

record gpio_clock =
  fastClkDiv :: u8
  slowClkDiv :: u8
  simpleDiv :: gpio_simple_div
  gpio_clkSrc :: sys_clk
  halfDiv :: u8

record gpio_simple_config =
  outValue :: bool
  driveLowEn :: bool
  driveHighEn :: bool
  inputEn :: bool
  intrMode :: gpio_intr_mode

record uart_config =
  baudRate :: uart_baudrate
  stopBit :: uart_stop_bit
  uart_parity_mode :: uart_parity
  uart_txEnable :: bool
  uart_rxEnable :: bool
  flowCtrl :: bool
  isDma :: bool

record sys_clock_config =
  setSysClk400 :: bool
  cpuClkDiv :: u8
  dmaClkDiv :: u8
  mmioClkDiv :: u8
  useStandbyClk :: bool
  sys_clkSrc :: sys_clk

record io_matrix_config =
  isDQ32Bit :: bool
  s0Mode :: sport_mode
  s1Mode :: sport_mode
  useUart :: bool
  useI2C :: bool
  useI2S :: bool
  useSpi :: bool
  lppMode :: lpp_mode
  gpioSimpleEn :: "u32 list"
  gpioComplexEn :: "u32 list"

datatype thread_fn = appThread_Entry_fn | lwipThread_Entry_fn

datatype (plugins del: quickcheck_random quickcheck_exhaustive quickcheck_bounded_forall quickcheck_full_exhaustive quickcheck_narrowing size) sdk_req =
    GpioInit gpio_clock | GpioSetSimpleConfig u8 gpio_simple_config | GpioSimpleSetValue u8 bool
  | UartInit | UartSetConfig uart_config | UartTxSetBlockXfer u32 | UartDeInit
  | DebugInit lpp_socket u8 | DebugPreamble bool | DebugDeInit
  | UsbLPMEnable | UsbLPMDisable | TimerCreate u32 u32 u32 | TimerStop | TimerModify u32 u32 | TimerStart
  | DmaChannelCreate dma_channel dma_type CyU3PDmaChannelConfig_t | DmaChannelDestroy dma_channel
  | DmaChannelSetXfer dma_channel u32 | DmaChannelReset dma_channel | DmaChannelDiscardBuffer dma_channel
  | DmaChannelCommitBuffer dma_channel u16 u16
  | SetEpConfig u8 CyU3PEpConfig_t | UsbFlushEp u8 | UsbResetEp u8 | UsbSetEpNak u8 bool
  | UsbStall u8 bool bool | UsbAckSetup | UsbSendEP0Data u16 "u8 list"
  | UsbRegisterEpEvtCallback u8 u8 | UsbRegisterSetupCallback bool | UsbRegisterEventCallback
  | UsbRegisterLPMRequestCallback | UsbStart | UsbStop | UsbSetDesc desc_type u8 "u8 list"
  | UsbInitEventLog u32 u16 | ConnectState bool bool | UsbSendDevNotification u8 u16 u16 | UsbDoRemoteWakeup
  | UsbSetLinkPowerState link_power | SysEnterStandbyMode u32
  | EventCreate | EventSet u32 | ThreadSleep u32 | BusyWait u16
  | ThreadCreate thread_fn string u32 u32 u32
  | DeviceInit sys_clock_config | DeviceCacheControl bool bool bool | DeviceConfigureIOMatrix io_matrix_config
  | KernelEntry

record 'k sdk =
  sdk_os :: "'k fx3_os"
  sdk_call :: "sdk_req \<Rightarrow> ('k, u32) act"
  CyU3PUsbGetSpeed :: "('k, usb_speed) act"
  CyU3PDmaChannelGetBuffer :: "dma_channel \<Rightarrow> CyU3PDmaBuffer_t \<Rightarrow> u32 \<Rightarrow> ('k, u32 \<times> CyU3PDmaBuffer_t) act"
  CyU3PEventGet :: "u32 \<Rightarrow> u32 \<Rightarrow> ('k, u32 \<times> u32) act"
  CyU3PUsbGetLinkPowerState :: "('k, u32 \<times> link_power) act"
  CyU3PUsbGetEventLogIndex :: "('k, u16) act"
  CyU3PGetTime :: "('k, u32) act"
  CY_U3P_SUCCESS :: u32
  CY_U3P_ERROR_ALREADY_STARTED :: u32
  CY_U3P_ERROR_NO_REENUM_REQUIRED :: u32
  CY_U3P_ERROR_FAILURE :: u32
  CYU3P_NO_WAIT :: u32
  CY_U3P_USB_REQUEST_TYPE_MASK :: u32
  CY_U3P_USB_TYPE_MASK :: u32
  CY_U3P_USB_TARGET_MASK :: u32
  CY_U3P_USB_REQUEST_MASK :: u32
  CY_U3P_USB_REQUEST_POS :: nat
  CY_U3P_USB_VALUE_MASK :: u32
  CY_U3P_USB_VALUE_POS :: nat
  CY_U3P_USB_INDEX_MASK :: u32
  CY_U3P_USB_INDEX_POS :: nat
  CY_U3P_USB_LENGTH_MASK :: u32
  CY_U3P_USB_LENGTH_POS :: nat
  CY_U3P_USB_STANDARD_RQT :: u8
  CY_U3P_USB_CLASS_RQT :: u8
  CY_U3P_USB_TARGET_INTF :: u8
  CY_U3P_USB_TARGET_ENDPT :: u8
  CY_U3P_USB_SC_SET_FEATURE :: u8
  CY_U3P_USB_SC_CLEAR_FEATURE :: u8
  CY_U3P_USBX_FS_EP_HALT :: u16

text \<open>The documented values of the request masks (the layout of a USB setup packet).\<close>

definition sdk_masks :: "('k, 'z) sdk_scheme \<Rightarrow> bool" where
  "sdk_masks K \<longleftrightarrow> CY_U3P_USB_REQUEST_TYPE_MASK K = 0xFF \<and> CY_U3P_USB_TYPE_MASK K = 0x60
     \<and> CY_U3P_USB_TARGET_MASK K = 0x03 \<and> CY_U3P_USB_REQUEST_MASK K = 0xFF00 \<and> CY_U3P_USB_REQUEST_POS K = 8
     \<and> CY_U3P_USB_VALUE_MASK K = 0xFFFF0000 \<and> CY_U3P_USB_VALUE_POS K = 16
     \<and> CY_U3P_USB_INDEX_MASK K = 0xFFFF \<and> CY_U3P_USB_INDEX_POS K = 0
     \<and> CY_U3P_USB_LENGTH_MASK K = 0xFFFF0000 \<and> CY_U3P_USB_LENGTH_POS K = 16"

section \<open>The state of the firmware\<close>

text \<open>
  The variables of main.c with the packet buffers, the network interface and the FX3 support code they
  sit on; the RTOS and the library live in the state \<open>rtos\<close> of the latter.
\<close>

record ('h, 'x, 'k) app =
  glIsApplnActive :: bool
  glDMARxCount :: u32
  glDMATxCount :: u32
  glDataTransStarted :: bool
  StandbyModeEnable :: bool
  TriggerStandbyMode :: bool
  glForceLinkU2 :: bool
  glEp0StatCount :: u32
  gl_setupdat0 :: u32
  gl_setupdat1 :: u32
  gl_UsbLogBuffer :: u32
  glSrcEpFlush :: bool
  notifyBuf :: CyU3PDmaBuffer_t
  outBuf :: CyU3PDmaBuffer_t
  received_frame :: "pptr option"
  pbufs :: "'h pbuf_sys"
  net :: "'x netif_sys"
  fx3 :: "'k fx3_sys"

type_synonym ('h, 'x, 'k) fw = "('h, 'x, 'k) app ncm_sys"

definition in_pbufs :: "('h pbuf_sys, 'a) act \<Rightarrow> (('h, 'x, 'k) app, 'a) act" where
  "in_pbufs m s = (case m (pbufs s) of Inl e \<Rightarrow> Inl e | Inr (r, p) \<Rightarrow> Inr (r, s\<lparr>pbufs := p\<rparr>))"

definition in_net :: "('x netif_sys, 'a) act \<Rightarrow> (('h, 'x, 'k) app, 'a) act" where
  "in_net m s = (case m (net s) of Inl e \<Rightarrow> Inl e | Inr (r, n) \<Rightarrow> Inr (r, s\<lparr>net := n\<rparr>))"

definition in_fx3 :: "('k fx3_sys, 'a) act \<Rightarrow> (('h, 'x, 'k) app, 'a) act" where
  "in_fx3 m s = (case m (fx3 s) of Inl e \<Rightarrow> Inl e | Inr (r, f) \<Rightarrow> Inr (r, s\<lparr>fx3 := f\<rparr>))"

definition in_sdk :: "('k, 'a) act \<Rightarrow> (('h, 'x, 'k) app, 'a) act" where
  "in_sdk m = in_fx3 (in_os m)"

definition sdk :: "'k sdk \<Rightarrow> sdk_req \<Rightarrow> (('h, 'x, 'k) app, u32) act" where
  "sdk K r = in_sdk (sdk_call K r)"

lemma wpx_in_pbufs [wp, simp]: "wpx F (in_pbufs m) Q s = wpx F m (\<lambda>r p. Q r (s\<lparr>pbufs := p\<rparr>)) (pbufs s)"
  by (simp add: wpx_def in_pbufs_def split: sum.split prod.split)

lemma wpx_in_net [wp, simp]: "wpx F (in_net m) Q s = wpx F m (\<lambda>r n. Q r (s\<lparr>net := n\<rparr>)) (net s)"
  by (simp add: wpx_def in_net_def split: sum.split prod.split)

lemma wpx_in_fx3 [wp, simp]: "wpx F (in_fx3 m) Q s = wpx F m (\<lambda>r f. Q r (s\<lparr>fx3 := f\<rparr>)) (fx3 s)"
  by (simp add: wpx_def in_fx3_def split: sum.split prod.split)

lemma wpx_in_sdk [wp, simp]:
  "wpx F (in_sdk m) Q s = wpx (EnvFault -` F) m (\<lambda>r k. Q r (s\<lparr>fx3 := (fx3 s)\<lparr>rtos := k\<rparr>\<rparr>)) (rtos (fx3 s))"
  by (simp add: in_sdk_def)

lemma wpx_sdk [wp, simp]:
  "wpx F (sdk K r) Q s = wpx (EnvFault -` F) (sdk_call K r) (\<lambda>st k. Q st (s\<lparr>fx3 := (fx3 s)\<lparr>rtos := k\<rparr>\<rparr>)) (rtos (fx3 s))"
  by (simp add: sdk_def)

end
