(* ===== verification/Lwip_Ethernet.thy ===== *)
theory Lwip_Ethernet
  imports Fx3_Sdk
begin

text \<open>
  The Ethernet layer of the network stack (lib/lwip/src/netif/ethernet.c) without VLAN support, as
  lwipopts.h has it.  It runs on the state of the whole firmware, because what it calls ends in the
  application again: \<^verbatim>\<open>ip4_input\<close> and \<^verbatim>\<open>etharp_input\<close> may send an answer.  These two are a
  parameter; each takes over the frame it is given.  The statistics counters are left out.
\<close>

record ('h, 'x, 'k) lwip =
  lw_mem :: "'h mem_env"
  lw_netif :: "'x netif_env"
  lwip_init :: "('h pbuf_sys \<times> 'x netif_sys, unit) act"
  lwiperf_start :: "('h pbuf_sys \<times> 'x netif_sys, unit) act"
  ip4_input :: "pptr option \<Rightarrow> (('h, 'x, 'k) fw, unit) act"
  etharp_input :: "pptr option \<Rightarrow> (('h, 'x, 'k) fw, unit) act"
  etharp_output :: "pptr option \<Rightarrow> ip4_addr_t \<Rightarrow> (('h, 'x, 'k) fw, err_t) act"

definition SIZEOF_ETH_HDR :: nat where "SIZEOF_ETH_HDR = 14"
definition ETHTYPE_IP :: u16 where "ETHTYPE_IP = 0x0800"
definition ETHTYPE_ARP :: u16 where "ETHTYPE_ARP = 0x0806"
definition PBUF_FLAG_LLBCAST :: u8 where "PBUF_FLAG_LLBCAST = 0x08"
definition PBUF_FLAG_LLMCAST :: u8 where "PBUF_FLAG_LLMCAST = 0x10"
definition ethbroadcast :: "u8 list" where "ethbroadcast = [0xFF, 0xFF, 0xFF, 0xFF, 0xFF, 0xFF]"

lemmas eth_consts = SIZEOF_ETH_HDR_def ETHTYPE_IP_def ETHTYPE_ARP_def PBUF_FLAG_LLBCAST_def PBUF_FLAG_LLMCAST_def

text \<open>The link-layer flag a destination address gives the frame.\<close>

definition eth_cast_flag :: "u8 list \<Rightarrow> u8" where
  "eth_cast_flag dst =
     (if dst ! 0 AND 1 \<noteq> 0 then
        if dst ! 0 = 0x01 then (if dst ! 1 = 0x00 \<and> dst ! 2 = 0x5E then PBUF_FLAG_LLMCAST else 0)
        else if dst = ethbroadcast then PBUF_FLAG_LLBCAST else 0
      else 0)"

definition lw_pbuf :: "('h pbuf_sys, 'a) act \<Rightarrow> (('h, 'x, 'k) fw, 'a) act" where
  "lw_pbuf m = in_world (in_pbufs m)"

text \<open>\<^verbatim>\<open>p->if_idx\<close> becomes the index of the interface, its number plus one, when it has none.\<close>

definition ethernet_input :: "('h, 'x, 'k) lwip \<Rightarrow> pptr option \<Rightarrow> (('h, 'x, 'k) fw, err_t) act" where
  "ethernet_input L p =
     (let free_and_return = act_bind (lw_pbuf (pbuf_free (lw_mem L) p)) (\<lambda>_. act_return ERR_OK) in
      act_bind (lw_pbuf (pb_get p)) (\<lambda>b.
      if unat (pb_len b) \<le> SIZEOF_ETH_HDR then free_and_return
      else
        act_bind (lw_pbuf (pb_read p 0 SIZEOF_ETH_HDR)) (\<lambda>hdr.
        act_bind (in_world (act_gets (\<lambda>s. netif_data (net s)))) (\<lambda>n.
        act_bind (lw_pbuf (pb_modify p (\<lambda>b. b\<lparr>
            pb_if_idx := (if pb_if_idx b = 0 then nif_num n + 1 else pb_if_idx b),
            pb_flags := pb_flags b OR eth_cast_flag (take 6 hdr)\<rparr>))) (\<lambda>_.
        let type = rd16 (\<lambda>i. hdr ! i) 12 in
        if type = PP_HTONS ETHTYPE_IP \<or> type = PP_HTONS ETHTYPE_ARP then
          if nif_flags n AND NETIF_FLAG_ETHARP = 0 then free_and_return
          else
            act_bind (lw_pbuf (pbuf_remove_header p (of_nat SIZEOF_ETH_HDR))) (\<lambda>failed.
            if failed then free_and_return
            else act_bind (if type = PP_HTONS ETHTYPE_IP then ip4_input L p else etharp_input L p) (\<lambda>_.
              act_return ERR_OK))
        else free_and_return)))))"

text \<open>\<^verbatim>\<open>ethernet_output\<close>: the header goes in front of the packet, which \<^verbatim>\<open>linkoutput\<close> sends.\<close>

definition ethernet_output :: "(pptr option \<Rightarrow> (('h, 'x, 'k) fw, err_t) act) \<Rightarrow> pptr option \<Rightarrow> u8 list \<Rightarrow> u8 list \<Rightarrow>
    u16 \<Rightarrow> (('h, 'x, 'k) fw, err_t) act" where
  "ethernet_output linkoutput p src dst eth_type =
     act_bind (lw_pbuf (pbuf_add_header p (of_nat SIZEOF_ETH_HDR))) (\<lambda>failed.
     if failed then act_return ERR_BUF
     else
       act_bind (lw_pbuf (pb_write p 12 (le16 (lwip_htons eth_type)))) (\<lambda>_.
       act_bind (lw_pbuf (pb_write p 0 (take 6 dst))) (\<lambda>_.
       act_bind (lw_pbuf (pb_write p 6 (take 6 src))) (\<lambda>_.
       linkoutput p))))"

end
