(* ===== verification/Fx3_App.thy ===== *)
theory Fx3_App
  imports Lwip_Ethernet
begin

text \<open>
  The application (src/main.c): it provides the USB functions and the datagram callbacks the NCM driver
  asks for, starts and stops the endpoints on USB events, hands control requests to the driver and joins
  the driver to the network stack.  An operation that calls the driver runs on the state of the firmware,
  the others on the application's part of it.  A loop without end is the error \<^const>\<open>NoReturn\<close>.
\<close>

section \<open>Errors and DMA buffers\<close>

definition CyFxAppErrorHandler :: "u32 \<Rightarrow> (('h, 'x, 'k) app, unit) act" where
  "CyFxAppErrorHandler apiRetStatus = act_fail NoReturn"

text \<open>The pattern of most calls: anything but success ends in the error handler.\<close>

definition must :: "'k sdk \<Rightarrow> u32 \<Rightarrow> (('h, 'x, 'k) app, unit) act" where
  "must K st = (if st \<noteq> CY_U3P_SUCCESS K then CyFxAppErrorHandler st else act_return ())"

definition sdk_must :: "'k sdk \<Rightarrow> sdk_req \<Rightarrow> (('h, 'x, 'k) app, unit) act" where
  "sdk_must K r = act_bind (sdk K r) (must K)"

definition sdk_do :: "'k sdk \<Rightarrow> sdk_req \<Rightarrow> (('h, 'x, 'k) app, unit) act" where
  "sdk_do K r = act_bind (sdk K r) (\<lambda>_. act_return ())"

text \<open>Calls in sequence whose status is not looked at.\<close>

fun sdk_seq :: "'k sdk \<Rightarrow> sdk_req list \<Rightarrow> (('h, 'x, 'k) app, unit) act" where
  "sdk_seq K [] = act_return ()"
| "sdk_seq K (r # rs) = act_bind (sdk_do K r) (\<lambda>_. sdk_seq K rs)"

text \<open>The first \<open>n\<close> bytes of a buffer the driver passes, and a copy of bytes into a DMA buffer.\<close>

definition usb_buf_bytes :: "usb_buf \<Rightarrow> nat \<Rightarrow> ('s, u8 list) act" where
  "usb_buf_bytes b n =
     (if n = 0 then act_return []
      else case b of
        BufNull \<Rightarrow> act_fail NullDeref
      | BufNtb p m \<Rightarrow> act_bind (act_check OutOfBounds (n \<le> NCM_NTB_MAX_SIZE)) (\<lambda>_. act_return (map m [0..<n]))
      | BufBytes xs \<Rightarrow> act_bind (act_check OutOfBounds (n \<le> length xs)) (\<lambda>_. act_return (take n xs)))"

definition dma_memcpy :: "CyU3PDmaBuffer_t \<Rightarrow> u8 list \<Rightarrow> (('h, 'x, 'k) app, unit) act" where
  "dma_memcpy b bs =
     (if bs = [] then act_return ()
      else
        act_bind (act_check NullDeref (buf_buffer b \<noteq> 0)) (\<lambda>_.
        act_bind (act_check OutOfBounds (length bs \<le> unat (buf_size b))) (\<lambda>_.
        in_fx3 (act_modify (ram_update (\<lambda>m a.
          if unat (a - buf_buffer b) < length bs then bs ! unat (a - buf_buffer b) else m a))))))"

section \<open>What the driver calls\<close>

definition usb_transfer_ep0_app :: "'k sdk \<Rightarrow> usb_control_request_t \<Rightarrow> usb_buf \<Rightarrow> u16 \<Rightarrow> (('h, 'x, 'k) app, bool) act" where
  "usb_transfer_ep0_app K request buffer bs =
     act_bind (usb_buf_bytes buffer (unat bs)) (\<lambda>data.
     act_bind (sdk_do K (UsbSendEP0Data bs data)) (\<lambda>_. act_return True))"

text \<open>
  Getting a buffer of a channel, with one more attempt after a reset of the channel; the structure is one
  of the two global ones.
\<close>

definition channel_reset :: "'k sdk \<Rightarrow> dma_channel \<Rightarrow> (('h, 'x, 'k) app, unit) act" where
  "channel_reset K ch = sdk_seq K [DmaChannelReset ch, DmaChannelSetXfer ch 0]"

definition channel_get :: "'k sdk \<Rightarrow> dma_channel \<Rightarrow> (('h, 'x, 'k) app \<Rightarrow> CyU3PDmaBuffer_t) \<Rightarrow>
    ((CyU3PDmaBuffer_t \<Rightarrow> CyU3PDmaBuffer_t) \<Rightarrow> ('h, 'x, 'k) app \<Rightarrow> ('h, 'x, 'k) app) \<Rightarrow> (('h, 'x, 'k) app, bool) act" where
  "channel_get K ch get upd =
     act_bind (act_gets get) (\<lambda>b.
     act_bind (in_sdk (CyU3PDmaChannelGetBuffer K ch b 1000)) (\<lambda>(st, b).
     act_bind (act_modify (upd (\<lambda>_. b))) (\<lambda>_. act_return (st = CY_U3P_SUCCESS K))))"

definition channel_get_retry :: "'k sdk \<Rightarrow> dma_channel \<Rightarrow> (('h, 'x, 'k) app \<Rightarrow> CyU3PDmaBuffer_t) \<Rightarrow>
    ((CyU3PDmaBuffer_t \<Rightarrow> CyU3PDmaBuffer_t) \<Rightarrow> ('h, 'x, 'k) app \<Rightarrow> ('h, 'x, 'k) app) \<Rightarrow> (('h, 'x, 'k) app, bool) act" where
  "channel_get_retry K ch get upd =
     act_bind (channel_get K ch get upd) (\<lambda>ok.
     if ok then act_return True
     else act_bind (channel_reset K ch) (\<lambda>_. channel_get K ch get upd))"

definition channel_commit :: "'k sdk \<Rightarrow> dma_channel \<Rightarrow> u16 \<Rightarrow> (('h, 'x, 'k) app, unit) act" where
  "channel_commit K ch n =
     act_bind (sdk K (DmaChannelCommitBuffer ch n 0)) (\<lambda>st.
     if st \<noteq> CY_U3P_SUCCESS K then channel_reset K ch else act_return ())"

definition usb_transfer_ep_app :: "'k sdk \<Rightarrow> u8 \<Rightarrow> usb_buf \<Rightarrow> u16 \<Rightarrow> (('h, 'x, 'k) app, bool) act" where
  "usb_transfer_ep_app K ep_addr buffer bs =
     (if ep_addr = NCM_EP_NOTIFY then
        act_bind (act_modify (notifyBuf_update (\<lambda>_. \<lparr>buf_buffer = 0, buf_count = bs, buf_size = 16, buf_status = 0\<rparr>))) (\<lambda>_.
        act_bind (channel_get_retry K glChHandleNotifier notifyBuf notifyBuf_update) (\<lambda>ok.
        if \<not> ok then act_return False
        else
          act_bind (usb_buf_bytes buffer (unat bs)) (\<lambda>data.
          act_bind (act_gets notifyBuf) (\<lambda>b.
          act_bind (dma_memcpy b data) (\<lambda>_.
          act_bind (channel_commit K glChHandleNotifier bs) (\<lambda>_.
          act_return True))))))
      else if ep_addr = NCM_EP_DATA_OUT then
        act_bind (act_modify (outBuf_update (\<lambda>_. \<lparr>buf_buffer = 0, buf_count = bs,
            buf_size = of_nat NCM_NTB_MAX_SIZE, buf_status = 0\<rparr>))) (\<lambda>_.
        act_bind (channel_get_retry K glChHandleBulkSink outBuf outBuf_update) (\<lambda>ok.
        if \<not> ok then act_return False
        else
          act_bind (usb_buf_bytes buffer (unat bs)) (\<lambda>data.
          act_bind (act_gets outBuf) (\<lambda>b.
          act_bind (dma_memcpy b data) (\<lambda>_.
          act_bind (channel_commit K glChHandleBulkSink 2) (\<lambda>_.
          act_return False))))))
      else act_return False)"

definition usb_control_status_app :: "'k sdk \<Rightarrow> usb_control_request_t \<Rightarrow> (('h, 'x, 'k) app, bool) act" where
  "usb_control_status_app K request = act_bind (sdk_do K UsbAckSetup) (\<lambda>_. act_return True)"

definition usb_ep_busy_app :: "u8 \<Rightarrow> (('h, 'x, 'k) app, bool) act" where
  "usb_ep_busy_app ep_addr = act_return False"

definition net_tx_cb_app :: "pptr option \<Rightarrow> u16 \<Rightarrow> (('h, 'x, 'k) app, u8 list \<times> u16) act" where
  "net_tx_cb_app datagram arg =
     act_bind (in_pbufs (pb_get datagram)) (\<lambda>p. in_pbufs (pbuf_copy_partial datagram (pb_tot_len p) 0))"

text \<open>The frame lies at offset \<open>off\<close> of the received block \<open>ntb\<close>; it is copied behind the payload pointer
  of the first buffer.\<close>

definition net_rx_cb_app :: "('h, 'x, 'k) lwip \<Rightarrow> bytes \<Rightarrow> nat \<Rightarrow> u16 \<Rightarrow> (('h, 'x, 'k) app, u16) act" where
  "net_rx_cb_app L ntb off sz =
     act_bind (act_gets received_frame) (\<lambda>pending.
     if pending \<noteq> None then act_return 0
     else
       act_bind
         (if sz \<noteq> 0 then
            act_bind (in_pbufs (pbuf_alloc (lw_mem L) PBUF_RAW sz PBUF_POOL)) (\<lambda>p.
            if p \<noteq> None then
              act_bind (act_check OutOfBounds (off + unat sz \<le> NCM_NTB_MAX_SIZE)) (\<lambda>_.
              act_bind (in_pbufs (pb_write p 0 (map (\<lambda>i. ntb (off + i)) [0..<unat sz]))) (\<lambda>_.
              act_modify (received_frame_update (\<lambda>_. p))))
            else act_return ())
          else act_return ()) (\<lambda>_.
       act_return 1))"

definition app_env :: "'k sdk \<Rightarrow> ('h, 'x, 'k) lwip \<Rightarrow> (('h, 'x, 'k) app, pptr option) ncm_env" where
  "app_env K L = \<lparr>usb_transfer_ep0 = usb_transfer_ep0_app K, usb_transfer_ep = usb_transfer_ep_app K,
     usb_control_status = usb_control_status_app K, usb_ep_busy = usb_ep_busy_app, net_tx_cb = net_tx_cb_app,
     net_rx_cb = net_rx_cb_app L\<rparr>"

section \<open>The network side\<close>

text \<open>\<^verbatim>\<open>link_output_app\<close> asks for room until it gets it; \<open>fuel\<close> bounds the attempts.\<close>

fun link_output_app :: "'k sdk \<Rightarrow> ('h, 'x, 'k) lwip \<Rightarrow> nat \<Rightarrow> pptr option \<Rightarrow> (('h, 'x, 'k) fw, err_t) act" where
  "link_output_app K L 0 p = act_fail NoReturn"
| "link_output_app K L (Suc fuel) p =
     act_bind (in_world (act_gets glIsApplnActive)) (\<lambda>active.
     if \<not> active then act_return ERR_USE
     else
       act_bind (lw_pbuf (pb_get p)) (\<lambda>b.
       act_bind (net_can_tx (app_env K L) (pb_tot_len b)) (\<lambda>room.
       if room then act_bind (net_tx (app_env K L) p 0) (\<lambda>_. act_return ERR_OK)
       else link_output_app K L fuel p)))"

definition ip4_output_app :: "('h, 'x, 'k) lwip \<Rightarrow> pptr option \<Rightarrow> ip4_addr_t \<Rightarrow> (('h, 'x, 'k) fw, err_t) act" where
  "ip4_output_app L p addr = etharp_output L p addr"

definition netif_init_cb :: "('x netif_sys, bool) act" where
  "netif_init_cb =
     act_bind (nif_modify (\<lambda>n. n\<lparr>mtu := 1514,
       nif_flags := NETIF_FLAG_BROADCAST OR NETIF_FLAG_ETHARP OR NETIF_FLAG_LINK_UP OR NETIF_FLAG_UP,
       nif_name := ''EX'', nif_linkoutput := Fn_link_output_app, nif_output := Fn_ip4_output_app\<rparr>)) (\<lambda>_.
     act_return True)"

definition INIT_IP4 :: "u8 \<Rightarrow> u8 \<Rightarrow> u8 \<Rightarrow> u8 \<Rightarrow> ip4_addr_t" where
  "INIT_IP4 a b c d = PP_HTONL (LWIP_MAKEU32 a b c d)"

definition app_ipaddr :: ip4_addr_t where "app_ipaddr = INIT_IP4 192 168 7 1"
definition app_netmask :: ip4_addr_t where "app_netmask = INIT_IP4 255 255 255 0"
definition app_gateway :: ip4_addr_t where "app_gateway = INIT_IP4 0 0 0 0"

definition tud_network_mac_address :: "u8 list" where
  "tud_network_mac_address = [0x2E, 0xF5, 0xF3, 0x68, 0xDC, 0xE6]"

definition in_lwip :: "('h pbuf_sys \<times> 'x netif_sys, 'a) act \<Rightarrow> (('h, 'x, 'k) app, 'a) act" where
  "in_lwip m s = (case m (pbufs s, net s) of
     Inl e \<Rightarrow> Inl (EnvFault e) | Inr (r, (p, n)) \<Rightarrow> Inr (r, s\<lparr>pbufs := p, net := n\<rparr>))"

definition init_lwip :: "('h, 'x, 'k) lwip \<Rightarrow> (('h, 'x, 'k) app, unit) act" where
  "init_lwip L =
     act_bind (in_lwip (lwip_init L)) (\<lambda>_.
     act_bind (in_net (nif_modify (\<lambda>n. n\<lparr>hwaddr_len := 6,
       hwaddr := tud_network_mac_address[5 := tud_network_mac_address ! 5 XOR 0x01]\<rparr>))) (\<lambda>_.
     act_bind (in_net (netif_add (lw_netif L) (Some app_ipaddr) (Some app_netmask) (Some app_gateway)
       netif_init_cb Fn_ip_input)) (\<lambda>added.
     in_net (netif_set_default added))))"

definition service_traffic :: "'k sdk \<Rightarrow> ('h, 'x, 'k) lwip \<Rightarrow> (('h, 'x, 'k) fw, unit) act" where
  "service_traffic K L =
     act_bind (in_world (act_gets received_frame)) (\<lambda>p.
     if p \<noteq> None then
       act_bind (ethernet_input L p) (\<lambda>_.
       act_bind (in_world (act_gets received_frame)) (\<lambda>p.
       act_bind (lw_pbuf (pbuf_free (lw_mem L) p)) (\<lambda>_.
       act_bind (in_world (act_modify (received_frame_update (\<lambda>_. None)))) (\<lambda>_.
       net_rx_renew (app_env K L)))))
     else act_return ())"

text \<open>\<^verbatim>\<open>lwipThread_Entry\<close> up to its loop, which runs \<^const>\<open>service_traffic\<close> for ever: the wait for the
  interface is a loop without end when it is down.\<close>

definition lwipThread_start :: "('h, 'x, 'k) lwip \<Rightarrow> (('h, 'x, 'k) fw, unit) act" where
  "lwipThread_start L =
     act_bind net_init (\<lambda>_.
     act_bind (in_world (init_lwip L)) (\<lambda>_.
     act_bind (in_world (act_gets (\<lambda>s. netif_is_up (netif_data (net s))))) (\<lambda>up.
     if \<not> up then act_fail NoReturn else in_world (in_lwip (lwiperf_start L)))))"

end
