(* ===== verification/Fx3_AppUsb.thy ===== *)
theory Fx3_AppUsb
  imports Fx3_App
begin

text \<open>
  The USB side of the application (src/main.c): start-up, the callbacks the FX3 library calls, the
  thread that serves control requests, and the creation of the threads.
\<close>

section \<open>Start-up of the board\<close>

definition FX3_GPIO_TEST_OUT :: u8 where "FX3_GPIO_TEST_OUT = 50"

definition app_gpio_clock :: gpio_clock where
  "app_gpio_clock = \<lparr>fastClkDiv = 2, slowClkDiv = 32, simpleDiv = CY_U3P_GPIO_SIMPLE_DIV_BY_16,
     gpio_clkSrc = CY_U3P_SYS_CLK_BY_2, halfDiv = 0\<rparr>"

definition app_gpio_config :: gpio_simple_config where
  "app_gpio_config = \<lparr>outValue = False, driveLowEn = True, driveHighEn = True, inputEn = False,
     intrMode = CY_U3P_GPIO_NO_INTR\<rparr>"

definition app_uart_config :: uart_config where
  "app_uart_config = \<lparr>baudRate = CY_U3P_UART_BAUDRATE_115200, stopBit = CY_U3P_UART_ONE_STOP_BIT,
     uart_parity_mode = CY_U3P_UART_NO_PARITY, uart_txEnable = True, uart_rxEnable = False, flowCtrl = False, isDma = True\<rparr>"

definition CyFxDebugInit :: "'k sdk \<Rightarrow> (('h, 'x, 'k) app, unit) act" where
  "CyFxDebugInit K =
     act_bind (sdk K (GpioInit app_gpio_clock)) (\<lambda>st.
     act_bind (if st \<noteq> 0 \<and> st \<noteq> CY_U3P_ERROR_ALREADY_STARTED K then CyFxAppErrorHandler st
               else
                 act_bind (sdk K (GpioSetSimpleConfig FX3_GPIO_TEST_OUT app_gpio_config)) (\<lambda>st.
                 if st \<noteq> 0 then CyFxAppErrorHandler st else act_return ())) (\<lambda>_.
     act_bind (sdk_must K UartInit) (\<lambda>_.
     act_bind (sdk_must K (UartSetConfig app_uart_config)) (\<lambda>_.
     act_bind (sdk_must K (UartTxSetBlockXfer 0xFFFFFFFF)) (\<lambda>_.
     act_bind (sdk_must K (DebugInit CY_U3P_LPP_SOCKET_UART_CONS 8)) (\<lambda>_.
     sdk_do K (DebugPreamble False)))))))"

section \<open>Callbacks\<close>

definition CyFxApplnLPMRqtCB :: "link_power \<Rightarrow> bool" where "CyFxApplnLPMRqtCB link_mode = True"

definition CyFxLPMCB :: "link_power \<Rightarrow> bool" where "CyFxLPMCB link_mode = True"

definition TimerCb :: "'k sdk \<Rightarrow> (('h, 'x, 'k) app, unit) act" where
  "TimerCb K = sdk_do K UsbLPMEnable"

definition CyFxDmaCallback :: "'k sdk \<Rightarrow> dma_channel \<Rightarrow> dma_cb_type \<Rightarrow> (('h, 'x, 'k) app, unit) act" where
  "CyFxDmaCallback K ch type =
     act_bind (act_modify (glDataTransStarted_update (\<lambda>_. True))) (\<lambda>_.
     act_bind (sdk_seq K [UsbLPMDisable, TimerStop, TimerModify 100 0, TimerStart]) (\<lambda>_.
     act_bind (if type = CY_U3P_DMA_CB_PROD_EVENT then
                 act_bind (sdk_do K (DmaChannelDiscardBuffer ch)) (\<lambda>_.
                 act_modify (glDMARxCount_update (\<lambda>n. n + 1)))
               else act_return ()) (\<lambda>_.
     if type = CY_U3P_DMA_CB_CONS_EVENT then
       act_bind (in_sdk (CyU3PDmaChannelGetBuffer K ch \<lparr>buf_buffer = 0, buf_count = 0, buf_size = 0, buf_status = 0\<rparr>
           (CYU3P_NO_WAIT K))) (\<lambda>(st, b).
       act_bind (if st = CY_U3P_SUCCESS K then sdk_do K (DmaChannelCommitBuffer ch (buf_size b) 0)
                 else act_return ()) (\<lambda>_.
       act_modify (glDMATxCount_update (\<lambda>n. n + 1))))
     else act_return ())))"

definition CyFxEpEvtCB :: "ep_event \<Rightarrow> (('h, 'x, 'k) app, unit) act" where
  "CyFxEpEvtCB evtype =
     (if evtype = CYU3P_USBEP_SS_RETRY_EVT then act_modify (glSrcEpFlush_update (\<lambda>_. True)) else act_return ())"

section \<open>Starting and stopping the endpoints\<close>

definition notifier_ep_config :: CyU3PEpConfig_t where
  "notifier_ep_config = \<lparr>ep_enable = True, epType = CY_U3P_USB_EP_INTR, burstLen = 1, streams = 0, pcktSize = 16\<rparr>"

definition bulk_ep_config :: CyU3PEpConfig_t where
  "bulk_ep_config = notifier_ep_config\<lparr>epType := CY_U3P_USB_EP_BULK\<rparr>"

definition disabled_ep_config :: CyU3PEpConfig_t where
  "disabled_ep_config = \<lparr>ep_enable = False, epType = EP_TYPE_ZERO, burstLen = 0, streams = 0, pcktSize = 0\<rparr>"

definition notifier_dma_config :: CyU3PDmaChannelConfig_t where
  "notifier_dma_config = \<lparr>dma_size = 16, dma_count = 1, prodSckId = CY_U3P_CPU_SOCKET_PROD,
     consSckId = CY_U3P_UIB_SOCKET_CONS_1, dmaMode = CY_U3P_DMA_MODE_BYTE, dma_notification = 0, dma_cb = False, prodHeader = 0, prodFooter = 0,
     consHeader = 0, prodAvailCount = 0\<rparr>"

definition sink_dma_config :: CyU3PDmaChannelConfig_t where
  "sink_dma_config = notifier_dma_config\<lparr>dma_size := 512, consSckId := CY_U3P_UIB_SOCKET_CONS_2, dma_cb := True\<rparr>"

definition src_dma_config :: CyU3PDmaChannelConfig_t where
  "src_dma_config = sink_dma_config\<lparr>prodSckId := CY_U3P_UIB_SOCKET_PROD_2, consSckId := CY_U3P_CPU_SOCKET_CONS\<rparr>"

text \<open>The packet size of the bus speed, which the configuration does not use.\<close>

definition speed_packet_size :: "'k sdk \<Rightarrow> usb_speed \<Rightarrow> (('h, 'x, 'k) app, u16) act" where
  "speed_packet_size K sp =
     (case sp of
        CY_U3P_FULL_SPEED \<Rightarrow> act_return 64
      | CY_U3P_HIGH_SPEED \<Rightarrow> act_return 512
      | CY_U3P_SUPER_SPEED \<Rightarrow> act_return 1024
      | OTHER_SPEED \<Rightarrow> act_bind (CyFxAppErrorHandler (CY_U3P_ERROR_FAILURE K)) (\<lambda>_. act_return 0))"

definition flush_endpoints :: "'k sdk \<Rightarrow> (('h, 'x, 'k) app, unit) act" where
  "flush_endpoints K = sdk_seq K [UsbFlushEp CY_FX_EP_NOTIFIER, UsbFlushEp CY_FX_EP_PRODUCER, UsbFlushEp CY_FX_EP_CONSUMER]"

text \<open>Creating a channel and starting an unlimited transfer on it.\<close>

definition channel_start :: "'k sdk \<Rightarrow> dma_channel \<Rightarrow> dma_type \<Rightarrow> CyU3PDmaChannelConfig_t \<Rightarrow> (('h, 'x, 'k) app, unit) act" where
  "channel_start K ch ty cfg =
     act_bind (sdk_must K (DmaChannelCreate ch ty cfg)) (\<lambda>_. sdk_do K (DmaChannelSetXfer ch 0))"

definition CyFxAppStart :: "'k sdk \<Rightarrow> (('h, 'x, 'k) app, unit) act" where
  "CyFxAppStart K =
     act_bind (in_sdk (CyU3PUsbGetSpeed K)) (\<lambda>usbSpeed.
     act_bind (speed_packet_size K usbSpeed) (\<lambda>_.
     act_bind (sdk_must K (SetEpConfig CY_FX_EP_NOTIFIER notifier_ep_config)) (\<lambda>_.
     act_bind (sdk_must K (SetEpConfig CY_FX_EP_PRODUCER bulk_ep_config)) (\<lambda>_.
     act_bind (sdk_must K (SetEpConfig CY_FX_EP_CONSUMER bulk_ep_config)) (\<lambda>_.
     act_bind (flush_endpoints K) (\<lambda>_.
     act_bind (channel_start K glChHandleNotifier CY_U3P_DMA_TYPE_MANUAL_OUT notifier_dma_config) (\<lambda>_.
     act_bind (channel_start K glChHandleBulkSink CY_U3P_DMA_TYPE_MANUAL_OUT sink_dma_config) (\<lambda>_.
     act_bind (channel_start K glChHandleBulkSrc CY_U3P_DMA_TYPE_MANUAL_IN src_dma_config) (\<lambda>_.
     act_bind (sdk_do K (UsbRegisterEpEvtCallback 0x00 0x02)) (\<lambda>_.
     act_modify (glIsApplnActive_update (\<lambda>_. True))))))))))))"

definition CyFxAppStop :: "'k sdk \<Rightarrow> (('h, 'x, 'k) app, unit) act" where
  "CyFxAppStop K =
     act_bind (act_modify (glIsApplnActive_update (\<lambda>_. False))) (\<lambda>_.
     act_bind (sdk_seq K [DmaChannelDestroy glChHandleNotifier, DmaChannelDestroy glChHandleBulkSink,
       DmaChannelDestroy glChHandleBulkSrc]) (\<lambda>_.
     act_bind (flush_endpoints K) (\<lambda>_.
     act_bind (sdk_must K (SetEpConfig CY_FX_EP_NOTIFIER disabled_ep_config)) (\<lambda>_.
     act_bind (sdk_must K (SetEpConfig CY_FX_EP_PRODUCER disabled_ep_config)) (\<lambda>_.
     sdk_must K (SetEpConfig CY_FX_EP_CONSUMER disabled_ep_config))))))"

definition stop_if_active :: "'k sdk \<Rightarrow> (('h, 'x, 'k) app, unit) act" where
  "stop_if_active K =
     act_bind (act_gets glIsApplnActive) (\<lambda>active. if active then CyFxAppStop K else act_return ())"

section \<open>Setup requests and events\<close>

definition CYFX_USB_CTRL_TASK :: u32 where "CYFX_USB_CTRL_TASK = 1"
definition CYFX_USB_HOSTWAKE_TASK :: u32 where "CYFX_USB_HOSTWAKE_TASK = 2"
definition CY_FX_BULKSRCSINK_DMA_TX_SIZE :: u32 where "CY_FX_BULKSRCSINK_DMA_TX_SIZE = 0"

text \<open>Clearing the halt of an endpoint, with the channel the code resets for it.\<close>

definition clear_halt :: "'k sdk \<Rightarrow> u8 \<Rightarrow> dma_channel \<Rightarrow> u8 \<Rightarrow> (('h, 'x, 'k) app, unit) act" where
  "clear_halt K ep ch wIdx = sdk_seq K [UsbSetEpNak ep True, BusyWait 125, DmaChannelReset ch, UsbFlushEp ep,
     UsbResetEp ep, UsbSetEpNak ep False, DmaChannelSetXfer ch CY_FX_BULKSRCSINK_DMA_TX_SIZE,
     UsbStall wIdx False True, UsbAckSetup]"

text \<open>Storing a request for the application thread.\<close>

definition defer_request :: "'k sdk \<Rightarrow> u32 \<Rightarrow> u32 \<Rightarrow> (('h, 'x, 'k) app, unit) act" where
  "defer_request K setupdat0 setupdat1 =
     act_bind (act_modify (\<lambda>s. s\<lparr>gl_setupdat0 := setupdat0, gl_setupdat1 := setupdat1\<rparr>)) (\<lambda>_.
     sdk_do K (EventSet CYFX_USB_CTRL_TASK))"

definition CyFxAppUSBSetupCB :: "'k sdk \<Rightarrow> u32 \<Rightarrow> u32 \<Rightarrow> (('h, 'x, 'k) app, bool) act" where
  "CyFxAppUSBSetupCB K setupdat0 setupdat1 =
     (let bReqType = ucast (setupdat0 AND CY_U3P_USB_REQUEST_TYPE_MASK K) :: u8;
          bType = ucast (ucast bReqType AND CY_U3P_USB_TYPE_MASK K) :: u8;
          bTarget = ucast (ucast bReqType AND CY_U3P_USB_TARGET_MASK K) :: u8;
          bReq = ucast (drop_bit (CY_U3P_USB_REQUEST_POS K) (setupdat0 AND CY_U3P_USB_REQUEST_MASK K)) :: u8;
          wVal = ucast (drop_bit (CY_U3P_USB_VALUE_POS K) (setupdat0 AND CY_U3P_USB_VALUE_MASK K)) :: u16;
          wIdx = ucast (drop_bit (CY_U3P_USB_INDEX_POS K) (setupdat1 AND CY_U3P_USB_INDEX_MASK K)) :: u16;
          std = (bType = CY_U3P_USB_STANDARD_RQT K);
          function_feature = (std \<and> bTarget = CY_U3P_USB_TARGET_INTF K
            \<and> (bReq = CY_U3P_USB_SC_SET_FEATURE K \<or> bReq = CY_U3P_USB_SC_CLEAR_FEATURE K) \<and> wVal = 0);
          endpoint_halt = (std \<and> bTarget = CY_U3P_USB_TARGET_ENDPT K \<and> bReq = CY_U3P_USB_SC_CLEAR_FEATURE K
            \<and> wVal = CY_U3P_USBX_FS_EP_HALT K);
          ntb_request = (bType = CY_U3P_USB_CLASS_RQT K \<and> bReq = NCM_GET_NTB_PARAMETERS);
          set_interface = (std \<and> bReq = USB_REQ_SET_INTERFACE);
          get_interface = (std \<and> bReq = USB_REQ_GET_INTERFACE)
      in
      act_bind (act_gets glIsApplnActive) (\<lambda>active.
      act_bind (if function_feature then
                  (if active then sdk_do K UsbAckSetup else sdk_do K (UsbStall 0 True False))
                else act_return ()) (\<lambda>_.
      act_bind (if endpoint_halt \<and> active \<and> wIdx = ucast CY_FX_EP_PRODUCER
                then clear_halt K CY_FX_EP_PRODUCER glChHandleBulkSink (ucast wIdx) else act_return ()) (\<lambda>_.
      act_bind (if endpoint_halt \<and> active \<and> wIdx = ucast CY_FX_EP_CONSUMER
                then clear_halt K CY_FX_EP_CONSUMER glChHandleBulkSrc (ucast wIdx) else act_return ()) (\<lambda>_.
      act_bind (if ntb_request then defer_request K setupdat0 setupdat1 else act_return ()) (\<lambda>_.
      act_bind (if set_interface then defer_request K setupdat0 setupdat1 else act_return ()) (\<lambda>_.
      act_bind (if get_interface then defer_request K setupdat0 setupdat1 else act_return ()) (\<lambda>_.
      act_return (function_feature
        \<or> endpoint_halt \<and> active \<and> (wIdx = ucast CY_FX_EP_PRODUCER \<or> wIdx = ucast CY_FX_EP_CONSUMER)
        \<or> ntb_request \<or> set_interface \<or> get_interface)))))))))"

definition CyFxAppUSBEventCB :: "'k sdk \<Rightarrow> usb_event \<Rightarrow> u16 \<Rightarrow> (('h, 'x, 'k) app, unit) act" where
  "CyFxAppUSBEventCB K evtype evdata =
     (case evtype of
        CY_U3P_USB_EVENT_CONNECT \<Rightarrow> act_return ()
      | CY_U3P_USB_EVENT_SETCONF \<Rightarrow> act_bind (stop_if_active K) (\<lambda>_. CyFxAppStart K)
      | CY_U3P_USB_EVENT_EP0_STAT_CPLT \<Rightarrow> act_modify (glEp0StatCount_update (\<lambda>n. n + 1))
      | CY_U3P_USB_EVENT_VBUS_REMOVED \<Rightarrow>
          act_modify (\<lambda>s. if StandbyModeEnable s then s\<lparr>TriggerStandbyMode := True, StandbyModeEnable := False\<rparr> else s)
      | OTHER_EVENT \<Rightarrow> act_return ()
      | _ \<Rightarrow>
          act_bind (act_modify (glForceLinkU2_update (\<lambda>_. False))) (\<lambda>_.
          act_bind (stop_if_active K) (\<lambda>_.
          act_modify (glDataTransStarted_update (\<lambda>_. False)))))"

section \<open>Initialisation of USB\<close>

definition CYFX_USBLOG_SIZE :: u16 where "CYFX_USBLOG_SIZE = 0x1000"

definition STR_ID_LANG :: u8 where "STR_ID_LANG = 0"
definition STR_ID_MANF :: u8 where "STR_ID_MANF = 1"
definition STR_ID_PROD :: u8 where "STR_ID_PROD = 2"

text \<open>The descriptors the library is given, in the order of the calls.\<close>

definition app_descriptors :: "(desc_type \<times> u8 \<times> u8 list) list" where
  "app_descriptors =
     [(CY_U3P_USB_SET_HS_DEVICE_DESCR, 0, dev_bytes usb_device_desc),
      (CY_U3P_USB_SET_HS_CONFIG_DESCR, 0, usb_desc_bytes usb_config_desc),
      (CY_U3P_USB_SET_FS_CONFIG_DESCR, 0, usb_desc_bytes usb_config_desc),
      (CY_U3P_USB_SET_STRING_DESCR, STR_ID_LANG, str_bytes str_desc_langid),
      (CY_U3P_USB_SET_STRING_DESCR, STR_ID_MANF, str_bytes str_desc_manufacturer),
      (CY_U3P_USB_SET_STRING_DESCR, STR_ID_PROD, str_bytes str_desc_product),
      (CY_U3P_USB_SET_STRING_DESCR, STR_ID_MACA, str_bytes str_desc_serial),
      (CY_U3P_USB_SET_STRING_DESCR, STR_ID_INTF, str_bytes str_desc_interface)]"

fun set_descriptors :: "'k sdk \<Rightarrow> (desc_type \<times> u8 \<times> u8 list) list \<Rightarrow> (('h, 'x, 'k) app, unit) act" where
  "set_descriptors K [] = act_return ()"
| "set_descriptors K ((ty, i, bs) # ds) =
     act_bind (sdk_must K (UsbSetDesc ty i bs)) (\<lambda>_. set_descriptors K ds)"

definition CyFxAppInit :: "'k sdk \<Rightarrow> (('h, 'x, 'k) app, unit) act" where
  "CyFxAppInit K =
     act_bind (sdk_seq K [UsbRegisterSetupCallback True, UsbRegisterEventCallback, UsbRegisterLPMRequestCallback]) (\<lambda>_.
     act_bind (sdk K UsbStart) (\<lambda>st.
     act_bind (if st = CY_U3P_ERROR_NO_REENUM_REQUIRED K then act_return True
               else act_bind (must K st) (\<lambda>_. act_return False)) (\<lambda>no_renum.
     act_bind (sdk_do K (GpioSimpleSetValue FX3_GPIO_TEST_OUT True)) (\<lambda>_.
     act_bind (set_descriptors K app_descriptors) (\<lambda>_.
     act_bind (in_fx3 (CyU3PDmaBufferAlloc (sdk_os K) CYFX_USBLOG_SIZE)) (\<lambda>p.
     act_bind (act_modify (gl_UsbLogBuffer_update (\<lambda>_. p))) (\<lambda>_.
     act_bind (if p \<noteq> 0 then sdk_do K (UsbInitEventLog p CYFX_USBLOG_SIZE) else act_return ()) (\<lambda>_.
     if \<not> no_renum then sdk_must K (ConnectState True False) else CyFxAppStart K))))))))"

definition CyFxAppDeinit :: "'k sdk \<Rightarrow> (('h, 'x, 'k) app, unit) act" where
  "CyFxAppDeinit K =
     act_bind (stop_if_active K) (\<lambda>_.
     sdk_seq K [ConnectState False True, ThreadSleep 1000, UsbStop, ThreadSleep 1000])"

section \<open>The application thread\<close>

text \<open>The control request the thread builds from the two words of the setup packet.\<close>

definition setup_request :: "'k sdk \<Rightarrow> u32 \<Rightarrow> u32 \<Rightarrow> usb_control_request_t" where
  "setup_request K d0 d1 =
     \<lparr>bmRequestType = \<lparr>req_recipient = ucast ((d0 AND CY_U3P_USB_REQUEST_TYPE_MASK K) AND CY_U3P_USB_TARGET_MASK K),
        req_type = ucast (drop_bit 5 ((d0 AND CY_U3P_USB_REQUEST_TYPE_MASK K) AND CY_U3P_USB_TYPE_MASK K)),
        req_direction = ucast (drop_bit 8 ((d0 AND CY_U3P_USB_REQUEST_TYPE_MASK K) AND 0x80))\<rparr>,
      bRequest = ucast (drop_bit (CY_U3P_USB_REQUEST_POS K) (d0 AND CY_U3P_USB_REQUEST_MASK K)),
      wValue = ucast (drop_bit (CY_U3P_USB_VALUE_POS K) (d0 AND CY_U3P_USB_VALUE_MASK K)),
      wIndex = ucast (drop_bit (CY_U3P_USB_INDEX_POS K) (d1 AND CY_U3P_USB_INDEX_MASK K)),
      wLength = ucast (drop_bit (CY_U3P_USB_LENGTH_POS K) (d1 AND CY_U3P_USB_LENGTH_MASK K))\<rparr>"

definition host_wake :: "'k sdk \<Rightarrow> (('h, 'x, 'k) app, unit) act" where
  "host_wake K =
     act_bind (sdk_do K (ThreadSleep 1000)) (\<lambda>_.
     act_bind (in_sdk (CyU3PUsbGetSpeed K)) (\<lambda>sp.
     if sp = CY_U3P_SUPER_SPEED then sdk_do K (UsbSendDevNotification 1 0 0) else sdk_do K UsbDoRemoteWakeup))"

definition control_task :: "'k sdk \<Rightarrow> ('h, 'x, 'k) lwip \<Rightarrow> (('h, 'x, 'k) fw, unit) act" where
  "control_task K L =
     act_bind (in_world (act_gets (\<lambda>s. setup_request K (gl_setupdat0 s) (gl_setupdat1 s)))) (\<lambda>req.
     act_bind (net_usb_control_transfer (app_env K L) req) (\<lambda>handled.
     if \<not> handled then in_world (sdk_do K (UsbStall 0 True False)) else act_return ()))"

text \<open>Forcing the link to U2; \<open>fuel\<close> bounds the attempts.\<close>

fun force_u2 :: "'k sdk \<Rightarrow> nat \<Rightarrow> (('h, 'x, 'k) app, unit) act" where
  "force_u2 K 0 = act_fail NoReturn"
| "force_u2 K (Suc fuel) =
     act_bind (in_sdk (CyU3PUsbGetLinkPowerState K)) (\<lambda>(st, cur).
     act_bind (act_gets glForceLinkU2) (\<lambda>force.
     if force \<and> st = CY_U3P_SUCCESS K \<and> cur = CyU3PUsbLPM_U0 then
       act_bind (sdk_seq K [UsbSetLinkPowerState CyU3PUsbLPM_U2, ThreadSleep 5]) (\<lambda>_. force_u2 K fuel)
     else act_return ()))"

definition enter_standby :: "'k sdk \<Rightarrow> (('h, 'x, 'k) app, unit) act" where
  "enter_standby K =
     act_bind (act_modify (TriggerStandbyMode_update (\<lambda>_. False))) (\<lambda>_.
     act_bind (sdk_seq K [ConnectState False True, UsbStop, DebugDeInit, UartDeInit, ThreadSleep 1000]) (\<lambda>_.
     act_bind (sdk K (SysEnterStandbyMode 0x40060000)) (\<lambda>st.
     act_bind (if st \<noteq> CY_U3P_SUCCESS K then act_bind (CyFxDebugInit K) (\<lambda>_. CyFxAppErrorHandler st)
               else act_return ()) (\<lambda>_.
     CyFxAppErrorHandler 1))))"

text \<open>
  Printing the USB event log from index \<open>i\<close> up to \<open>stop\<close>, in the ring of \<^verbatim>\<open>CYFX_USBLOG_SIZE\<close> bytes: the
  bytes printed.  Every turn of the loop reads one byte of the log; \<open>fuel\<close> bounds the turns.
\<close>

fun print_usb_log :: "nat \<Rightarrow> u16 \<Rightarrow> u16 \<Rightarrow> (('h, 'x, 'k) app, u8 list) act" where
  "print_usb_log 0 i stop = act_fail NoReturn"
| "print_usb_log (Suc fuel) i stop =
     (if i = stop then act_return []
      else
        act_bind (act_gets gl_UsbLogBuffer) (\<lambda>p.
        act_bind (act_check NullDeref (p \<noteq> 0)) (\<lambda>_.
        act_bind (act_check OutOfBounds (i < CYFX_USBLOG_SIZE)) (\<lambda>_.
        act_bind (act_gets (\<lambda>s. ram (fx3 s) (p + ucast i))) (\<lambda>b.
        act_bind (print_usb_log fuel (if i + 1 = CYFX_USBLOG_SIZE then 0 else i + 1) stop) (\<lambda>bs.
        act_return (b # bs)))))))"

text \<open>
  One turn of the loop of \<^verbatim>\<open>appThread_Entry\<close>; \<open>prev\<close> is the log index the last turn left.
\<close>

definition appThread_turn :: "'k sdk \<Rightarrow> ('h, 'x, 'k) lwip \<Rightarrow> nat \<Rightarrow> u16 \<Rightarrow> (('h, 'x, 'k) fw, u16) act" where
  "appThread_turn K L fuel prev =
     act_bind (in_world (in_sdk (CyU3PEventGet K (CYFX_USB_CTRL_TASK OR CYFX_USB_HOSTWAKE_TASK) 10))) (\<lambda>(st, ev).
     act_bind (if st = CY_U3P_SUCCESS K \<and> ev AND CYFX_USB_HOSTWAKE_TASK \<noteq> 0 then in_world (host_wake K)
               else act_return ()) (\<lambda>_.
     act_bind (if st = CY_U3P_SUCCESS K \<and> ev AND CYFX_USB_CTRL_TASK \<noteq> 0 then control_task K L
               else act_return ()) (\<lambda>_.
     act_bind (in_world (act_gets glSrcEpFlush)) (\<lambda>flush.
     act_bind (if flush then
                 in_world (act_bind (act_modify (glSrcEpFlush_update (\<lambda>_. False))) (\<lambda>_.
                   sdk_do K (UsbStall CY_FX_EP_CONSUMER True False)))
               else act_return ()) (\<lambda>_.
     act_bind (in_world (act_gets glForceLinkU2)) (\<lambda>force.
     act_bind (if force then in_world (force_u2 K fuel) else act_return ()) (\<lambda>_.
     act_bind (in_world (act_gets TriggerStandbyMode)) (\<lambda>standby.
     if standby then act_bind (in_world (enter_standby K)) (\<lambda>_. act_return prev)
     else
       act_bind (in_world (in_sdk (CyU3PUsbGetEventLogIndex K))) (\<lambda>tmp1.
       act_bind (in_world (print_usb_log fuel prev tmp1)) (\<lambda>_.
       act_return tmp1))))))))))"

text \<open>\<^verbatim>\<open>appThread_Entry\<close> before its loop.\<close>

definition appThread_start :: "'k sdk \<Rightarrow> (('h, 'x, 'k) app, unit) act" where
  "appThread_start K =
     act_bind (CyFxDebugInit K) (\<lambda>_.
     act_bind (CyFxAppInit K) (\<lambda>_.
     sdk_do K (TimerCreate 0 100 100)))"

section \<open>Threads and main\<close>

definition CY_FX_BULKSRCSINK_THREAD_STACK :: u32 where "CY_FX_BULKSRCSINK_THREAD_STACK = 0x1000"
definition CY_FX_BULKSRCSINK_THREAD_PRIORITY :: u32 where "CY_FX_BULKSRCSINK_THREAD_PRIORITY = 8"

definition CyFxApplicationDefine :: "'k sdk \<Rightarrow> (('h, 'x, 'k) app, unit) act" where
  "CyFxApplicationDefine K =
     act_bind (sdk K EventCreate) (\<lambda>ret.
     if ret \<noteq> 0 then act_fail NoReturn
     else
       act_bind (in_fx3 (CyU3PMemAlloc (sdk_os K) CY_FX_BULKSRCSINK_THREAD_STACK)) (\<lambda>ptr.
       act_bind (in_fx3 (CyU3PMemAlloc (sdk_os K) CY_FX_BULKSRCSINK_THREAD_STACK)) (\<lambda>lw.
       act_bind (sdk K (ThreadCreate appThread_Entry_fn ''21:Bulk_src_sink'' ptr CY_FX_BULKSRCSINK_THREAD_STACK
         (CY_FX_BULKSRCSINK_THREAD_PRIORITY - 1))) (\<lambda>ret.
       if ret \<noteq> 0 then act_fail NoReturn
       else
         act_bind (sdk K (ThreadCreate lwipThread_Entry_fn ''22:LwIP'' lw CY_FX_BULKSRCSINK_THREAD_STACK
           CY_FX_BULKSRCSINK_THREAD_PRIORITY)) (\<lambda>ret.
         if ret \<noteq> 0 then act_fail NoReturn else act_return ())))))"

definition app_clock_config :: sys_clock_config where
  "app_clock_config = \<lparr>setSysClk400 = False, cpuClkDiv = 2, dmaClkDiv = 2, mmioClkDiv = 2, useStandbyClk = False,
     sys_clkSrc = CY_U3P_SYS_CLK\<rparr>"

definition FX3_GPIO_TO_HIFLAG :: "u8 \<Rightarrow> u32" where
  "FX3_GPIO_TO_HIFLAG gpio = push_bit (unat gpio - 32) 1"

definition app_io_config :: io_matrix_config where
  "app_io_config = \<lparr>isDQ32Bit = False, s0Mode = CY_U3P_SPORT_INACTIVE, s1Mode = CY_U3P_SPORT_INACTIVE, useUart = True, useI2C = False, useI2S = False, useSpi = False, lppMode = CY_U3P_IO_MATRIX_LPP_UART_ONLY,
     gpioSimpleEn = [0, FX3_GPIO_TO_HIFLAG FX3_GPIO_TEST_OUT], gpioComplexEn = [0, 0]\<rparr>"

text \<open>A fatal error ends in a loop without end.\<close>

definition fx3_main :: "'k sdk \<Rightarrow> (('h, 'x, 'k) app, int) act" where
  "fx3_main K =
     act_bind (sdk K (DeviceInit app_clock_config)) (\<lambda>st.
     if st \<noteq> CY_U3P_SUCCESS K then act_fail NoReturn
     else act_bind (sdk K (DeviceCacheControl True False False)) (\<lambda>st.
     if st \<noteq> CY_U3P_SUCCESS K then act_fail NoReturn
     else act_bind (sdk K (DeviceConfigureIOMatrix app_io_config)) (\<lambda>st.
     if st \<noteq> CY_U3P_SUCCESS K then act_fail NoReturn
     else act_bind (sdk_do K KernelEntry) (\<lambda>_. act_return 0))))"

definition sys_arch_protect :: "(('h, 'x, 'k) app, u32) act" where
  "sys_arch_protect = act_return 0"

definition sys_arch_unprotect :: "u32 \<Rightarrow> (('h, 'x, 'k) app, unit) act" where
  "sys_arch_unprotect pval = act_return ()"

definition sys_now :: "'k sdk \<Rightarrow> (('h, 'x, 'k) app, u32) act" where
  "sys_now K = in_sdk (CyU3PGetTime K)"

end
