(* ===== verification/Fx3_Machine.thy ===== *)
theory Fx3_Machine
  imports Fx3_AppUsb Ncm_Machine
begin

text \<open>
  The firmware as a machine: the two threads, the callbacks of the FX3 library and the network stack's
  calls of the output function, in any order, each running to its end before the next.  The application's
  part of the state is followed through the calls of the driver by the locale \<open>env_inv\<close>: what the
  functions an environment provides keep, the transmit path and the control requests of the driver keep.
\<close>

section \<open>Actions that keep an invariant\<close>

definition ik :: "('s \<Rightarrow> bool) \<Rightarrow> ('s, 'a) act \<Rightarrow> bool" where
  "ik I m \<longleftrightarrow> (\<forall>s. I s \<longrightarrow> wlp m (\<lambda>_. I) s)"

lemma ikD: "ik I m \<Longrightarrow> I s \<Longrightarrow> wlp m (\<lambda>_. I) s"
  by (simp add: ik_def)

lemma ik_run: "ik I m \<Longrightarrow> I s \<Longrightarrow> m s = Inr (x, s') \<Longrightarrow> I s'"
  by (auto simp: ik_def wpx_def dest: spec [of _ s])

lemma ik_return: "ik I (act_return x)"
  and ik_gets: "ik I (act_gets f)"
  and ik_check: "ik I (act_check e b)"
  and ik_fail: "ik I (act_fail e)"
  by (simp_all add: ik_def)

lemma ik_modify: "(\<And>s. I s \<Longrightarrow> I (f s)) \<Longrightarrow> ik I (act_modify f)"
  by (simp add: ik_def)

lemma ik_bind: "ik I m \<Longrightarrow> (\<And>x. ik I (f x)) \<Longrightarrow> ik I (act_bind m f)"
  unfolding ik_def wpx_bind by (blast intro: wpx_mono)

lemma ik_if: "ik I m \<Longrightarrow> ik I n \<Longrightarrow> ik I (if b then m else n)"
  by simp

lemma ik_option: "ik I m \<Longrightarrow> (\<And>y. ik I (n y)) \<Longrightarrow> ik I (case x of None \<Rightarrow> m | Some y \<Rightarrow> n y)"
  by (simp split: option.split)

lemma ik_prod: "(\<And>a b. ik I (m a b)) \<Longrightarrow> ik I (case x of (a, b) \<Rightarrow> m a b)"
  by (simp split: prod.split)

lemmas ik_rules = ik_return ik_gets ik_check ik_fail ik_bind ik_if ik_option ik_prod

section \<open>The driver under an environment\<close>

text \<open>Nothing is being received: no block is with USB, waiting or being read.\<close>

definition rx_idle :: "ncm_interface_t \<Rightarrow> bool" where
  "rx_idle a \<longleftrightarrow> rx_user_ntb a = None \<and> rx_usbd_ntb a = None \<and> rx_wait_ntb a = empty_ntb_list"

lemma pop_empty: "pop_ntb empty_ntb_list = Inr (None, empty_ntb_list)"
  by (simp add: pop_ntb_def empty_ntb_list_def NCM_NTB_N_def)

lemma rx_update_idle:
  assumes "rx_idle (ncm_if s)"
  shows "rx_update_user_ntb E s = Inr (True, s\<lparr>ncm_if := (ncm_if s)\<lparr>rx_user_ntb_datagram_index := 0\<rparr>\<rparr>)"
  using assms by (simp add: rx_idle_def rx_update_user_ntb_def get_if_def modify_if_def on_list_def act_defs pop_empty)

definition fw_inv :: "('w \<Rightarrow> bool) \<Rightarrow> 'w ncm_sys \<Rightarrow> bool" where
  "fw_inv I s \<longleftrightarrow> rx_idle (ncm_if s) \<and> I (world s)"

lemma ik_get_if: "ik (fw_inv I) (get_if f)"
  and ik_ntb_read: "ik (fw_inv I) (ntb_read p)"
  by (simp_all add: ik_def)

lemma ik_modify_if: "(\<And>a. rx_idle a \<Longrightarrow> rx_idle (f a)) \<Longrightarrow> ik (fw_inv I) (modify_if f)"
  by (simp add: ik_def fw_inv_def)

lemma ik_ntb_modify: "ik (fw_inv I) (ntb_modify p f)"
  by (cases p) (simp_all add: ik_def fw_inv_def rx_idle_def)

lemma ik_on_list: "(\<And>a l. rx_idle a \<Longrightarrow> rx_idle (upd (\<lambda>_. l) a)) \<Longrightarrow> ik (fw_inv I) (on_list get upd m)"
  by (auto simp: ik_def fw_inv_def intro: wlp_any)

lemma ik_in_world: "ik I m \<Longrightarrow> ik (fw_inv I) (in_world m)"
  by (auto simp: ik_def fw_inv_def intro: wpx_mono)

lemma ik_rx_update: "ik (fw_inv I) (rx_update_user_ntb E)"
  unfolding ik_def by (auto simp: fw_inv_def wpx_Inr [OF rx_update_idle] rx_idle_def)

lemmas ik_driver = ik_rules ik_get_if ik_ntb_read ik_ntb_modify ik_in_world ik_rx_update

locale env_inv =
  fixes E :: "('w, 'd) ncm_env" and I :: "'w \<Rightarrow> bool"
  assumes ep0_inv: "ik I (usb_transfer_ep0 E req buf n)"
    and ep_inv: "ik I (usb_transfer_ep E ep buf n)"
    and status_inv: "ik I (usb_control_status E req)"
    and busy_inv: "ik I (usb_ep_busy E ep)"
    and tx_cb_inv: "ik I (net_tx_cb E d arg)"
begin

lemmas env_rules = ep0_inv ep_inv status_inv busy_inv tx_cb_inv

lemma tx_start_inv: "ik (fw_inv I) (tx_try_start E)"
  unfolding tx_try_start_def
  by (intro ik_driver ik_modify_if ik_on_list env_rules) (simp_all add: rx_idle_def)

lemma can_tx_inv: "ik (fw_inv I) (net_can_tx E sz)"
  unfolding net_can_tx_def tx_datagram_fits_user_ntb_def tx_accept_user_ntb_def
  by (intro ik_driver ik_modify_if ik_on_list env_rules tx_start_inv) (simp_all add: rx_idle_def)

lemma tx_inv: "ik (fw_inv I) (net_tx E d arg)"
  unfolding net_tx_def
  by (intro ik_driver ik_modify_if ik_on_list env_rules tx_start_inv) (simp_all add: rx_idle_def)

lemma notification_inv: "ik (fw_inv I) (tx_notification E b)"
  unfolding tx_notification_def
  by (intro ik_driver ik_modify_if ik_on_list env_rules) (simp_all add: rx_idle_def)

lemma control_inv: "ik (fw_inv I) (net_usb_control_transfer E req)"
  unfolding net_usb_control_transfer_def
  by (intro ik_driver ik_modify_if ik_on_list env_rules notification_inv) (simp_all add: rx_idle_def)

end

section \<open>The application's part\<close>

text \<open>No frame waits for the stack, and neither the forced link state nor standby was asked for.\<close>

definition app_quiet :: "('h, 'x, 'k) app \<Rightarrow> bool" where
  "app_quiet s \<longleftrightarrow> received_frame s = None \<and> \<not> glForceLinkU2 s \<and> \<not> StandbyModeEnable s \<and> \<not> TriggerStandbyMode s"

lemma ik_in_fx3: "ik app_quiet (in_fx3 m)"
  and ik_in_pbufs: "ik app_quiet (in_pbufs m')"
  and ik_in_net: "ik app_quiet (in_net m'')"
  and ik_in_sdk: "ik app_quiet (in_sdk n)"
  and ik_sdk: "ik app_quiet (sdk K r)"
  by (auto simp: ik_def app_quiet_def intro: wlp_any)

lemma ik_in_lwip: "ik app_quiet (in_lwip m)"
  by (auto simp: ik_def app_quiet_def in_lwip_def wpx_def split: sum.splits)

lemma ik_sdk_do: "ik app_quiet (sdk_do K r)"
  and ik_must: "ik app_quiet (must K st)"
  and ik_sdk_must: "ik app_quiet (sdk_must K r)"
  unfolding sdk_do_def sdk_must_def must_def CyFxAppErrorHandler_def by (intro ik_rules ik_sdk)+

lemma ik_sdk_seq: "ik app_quiet (sdk_seq K rs)"
  by (induction rs) (auto intro!: ik_rules ik_sdk_do)

lemmas ik_app = ik_rules ik_in_fx3 ik_in_pbufs ik_in_net ik_in_sdk ik_sdk ik_in_lwip ik_sdk_do ik_must ik_sdk_must
  ik_sdk_seq ik_modify

lemma ik_error_handler: "ik app_quiet (CyFxAppErrorHandler st)"
  by (simp add: CyFxAppErrorHandler_def ik_fail)

lemma ik_usb_buf: "ik I (usb_buf_bytes b n)"
  unfolding usb_buf_bytes_def by (cases b) (auto intro!: ik_rules)

lemma ik_channels: "ik app_quiet (channel_get_retry K ch notifyBuf notifyBuf_update)"
    "ik app_quiet (channel_get_retry K ch outBuf outBuf_update)" "ik app_quiet (channel_commit K ch n)"
    "ik app_quiet (dma_memcpy b bs)"
  unfolding channel_get_retry_def channel_get_def channel_commit_def channel_reset_def dma_memcpy_def
  by (intro ik_app; simp add: app_quiet_def)+

lemma ik_usb_functions: "ik app_quiet (usb_transfer_ep0_app K req b n)" "ik app_quiet (usb_transfer_ep_app K ep b n)"
    "ik app_quiet (usb_control_status_app K req)" "ik app_quiet (usb_ep_busy_app ep)" "ik app_quiet (net_tx_cb_app d a)"
  unfolding usb_transfer_ep0_app_def usb_transfer_ep_app_def usb_control_status_app_def usb_ep_busy_app_def net_tx_cb_app_def
  by (intro ik_app ik_usb_buf ik_channels; simp add: app_quiet_def)+

interpretation app: env_inv "app_env K L" app_quiet for K :: "'k sdk" and L :: "('h, 'x, 'k) lwip"
  by unfold_locales (simp_all add: app_env_def ik_usb_functions)

lemma ik_start_stop: "ik app_quiet (CyFxAppStart K)" "ik app_quiet (stop_if_active K)"
  unfolding CyFxAppStart_def stop_if_active_def CyFxAppStop_def flush_endpoints_def channel_start_def speed_packet_size_def
  by (auto intro!: ik_app ik_error_handler simp: app_quiet_def split: usb_speed.split)

lemma ik_events: "ik app_quiet (CyFxAppUSBEventCB K ev d)"
  unfolding CyFxAppUSBEventCB_def
  by (cases ev) (auto intro!: ik_app ik_start_stop simp: app_quiet_def)

lemma ik_setup: "ik app_quiet (CyFxAppUSBSetupCB K a b)"
  unfolding CyFxAppUSBSetupCB_def clear_halt_def defer_request_def Let_def
  by (intro ik_app; simp add: app_quiet_def)

lemma ik_dma_cb: "ik app_quiet (CyFxDmaCallback K ch ty)"
  unfolding CyFxDmaCallback_def by (intro ik_app; simp add: app_quiet_def)

lemma ik_ep_evt: "ik app_quiet (CyFxEpEvtCB e)"
  unfolding CyFxEpEvtCB_def by (intro ik_app; simp add: app_quiet_def)

lemma ik_timer: "ik app_quiet (TimerCb K)"
  unfolding TimerCb_def by (intro ik_app)

lemma ik_debug_init: "ik app_quiet (CyFxDebugInit K)"
  unfolding CyFxDebugInit_def by (intro ik_app ik_error_handler)

lemma ik_set_descriptors: "ik app_quiet (set_descriptors K ds)"
  by (induction ds rule: set_descriptors.induct) (auto intro!: ik_app)

lemma ik_app_start: "ik app_quiet (appThread_start K)"
  unfolding appThread_start_def CyFxAppInit_def
  by (intro ik_app ik_debug_init ik_set_descriptors ik_start_stop; simp add: app_quiet_def)

lemma ik_force_u2: "ik app_quiet (force_u2 K fuel)"
  by (induction fuel) (auto intro!: ik_app)

lemma ik_print_log: "ik app_quiet (print_usb_log fuel i j)"
  by (induction fuel arbitrary: i) (auto intro!: ik_rules)

lemma ik_standby: "ik app_quiet (enter_standby K)"
  unfolding enter_standby_def by (intro ik_app ik_debug_init ik_error_handler; simp add: app_quiet_def)

lemma ik_app_turn: "ik (fw_inv app_quiet) (appThread_turn K L fuel prev)"
proof -
  have "ik (fw_inv app_quiet) (control_task K L)"
    unfolding control_task_def by (intro ik_driver ik_app app.control_inv)
  moreover have "ik app_quiet (host_wake K)" unfolding host_wake_def by (intro ik_app)
  ultimately show ?thesis
    unfolding appThread_turn_def
    by (intro ik_driver ik_app ik_force_u2 ik_print_log ik_standby; simp add: app_quiet_def)
qed

lemma ik_link_output: "ik (fw_inv app_quiet) (link_output_app K L fuel p)"
  by (induction fuel) (auto simp: lw_pbuf_def intro!: ik_driver ik_app app.can_tx_inv app.tx_inv)

lemma service_traffic_idle: "fw_inv app_quiet s \<Longrightarrow> service_traffic K L s = Inr ((), s)"
  by (simp add: service_traffic_def fw_inv_def app_quiet_def in_world_def act_defs)

lemma net_init_idle: "wlp net_init (\<lambda>_. fw_inv I) s" if "I (world s)"
proof -
  have "ik (fw_inv I) (net_init_loop ns)" for ns
    by (induction ns) (auto simp: rx_idle_def intro!: ik_driver ik_on_list)
  moreover have "fw_inv I (s\<lparr>ncm_if := ncm_zero\<rparr>)" using that by (simp add: fw_inv_def rx_idle_def ncm_zero_def)
  ultimately show ?thesis unfolding net_init_def by (simp add: ik_def)
qed

lemma ik_lwip_start: "ik (fw_inv app_quiet) (lwipThread_start L)"
proof -
  have "ik (fw_inv app_quiet) net_init" unfolding ik_def using net_init_idle by (blast dest: fw_inv_def [THEN iffD1])
  then show ?thesis
    unfolding lwipThread_start_def init_lwip_def by (intro ik_driver ik_app)
qed

section \<open>The machine\<close>

datatype fw_op = LwipStart | LwipTurn | AppStart | AppTurn nat u16 | UsbEvent usb_event u16 | UsbSetup u32 u32
  | DmaCb dma_channel dma_cb_type | EpEvt ep_event | TimerExpired | LinkOutput nat "pptr option"

fun fw_run :: "'k sdk \<Rightarrow> ('h, 'x, 'k) lwip \<Rightarrow> fw_op \<Rightarrow> (('h, 'x, 'k) fw, unit) act" where
  "fw_run K L LwipStart = lwipThread_start L"
| "fw_run K L LwipTurn = service_traffic K L"
| "fw_run K L AppStart = in_world (appThread_start K)"
| "fw_run K L (AppTurn fuel prev) = act_bind (appThread_turn K L fuel prev) (\<lambda>_. act_return ())"
| "fw_run K L (UsbEvent ev d) = in_world (CyFxAppUSBEventCB K ev d)"
| "fw_run K L (UsbSetup a b) = act_bind (in_world (CyFxAppUSBSetupCB K a b)) (\<lambda>_. act_return ())"
| "fw_run K L (DmaCb ch ty) = in_world (CyFxDmaCallback K ch ty)"
| "fw_run K L (EpEvt e) = in_world (CyFxEpEvtCB e)"
| "fw_run K L TimerExpired = in_world (TimerCb K)"
| "fw_run K L (LinkOutput fuel p) = act_bind (link_output_app K L fuel p) (\<lambda>_. act_return ())"

inductive fw_reach :: "'k sdk \<Rightarrow> ('h, 'x, 'k) lwip \<Rightarrow> ('h, 'x, 'k) fw \<Rightarrow> bool" for K L where
  fw_boot: "ncm_if s = ncm_zero \<Longrightarrow> app_quiet (world s) \<Longrightarrow> fw_reach K L s"
| fw_step: "fw_reach K L s \<Longrightarrow> fw_run K L op s = Inr ((), s') \<Longrightarrow> fw_reach K L s'"

lemma ik_fw_run: "ik (fw_inv app_quiet) (fw_run K L op)"
proof (cases op)
  case LwipTurn
  then show ?thesis by (auto simp: ik_def wpx_Inr [OF service_traffic_idle])
qed (auto intro!: ik_driver ik_lwip_start ik_app_start ik_app_turn ik_events ik_setup ik_dma_cb ik_ep_evt ik_timer
      ik_link_output)

lemma fw_reach_idle: "fw_reach K L s \<Longrightarrow> fw_inv app_quiet s"
proof (induction rule: fw_reach.induct)
  case (fw_boot s)
  then show ?case by (simp add: fw_inv_def rx_idle_def ncm_zero_def)
next
  case (fw_step s op s')
  then show ?case using ik_run [OF ik_fw_run] by blast
qed

end
