(* ===== verification/Fx3_Channels.thy ===== *)
theory Fx3_Channels
  imports Fx3_AppUsb
begin

text \<open>
  The life of the DMA channels under the callbacks of the USB library.  What the library documents of its
  channel functions is the predicate \<open>sdk_channels\<close>: a channel is created once before it is used and
  destroyed once; a call that respects this does not fault.  The application keeps all three channels in
  existence exactly while it is active.
\<close>

section \<open>What the library documents\<close>

definition chan_pre :: "dma_channel set \<Rightarrow> sdk_req \<Rightarrow> bool" where
  "chan_pre C r = (case r of
      DmaChannelCreate c _ _ \<Rightarrow> c \<notin> C
    | DmaChannelDestroy c \<Rightarrow> c \<in> C
    | DmaChannelSetXfer c _ \<Rightarrow> c \<in> C
    | DmaChannelReset c \<Rightarrow> c \<in> C
    | DmaChannelDiscardBuffer c \<Rightarrow> c \<in> C
    | DmaChannelCommitBuffer c _ _ \<Rightarrow> c \<in> C
    | _ \<Rightarrow> True)"

definition chan_post :: "u32 \<Rightarrow> sdk_req \<Rightarrow> u32 \<Rightarrow> dma_channel set \<Rightarrow> dma_channel set" where
  "chan_post ok r st C = (case r of
      DmaChannelCreate c _ _ \<Rightarrow> if st = ok then insert c C else C
    | DmaChannelDestroy c \<Rightarrow> C - {c}
    | _ \<Rightarrow> C)"

definition sdk_channels :: "'k sdk \<Rightarrow> ('k \<Rightarrow> dma_channel set) \<Rightarrow> bool" where
  "sdk_channels K chan \<longleftrightarrow>
     (\<forall>r k. chan_pre (chan k) r \<longrightarrow>
        (\<exists>st k'. sdk_call K r k = Inr (st, k') \<and> chan k' = chan_post (CY_U3P_SUCCESS K) r st (chan k)))
     \<and> (\<forall>k. \<exists>sp k'. CyU3PUsbGetSpeed K k = Inr (sp, k') \<and> chan k' = chan k)"

section \<open>Following the channels\<close>

definition chan_view :: "('k \<Rightarrow> dma_channel set) \<Rightarrow> ('h, 'x, 'k) app \<Rightarrow> bool \<times> dma_channel set" where
  "chan_view chan s = (glIsApplnActive s, chan (rtos (fx3 s)))"

definition chan_inv :: "('k \<Rightarrow> dma_channel set) \<Rightarrow> ('h, 'x, 'k) app \<Rightarrow> bool" where
  "chan_inv chan s \<longleftrightarrow> chan (rtos (fx3 s)) = (if glIsApplnActive s then UNIV else {})"

text \<open>From a state with view \<open>v\<close> the action ends with view \<open>w\<close>, or in the error handler.\<close>

definition moves :: "('k \<Rightarrow> dma_channel set) \<Rightarrow> bool \<times> dma_channel set \<Rightarrow> (('h, 'x, 'k) app, 'a) act \<Rightarrow>
    bool \<times> dma_channel set \<Rightarrow> bool" where
  "moves chan v m w \<longleftrightarrow> (\<forall>s. chan_view chan s = v \<longrightarrow> wpx {NoReturn} m (\<lambda>_ s'. chan_view chan s' = w) s)"

lemma moves_bind: "moves chan v m u \<Longrightarrow> (\<And>x. moves chan u (f x) w) \<Longrightarrow> moves chan v (act_bind m f) w"
  unfolding moves_def wpx_bind by (blast intro: wpx_mono)

lemma moves_stay: "moves chan v m v \<Longrightarrow> (\<And>x. moves chan v (f x) v) \<Longrightarrow> moves chan v (act_bind m f) v"
  by (rule moves_bind)

lemma moves_return: "moves chan v (act_return x) v"
  by (simp add: moves_def)

lemma moves_modify: "(\<And>s. chan_view chan s = v \<Longrightarrow> chan_view chan (f s) = w) \<Longrightarrow> moves chan v (act_modify f) w"
  by (simp add: moves_def)

lemma moves_active: "moves chan (a, C) (act_modify (glIsApplnActive_update (\<lambda>_. b))) (b, C)"
  by (rule moves_modify) (simp add: chan_view_def)

lemma moves_if: "(b \<Longrightarrow> moves chan v m w) \<Longrightarrow> (\<not> b \<Longrightarrow> moves chan v n w) \<Longrightarrow> moves chan v (if b then m else n) w"
  by simp

lemma moves_fail: "moves chan v (CyFxAppErrorHandler st) w"
  by (simp add: moves_def CyFxAppErrorHandler_def)

lemma sdk_channelsD:
  assumes "sdk_channels K chan" "chan_pre (chan k) r"
  obtains st k' where "sdk_call K r k = Inr (st, k')" "chan k' = chan_post (CY_U3P_SUCCESS K) r st (chan k)"
  using assms unfolding sdk_channels_def by blast

lemma wpx_sdk_channels:
  assumes "sdk_channels K chan" "chan_pre (chan k) r"
    and "\<And>st k'. chan k' = chan_post (CY_U3P_SUCCESS K) r st (chan k) \<Longrightarrow> Q st k'"
  shows "wpx F (sdk_call K r) Q k"
  by (rule sdk_channelsD [OF assms(1, 2)]) (simp add: wpx_def assms(3))

lemma moves_do:
  assumes "sdk_channels K chan" "chan_pre C r" "\<And>st. chan_post (CY_U3P_SUCCESS K) r st C = D"
  shows "moves chan (a, C) (sdk_do K r) (a, D)"
  unfolding moves_def sdk_do_def
  using assms by (auto simp: chan_view_def intro!: wpx_sdk_channels [OF assms(1)])

lemma moves_must:
  assumes "sdk_channels K chan" "chan_pre C r" "chan_post (CY_U3P_SUCCESS K) r (CY_U3P_SUCCESS K) C = D"
  shows "moves chan (a, C) (sdk_must K r) (a, D)"
  unfolding moves_def sdk_must_def must_def CyFxAppErrorHandler_def
  using assms by (auto simp: chan_view_def intro!: wpx_sdk_channels [OF assms(1)])

lemma moves_speed:
  assumes "sdk_channels K chan"
  shows "moves chan (a, C) (in_sdk (CyU3PUsbGetSpeed K)) (a, C)"
proof -
  have "wpx F (CyU3PUsbGetSpeed K) (\<lambda>_ k'. chan k' = chan k) k" for F k
    using assms unfolding sdk_channels_def wpx_def by (metis (mono_tags, lifting) old.prod.case sum.simps(6))
  then show ?thesis by (auto simp: moves_def chan_view_def)
qed

text \<open>A sequence of calls, none of which creates a channel.\<close>

fun chan_seq :: "sdk_req list \<Rightarrow> dma_channel set \<Rightarrow> dma_channel set option" where
  "chan_seq [] C = Some C"
| "chan_seq (r # rs) C =
     (if chan_pre C r \<and> (\<forall>c ty cfg. r \<noteq> DmaChannelCreate c ty cfg) then chan_seq rs (chan_post 0 r 0 C) else None)"

lemma chan_post_status: "(\<forall>c ty cfg. r \<noteq> DmaChannelCreate c ty cfg) \<Longrightarrow> chan_post ok r st C = chan_post 0 r 0 C"
  by (cases r) (simp_all add: chan_post_def)

lemma moves_seq: "sdk_channels K chan \<Longrightarrow> chan_seq rs C = Some D \<Longrightarrow> moves chan (a, C) (sdk_seq K rs) (a, D)"
proof (induction rs arbitrary: C)
  case Nil
  then show ?case by (simp add: moves_return)
next
  case (Cons r rs)
  then have r: "chan_pre C r" "\<forall>c ty cfg. r \<noteq> DmaChannelCreate c ty cfg" "chan_seq rs (chan_post 0 r 0 C) = Some D"
    by (auto split: if_splits)
  show ?case
    unfolding sdk_seq.simps
    by (rule moves_bind [OF moves_do [OF Cons.prems(1) r(1) chan_post_status [OF r(2)]]])
      (rule Cons.IH [OF Cons.prems(1) r(3)])
qed

section \<open>Starting and stopping\<close>

lemma all_channels: "{glChHandleNotifier, glChHandleBulkSink, glChHandleBulkSrc} = UNIV"
proof -
  have "c \<in> {glChHandleNotifier, glChHandleBulkSink, glChHandleBulkSrc}" for c by (cases c) simp_all
  then show ?thesis by blast
qed

lemma moves_start_channel:
  assumes "sdk_channels K chan" "c \<notin> C" "D = insert c C"
  shows "moves chan (a, C) (channel_start K c ty cfg) (a, D)"
  unfolding channel_start_def assms(3)
  by (rule moves_bind [OF moves_must [OF assms(1)] moves_do [OF assms(1)]])
    (use assms in \<open>simp_all add: chan_pre_def chan_post_def\<close>)

lemma moves_config: "sdk_channels K chan \<Longrightarrow> moves chan (a, C) (sdk_must K (SetEpConfig ep cfg)) (a, C)"
  by (rule moves_must) (simp_all add: chan_pre_def chan_post_def)

lemma moves_flush: "sdk_channels K chan \<Longrightarrow> moves chan (a, C) (flush_endpoints K) (a, C)"
  unfolding flush_endpoints_def by (rule moves_seq) (simp_all add: chan_pre_def chan_post_def)

lemma moves_size: "moves chan v (speed_packet_size K sp) v"
  unfolding speed_packet_size_def by (cases sp) (auto intro: moves_return moves_bind [OF moves_fail])

lemma moves_AppStart:
  assumes K: "sdk_channels K chan"
  shows "moves chan (a, {}) (CyFxAppStart K) (True, UNIV)"
proof -
  let ?C = "{glChHandleNotifier}" and ?D = "{glChHandleBulkSink, glChHandleNotifier}"
  have D: "UNIV = insert glChHandleBulkSrc ?D" using all_channels by blast
  note notifier = moves_start_channel [OF K, of glChHandleNotifier "{}" ?C]
    and sink = moves_start_channel [OF K, of glChHandleBulkSink ?C ?D]
    and src = moves_start_channel [OF K, of glChHandleBulkSrc ?D UNIV]
  have "moves chan (a, UNIV) (sdk_do K (UsbRegisterEpEvtCallback 0x00 0x02)) (a, UNIV)"
    by (rule moves_do [OF K]) (simp_all add: chan_pre_def chan_post_def)
  note last = moves_bind [OF this moves_active]
  show ?thesis
    unfolding CyFxAppStart_def
    by (rule moves_bind [OF moves_speed [OF K]] moves_bind [OF moves_size] moves_bind [OF moves_config [OF K]]
        moves_bind [OF moves_flush [OF K]] moves_bind [OF notifier] moves_bind [OF sink] moves_bind [OF src] last
        | simp | rule D)+
qed

lemma moves_AppStop:
  assumes "sdk_channels K chan"
  shows "moves chan (a, UNIV) (CyFxAppStop K) (False, {})"
proof -
  have none: "UNIV - {glChHandleNotifier} - {glChHandleBulkSink} - {glChHandleBulkSrc} = {}"
    using all_channels by auto
  have "chan_seq [DmaChannelDestroy glChHandleNotifier, DmaChannelDestroy glChHandleBulkSink,
      DmaChannelDestroy glChHandleBulkSrc] UNIV = Some {}"
    using none by (simp add: chan_pre_def chan_post_def)
  note destroy = moves_seq [OF assms this]
  show ?thesis
    unfolding CyFxAppStop_def
    by (rule moves_bind [OF moves_active] moves_bind [OF destroy] moves_bind [OF moves_flush [OF assms]]
        moves_bind [OF moves_config [OF assms]] moves_config [OF assms])+
qed

section \<open>Callbacks\<close>

datatype usb_cb = EventCb usb_event u16 | SetupCb u32 u32 | EpEvtCb ep_event | TimerCbk | DeinitCb

fun usb_callback :: "'k sdk \<Rightarrow> usb_cb \<Rightarrow> (('h, 'x, 'k) app, unit) act" where
  "usb_callback K (EventCb ev d) = CyFxAppUSBEventCB K ev d"
| "usb_callback K (SetupCb a b) = act_bind (CyFxAppUSBSetupCB K a b) (\<lambda>_. act_return ())"
| "usb_callback K (EpEvtCb e) = CyFxEpEvtCB e"
| "usb_callback K TimerCbk = TimerCb K"
| "usb_callback K DeinitCb = CyFxAppDeinit K"

fun usb_callbacks :: "'k sdk \<Rightarrow> usb_cb list \<Rightarrow> (('h, 'x, 'k) app, unit) act" where
  "usb_callbacks K [] = act_return ()"
| "usb_callbacks K (c # cs) = act_bind (usb_callback K c) (\<lambda>_. usb_callbacks K cs)"

text \<open>Triples from the invariant to the invariant.\<close>

definition chan_keeps :: "('k \<Rightarrow> dma_channel set) \<Rightarrow> (('h, 'x, 'k) app, 'a) act \<Rightarrow> bool" where
  "chan_keeps chan m \<longleftrightarrow> (\<forall>s. chan_inv chan s \<longrightarrow> wpx {NoReturn} m (\<lambda>_. chan_inv chan) s)"

lemma chan_inv_view: "chan_inv chan s \<longleftrightarrow> chan_view chan s = (True, UNIV) \<or> chan_view chan s = (False, {})"
  by (auto simp: chan_inv_def chan_view_def)

lemma chan_keepsI:
  assumes "moves chan (True, UNIV) m v" "moves chan (False, {}) m w"
    and "{v, w} \<subseteq> {(True, UNIV), (False, {})}"
  shows "chan_keeps chan m"
  unfolding chan_keeps_def chan_inv_view
  using assms unfolding moves_def by (blast intro: wpx_mono)

lemma chan_keeps_return: "chan_keeps chan (act_return x)"
  by (simp add: chan_keeps_def)

lemma chan_keeps_bind: "chan_keeps chan m \<Longrightarrow> (\<And>x. chan_keeps chan (f x)) \<Longrightarrow> chan_keeps chan (act_bind m f)"
  unfolding chan_keeps_def wpx_bind by (blast intro: wpx_mono)

lemma chan_keeps_if: "(b \<Longrightarrow> chan_keeps chan m) \<Longrightarrow> (\<not> b \<Longrightarrow> chan_keeps chan n) \<Longrightarrow> chan_keeps chan (if b then m else n)"
  by simp

lemma chan_keeps_gets: "chan_keeps chan (act_gets f)"
  by (simp add: chan_keeps_def)

lemma chan_keeps_modify: "(\<And>s. chan_view chan (f s) = chan_view chan s) \<Longrightarrow> chan_keeps chan (act_modify f)"
  by (simp add: chan_keeps_def chan_inv_view)

lemma chan_keeps_neutral:
  assumes "sdk_channels K chan" "\<And>C. chan_pre C r" "\<And>C st. chan_post (CY_U3P_SUCCESS K) r st C = C"
  shows "chan_keeps chan (sdk_do K r)"
  by (rule chan_keepsI [OF moves_do [OF assms(1, 2)] moves_do [OF assms(1, 2)]]) (simp_all add: assms(3))

lemma chan_keeps_seq:
  assumes "sdk_channels K chan" "\<And>C. chan_seq rs C = Some C"
  shows "chan_keeps chan (sdk_seq K rs)"
  by (rule chan_keepsI [OF moves_seq [OF assms] moves_seq [OF assms]]) simp

lemmas chan_keeps_rules = chan_keeps_return chan_keeps_bind chan_keeps_if chan_keeps_gets

lemma chan_keeps_stop_if_active:
  assumes "sdk_channels K chan"
  shows "moves chan (True, UNIV) (stop_if_active K) (False, {})" "moves chan (False, {}) (stop_if_active K) (False, {})"
  using moves_AppStop [OF assms] by (auto simp: moves_def stop_if_active_def chan_view_def)

lemma chan_keeps_clear_halt:
  assumes "sdk_channels K chan"
  shows "moves chan (True, UNIV) (clear_halt K ep ch i) (True, UNIV)"
  unfolding clear_halt_def by (rule moves_seq [OF assms]) (simp add: chan_pre_def chan_post_def)

lemma chan_keeps_event:
  assumes "sdk_channels K chan"
  shows "chan_keeps chan (CyFxAppUSBEventCB K ev d)"
proof -
  note stop = chan_keeps_stop_if_active [OF assms]
  have conf: "chan_keeps chan (act_bind (stop_if_active K) (\<lambda>_. CyFxAppStart K))"
    by (rule chan_keepsI [OF moves_bind [OF stop(1) moves_AppStart [OF assms]] moves_bind [OF stop(2) moves_AppStart [OF assms]]]) simp
  have "chan_keeps chan (stop_if_active K)" by (rule chan_keepsI [OF stop]) simp
  with conf show ?thesis
    unfolding CyFxAppUSBEventCB_def
    by (cases ev) (auto simp: chan_view_def intro!: chan_keeps_rules chan_keeps_modify)
qed


lemma moves_gets_active: "moves chan (a, C) (f a) w \<Longrightarrow> moves chan (a, C) (act_bind (act_gets glIsApplnActive) f) w"
  by (auto simp: moves_def chan_view_def)

lemma moves_neutral:
  assumes "sdk_channels K chan" "\<And>C. chan_pre C r" "\<And>C st. chan_post (CY_U3P_SUCCESS K) r st C = C"
  shows "moves chan (a, C) (sdk_do K r) (a, C)"
  by (rule moves_do [OF assms(1, 2)]) (simp add: assms(3))

lemma moves_defer: "sdk_channels K chan \<Longrightarrow> moves chan (a, C) (defer_request K d0 d1) (a, C)"
  unfolding defer_request_def
  by (rule moves_bind [OF moves_modify moves_neutral]) (auto simp: chan_view_def chan_pre_def chan_post_def)

lemma chan_keeps_setup:
  fixes chan :: "'k \<Rightarrow> dma_channel set"
  assumes K: "sdk_channels K chan"
  shows "chan_keeps chan (CyFxAppUSBSetupCB K d0 d1 :: (('h, 'x, 'k) app, bool) act)"
proof (rule chan_keepsI)
  have ack: "moves chan (a, C) (sdk_do K UsbAckSetup) (a, C)" "moves chan (a, C) (sdk_do K (UsbStall e x y)) (a, C)"
    for a C e x y by (rule moves_neutral [OF K]; simp add: chan_pre_def chan_post_def)+
  note rules = moves_gets_active moves_stay moves_if moves_return ack moves_defer [OF K] chan_keeps_clear_halt [OF K]
  show "moves chan (True, UNIV) (CyFxAppUSBSetupCB K d0 d1) (True, UNIV)"
    unfolding CyFxAppUSBSetupCB_def Let_def by (intro rules)
  show "moves chan (False, {}) (CyFxAppUSBSetupCB K d0 d1) (False, {})"
    unfolding CyFxAppUSBSetupCB_def Let_def by (intro rules) simp_all
qed simp

lemma chan_keeps_callback:
  assumes "sdk_channels K chan"
  shows "chan_keeps chan (usb_callback K c)"
proof (cases c)
  case DeinitCb
  have "chan_keeps chan (sdk_seq K [ConnectState False True, ThreadSleep 1000, UsbStop, ThreadSleep 1000])"
    by (rule chan_keeps_seq [OF assms]) (simp add: chan_pre_def chan_post_def)
  moreover have "chan_keeps chan (stop_if_active K)"
    by (rule chan_keepsI [OF chan_keeps_stop_if_active [OF assms]]) simp
  ultimately show ?thesis unfolding DeinitCb usb_callback.simps CyFxAppDeinit_def by (intro chan_keeps_bind)
qed (auto simp: TimerCb_def CyFxEpEvtCB_def chan_view_def chan_pre_def chan_post_def
      intro!: chan_keeps_event chan_keeps_rules chan_keeps_setup chan_keeps_modify chan_keeps_neutral assms)

lemma chan_keeps_callbacks: "sdk_channels K chan \<Longrightarrow> chan_keeps chan (usb_callbacks K cs)"
  by (induction cs) (auto intro: chan_keeps_return chan_keeps_bind chan_keeps_callback)

end
