(* ===== verification/Fx3_AppProps.thy ===== *)
theory Fx3_AppProps
  imports Fx3_Machine Fx3_Channels Ncm_Props Lwip_PbufProps
begin

text \<open>
  The properties of the application and of the firmware it forms with the driver and the packet buffers,
  each with a concrete firmware state that meets its hypotheses.
\<close>

section \<open>A concrete firmware\<close>

text \<open>An FX3 library that tracks which channels exist and grants every call that is allowed.\<close>

definition demo_kos :: "dma_channel set fx3_os" where
  "demo_kos = \<lparr>os_BytePoolCreate = (\<lambda>_ _ w. Inr ((), w)), os_BytePoolDestroy = (\<lambda>w. Inr ((), w)),
     os_ByteAlloc = (\<lambda>_ _ w. Inr (None, w)), os_ByteFree = (\<lambda>_ w. Inr ((), w)),
     os_ThreadIdentify = (\<lambda>w. Inr (True, w)), os_MutexCreate = (\<lambda>w. Inr (True, w)),
     os_MutexGet = (\<lambda>_ w. Inr (True, w)), os_MutexPut = (\<lambda>w. Inr ((), w)),
     os_MutexDestroy = (\<lambda>w. Inr ((), w)), os_BadCb = (\<lambda>_ _ w. Inr ((), w)),
     off_alloc_id = 0, off_alloc_size = 4, off_prev_blk = 8, off_next_blk = 12, off_start_sig = 16\<rparr>"

definition demo_sdk :: "dma_channel set sdk" where
  "demo_sdk = \<lparr>sdk_os = demo_kos,
     sdk_call = (\<lambda>r C. if chan_pre C r then Inr (0, chan_post 0 r 0 C) else Inl OutOfBounds),
     CyU3PUsbGetSpeed = (\<lambda>C. Inr (CY_U3P_HIGH_SPEED, C)),
     CyU3PDmaChannelGetBuffer = (\<lambda>ch b _ C. Inr ((0, b\<lparr>buf_buffer := 0x40050000, buf_size := 512\<rparr>), C)),
     CyU3PEventGet = (\<lambda>_ _ C. Inr ((0, 0), C)), CyU3PUsbGetLinkPowerState = (\<lambda>C. Inr ((0, CyU3PUsbLPM_U0), C)),
     CyU3PUsbGetEventLogIndex = (\<lambda>C. Inr (0, C)), CyU3PGetTime = (\<lambda>C. Inr (0, C)), CY_U3P_SUCCESS = 0,
     CY_U3P_ERROR_ALREADY_STARTED = 1, CY_U3P_ERROR_NO_REENUM_REQUIRED = 2, CY_U3P_ERROR_FAILURE = 3, CYU3P_NO_WAIT = 0,
     CY_U3P_USB_REQUEST_TYPE_MASK = 0xFF, CY_U3P_USB_TYPE_MASK = 0x60, CY_U3P_USB_TARGET_MASK = 0x03,
     CY_U3P_USB_REQUEST_MASK = 0xFF00, CY_U3P_USB_REQUEST_POS = 8, CY_U3P_USB_VALUE_MASK = 0xFFFF0000,
     CY_U3P_USB_VALUE_POS = 16, CY_U3P_USB_INDEX_MASK = 0xFFFF, CY_U3P_USB_INDEX_POS = 0,
     CY_U3P_USB_LENGTH_MASK = 0xFFFF0000, CY_U3P_USB_LENGTH_POS = 16, CY_U3P_USB_STANDARD_RQT = 0,
     CY_U3P_USB_CLASS_RQT = 0x20, CY_U3P_USB_TARGET_INTF = 1, CY_U3P_USB_TARGET_ENDPT = 2,
     CY_U3P_USB_SC_SET_FEATURE = 3, CY_U3P_USB_SC_CLEAR_FEATURE = 1, CY_U3P_USBX_FS_EP_HALT = 0\<rparr>"

definition demo_fx3 :: "dma_channel set fx3_sys" where
  "demo_fx3 = \<lparr>ram = (\<lambda>_. 7), glMemPoolInit = True, glMemEnableChecks = False, glMemAllocCnt = 0,
     glMemFreeCnt = 0, glMemInUseList = 0, glMemBadCb = 0, glBufMgrEnableChecks = False, glBufAllocCnt = 0,
     glBufFreeCnt = 0, glBufInUseList = 0, glBufBadCb = 0, bm_startAddr = 0, bm_regionSize = 0,
     bm_usedStatus = 0, bm_status = [], bm_searchPos = 0, rtos = {}\<rparr>"

definition demo_netif :: netif where
  "demo_netif = \<lparr>ip_addr = 0, netmask = 0, gw = 0, nif_input = Fn_NULL, nif_output = Fn_NULL, nif_linkoutput = Fn_NULL,
     mtu = 0, hwaddr = [], hwaddr_len = 0, nif_flags = 0, nif_name = [], nif_num = 0\<rparr>"

definition demo_lwip :: "(unit, unit, dma_channel set) lwip" where
  "demo_lwip = \<lparr>lw_mem = demo_env, lw_netif = \<lparr>netif_do_ip_addr_changed = (\<lambda>_ _ x. Inr ((), x)),
       etharp_gratuitous = (\<lambda>_ x. Inr ((), x)), etharp_cleanup_netif = (\<lambda>_ x. Inr ((), x))\<rparr>,
     lwip_init = (\<lambda>s. Inr ((), s)), lwiperf_start = (\<lambda>s. Inr ((), s)), ip4_input = (\<lambda>_ s. Inr ((), s)),
     etharp_input = (\<lambda>_ s. Inr ((), s)), etharp_output = (\<lambda>_ _ s. Inr (ERR_OK, s))\<rparr>"

definition demo_app :: "(unit, unit, dma_channel set) app" where
  "demo_app = \<lparr>glIsApplnActive = False, glDMARxCount = 0, glDMATxCount = 0, glDataTransStarted = False,
     StandbyModeEnable = False, TriggerStandbyMode = False, glForceLinkU2 = False, glEp0StatCount = 0,
     gl_setupdat0 = 0, gl_setupdat1 = 0, gl_UsbLogBuffer = 0x40060000, glSrcEpFlush = False,
     notifyBuf = \<lparr>buf_buffer = 0, buf_count = 0, buf_size = 0, buf_status = 0\<rparr>,
     outBuf = \<lparr>buf_buffer = 0, buf_count = 0, buf_size = 0, buf_status = 0\<rparr>, received_frame = None,
     pbufs = demo_chain, net = \<lparr>netif_data = demo_netif, netif_default = False, stack = ()\<rparr>, fx3 = demo_fx3\<rparr>"

definition demo_fw :: "(unit, unit, dma_channel set) fw" where
  "demo_fw = \<lparr>ncm_if = ncm_zero, world = demo_app\<rparr>"

lemma demo_channels: "sdk_channels demo_sdk id"
  by (simp add: sdk_channels_def demo_sdk_def)

lemma demo_masks: "sdk_masks demo_sdk"
  by (simp add: sdk_masks_def demo_sdk_def)

section \<open>The event log\<close>

definition log_next :: "u16 \<Rightarrow> u16" where
  "log_next i = (if i + 1 = CYFX_USBLOG_SIZE then 0 else i + 1)"

lemma log_next_unat: "i < CYFX_USBLOG_SIZE \<Longrightarrow> unat (log_next i) = (unat i + 1) mod 4096"
  "i < CYFX_USBLOG_SIZE \<Longrightarrow> log_next i < CYFX_USBLOG_SIZE"
proof -
  assume i: "i < CYFX_USBLOG_SIZE"
  then have u: "unat i < 4096" by (simp add: CYFX_USBLOG_SIZE_def word_less_nat_alt)
  then have "unat (i + 1) = unat i + 1" by (simp add: word_to_nat)
  then show "unat (log_next i) = (unat i + 1) mod 4096"
    using u by (auto simp: log_next_def CYFX_USBLOG_SIZE_def word_unat_eq_iff)
  then show "log_next i < CYFX_USBLOG_SIZE" by (simp add: CYFX_USBLOG_SIZE_def word_less_nat_alt)
qed

lemma print_usb_log_step:
  assumes "gl_UsbLogBuffer s \<noteq> 0" "i < CYFX_USBLOG_SIZE" "i \<noteq> stop"
  shows "print_usb_log (Suc fuel) i stop s =
    act_bind (print_usb_log fuel (log_next i) stop) (\<lambda>bs. act_return (ram (fx3 s) (gl_UsbLogBuffer s + ucast i) # bs)) s"
  using assms by (simp add: act_defs log_next_def)

lemma print_usb_log_stuck:
  assumes "gl_UsbLogBuffer s \<noteq> 0" "i < CYFX_USBLOG_SIZE" "\<not> stop < CYFX_USBLOG_SIZE"
  shows "print_usb_log fuel i stop s = Inl NoReturn"
  using assms(2)
proof (induction fuel arbitrary: i)
  case 0
  show ?case by (simp add: act_defs)
next
  case (Suc fuel)
  then have "i \<noteq> stop" using assms(3) by auto
  then show ?case
    using Suc print_usb_log_step [OF assms(1) Suc.prems, of stop fuel] log_next_unat(2)
    by (simp add: act_bind_def)
qed

definition log_ring :: "('h, 'x, 'k) app \<Rightarrow> nat \<Rightarrow> nat \<Rightarrow> u8 list" where
  "log_ring s i n = map (\<lambda>k. ram (fx3 s) (gl_UsbLogBuffer s + of_nat ((i + k) mod 4096))) [0..<n]"

lemma print_usb_log_run:
  assumes p: "gl_UsbLogBuffer s \<noteq> 0" and stop: "stop < CYFX_USBLOG_SIZE"
  shows "i < CYFX_USBLOG_SIZE \<Longrightarrow> unat stop = (unat i + n) mod 4096 \<Longrightarrow> n < 4096 \<Longrightarrow> n < fuel \<Longrightarrow>
    print_usb_log fuel i stop s = Inr (log_ring s (unat i) n, s)"
proof (induction n arbitrary: i fuel)
  case 0
  then have "unat i < 4096" by (simp add: CYFX_USBLOG_SIZE_def word_less_nat_alt)
  then have "i = stop" using 0 by (simp add: word_unat_eq_iff)
  then show ?case using 0 by (cases fuel) (simp_all add: act_defs log_ring_def)
next
  case (Suc n)
  then obtain f where f: "fuel = Suc f" by (cases fuel) auto
  have i: "unat i < 4096" using Suc.prems(1) by (simp add: CYFX_USBLOG_SIZE_def word_less_nat_alt)
  have "unat stop \<noteq> unat i"
  proof
    assume "unat stop = unat i"
    then have "(unat i + Suc n) mod 4096 = unat i" using Suc.prems(2) by simp
    then show False using i Suc.prems(3) by (auto simp: mod_if split: if_splits)
  qed
  then have ne: "i \<noteq> stop" by auto
  have "(unat (log_next i) + n) mod 4096 = unat stop"
    using Suc.prems(2) log_next_unat(1) [OF Suc.prems(1)] by (simp add: mod_add_left_eq)
  with Suc have "print_usb_log f (log_next i) stop s = Inr (log_ring s (unat (log_next i)) n, s)"
    using log_next_unat(2) f by auto
  moreover have "ucast i = (of_nat (unat i mod 4096) :: u32)" using i by simp
  moreover have "log_ring s (unat i) (Suc n) =
      ram (fx3 s) (gl_UsbLogBuffer s + of_nat (unat i mod 4096)) # log_ring s (unat (log_next i)) n"
    by (simp add: log_ring_def log_next_unat(1) [OF Suc.prems(1)] map_upt_Suc mod_simps del: upt_Suc)
  ultimately show ?case
    using print_usb_log_step [OF p Suc.prems(1) ne, of f] f by (simp add: act_defs)
qed

text \<open>C15. The loop that prints the USB event log ends within a turn of the ring and prints the bytes between
  the two indices in order when the library reports an index inside the ring; an index outside makes it run for ever.\<close>

theorem usb_log_loop_ends_inside_ring:
  assumes "gl_UsbLogBuffer s \<noteq> 0" "i < CYFX_USBLOG_SIZE"
  shows "if stop < CYFX_USBLOG_SIZE
    then print_usb_log 4096 i stop s = Inr (log_ring s (unat i) ((unat stop + 4096 - unat i) mod 4096), s)
    else (\<forall>fuel. print_usb_log fuel i stop s = Inl NoReturn)"
proof (cases "stop < CYFX_USBLOG_SIZE")
  case True
  define n where "n = (unat stop + 4096 - unat i) mod 4096"
  have "unat i < 4096" "unat stop < 4096" using True assms(2) by (simp_all add: CYFX_USBLOG_SIZE_def word_less_nat_alt)
  then have "unat stop = (unat i + n) mod 4096" "n < 4096" by (auto simp: n_def mod_if)
  then show ?thesis using print_usb_log_run [OF assms(1) True assms(2)] True by (simp add: n_def)
qed (use assms print_usb_log_stuck in auto)

theorem usb_log_loop_ends_inside_ring_witness:
  "print_usb_log 4096 4094 1 demo_app = Inr ([7, 7, 7], demo_app)"
  using usb_log_loop_ends_inside_ring [of demo_app 4094 1]
  by (simp add: CYFX_USBLOG_SIZE_def demo_app_def demo_fx3_def log_ring_def upt_rec)

section \<open>Control requests\<close>

text \<open>The two words in which the library passes the eight bytes of a setup packet.\<close>

definition setupdat0_of :: "u8 \<Rightarrow> u8 \<Rightarrow> u16 \<Rightarrow> u32" where
  "setupdat0_of bmReq bReq wVal = ucast bmReq OR push_bit 8 (ucast bReq) OR push_bit 16 (ucast wVal)"

definition setupdat1_of :: "u16 \<Rightarrow> u16 \<Rightarrow> u32" where
  "setupdat1_of wIdx wLen = ucast wIdx OR push_bit 16 (ucast wLen)"

lemma setup_masks: "(0xFF :: u32) = mask 8" "(0xFF00 :: u32) = push_bit 8 (mask 8)" "(0xFFFF :: u32) = mask 16"
    "(0xFFFF0000 :: u32) = push_bit 16 (mask 16)" "(0x60 :: u32) = push_bit 5 (mask 2)" "(0x03 :: u32) = mask 2"
    "(0x80 :: u32) = push_bit 7 (mask 1)"
  by (simp_all add: mask_eq_exp_minus_1 push_bit_eq_mult)

lemma low_two: "(0x03 :: u8) = mask 2"
  by (simp add: mask_eq_exp_minus_1)

lemma setup_fields:
  "ucast (drop_bit 8 (setupdat0_of a b v AND 0xFF00)) = b"
  "ucast (drop_bit 16 (setupdat0_of a b v AND 0xFFFF0000)) = v"
  "ucast (setupdat1_of i n AND 0xFFFF) = i"
  "ucast (drop_bit 16 (setupdat1_of i n AND 0xFFFF0000)) = n"
  unfolding setup_masks setupdat0_of_def setupdat1_of_def
  by (rule bit_word_eqI, auto simp: bit_simps dest: bit_imp_le_length)+

lemma setup_type_fields:
  "(ucast ((setupdat0_of a b v AND 0xFF) AND 0x03) :: 5 word) = ucast (a AND 0x03)"
  "(ucast (drop_bit 5 ((setupdat0_of a b v AND 0xFF) AND 0x60)) :: 2 word) = ucast (drop_bit 5 a)"
  "(ucast (drop_bit 8 ((d AND 0xFF) AND (0x80 :: u32))) :: 1 word) = 0"
  unfolding setup_masks low_two setupdat0_of_def
  by (rule bit_word_eqI, auto simp: bit_simps dest: bit_imp_le_length)+

text \<open>The application thread decodes a setup packet into the request it hands to the driver: type,
  recipient, request, value, index and length come out as the host sent them, but the direction bit is
  always zero.\<close>

theorem setup_request_decodes:
  assumes "sdk_masks K"
  shows "setup_request K (setupdat0_of bmReq bReq wVal) (setupdat1_of wIdx wLen) =
    \<lparr>bmRequestType = \<lparr>req_recipient = ucast (bmReq AND 0x03), req_type = ucast (drop_bit 5 bmReq), req_direction = 0\<rparr>,
     bRequest = bReq, wValue = wVal, wIndex = wIdx, wLength = wLen\<rparr>"
  using assms unfolding setup_request_def sdk_masks_def
  by (simp only: setup_fields setup_type_fields drop_bit_0 id_apply)

theorem setup_request_decodes_witness:
  "setup_request demo_sdk (setupdat0_of 0xA1 0x80 0) (setupdat1_of 0 28) =
    \<lparr>bmRequestType = \<lparr>req_recipient = 1, req_type = 1, req_direction = 0\<rparr>, bRequest = 0x80, wValue = 0, wIndex = 0, wLength = 28\<rparr>"
  using setup_request_decodes [OF demo_masks, of "0xA1" "0x80" 0 0 28] by simp

section \<open>Channels\<close>

text \<open>C14. Over any sequence of USB events, setup requests, endpoint and timer callbacks and shut-downs, the
  application creates a DMA channel only while it does not exist, uses and destroys one only while it
  exists, and keeps all three channels exactly while it is active; the only other outcome is that a refused
  call leaves it in the error handler.\<close>

theorem callbacks_keep_channel_lifecycle:
  assumes "sdk_channels K chan" "chan_inv chan s"
  shows "case usb_callbacks K cs s of Inl e \<Rightarrow> e = NoReturn | Inr (_, s') \<Rightarrow> chan_inv chan s'"
proof -
  have "wpx {NoReturn} (usb_callbacks K cs) (\<lambda>_. chan_inv chan) s"
    using chan_keeps_callbacks [OF assms(1)] assms(2) by (auto simp: chan_keeps_def)
  then show ?thesis by (auto simp: wpx_def split: sum.splits)
qed

theorem callbacks_keep_channel_lifecycle_witness:
  "case usb_callbacks demo_sdk [EventCb CY_U3P_USB_EVENT_SETCONF 0, EventCb CY_U3P_USB_EVENT_RESET 0,
     EventCb CY_U3P_USB_EVENT_SETCONF 0] demo_app of Inl e \<Rightarrow> e = NoReturn | Inr (_, s') \<Rightarrow> chan_inv id s'"
  by (rule callbacks_keep_channel_lifecycle [OF demo_channels]) (simp add: chan_inv_def demo_app_def demo_fx3_def)

section \<open>The firmware as a whole\<close>

text \<open>C13. However the threads, the callbacks and the network stack interleave, no reception is ever started: no
  receive block is with USB or waiting, no frame waits for the stack, the network thread's turn does
  nothing, and neither standby nor the forced link state is ever entered.\<close>

theorem firmware_never_receives:
  assumes "fw_reach K L s"
  shows "rx_usbd_ntb (ncm_if s) = None \<and> rx_user_ntb (ncm_if s) = None \<and> rx_wait_ntb (ncm_if s) = empty_ntb_list
    \<and> received_frame (world s) = None \<and> service_traffic K L s = Inr ((), s)
    \<and> \<not> TriggerStandbyMode (world s) \<and> \<not> glForceLinkU2 (world s)"
  using fw_reach_idle [OF assms] service_traffic_idle [OF fw_reach_idle [OF assms]]
  by (simp add: fw_inv_def rx_idle_def app_quiet_def)

lemma demo_lwip_start: "\<exists>s. lwipThread_start demo_lwip demo_fw = Inr ((), s) \<and> ncm_if s = ncm_ready"
  by (simp add: lwipThread_start_def act_bind_def net_init_eq demo_fw_def in_world_def init_lwip_def in_lwip_def
      demo_lwip_def in_net_def nif_modify_def act_modify_def netif_add_def netif_set_default_def
      act_gets_def act_return_def netif_set_addr_def netif_do_set_netmask_def netif_do_set_gw_def
      netif_do_set_ipaddr_def nif_def in_stack_def netif_issue_reports_def netif_is_up_def netif_is_link_up_def
      netif_init_cb_def demo_app_def demo_netif_def netif_consts or_any_def Let_def)

theorem firmware_never_receives_witness:
  "\<exists>s. fw_run demo_sdk demo_lwip LwipStart demo_fw = Inr ((), s) \<and> ncm_if s = ncm_ready
     \<and> service_traffic demo_sdk demo_lwip s = Inr ((), s)"
proof -
  obtain s where s: "lwipThread_start demo_lwip demo_fw = Inr ((), s)" "ncm_if s = ncm_ready"
    using demo_lwip_start by blast
  have "fw_reach demo_sdk demo_lwip demo_fw"
    by (rule fw_boot) (simp_all add: demo_fw_def demo_app_def app_quiet_def)
  then have "fw_reach demo_sdk demo_lwip s" by (rule fw_step [where op = LwipStart]) (simp add: s)
  from firmware_never_receives [OF this] show ?thesis using s by auto
qed

section \<open>Sending\<close>

text \<open>The callback through which the driver fetches a packet hands over all its bytes.\<close>

lemma net_tx_cb_packet:
  assumes "packet (pb_obj (pbufs w)) p xs" "p \<noteq> None" "length xs < chain_fuel"
  shows "net_tx_cb_app p arg w = Inr ((chain_data (pb_obj (pbufs w)) xs, of_nat (lens (pb_obj (pbufs w)) xs)), w)"
proof -
  obtain x b where b: "p = Some x" "pb_obj (pbufs w) x = Some b" "unat (pb_tot_len b) = lens (pb_obj (pbufs w)) xs"
    using assms(1, 2) by (cases xs) (auto simp: packet_def)
  have l: "length (chain_data (pb_obj (pbufs w)) xs) = lens (pb_obj (pbufs w)) xs"
    using assms(1) seg_length by (auto simp: packet_def)
  show ?thesis
    using pbuf_copy_partial_eq [OF assms, of "pb_tot_len b" 0] b l
    by (simp add: net_tx_cb_app_def in_pbufs_def pb_get_def act_defs Let_def)
qed

lemma packet_tot_len:
  assumes "packet h p xs" "p \<noteq> None"
  shows "\<exists>x b. p = Some x \<and> h x = Some b \<and> unat (pb_tot_len b) = lens h xs"
  using assms by (cases xs) (auto simp: packet_def)

lemma link_output_run:
  assumes inv: "tx_inv (ncm_if s)" and active: "glIsApplnActive (world s)"
    and p: "packet (pb_obj (pbufs (world s))) p xs" "p \<noteq> None" "length xs < chain_fuel"
    and n: "n = lens (pb_obj (pbufs (world s))) xs" "0 < n" "n \<le> max_datagram"
    and room: "net_can_tx (app_env K L) (of_nat n) s = Inr (True, t)"
  shows "dwp (link_output_app K L (Suc fuel) p) (\<lambda>r s'. r = ERR_OK \<and> tx_appended (of_nat n) (ncm_if s)
      (chain_data (pb_obj (pbufs (world s))) xs) (ncm_if s')) s"
proof -
  let ?E = "app_env K L" and ?sz = "of_nat n :: u16" and ?bs = "chain_data (pb_obj (pbufs (world s))) xs"
  obtain x b where b: "p = Some x" "pb_obj (pbufs (world s)) x = Some b" "unat (pb_tot_len b) = n"
    using packet_tot_len [OF p(1, 2)] n by auto
  have sz: "pb_tot_len b = ?sz" "unat ?sz = n" using b(3) by (auto simp: word_unat_eq_iff)
  from wpx_conj [OF net_can_tx_spec [OF inv, of ?E ?sz] net_can_tx_block [OF inv, of ?E ?sz]] room
  obtain q where t: "tx_inv (ncm_if t)" "tx_room ?sz (ncm_if t)" "world t = world s" "tx_user_ntb (ncm_if t) = Some q"
      "if tx_room ?sz (ncm_if s) then t = s else ntb_datagrams (ntb_obj (ncm_if t) q) = []"
      "tx_collects ?sz (ncm_if s) = Some q" "\<forall>r. r \<noteq> q \<longrightarrow> ntb_obj (ncm_if t) r = ntb_obj (ncm_if s) r"
    using n(3) sz(2) by (auto simp: wpx_def)
  have cb: "net_tx_cb ?E p 0 (world t) = Inr ((?bs, ?sz), world t)"
    using net_tx_cb_packet [OF p] t(3) n(1) by (simp add: app_env_def)
  have len: "length ?bs = n" using p(1) seg_length n(1) by (auto simp: packet_def)
  from net_tx_spec [OF t(1, 4, 2) cb] len sz n(2)
  have "dwp (net_tx ?E p 0) (\<lambda>_ s'. ntb_datagrams (ntb_obj (ncm_if s') q) = ntb_datagrams (ntb_obj (ncm_if t) q) @ [?bs]
      \<and> (\<forall>r. r \<noteq> q \<longrightarrow> ntb_obj (ncm_if s') r = ntb_obj (ncm_if t) r)
      \<and> (tx_user_ntb (ncm_if s') = Some q \<or> tx_usbd_ntb (ncm_if s') = Some q)) t"
    by (auto intro: wpx_mono)
  then have "dwp (net_tx ?E p 0) (\<lambda>_ s'. tx_appended ?sz (ncm_if s) ?bs (ncm_if s')) t"
    by (rule wpx_mono) (use t(5-7) in \<open>auto simp: tx_appended_def split: if_splits\<close>)
  then show ?thesis
    by (auto simp: active b sz lw_pbuf_def wpx_Inr [where m = "net_can_tx a c" for a c, OF room]
        wpx_Inr [where m = "pb_get q" for q] pb_get_def elim!: wpx_mono split: if_splits)
qed

text \<open>When the driver grants room, \<^verbatim>\<open>link_output_app\<close> hands it the packet of the network stack: all its bytes,
  gathered from the chain of buffers, become the last datagram of the collecting block, or of the first free one, and
  the stack is told that the packet is out.  Neither the driver nor the application makes an invalid access.\<close>

theorem link_output_sends_packet:
  assumes reach: "ncm_reach (app_env K L) s" and active: "glIsApplnActive (world s)"
    and p: "packet (pb_obj (pbufs (world s))) p xs" "p \<noteq> None" "length xs < chain_fuel"
    and n: "n = lens (pb_obj (pbufs (world s))) xs" "0 < n" "n \<le> max_datagram"
    and room: "net_can_tx (app_env K L) (of_nat n) s = Inr (True, t)"
  shows "dwp (link_output_app K L (Suc fuel) p) (\<lambda>r s'. r = ERR_OK \<and> tx_appended (of_nat n) (ncm_if s)
      (chain_data (pb_obj (pbufs (world s))) xs) (ncm_if s')) s"
  by (rule link_output_run [OF reach_tx_inv [OF reach] active p n room])

text \<open>Once the transmit path is stalled, \<^verbatim>\<open>link_output_app\<close> never returns to the network stack while the
  application is active, however often it asks for room: the network thread hangs.\<close>

theorem link_output_hangs_when_stalled:
  assumes "(ncm_step (app_env K L))\<^sup>*\<^sup>* s s'" "tx_dead (ncm_if s)"
    and "glIsApplnActive (world s')" "pb_obj (pbufs (world s')) x = Some b"
  shows "link_output_app K L fuel (Some x) s' = Inl NoReturn"
proof -
  have dead: "tx_dead (ncm_if s')" using txd.run_rel [OF assms(1)] assms(2) by (simp add: tx_dead_kept_def)
  show ?thesis
  proof (induction fuel)
    case (Suc fuel)
    then show ?case
      using assms(3, 4)
      by (simp add: net_can_tx_dead [OF dead] act_bind_def in_world_def act_gets_def lw_pbuf_def in_pbufs_def pb_get_def)
  qed (simp add: act_fail_def)
qed

text \<open>A stalled driver: USB holds a transmit block, and none is free or being filled.\<close>

definition stalled_fw :: "(unit, unit, dma_channel set) fw" where
  "stalled_fw = \<lparr>ncm_if = ncm_zero\<lparr>tx_usbd_ntb := Some (TxNtb 0)\<rparr>, world = demo_app\<lparr>glIsApplnActive := True\<rparr>\<rparr>"

theorem link_output_hangs_when_stalled_witness:
  "tx_dead (ncm_if stalled_fw) \<and> link_output_app demo_sdk demo_lwip 1000000 (Some (PoolPbuf 3)) stalled_fw = Inl NoReturn"
proof
  show dead: "tx_dead (ncm_if stalled_fw)"
    by (simp add: tx_dead_def stalled_fw_def ncm_zero_def pop_empty)
  show "link_output_app demo_sdk demo_lwip 1000000 (Some (PoolPbuf 3)) stalled_fw = Inl NoReturn"
    by (rule link_output_hangs_when_stalled [OF rtranclp.rtrancl_refl dead])
      (simp_all add: stalled_fw_def demo_app_def demo_obj)
qed

definition ready_fw :: "(unit, unit, dma_channel set) fw" where
  "ready_fw = \<lparr>ncm_if = ncm_ready, world = demo_app\<lparr>glIsApplnActive := True\<rparr>\<rparr>"

lemma ready_fw_reach: "ncm_reach (app_env demo_sdk demo_lwip) ready_fw"
proof (rule ncm_reach.init)
  show "net_init \<lparr>ncm_if = ncm_zero, world = demo_app\<lparr>glIsApplnActive := True\<rparr>\<rparr> = Inr ((), ready_fw)"
    by (simp add: net_init_eq ready_fw_def)
qed

lemma ready_fw_room: "\<exists>t. net_can_tx (app_env demo_sdk demo_lwip) sz ready_fw = Inr (True, t)"
  by (simp add: net_can_tx_def tx_datagram_fits_user_ntb_def tx_accept_user_ntb_def act_defs get_if_def modify_if_def
      on_list_def ready_fw_def ncm_ready_def ncm_zero_def pop_ntb_def push_ntb_def NCM_NTB_N_def ntb_modify_def
      ring_index_advance_def)

theorem link_output_sends_packet_witness:
  "dwp (link_output_app demo_sdk demo_lwip 1 (Some (PoolPbuf 3)))
     (\<lambda>r s'. r = ERR_OK \<and> tx_appended 5 (ncm_if ready_fw) [1, 2, 3, 4, 5] (ncm_if s')) ready_fw"
proof -
  obtain t where t: "net_can_tx (app_env demo_sdk demo_lwip) (of_nat 5) ready_fw = Inr (True, t)"
    using ready_fw_room by blast
  have w: "pbufs (world ready_fw) = demo_chain" "glIsApplnActive (world ready_fw)"
    by (simp_all add: ready_fw_def demo_app_def)
  have "5 \<le> max_datagram" by (simp add: max_datagram_def ntb_sizes ncm_consts)
  then show ?thesis
    using link_output_sends_packet [OF ready_fw_reach w(2), unfolded w(1), OF demo_packet(1) _ _ _ _ _ t, where fuel = 0]
    unfolding demo_data demo_lens by (simp add: chain_fuel_def)
qed

end
