(* ===== verification/Fx3_RxProps.thy ===== *)
theory Fx3_RxProps
  imports Fx3_AppProps
begin

text \<open>
  What would happen to received frames: the receive callback of the application, the network thread's
  handling of a frame and the start of a reception, with the packet buffers and the DMA buffers they write to.
\<close>

section \<open>Allocating the frame's buffer\<close>

lemma pool_room_raw: "pool_room 0 = 1516" "PBUF_POOL_BUFSIZE_ALIGNED = 1516" "LWIP_MEM_ALIGN_SIZE 0 = 0"
  by (simp_all add: pool_room_def PBUF_POOL_BUFSIZE_ALIGNED_def LWIP_MEM_ALIGN_SIZE_def TCP_MSS_def PBUF_IP_HLEN_def
      PBUF_TRANSPORT_HLEN_def PBUF_LINK_ENCAPSULATION_HLEN_def PBUF_LINK_HLEN_def)

text \<open>A pool buffer as \<^verbatim>\<open>pbuf_alloc\<close> with \<^const>\<open>PBUF_RAW\<close> makes it: the payload starts the 1516 bytes.\<close>

definition raw_buf :: "pbuf \<Rightarrow> bool" where
  "raw_buf b \<longleftrightarrow> pb_payload b = Some 0 \<and> length (pb_mem b) = 1516"

lemma alloc_one:
  assumes "do_memp_malloc_pool (pool_PBUF_POOL s) = (Some e, d)" "sz \<le> 1516"
  shows "\<exists>b. pbuf_alloc E PBUF_RAW sz PBUF_POOL s =
      Inr (Some (PoolPbuf e), s\<lparr>pool_PBUF_POOL := d, pb_obj := (pb_obj s)(PoolPbuf e \<mapsto> b)\<rparr>)
    \<and> raw_buf b \<and> pb_len b = sz \<and> pb_tot_len b = sz \<and> pb_next b = None \<and> pb_ref b = 1"
  using assms by (simp add: pbuf_alloc_def act_defs memp_malloc_POOL_def fresh_mem_def pbuf_init_alloced_pbuf_def PBUF_RAW_def Let_def
      pool_room_raw raw_buf_def min_absorb1) (intro exI conjI, rule refl, simp_all)

text \<open>The loop over the pool keeps the first buffer and returns it.\<close>

abbreviation raw_at :: "'h pbuf_sys \<Rightarrow> pptr \<Rightarrow> bool" where
  "raw_at s x \<equiv> \<exists>b. pb_obj s x = Some b \<and> raw_buf b"

lemma alloc_pool_step:
  assumes "pbuf_alloc_pool E (Suc fuel) 0 (Some x) lst rem_len s = Inr (Some y, s')" "raw_at s x"
  shows "\<exists>t q n. raw_at t x \<and> (pbuf_alloc_pool E fuel 0 (Some x) q n t = Inr (Some y, s') \<or> y = x \<and> s' = t)"
proof (cases "do_memp_malloc_pool (pool_PBUF_POOL s)")
  case (Pair r d)
  show ?thesis
  proof (cases r)
    case None
    with assms Pair show ?thesis by (auto simp: act_defs memp_malloc_POOL_def split: sum.splits)
  next
    case (Some e)
    define b where "b = \<lparr>pb_next = None, pb_payload = Some 0, pb_tot_len = rem_len, pb_len = min rem_len 1516,
      pb_type_internal = ucast (pbuf_type_code PBUF_POOL), pb_flags = 0, pb_ref = 1, pb_if_idx = 0,
      pb_mem = map (uninit E (s\<lparr>pool_PBUF_POOL := d\<rparr>) (PoolPbuf e)) [0..<1516]\<rparr>"
    define u where "u = s\<lparr>pool_PBUF_POOL := d, pb_obj := (pb_obj s)(PoolPbuf e \<mapsto> b)\<rparr>"
    have u: "raw_at u x" using assms(2) by (auto simp: u_def b_def raw_buf_def)
    have "act_bind (pb_modify lst (pb_next_update (\<lambda>_. Some (PoolPbuf e)))) (\<lambda>_.
        if 0 < rem_len - min rem_len 1516 then pbuf_alloc_pool E fuel 0 (Some x) (Some (PoolPbuf e)) (rem_len - min rem_len 1516)
        else act_return (Some x)) u = Inr (Some y, s')"
      using assms(1) Pair Some
      by (simp add: act_defs memp_malloc_POOL_def fresh_mem_def pbuf_init_alloced_pbuf_def Let_def pool_room_raw u_def b_def)
    then obtain t where t: "pb_modify lst (pb_next_update (\<lambda>_. Some (PoolPbuf e))) u = Inr ((), t)"
        "(if 0 < rem_len - min rem_len 1516 then pbuf_alloc_pool E fuel 0 (Some x) (Some (PoolPbuf e)) (rem_len - min rem_len 1516)
         else act_return (Some x)) t = Inr (Some y, s')"
      by (auto simp: act_bind_def split: sum.splits)
    have "raw_at t x" using t(1) u by (auto simp: pb_modify_def raw_buf_def split: option.splits)
    then show ?thesis using t(2) by (auto simp: act_return_def split: if_splits)
  qed
qed

lemma alloc_pool_head:
  "pbuf_alloc_pool E fuel 0 (Some x) lst rem_len s = Inr (Some y, s') \<Longrightarrow> raw_at s x \<Longrightarrow> y = x \<and> raw_at s' x"
proof (induction fuel arbitrary: lst rem_len s)
  case 0
  then show ?case by (simp add: act_defs)
next
  case (Suc fuel)
  from alloc_pool_step [OF Suc.prems] Suc.IH show ?case by blast
qed

lemma alloc_raw_head:
  assumes "pbuf_alloc E PBUF_RAW sz PBUF_POOL s = Inr (Some y, s')"
  shows "raw_at s' y"
proof -
  obtain e d where e: "do_memp_malloc_pool (pool_PBUF_POOL s) = (Some e, d)"
    using assms by (cases "do_memp_malloc_pool (pool_PBUF_POOL s)")
      (auto simp: pbuf_alloc_def act_defs memp_malloc_POOL_def split: option.splits)
  define b where "b = \<lparr>pb_next = None, pb_payload = Some 0, pb_tot_len = sz, pb_len = min sz 1516,
      pb_type_internal = ucast (pbuf_type_code PBUF_POOL), pb_flags = 0, pb_ref = 1, pb_if_idx = 0,
      pb_mem = map (uninit E (s\<lparr>pool_PBUF_POOL := d\<rparr>) (PoolPbuf e)) [0..<1516]\<rparr>"
  define u where "u = s\<lparr>pool_PBUF_POOL := d, pb_obj := (pb_obj s)(PoolPbuf e \<mapsto> b)\<rparr>"
  have "raw_at u (PoolPbuf e)" by (simp add: u_def b_def raw_buf_def)
  moreover have "(if 0 < sz - min sz 1516 then pbuf_alloc_pool E (memp_num (pool_PBUF_POOL s)) 0 (Some (PoolPbuf e)) (Some (PoolPbuf e))
        (sz - min sz 1516) else act_return (Some (PoolPbuf e))) u = Inr (Some y, s')"
    using assms e by (simp add: pbuf_alloc_def act_defs memp_malloc_POOL_def fresh_mem_def pbuf_init_alloced_pbuf_def PBUF_RAW_def Let_def
      pool_room_raw u_def b_def)
  ultimately show ?thesis by (auto simp: act_return_def dest: alloc_pool_head split: if_splits)
qed

section \<open>The receive callback\<close>

text \<open>C16. The receive callback stores a frame of up to 1516 bytes completely in one fresh packet buffer, for the
  network thread to find, when no frame is waiting for that thread already, a buffer is free and the datagram lies
  inside the received block.\<close>

theorem net_rx_cb_stores_frame:
  assumes "received_frame w = None" "do_memp_malloc_pool (pool_PBUF_POOL (pbufs w)) = (Some e, d)"
    and "0 < sz" "sz \<le> 1516" "off + unat sz \<le> NCM_NTB_MAX_SIZE"
  shows "\<exists>w'. net_rx_cb_app L ntb off sz w = Inr (1, w') \<and> received_frame w' = Some (PoolPbuf e)
    \<and> packet (pb_obj (pbufs w')) (received_frame w') [PoolPbuf e]
    \<and> chain_data (pb_obj (pbufs w')) [PoolPbuf e] = map (\<lambda>i. ntb (off + i)) [0..<unat sz]"
proof -
  from alloc_one [OF assms(2, 4), of "lw_mem L"] obtain b where
    b: "pbuf_alloc (lw_mem L) PBUF_RAW sz PBUF_POOL (pbufs w) =
        Inr (Some (PoolPbuf e), (pbufs w)\<lparr>pool_PBUF_POOL := d, pb_obj := (pb_obj (pbufs w))(PoolPbuf e \<mapsto> b)\<rparr>)"
      "raw_buf b" "pb_len b = sz" "pb_tot_len b = sz" "pb_next b = None"
    by blast
  have "unat sz \<le> 1516" using assms(4) by (simp add: word_le_nat_alt)
  then show ?thesis
    using assms b by (auto simp: net_rx_cb_app_def act_defs in_pbufs_def pb_write_def pb_get_def pb_modify_def raw_buf_def
        payload_ok_def payload_write_def packet_def mem_write_def bdata_def payload_bytes_def)
qed

lemma demo_pool_next: "\<exists>d e. do_memp_malloc_pool (pool_PBUF_POOL demo_chain) = (Some 1, d)
    \<and> do_memp_malloc_pool d = (Some 0, e) \<and> memp_num (pool_PBUF_POOL demo_chain) = 4"
proof -
  let ?d = "pool_PBUF_POOL demo_chain"
  have l: "free_list ?d [1, 0]" by (rule demo_chain_list)
  from memp_malloc_list(1) [OF l] memp_malloc_list(1) [of "snd (do_memp_malloc_pool ?d)" "[0]"] demo_chain_avail(2)
  show ?thesis by (cases "do_memp_malloc_pool ?d"; cases "do_memp_malloc_pool (snd (do_memp_malloc_pool ?d))") auto
qed

theorem net_rx_cb_stores_frame_witness:
  "\<exists>w'. net_rx_cb_app demo_lwip (\<lambda>i. of_nat i) 60 3 demo_app = Inr (1, w')
     \<and> chain_data (pb_obj (pbufs w')) [PoolPbuf 1] = [60, 61, 62]"
proof -
  obtain d where "do_memp_malloc_pool (pool_PBUF_POOL (pbufs demo_app)) = (Some 1, d)"
    using demo_pool_next by (auto simp: demo_app_def)
  from net_rx_cb_stores_frame [OF _ this, of 3 60 demo_lwip "\<lambda>i. of_nat i"] show ?thesis
    by (auto simp: demo_app_def ncm_consts upt_rec)
qed

text \<open>A frame of more than 1516 bytes that gets a buffer chain is copied past the end of the first buffer:
  the length the host put into the datagram table is the only bound of the copy.\<close>

theorem net_rx_cb_overruns_on_long_frame:
  assumes "received_frame w = None" "1516 < sz" "off + unat sz \<le> NCM_NTB_MAX_SIZE"
    and "pbuf_alloc (lw_mem L) PBUF_RAW sz PBUF_POOL (pbufs w) = Inr (Some y, p)"
  shows "net_rx_cb_app L ntb off sz w = Inl OutOfBounds"
proof -
  obtain b where b: "pb_obj p y = Some b" "raw_buf b" using alloc_raw_head [OF assms(4)] by blast
  have "1516 < unat sz" using assms(2) by (simp add: word_less_nat_alt)
  then show ?thesis
    using assms b by (auto simp: net_rx_cb_app_def act_defs in_pbufs_def pb_write_def pb_get_def raw_buf_def payload_ok_def)
qed

theorem net_rx_cb_overruns_on_long_frame_witness: "net_rx_cb_app demo_lwip (\<lambda>_. 0) 60 1600 demo_app = Inl OutOfBounds"
proof -
  obtain d e where p: "do_memp_malloc_pool (pool_PBUF_POOL demo_chain) = (Some 1, d)" "do_memp_malloc_pool d = (Some 0, e)"
      "memp_num (pool_PBUF_POOL demo_chain) = Suc 3"
    using demo_pool_next by auto
  have m: "min (1600 :: u16) 1516 = 1516" "min (84 :: u16) 1516 = 84" by (simp_all add: min_def)
  have "Suc 3 = 4" by simp
  note four = pbuf_alloc_pool.simps(2) [where fuel = 3, unfolded this]
  have "\<exists>y q. pbuf_alloc (lw_mem demo_lwip) PBUF_RAW 1600 PBUF_POOL demo_chain = Inr (Some y, q)"
    by (simp add: pbuf_alloc_def act_defs p memp_malloc_POOL_def fresh_mem_def pbuf_init_alloced_pbuf_def PBUF_RAW_def Let_def
        pool_room_raw m pb_modify_def four)
  then show ?thesis
    using net_rx_cb_overruns_on_long_frame [of demo_app 1600 60 demo_lwip]
    by (auto simp: demo_app_def ncm_consts)
qed

section \<open>Handling a frame\<close>

text \<open>The frames the Ethernet layer drops: too short, or neither IP nor ARP.\<close>

definition eth_dropped :: "pbuf \<Rightarrow> bool" where
  "eth_dropped b \<longleftrightarrow> unat (pb_len b) \<le> SIZEOF_ETH_HDR \<or>
     (payload_ok b 0 SIZEOF_ETH_HDR \<and>
      rd16 (\<lambda>i. payload_bytes b 0 SIZEOF_ETH_HDR ! i) 12 \<notin> {PP_HTONS ETHTYPE_IP, PP_HTONS ETHTYPE_ARP})"

text \<open>Releasing a pool buffer that is not part of a chain.\<close>

definition lone_pool_buf :: "pbuf \<Rightarrow> bool" where
  "lone_pool_buf b \<longleftrightarrow> pb_next b = None \<and> pb_ref b = 1 \<and> pbuf_get_allocsrc b = ALLOC_SRC_STD_MEMP_PBUF_POOL
     \<and> pb_flags b AND PBUF_FLAG_IS_CUSTOM = 0"

lemma free_fuel: "chain_fuel = Suc (Suc 65535)"
  by (simp add: chain_fuel_def)

lemma free_single:
  assumes "pb_obj s (PoolPbuf e) = Some b" "lone_pool_buf b"
  shows "\<exists>s'. pbuf_free E (Some (PoolPbuf e)) s = Inr (1, s') \<and> pb_obj s' (PoolPbuf e) = None"
proof -
  have "pbuf_get_allocsrc (pb_ref_update (\<lambda>r. r - 1) b) = pbuf_get_allocsrc b" by (simp add: pbuf_get_allocsrc_def)
  then show ?thesis
    using assms unfolding pbuf_free_def free_fuel pbuf_free_loop.simps lone_pool_buf_def
    by (simp add: act_defs pb_modify_def pb_get_def pbuf_dealloc_def pb_drop_def)
qed

lemma free_gone: "pb_obj s x = None \<Longrightarrow> pbuf_free E (Some x) s = Inl OutOfBounds"
  unfolding pbuf_free_def free_fuel pbuf_free_loop.simps by (simp add: act_bind_def pb_modify_def)

lemma cast_flag_keeps: "lone_pool_buf b \<Longrightarrow> lone_pool_buf (b\<lparr>pb_if_idx := i, pb_flags := pb_flags b OR eth_cast_flag dst\<rparr>)"
  by (auto simp: lone_pool_buf_def pbuf_get_allocsrc_def eth_cast_flag_def eth_consts PBUF_FLAG_IS_CUSTOM_def
      bit.conj_disj_distrib2)

lemma ethernet_input_drops:
  assumes "pb_obj (pbufs (world s)) (PoolPbuf e) = Some b" "lone_pool_buf b" "eth_dropped b"
  shows "\<exists>s'. ethernet_input L (Some (PoolPbuf e)) s = Inr (ERR_OK, s') \<and> pb_obj (pbufs (world s')) (PoolPbuf e) = None
    \<and> received_frame (world s') = received_frame (world s)"
proof -
  let ?w = "world s" and ?p = "Some (PoolPbuf e)"
  have free: "\<exists>s'. act_bind (lw_pbuf (pbuf_free (lw_mem L) ?p)) (\<lambda>_. act_return ERR_OK) t = Inr (ERR_OK, s')
      \<and> pb_obj (pbufs (world s')) (PoolPbuf e) = None \<and> received_frame (world s') = received_frame (world t)"
    if "pb_obj (pbufs (world t)) (PoolPbuf e) = Some c" "lone_pool_buf c" for t c
    using free_single [OF that, of "lw_mem L"] by (auto simp: lw_pbuf_def in_world_def in_pbufs_def act_defs)
  show ?thesis
  proof (cases "unat (pb_len b) \<le> SIZEOF_ETH_HDR")
    case True
    then have "ethernet_input L ?p s = act_bind (lw_pbuf (pbuf_free (lw_mem L) ?p)) (\<lambda>_. act_return ERR_OK) s"
      using assms(1) by (simp add: ethernet_input_def Let_def act_bind_def lw_pbuf_def in_world_def in_pbufs_def pb_get_def)
    then show ?thesis using free [OF assms(1, 2)] by simp
  next
    case False
    let ?hdr = "payload_bytes b 0 SIZEOF_ETH_HDR"
    let ?c = "b\<lparr>pb_if_idx := (if pb_if_idx b = 0 then nif_num (netif_data (net ?w)) + 1 else pb_if_idx b),
      pb_flags := pb_flags b OR eth_cast_flag (take 6 ?hdr)\<rparr>"
    define t where "t = s\<lparr>world := ?w\<lparr>pbufs := (pbufs ?w)\<lparr>pb_obj := (pb_obj (pbufs ?w))(PoolPbuf e \<mapsto> ?c)\<rparr>\<rparr>\<rparr>"
    have "pb_obj (pbufs (world t)) (PoolPbuf e) = Some ?c" "received_frame (world t) = received_frame ?w"
      by (simp_all add: t_def)
    moreover have "ethernet_input L ?p s = act_bind (lw_pbuf (pbuf_free (lw_mem L) ?p)) (\<lambda>_. act_return ERR_OK) t"
      using False assms(1, 3)
      by (auto simp: ethernet_input_def Let_def eth_dropped_def t_def lw_pbuf_def in_world_def in_pbufs_def pb_get_def
          pb_read_def pb_modify_def act_bind_def act_gets_def act_check_def act_return_def)
    ultimately show ?thesis using free [OF _ cast_flag_keeps [OF assms(2)], of t] by metis
  qed
qed

text \<open>A frame the Ethernet layer drops is released twice: \<^verbatim>\<open>ethernet_input\<close> frees it and returns success, which
  means that the caller need not free it again, and \<^verbatim>\<open>service_traffic\<close> frees the released buffer once more.\<close>

theorem service_traffic_frees_twice:
  assumes "received_frame (world s) = Some (PoolPbuf e)" "pb_obj (pbufs (world s)) (PoolPbuf e) = Some b"
    and "lone_pool_buf b" "eth_dropped b"
  shows "service_traffic K L s = Inl (EnvFault OutOfBounds)"
proof -
  obtain s' where s': "ethernet_input L (Some (PoolPbuf e)) s = Inr (ERR_OK, s')"
      "pb_obj (pbufs (world s')) (PoolPbuf e) = None" "received_frame (world s') = Some (PoolPbuf e)"
    using ethernet_input_drops [OF assms(2, 3, 4), of L] assms(1) by auto
  then show ?thesis
    using assms(1) free_gone [OF s'(2), of "lw_mem L"]
    by (simp add: service_traffic_def act_bind_def in_world_def act_gets_def lw_pbuf_def in_pbufs_def)
qed

definition frame_fw :: "(unit, unit, dma_channel set) fw" where
  "frame_fw = demo_fw\<lparr>world := demo_app\<lparr>received_frame := Some (PoolPbuf 3),
     pbufs := demo_pbufs\<lparr>pb_obj := (\<lambda>_. None)(PoolPbuf 3 \<mapsto> demo_buf [1, 2, 3] None 3 1)\<rparr>\<rparr>\<rparr>"

theorem service_traffic_frees_twice_witness: "service_traffic demo_sdk demo_lwip frame_fw = Inl (EnvFault OutOfBounds)"
  by (rule service_traffic_frees_twice [where e = 3 and b = "demo_buf [1, 2, 3] None 3 1"])
    (simp_all add: frame_fw_def demo_fw_def demo_app_def demo_buf_def lone_pool_buf_def pbuf_get_allocsrc_def pbuf_consts
      eth_dropped_def SIZEOF_ETH_HDR_def)

section \<open>Starting a reception\<close>

text \<open>Starting a reception copies a whole block of 3200 bytes into the 512-byte DMA buffer of the channel towards
  the host: when the library hands out the buffer the channel was created with, the copy runs out of it.\<close>

theorem rx_start_overruns_dma_buffer:
  assumes "rx_usbd_ntb (ncm_if s) = None" "interface_active (ncm_if s) = 1"
    and "pop_ntb (rx_free_ntb (ncm_if s)) = Inr (Some q, l)" "ntb_valid q"
    and "\<And>c k. \<exists>b k'. CyU3PDmaChannelGetBuffer K glChHandleBulkSink c 1000 k = Inr ((CY_U3P_SUCCESS K, b), k')
      \<and> buf_buffer b \<noteq> 0 \<and> buf_size b = dma_size sink_dma_config"
  shows "rx_try_start (app_env K L) s = Inl (EnvFault OutOfBounds)"
proof -
  let ?b = "\<lparr>buf_buffer = 0, buf_count = of_nat NCM_NTB_MAX_SIZE, buf_size = of_nat NCM_NTB_MAX_SIZE, buf_status = 0\<rparr>"
  obtain b k' where b: "CyU3PDmaChannelGetBuffer K glChHandleBulkSink ?b 1000 (rtos (fx3 (world s))) =
      Inr ((CY_U3P_SUCCESS K, b), k')" "buf_buffer b \<noteq> 0" "buf_size b = 512"
    using assms(5) by (fastforce simp: sink_dma_config_def notifier_dma_config_def)
  have "usb_transfer_ep_app K NCM_EP_DATA_OUT (BufNtb q m) (of_nat NCM_NTB_MAX_SIZE) (world s) = Inl OutOfBounds" for m
    using b by (simp add: usb_transfer_ep_app_def channel_get_retry_def channel_get_def act_defs in_sdk_def in_fx3_def in_os_def
        usb_buf_bytes_def dma_memcpy_def ncm_consts)
  then show ?thesis
    using assms(1-4) by (simp add: rx_try_start_def act_defs get_if_def modify_if_def on_list_def in_world_def app_env_def
        usb_ep_busy_app_def ntb_read_def)
qed

theorem rx_start_overruns_dma_buffer_witness:
  "rx_try_start (app_env demo_sdk demo_lwip) (ready_fw\<lparr>ncm_if := ncm_ready\<lparr>interface_active := 1\<rparr>\<rparr>) =
     Inl (EnvFault OutOfBounds)"
  by (rule rx_start_overruns_dma_buffer [where q = "RxNtb 0"])
    (simp_all add: ncm_ready_def ncm_zero_def pop_ntb_def NCM_NTB_N_def demo_sdk_def sink_dma_config_def
      notifier_dma_config_def)

end
