(* ===== verification/Lwip_Etharp.thy ===== *)
theory Lwip_Etharp
  imports Lwip_Ethernet
begin

text \<open>
  Address resolution (lib/lwip/src/core/ipv4/etharp.c) in the configuration of lwipopts.h: one packet per
  pending entry instead of a queue, static entries, one network interface, one cached index for the
  last table entry used.  The table is kept in the part of the state the stack has for itself.  The
  interface is the one of the firmware, so the pointer to it in a table entry is the fact that it is set; the
  functions take its contents \<open>n\<close> and its output function \<open>lo\<close>.  Statistics are left out.
\<close>

section \<open>Data\<close>

definition ARP_TABLE_SIZE :: nat where "ARP_TABLE_SIZE = 10"
definition ARP_MAXAGE :: u16 where "ARP_MAXAGE = 300"
definition ARP_AGE_REREQUEST_USED_UNICAST :: u16 where "ARP_AGE_REREQUEST_USED_UNICAST = ARP_MAXAGE - 30"
definition ARP_AGE_REREQUEST_USED_BROADCAST :: u16 where "ARP_AGE_REREQUEST_USED_BROADCAST = ARP_MAXAGE - 15"
definition ARP_MAXPENDING :: u16 where "ARP_MAXPENDING = 5"
definition ETHARP_FLAG_TRY_HARD :: u8 where "ETHARP_FLAG_TRY_HARD = 1"
definition ETHARP_FLAG_FIND_ONLY :: u8 where "ETHARP_FLAG_FIND_ONLY = 2"
definition ETHARP_FLAG_STATIC_ENTRY :: u8 where "ETHARP_FLAG_STATIC_ENTRY = 4"
definition ARP_REQUEST :: u16 where "ARP_REQUEST = 1"
definition ARP_REPLY :: u16 where "ARP_REPLY = 2"
definition LWIP_IANA_HWTYPE_ETHERNET :: u16 where "LWIP_IANA_HWTYPE_ETHERNET = 1"
definition ETH_HWADDR_LEN :: nat where "ETH_HWADDR_LEN = 6"
definition SIZEOF_ETHARP_HDR :: nat where "SIZEOF_ETHARP_HDR = 28"
definition ethzero :: "u8 list" where "ethzero = [0, 0, 0, 0, 0, 0]"

lemmas arp_consts = ARP_TABLE_SIZE_def ARP_MAXAGE_def ARP_AGE_REREQUEST_USED_UNICAST_def
  ARP_AGE_REREQUEST_USED_BROADCAST_def ARP_MAXPENDING_def ETHARP_FLAG_TRY_HARD_def ETHARP_FLAG_FIND_ONLY_def
  ETHARP_FLAG_STATIC_ENTRY_def ARP_REQUEST_def ARP_REPLY_def LWIP_IANA_HWTYPE_ETHERNET_def ETH_HWADDR_LEN_def
  SIZEOF_ETHARP_HDR_def

datatype etharp_state = ETHARP_STATE_EMPTY | ETHARP_STATE_PENDING | ETHARP_STATE_STABLE
  | ETHARP_STATE_STABLE_REREQUESTING_1 | ETHARP_STATE_STABLE_REREQUESTING_2 | ETHARP_STATE_STATIC

text \<open>The code compares the states in the order of the enumeration.\<close>

primrec etharp_state_num :: "etharp_state \<Rightarrow> nat" where
  "etharp_state_num ETHARP_STATE_EMPTY = 0"
| "etharp_state_num ETHARP_STATE_PENDING = 1"
| "etharp_state_num ETHARP_STATE_STABLE = 2"
| "etharp_state_num ETHARP_STATE_STABLE_REREQUESTING_1 = 3"
| "etharp_state_num ETHARP_STATE_STABLE_REREQUESTING_2 = 4"
| "etharp_state_num ETHARP_STATE_STATIC = 5"

instantiation etharp_state :: linorder
begin

definition less_eq_etharp_state :: "etharp_state \<Rightarrow> etharp_state \<Rightarrow> bool" where
  "less_eq_etharp_state a b \<longleftrightarrow> etharp_state_num a \<le> etharp_state_num b"

definition less_etharp_state :: "etharp_state \<Rightarrow> etharp_state \<Rightarrow> bool" where
  "less_etharp_state a b \<longleftrightarrow> etharp_state_num a < etharp_state_num b"

instance
proof
  fix a b :: etharp_state
  show "a \<le> b \<Longrightarrow> b \<le> a \<Longrightarrow> a = b"
    unfolding less_eq_etharp_state_def by (cases a; cases b; simp)
qed (auto simp: less_eq_etharp_state_def less_etharp_state_def)

end

record etharp_entry =
  ae_q :: "pptr option"
  ae_ipaddr :: ip4_addr_t
  ae_netif :: bool
  ae_ethaddr :: "u8 list"
  ae_ctime :: u16
  ae_state :: etharp_state

record 'y arp_stack =
  arp_table :: "etharp_entry list"
  etharp_cached_entry :: u8
  stack_rest :: 'y

type_synonym ('h, 'y, 'k) afw = "('h, 'y arp_stack, 'k) fw"

section \<open>Access to the table\<close>

definition arp :: "('y arp_stack \<Rightarrow> 'a) \<Rightarrow> (('h, 'y, 'k) afw, 'a) act" where
  "arp f = in_world (in_net (act_gets (\<lambda>n. f (stack n))))"

definition arp_modify :: "('y arp_stack \<Rightarrow> 'y arp_stack) \<Rightarrow> (('h, 'y, 'k) afw, unit) act" where
  "arp_modify f = in_world (in_net (act_modify (stack_update f)))"

definition arp_entry :: "nat \<Rightarrow> (('h, 'y, 'k) afw, etharp_entry) act" where
  "arp_entry i =
     act_bind (arp arp_table) (\<lambda>t.
     act_bind (act_check OutOfBounds (i < length t)) (\<lambda>_. act_return (t ! i)))"

definition arp_set :: "nat \<Rightarrow> (etharp_entry \<Rightarrow> etharp_entry) \<Rightarrow> (('h, 'y, 'k) afw, unit) act" where
  "arp_set i f =
     act_bind (arp_entry i) (\<lambda>e. arp_modify (arp_table_update (\<lambda>t. t[i := f e])))"

definition ETHARP_SET_ADDRHINT :: "nat \<Rightarrow> (('h, 'y, 'k) afw, unit) act" where
  "ETHARP_SET_ADDRHINT i = arp_modify (etharp_cached_entry_update (\<lambda>_. of_nat i))"

section \<open>Kinds of addresses\<close>

definition ip4_addr_ismulticast :: "ip4_addr_t \<Rightarrow> bool" where
  "ip4_addr_ismulticast a \<longleftrightarrow> a AND PP_HTONL 0xF0000000 = PP_HTONL 0xE0000000"

definition ip4_addr_islinklocal :: "ip4_addr_t \<Rightarrow> bool" where
  "ip4_addr_islinklocal a \<longleftrightarrow> a AND PP_HTONL 0xFFFF0000 = PP_HTONL 0xA9FE0000"

definition ip4_addr_isloopback :: "ip4_addr_t \<Rightarrow> bool" where
  "ip4_addr_isloopback a \<longleftrightarrow> a AND PP_HTONL 0xFF000000 = PP_HTONL (push_bit 24 127)"

definition ip4_addr_get_byte :: "ip4_addr_t \<Rightarrow> nat \<Rightarrow> u8" where
  "ip4_addr_get_byte a i = ucast (drop_bit (8 * i) a)"

definition ip4_addr_net_eq :: "ip4_addr_t \<Rightarrow> ip4_addr_t \<Rightarrow> ip4_addr_t \<Rightarrow> bool" where
  "ip4_addr_net_eq a b nm \<longleftrightarrow> a AND nm = b AND nm"

text \<open>\<^verbatim>\<open>ip4_route\<close> of ip4.c, for the single interface.\<close>

definition ip4_route :: "ip4_addr_t \<Rightarrow> (('h, 'x, 'k) fw, netif option) act" where
  "ip4_route dest =
     act_bind (in_world (act_gets net)) (\<lambda>ns.
     let n = netif_data ns in
     act_return (if \<not> netif_default ns \<or> \<not> netif_is_up n \<or> \<not> netif_is_link_up n
         \<or> ip_addr n = IPADDR_ANY \<or> ip4_addr_isloopback dest then None else Some n))"

section \<open>Requests and replies\<close>

definition etharp_raw :: "'h mem_env \<Rightarrow> (pptr option \<Rightarrow> (('h, 'y, 'k) afw, err_t) act) \<Rightarrow>
    u8 list \<Rightarrow> u8 list \<Rightarrow> u8 list \<Rightarrow> ip4_addr_t \<Rightarrow> u8 list \<Rightarrow> ip4_addr_t \<Rightarrow> u16 \<Rightarrow> (('h, 'y, 'k) afw, err_t) act" where
  "etharp_raw E lo ethsrc_addr ethdst_addr hwsrc_addr ipsrc_addr hwdst_addr ipdst_addr opcode =
     act_bind (lw_pbuf (pbuf_alloc E PBUF_LINK (of_nat SIZEOF_ETHARP_HDR) PBUF_RAM)) (\<lambda>p.
     if p = None then act_return ERR_MEM
     else
       act_bind (lw_pbuf (pb_write p 6 (le16 (lwip_htons opcode)))) (\<lambda>_.
       act_bind (lw_pbuf (pb_write p 8 (take ETH_HWADDR_LEN hwsrc_addr))) (\<lambda>_.
       act_bind (lw_pbuf (pb_write p 18 (take ETH_HWADDR_LEN hwdst_addr))) (\<lambda>_.
       act_bind (lw_pbuf (pb_write p 14 (le32 ipsrc_addr))) (\<lambda>_.
       act_bind (lw_pbuf (pb_write p 24 (le32 ipdst_addr))) (\<lambda>_.
       act_bind (lw_pbuf (pb_write p 0 (le16 (PP_HTONS LWIP_IANA_HWTYPE_ETHERNET)))) (\<lambda>_.
       act_bind (lw_pbuf (pb_write p 2 (le16 (PP_HTONS ETHTYPE_IP)))) (\<lambda>_.
       act_bind (lw_pbuf (pb_write p 4 [of_nat ETH_HWADDR_LEN])) (\<lambda>_.
       act_bind (lw_pbuf (pb_write p 5 [4])) (\<lambda>_.
       act_bind (ethernet_output lo p ethsrc_addr ethdst_addr ETHTYPE_ARP) (\<lambda>_.
       act_bind (lw_pbuf (pbuf_free E p)) (\<lambda>_.
       act_return ERR_OK))))))))))))"

definition etharp_request_dst :: "'h mem_env \<Rightarrow> (pptr option \<Rightarrow> (('h, 'y, 'k) afw, err_t) act) \<Rightarrow> netif \<Rightarrow>
    ip4_addr_t \<Rightarrow> u8 list \<Rightarrow> (('h, 'y, 'k) afw, err_t) act" where
  "etharp_request_dst E lo n ipaddr hw_dst_addr =
     etharp_raw E lo (hwaddr n) hw_dst_addr (hwaddr n) (ip_addr n) ethzero ipaddr ARP_REQUEST"

definition etharp_request :: "'h mem_env \<Rightarrow> (pptr option \<Rightarrow> (('h, 'y, 'k) afw, err_t) act) \<Rightarrow> netif \<Rightarrow>
    ip4_addr_t \<Rightarrow> (('h, 'y, 'k) afw, err_t) act" where
  "etharp_request E lo n ipaddr = etharp_request_dst E lo n ipaddr ethbroadcast"

section \<open>Table entries\<close>

definition etharp_free_entry :: "'h mem_env \<Rightarrow> nat \<Rightarrow> (('h, 'y, 'k) afw, unit) act" where
  "etharp_free_entry E i =
     act_bind (arp_entry i) (\<lambda>e.
     act_bind (if ae_q e \<noteq> None then
                 act_bind (lw_pbuf (pbuf_free E (ae_q e))) (\<lambda>_. arp_set i (ae_q_update (\<lambda>_. None)))
               else act_return ()) (\<lambda>_.
     arp_set i (ae_state_update (\<lambda>_. ETHARP_STATE_EMPTY))))"

text \<open>
  The sweep of \<^verbatim>\<open>etharp_find_entry\<close> over the table, from index \<open>i\<close> on: it ends at the first match
  (\<open>Inl\<close>) or with the candidates for a new entry (\<open>Inr\<close>), each \<^const>\<open>ARP_TABLE_SIZE\<close> when there is none.
\<close>

record arp_scan =
  old_pending :: nat
  old_stable :: nat
  sc_empty :: nat
  old_queue :: nat
  age_queue :: u16
  age_pending :: u16
  age_stable :: u16

definition scan_start :: arp_scan where
  "scan_start = \<lparr>old_pending = ARP_TABLE_SIZE, old_stable = ARP_TABLE_SIZE, sc_empty = ARP_TABLE_SIZE,
     old_queue = ARP_TABLE_SIZE, age_queue = 0, age_pending = 0, age_stable = 0\<rparr>"

definition scan_entry :: "nat \<Rightarrow> etharp_entry \<Rightarrow> arp_scan \<Rightarrow> arp_scan" where
  "scan_entry i e c =
     (if sc_empty c = ARP_TABLE_SIZE \<and> ae_state e = ETHARP_STATE_EMPTY then c\<lparr>sc_empty := i\<rparr>
      else if ae_state e \<noteq> ETHARP_STATE_EMPTY then
        if ae_state e = ETHARP_STATE_PENDING then
          if ae_q e \<noteq> None then
            if age_queue c \<le> ae_ctime e then c\<lparr>old_queue := i, age_queue := ae_ctime e\<rparr> else c
          else if age_pending c \<le> ae_ctime e then c\<lparr>old_pending := i, age_pending := ae_ctime e\<rparr> else c
        else if ETHARP_STATE_STABLE \<le> ae_state e \<and> ae_state e < ETHARP_STATE_STATIC then
          if age_stable c \<le> ae_ctime e then c\<lparr>old_stable := i, age_stable := ae_ctime e\<rparr> else c
        else c
      else c)"

definition entry_matches :: "ip4_addr_t option \<Rightarrow> etharp_entry \<Rightarrow> bool" where
  "entry_matches ipaddr e \<longleftrightarrow> ae_state e \<noteq> ETHARP_STATE_EMPTY \<and> ipaddr = Some (ae_ipaddr e)"

fun arp_sweep :: "ip4_addr_t option \<Rightarrow> nat \<Rightarrow> etharp_entry list \<Rightarrow> arp_scan \<Rightarrow> nat + arp_scan" where
  "arp_sweep ipaddr i [] c = Inr c"
| "arp_sweep ipaddr i (e # es) c =
     (if entry_matches ipaddr e then Inl i else arp_sweep ipaddr (i + 1) es (scan_entry i e c))"

text \<open>The choice of the entry to recycle when none is empty.\<close>

definition recycle_choice :: "arp_scan \<Rightarrow> nat option" where
  "recycle_choice c =
     (if old_stable c < ARP_TABLE_SIZE then Some (old_stable c)
      else if old_pending c < ARP_TABLE_SIZE then Some (old_pending c)
      else if old_queue c < ARP_TABLE_SIZE then Some (old_queue c)
      else None)"

definition etharp_find_entry :: "'h mem_env \<Rightarrow> ip4_addr_t option \<Rightarrow> u8 \<Rightarrow> (('h, 'y, 'k) afw, err_t + nat) act" where
  "etharp_find_entry E ipaddr flags =
     (let fresh = (\<lambda>i. act_bind (arp_set i (\<lambda>e. e\<lparr>ae_ipaddr := (case ipaddr of None \<Rightarrow> ae_ipaddr e | Some a \<Rightarrow> a),
            ae_ctime := 0\<rparr>)) (\<lambda>_. act_return (Inr i))) in
      act_bind (arp arp_table) (\<lambda>t.
      case arp_sweep ipaddr 0 t scan_start of
        Inl i \<Rightarrow> act_return (Inr i)
      | Inr c \<Rightarrow>
          if flags AND ETHARP_FLAG_FIND_ONLY \<noteq> 0
             \<or> sc_empty c = ARP_TABLE_SIZE \<and> flags AND ETHARP_FLAG_TRY_HARD = 0
          then act_return (Inl ERR_MEM)
          else if sc_empty c < ARP_TABLE_SIZE then fresh (sc_empty c)
          else
            case recycle_choice c of
              None \<Rightarrow> act_return (Inl ERR_MEM)
            | Some i \<Rightarrow> act_bind (etharp_free_entry E i) (\<lambda>_. fresh i)))"

definition etharp_update_arp_entry :: "'h mem_env \<Rightarrow> (pptr option \<Rightarrow> (('h, 'y, 'k) afw, err_t) act) \<Rightarrow> netif \<Rightarrow>
    ip4_addr_t \<Rightarrow> u8 list \<Rightarrow> u8 \<Rightarrow> (('h, 'y, 'k) afw, err_t) act" where
  "etharp_update_arp_entry E lo n ipaddr ethaddr flags =
     (if ipaddr = IPADDR_ANY \<or> ip4_addr_isbroadcast_u32 ipaddr n \<or> ip4_addr_ismulticast ipaddr
      then act_return ERR_ARG
      else
        act_bind (etharp_find_entry E (Some ipaddr) flags) (\<lambda>r.
        case r of
          Inl err \<Rightarrow> act_return err
        | Inr i \<Rightarrow>
            act_bind (arp_entry i) (\<lambda>e.
            if flags AND ETHARP_FLAG_STATIC_ENTRY = 0 \<and> ae_state e = ETHARP_STATE_STATIC then act_return ERR_VAL
            else
              act_bind (arp_set i (ae_state_update (\<lambda>_.
                if flags AND ETHARP_FLAG_STATIC_ENTRY \<noteq> 0 then ETHARP_STATE_STATIC else ETHARP_STATE_STABLE))) (\<lambda>_.
              act_bind (arp_set i (\<lambda>e. e\<lparr>ae_netif := True, ae_ethaddr := take ETH_HWADDR_LEN ethaddr,
                ae_ctime := 0\<rparr>)) (\<lambda>_.
              act_bind (arp_entry i) (\<lambda>e.
              act_bind (if ae_q e \<noteq> None then
                          act_bind (arp_set i (ae_q_update (\<lambda>_. None))) (\<lambda>_.
                          act_bind (ethernet_output lo (ae_q e) (hwaddr n) ethaddr ETHTYPE_IP) (\<lambda>_.
                          act_bind (lw_pbuf (pbuf_free E (ae_q e))) (\<lambda>_. act_return ())))
                        else act_return ()) (\<lambda>_.
              act_return ERR_OK)))))))"

definition etharp_add_static_entry :: "'h mem_env \<Rightarrow> (pptr option \<Rightarrow> (('h, 'y, 'k) afw, err_t) act) \<Rightarrow>
    ip4_addr_t \<Rightarrow> u8 list \<Rightarrow> (('h, 'y, 'k) afw, err_t) act" where
  "etharp_add_static_entry E lo ipaddr ethaddr =
     act_bind (ip4_route ipaddr) (\<lambda>nif.
     case nif of
       None \<Rightarrow> act_return ERR_RTE
     | Some n \<Rightarrow> etharp_update_arp_entry E lo n ipaddr ethaddr (ETHARP_FLAG_TRY_HARD OR ETHARP_FLAG_STATIC_ENTRY))"

definition etharp_remove_static_entry :: "'h mem_env \<Rightarrow> ip4_addr_t \<Rightarrow> (('h, 'y, 'k) afw, err_t) act" where
  "etharp_remove_static_entry E ipaddr =
     act_bind (etharp_find_entry E (Some ipaddr) ETHARP_FLAG_FIND_ONLY) (\<lambda>r.
     case r of
       Inl err \<Rightarrow> act_return err
     | Inr i \<Rightarrow>
         act_bind (arp_entry i) (\<lambda>e.
         if ae_state e \<noteq> ETHARP_STATE_STATIC then act_return ERR_ARG
         else act_bind (etharp_free_entry E i) (\<lambda>_. act_return ERR_OK)))"

fun for_entries :: "nat list \<Rightarrow> (nat \<Rightarrow> ('s, unit) act) \<Rightarrow> ('s, unit) act" where
  "for_entries [] f = act_return ()"
| "for_entries (i # is) f = act_bind (f i) (\<lambda>_. for_entries is f)"

definition etharp_cleanup_netif :: "'h mem_env \<Rightarrow> (('h, 'y, 'k) afw, unit) act" where
  "etharp_cleanup_netif E =
     for_entries [0..<ARP_TABLE_SIZE] (\<lambda>i.
       act_bind (arp_entry i) (\<lambda>e.
       if ae_state e \<noteq> ETHARP_STATE_EMPTY \<and> ae_netif e then etharp_free_entry E i else act_return ()))"

text \<open>The index, the hardware and the protocol address of a resolved entry; \<open>None\<close> is the result -1.\<close>

definition etharp_find_addr :: "'h mem_env \<Rightarrow> ip4_addr_t \<Rightarrow> (('h, 'y, 'k) afw, (nat \<times> u8 list \<times> ip4_addr_t) option) act" where
  "etharp_find_addr E ipaddr =
     act_bind (etharp_find_entry E (Some ipaddr) ETHARP_FLAG_FIND_ONLY) (\<lambda>r.
     case r of
       Inl _ \<Rightarrow> act_return None
     | Inr i \<Rightarrow>
         act_bind (arp_entry i) (\<lambda>e.
         act_return (if ETHARP_STATE_STABLE \<le> ae_state e then Some (i, ae_ethaddr e, ae_ipaddr e) else None)))"

definition etharp_get_entry :: "nat \<Rightarrow> (('h, 'y, 'k) afw, (ip4_addr_t \<times> bool \<times> u8 list) option) act" where
  "etharp_get_entry i =
     (if i < ARP_TABLE_SIZE then
        act_bind (arp_entry i) (\<lambda>e.
        act_return (if ETHARP_STATE_STABLE \<le> ae_state e then Some (ae_ipaddr e, ae_netif e, ae_ethaddr e) else None))
      else act_return None)"

section \<open>The timer\<close>

definition tmr_entry :: "'h mem_env \<Rightarrow> (pptr option \<Rightarrow> (('h, 'y, 'k) afw, err_t) act) \<Rightarrow> netif \<Rightarrow> nat \<Rightarrow>
    (('h, 'y, 'k) afw, unit) act" where
  "tmr_entry E lo n i =
     act_bind (arp_entry i) (\<lambda>e.
     if ae_state e \<noteq> ETHARP_STATE_EMPTY \<and> ae_state e \<noteq> ETHARP_STATE_STATIC then
       act_bind (arp_set i (ae_ctime_update (\<lambda>c. c + 1))) (\<lambda>_.
       act_bind (arp_entry i) (\<lambda>e.
       if ARP_MAXAGE \<le> ae_ctime e \<or> ae_state e = ETHARP_STATE_PENDING \<and> ARP_MAXPENDING \<le> ae_ctime e
       then etharp_free_entry E i
       else if ae_state e = ETHARP_STATE_STABLE_REREQUESTING_1
       then arp_set i (ae_state_update (\<lambda>_. ETHARP_STATE_STABLE_REREQUESTING_2))
       else if ae_state e = ETHARP_STATE_STABLE_REREQUESTING_2
       then arp_set i (ae_state_update (\<lambda>_. ETHARP_STATE_STABLE))
       else if ae_state e = ETHARP_STATE_PENDING
       then
         act_bind (act_check NullDeref (ae_netif e)) (\<lambda>_.
         act_bind (etharp_request E lo n (ae_ipaddr e)) (\<lambda>_. act_return ()))
       else act_return ()))
     else act_return ())"

definition etharp_tmr :: "'h mem_env \<Rightarrow> (pptr option \<Rightarrow> (('h, 'y, 'k) afw, err_t) act) \<Rightarrow> netif \<Rightarrow>
    (('h, 'y, 'k) afw, unit) act" where
  "etharp_tmr E lo n = for_entries [0..<ARP_TABLE_SIZE] (tmr_entry E lo n)"

section \<open>Output\<close>

definition etharp_output_to_arp_index :: "'h mem_env \<Rightarrow> (pptr option \<Rightarrow> (('h, 'y, 'k) afw, err_t) act) \<Rightarrow> netif \<Rightarrow>
    pptr option \<Rightarrow> nat \<Rightarrow> (('h, 'y, 'k) afw, err_t) act" where
  "etharp_output_to_arp_index E lo n q arp_idx =
     (let rerequesting = (\<lambda>r. if r = ERR_OK
            then arp_set arp_idx (ae_state_update (\<lambda>_. ETHARP_STATE_STABLE_REREQUESTING_1)) else act_return ()) in
      act_bind (arp_entry arp_idx) (\<lambda>e.
      act_bind
        (if ae_state e = ETHARP_STATE_STABLE then
           if ARP_AGE_REREQUEST_USED_BROADCAST \<le> ae_ctime e then
             act_bind (etharp_request E lo n (ae_ipaddr e)) rerequesting
           else if ARP_AGE_REREQUEST_USED_UNICAST \<le> ae_ctime e then
             act_bind (etharp_request_dst E lo n (ae_ipaddr e) (ae_ethaddr e)) rerequesting
           else act_return ()
         else act_return ()) (\<lambda>_.
      ethernet_output lo q (hwaddr n) (ae_ethaddr e) ETHTYPE_IP)))"

text \<open>Whether a buffer of the packet refers to memory that may change (\<^verbatim>\<open>PBUF_NEEDS_COPY\<close>).\<close>

fun copy_needed :: "nat \<Rightarrow> pptr option \<Rightarrow> ('h pbuf_sys, bool) act" where
  "copy_needed 0 p = act_fail NoReturn"
| "copy_needed (Suc fuel) p =
     (if p = None then act_return False
      else
        act_bind (pb_get p) (\<lambda>b.
        if ucast (pb_type_internal b) AND PBUF_TYPE_FLAG_DATA_VOLATILE \<noteq> 0 then act_return True
        else copy_needed fuel (pb_next b)))"

text \<open>Taking over a packet: a copy, or one more reference to it.\<close>

definition take_over :: "'h mem_env \<Rightarrow> pptr option \<Rightarrow> ('h pbuf_sys, pptr option) act" where
  "take_over E q =
     act_bind (copy_needed chain_fuel q) (\<lambda>needed.
     if needed then pbuf_clone E PBUF_LINK PBUF_RAM q
     else act_bind (pbuf_ref q) (\<lambda>_. act_return q))"

text \<open>
  \<^verbatim>\<open>etharp_query\<close> in two steps on the entry it found: asking for the address, when the entry is new or no
  packet is given, and sending or holding back the packet.
\<close>

definition query_resolve :: "'h mem_env \<Rightarrow> (pptr option \<Rightarrow> (('h, 'y, 'k) afw, err_t) act) \<Rightarrow> netif \<Rightarrow>
    ip4_addr_t \<Rightarrow> pptr option \<Rightarrow> nat \<Rightarrow> (('h, 'y, 'k) afw, err_t) act" where
  "query_resolve E lo n ipaddr q i =
     act_bind (arp_entry i) (\<lambda>e.
     let is_new_entry = (ae_state e = ETHARP_STATE_EMPTY) in
     act_bind (if is_new_entry
               then arp_set i (\<lambda>e. e\<lparr>ae_state := ETHARP_STATE_PENDING, ae_netif := True\<rparr>)
               else act_return ()) (\<lambda>_.
     if is_new_entry \<or> q = None then
       act_bind (etharp_request E lo n ipaddr) (\<lambda>result.
       act_bind (arp_entry i) (\<lambda>e.
       act_bind (if result = ERR_OK \<and> ae_state e = ETHARP_STATE_PENDING \<and> \<not> is_new_entry
                 then arp_set i (ae_ctime_update (\<lambda>_. 0)) else act_return ()) (\<lambda>_.
       act_return result)))
     else act_return ERR_MEM))"

definition query_deliver :: "'h mem_env \<Rightarrow> (pptr option \<Rightarrow> (('h, 'y, 'k) afw, err_t) act) \<Rightarrow> netif \<Rightarrow>
    pptr option \<Rightarrow> nat \<Rightarrow> err_t \<Rightarrow> (('h, 'y, 'k) afw, err_t) act" where
  "query_deliver E lo n q i result =
     act_bind (arp_entry i) (\<lambda>e.
     if ETHARP_STATE_STABLE \<le> ae_state e then
       act_bind (ETHARP_SET_ADDRHINT i) (\<lambda>_.
       ethernet_output lo q (hwaddr n) (ae_ethaddr e) ETHTYPE_IP)
     else if ae_state e = ETHARP_STATE_PENDING then
       act_bind (lw_pbuf (take_over E q)) (\<lambda>p.
       if p \<noteq> None then
         act_bind (if ae_q e \<noteq> None then act_bind (lw_pbuf (pbuf_free E (ae_q e))) (\<lambda>_. act_return ())
                   else act_return ()) (\<lambda>_.
         act_bind (arp_set i (ae_q_update (\<lambda>_. p))) (\<lambda>_. act_return ERR_OK))
       else act_return ERR_MEM)
     else act_return result)"

definition etharp_query :: "'h mem_env \<Rightarrow> (pptr option \<Rightarrow> (('h, 'y, 'k) afw, err_t) act) \<Rightarrow> netif \<Rightarrow>
    ip4_addr_t \<Rightarrow> pptr option \<Rightarrow> (('h, 'y, 'k) afw, err_t) act" where
  "etharp_query E lo n ipaddr q =
     (if ip4_addr_isbroadcast_u32 ipaddr n \<or> ip4_addr_ismulticast ipaddr \<or> ipaddr = IPADDR_ANY
      then act_return ERR_ARG
      else
        act_bind (etharp_find_entry E (Some ipaddr) ETHARP_FLAG_TRY_HARD) (\<lambda>r.
        case r of
          Inl err \<Rightarrow> act_return err
        | Inr i \<Rightarrow>
            act_bind (query_resolve E lo n ipaddr q i) (\<lambda>result.
            if q = None then act_return result else query_deliver E lo n q i result)))"

text \<open>The group address of an IP multicast address.\<close>

definition mcast_ethaddr :: "ip4_addr_t \<Rightarrow> u8 list" where
  "mcast_ethaddr a = [0x01, 0x00, 0x5E, ip4_addr_get_byte a 1 AND 0x7F, ip4_addr_get_byte a 2, ip4_addr_get_byte a 3]"

text \<open>The search for a resolved entry in \<^verbatim>\<open>etharp_output\<close>.\<close>

fun find_stable :: "ip4_addr_t \<Rightarrow> nat \<Rightarrow> etharp_entry list \<Rightarrow> nat option" where
  "find_stable a i [] = None"
| "find_stable a i (e # es) =
     (if ETHARP_STATE_STABLE \<le> ae_state e \<and> a = ae_ipaddr e then Some i else find_stable a (i + 1) es)"

definition etharp_output_arp :: "'h mem_env \<Rightarrow> (pptr option \<Rightarrow> (('h, 'y, 'k) afw, err_t) act) \<Rightarrow> netif \<Rightarrow>
    pptr option \<Rightarrow> ip4_addr_t \<Rightarrow> (('h, 'y, 'k) afw, err_t) act" where
  "etharp_output_arp E lo n q ipaddr =
     (if ip4_addr_isbroadcast_u32 ipaddr n then ethernet_output lo q (hwaddr n) ethbroadcast ETHTYPE_IP
      else if ip4_addr_ismulticast ipaddr then ethernet_output lo q (hwaddr n) (mcast_ethaddr ipaddr) ETHTYPE_IP
      else
        let outside = (\<not> ip4_addr_net_eq ipaddr (ip_addr n) (netmask n) \<and> \<not> ip4_addr_islinklocal ipaddr);
            dst_addr = (if outside then gw n else ipaddr)
        in
        if outside \<and> gw n = IPADDR_ANY then act_return ERR_RTE
        else
          act_bind (arp etharp_cached_entry) (\<lambda>c.
          act_bind (arp_entry (unat c)) (\<lambda>e.
          if ETHARP_STATE_STABLE \<le> ae_state e \<and> dst_addr = ae_ipaddr e
          then etharp_output_to_arp_index E lo n q (unat c)
          else
            act_bind (arp arp_table) (\<lambda>t.
            case find_stable dst_addr 0 t of
              Some i \<Rightarrow> act_bind (ETHARP_SET_ADDRHINT i) (\<lambda>_. etharp_output_to_arp_index E lo n q i)
            | None \<Rightarrow> etharp_query E lo n dst_addr q))))"

section \<open>Input\<close>

text \<open>The fields of the packet are at their offsets behind the payload pointer; a field is read in bounds of
  the memory of the buffer, whatever its length field says.\<close>

definition etharp_input_arp :: "'h mem_env \<Rightarrow> (pptr option \<Rightarrow> (('h, 'y, 'k) afw, err_t) act) \<Rightarrow> netif \<Rightarrow>
    pptr option \<Rightarrow> (('h, 'y, 'k) afw, unit) act" where
  "etharp_input_arp E lo n p =
     act_bind (lw_pbuf (pb_read p 0 6)) (\<lambda>h.
     if rd16 (\<lambda>i. h ! i) 0 \<noteq> PP_HTONS LWIP_IANA_HWTYPE_ETHERNET \<or> h ! 4 \<noteq> of_nat ETH_HWADDR_LEN \<or> h ! 5 \<noteq> 4
        \<or> rd16 (\<lambda>i. h ! i) 2 \<noteq> PP_HTONS ETHTYPE_IP
     then act_bind (lw_pbuf (pbuf_free E p)) (\<lambda>_. act_return ())
     else
       act_bind (lw_pbuf (pb_read p 0 SIZEOF_ETHARP_HDR)) (\<lambda>hdr.
       let opcode = rd16 (\<lambda>i. hdr ! i) 6; shwaddr = take 6 (drop 8 hdr); sipaddr = rd32 (\<lambda>i. hdr ! i) 14;
           dipaddr = rd32 (\<lambda>i. hdr ! i) 24;
           for_us = (ip_addr n \<noteq> IPADDR_ANY \<and> dipaddr = ip_addr n);
           from_us = (ip_addr n \<noteq> IPADDR_ANY \<and> sipaddr = ip_addr n)
       in
       act_bind (etharp_update_arp_entry E lo n sipaddr shwaddr
         (if for_us then ETHARP_FLAG_TRY_HARD else ETHARP_FLAG_FIND_ONLY)) (\<lambda>_.
       act_bind (if opcode = PP_HTONS ARP_REQUEST \<and> for_us \<and> \<not> from_us then
                   act_bind (etharp_raw E lo (hwaddr n) shwaddr (hwaddr n) (ip_addr n) shwaddr sipaddr ARP_REPLY) (\<lambda>_.
                   act_return ())
                 else act_return ()) (\<lambda>_.
       act_bind (lw_pbuf (pbuf_free E p)) (\<lambda>_. act_return ())))))"

end
