(* ===== verification/Lwip_ArpTable.thy ===== *)
theory Lwip_ArpTable
  imports Lwip_Etharp Fx3_Machine
begin

text \<open>
  The ARP table as a map from addresses to resolved entries: its invariant, the choice of an entry to
  recycle, and a calculus for what an operation does to the table.  The output function of the interface
  is a parameter that leaves the table alone (the locale \<open>arp_link\<close>), as the application's does.
\<close>

section \<open>The sweep over the table\<close>

abbreviation dyn_stable :: "etharp_state \<Rightarrow> bool" where
  "dyn_stable st \<equiv> ETHARP_STATE_STABLE \<le> st \<and> st < ETHARP_STATE_STATIC"

lemma state_order [simp]:
  "\<not> ETHARP_STATE_STABLE \<le> ETHARP_STATE_EMPTY" "\<not> ETHARP_STATE_STABLE \<le> ETHARP_STATE_PENDING"
  "ETHARP_STATE_STABLE \<le> ETHARP_STATE_STABLE" "ETHARP_STATE_STABLE \<le> ETHARP_STATE_STABLE_REREQUESTING_1"
  "ETHARP_STATE_STABLE \<le> ETHARP_STATE_STABLE_REREQUESTING_2" "ETHARP_STATE_STABLE \<le> ETHARP_STATE_STATIC"
  "\<not> ETHARP_STATE_STATIC < ETHARP_STATE_STATIC" "ETHARP_STATE_STABLE < ETHARP_STATE_STATIC"
  "ETHARP_STATE_EMPTY < ETHARP_STATE_STATIC" "ETHARP_STATE_PENDING < ETHARP_STATE_STATIC"
  "ETHARP_STATE_STABLE_REREQUESTING_1 < ETHARP_STATE_STATIC" "ETHARP_STATE_STABLE_REREQUESTING_2 < ETHARP_STATE_STATIC"
  by (simp_all add: less_eq_etharp_state_def less_etharp_state_def)

lemma state_cases:
  obtains "st = ETHARP_STATE_EMPTY" | "st = ETHARP_STATE_PENDING" | "dyn_stable st" | "st = ETHARP_STATE_STATIC"
  by (cases st) auto

text \<open>
  A candidate of the sweep is an entry of its kind, at least as old as every other one of that kind; there is
  none only if the table has none.
\<close>

definition oldest :: "(etharp_entry \<Rightarrow> bool) \<Rightarrow> etharp_entry list \<Rightarrow> nat \<Rightarrow> u16 \<Rightarrow> bool" where
  "oldest P t i age \<longleftrightarrow>
     (if i < ARP_TABLE_SIZE
      then i < length t \<and> P (t ! i) \<and> ae_ctime (t ! i) = age \<and> (\<forall>e \<in> set t. P e \<longrightarrow> ae_ctime e \<le> age)
      else i = ARP_TABLE_SIZE \<and> age = 0 \<and> (\<forall>e \<in> set t. \<not> P e))"

definition is_stable :: "etharp_entry \<Rightarrow> bool" where "is_stable e \<longleftrightarrow> dyn_stable (ae_state e)"
definition is_pending :: "etharp_entry \<Rightarrow> bool" where
  "is_pending e \<longleftrightarrow> ae_state e = ETHARP_STATE_PENDING \<and> ae_q e = None"
definition is_queued :: "etharp_entry \<Rightarrow> bool" where
  "is_queued e \<longleftrightarrow> ae_state e = ETHARP_STATE_PENDING \<and> ae_q e \<noteq> None"

definition sweep_ok :: "etharp_entry list \<Rightarrow> arp_scan \<Rightarrow> bool" where
  "sweep_ok t c \<longleftrightarrow> oldest is_stable t (old_stable c) (age_stable c)
     \<and> oldest is_pending t (old_pending c) (age_pending c) \<and> oldest is_queued t (old_queue c) (age_queue c)
     \<and> (if sc_empty c < ARP_TABLE_SIZE then sc_empty c < length t \<and> ae_state (t ! sc_empty c) = ETHARP_STATE_EMPTY
        else sc_empty c = ARP_TABLE_SIZE \<and> (\<forall>e \<in> set t. ae_state e \<noteq> ETHARP_STATE_EMPTY))"

lemma oldest_step:
  assumes "oldest P t i age" "length t < ARP_TABLE_SIZE"
  shows "oldest P (t @ [e]) (if P e \<and> age \<le> ae_ctime e then length t else i)
    (if P e \<and> age \<le> ae_ctime e then ae_ctime e else age)"
  using assms by (auto simp: oldest_def nth_append split: if_splits)

lemma scan_start_ok: "sweep_ok [] scan_start"
  by (simp add: sweep_ok_def scan_start_def oldest_def)

lemma scan_entry_fields:
  shows "old_stable (scan_entry i e c) = (if is_stable e \<and> age_stable c \<le> ae_ctime e then i else old_stable c)"
    and "age_stable (scan_entry i e c) = (if is_stable e \<and> age_stable c \<le> ae_ctime e then ae_ctime e else age_stable c)"
    and "old_pending (scan_entry i e c) = (if is_pending e \<and> age_pending c \<le> ae_ctime e then i else old_pending c)"
    and "age_pending (scan_entry i e c) = (if is_pending e \<and> age_pending c \<le> ae_ctime e then ae_ctime e else age_pending c)"
    and "old_queue (scan_entry i e c) = (if is_queued e \<and> age_queue c \<le> ae_ctime e then i else old_queue c)"
    and "age_queue (scan_entry i e c) = (if is_queued e \<and> age_queue c \<le> ae_ctime e then ae_ctime e else age_queue c)"
    and "sc_empty (scan_entry i e c) =
      (if sc_empty c = ARP_TABLE_SIZE \<and> ae_state e = ETHARP_STATE_EMPTY then i else sc_empty c)"
  by (cases "ae_state e"; simp add: scan_entry_def is_stable_def is_pending_def is_queued_def)+

lemma scan_entry_ok:
  assumes "sweep_ok t c" "length t < ARP_TABLE_SIZE"
  shows "sweep_ok (t @ [e]) (scan_entry (length t) e c)"
  using assms unfolding sweep_ok_def scan_entry_fields
  by (intro conjI oldest_step) (auto simp: nth_append split: if_splits)

lemma arp_sweep_spec:
  assumes "sweep_ok t c" "length t + length es \<le> ARP_TABLE_SIZE"
  shows "case arp_sweep ip (length t) es c of
      Inl j \<Rightarrow> length t \<le> j \<and> j < length t + length es \<and> entry_matches ip ((t @ es) ! j)
    | Inr c' \<Rightarrow> sweep_ok (t @ es) c' \<and> (\<forall>e \<in> set es. \<not> entry_matches ip e)"
  using assms
proof (induction es arbitrary: t c)
  case Nil
  then show ?case by simp
next
  case (Cons e es)
  then have "sweep_ok (t @ [e]) (scan_entry (length t) e c)" by (intro scan_entry_ok) auto
  from Cons.IH [OF this] Cons.prems(2) show ?case
    by (auto simp: nth_append split: sum.splits)
qed

lemma arp_sweep_table:
  assumes "length t = ARP_TABLE_SIZE"
  shows "case arp_sweep ip 0 t scan_start of
      Inl j \<Rightarrow> j < ARP_TABLE_SIZE \<and> entry_matches ip (t ! j)
    | Inr c \<Rightarrow> sweep_ok t c \<and> (\<forall>e \<in> set t. \<not> entry_matches ip e)"
  using arp_sweep_spec [OF scan_start_ok, of t ip] assms by (simp split: sum.splits)

text \<open>What \<^const>\<open>recycle_choice\<close> takes, and that it only fails on a table of static entries.\<close>

lemma recycle_choice_spec:
  assumes "sweep_ok t c" "sc_empty c = ARP_TABLE_SIZE"
  shows "case recycle_choice c of
      None \<Rightarrow> \<forall>e \<in> set t. ae_state e = ETHARP_STATE_STATIC
    | Some i \<Rightarrow> i < length t \<and> ae_state (t ! i) \<noteq> ETHARP_STATE_STATIC \<and> ae_state (t ! i) \<noteq> ETHARP_STATE_EMPTY"
proof -
  have "ae_state e = ETHARP_STATE_STATIC \<or> is_stable e \<or> is_pending e \<or> is_queued e" if "e \<in> set t" for e
    using that assms by (cases rule: state_cases [of "ae_state e"])
      (auto simp: sweep_ok_def is_stable_def is_pending_def is_queued_def)
  then show ?thesis using assms
    by (fastforce simp: recycle_choice_def sweep_ok_def oldest_def is_stable_def is_pending_def is_queued_def
        split: if_splits)
qed

section \<open>Effects on the table\<close>

abbreviation astk :: "('h, 'y, 'k) afw \<Rightarrow> 'y arp_stack" where
  "astk s \<equiv> stack (net (world s))"

text \<open>\<open>awlp m Q a\<close>: from any state whose ARP part is \<open>a\<close>, \<open>m\<close> only returns with a result and an ARP part that
  satisfy \<open>Q\<close>.\<close>

definition awlp :: "(('h, 'y, 'k) afw, 'a) act \<Rightarrow> ('a \<Rightarrow> 'y arp_stack \<Rightarrow> bool) \<Rightarrow> 'y arp_stack \<Rightarrow> bool" where
  "awlp m Q a \<longleftrightarrow> (\<forall>s. astk s = a \<longrightarrow> wlp m (\<lambda>r s'. Q r (astk s')) s)"

definition tset :: "nat \<Rightarrow> (etharp_entry \<Rightarrow> etharp_entry) \<Rightarrow> 'y arp_stack \<Rightarrow> 'y arp_stack" where
  "tset i f a = a\<lparr>arp_table := (arp_table a)[i := f (arp_table a ! i)]\<rparr>"

lemma tset_fields [simp]:
  "length (arp_table (tset i f a)) = length (arp_table a)"
  "i < length (arp_table a) \<Longrightarrow> arp_table (tset i f a) ! i = f (arp_table a ! i)"
  "j \<noteq> i \<Longrightarrow> arp_table (tset i f a) ! j = arp_table a ! j"
  "etharp_cached_entry (tset i f a) = etharp_cached_entry a"
  "stack_rest (tset i f a) = stack_rest a"
  by (simp_all add: tset_def)

lemma tset_tset: "i < length (arp_table a) \<Longrightarrow> tset i g (tset i f a) = tset i (\<lambda>e. g (f e)) a"
  by (simp add: tset_def)

lemma awlpD: "awlp m Q (astk s) \<Longrightarrow> m s = Inr (r, s') \<Longrightarrow> Q r (astk s')"
  by (auto simp: awlp_def wpx_def dest: spec [of _ s])

lemma awlp_mono: "awlp m Q a \<Longrightarrow> (\<And>r a'. Q r a' \<Longrightarrow> R r a') \<Longrightarrow> awlp m R a"
  by (auto simp: awlp_def intro: wpx_mono)

lemma awlp_return: "Q x a \<Longrightarrow> awlp (act_return x) Q a"
  by (simp add: awlp_def)

lemma awlp_fail: "awlp (act_fail e) Q a"
  by (simp add: awlp_def)

lemma awlp_check: "(b \<Longrightarrow> Q () a) \<Longrightarrow> awlp (act_check e b) Q a"
  by (simp add: awlp_def)

lemma awlp_if: "(b \<Longrightarrow> awlp m Q a) \<Longrightarrow> (\<not> b \<Longrightarrow> awlp n Q a) \<Longrightarrow> awlp (if b then m else n) Q a"
  by simp

lemma awlp_option: "(x = None \<Longrightarrow> awlp m Q a) \<Longrightarrow> (\<And>y. x = Some y \<Longrightarrow> awlp (k y) Q a) \<Longrightarrow>
    awlp (case x of None \<Rightarrow> m | Some y \<Rightarrow> k y) Q a"
  by (simp split: option.split)

lemma awlp_sum: "(\<And>y. x = Inl y \<Longrightarrow> awlp (f y) Q a) \<Longrightarrow> (\<And>y. x = Inr y \<Longrightarrow> awlp (g y) Q a) \<Longrightarrow>
    awlp (case x of Inl y \<Rightarrow> f y | Inr y \<Rightarrow> g y) Q a"
  by (simp split: sum.split)

lemma awlp_bind: "awlp m (\<lambda>x. awlp (f x) Q) a \<Longrightarrow> awlp (act_bind m f) Q a"
  unfolding awlp_def wpx_bind by (blast intro: wpx_mono)

lemma awlp_arp: "Q (f a) a \<Longrightarrow> awlp (arp f) Q a"
  by (simp add: awlp_def arp_def)

lemma awlp_modify: "Q () (f a) \<Longrightarrow> awlp (arp_modify f) Q a"
  by (simp add: awlp_def arp_modify_def)

lemma awlp_entry: "(i < length (arp_table a) \<Longrightarrow> Q (arp_table a ! i) a) \<Longrightarrow> awlp (arp_entry i) Q a"
  unfolding arp_entry_def by (intro awlp_bind awlp_arp awlp_check awlp_return)

lemma awlp_set: "(i < length (arp_table a) \<Longrightarrow> Q () (tset i f a)) \<Longrightarrow> awlp (arp_set i f) Q a"
  unfolding arp_set_def tset_def by (intro awlp_bind awlp_entry awlp_modify) (cases a, simp)

lemma awlp_hint: "Q () (a\<lparr>etharp_cached_entry := of_nat i\<rparr>) \<Longrightarrow> awlp (ETHARP_SET_ADDRHINT i) Q a"
  unfolding ETHARP_SET_ADDRHINT_def by (rule awlp_modify) simp

lemma awlp_pbuf: "(\<And>r. Q r a) \<Longrightarrow> awlp (lw_pbuf m) Q a"
  by (simp add: awlp_def lw_pbuf_def wlp_any)

lemma awlp_route: "(\<And>r. Q r a) \<Longrightarrow> awlp (ip4_route ip) Q a"
  by (simp add: awlp_def ip4_route_def Let_def)

lemmas awlp_rules = awlp_return awlp_fail awlp_check awlp_if awlp_option awlp_sum awlp_bind awlp_arp awlp_modify
  awlp_entry awlp_set awlp_hint awlp_pbuf awlp_route

lemma awlp_for:
  assumes "\<And>i a. I a \<Longrightarrow> awlp (f i) (\<lambda>_. I) a"
  shows "I a \<Longrightarrow> awlp (for_entries is f) (\<lambda>_. I) a"
  by (induction "is" arbitrary: a) (auto intro!: awlp_rules awlp_mono [OF assms])

lemma awlp_free_entry:
  "(i < length (arp_table a) \<Longrightarrow> Q () (tset i (\<lambda>e. e\<lparr>ae_q := None, ae_state := ETHARP_STATE_EMPTY\<rparr>) a)) \<Longrightarrow>
   awlp (etharp_free_entry E i) Q a"
  unfolding etharp_free_entry_def
  by (intro awlp_rules; cases "arp_table a ! i") (auto simp: tset_def)

section \<open>The invariant of the table\<close>

text \<open>
  Ten entries; the cached index is one of them; only a pending entry holds back a packet; an entry in use
  knows its interface, a resolved one a hardware address, and a dynamic one is not older than its kind may
  get; no two entries in use are for one address.
\<close>

definition entry_ok :: "etharp_entry \<Rightarrow> bool" where
  "entry_ok e \<longleftrightarrow> (ae_q e \<noteq> None \<longrightarrow> ae_state e = ETHARP_STATE_PENDING) \<and> (ae_state e \<noteq> ETHARP_STATE_EMPTY \<longrightarrow> ae_netif e)
     \<and> (ETHARP_STATE_STABLE \<le> ae_state e \<longrightarrow> length (ae_ethaddr e) = ETH_HWADDR_LEN)
     \<and> (ae_state e = ETHARP_STATE_PENDING \<longrightarrow> ae_ctime e < ARP_MAXPENDING) \<and> (dyn_stable (ae_state e) \<longrightarrow> ae_ctime e < ARP_MAXAGE)"

definition sole_at :: "etharp_entry list \<Rightarrow> nat \<Rightarrow> ip4_addr_t \<Rightarrow> bool" where
  "sole_at t i ip \<longleftrightarrow> (\<forall>j < length t. j \<noteq> i \<longrightarrow> ae_state (t ! j) \<noteq> ETHARP_STATE_EMPTY \<longrightarrow> ae_ipaddr (t ! j) \<noteq> ip)"

definition arp_inv :: "'y arp_stack \<Rightarrow> bool" where
  "arp_inv a \<longleftrightarrow> length (arp_table a) = ARP_TABLE_SIZE \<and> unat (etharp_cached_entry a) < ARP_TABLE_SIZE
     \<and> (\<forall>e \<in> set (arp_table a). entry_ok e)
     \<and> (\<forall>i < length (arp_table a). ae_state (arp_table a ! i) \<noteq> ETHARP_STATE_EMPTY \<longrightarrow>
          sole_at (arp_table a) i (ae_ipaddr (arp_table a ! i)))"

lemma age_bounds [simp]: "0 < ARP_MAXPENDING" "0 < ARP_MAXAGE"
  by (simp_all add: arp_consts)

lemma arp_invD:
  assumes "arp_inv a"
  shows "length (arp_table a) = ARP_TABLE_SIZE" "unat (etharp_cached_entry a) < length (arp_table a)"
    "i < length (arp_table a) \<Longrightarrow> entry_ok (arp_table a ! i)"
    "i < length (arp_table a) \<Longrightarrow> ae_state (arp_table a ! i) \<noteq> ETHARP_STATE_EMPTY \<Longrightarrow>
      sole_at (arp_table a) i (ae_ipaddr (arp_table a ! i))"
  using assms by (auto simp: arp_inv_def)

lemma arp_inv_tset:
  assumes "arp_inv a" "i < length (arp_table a)" "entry_ok (f (arp_table a ! i))"
    and "ae_state (f (arp_table a ! i)) \<noteq> ETHARP_STATE_EMPTY \<Longrightarrow>
      sole_at (arp_table a) i (ae_ipaddr (f (arp_table a ! i)))"
  shows "arp_inv (tset i f a)"
  using assms unfolding arp_inv_def tset_def
  by (auto simp: sole_at_def nth_list_update in_set_conv_nth split: if_splits)

lemma arp_inv_hint: "arp_inv a \<Longrightarrow> i < length (arp_table a) \<Longrightarrow> arp_inv (a\<lparr>etharp_cached_entry := of_nat i\<rparr>)"
  by (simp add: arp_inv_def arp_consts unat_of_nat_u8)

section \<open>Finding and creating an entry\<close>

text \<open>
  What \<^const>\<open>etharp_find_entry\<close> does for an address: the entry in use for it, or a fresh one in place of an
  empty or a recycled one when it may create it.
\<close>

definition find_post :: "ip4_addr_t \<Rightarrow> u8 \<Rightarrow> 'y arp_stack \<Rightarrow> err_t + nat \<Rightarrow> 'y arp_stack \<Rightarrow> bool" where
  "find_post ip flags a r a' \<longleftrightarrow>
     (case r of
        Inl err \<Rightarrow> err = ERR_MEM \<and> a' = a \<and> (\<forall>e \<in> set (arp_table a). \<not> entry_matches (Some ip) e)
          \<and> (flags AND ETHARP_FLAG_FIND_ONLY = 0 \<longrightarrow> flags AND ETHARP_FLAG_TRY_HARD \<noteq> 0 \<longrightarrow>
               (\<forall>e \<in> set (arp_table a). ae_state e = ETHARP_STATE_STATIC))
      | Inr i \<Rightarrow> i < length (arp_table a)
          \<and> (a' = a \<and> entry_matches (Some ip) (arp_table a ! i)
             \<or> flags AND ETHARP_FLAG_FIND_ONLY = 0 \<and> (\<forall>e \<in> set (arp_table a). \<not> entry_matches (Some ip) e)
               \<and> ae_state (arp_table a ! i) \<noteq> ETHARP_STATE_STATIC
               \<and> a' = tset i (\<lambda>e. e\<lparr>ae_q := None, ae_state := ETHARP_STATE_EMPTY, ae_ipaddr := ip, ae_ctime := 0\<rparr>) a))"

lemma awlp_find:
  assumes inv: "arp_inv a" and Q: "\<And>r a'. find_post ip flags a r a' \<Longrightarrow> Q r a'"
  shows "awlp (etharp_find_entry E (Some ip) flags) Q a"
proof -
  note len = arp_invD(1) [OF inv]
  have empty: "tset i (\<lambda>e. e\<lparr>ae_ipaddr := ip, ae_ctime := 0\<rparr>) a =
      tset i (\<lambda>e. e\<lparr>ae_q := None, ae_state := ETHARP_STATE_EMPTY, ae_ipaddr := ip, ae_ctime := 0\<rparr>) a"
    if "i < length (arp_table a)" "ae_state (arp_table a ! i) = ETHARP_STATE_EMPTY" for i
    using that arp_invD(3) [OF inv that(1)] by (cases "arp_table a ! i") (simp add: tset_def entry_ok_def)
  show ?thesis
  proof (cases "arp_sweep (Some ip) 0 (arp_table a) scan_start")
    case (Inl i)
    with arp_sweep_table [OF len, of "Some ip"] have "find_post ip flags a (Inr i) a"
      by (simp add: find_post_def len)
    with Inl show ?thesis unfolding etharp_find_entry_def Let_def
      by (intro awlp_bind awlp_arp) (simp add: awlp_return Q)
  next
    case (Inr c)
    with arp_sweep_table [OF len, of "Some ip"]
    have c: "sweep_ok (arp_table a) c" and none: "\<forall>e \<in> set (arp_table a). \<not> entry_matches (Some ip) e" by simp_all
    show ?thesis unfolding etharp_find_entry_def Let_def option.case
    proof (rule awlp_bind, rule awlp_arp, unfold Inr sum.case, intro awlp_rules awlp_free_entry Q)
      assume *: "flags AND ETHARP_FLAG_FIND_ONLY \<noteq> 0 \<or> sc_empty c = ARP_TABLE_SIZE \<and> flags AND ETHARP_FLAG_TRY_HARD = 0"
      then show "find_post ip flags a (Inl ERR_MEM) a" using none by (auto simp: find_post_def)
    next
      assume *: "\<not> (flags AND ETHARP_FLAG_FIND_ONLY \<noteq> 0 \<or> sc_empty c = ARP_TABLE_SIZE \<and> flags AND ETHARP_FLAG_TRY_HARD = 0)"
        "sc_empty c < ARP_TABLE_SIZE" "sc_empty c < length (arp_table a)"
      then have "ae_state (arp_table a ! sc_empty c) = ETHARP_STATE_EMPTY" using c by (simp add: sweep_ok_def)
      then show "find_post ip flags a (Inr (sc_empty c)) (tset (sc_empty c) (\<lambda>e. e\<lparr>ae_ipaddr := ip, ae_ctime := 0\<rparr>) a)"
        using * none by (simp add: find_post_def empty)
    next
      assume *: "\<not> (flags AND ETHARP_FLAG_FIND_ONLY \<noteq> 0 \<or> sc_empty c = ARP_TABLE_SIZE \<and> flags AND ETHARP_FLAG_TRY_HARD = 0)"
        "\<not> sc_empty c < ARP_TABLE_SIZE"
      then have full: "sc_empty c = ARP_TABLE_SIZE" using c by (simp add: sweep_ok_def)
      { assume "recycle_choice c = None"
        with recycle_choice_spec [OF c full] none * show "find_post ip flags a (Inl ERR_MEM) a" by (simp add: find_post_def) }
      { fix i let ?b = "tset i (\<lambda>e. e\<lparr>ae_q := None, ae_state := ETHARP_STATE_EMPTY\<rparr>) a"
        assume "recycle_choice c = Some i"
        with recycle_choice_spec [OF c full] none *
        show "find_post ip flags a (Inr i) (tset i (\<lambda>e. e\<lparr>ae_ipaddr := ip, ae_ctime := 0\<rparr>) ?b)"
          by (simp add: find_post_def tset_tset) }
    qed
  qed
qed

text \<open>Either way the invariant holds, and the entry is the only one for its address.\<close>

lemma find_post_inv:
  assumes inv: "arp_inv a" and post: "find_post ip flags a r a'"
  shows "arp_inv a'"
    and "r = Inr i \<Longrightarrow> i < length (arp_table a') \<and> ae_ipaddr (arp_table a' ! i) = ip \<and> sole_at (arp_table a') i ip
      \<and> (ae_state (arp_table a' ! i) = ETHARP_STATE_EMPTY \<longrightarrow> ae_ctime (arp_table a' ! i) = 0)"
proof -
  consider e where "r = Inl e" "a' = a"
    | j where "r = Inr j" "j < length (arp_table a)" "a' = a" "ae_state (arp_table a ! j) \<noteq> ETHARP_STATE_EMPTY"
      "ae_ipaddr (arp_table a ! j) = ip"
    | j where "r = Inr j" "j < length (arp_table a)" "\<forall>e \<in> set (arp_table a). \<not> entry_matches (Some ip) e"
      "a' = tset j (\<lambda>e. e\<lparr>ae_q := None, ae_state := ETHARP_STATE_EMPTY, ae_ipaddr := ip, ae_ctime := 0\<rparr>) a"
    using post by (cases r) (auto simp: find_post_def entry_matches_def)
  note cases = this
  show "arp_inv a'"
    using inv by (cases rule: cases) (auto simp: entry_ok_def intro!: arp_inv_tset)
  show "r = Inr i \<Longrightarrow> i < length (arp_table a') \<and> ae_ipaddr (arp_table a' ! i) = ip \<and> sole_at (arp_table a') i ip
      \<and> (ae_state (arp_table a' ! i) = ETHARP_STATE_EMPTY \<longrightarrow> ae_ctime (arp_table a' ! i) = 0)"
    using arp_invD(4) [OF inv, of i] by (cases rule: cases)
      (auto simp: sole_at_def entry_matches_def tset_def nth_list_update all_set_conv_all_nth)
qed

end
