(* ===== verification/Lwip_Arp.thy ===== *)
theory Lwip_Arp
  imports Lwip_ArpTable
begin

text \<open>
  The operations of address resolution on the table: each keeps the invariant, whatever the output function of
  the interface does, as long as it leaves the table alone.  That is the contract \<open>arp_link\<close>; the output
  function of the application, with the driver behind it, meets it.
\<close>

section \<open>An entry in use\<close>

definition used_at :: "nat \<Rightarrow> 'y arp_stack \<Rightarrow> bool" where
  "used_at i a \<longleftrightarrow> arp_inv a \<and> i < length (arp_table a) \<and> ae_state (arp_table a ! i) \<noteq> ETHARP_STATE_EMPTY"

lemma used_at_inv: "used_at i a \<Longrightarrow> arp_inv a"
  by (simp add: used_at_def)

lemma used_at_set:
  assumes "used_at i a" "entry_ok (arp_table a ! i) \<Longrightarrow> entry_ok (f (arp_table a ! i))"
    and "ae_state (f (arp_table a ! i)) \<noteq> ETHARP_STATE_EMPTY" "ae_ipaddr (f (arp_table a ! i)) = ae_ipaddr (arp_table a ! i)"
  shows "used_at i (tset i f a)"
  using assms unfolding used_at_def by (auto intro!: arp_inv_tset dest: arp_invD)

lemma awlp_cut: "awlp m R a \<Longrightarrow> (\<And>x b. R x b \<Longrightarrow> awlp (f x) Q b) \<Longrightarrow> awlp (act_bind m f) Q a"
  by (blast intro: awlp_bind awlp_mono)

lemma awlp_both: "awlp m Q a \<Longrightarrow> awlp m R a \<Longrightarrow> awlp m (\<lambda>r b. Q r b \<and> R r b) a"
  by (auto simp: awlp_def wpx_def split: sum.splits)

lemma awlp_read: "(\<And>h. length h = n \<Longrightarrow> Q h a) \<Longrightarrow> awlp (lw_pbuf (pb_read p off n)) Q a"
  by (auto simp: awlp_def lw_pbuf_def pb_read_def payload_ok_def payload_bytes_def pb_get_def
      wpx_def [of _ "pb_get p"] split: option.splits)

section \<open>Operations over an output function\<close>

locale arp_link =
  fixes lo :: "pptr option \<Rightarrow> (('h, 'y, 'k) afw, err_t) act"
  assumes lo_arp: "lo p s = Inr (r, s') \<Longrightarrow> net (world s') = net (world s)"
begin

lemma awlp_lo: "(\<And>r. Q r a) \<Longrightarrow> awlp (lo p) Q a"
  by (auto simp: awlp_def wpx_def lo_arp split: sum.split)

lemma awlp_ethernet_output: "(\<And>r. Q r a) \<Longrightarrow> awlp (ethernet_output lo p src dst ty) Q a"
  unfolding ethernet_output_def by (intro awlp_rules awlp_lo)

lemma awlp_raw: "(\<And>r. Q r a) \<Longrightarrow> awlp (etharp_raw E lo es ed hs ips hdst ipd opc) Q a"
  unfolding etharp_raw_def by (intro awlp_rules awlp_ethernet_output)

lemma awlp_request_dst: "(\<And>r. Q r a) \<Longrightarrow> awlp (etharp_request_dst E lo n ip d) Q a"
  unfolding etharp_request_dst_def by (rule awlp_raw)

lemma awlp_request: "(\<And>r. Q r a) \<Longrightarrow> awlp (etharp_request E lo n ip) Q a"
  unfolding etharp_request_def by (rule awlp_request_dst)

lemmas arp_rules = awlp_rules awlp_lo awlp_ethernet_output awlp_raw awlp_request_dst awlp_request awlp_free_entry

lemma update_keeps:
  assumes inv: "arp_inv a" and eth: "ETH_HWADDR_LEN \<le> length ethaddr"
  shows "awlp (etharp_update_arp_entry E lo n ip ethaddr flags) (\<lambda>_. arp_inv) a"
  unfolding etharp_update_arp_entry_def using eth
  by (intro arp_rules awlp_find [OF inv] inv)
    (auto dest: find_post_inv [OF inv] simp: tset_tset entry_ok_def intro!: arp_inv_tset)

lemma add_static_keeps:
  assumes "arp_inv a" "ETH_HWADDR_LEN \<le> length ethaddr"
  shows "awlp (etharp_add_static_entry E lo ip ethaddr) (\<lambda>_. arp_inv) a"
  unfolding etharp_add_static_entry_def by (intro awlp_bind awlp_route awlp_option awlp_return update_keeps assms)

lemma request_keeps: "arp_inv a \<Longrightarrow> awlp (etharp_request E lo n ip) (\<lambda>_. arp_inv) a"
  by (rule awlp_request)

lemma output_index_keeps:
  assumes inv: "arp_inv a"
  shows "awlp (etharp_output_to_arp_index E lo n q i) (\<lambda>_. arp_inv) a"
  unfolding etharp_output_to_arp_index_def Let_def using arp_invD(3,4) [OF inv, of i]
  by (intro arp_rules) (auto intro!: inv arp_inv_tset simp: entry_ok_def)

lemma resolve_keeps:
  assumes "arp_inv a" "sole_at (arp_table a) i (ae_ipaddr (arp_table a ! i))"
    and "ae_state (arp_table a ! i) = ETHARP_STATE_EMPTY \<Longrightarrow> ae_ctime (arp_table a ! i) = 0"
  shows "awlp (query_resolve E lo n ip q i) (\<lambda>_. used_at i) a"
  unfolding query_resolve_def Let_def using assms arp_invD(3) [OF assms(1), of i]
  by (intro arp_rules) (auto simp: used_at_def tset_tset entry_ok_def intro!: arp_inv_tset)

lemma deliver_keeps:
  assumes "used_at i a"
  shows "awlp (query_deliver E lo n q i r) (\<lambda>_. arp_inv) a"
  unfolding query_deliver_def using assms arp_invD(3,4) [OF used_at_inv [OF assms], of i]
  by (intro arp_rules) (auto simp: used_at_def entry_ok_def intro!: arp_inv_tset arp_inv_hint)

lemma query_keeps:
  assumes inv: "arp_inv a"
  shows "awlp (etharp_query E lo n ip q) (\<lambda>_. arp_inv) a"
  unfolding etharp_query_def
  by (intro awlp_if awlp_return awlp_sum awlp_bind [OF awlp_find [OF inv]] awlp_cut [OF resolve_keeps])
    (auto intro: inv deliver_keeps used_at_inv dest: find_post_inv [OF inv])

lemma output_keeps:
  assumes inv: "arp_inv a"
  shows "awlp (etharp_output_arp E lo n q ip) (\<lambda>_. arp_inv) a"
proof -
  have "find_stable d k t = Some i \<Longrightarrow> k \<le> i \<and> i < k + length t" for d k t i
    by (induction d k t rule: find_stable.induct) (auto split: if_splits)
  from this [of _ 0 "arp_table a"] show ?thesis
    unfolding etharp_output_arp_def Let_def
    by (intro awlp_if awlp_option awlp_bind awlp_arp awlp_entry awlp_hint awlp_return awlp_ethernet_output query_keeps
        output_index_keeps inv arp_inv_hint) auto
qed

lemma input_keeps:
  assumes inv: "arp_inv a"
  shows "awlp (etharp_input_arp E lo n p) (\<lambda>_. arp_inv) a"
  unfolding etharp_input_arp_def Let_def
  by (intro awlp_bind [OF awlp_read] awlp_if awlp_bind [OF awlp_pbuf] awlp_return inv awlp_cut [OF update_keeps [OF inv]]
      awlp_cut [where R = "\<lambda>_. arp_inv"] awlp_raw) (simp_all add: arp_consts)

lemma tmr_keeps:
  assumes inv: "arp_inv a"
  shows "awlp (etharp_tmr E lo n) (\<lambda>_. arp_inv) a"
proof -
  have step: "awlp (tmr_entry E lo n i) (\<lambda>_. arp_inv) a" if inv: "arp_inv a" for i a
    unfolding tmr_entry_def using arp_invD(3,4) [OF inv, of i]
    by (intro arp_rules) (auto simp: tset_tset entry_ok_def intro!: inv arp_inv_tset)
  show ?thesis unfolding etharp_tmr_def by (rule awlp_for [where I = arp_inv, OF step inv])
qed

end

lemma free_keeps: "arp_inv a \<Longrightarrow> awlp (etharp_free_entry E i) (\<lambda>_. arp_inv) a"
  by (intro awlp_free_entry arp_inv_tset) (auto simp: entry_ok_def)

lemma cleanup_keeps: "arp_inv a \<Longrightarrow> awlp (etharp_cleanup_netif E) (\<lambda>_. arp_inv) a"
  unfolding etharp_cleanup_netif_def by (intro awlp_for awlp_bind awlp_entry awlp_if awlp_return free_keeps)

lemma remove_static_keeps:
  assumes inv: "arp_inv a"
  shows "awlp (etharp_remove_static_entry E ip) (\<lambda>_. arp_inv) a"
  unfolding etharp_remove_static_entry_def
  by (intro awlp_bind [OF awlp_find [OF inv]] awlp_sum awlp_bind [OF awlp_entry] awlp_if awlp_return awlp_cut [OF free_keeps])
    (auto dest: find_post_inv [OF inv])

section \<open>The output function of the application\<close>

text \<open>The driver's transmit path keeps what the functions of its environment keep.\<close>

locale env_world =
  fixes E :: "('w, 'd) ncm_env" and I :: "'w \<Rightarrow> bool"
  assumes ep_world: "ik I (usb_transfer_ep E ep buf n)"
    and busy_world: "ik I (usb_ep_busy E ep)"
    and tx_cb_world: "ik I (net_tx_cb E d arg)"
begin

lemma ikw_if: "ik (\<lambda>s. I (world s)) (get_if f)"
  and ikw_read: "ik (\<lambda>s. I (world s)) (ntb_read p)"
  and ikw_modify: "ik (\<lambda>s. I (world s)) (modify_if g)"
  and ikw_list: "ik (\<lambda>s. I (world s)) (on_list sel upd m)"
  by (auto simp: ik_def intro: wlp_any)

lemma ikw_ntb: "ik (\<lambda>s. I (world s)) (ntb_modify p f)"
  by (cases p) (simp_all add: ik_def)

lemma ikw_world: "ik I m \<Longrightarrow> ik (\<lambda>s. I (world s)) (in_world m)"
  by (auto simp: ik_def intro: wpx_mono)

lemmas ikw_rules = ik_rules ikw_if ikw_read ikw_modify ikw_list ikw_ntb ikw_world ep_world busy_world tx_cb_world

lemma tx_start_world: "ik (\<lambda>s. I (world s)) (tx_try_start E)"
  unfolding tx_try_start_def by (intro ikw_rules)

lemma can_tx_world: "ik (\<lambda>s. I (world s)) (net_can_tx E sz)"
  unfolding net_can_tx_def tx_datagram_fits_user_ntb_def tx_accept_user_ntb_def by (intro ikw_rules tx_start_world)

lemma tx_world: "ik (\<lambda>s. I (world s)) (net_tx E d arg)"
  unfolding net_tx_def by (intro ikw_rules tx_start_world)

end

abbreviation net_is :: "'x netif_sys \<Rightarrow> ('h, 'x, 'k) app \<Rightarrow> bool" where
  "net_is v w \<equiv> net w = v"

lemma ikn_basic: "ik (net_is v) (in_fx3 m)" "ik (net_is v) (in_pbufs m')" "ik (net_is v) (in_sdk n)" "ik (net_is v) (sdk K r)"
  by (auto simp: ik_def intro: wlp_any)

lemma ikn_do: "ik (net_is v) (sdk_do K r)"
  unfolding sdk_do_def by (intro ik_rules ikn_basic)

lemma ikn_seq: "ik (net_is v) (sdk_seq K rs)"
  by (induction rs) (auto intro!: ik_rules ikn_do)

lemma ikn_transfer: "ik (net_is v) (usb_transfer_ep_app K ep b n)"
  unfolding usb_transfer_ep_app_def channel_get_retry_def channel_get_def channel_commit_def channel_reset_def dma_memcpy_def
  by (intro ik_rules ik_usb_buf ikn_basic ikn_do ikn_seq ik_modify; simp)

interpretation appn: env_world "app_env K L" "net_is v"
  for K :: "'k sdk" and L :: "('h, 'x, 'k) lwip" and v :: "'x netif_sys"
  by unfold_locales (auto simp: app_env_def usb_ep_busy_app_def net_tx_cb_app_def ikn_transfer intro!: ik_rules ikn_basic)

lemma link_output_net: "ik (\<lambda>s. net_is v (world s)) (link_output_app K L fuel p)"
  by (induction fuel) (auto simp: lw_pbuf_def intro!: appn.ikw_rules ikn_basic appn.can_tx_world appn.tx_world)

interpretation applink: arp_link "link_output_app K L fuel"
  for K :: "'k sdk" and L :: "('h, 'y arp_stack, 'k) lwip" and fuel :: nat
proof
  fix p s r s' assume "link_output_app K L fuel p s = Inr (r, s')"
  from ik_run [OF link_output_net [of "net (world s)"] refl this] show "net (world s') = net (world s)" .
qed

end
