(* ===== verification/Lwip_ArpProps.thy ===== *)
theory Lwip_ArpProps
  imports Lwip_Arp Fx3_AppProps
begin

text \<open>
  What address resolution guarantees: the table stays consistent over every sequence of its operations, a
  resolved address is found again, old entries go away, and output goes where the table says.
\<close>

section \<open>Sequences of operations\<close>

datatype arp_op = ArpTimer | ArpInput "pptr option" | ArpOutput "pptr option" ip4_addr_t | ArpQuery ip4_addr_t "pptr option"
  | ArpRequest ip4_addr_t | ArpAddStatic ip4_addr_t "u8 list" | ArpRemoveStatic ip4_addr_t | ArpCleanup

definition the_netif :: "(('h, 'x, 'k) fw, netif) act" where
  "the_netif = in_world (act_gets (\<lambda>w. netif_data (net w)))"

definition no_result :: "('s, 'a) act \<Rightarrow> ('s, unit) act" where
  "no_result m = act_bind m (\<lambda>_. act_return ())"

fun arp_run :: "'h mem_env \<Rightarrow> (pptr option \<Rightarrow> (('h, 'y, 'k) afw, err_t) act) \<Rightarrow> arp_op \<Rightarrow> (('h, 'y, 'k) afw, unit) act" where
  "arp_run E lo ArpTimer = act_bind the_netif (etharp_tmr E lo)"
| "arp_run E lo (ArpInput p) = act_bind the_netif (\<lambda>n. etharp_input_arp E lo n p)"
| "arp_run E lo (ArpOutput q ip) = no_result (act_bind the_netif (\<lambda>n. etharp_output_arp E lo n q ip))"
| "arp_run E lo (ArpQuery ip q) = no_result (act_bind the_netif (\<lambda>n. etharp_query E lo n ip q))"
| "arp_run E lo (ArpRequest ip) = no_result (act_bind the_netif (\<lambda>n. etharp_request E lo n ip))"
| "arp_run E lo (ArpAddStatic ip eth) = no_result (etharp_add_static_entry E lo ip eth)"
| "arp_run E lo (ArpRemoveStatic ip) = no_result (etharp_remove_static_entry E ip)"
| "arp_run E lo ArpCleanup = etharp_cleanup_netif E"

fun arp_runs :: "'h mem_env \<Rightarrow> (pptr option \<Rightarrow> (('h, 'y, 'k) afw, err_t) act) \<Rightarrow> arp_op list \<Rightarrow> (('h, 'y, 'k) afw, unit) act" where
  "arp_runs E lo [] = act_return ()"
| "arp_runs E lo (op # ops) = act_bind (arp_run E lo op) (\<lambda>_. arp_runs E lo ops)"

fun arp_op_ok :: "arp_op \<Rightarrow> bool" where
  "arp_op_ok (ArpAddStatic ip eth) \<longleftrightarrow> length eth = ETH_HWADDR_LEN"
| "arp_op_ok _ \<longleftrightarrow> True"

text \<open>The table before the first operation: the static variables are zero.\<close>

definition arp_entry_zero :: etharp_entry where
  "arp_entry_zero = \<lparr>ae_q = None, ae_ipaddr = 0, ae_netif = False, ae_ethaddr = [0, 0, 0, 0, 0, 0], ae_ctime = 0,
     ae_state = ETHARP_STATE_EMPTY\<rparr>"

definition arp_zero :: "'y \<Rightarrow> 'y arp_stack" where
  "arp_zero y = \<lparr>arp_table = replicate ARP_TABLE_SIZE arp_entry_zero, etharp_cached_entry = 0, stack_rest = y\<rparr>"

lemma arp_zero_inv: "arp_inv (arp_zero y)"
  by (simp add: arp_inv_def arp_zero_def arp_entry_zero_def entry_ok_def arp_consts)

lemma awlp_netif: "(\<And>n. Q n a) \<Longrightarrow> awlp the_netif Q a"
  by (simp add: awlp_def the_netif_def)

context arp_link
begin

lemma run_keeps: "arp_inv a \<Longrightarrow> arp_op_ok op \<Longrightarrow> awlp (arp_run E lo op) (\<lambda>_. arp_inv) a"
  by (cases op) (auto simp: no_result_def intro!: awlp_bind [OF awlp_netif] awlp_cut [where R = "\<lambda>_. arp_inv"] awlp_return
      tmr_keeps input_keeps output_keeps query_keeps request_keeps add_static_keeps remove_static_keeps cleanup_keeps)

lemma runs_keep: "arp_inv a \<Longrightarrow> list_all arp_op_ok ops \<Longrightarrow> awlp (arp_runs E lo ops) (\<lambda>_. arp_inv) a"
  by (induction ops arbitrary: a) (auto intro!: awlp_return awlp_cut [OF run_keeps])

end

section \<open>Ageing\<close>

definition aged :: "nat \<Rightarrow> etharp_entry \<Rightarrow> bool" where
  "aged k e \<longleftrightarrow> (ae_state e \<noteq> ETHARP_STATE_EMPTY \<longrightarrow> ae_state e \<noteq> ETHARP_STATE_STATIC \<longrightarrow> k \<le> unat (ae_ctime e))"

text \<open>During the \<open>k\<close>-th tick, with the first \<open>j\<close> entries done; static entries are those of the table \<open>t0\<close>.\<close>

definition ageing :: "etharp_entry list \<Rightarrow> nat \<Rightarrow> nat \<Rightarrow> 'y arp_stack \<Rightarrow> bool" where
  "ageing t0 k j a \<longleftrightarrow> arp_inv a \<and> (\<forall>i < ARP_TABLE_SIZE. aged (if i < j then Suc k else k) (arp_table a ! i)
     \<and> (ae_state (t0 ! i) = ETHARP_STATE_STATIC \<longrightarrow> arp_table a ! i = t0 ! i))"

lemma awlp_for_upt:
  assumes "\<And>i a. i < n \<Longrightarrow> I i a \<Longrightarrow> awlp (f i) (\<lambda>_. I (Suc i)) a"
  shows "I m a \<Longrightarrow> m \<le> n \<Longrightarrow> awlp (for_entries [m..<n] f) (\<lambda>_. I n) a"
proof (induction "n - m" arbitrary: m a)
  case 0 then show ?case by (auto intro: awlp_return)
next
  case (Suc d)
  then have "[m..<n] = m # [Suc m..<n]" by (simp add: upt_rec)
  then show ?case using Suc by (auto intro!: awlp_cut [OF assms])
qed

lemma ageing_set:
  assumes "ageing t0 k i a" "i < ARP_TABLE_SIZE" "arp_inv (tset i f a)" "aged (Suc k) (f (arp_table a ! i))"
    and "ae_state (arp_table a ! i) \<noteq> ETHARP_STATE_STATIC"
  shows "ageing t0 k (Suc i) (tset i f a)"
  unfolding ageing_def
proof (intro conjI allI impI)
  have len: "length (arp_table a) = ARP_TABLE_SIZE" using assms(1) by (simp add: ageing_def arp_inv_def)
  fix j assume j: "j < ARP_TABLE_SIZE"
  show "aged (if j < Suc i then Suc k else k) (arp_table (tset i f a) ! j)"
    using assms j len by (cases "j = i") (auto simp: ageing_def less_Suc_eq)
  assume "ae_state (t0 ! j) = ETHARP_STATE_STATIC"
  with assms j len show "arp_table (tset i f a) ! j = t0 ! j" by (cases "j = i") (auto simp: ageing_def)
qed (rule assms(3))

lemma ageing_skip: "ageing t0 k i a \<Longrightarrow> i < ARP_TABLE_SIZE \<Longrightarrow> aged (Suc k) (arp_table a ! i) \<Longrightarrow> ageing t0 k (Suc i) a"
  by (auto simp: ageing_def less_Suc_eq split: if_splits)

lemma unat_tick: "c < ARP_MAXAGE \<Longrightarrow> unat (c + 1) = Suc (unat c)" "c < ARP_MAXPENDING \<Longrightarrow> unat (c + 1) = Suc (unat c)"
  by (simp_all add: arp_consts word_less_nat_alt unat_u16_add)

context arp_link
begin

lemma tmr_entry_ages:
  assumes age: "ageing t0 k i a" and i: "i < ARP_TABLE_SIZE"
  shows "awlp (tmr_entry E lo n i) (\<lambda>_. ageing t0 k (Suc i)) a"
proof -
  have inv: "arp_inv a" using age by (simp add: ageing_def)
  note ok = arp_invD(3,4) [OF inv, of i] and [simp] = arp_invD(1) [OF inv]
  have "aged k (arp_table a ! i)" using age i by (auto simp: ageing_def dest!: spec [of _ i])
  with i ok unat_tick [of "ae_ctime (arp_table a ! i)"] show ?thesis
    unfolding tmr_entry_def
    by (intro arp_rules; cases rule: state_cases [of "ae_state (arp_table a ! i)"])
      (auto simp: tset_tset entry_ok_def aged_def intro!: ageing_set [OF age i] ageing_skip [OF age i] arp_inv_tset [OF inv])
qed

lemma tmr_ages: "ageing t0 k 0 a \<Longrightarrow> awlp (etharp_tmr E lo n) (\<lambda>_. ageing t0 (Suc k) 0) a"
  unfolding etharp_tmr_def
  by (rule awlp_mono [OF awlp_for_upt [where I = "ageing t0 k", OF tmr_entry_ages]]) (auto simp: ageing_def)

lemma ticks_age: "ageing t0 j 0 a \<Longrightarrow> awlp (arp_runs E lo (replicate k ArpTimer)) (\<lambda>_. ageing t0 (j + k) 0) a"
proof (induction k arbitrary: j a)
  case 0 then show ?case by (auto intro: awlp_return)
next
  case (Suc k)
  then have tick: "awlp (arp_run E lo ArpTimer) (\<lambda>_. ageing t0 (Suc j) 0) a"
    by (auto intro!: awlp_bind [OF awlp_netif] tmr_ages)
  show ?case unfolding replicate_Suc arp_runs.simps
    by (rule awlp_cut [OF tick]) (use Suc.IH [of "Suc j"] in simp)
qed

end

section \<open>Lookup\<close>

text \<open>The entry of an address, when it is resolved.\<close>

definition arp_resolved :: "etharp_entry list \<Rightarrow> ip4_addr_t \<Rightarrow> nat option" where
  "arp_resolved t ip = find_stable ip 0 t"

lemma find_stable_spec:
  "find_stable ip k t = Some i \<Longrightarrow> k \<le> i \<and> i < k + length t \<and> ETHARP_STATE_STABLE \<le> ae_state (t ! (i - k))
     \<and> ae_ipaddr (t ! (i - k)) = ip"
  by (induction ip k t rule: find_stable.induct) (auto simp: nth_Cons' split: if_splits)

lemma find_stable_None: "find_stable ip k t = None \<longleftrightarrow> (\<forall>e \<in> set t. ETHARP_STATE_STABLE \<le> ae_state e \<longrightarrow> ae_ipaddr e \<noteq> ip)"
  by (induction ip k t rule: find_stable.induct) auto

lemma arp_resolved_iff:
  assumes "arp_inv a"
  shows "arp_resolved (arp_table a) ip = Some i \<longleftrightarrow>
    i < length (arp_table a) \<and> ETHARP_STATE_STABLE \<le> ae_state (arp_table a ! i) \<and> ae_ipaddr (arp_table a ! i) = ip"
    (is "?l \<longleftrightarrow> ?r")
proof
  show "?l \<Longrightarrow> ?r" using find_stable_spec [of ip 0 "arp_table a" i] by (simp add: arp_resolved_def)
  assume r: ?r
  then have "arp_resolved (arp_table a) ip \<noteq> None"
    by (auto simp: arp_resolved_def find_stable_None intro!: bexI [of _ "arp_table a ! i"])
  then obtain j where j: "arp_resolved (arp_table a) ip = Some j" by auto
  from find_stable_spec [OF j [unfolded arp_resolved_def]] r have "j = i"
    using arp_invD(4) [OF assms, of i] by (cases "ae_state (arp_table a ! j)"; cases "ae_state (arp_table a ! i)")
      (auto simp: sole_at_def)
  with j show ?l by simp
qed

text \<open>The entry \<open>i\<close> of the table was resolved for \<open>ip\<close>; it was empty, recycled or the one of \<open>ip\<close>, and all others stay.\<close>

definition resolved_at :: "ip4_addr_t \<Rightarrow> u8 list \<Rightarrow> 'y arp_stack \<Rightarrow> 'y arp_stack \<Rightarrow> nat \<Rightarrow> bool" where
  "resolved_at ip ethaddr a a' i \<longleftrightarrow> i < length (arp_table a) \<and> length (arp_table a') = length (arp_table a)
     \<and> ETHARP_STATE_STABLE \<le> ae_state (arp_table a' ! i) \<and> ae_ipaddr (arp_table a' ! i) = ip
     \<and> ae_ethaddr (arp_table a' ! i) = ethaddr \<and> ae_q (arp_table a' ! i) = None
     \<and> (ae_state (arp_table a ! i) = ETHARP_STATE_STATIC \<longrightarrow> ae_ipaddr (arp_table a ! i) = ip)
     \<and> (\<forall>j. j \<noteq> i \<longrightarrow> arp_table a' ! j = arp_table a ! j)"

lemma resolved_atI:
  assumes "find_post ip flags a (Inr i) b"
    and "ETHARP_STATE_STABLE \<le> ae_state (f (arp_table b ! i))" "ae_ipaddr (f (arp_table b ! i)) = ae_ipaddr (arp_table b ! i)"
    and "ae_ethaddr (f (arp_table b ! i)) = ethaddr" "ae_q (f (arp_table b ! i)) = None"
  shows "Ex (resolved_at ip ethaddr a (tset i f b))"
  using assms by (auto simp: resolved_at_def find_post_def entry_matches_def intro!: exI [of _ i])

context arp_link
begin

lemma update_post:
  assumes inv: "arp_inv a" and eth: "length ethaddr = ETH_HWADDR_LEN"
  shows "awlp (etharp_update_arp_entry E lo n ip ethaddr flags)
    (\<lambda>r a'. arp_inv a' \<and> (r = ERR_OK \<longrightarrow> Ex (resolved_at ip ethaddr a a'))) a"
proof (rule awlp_both)
  show "awlp (etharp_update_arp_entry E lo n ip ethaddr flags) (\<lambda>_. arp_inv) a" using inv eth by (simp add: update_keeps)
  show "awlp (etharp_update_arp_entry E lo n ip ethaddr flags) (\<lambda>r a'. r = ERR_OK \<longrightarrow> Ex (resolved_at ip ethaddr a a')) a"
    unfolding etharp_update_arp_entry_def using eth
    by (intro arp_rules awlp_find [OF inv])
      (auto simp: tset_tset find_post_def [where r = "Inl r" for r] intro!: resolved_atI)
qed

end

section \<open>Running the table operations\<close>

definition with_hint :: "nat \<Rightarrow> ('h, 'y, 'k) afw \<Rightarrow> ('h, 'y, 'k) afw" where
  "with_hint i s = s\<lparr>world := (world s)\<lparr>net := (net (world s))\<lparr>stack := (astk s)\<lparr>etharp_cached_entry := of_nat i\<rparr>\<rparr>\<rparr>\<rparr>"

lemma run_arp: "arp f s = Inr (f (astk s), s)"
  by (simp add: arp_def in_world_def in_net_def act_gets_def)

lemma run_entry: "i < length (arp_table (astk s)) \<Longrightarrow> arp_entry i s = Inr (arp_table (astk s) ! i, s)"
  by (simp add: arp_entry_def run_arp act_bind_def act_check_def act_return_def)

lemma run_hint: "ETHARP_SET_ADDRHINT i s = Inr ((), with_hint i s)"
  by (simp add: ETHARP_SET_ADDRHINT_def arp_modify_def in_world_def in_net_def act_modify_def with_hint_def)

lemma sweep_finds:
  assumes "arp_inv a" "i < length (arp_table a)" "ae_state (arp_table a ! i) \<noteq> ETHARP_STATE_EMPTY"
  shows "arp_sweep (Some (ae_ipaddr (arp_table a ! i))) 0 (arp_table a) scan_start = Inl i"
  using arp_sweep_table [OF arp_invD(1) [OF assms(1)], of "Some (ae_ipaddr (arp_table a ! i))"] arp_invD(4) [OF assms]
    arp_invD(1) [OF assms(1)] assms(2,3)
  by (auto simp: entry_matches_def sole_at_def all_set_conv_all_nth split: sum.splits)

lemma find_addr_run:
  assumes "arp_inv (astk s)" "i < length (arp_table (astk s))" "ETHARP_STATE_STABLE \<le> ae_state (arp_table (astk s) ! i)"
  shows "etharp_find_addr E (ae_ipaddr (arp_table (astk s) ! i)) s =
    Inr (Some (i, ae_ethaddr (arp_table (astk s) ! i), ae_ipaddr (arp_table (astk s) ! i)), s)"
proof -
  have "ae_state (arp_table (astk s) ! i) \<noteq> ETHARP_STATE_EMPTY" using assms(3) by auto
  from sweep_finds [OF assms(1,2) this] assms show ?thesis
    by (simp add: etharp_find_addr_def etharp_find_entry_def run_arp run_entry act_bind_def act_return_def Let_def)
qed

text \<open>The address a packet is handed to on the link.\<close>

definition next_hop :: "netif \<Rightarrow> ip4_addr_t \<Rightarrow> ip4_addr_t option" where
  "next_hop n ip =
     (if ip AND netmask n = ip_addr n AND netmask n \<or> ip4_addr_islinklocal ip then Some ip
      else if gw n = IPADDR_ANY then None else Some (gw n))"

lemma etharp_output_run:
  assumes "arp_inv (astk s)"
  shows "etharp_output_arp E lo n q ip s =
    (if ip4_addr_isbroadcast_u32 ip n then ethernet_output lo q (hwaddr n) ethbroadcast ETHTYPE_IP s
     else if ip4_addr_ismulticast ip then ethernet_output lo q (hwaddr n) (mcast_ethaddr ip) ETHTYPE_IP s
     else case next_hop n ip of
       None \<Rightarrow> Inr (ERR_RTE, s)
     | Some hop \<Rightarrow>
         (case arp_resolved (arp_table (astk s)) hop of
            Some i \<Rightarrow> etharp_output_to_arp_index E lo n q i (with_hint i s)
          | None \<Rightarrow> etharp_query E lo n hop q s))"
proof -
  let ?c = "unat (etharp_cached_entry (astk s))" and ?t = "arp_table (astk s)"
  have c: "?c < length ?t" using arp_invD(2) [OF assms] .
  have "with_hint ?c s = s" by (simp add: with_hint_def)
  note hit = arp_resolved_iff [OF assms, of _ ?c] this
  { fix hop
    assume hop: "next_hop n ip = Some hop" and uni: "\<not> ip4_addr_isbroadcast_u32 ip n" "\<not> ip4_addr_ismulticast ip"
    let ?out = "\<not> ip4_addr_net_eq ip (ip_addr n) (netmask n) \<and> \<not> ip4_addr_islinklocal ip"
    have out: "\<not> (?out \<and> gw n = IPADDR_ANY)" "(if ?out then gw n else ip) = hop"
      using hop by (auto simp: next_hop_def ip4_addr_net_eq_def split: if_splits)
    have "etharp_output_arp E lo n q ip s =
       (if ETHARP_STATE_STABLE \<le> ae_state (?t ! ?c) \<and> hop = ae_ipaddr (?t ! ?c) then etharp_output_to_arp_index E lo n q ?c s
        else case arp_resolved ?t hop of Some i \<Rightarrow> etharp_output_to_arp_index E lo n q i (with_hint i s)
          | None \<Rightarrow> etharp_query E lo n hop q s)"
      unfolding etharp_output_arp_def Let_def if_not_P [OF uni(1)] if_not_P [OF uni(2)] if_not_P [OF out(1)] out(2)
      using c by (simp add: run_arp run_entry run_hint act_bind_def arp_resolved_def split: option.split)
    moreover have "arp_resolved ?t hop = Some ?c" if "ETHARP_STATE_STABLE \<le> ae_state (?t ! ?c) \<and> hop = ae_ipaddr (?t ! ?c)"
      using hit(1) [of hop] that c by simp
    ultimately have "etharp_output_arp E lo n q ip s =
       (case arp_resolved ?t hop of Some i \<Rightarrow> etharp_output_to_arp_index E lo n q i (with_hint i s)
          | None \<Rightarrow> etharp_query E lo n hop q s)"
      using hit(2) by (auto split: option.split)
  }
  moreover have "etharp_output_arp E lo n q ip s = Inr (ERR_RTE, s)"
    if "next_hop n ip = None" "\<not> ip4_addr_isbroadcast_u32 ip n" "\<not> ip4_addr_ismulticast ip"
    using that by (simp add: etharp_output_arp_def next_hop_def ip4_addr_net_eq_def act_return_def split: if_splits)
  ultimately show ?thesis by (auto simp: etharp_output_arp_def split: option.split)
qed

section \<open>A concrete stack\<close>

text \<open>The interface at 192.168.7.1/24, with a gateway, before the host has configured the device; no memory on the heap.\<close>

definition arp_netif :: netif where
  "arp_netif = \<lparr>ip_addr = 0x0107A8C0, netmask = 0x00FFFFFF, gw = 0x0207A8C0, nif_input = Fn_NULL, nif_output = Fn_NULL,
     nif_linkoutput = Fn_NULL, mtu = 1514, hwaddr = [2, 0, 0, 0, 0, 1], hwaddr_len = 6,
     nif_flags = NETIF_FLAG_LINK_UP OR NETIF_FLAG_UP, nif_name = ''EX'', nif_num = 0\<rparr>"

definition arp_lwip :: "(unit, unit arp_stack, dma_channel set) lwip" where
  "arp_lwip = \<lparr>lw_mem = demo_env, lw_netif = \<lparr>netif_do_ip_addr_changed = (\<lambda>_ _ x. Inr ((), x)),
       etharp_gratuitous = (\<lambda>_ x. Inr ((), x)), etharp_cleanup_netif = (\<lambda>_ x. Inr ((), x))\<rparr>,
     lwip_init = (\<lambda>s. Inr ((), s)), lwiperf_start = (\<lambda>s. Inr ((), s)), ip4_input = (\<lambda>_ s. Inr ((), s)),
     etharp_input = (\<lambda>_ s. Inr ((), s)), etharp_output = (\<lambda>_ _ s. Inr (ERR_OK, s))\<rparr>"

definition arp_app :: "(unit, unit arp_stack, dma_channel set) app" where
  "arp_app = \<lparr>glIsApplnActive = False, glDMARxCount = 0, glDMATxCount = 0, glDataTransStarted = False,
     StandbyModeEnable = False, TriggerStandbyMode = False, glForceLinkU2 = False, glEp0StatCount = 0,
     gl_setupdat0 = 0, gl_setupdat1 = 0, gl_UsbLogBuffer = 0x40060000, glSrcEpFlush = False,
     notifyBuf = \<lparr>buf_buffer = 0, buf_count = 0, buf_size = 0, buf_status = 0\<rparr>,
     outBuf = \<lparr>buf_buffer = 0, buf_count = 0, buf_size = 0, buf_status = 0\<rparr>, received_frame = None,
     pbufs = demo_chain, net = \<lparr>netif_data = arp_netif, netif_default = True, stack = arp_zero ()\<rparr>, fx3 = demo_fx3\<rparr>"

definition arp_fw :: "(unit, unit arp_stack, dma_channel set) fw" where
  "arp_fw = \<lparr>ncm_if = ncm_ready, world = arp_app\<rparr>"

abbreviation demo_host :: ip4_addr_t where "demo_host \<equiv> 0x0907A8C0"



definition with_arp :: "'y arp_stack \<Rightarrow> ('h, 'y, 'k) afw \<Rightarrow> ('h, 'y, 'k) afw" where
  "with_arp a s = s\<lparr>world := (world s)\<lparr>net := (net (world s))\<lparr>stack := a\<rparr>\<rparr>\<rparr>"

lemma with_arp_simps [simp]: "astk (with_arp a s) = a" "with_arp a (with_arp b s) = with_arp a s"
  "netif_data (net (world (with_arp a s))) = netif_data (net (world s))" "netif_default (net (world (with_arp a s))) = netif_default (net (world s))"
  by (simp_all add: with_arp_def)

lemma run_set: "i < length (arp_table (astk s)) \<Longrightarrow> arp_set i f s = Inr ((), with_arp (tset i f (astk s)) s)"
  by (simp add: arp_set_def run_entry act_bind_def arp_modify_def in_world_def in_net_def act_modify_def with_arp_def tset_def)

lemma request_no_mem: "etharp_request demo_env lo n ip s = Inr (ERR_MEM, s)"
  by (simp add: etharp_request_def etharp_request_dst_def etharp_raw_def pbuf_alloc_def act_bind_def lw_pbuf_def in_world_def in_pbufs_def
    demo_env_def act_return_def in_heap_def Let_def pbuf_consts)

lemma the_netif_run: "the_netif s = Inr (netif_data (net (world s)), s)"
  by (simp add: the_netif_def in_world_def act_gets_def)

definition arp_one :: "etharp_entry \<Rightarrow> unit arp_stack" where
  "arp_one e = (arp_zero ())\<lparr>arp_table := e # replicate 9 arp_entry_zero\<rparr>"

definition pending_for :: "u16 \<Rightarrow> etharp_entry" where
  "pending_for k = arp_entry_zero\<lparr>ae_ipaddr := demo_host, ae_netif := True, ae_ctime := k, ae_state := ETHARP_STATE_PENDING\<rparr>"

lemma tset_one: "tset 0 f (arp_one e) = arp_one (f e)"
  by (simp add: tset_def arp_one_def)

lemma one_table [simp]: "length (arp_table (arp_one e)) = 10" "arp_table (arp_one e) ! 0 = e"
  "0 < i \<Longrightarrow> i < 10 \<Longrightarrow> arp_table (arp_one e) ! i = arp_entry_zero"
  by (simp_all add: arp_one_def nth_Cons')

lemma tmr_entry_skip:
  assumes "i < length (arp_table (astk s))" "ae_state (arp_table (astk s) ! i) = ETHARP_STATE_EMPTY \<or> ae_state (arp_table (astk s) ! i) = ETHARP_STATE_STATIC"
  shows "tmr_entry E lo n i s = Inr ((), s)"
  using assms by (auto simp: tmr_entry_def act_bind_def run_entry act_return_def)

lemma for_skip: "(\<And>i. i \<in> set is \<Longrightarrow> f i s = Inr ((), s)) \<Longrightarrow> for_entries is f s = Inr ((), s)"
  by (induction "is") (auto simp: act_return_def act_bind_def)

lemma tick_one: 
  assumes "tmr_entry demo_env lo n 0 (with_arp (arp_one e) s) = Inr ((), with_arp (arp_one e') s)"
  shows "etharp_tmr demo_env lo n (with_arp (arp_one e) s) = Inr ((), with_arp (arp_one e') s)"
proof -
  have "[0..<ARP_TABLE_SIZE] = 0 # [1..<ARP_TABLE_SIZE]" by (simp add: arp_consts upt_rec)
  then show ?thesis using assms
    by (auto simp: etharp_tmr_def act_bind_def arp_consts arp_entry_zero_def intro!: for_skip tmr_entry_skip)
qed

lemma pending_tick:
  "tmr_entry demo_env lo n 0 (with_arp (arp_one (pending_for k)) s) =
     Inr ((), with_arp (arp_one (if ARP_MAXAGE \<le> k + 1 \<or> ARP_MAXPENDING \<le> k + 1 then (pending_for (k + 1))\<lparr>ae_state := ETHARP_STATE_EMPTY\<rparr> else pending_for (k + 1))) s)"
  by (auto simp: tmr_entry_def act_bind_def run_entry run_set tset_one pending_for_def arp_entry_zero_def etharp_free_entry_def
     request_no_mem act_check_def act_return_def arp_consts)

definition static_for :: etharp_entry where
  "static_for = arp_entry_zero\<lparr>ae_ipaddr := demo_host, ae_netif := True, ae_ethaddr := [2, 0, 0, 0, 0, 9],
     ae_state := ETHARP_STATE_STATIC\<rparr>"

lemma arp_fw_one: "arp_fw = with_arp (arp_one arp_entry_zero) arp_fw"
  by (simp add: arp_fw_def arp_app_def with_arp_def arp_one_def arp_zero_def arp_consts numeral_eq_Suc)

lemma zero_entry [simp]: "ae_state arp_entry_zero = ETHARP_STATE_EMPTY" "ae_ctime arp_entry_zero = 0"
  "ae_q arp_entry_zero = None"
  by (simp_all add: arp_entry_zero_def)

lemma sweep_zeros: "sc_empty c < ARP_TABLE_SIZE \<Longrightarrow> arp_sweep ip i (replicate k arp_entry_zero) c = Inr c"
  by (induction k arbitrary: i) (auto simp: entry_matches_def scan_entry_def)

lemma one_sweep: "arp_sweep ip 0 (arp_table (arp_one arp_entry_zero)) scan_start = Inr (scan_start\<lparr>sc_empty := 0\<rparr>)"
  by (simp add: arp_one_def scan_entry_def entry_matches_def)
    (simp add: scan_start_def sweep_zeros arp_consts)

lemma find_fresh: "etharp_find_entry E (Some ip) ETHARP_FLAG_TRY_HARD (with_arp (arp_one arp_entry_zero) s) =
   Inr (Inr 0, with_arp (arp_one (arp_entry_zero\<lparr>ae_ipaddr := ip\<rparr>)) s)"
  by (simp add: etharp_find_entry_def act_bind_def run_arp one_sweep Let_def run_set tset_one act_return_def)
    (simp add: arp_consts arp_entry_zero_def)

lemma demo_host_ok: "ip4_addr_isbroadcast_u32 demo_host arp_netif = False" "ip4_addr_ismulticast demo_host = False"
  "(demo_host = IPADDR_ANY) = False"
  by (simp_all add: ip4_addr_isbroadcast_u32_def ip4_addr_ismulticast_def arp_netif_def
      netif_consts IPADDR_ANY_def IPADDR_BROADCAST_def PP_HTONL_def)

lemma demo_update: "etharp_update_arp_entry demo_env lo arp_netif demo_host [2, 0, 0, 0, 0, 9] ETHARP_FLAG_TRY_HARD arp_fw =
   Inr (ERR_OK, with_arp (arp_one (static_for\<lparr>ae_state := ETHARP_STATE_STABLE\<rparr>)) arp_fw)"
  by (subst arp_fw_one, simp add: etharp_update_arp_entry_def act_bind_def find_fresh demo_host_ok run_entry run_set tset_one act_return_def)
    (simp add: arp_entry_zero_def static_for_def arp_consts)

lemma demo_query: "etharp_query demo_env lo arp_netif demo_host None arp_fw =
   Inr (ERR_MEM, with_arp (arp_one (pending_for 0)) arp_fw)"
  by (subst arp_fw_one, simp add: etharp_query_def query_resolve_def act_bind_def find_fresh demo_host_ok run_entry run_set tset_one act_return_def
    request_no_mem) (simp add: arp_entry_zero_def pending_for_def)

lemma arp_fw_netif: "netif_data (net (world arp_fw)) = arp_netif"
  by (simp add: arp_fw_def arp_app_def)

lemma five: "replicate 5 x = [x, x, x, x, x]"
  by (simp add: eval_nat_numeral)

lemma pending_ticks:
  "arp_runs demo_env lo (replicate 5 ArpTimer) (with_arp (arp_one (pending_for 0)) s) =
    Inr ((), with_arp (arp_one ((pending_for 5)\<lparr>ae_state := ETHARP_STATE_EMPTY\<rparr>)) s)"
  by (simp add: five act_bind_def the_netif_run tick_one [OF pending_tick] arp_consts act_return_def word_le_nat_alt)

lemma pending_inv: "arp_inv (arp_one (pending_for 0))"
  by (simp add: arp_inv_def arp_one_def pending_for_def arp_zero_def arp_entry_zero_def entry_ok_def sole_at_def nth_Cons' arp_consts)

section \<open>Properties\<close>

text \<open>C18. Over any sequence of timer ticks, received ARP packets, queries, requests, outgoing packets, static entries and
  interface shut-downs, starting from the empty table, the ARP table stays consistent: no two entries in use are for one
  address, only a pending entry holds back a packet, a resolved entry has a six-byte hardware address, entries in use
  belong to the interface and are younger than their limit, and the cached index is in range.\<close>

theorem arp_table_stays_consistent:
  assumes "astk s = arp_zero y" "list_all arp_op_ok ops"
    and "arp_runs (lw_mem L) (link_output_app K L fuel) ops s = Inr ((), s')"
  shows "arp_inv (astk s')"
  using awlpD [OF applink.runs_keep assms(3)] assms(1,2) arp_zero_inv [of y] by simp

theorem arp_table_stays_consistent_witness:
  "\<exists>s'. arp_runs demo_env (link_output_app demo_sdk arp_lwip 1) (ArpQuery demo_host None # replicate 5 ArpTimer) arp_fw = Inr ((), s')
     \<and> arp_inv (astk s')"
proof -
  let ?s = "with_arp (arp_one ((pending_for 5)\<lparr>ae_state := ETHARP_STATE_EMPTY\<rparr>)) arp_fw"
  have r: "arp_runs demo_env (link_output_app demo_sdk arp_lwip 1) (ArpQuery demo_host None # replicate 5 ArpTimer) arp_fw = Inr ((), ?s)"
    by (simp only: arp_runs.simps arp_run.simps no_result_def act_bind_def the_netif_run arp_fw_netif demo_query pending_ticks
        act_return_def sum.case prod.case)
  have z: "astk arp_fw = arp_zero ()" "lw_mem arp_lwip = demo_env" by (simp_all add: arp_fw_def arp_app_def arp_lwip_def)
  from arp_table_stays_consistent [OF z(1), of _ arp_lwip, unfolded z(2), OF _ r] r show ?thesis by (auto simp: five)
qed

text \<open>C19. What was learned is found: after an update that succeeds, a look-up of the address gives its hardware address, no
  packet waits for it any more, and every other entry but at most one dynamic one is as before.\<close>

theorem arp_update_then_lookup:
  assumes "arp_inv (astk s)" "length ethaddr = ETH_HWADDR_LEN"
    and "etharp_update_arp_entry (lw_mem L) (link_output_app K L fuel) n ip ethaddr flags s = Inr (ERR_OK, s')"
  shows "\<exists>i. etharp_find_addr (lw_mem L) ip s' = Inr (Some (i, ethaddr, ip), s') \<and> resolved_at ip ethaddr (astk s) (astk s') i"
proof -
  obtain i where inv: "arp_inv (astk s')" and i: "resolved_at ip ethaddr (astk s) (astk s') i"
    using awlpD [OF applink.update_post assms(3), OF assms(1,2)] by auto
  then have "etharp_find_addr (lw_mem L) ip s' = Inr (Some (i, ethaddr, ip), s')"
    using find_addr_run [OF inv, of i "lw_mem L"] by (auto simp: resolved_at_def)
  with i show ?thesis by blast
qed

theorem arp_update_then_lookup_witness:
  "\<exists>(s' :: (unit, unit, dma_channel set) afw) i. etharp_find_addr demo_env demo_host s' = Inr (Some (i, [2, 0, 0, 0, 0, 9], demo_host), s')
     \<and> resolved_at demo_host [2, 0, 0, 0, 0, 9] (astk arp_fw) (astk s') i"
proof -
  have z: "lw_mem arp_lwip = demo_env" "arp_inv (astk arp_fw)"
    by (simp_all add: arp_lwip_def arp_fw_def arp_app_def arp_zero_inv)
  have six: "length [2, 0, 0, 0, 0, 9 :: u8] = ETH_HWADDR_LEN" by (simp add: arp_consts)
  show ?thesis
    by (rule exI, rule arp_update_then_lookup [OF z(2) six, of arp_lwip demo_sdk 1 arp_netif demo_host ETHARP_FLAG_TRY_HARD, unfolded z(1), OF demo_update])
qed

text \<open>C20. Entries do not stay for ever: after five ticks of the timer no entry is pending any more, after 300 only static
  entries are left, and these are the ones of before.\<close>

theorem arp_entries_expire:
  assumes "arp_inv (astk s)" "arp_runs (lw_mem L) (link_output_app K L fuel) (replicate k ArpTimer) s = Inr ((), s')"
    and "e \<in> set (arp_table (astk s'))"
  shows "(5 \<le> k \<longrightarrow> ae_state e \<noteq> ETHARP_STATE_PENDING)
    \<and> (300 \<le> k \<longrightarrow> ae_state e = ETHARP_STATE_EMPTY \<or> ae_state e = ETHARP_STATE_STATIC)"
proof -
  have "ageing (arp_table (astk s)) 0 0 (astk s)" using assms(1) by (simp add: ageing_def aged_def)
  from awlpD [OF applink.ticks_age [OF this] assms(2)]
  have "arp_inv (astk s')" "aged k e" using assms(3) by (auto simp: ageing_def arp_inv_def in_set_conv_nth)
  then show ?thesis using assms(3)
    by (cases rule: state_cases [of "ae_state e"]) (auto simp: arp_inv_def entry_ok_def aged_def arp_consts word_less_nat_alt)
qed

theorem arp_entries_expire_witness:
  "\<exists>s'. arp_runs demo_env (link_output_app demo_sdk arp_lwip 1) (replicate 5 ArpTimer)
       (with_arp (arp_one (pending_for 0)) arp_fw) = Inr ((), s')
     \<and> (\<forall>e \<in> set (arp_table (astk s')). ae_state e \<noteq> ETHARP_STATE_PENDING)"
proof -
  have z: "lw_mem arp_lwip = demo_env" "arp_inv (astk (with_arp (arp_one (pending_for 0)) arp_fw))"
    by (simp_all add: arp_lwip_def pending_inv)
  from arp_entries_expire [OF z(2), of arp_lwip, unfolded z(1), OF pending_ticks]
  show ?thesis by (subst pending_ticks) auto
qed

text \<open>C21. The cached index does not matter: a packet goes to the broadcast or the group address, or to the hardware
  address the table has for the next hop, which is the destination on the local network and the gateway outside of it;
  without a gateway there is no route, and without a resolved entry the address is asked for.\<close>

theorem etharp_output_follows_table:
  assumes "arp_inv (astk s)"
  shows "etharp_output_arp E lo n q ip s =
    (if ip4_addr_isbroadcast_u32 ip n then ethernet_output lo q (hwaddr n) ethbroadcast ETHTYPE_IP s
     else if ip4_addr_ismulticast ip then ethernet_output lo q (hwaddr n) (mcast_ethaddr ip) ETHTYPE_IP s
     else case next_hop n ip of
       None \<Rightarrow> Inr (ERR_RTE, s)
     | Some hop \<Rightarrow>
         (case arp_resolved (arp_table (astk s)) hop of
            Some i \<Rightarrow> etharp_output_to_arp_index E lo n q i (with_hint i s)
          | None \<Rightarrow> etharp_query E lo n hop q s))"
  by (rule etharp_output_run [OF assms])

theorem etharp_output_follows_table_witness:
  "etharp_output_arp demo_env (link_output_app demo_sdk arp_lwip 1) arp_netif (Some (PoolPbuf 3)) 0x08080808 arp_fw =
     etharp_query demo_env (link_output_app demo_sdk arp_lwip 1) arp_netif 0x0207A8C0 (Some (PoolPbuf 3)) arp_fw"
proof -
  have inv: "arp_inv (astk arp_fw)" by (simp add: arp_fw_def arp_app_def arp_zero_inv)
  have ip: "\<not> ip4_addr_isbroadcast_u32 0x08080808 arp_netif" "\<not> ip4_addr_ismulticast 0x08080808"
    "next_hop arp_netif 0x08080808 = Some 0x0207A8C0"
    by (simp_all add: ip4_addr_isbroadcast_u32_def ip4_addr_ismulticast_def ip4_addr_islinklocal_def next_hop_def arp_netif_def
        IPADDR_ANY_def PP_HTONL_def)
  have "arp_resolved (arp_table (astk arp_fw)) 0x0207A8C0 = None"
    by (auto simp: arp_resolved_def find_stable_None arp_fw_def arp_app_def arp_zero_def arp_entry_zero_def)
  with ip show ?thesis by (simp add: etharp_output_follows_table [OF inv])
qed

end
