(* ===== verification/Lwip_Send.thy ===== *)
theory Lwip_Send
  imports Lwip_ArpProps
begin

text \<open>
  The way of an outgoing IP packet: address resolution finds the hardware address, the Ethernet layer puts
  its header in front of the packet in place, and the application hands the frame to the driver.
\<close>

section \<open>Prepending the Ethernet header\<close>

definition eth_frame :: "u8 list \<Rightarrow> u8 list \<Rightarrow> u16 \<Rightarrow> u8 list \<Rightarrow> u8 list" where
  "eth_frame dst src ty bs = dst @ src @ [ucast (drop_bit 8 ty), ucast ty] @ bs"

text \<open>The buffer a header of \<open>n\<close> bytes fits in front of.\<close>

definition headroom :: "nat \<Rightarrow> pbuf \<Rightarrow> bool" where
  "headroom n b \<longleftrightarrow> ucast (pb_type_internal b) AND PBUF_TYPE_FLAG_STRUCT_DATA_CONTIGUOUS \<noteq> 0
     \<and> (\<exists>a. pb_payload b = Some a \<and> n \<le> a \<and> a + unat (pb_len b) \<le> length (pb_mem b))"

definition with_header :: "u8 list \<Rightarrow> u8 list \<Rightarrow> u16 \<Rightarrow> pbuf \<Rightarrow> pbuf" where
  "with_header src dst ty b =
     payload_write 6 (take 6 src) (payload_write 0 (take 6 dst) (payload_write 12 (le16 (lwip_htons ty))
       (b\<lparr>pb_payload := map_option (\<lambda>a. a - 14) (pb_payload b), pb_len := pb_len b + 14, pb_tot_len := pb_tot_len b + 14\<rparr>)))"

lemma header_bytes:
  assumes "length hole = 14" "length dst = 6" "length src = 6"
  shows "mem_write (length pre + 6) src (mem_write (length pre) dst (mem_write (length pre + 12) [x, y] (pre @ hole @ rest))) =
    pre @ dst @ src @ [x, y] @ rest"
proof -
  have "mem_write 6 src (mem_write 0 dst (mem_write 12 [x, y] (hole @ rest))) = dst @ src @ [x, y] @ rest"
    using assms by (simp add: mem_write_def)
  then show ?thesis using mem_write_append [of pre 0] by (simp add: mem_write_append)
qed

lemma with_header_mem:
  assumes b: "headroom 14 b" and len: "length dst = 6" "length src = 6"
  shows "\<exists>a hole. pb_payload b = Some (a + 14) \<and> length hole = 14
    \<and> pb_mem b = take a (pb_mem b) @ hole @ drop (a + 14) (pb_mem b)
    \<and> pb_payload (with_header src dst ty b) = Some a
    \<and> pb_mem (with_header src dst ty b) = take a (pb_mem b) @ eth_frame dst src ty (drop (a + 14) (pb_mem b))"
proof -
  obtain a0 where a0: "pb_payload b = Some a0" "14 \<le> a0" "a0 + unat (pb_len b) \<le> length (pb_mem b)"
    using b by (auto simp: headroom_def)
  define a where "a = a0 - 14"
  define hole where "hole = take 14 (drop a (pb_mem b))"
  have a: "a0 = a + 14" "length hole = 14" "length (take a (pb_mem b)) = a" using a0 by (auto simp: a_def hole_def)
  have mem: "pb_mem b = take a (pb_mem b) @ hole @ drop (a + 14) (pb_mem b)"
    by (simp add: hole_def) (metis add.commute append_take_drop_id drop_drop)
  have "mem_write (a + 6) src (mem_write a dst (mem_write (a + 12) (le16 (lwip_htons ty)) (pb_mem b))) =
      take a (pb_mem b) @ eth_frame dst src ty (drop (a + 14) (pb_mem b))"
    using header_bytes [OF a(2) len, of "take a (pb_mem b)" _ _ "drop (a + 14) (pb_mem b)", unfolded a(3), folded mem]
    by (simp add: le16_htons eth_frame_def)
  then show ?thesis
    using a0 a mem len by (auto simp: with_header_def payload_write_def)
qed

lemma with_header_fields [simp]:
  "pb_next (with_header src dst ty b) = pb_next b" "pb_len (with_header src dst ty b) = pb_len b + 14"
  "pb_tot_len (with_header src dst ty b) = pb_tot_len b + 14"
  by (simp_all add: with_header_def payload_write_def split: option.split)

lemma with_header_packet:
  assumes p: "packet h (Some x) (x # xs)" "h x = Some b" and room: "headroom 14 b" "lens h (x # xs) + 14 < 65536"
    and len: "length dst = 6" "length src = 6"
    and h': "h' = h(x \<mapsto> with_header src dst ty b)"
  shows "packet h' (Some x) (x # xs)" "lens h' (x # xs) = lens h (x # xs) + 14"
    "chain_data h' (x # xs) = eth_frame dst src ty (chain_data h (x # xs))"
proof -
  obtain a hole where m: "pb_payload b = Some (a + 14)" "pb_payload (with_header src dst ty b) = Some a"
      "pb_mem (with_header src dst ty b) = take a (pb_mem b) @ eth_frame dst src ty (drop (a + 14) (pb_mem b))"
      "a + 14 \<le> length (pb_mem b)"
    using with_header_mem [OF room(1) len] room(1) by (force simp: headroom_def)
  have seg: "unat (pb_tot_len b) = unat (pb_len b) + lens h xs" "seg h (pb_next b) xs None 0" "x \<notin> set xs" "distinct xs"
    "a + 14 + unat (pb_len b) \<le> length (pb_mem b) \<or> unat (pb_len b) = 0"
    using p m(1) by (auto simp: packet_def payload_ok_def)
  have sz: "unat (pb_len b + 14) = unat (pb_len b) + 14" "unat (pb_tot_len b + 14) = unat (pb_tot_len b) + 14"
    using room(2) seg(1) p(2) by (simp_all add: unat_u16_add)
  have la: "length (take a (pb_mem b)) = a" using m(4) by simp
  show "packet h' (Some x) (x # xs)" "lens h' (x # xs) = lens h (x # xs) + 14"
    using seg m sz p(2) len by (auto simp: packet_def payload_ok_def h' eth_frame_def)
  have "bdata h' x = eth_frame dst src ty (bdata h x)"
    using m sz la len p(2) by (simp add: bdata_def h' payload_bytes_def eth_frame_def)
  then show "chain_data h' (x # xs) = eth_frame dst src ty (chain_data h (x # xs))"
    using seg(3) by (simp add: h' eth_frame_def)
qed

section \<open>Running the layers\<close>

definition with_buf :: "pptr \<Rightarrow> pbuf \<Rightarrow> ('h, 'x, 'k) fw \<Rightarrow> ('h, 'x, 'k) fw" where
  "with_buf x b s = s\<lparr>world := (world s)\<lparr>pbufs := (pbufs (world s))\<lparr>pb_obj := (pb_obj (pbufs (world s)))(x \<mapsto> b)\<rparr>\<rparr>\<rparr>"

lemma with_buf_simps [simp]:
  "pb_obj (pbufs (world (with_buf x b s))) = (pb_obj (pbufs (world s)))(x \<mapsto> b)" "ncm_if (with_buf x b s) = ncm_if s"
  "glIsApplnActive (world (with_buf x b s)) = glIsApplnActive (world s)" "with_buf x c (with_buf x b s) = with_buf x c s"
  by (simp_all add: with_buf_def)

lemma run_write:
  assumes "pb_obj (pbufs (world s)) x = Some b" "payload_ok b off (length bs)"
  shows "lw_pbuf (pb_write (Some x) off bs) s = Inr ((), with_buf x (payload_write off bs b) s)"
  using assms by (simp add: lw_pbuf_def in_world_def in_pbufs_def with_buf_def)

lemma run_add_header:
  assumes b: "pb_obj (pbufs (world s)) x = Some b" "headroom n b" and n: "0 < n" "unat (pb_tot_len b) + n < 65536"
  shows "lw_pbuf (pbuf_add_header (Some x) (of_nat n)) s = Inr (False, with_buf x (b\<lparr>
    pb_payload := map_option (\<lambda>a. a - n) (pb_payload b), pb_len := pb_len b + of_nat n, pb_tot_len := pb_tot_len b + of_nat n\<rparr>) s)"
proof -
  have n32: "unat (of_nat n :: u32) = n" "unat (of_nat n :: u16) = n" "(of_nat n :: u32) \<noteq> 0"
    using n by (simp_all add: unsigned_of_nat take_bit_nat_eq_self word_unat_eq_iff)
  have m: "ucast (of_nat n :: u32) = (of_nat n :: u16)" by (rule word_unat_eq_iff [THEN iffD2]) (use n in \<open>simp add: unsigned_ucast_eq unsigned_of_nat take_bit_nat_eq_self\<close>)
  have fits: "\<not> (of_nat n :: u16) + pb_tot_len b < of_nat n" "\<not> 0xFFFF < (of_nat n :: u32)"
    using n n32 by (simp_all add: word_less_nat_alt unat_u16_add)
  show ?thesis
    using b fits n32
    by (auto simp: headroom_def pbuf_add_header_def pbuf_add_header_impl_def m act_defs Let_def lw_pbuf_def in_world_def in_pbufs_def
        with_buf_def)
qed

lemma ethernet_output_run:
  assumes b: "pb_obj (pbufs (world s)) x = Some b" "headroom 14 b" "unat (pb_tot_len b) + 14 < 65536"
    and len: "length dst = 6" "length src = 6"
  shows "ethernet_output lo (Some x) src dst ty s = lo (Some x) (with_buf x (with_header src dst ty b) s)"
proof -
  obtain a where a: "pb_payload b = Some a" "14 \<le> a" "a \<le> length (pb_mem b)" using b(2) by (auto simp: headroom_def)
  note hdr = run_add_header [OF b(1,2) _ b(3), simplified]
  have len16: "length (le16 v) = 2" for v by (simp add: le16_def)
  show ?thesis
    unfolding ethernet_output_def SIZEOF_ETH_HDR_def using a len len16
    by (simp add: act_bind_def hdr run_write payload_ok_def payload_write_def with_header_def length_mem_write)
qed

lemma can_tx_room: "tx_inv (ncm_if s) \<Longrightarrow> tx_room sz (ncm_if s) \<Longrightarrow> net_can_tx E sz s = Inr (True, s)"
  by (auto simp: tx_inv_def tx_owned_def tx_room_def net_can_tx_def tx_datagram_fits_user_ntb_def act_defs get_if_def ntb_read_def NCM_NTB_N_def)

section \<open>From the IP layer to the driver\<close>

text \<open>The stack with its address resolution filled in, over the output function of the application.\<close>

definition with_etharp :: "'k sdk \<Rightarrow> nat \<Rightarrow> ('h, 'y arp_stack, 'k) lwip \<Rightarrow> ('h, 'y arp_stack, 'k) lwip" where
  "with_etharp K fuel L = L\<lparr>
     etharp_input := (\<lambda>p. act_bind the_netif (\<lambda>n. etharp_input_arp (lw_mem L) (link_output_app K L fuel) n p)),
     etharp_output := (\<lambda>p ip. act_bind the_netif (\<lambda>n. etharp_output_arp (lw_mem L) (link_output_app K L fuel) n p ip))\<rparr>"

lemma output_index_run:
  assumes "i < length (arp_table (astk s))" "ae_ctime (arp_table (astk s) ! i) < ARP_AGE_REREQUEST_USED_UNICAST"
  shows "etharp_output_to_arp_index E lo n q i s =
    ethernet_output lo q (hwaddr n) (ae_ethaddr (arp_table (astk s) ! i)) ETHTYPE_IP s"
  using assms
  by (auto simp: etharp_output_to_arp_index_def Let_def act_bind_def run_entry act_return_def word_less_nat_alt word_le_nat_alt
      arp_consts)

lemma with_hint_simps [simp]:
  "ncm_if (with_hint i s) = ncm_if s" "pbufs (world (with_hint i s)) = pbufs (world s)"
  "glIsApplnActive (world (with_hint i s)) = glIsApplnActive (world s)" "arp_table (astk (with_hint i s)) = arp_table (astk s)"
  by (simp_all add: with_hint_def)

lemma ip4_output_run:
  assumes arp: "arp_inv (astk s)" and n: "netif_data (net (world s)) = n"
    and ip: "\<not> ip4_addr_isbroadcast_u32 ip n" "\<not> ip4_addr_ismulticast ip" "next_hop n ip = Some hop"
    and e: "arp_resolved (arp_table (astk s)) hop = Some i" "arp_table (astk s) ! i = e"
      "ae_ctime e < ARP_AGE_REREQUEST_USED_UNICAST"
  shows "ip4_output_app (with_etharp K fuel L) p ip s =
    ethernet_output (link_output_app K L fuel) p (hwaddr n) (ae_ethaddr e) ETHTYPE_IP (with_hint i s)"
proof -
  have "i < length (arp_table (astk s))" using e(1) arp_resolved_iff [OF arp] by auto
  then show ?thesis
    using e n ip
    by (simp add: ip4_output_app_def with_etharp_def act_bind_def the_netif_run etharp_output_run [OF arp] output_index_run)
qed

lemma ip_packet_sent:
  assumes inv: "tx_inv (ncm_if s)" and active: "glIsApplnActive (world s)"
    and arp: "arp_inv (astk s)" and n: "netif_data (net (world s)) = n" "length (hwaddr n) = 6"
    and ip: "\<not> ip4_addr_isbroadcast_u32 ip n" "\<not> ip4_addr_ismulticast ip" "next_hop n ip = Some hop"
    and e: "arp_resolved (arp_table (astk s)) hop = Some i" "arp_table (astk s) ! i = e"
      "ae_ctime e < ARP_AGE_REREQUEST_USED_UNICAST"
    and h: "pb_obj (pbufs (world s)) = h" and p: "packet h (Some x) (x # xs)" "length (x # xs) < chain_fuel"
    and b: "h x = Some b" "headroom 14 b"
    and room: "lens h (x # xs) + 14 \<le> max_datagram" "tx_room (of_nat (lens h (x # xs) + 14)) (ncm_if s)"
  shows "dwp (ip4_output_app (with_etharp K (Suc fuel) L) (Some x) ip) (\<lambda>r s'. r = ERR_OK
      \<and> tx_appended (of_nat (lens h (x # xs) + 14)) (ncm_if s)
        (eth_frame (ae_ethaddr e) (hwaddr n) ETHTYPE_IP (chain_data h (x # xs))) (ncm_if s')) s"
proof -
  let ?s = "with_buf x (with_header (hwaddr n) (ae_ethaddr e) ETHTYPE_IP b) (with_hint i s)"
  have i: "i < length (arp_table (astk s))" "ETHARP_STATE_STABLE \<le> ae_state e"
    using e arp_resolved_iff [OF arp] by auto
  have len: "length (ae_ethaddr e) = 6" using arp_invD(3) [OF arp i(1)] e(2) i(2) by (simp add: entry_ok_def arp_consts)
  have big: "lens h (x # xs) + 14 < 65536" using room(1) by (simp add: max_datagram_def ntb_sizes ncm_consts)
  then have tot: "unat (pb_tot_len b) + 14 < 65536" using packet_tot_len [OF p(1)] b(1) by auto
  note new = with_header_packet [OF p(1) b big len n(2) refl, of ETHTYPE_IP]
  have "ip4_output_app (with_etharp K (Suc fuel) L) (Some x) ip s = link_output_app K L (Suc fuel) (Some x) ?s"
    unfolding ip4_output_run [OF arp n(1) ip e] by (rule ethernet_output_run) (use b h tot len n(2) in auto)
  moreover
  have s: "ncm_if ?s = ncm_if s" "pb_obj (pbufs (world ?s)) = h(x \<mapsto> with_header (hwaddr n) (ae_ethaddr e) ETHTYPE_IP b)"
    "glIsApplnActive (world ?s)" using h active by simp_all
  have can: "net_can_tx (app_env K L) (of_nat (lens h (x # xs) + 14)) ?s = Inr (True, ?s)"
    by (rule can_tx_room) (simp_all only: s inv room(2))
  have "dwp (link_output_app K L (Suc fuel) (Some x)) (\<lambda>r s'. r = ERR_OK
      \<and> tx_appended (of_nat (lens h (x # xs) + 14)) (ncm_if s)
        (eth_frame (ae_ethaddr e) (hwaddr n) ETHTYPE_IP (chain_data h (x # xs))) (ncm_if s')) ?s"
    by (rule link_output_run [OF _ s(3) _ _ p(2) _ _ room(1) can, unfolded s(1,2) new(2,3), OF inv new(1)])
      simp_all
  ultimately show ?thesis by (simp add: wpx_def)
qed

text \<open>C17. An IP packet leaves as an Ethernet frame: \<^verbatim>\<open>ip4_output_app\<close> finds the hardware address of the next hop, puts the
  Ethernet header in front of the packet, and the frame becomes the last datagram of the block that the driver is collecting, which
  then is still the user's or is the one USB transmits; every other block is as before.  The application is active, the destination
  is a unicast address whose next hop is resolved with an entry younger than the age at which it is requested again, the packet has
  14 bytes of headroom, and the block has room for the frame.  The driver makes no invalid access; a fault of its environment is
  left open.\<close>

theorem ip_packet_becomes_ncm_datagram:
  assumes reach: "ncm_reach (app_env K (with_etharp K (Suc fuel) L)) s" and active: "glIsApplnActive (world s)"
    and arp: "arp_inv (astk s)" and n: "netif_data (net (world s)) = n" "length (hwaddr n) = 6"
    and ip: "\<not> ip4_addr_isbroadcast_u32 ip n" "\<not> ip4_addr_ismulticast ip" "next_hop n ip = Some hop"
    and e: "arp_resolved (arp_table (astk s)) hop = Some i" "arp_table (astk s) ! i = e"
      "ae_ctime e < ARP_AGE_REREQUEST_USED_UNICAST"
    and h: "pb_obj (pbufs (world s)) = h" and p: "packet h (Some x) (x # xs)" "length (x # xs) < chain_fuel"
    and b: "h x = Some b" "headroom 14 b"
    and room: "lens h (x # xs) + 14 \<le> max_datagram" "tx_room (of_nat (lens h (x # xs) + 14)) (ncm_if s)"
  shows "dwp (ip4_output_app (with_etharp K (Suc fuel) L) (Some x) ip) (\<lambda>r s'. r = ERR_OK
      \<and> tx_appended (of_nat (lens h (x # xs) + 14)) (ncm_if s)
        (eth_frame (ae_ethaddr e) (hwaddr n) ETHTYPE_IP (chain_data h (x # xs))) (ncm_if s')) s"
  by (rule ip_packet_sent [OF reach_tx_inv [OF reach] assms(2-)])

text \<open>A firmware that has learned the address of a host and holds a five-byte packet for it.\<close>

definition send_buf :: pbuf where
  "send_buf = (demo_buf (replicate 14 0 @ [1, 2, 3, 4, 5]) None 5 1)\<lparr>pb_payload := Some 14, pb_len := 5\<rparr>"

definition send_app :: "(unit, unit arp_stack, dma_channel set) app" where
  "send_app = arp_app\<lparr>glIsApplnActive := True, pbufs := demo_chain\<lparr>pb_obj := [PoolPbuf 3 \<mapsto> send_buf]\<rparr>,
     net := (net arp_app)\<lparr>stack := arp_one (static_for\<lparr>ae_state := ETHARP_STATE_STABLE\<rparr>)\<rparr>\<rparr>"

abbreviation send_lwip :: "(unit, unit arp_stack, dma_channel set) lwip" where
  "send_lwip \<equiv> with_etharp demo_sdk 1 arp_lwip"

definition send_fw :: "(unit, unit arp_stack, dma_channel set) fw" where
  "send_fw = snd (projr (net_can_tx (app_env demo_sdk send_lwip) 19 \<lparr>ncm_if = ncm_ready, world = send_app\<rparr>))"

lemma send_fw_run: "net_can_tx (app_env demo_sdk send_lwip) 19 \<lparr>ncm_if = ncm_ready, world = send_app\<rparr> = Inr (True, send_fw)"
proof -
  have "\<exists>t. net_can_tx (app_env demo_sdk send_lwip) 19 \<lparr>ncm_if = ncm_ready, world = send_app\<rparr> = Inr (True, t)"
    by (simp add: net_can_tx_def tx_datagram_fits_user_ntb_def tx_accept_user_ntb_def act_defs get_if_def modify_if_def
      on_list_def ncm_ready_def ncm_zero_def pop_ntb_def push_ntb_def NCM_NTB_N_def ntb_modify_def ring_index_advance_def)
  then show ?thesis by (auto simp: send_fw_def)
qed

lemma send_fw_state: "ncm_reach (app_env demo_sdk send_lwip) send_fw" "world send_fw = send_app" "tx_room 19 (ncm_if send_fw)"
proof -
  let ?s = "\<lparr>ncm_if = ncm_ready, world = send_app\<rparr>"
  have r: "ncm_reach (app_env demo_sdk send_lwip) ?s"
    by (rule ncm_reach.init [of "\<lparr>ncm_if = ncm_zero, world = send_app\<rparr>"]) (simp add: net_init_eq)
  from ncm_reach.step [OF r ncm_step.can_tx [OF send_fw_run]]
  show "ncm_reach (app_env demo_sdk send_lwip) send_fw" .
  have "\<not> tx_room 19 ncm_ready" by (simp add: tx_room_def ncm_ready_def ncm_zero_def)
  moreover have "19 \<le> max_datagram" by (simp add: max_datagram_def ntb_sizes ncm_consts)
  ultimately show "world send_fw = send_app" "tx_room 19 (ncm_if send_fw)"
    using wpx_conj [OF net_can_tx_spec [OF reach_tx_inv [OF r], of "app_env demo_sdk send_lwip" 19]
        net_can_tx_block [OF reach_tx_inv [OF r], of "app_env demo_sdk send_lwip" 19]] send_fw_run
    by (auto simp: wpx_def)
qed

theorem ip_packet_becomes_ncm_datagram_witness:
  "tx_room 19 (ncm_if send_fw) \<and> dwp (ip4_output_app send_lwip (Some (PoolPbuf 3)) demo_host) (\<lambda>r s'. r = ERR_OK
      \<and> tx_appended 19 (ncm_if send_fw) [2, 0, 0, 0, 0, 9, 2, 0, 0, 0, 0, 1, 8, 0, 1, 2, 3, 4, 5] (ncm_if s')) send_fw"
proof -
  let ?h = "[PoolPbuf 3 \<mapsto> send_buf]" and ?e = "static_for\<lparr>ae_state := ETHARP_STATE_STABLE\<rparr>"
  note w = send_fw_state(2)
  have st: "astk send_fw = arp_one ?e" "netif_data (net (world send_fw)) = arp_netif" "pb_obj (pbufs (world send_fw)) = ?h"
    "glIsApplnActive (world send_fw)" by (simp_all add: w send_app_def arp_app_def)
  have arp: "arp_inv (astk send_fw)"
    by (simp add: st arp_inv_def arp_one_def static_for_def arp_zero_def arp_entry_zero_def entry_ok_def sole_at_def nth_Cons' arp_consts)
  have hop: "next_hop arp_netif demo_host = Some demo_host" by (simp add: next_hop_def arp_netif_def)
  have i: "arp_resolved (arp_table (astk send_fw)) demo_host = Some 0"
    by (simp add: st arp_resolved_def arp_one_def static_for_def)
  have e: "arp_table (astk send_fw) ! 0 = ?e" "ae_ctime ?e < ARP_AGE_REREQUEST_USED_UNICAST"
    by (simp_all add: st static_for_def arp_entry_zero_def arp_consts)
  have p: "packet ?h (Some (PoolPbuf 3)) [PoolPbuf 3]" "length [PoolPbuf 3] < chain_fuel"
    by (simp_all add: packet_def send_buf_def demo_buf_def payload_ok_def chain_fuel_def)
  have b: "?h (PoolPbuf 3) = Some send_buf" "headroom 14 send_buf"
    by (simp_all add: headroom_def send_buf_def demo_buf_def pbuf_consts)
  have l: "lens ?h [PoolPbuf 3] + 14 = 19" by (simp add: send_buf_def)
  have room: "19 \<le> max_datagram" "tx_room (of_nat 19) (ncm_if send_fw)"
    using send_fw_state(3) by (simp_all add: max_datagram_def ntb_sizes ncm_consts)
  have f: "eth_frame (ae_ethaddr ?e) (hwaddr arp_netif) ETHTYPE_IP (chain_data ?h [PoolPbuf 3]) =
      [2, 0, 0, 0, 0, 9, 2, 0, 0, 0, 0, 1, 8, 0, 1, 2, 3, 4, 5]"
    by (simp add: eth_frame_def static_for_def arp_netif_def ETHTYPE_IP_def bdata_def send_buf_def demo_buf_def payload_bytes_def)
  show ?thesis
    using ip_packet_becomes_ncm_datagram [where fuel = 0, OF _ st(4) arp st(2) _ _ _ hop i e st(3) p b, unfolded l f, OF _ _ _ _ room]
      send_fw_state(1,3) demo_host_ok by (simp add: arp_netif_def)
qed

end
