(* ===== verification/Lwip_Chksum.thy ===== *)
theory Lwip_Chksum
  imports Lwip_Chain Lwip_Addr
begin

text \<open>
  The Internet checksum (lib/lwip/src/core/inet_chksum.c) with the configured algorithm 2, and its equivalence
  with the one's complement sum of RFC 1071: over a memory area, at even and odd addresses, over a chain of packet
  buffers, and with the pseudo header.
\<close>

section \<open>The code\<close>

definition FOLD_U32T :: "u32 \<Rightarrow> u32" where
  "FOLD_U32T u = drop_bit 16 u + (u AND 0x0000FFFF)"

definition SWAP_BYTES_IN_WORD :: "u32 \<Rightarrow> u32" where
  "SWAP_BYTES_IN_WORD w = push_bit 8 (w AND 0xFF) OR drop_bit 8 (w AND 0xFF00)"

text \<open>The loop over the 16-bit words; it leaves the bytes that are left over, one at most.\<close>

fun chksum_words :: "u8 list \<Rightarrow> u32 \<Rightarrow> u8 list \<times> u32" where
  "chksum_words (a # b # bs) acc = chksum_words bs (acc + ucast (rd16 (\<lambda>i. [a, b] ! i) 0))"
| "chksum_words bs acc = (bs, acc)"

text \<open>\<^verbatim>\<open>lwip_standard_chksum\<close> on the bytes at an even or an odd address; \<open>t0\<close> and \<open>t1\<close> are the bytes of \<open>t\<close>.\<close>

definition lwip_standard_chksum :: "bool \<Rightarrow> u8 list \<Rightarrow> u16" where
  "lwip_standard_chksum od bs =
     (let t1 = (if od \<and> 0 < length bs then hd bs else 0);
          bs = (if od \<and> 0 < length bs then tl bs else bs);
          (rest, acc) = chksum_words bs 0;
          t0 = (if 0 < length rest then hd rest else 0);
          acc = acc + ucast (rd16 (\<lambda>i. [t0, t1] ! i) 0);
          acc = FOLD_U32T acc;
          acc = FOLD_U32T acc;
          acc = (if od then SWAP_BYTES_IN_WORD acc else acc)
      in ucast acc)"

text \<open>\<^verbatim>\<open>inet_chksum\<close> on the memory at its pointer; the length is 16 bits wide.\<close>

definition inet_chksum :: "bool \<Rightarrow> u8 list \<Rightarrow> u16 \<Rightarrow> u16" where
  "inet_chksum od bs len = NOT (lwip_standard_chksum od (take (unat len) bs))"

text \<open>
  The checksum over a chain.  Whether a payload lies at an odd address follows from \<open>A\<close>, which gives the addresses
  of the memory areas of the buffers.
\<close>

type_synonym pbuf_addr = "pptr \<Rightarrow> nat"

definition payload_odd :: "pbuf_addr \<Rightarrow> pptr option \<Rightarrow> pbuf \<Rightarrow> bool" where
  "payload_odd A q b = (case (q, pb_payload b) of (Some x, Some a) \<Rightarrow> odd (A x + a) | _ \<Rightarrow> False)"

fun chksum_chain :: "pbuf_addr \<Rightarrow> nat \<Rightarrow> pptr option \<Rightarrow> bool \<Rightarrow> u32 \<Rightarrow> ('h pbuf_sys, bool \<times> u32) act" where
  "chksum_chain A 0 q swapped acc = act_fail NoReturn"
| "chksum_chain A (Suc fuel) q swapped acc =
     (if q = None then act_return (swapped, acc)
      else
        act_bind (pb_get q) (\<lambda>b.
        act_bind (pb_read q 0 (unat (pb_len b))) (\<lambda>bs.
        let acc = FOLD_U32T (acc + ucast (lwip_standard_chksum (payload_odd A q b) bs)) in
        if odd (unat (pb_len b)) then chksum_chain A fuel (pb_next b) (\<not> swapped) (SWAP_BYTES_IN_WORD acc)
        else chksum_chain A fuel (pb_next b) swapped acc)))"

definition inet_chksum_pbuf :: "pbuf_addr \<Rightarrow> pptr option \<Rightarrow> ('h pbuf_sys, u16) act" where
  "inet_chksum_pbuf A p =
     act_bind (chksum_chain A chain_fuel p False 0) (\<lambda>(swapped, acc).
     let acc = (if swapped then SWAP_BYTES_IN_WORD acc else acc) in
     act_return (ucast (NOT (acc AND 0xFFFF))))"

definition pseudo_sum :: "bool \<Rightarrow> u8 \<Rightarrow> u16 \<Rightarrow> u32 \<Rightarrow> u16" where
  "pseudo_sum swapped proto proto_len acc =
     (let acc = (if swapped then SWAP_BYTES_IN_WORD acc else acc);
          acc = acc + ucast (lwip_htons (ucast proto));
          acc = acc + ucast (lwip_htons proto_len);
          acc = FOLD_U32T acc;
          acc = FOLD_U32T acc
      in ucast (NOT (acc AND 0xFFFF)))"

definition inet_cksum_pseudo_base :: "pbuf_addr \<Rightarrow> pptr option \<Rightarrow> u8 \<Rightarrow> u16 \<Rightarrow> u32 \<Rightarrow> ('h pbuf_sys, u16) act" where
  "inet_cksum_pseudo_base A p proto proto_len acc =
     act_bind (chksum_chain A chain_fuel p False acc) (\<lambda>(swapped, acc).
     act_return (pseudo_sum swapped proto proto_len acc))"

text \<open>The sum of the two addresses, folded to 16 bits.\<close>

definition addr_sum :: "ip4_addr_t \<Rightarrow> ip4_addr_t \<Rightarrow> u32" where
  "addr_sum src dest =
     (let acc = src AND 0xFFFF;
          acc = acc + (drop_bit 16 src AND 0xFFFF);
          acc = acc + (dest AND 0xFFFF);
          acc = acc + (drop_bit 16 dest AND 0xFFFF);
          acc = FOLD_U32T acc
      in FOLD_U32T acc)"

definition inet_chksum_pseudo ::
  "pbuf_addr \<Rightarrow> pptr option \<Rightarrow> u8 \<Rightarrow> u16 \<Rightarrow> ip4_addr_t \<Rightarrow> ip4_addr_t \<Rightarrow> ('h pbuf_sys, u16) act" where
  "inet_chksum_pseudo A p proto proto_len src dest = inet_cksum_pseudo_base A p proto proto_len (addr_sum src dest)"

definition ip_chksum_pseudo ::
  "pbuf_addr \<Rightarrow> pptr option \<Rightarrow> u8 \<Rightarrow> u16 \<Rightarrow> ip4_addr_t \<Rightarrow> ip4_addr_t \<Rightarrow> ('h pbuf_sys, u16) act" where
  "ip_chksum_pseudo A p proto proto_len src dest = inet_chksum_pseudo A p proto proto_len src dest"

fun chksum_chain_partial ::
  "pbuf_addr \<Rightarrow> nat \<Rightarrow> pptr option \<Rightarrow> u16 \<Rightarrow> bool \<Rightarrow> u32 \<Rightarrow> ('h pbuf_sys, bool \<times> u32) act" where
  "chksum_chain_partial A 0 q chksum_len swapped acc = act_fail NoReturn"
| "chksum_chain_partial A (Suc fuel) q chksum_len swapped acc =
     (if q = None \<or> \<not> 0 < chksum_len then act_return (swapped, acc)
      else
        act_bind (pb_get q) (\<lambda>b.
        let chklen = (if pb_len b > chksum_len then chksum_len else pb_len b) in
        act_bind (pb_read q 0 (unat chklen)) (\<lambda>bs.
        let acc = FOLD_U32T (acc + ucast (lwip_standard_chksum (payload_odd A q b) bs)) in
        if odd (unat (pb_len b))
        then chksum_chain_partial A fuel (pb_next b) (chksum_len - chklen) (\<not> swapped) (SWAP_BYTES_IN_WORD acc)
        else chksum_chain_partial A fuel (pb_next b) (chksum_len - chklen) swapped acc)))"

definition inet_cksum_pseudo_partial_base ::
  "pbuf_addr \<Rightarrow> pptr option \<Rightarrow> u8 \<Rightarrow> u16 \<Rightarrow> u16 \<Rightarrow> u32 \<Rightarrow> ('h pbuf_sys, u16) act" where
  "inet_cksum_pseudo_partial_base A p proto proto_len chksum_len acc =
     act_bind (chksum_chain_partial A chain_fuel p chksum_len False acc) (\<lambda>(swapped, acc).
     act_return (pseudo_sum swapped proto proto_len acc))"

definition inet_chksum_pseudo_partial ::
  "pbuf_addr \<Rightarrow> pptr option \<Rightarrow> u8 \<Rightarrow> u16 \<Rightarrow> u16 \<Rightarrow> ip4_addr_t \<Rightarrow> ip4_addr_t \<Rightarrow> ('h pbuf_sys, u16) act" where
  "inet_chksum_pseudo_partial A p proto proto_len chksum_len src dest =
     inet_cksum_pseudo_partial_base A p proto proto_len chksum_len (addr_sum src dest)"

definition ip_chksum_pseudo_partial ::
  "pbuf_addr \<Rightarrow> pptr option \<Rightarrow> u8 \<Rightarrow> u16 \<Rightarrow> u16 \<Rightarrow> ip4_addr_t \<Rightarrow> ip4_addr_t \<Rightarrow> ('h pbuf_sys, u16) act" where
  "ip_chksum_pseudo_partial A p proto proto_len chksum_len src dest =
     inet_chksum_pseudo_partial A p proto proto_len chksum_len src dest"

section \<open>One's complement arithmetic\<close>

text \<open>The sum of the 16-bit words of a byte string, padded with a zero byte, and the end-around carry.\<close>

fun word_sum :: "u8 list \<Rightarrow> nat" where
  "word_sum [] = 0"
| "word_sum [a] = unat a"
| "word_sum (a # b # bs) = unat a + 256 * unat b + word_sum bs"

definition ones :: "nat \<Rightarrow> nat" where
  "ones n = (if n = 0 then 0 else (n - 1) mod 65535 + 1)"

lemma ones_small: "n < 65536 \<Longrightarrow> ones n = n"
  by (auto simp: ones_def)

lemma ones_bound: "ones n < 65536"
  by (simp add: ones_def)

lemma ones_0: "ones n = 0 \<longleftrightarrow> n = 0"
  by (simp add: ones_def)

lemma mod_add_cong: "x mod n = y mod n \<Longrightarrow> (k + x) mod n = (k + y) mod n" for x y n k :: nat
  by (metis mod_add_right_eq)

lemma mod_fold: "(65536 * q + r) mod 65535 = (q + r) mod 65535" for q r :: nat
proof -
  have "65536 * q + r = 65535 * q + (q + r)" by simp
  then show ?thesis by (simp only: mod_mult_self4)
qed

lemma ones_alt: "n \<noteq> 0 \<Longrightarrow> ones n = (65534 + n) mod 65535 + 1"
proof -
  assume "n \<noteq> 0"
  then have "65534 + n = n - 1 + 65535" by simp
  with \<open>n \<noteq> 0\<close> show ?thesis by (simp only: ones_def mod_add_self2 if_False)
qed

lemma ones_cong:
  assumes "n mod 65535 = m mod 65535" "(n = 0) = (m = 0)"
  shows "ones n = ones m"
proof (cases "n = 0")
  case False
  then show ?thesis using assms(2) by (simp only: ones_alt mod_add_cong [OF assms(1), of 65534] simp_thms)
qed (use assms in simp)

lemma ones_mod: "ones n mod 65535 = n mod 65535"
proof (cases "n = 0")
  case False
  then have "ones n = (65534 + n) mod 65535 + 1" by (rule ones_alt)
  then have "ones n mod 65535 = (65534 + n + 1) mod 65535" by (simp only: mod_add_left_eq)
  then show ?thesis by (simp only: add.commute [of 65534] add.assoc) simp
qed (simp add: ones_def)

lemma ones_add: "ones (ones a + b) = ones (a + b)" "ones (a + ones b) = ones (a + b)"
proof -
  show "ones (a + ones b) = ones (a + b)" for a b by (rule ones_cong) (auto intro: mod_add_cong simp: ones_mod ones_0)
  from this [of b a] show "ones (ones a + b) = ones (a + b)" by (simp only: add.commute)
qed

lemma ones_mult: "ones (k * ones a) = ones (k * a)"
  by (rule ones_cong) (metis mod_mult_right_eq ones_mod, simp add: ones_0)

lemma ones_fold: "ones (n div 65536 + n mod 65536) = ones n"
proof (rule ones_cong)
  show "(n div 65536 + n mod 65536) mod 65535 = n mod 65535"
    using mod_fold [of "n div 65536" "n mod 65536"] by (simp only: mult_div_mod_eq)
  show "(n div 65536 + n mod 65536 = 0) = (n = 0)" by (metis add_is_0 div_0 mod_0 mult_div_mod_eq mult_0_right)
qed

lemma ones_swap:
  assumes "x < 65536"
  shows "ones (256 * x) = 256 * (x mod 256) + x div 256"
proof -
  have x: "256 * x = 65536 * (x div 256) + 256 * (x mod 256)" using mult_div_mod_eq [of 256 x] by linarith
  have "ones (256 * x) = ones (x div 256 + 256 * (x mod 256))"
    by (rule ones_cong) (simp only: x mod_fold, use x in linarith)
  then show ?thesis using assms by (simp add: ones_small)
qed

lemma ones_swap_twice: "ones (65536 * x) = ones x"
  using mod_fold [of x 0] by (intro ones_cong) simp_all

lemma word_sum_0: "word_sum bs = 0 \<longleftrightarrow> set bs \<subseteq> {0}"
  by (induction bs rule: word_sum.induct) (auto simp: unat_eq_0)

lemma word_sum_Cons: "word_sum (a # bs) mod 65535 = (unat a + 256 * word_sum bs) mod 65535"
proof (induction bs arbitrary: a rule: word_sum.induct)
  case (3 b c bs)
  have "word_sum (a # b # c # bs) mod 65535 = (unat a + 256 * unat b + (unat c + 256 * word_sum bs)) mod 65535"
    unfolding word_sum.simps(3) by (rule mod_add_cong [OF 3])
  also have "\<dots> = (65536 * unat c + (unat a + 256 * unat b + 256 * word_sum bs)) mod 65535"
    unfolding mod_fold by (rule arg_cong [where f = "\<lambda>x. x mod 65535"]) simp
  finally show ?case by (simp add: algebra_simps)
qed simp_all

lemma word_sum_append:
  "ones (word_sum (xs @ ys)) = ones (word_sum xs + (if even (length xs) then 1 else 256) * word_sum ys)"
proof (rule ones_cong)
  show "word_sum (xs @ ys) mod 65535 = (word_sum xs + (if even (length xs) then 1 else 256) * word_sum ys) mod 65535"
  proof (induction xs rule: word_sum.induct)
    case (2 a)
    then show ?case by (simp add: word_sum_Cons)
  next
    case (3 a b bs)
    from mod_add_cong [OF 3, of "unat a + 256 * unat b"] show ?case by (simp add: add.assoc split: if_splits)
  qed simp
  show "(word_sum (xs @ ys) = 0) = (word_sum xs + (if even (length xs) then 1 else 256) * word_sum ys = 0)"
    by (auto simp: word_sum_0)
qed

lemma word_pair_bound: "unat a + 256 * unat b \<le> 65535" for a b :: u8
proof -
  have "unat a < 256" "unat b < 256" by simp_all
  then show ?thesis by linarith
qed

lemma word_sum_bound: "word_sum bs \<le> 65535 * ((length bs + 1) div 2)"
proof (induction bs rule: word_sum.induct)
  case (2 a)
  then show ?case using word_pair_bound [of a 0] by simp
next
  case (3 a b bs)
  then show ?case using word_pair_bound [of a b] by simp
qed simp

section \<open>The machine arithmetic\<close>

lemma and_masks: "u AND 0xFFFF = take_bit 16 u" "u AND 0xFF = take_bit 8 u" for u :: u32
  by (simp_all add: take_bit_eq_mask mask_eq_exp_minus_1)

lemma unat_parts:
  "unat (drop_bit 16 u) = unat u div 65536" "unat (take_bit 16 u) = unat u mod 65536" "unat (take_bit 8 u) = unat u mod 256"
  "unat (drop_bit 8 u) = unat u div 256" for u :: u32
  by (subst unat_drop_bit_eq unsigned_take_bit_eq, simp add: drop_bit_eq_div take_bit_eq_mod)+

lemma unat_widen [simp]: "unat (ucast (x :: u16) :: u32) = unat x"
proof -
  have "unat x < 2 ^ LENGTH(32)" using unat_u16_bound [of x] by (rule less_trans) simp
  then show ?thesis by (simp only: unsigned_ucast_eq take_bit_nat_eq_self)
qed

lemma unat_FOLD: "unat (FOLD_U32T u) = unat u div 65536 + unat u mod 65536"
proof -
  have "unat u < 4294967296" by simp
  then have "unat u div 65536 < 65536" by (simp add: div_less_iff_less_mult)
  moreover have "unat u mod 65536 < 65536" by simp
  ultimately have "unat u div 65536 + unat u mod 65536 < 4294967296" by linarith
  then show ?thesis
    by (simp add: FOLD_U32T_def and_masks unat_u32_add unat_parts)
qed

lemma ones_FOLD: "ones (unat (FOLD_U32T u)) = ones (unat u)"
  unfolding unat_FOLD by (rule ones_fold)

lemma FOLD_bound:
  assumes "unat u \<le> 131070"
  shows "unat (FOLD_U32T u) < 65536"
proof -
  define q r where "q = unat u div 65536" and "r = unat u mod 65536"
  have "unat u = 65536 * q + r" "r < 65536" by (simp_all add: q_def r_def)
  moreover from this have "q < 2" using assms by linarith
  ultimately have "q + r < 65536" using assms by (cases "q = 0") linarith+
  then show ?thesis by (simp add: unat_FOLD q_def r_def)
qed

lemma unat_FOLD_once: "unat u \<le> 131070 \<Longrightarrow> unat (FOLD_U32T u) = ones (unat u)"
  using ones_FOLD [of u] ones_small [OF FOLD_bound] by simp

lemma unat_FOLD_twice: "unat (FOLD_U32T (FOLD_U32T u)) = ones (unat u)"
proof -
  have "unat u < 4294967296" by simp
  then have "unat u div 65536 < 65536" by (simp add: div_less_iff_less_mult)
  moreover have "unat u mod 65536 < 65536" by simp
  ultimately have "unat (FOLD_U32T u) \<le> 131070" unfolding unat_FOLD by linarith
  then show ?thesis by (simp add: unat_FOLD_once ones_FOLD)
qed

lemma or_bytes: "x < 256 \<Longrightarrow> x OR push_bit 8 y = x + 256 * y" for x y :: nat
proof -
  assume "x < 256"
  then have "take_bit 8 x = x" by (simp add: take_bit_nat_eq_self)
  then have "x AND push_bit 8 y = 0" by (metis bit_eqI bit_and_iff bit_push_bit_iff bit_take_bit_iff bit_0_eq bot_apply bot_bool_def not_le)
  then show ?thesis by (simp add: disjunctive_add_eq_or [symmetric] push_bit_eq_mult)
qed

lemma unat_rd16: "unat (rd16 (\<lambda>i. [a, b] ! i) 0) = unat a + 256 * unat b"
proof -
  have "unat a < 65536" "unat b < 65536" "push_bit 8 (unat b) < 65536"
    using unat_u8_bound [of a] unat_u8_bound [of b] by (simp_all add: push_bit_eq_mult del: unat_u8_bound)
  then have "take_bit 16 (unat a) = unat a" "take_bit 16 (unat b) = unat b" "take_bit 16 (push_bit 8 (unat b)) = push_bit 8 (unat b)"
    by (simp_all add: take_bit_nat_eq_self)
  then show ?thesis by (simp add: rd16_def unsigned_or_eq unsigned_push_bit_eq unsigned_ucast_eq or_bytes)
qed

lemma unat_SWAP:
  assumes "unat w < 65536"
  shows "unat (SWAP_BYTES_IN_WORD w) = ones (256 * unat w)"
proof -
  have n: "unat w mod 256 < 256" "unat w div 256 < 256" using assms by (simp_all add: div_less_iff_less_mult)
  have "drop_bit 8 (w AND 0xFF00) = take_bit 8 (drop_bit 8 w)"
    unfolding byte_masks by (rule bit_word_eqI) (auto simp: bit_simps)
  moreover have "unat (push_bit 8 (take_bit 8 w)) = push_bit 8 (unat w mod 256)"
    using n(1) by (simp only: unsigned_push_bit_eq unat_parts) (simp add: take_bit_nat_eq_self push_bit_eq_mult)
  moreover have "unat (take_bit 8 (drop_bit 8 w)) = unat w div 256"
    using n(2) by (simp only: unat_parts mod_less)
  ultimately have "unat (SWAP_BYTES_IN_WORD w) = push_bit 8 (unat w mod 256) OR (unat w div 256)"
    by (simp only: SWAP_BYTES_IN_WORD_def and_masks unsigned_or_eq)
  then show ?thesis using n(2) by (simp add: or.commute or_bytes ones_swap [OF assms])
qed

section \<open>A memory area\<close>

abbreviation full_words :: "u8 list \<Rightarrow> nat" where
  "full_words bs \<equiv> 2 * (length bs div 2)"

lemma chksum_words_run:
  assumes "unat acc + 65535 * (length bs div 2) < 4294967296"
  shows "\<exists>acc'. chksum_words bs acc = (drop (full_words bs) bs, acc') \<and> unat acc' = unat acc + word_sum (take (full_words bs) bs)"
  using assms
proof (induction bs acc rule: chksum_words.induct)
  case (1 a b bs acc)
  let ?w = "ucast (rd16 (\<lambda>i. [a, b] ! i) 0) :: u32"
  have w: "unat ?w = unat a + 256 * unat b" by (simp only: unat_widen unat_rd16)
  have s: "unat (acc + ?w) = unat acc + (unat a + 256 * unat b)"
    using 1(2) word_pair_bound [of a b] w by (simp add: unat_u32_add)
  have "unat (acc + ?w) + 65535 * (length bs div 2) < 4294967296" using 1(2) word_pair_bound [of a b] s by simp
  from 1(1) [OF this] s show ?case by auto
qed auto

lemma word_sum_split: "word_sum bs = word_sum (take (full_words bs) bs) + word_sum (drop (full_words bs) bs)"
  by (induction bs rule: word_sum.induct) auto

lemma rest_cases: "drop (full_words bs) bs = [] \<or> (\<exists>b. drop (full_words bs) bs = [b])"
  by (induction bs rule: word_sum.induct) auto

lemma lwip_standard_chksum_eq:
  assumes "length bs \<le> 0x20000"
  shows "unat (lwip_standard_chksum od bs) = ones (word_sum bs)"
proof -
  define t1 ds where "t1 = (if od \<and> 0 < length bs then hd bs else 0)" and "ds = (if od \<and> 0 < length bs then tl bs else bs)"
  define t0 where "t0 = (if 0 < length (drop (full_words ds) ds) then hd (drop (full_words ds) ds) else 0)"
  have len: "length ds \<le> 0x20000" using assms by (auto simp: ds_def)
  then have "65535 * (length ds div 2) \<le> 65535 * 65536" by simp
  then obtain acc where acc: "chksum_words ds 0 = (drop (full_words ds) ds, acc)" "unat acc = word_sum (take (full_words ds) ds)"
    using chksum_words_run [of 0 ds] by auto
  let ?u = "acc + ucast (rd16 (\<lambda>i. [t0, t1] ! i) 0)"
  have "word_sum (take (full_words ds) ds) \<le> 65535 * (length ds div 2)"
    using word_sum_bound [of "take (full_words ds) ds"] by (simp add: min_absorb2)
  then have "unat acc + (unat t0 + 256 * unat t1) < 4294967296" using len acc(2) word_pair_bound [of t0 t1] by simp
  then have u: "unat ?u = unat acc + (unat t0 + 256 * unat t1)"
    by (simp only: unat_u32_add unat_widen unat_rd16 mod_less)
  have "word_sum (drop (full_words ds) ds) = unat t0" using rest_cases [of ds] by (auto simp: t0_def)
  then have sum: "unat ?u = word_sum ds + 256 * unat t1" using u acc(2) word_sum_split [of ds] by simp
  have r: "lwip_standard_chksum od bs =
      ucast (if od then SWAP_BYTES_IN_WORD (FOLD_U32T (FOLD_U32T ?u)) else FOLD_U32T (FOLD_U32T ?u))"
    unfolding lwip_standard_chksum_def Let_def t1_def [symmetric] ds_def [symmetric] acc(1) prod.case t0_def [symmetric] ..
  have f: "unat (FOLD_U32T (FOLD_U32T ?u)) = ones (unat ?u)" by (rule unat_FOLD_twice)
  show ?thesis
  proof (cases od)
    case False
    then have "unat ?u = word_sum bs" using sum by (simp add: t1_def ds_def)
    then show ?thesis using f False ones_bound [of "unat ?u"] unfolding r
      by (simp add: unsigned_ucast_eq take_bit_nat_eq_self)
  next
    case True
    have "unat (SWAP_BYTES_IN_WORD (FOLD_U32T (FOLD_U32T ?u))) = ones (256 * unat ?u)"
      by (simp only: unat_SWAP f ones_bound ones_mult)
    also have "\<dots> = ones (word_sum bs)"
    proof (cases bs)
      case (Cons b bs')
      then have "256 * unat ?u = 65536 * unat b + 256 * word_sum bs'" using sum True by (simp add: t1_def ds_def)
      then show ?thesis unfolding Cons
        by (intro ones_cong) (simp only: mod_fold word_sum_Cons, auto simp: word_sum_0 unat_eq_0)
    qed (use sum in \<open>simp add: t1_def ds_def\<close>)
    finally show ?thesis using True ones_bound [of "word_sum bs"] unfolding r
      by (simp add: unsigned_ucast_eq take_bit_nat_eq_self)
  qed
qed

section \<open>A chain of packet buffers\<close>

text \<open>The weight of a sum that is kept with its bytes swapped.\<close>

abbreviation weight :: "bool \<Rightarrow> nat" where
  "weight od \<equiv> if od then 256 else 1"

lemma ones_weight:
  "ones (weight c * (ones (weight b * a) + r)) = ones (weight (b \<noteq> c) * (a + weight b * r))"
proof -
  have 1: "ones (weight c * (ones (weight b * a) + r)) = ones (weight c * (weight b * a + r))"
    by (metis ones_add(1) ones_mult)
  have 2: "ones (256 * (256 * a + r)) = ones (a + 256 * r)"
    using mod_fold [of a "256 * r"] by (intro ones_cong) (auto simp: algebra_simps)
  have 3: "ones (256 * a + r) = ones (256 * (a + 256 * r))"
    using mod_fold [of r "256 * a"] by (intro ones_cong) (auto simp: algebra_simps)
  show ?thesis unfolding 1 using 2 3 by (cases b; cases c) simp_all
qed

lemma ones_scaled: "ones x = ones y \<Longrightarrow> ones (w * (a + x)) = ones (w * (a + y))"
  by (metis ones_add(2) ones_mult)

lemma word_sum_weight: "ones (word_sum (xs @ ys)) = ones (word_sum xs + weight (odd (length xs)) * word_sum ys)"
  using word_sum_append [of xs ys] by (auto split: if_splits)

lemma chksum_step:
  assumes "unat acc < 65536" "length bs < 65536"
  shows "unat (FOLD_U32T (acc + ucast (lwip_standard_chksum od bs))) = ones (unat acc + word_sum bs)"
proof -
  have c: "unat (lwip_standard_chksum od bs) = ones (word_sum bs)" using assms by (intro lwip_standard_chksum_eq) simp
  then have "unat (acc + ucast (lwip_standard_chksum od bs)) = unat acc + ones (word_sum bs)"
    using assms(1) ones_bound [of "word_sum bs"] by (simp add: unat_u32_add)
  then show ?thesis using assms(1) ones_bound [of "word_sum bs"] by (subst unat_FOLD_once) (simp_all add: ones_add)
qed

lemma chksum_chain_run:
  assumes "seg (pb_obj s) q xs None k" "length xs < fuel" "unat acc < 65536"
  shows "\<exists>acc'. chksum_chain A fuel q swapped acc s = Inr ((swapped \<noteq> odd (lens (pb_obj s) xs), acc'), s)
    \<and> unat acc' = ones (weight (odd (lens (pb_obj s) xs)) * (unat acc + word_sum (chain_data (pb_obj s) xs)))"
  using assms
proof (induction xs arbitrary: q fuel acc swapped)
  case Nil
  then obtain f where "fuel = Suc f" by (cases fuel) auto
  then show ?case using Nil by (auto simp: act_return_def ones_small)
next
  case (Cons x xs)
  then obtain f b where f: "fuel = Suc f" and q: "q = Some x" "pb_obj s x = Some b" "payload_ok b 0 (unat (pb_len b))"
      and tl: "seg (pb_obj s) (pb_next b) xs None k" by (cases fuel) auto
  let ?n = "unat (pb_len b)" and ?bs = "payload_bytes b 0 (unat (pb_len b))"
  let ?acc = "FOLD_U32T (acc + ucast (lwip_standard_chksum (payload_odd A q b) ?bs))"
  let ?acc2 = "if odd ?n then SWAP_BYTES_IN_WORD ?acc else ?acc"
  have len: "length ?bs = ?n" using length_bdata [where h = "pb_obj s", OF q(2,3)] q(2) by (simp add: bdata_Some)
  have one: "unat ?acc = ones (unat acc + word_sum ?bs)" using Cons.prems(3) len by (intro chksum_step) simp_all
  have two: "unat ?acc2 = ones (weight (odd ?n) * (unat acc + word_sum ?bs))"
    using one ones_bound [of "unat acc + word_sum ?bs"] by (simp add: unat_SWAP ones_mult)
  have run: "chksum_chain A fuel q swapped acc s = chksum_chain A f (pb_next b) (swapped \<noteq> odd ?n) ?acc2 s"
    using f q by (simp add: act_bind_def Let_def)
  obtain acc' where acc': "chksum_chain A f (pb_next b) (swapped \<noteq> odd ?n) ?acc2 s =
        Inr (((swapped \<noteq> odd ?n) \<noteq> odd (lens (pb_obj s) xs), acc'), s)"
      "unat acc' = ones (weight (odd (lens (pb_obj s) xs)) * (unat ?acc2 + word_sum (chain_data (pb_obj s) xs)))"
    using Cons.IH [OF tl, of f ?acc2 "swapped \<noteq> odd ?n"] Cons.prems(2) f two ones_bound by auto
  have "ones (weight (odd (lens (pb_obj s) (x # xs))) * (unat acc + word_sum (chain_data (pb_obj s) (x # xs)))) =
      ones (weight (odd ?n \<noteq> odd (lens (pb_obj s) xs)) * (unat acc + (word_sum ?bs + weight (odd ?n) * word_sum (chain_data (pb_obj s) xs))))"
    unfolding chain_data_simps lens_simps bdata_Some [where h = "pb_obj s", OF q(2)] blen_Some [where h = "pb_obj s", OF q(2)]
    using ones_scaled [OF word_sum_weight, of _ _ ?bs, unfolded len] by (simp only: odd_add)
  then show ?case
    using run acc' q(2) unfolding two ones_weight by (auto simp: add.assoc)
qed

text \<open>The checksum of RFC 1071: the complement of the one's complement sum.\<close>

definition rfc1071 :: "u8 list \<Rightarrow> u16" where
  "rfc1071 bs = of_nat (65535 - ones (word_sum bs))"

lemma complement_u16: "unat x = n \<Longrightarrow> NOT x = of_nat (65535 - n)" for x :: u16
proof -
  assume "unat x = n"
  then have n: "x = of_nat n" "n \<le> 65535" using unat_u16_bound [of x] by auto
  have "(of_nat 65535 :: u16) = -1" by simp
  then show ?thesis using n by (simp add: not_eq_complement of_nat_diff del: of_nat_numeral)
qed

lemma complement_acc:
  fixes acc :: u32
  assumes "unat acc = ones n"
  shows "ucast (NOT (acc AND 0xFFFF)) = (of_nat (65535 - ones n) :: u16)"
proof -
  have "ucast (NOT (acc AND 0xFFFF)) = NOT (ucast acc :: u16)"
    unfolding and_masks by (rule bit_word_eqI) (auto simp: bit_simps)
  moreover have "unat (ucast acc :: u16) = ones n"
    using assms ones_bound [of n] by (simp add: unsigned_ucast_eq take_bit_nat_eq_self)
  ultimately show ?thesis by (simp add: complement_u16)
qed

lemma inet_chksum_take: "inet_chksum od bs len = rfc1071 (take (unat len) bs)"
proof -
  have "unat len < 65536" by (rule unat_u16_bound)
  then have "length (take (unat len) bs) \<le> 0x20000" by (simp only: length_take)
  then show ?thesis
    unfolding inet_chksum_def rfc1071_def by (intro complement_u16 lwip_standard_chksum_eq)
qed

lemma inet_chksum_eq: "unat len = length bs \<Longrightarrow> inet_chksum od bs len = rfc1071 bs"
  by (simp add: inet_chksum_take)

lemma unswap:
  assumes "unat acc = ones (weight b * n)"
  shows "unat (if b then SWAP_BYTES_IN_WORD acc else acc) = ones n"
  using assms ones_bound [of "256 * n"] by (simp add: unat_SWAP ones_mult ones_swap_twice)

lemma inet_chksum_pbuf_run:
  assumes "packet (pb_obj s) p xs" "length xs < chain_fuel"
  shows "inet_chksum_pbuf A p s = Inr (rfc1071 (chain_data (pb_obj s) xs), s)"
proof -
  obtain acc where acc: "chksum_chain A chain_fuel p False 0 s = Inr ((odd (lens (pb_obj s) xs), acc), s)"
      "unat acc = ones (weight (odd (lens (pb_obj s) xs)) * word_sum (chain_data (pb_obj s) xs))"
    using chksum_chain_run [of s p xs 0 chain_fuel 0 A False] assms by (auto simp: packet_def)
  from complement_acc [OF unswap [OF acc(2)]] acc(1) show ?thesis
    by (simp add: inet_chksum_pbuf_def act_bind_def act_return_def rfc1071_def Let_def)
qed

section \<open>The pseudo header\<close>

definition pseudo_header :: "ip4_addr_t \<Rightarrow> ip4_addr_t \<Rightarrow> u8 \<Rightarrow> u16 \<Rightarrow> u8 list" where
  "pseudo_header src dest proto len = le32 src @ le32 dest @ [0, proto] @ [ucast (drop_bit 8 len), ucast len]"

lemma le16_parts: "unat (ucast v :: u8) + 256 * unat (ucast (drop_bit 8 v) :: u8) = unat v" for v :: u16
proof -
  have "unat v < 65536" by simp
  then have "unat v div 256 < 256" by (simp add: div_less_iff_less_mult)
  moreover have "unat (ucast v :: u8) = unat v mod 256" by (simp add: unsigned_ucast_eq take_bit_eq_mod)
  moreover have "unat (ucast (drop_bit 8 v) :: u8) = unat v div 256 mod 256"
    by (subst unsigned_ucast_eq, subst unat_drop_bit_eq) (simp add: drop_bit_eq_div take_bit_eq_mod)
  ultimately show ?thesis by simp
qed

lemma word_sum_le16: "word_sum (le16 v @ bs) = unat v + word_sum bs"
  by (simp add: le16_def le16_parts)

lemma word_sum_le32: "word_sum (le32 v @ bs) = unat v mod 65536 + unat v div 65536 + word_sum bs"
proof -
  have "unat v < 4294967296" by simp
  then have "unat v div 65536 < 65536" by (simp add: div_less_iff_less_mult)
  moreover have "unat (ucast v :: u16) = unat v mod 65536" by (simp add: unsigned_ucast_eq take_bit_eq_mod)
  moreover have "unat (ucast (drop_bit 16 v) :: u16) = unat v div 65536 mod 65536"
    by (subst unsigned_ucast_eq, subst unat_drop_bit_eq) (simp add: drop_bit_eq_div take_bit_eq_mod)
  ultimately show ?thesis by (simp add: le32_def word_sum_le16)
qed

lemma unat_htons: "unat (lwip_htons v) = word_sum [ucast (drop_bit 8 v), ucast v]"
  using word_sum_le16 [of "lwip_htons v" "[]"] by (simp only: le16_htons append_Nil2 word_sum.simps add_0_right)

lemma unat_htons_byte: "unat (lwip_htons (ucast b)) = word_sum [0, b]" for b :: u8
proof -
  have "\<not> bit b (8 + n)" for n using bit_imp_le_length [of b "8 + n"] by auto
  then have "ucast (drop_bit 8 (ucast b :: u16)) = (0 :: u8)" "ucast (ucast b :: u16) = b"
    by (auto intro!: bit_word_eqI simp: bit_simps)
  then show ?thesis by (simp only: unat_htons)
qed

lemma unat_addr_sum: "unat (addr_sum src dest) = ones (word_sum (le32 src @ le32 dest))"
proof -
  have b: "unat v mod 65536 \<le> 65535" "unat v div 65536 \<le> 65535" for v :: u32
    using unat_u32_bound [of v] by (simp_all add: div_less_iff_less_mult less_Suc_eq_le [symmetric] del: unat_u32_bound)
  have h: "unat (drop_bit 16 v AND 0xFFFF) = unat v div 65536" for v :: u32
    using b(2) [of v] by (simp only: and_masks unat_parts) simp
  have "unat ((src AND 0xFFFF) + (drop_bit 16 src AND 0xFFFF) + (dest AND 0xFFFF) + (drop_bit 16 dest AND 0xFFFF)) =
      word_sum (le32 src @ le32 dest)"
    using b [of src] b [of dest] word_sum_le32 [of dest "[]"]
    by (simp add: unat_u32_add h word_sum_le32) (simp add: and_masks unat_parts unat_u32_add)
  then show ?thesis unfolding addr_sum_def Let_def unat_FOLD_twice by simp
qed

lemma pseudo_sum_eq:
  assumes "unat acc = ones (weight swapped * n)"
  shows "pseudo_sum swapped proto len acc =
    of_nat (65535 - ones (word_sum [0, proto] + word_sum [ucast (drop_bit 8 len), ucast len] + n))"
proof -
  let ?a = "if swapped then SWAP_BYTES_IN_WORD acc else acc"
  have a: "unat ?a = ones n" by (rule unswap [OF assms])
  let ?u = "?a + ucast (lwip_htons (ucast proto)) + ucast (lwip_htons len)"
  have u: "unat ?u = ones n + unat (lwip_htons (ucast proto)) + unat (lwip_htons len)"
    using a ones_bound [of n] unat_u16_bound [of "lwip_htons (ucast proto)"] unat_u16_bound [of "lwip_htons len"]
    by (simp add: unat_u32_add del: unat_u16_bound)
  have "ones (unat ?u) = ones (word_sum [0, proto] + word_sum [ucast (drop_bit 8 len), ucast len] + n)"
    unfolding u unat_htons_byte unat_htons [of len]
    using ones_add(1) [of n "word_sum [0, proto] + word_sum [ucast (drop_bit 8 len), ucast len]"] by (simp only: ac_simps)
  then show ?thesis
    unfolding pseudo_sum_def Let_def by (subst complement_acc [OF unat_FOLD_twice]) simp
qed

lemma word_sum_pseudo:
  "ones (word_sum (pseudo_header src dest proto len @ bs)) =
   ones (word_sum [0, proto] + word_sum [ucast (drop_bit 8 len), ucast len] + (unat (addr_sum src dest) + word_sum bs))"
proof -
  have "word_sum (pseudo_header src dest proto len @ bs) =
      word_sum [0, proto] + word_sum [ucast (drop_bit 8 len), ucast len] + (word_sum (le32 src @ le32 dest) + word_sum bs)"
    using word_sum_le32 [of dest "[]"] by (simp add: pseudo_header_def word_sum_le32)
  then show ?thesis unfolding unat_addr_sum
    using ones_add(1) [of "word_sum (le32 src @ le32 dest)"
      "word_sum bs + (word_sum [0, proto] + word_sum [ucast (drop_bit 8 len), ucast len])"] by (simp only: ac_simps)
qed

lemma inet_chksum_pseudo_run:
  assumes "packet (pb_obj s) p xs" "length xs < chain_fuel"
  shows "inet_chksum_pseudo A p proto len src dest s = Inr (rfc1071 (pseudo_header src dest proto len @ chain_data (pb_obj s) xs), s)"
proof -
  have "unat (addr_sum src dest) < 65536" by (simp only: unat_addr_sum ones_bound)
  then obtain acc where acc: "chksum_chain A chain_fuel p False (addr_sum src dest) s = Inr ((odd (lens (pb_obj s) xs), acc), s)"
      "unat acc = ones (weight (odd (lens (pb_obj s) xs)) * (unat (addr_sum src dest) + word_sum (chain_data (pb_obj s) xs)))"
    using chksum_chain_run [of s p xs 0 chain_fuel "addr_sum src dest" A False] assms by (auto simp: packet_def)
  from pseudo_sum_eq [OF acc(2)] acc(1) show ?thesis
    by (simp add: inet_chksum_pseudo_def inet_cksum_pseudo_base_def act_bind_def act_return_def rfc1071_def word_sum_pseudo
      del: word_sum.simps)
qed

section \<open>A part of a packet\<close>

lemma chksum_partial_run:
  assumes "seg (pb_obj s) q xs None k" "length xs < fuel" "unat acc < 65536"
  shows "\<exists>acc' sw. chksum_chain_partial A fuel q n swapped acc s = Inr ((swapped \<noteq> sw, acc'), s)
    \<and> unat acc' = ones (weight sw * (unat acc + word_sum (take (unat n) (chain_data (pb_obj s) xs))))"
  using assms
proof (induction xs arbitrary: q fuel acc swapped n)
  case Nil
  then obtain f where "fuel = Suc f" by (cases fuel) auto
  then show ?case using Nil by (auto simp: act_return_def ones_small intro!: exI [of _ False])
next
  case (Cons x xs)
  then obtain f b where f: "fuel = Suc f" and q: "q = Some x" "pb_obj s x = Some b" "payload_ok b 0 (unat (pb_len b))"
      and tl: "seg (pb_obj s) (pb_next b) xs None k" by (cases fuel) auto
  show ?case
  proof (cases "n = 0")
    case True
    then show ?thesis using f q Cons.prems(3) by (auto simp: act_return_def ones_small intro!: exI [of _ False])
  next
    case False
    let ?len = "pb_len b" and ?c = "if pb_len b > n then n else pb_len b"
    let ?bs = "payload_bytes b 0 (unat ?c)"
    let ?acc = "FOLD_U32T (acc + ucast (lwip_standard_chksum (payload_odd A q b) ?bs))"
    let ?acc2 = "if odd (unat ?len) then SWAP_BYTES_IN_WORD ?acc else ?acc"
    let ?d = "payload_bytes b 0 (unat (pb_len b))" and ?r = "chain_data (pb_obj s) xs"
    have c: "unat ?c = min (unat n) (unat ?len)" by (simp add: min_def word_less_nat_alt)
    have len: "length ?d = unat ?len" using length_bdata [where h = "pb_obj s", OF q(2,3)] q(2) by (simp add: bdata_Some)
    have bs: "?bs = take (unat n) ?d" "payload_ok b 0 (unat ?c)" "length ?bs < 65536"
      using payload_bytes_part [OF q(3), of 0 "unat ?c"] payload_ok_part [OF q(3), of 0 "unat ?c"] c len
      by (auto simp: take_all_iff min_def split: if_splits)
    have one: "unat ?acc = ones (unat acc + word_sum ?bs)" using Cons.prems(3) bs(3) by (intro chksum_step)
    have two: "unat ?acc2 = ones (weight (odd (unat ?len)) * (unat acc + word_sum ?bs))"
      using one ones_bound [of "unat acc + word_sum ?bs"] by (simp add: unat_SWAP ones_mult)
    have run: "chksum_chain_partial A fuel q n swapped acc s =
        chksum_chain_partial A f (pb_next b) (n - ?c) (swapped \<noteq> odd (unat ?len)) ?acc2 s"
      using f q False bs(2) by (simp add: act_bind_def Let_def word_gt_0)
    obtain acc' sw where acc': "chksum_chain_partial A f (pb_next b) (n - ?c) (swapped \<noteq> odd (unat ?len)) ?acc2 s =
          Inr (((swapped \<noteq> odd (unat ?len)) \<noteq> sw, acc'), s)"
        "unat acc' = ones (weight sw * (unat ?acc2 + word_sum (take (unat (n - ?c)) ?r)))"
      using Cons.IH [OF tl, of f ?acc2 "n - ?c" "swapped \<noteq> odd (unat ?len)"] Cons.prems(2) f two ones_bound by auto
    have rest: "unat (n - ?c) = unat n - unat ?len"
      using c by (subst unat_sub) (auto simp: word_le_nat_alt)
    have "ones (word_sum (take (unat n) ?d @ take (unat n - unat ?len) ?r)) =
        ones (word_sum ?bs + weight (odd (unat ?len)) * word_sum (take (unat n - unat ?len) ?r))"
      using word_sum_weight [of "take (unat n) ?d" "take (unat n - unat ?len) ?r"] bs(1) len
      by (cases "unat n \<le> unat ?len") simp_all
    from ones_scaled [OF this, of "weight (odd (unat ?len) \<noteq> sw)" "unat acc"] run acc'
    show ?thesis
      unfolding two ones_weight rest chain_data_simps bdata_Some [where h = "pb_obj s", OF q(2)] take_append len
      by (intro exI [of _ acc'] exI [of _ "odd (unat ?len) \<noteq> sw"]) (auto simp: add.assoc)
  qed
qed

lemma inet_chksum_pseudo_partial_run:
  assumes "packet (pb_obj s) p xs" "length xs < chain_fuel"
  shows "inet_chksum_pseudo_partial A p proto len n src dest s =
    Inr (rfc1071 (pseudo_header src dest proto len @ take (unat n) (chain_data (pb_obj s) xs)), s)"
proof -
  have "unat (addr_sum src dest) < 65536" by (simp only: unat_addr_sum ones_bound)
  then obtain acc sw where acc: "chksum_chain_partial A chain_fuel p n False (addr_sum src dest) s = Inr ((sw, acc), s)"
      "unat acc = ones (weight sw * (unat (addr_sum src dest) + word_sum (take (unat n) (chain_data (pb_obj s) xs))))"
    using chksum_partial_run [of s p xs 0 chain_fuel "addr_sum src dest" A n False] assms by (auto simp: packet_def)
  from pseudo_sum_eq [OF acc(2)] acc(1) show ?thesis
    by (simp add: inet_chksum_pseudo_partial_def inet_cksum_pseudo_partial_base_def act_bind_def act_return_def rfc1071_def word_sum_pseudo
      del: word_sum.simps)
qed

section \<open>Verification of a received checksum\<close>

lemma word_sum_update:
  assumes "2 * i + 1 < length bs"
  shows "word_sum (bs[2 * i := a, 2 * i + 1 := b]) + unat (bs ! (2 * i)) + 256 * unat (bs ! (2 * i + 1)) =
    word_sum bs + unat a + 256 * unat b"
  using assms
proof (induction bs arbitrary: i rule: word_sum.induct)
  case (3 x y bs)
  then show ?case
  proof (cases i)
    case (Suc j)
    then show ?thesis using 3(1) [of j] 3(2) by simp
  qed simp
qed auto

text \<open>A packet that carries its checksum in an aligned field sums up to zero.\<close>

lemma rfc1071_verifies:
  assumes "2 * i + 1 < length bs" "bs ! (2 * i) = 0" "bs ! (2 * i + 1) = 0" "rfc1071 bs = c"
  shows "rfc1071 (bs[2 * i := ucast c, 2 * i + 1 := ucast (drop_bit 8 c)]) = 0"
proof -
  have c: "unat c = 65535 - ones (word_sum bs)"
    unfolding assms(4) [symmetric] rfc1071_def unat_of_nat_u16 by (rule mod_less) simp
  have "word_sum (bs[2 * i := ucast c, 2 * i + 1 := ucast (drop_bit 8 c)]) = word_sum bs + unat c"
    using word_sum_update [OF assms(1), of "ucast c" "ucast (drop_bit 8 c)"] assms(2,3) le16_parts [of c] by simp
  moreover have "ones (word_sum bs + unat c) = 65535"
    using ones_add(1) [of "word_sum bs" "unat c"] c ones_bound [of "word_sum bs"] by (simp add: ones_small)
  ultimately show ?thesis by (simp add: rfc1071_def)
qed

end
