(* ===== verification/Lwip_ChksumProps.thy ===== *)
theory Lwip_ChksumProps
  imports Lwip_Chksum Lwip_PbufProps
begin

text \<open>The checksum routines against RFC 1071.\<close>

text \<open>C29. However a packet is spread over buffers of even and odd lengths at even and odd addresses, the checksum routines compute
  the Internet checksum of its bytes, alone or with the pseudo header in front, over the whole packet or its first bytes,
  and change nothing.\<close>

theorem chain_checksum_is_rfc1071:
  assumes "packet (pb_obj s) p xs" "length xs < chain_fuel"
  shows "inet_chksum_pbuf A p s = Inr (rfc1071 (chain_data (pb_obj s) xs), s)
    \<and> ip_chksum_pseudo A p proto len src dest s =
      Inr (rfc1071 (pseudo_header src dest proto len @ chain_data (pb_obj s) xs), s)
    \<and> ip_chksum_pseudo_partial A p proto len n src dest s =
      Inr (rfc1071 (pseudo_header src dest proto len @ take (unat n) (chain_data (pb_obj s) xs)), s)"
  unfolding ip_chksum_pseudo_def ip_chksum_pseudo_partial_def
  by (intro conjI inet_chksum_pbuf_run inet_chksum_pseudo_run inet_chksum_pseudo_partial_run assms)

theorem chain_checksum_is_rfc1071_witness:
  "inet_chksum_pbuf (\<lambda>_. 3) (Some (PoolPbuf 3)) demo_chain = Inr (0xF9F6, demo_chain)"
proof -
  have "length [PoolPbuf 3, PoolPbuf 2] < chain_fuel" by (simp add: chain_fuel_def)
  from chain_checksum_is_rfc1071 [OF demo_packet(1) this, of "\<lambda>_. 3"] show ?thesis
    unfolding demo_data by (simp add: rfc1071_def ones_def)
qed

text \<open>C30. A checksum that was stored in an aligned, zeroed field verifies: the receiver's sum over the same bytes is zero, at every
  alignment and for every length of 16 bits, whatever follows them in memory.\<close>

theorem inet_chksum_verifies:
  assumes "unat len \<le> length bs" "2 * i + 1 < unat len" "bs ! (2 * i) = 0" "bs ! (2 * i + 1) = 0"
    and "c = inet_chksum od bs len"
  shows "inet_chksum od' (bs[2 * i := ucast c, 2 * i + 1 := ucast (drop_bit 8 c)]) len = 0"
  using rfc1071_verifies [of i "take (unat len) bs"] assms by (simp add: inet_chksum_take take_update_swap)

theorem inet_chksum_verifies_witness:
  "inet_chksum True [1, 2, ucast (inet_chksum False [1, 2, 0, 0, 7, 9] 5), ucast (drop_bit 8 (inet_chksum False [1, 2, 0, 0, 7, 9] 5)), 7, 9] 5 = 0"
  using inet_chksum_verifies [of 5 "[1, 2, 0, 0, 7, 9]" 1 _ False True] by simp

end
