(* ===== verification/Lwip_AddrText.thy ===== *)
theory Lwip_AddrText
  imports Lwip_Addr
begin

text \<open>
  Text forms of IPv4 addresses and netmasks (lib/lwip/src/core/ipv4/ip4_addr.c): the parser \<^verbatim>\<open>ip4addr_aton\<close> with its
  one to four parts in three bases, the printer \<^verbatim>\<open>ip4addr_ntoa_r\<close>, and the check of a netmask.  A C string is the list of
  its bytes before the terminating zero.
\<close>

section \<open>Characters\<close>

definition lwip_isdigit :: "u8 \<Rightarrow> bool" where
  "lwip_isdigit c \<longleftrightarrow> 48 \<le> c \<and> c \<le> 57"

definition lwip_islower :: "u8 \<Rightarrow> bool" where
  "lwip_islower c \<longleftrightarrow> 97 \<le> c \<and> c \<le> 122"

definition lwip_isxdigit :: "u8 \<Rightarrow> bool" where
  "lwip_isxdigit c \<longleftrightarrow> lwip_isdigit c \<or> 97 \<le> c \<and> c \<le> 102 \<or> 65 \<le> c \<and> c \<le> 70"

definition lwip_isspace :: "u8 \<Rightarrow> bool" where
  "lwip_isspace c \<longleftrightarrow> c = 32 \<or> c = 12 \<or> c = 10 \<or> c = 13 \<or> c = 9 \<or> c = 11"

text \<open>The character at the reading position; behind the text it is the terminator.\<close>

fun peek :: "u8 list \<Rightarrow> u8" where
  "peek [] = 0"
| "peek (c # cs) = c"

section \<open>Parsing\<close>

text \<open>The inner loop: the digits of one number in its base.\<close>

fun collect_number :: "u32 \<Rightarrow> u32 \<Rightarrow> u8 list \<Rightarrow> u32 \<times> u8 list" where
  "collect_number base val [] = (val, [])"
| "collect_number base val (c # cs) =
     (if lwip_isdigit c then
        if base = 8 \<and> ucast (c - 48) \<ge> (8 :: u32) then (val, c # cs)
        else collect_number base (val * base + ucast (c - 48)) cs
      else if base = 16 \<and> lwip_isxdigit c then
        collect_number base (push_bit 4 val OR ucast (c + 10 - (if lwip_islower c then 97 else 65))) cs
      else (val, c # cs))"

text \<open>The prefix that selects the base.\<close>

definition number_base :: "u8 list \<Rightarrow> u32 \<times> u8 list" where
  "number_base cs =
     (if peek cs = 48 then
        let cs = tl cs in
        if peek cs = 120 \<or> peek cs = 88 then (16, tl cs) else (8, cs)
      else (10, cs))"

text \<open>The outer loop over the parts: the parts before the last, the last one and the rest of the text.\<close>

function aton_parts :: "u32 list \<Rightarrow> u8 list \<Rightarrow> (u32 list \<times> u32 \<times> u8 list) option" where
  "aton_parts parts cs =
     (if \<not> lwip_isdigit (peek cs) then None
      else
        let (base, cs) = number_base cs; (val, cs) = collect_number base 0 cs in
        if peek cs = 46 then
          if 3 \<le> length parts then None else aton_parts (parts @ [val]) (tl cs)
        else Some (parts, val, cs))"
  by pat_completeness auto
termination
  by (relation "measure (\<lambda>(parts, _). 3 - length parts)") auto

text \<open>The address of the parts.\<close>

definition concoct :: "u32 list \<Rightarrow> u32 \<Rightarrow> u32 option" where
  "concoct parts val =
     (case parts of
        [] \<Rightarrow> Some val
      | [a] \<Rightarrow> if val > 0xFFFFFF then None else if a > 0xFF then None else Some (val OR push_bit 24 a)
      | [a, b] \<Rightarrow> if val > 0xFFFF then None else if a > 0xFF \<or> b > 0xFF then None
          else Some (val OR (push_bit 24 a OR push_bit 16 b))
      | [a, b, c] \<Rightarrow> if val > 0xFF then None else if a > 0xFF \<or> b > 0xFF \<or> c > 0xFF then None
          else Some (val OR (push_bit 24 a OR push_bit 16 b OR push_bit 8 c))
      | _ \<Rightarrow> Some val)"

text \<open>The result 0 is \<open>None\<close>; otherwise the address, in network order.\<close>

definition ip4addr_aton :: "u8 list \<Rightarrow> ip4_addr_t option" where
  "ip4addr_aton cp =
     (case aton_parts [] cp of
        None \<Rightarrow> None
      | Some (parts, val, cs) \<Rightarrow>
          if peek cs \<noteq> 0 \<and> \<not> lwip_isspace (peek cs) then None
          else map_option lwip_htonl (concoct parts val))"

definition ipaddr_addr :: "u8 list \<Rightarrow> u32" where
  "ipaddr_addr cp = (case ip4addr_aton cp of Some val \<Rightarrow> val | None \<Rightarrow> IPADDR_NONE)"

section \<open>Printing\<close>

definition IP4ADDR_STRLEN_MAX :: nat where "IP4ADDR_STRLEN_MAX = 16"

text \<open>The digits of a byte, the lowest first, as the array \<^verbatim>\<open>inv\<close> gets them.\<close>

function inv_digits :: "u8 \<Rightarrow> u8 list" where
  "inv_digits b = (48 + b mod 10) # (if b div 10 \<noteq> 0 then inv_digits (b div 10) else [])"
  by pat_completeness auto
termination
proof (relation "measure unat")
  fix b :: u8 assume "b div 10 \<noteq> 0"
  then have "b \<noteq> 0" by auto
  then show "(b div 10, b) \<in> measure unat" by (simp add: unat_div word_neq_0_conv word_less_nat_alt)
qed simp

text \<open>Characters are stored while the length is below \<^verbatim>\<open>buflen\<close>; \<open>None\<close> is the early return.\<close>

fun store_chars :: "nat \<Rightarrow> u8 list \<Rightarrow> u8 list \<Rightarrow> u8 list option" where
  "store_chars buflen out [] = Some out"
| "store_chars buflen out (c # cs) =
     (if length out \<ge> buflen then None else store_chars buflen (out @ [c]) cs)"

fun ntoa_bytes :: "nat \<Rightarrow> u8 list \<Rightarrow> u8 list \<Rightarrow> c_error + u8 list option" where
  "ntoa_bytes buflen out [] = Inr (Some out)"
| "ntoa_bytes buflen out (b # bs) =
     (if length (inv_digits b) > 3 then Inl OutOfBounds
      else case store_chars buflen out (rev (inv_digits b)) of
          None \<Rightarrow> Inr None
        | Some out \<Rightarrow> if length out \<ge> buflen then Inr None else ntoa_bytes buflen (out @ [46]) bs)"

text \<open>The bytes of the address are taken in memory order; the last full stop becomes the terminator.\<close>

definition ip4addr_ntoa_r :: "ip4_addr_t \<Rightarrow> nat \<Rightarrow> c_error + u8 list option" where
  "ip4addr_ntoa_r addr buflen = map_sum id (map_option butlast) (ntoa_bytes buflen [] (le32 addr))"

definition ip4addr_ntoa :: "ip4_addr_t \<Rightarrow> c_error + u8 list option" where
  "ip4addr_ntoa addr = ip4addr_ntoa_r addr IP4ADDR_STRLEN_MAX"

section \<open>Netmasks\<close>

function first_zero :: "u32 \<Rightarrow> u32 \<Rightarrow> u32" where
  "first_zero nm msk = (if msk \<noteq> 0 \<and> nm AND msk \<noteq> 0 then first_zero nm (drop_bit 1 msk) else msk)"
  by pat_completeness auto
termination
  by (relation "measure (\<lambda>(_, msk). unat msk)") (auto simp: drop_bit_eq_div unat_div word_neq_0_conv word_less_nat_alt)

function no_one :: "u32 \<Rightarrow> u32 \<Rightarrow> bool" where
  "no_one nm msk = (if msk \<noteq> 0 then if nm AND msk \<noteq> 0 then False else no_one nm (drop_bit 1 msk) else True)"
  by pat_completeness auto
termination
  by (relation "measure (\<lambda>(_, msk). unat msk)") (auto simp: drop_bit_eq_div unat_div word_neq_0_conv word_less_nat_alt)

definition ip4_addr_netmask_valid :: "u32 \<Rightarrow> bool" where
  "ip4_addr_netmask_valid netmask =
     (let nm_hostorder = lwip_htonl netmask in no_one nm_hostorder (first_zero nm_hostorder (push_bit 31 1)))"

declare inv_digits.simps [simp del] aton_parts.simps [simp del] first_zero.simps [simp del] no_one.simps [simp del]

section \<open>Digits\<close>

definition dec :: "u8 \<Rightarrow> u8 list" where "dec b = rev (inv_digits b)"

lemma dec_rec: "dec b = (if b div 10 \<noteq> 0 then dec (b div 10) else []) @ [48 + b mod 10]"
  unfolding dec_def by (subst inv_digits.simps) simp

lemma unat_digit: "unat (48 + b mod 10) = 48 + unat b mod 10" for b :: u8
proof -
  have "unat (b mod 10) = unat b mod 10" by (simp add: unat_mod)
  moreover have "unat b mod 10 < 10" by simp
  ultimately show ?thesis by (simp add: unat_word_ariths)
qed

lemma digit_char: "lwip_isdigit (48 + b mod 10)" "ucast (48 + b mod 10 - 48) = (ucast (b mod 10) :: u32)" for b :: u8
proof -
  have "unat b mod 10 < 10" by simp
  then show "lwip_isdigit (48 + b mod 10)" by (simp add: lwip_isdigit_def word_le_nat_alt unat_digit)
qed simp

lemma div10_0: "b div 10 = 0 \<longleftrightarrow> unat b < 10" for b :: u8
  by (simp add: word_unat_eq_iff [of "b div 10"] unat_div div_eq_0_iff)

lemma div10_bound: "unat b div 10 < 26" for b :: u8
  using unat_u8_bound [of b] by (simp add: div_less_iff_less_mult del: unat_u8_bound)

lemma inv_digits_length: "length (inv_digits b) \<le> 3"
proof -
  have "length (inv_digits b) \<le> (if unat b < 10 then 1 else if unat b < 100 then 2 else 3)" for b
  proof (induction b rule: inv_digits.induct)
    case (1 b)
    have "unat (b div 10) = unat b div 10" by (simp add: unat_div)
    then show ?case using 1 div10_bound [of b] by (subst inv_digits.simps) (auto simp: div10_0 split: if_splits)
  qed
  then show ?thesis by (rule order_trans) simp
qed

lemma collect_dec: "collect_number 10 0 (dec b @ cs) = collect_number 10 (ucast b) cs"
proof (induction b arbitrary: cs rule: inv_digits.induct)
  case (1 b)
  have n: "unat (ucast c :: u32) = unat c" for c :: u8
    using unat_u8_bound [of c] by (simp add: unsigned_ucast_eq take_bit_nat_eq_self del: unat_u8_bound)
  have "unat (ucast (b div 10) * 10 + ucast (b mod 10) :: u32) = unat b"
    using div10_bound [of b] by (simp add: unat_word_ariths n unat_div unat_mod mult.commute)
  then have "ucast (b div 10) * 10 + ucast (b mod 10) = (ucast b :: u32)" by (simp add: word_unat_eq_iff n)
  then show ?case using 1 by (subst dec_rec) (auto simp: digit_char)
qed

lemma peek_dec: "lwip_isdigit (peek (dec b @ cs))" "b \<noteq> 0 \<Longrightarrow> peek (dec b @ cs) \<noteq> 48"
proof (induction b arbitrary: cs rule: inv_digits.induct)
  case (1 b)
  { case 1 then show ?case using "1.IH"(1) by (subst dec_rec) (simp add: digit_char)
  next
    case 2
    then have "b div 10 = 0 \<Longrightarrow> 48 + b mod 10 \<noteq> 48"
      by (simp add: div10_0 word_unat_eq_iff [of "b mod 10"] unat_mod unat_eq_0)
    then show ?case using "1.IH"(2) by (subst dec_rec) simp }
qed

lemma dec_0: "dec 0 = [48]"
  by (subst dec_rec) simp

text \<open>One part of the text: the digits of a byte, up to a character that is no digit.\<close>

lemma number_dec:
  assumes "\<not> lwip_isxdigit (peek cs)" "peek cs \<noteq> 120" "peek cs \<noteq> 88"
  shows "(let (base, cs) = number_base (dec b @ cs) in collect_number base 0 cs) = (ucast b, cs)"
proof -
  have stop: "collect_number base val cs = (val, cs)" for base val
    using assms(1) by (cases cs) (auto simp: lwip_isxdigit_def)
  show ?thesis
  proof (cases "b = 0")
    case True
    then show ?thesis using assms stop by (simp add: dec_0 number_base_def)
  next
    case False
    then show ?thesis using peek_dec(2) [OF False, of cs] by (simp add: number_base_def collect_dec stop)
  qed
qed

section \<open>Round trip\<close>

definition dotted :: "u8 list \<Rightarrow> u8 list" where
  "dotted bs = butlast (concat (map (\<lambda>b. dec b @ [46]) bs))"

lemma store_chars_eq: "cs \<noteq> [] \<Longrightarrow> store_chars n out cs = (if length out + length cs \<le> n then Some (out @ cs) else None)"
proof (induction n out cs rule: store_chars.induct)
  case (2 n out c cs)
  then show ?case by (cases cs) auto
qed simp

lemma ntoa_bytes_eq:
  "length out \<le> n \<Longrightarrow> ntoa_bytes n out bs = Inr (if length (out @ concat (map (\<lambda>b. dec b @ [46]) bs)) \<le> n
     then Some (out @ concat (map (\<lambda>b. dec b @ [46]) bs)) else None)"
proof (induction bs arbitrary: out)
  case (Cons b bs)
  have d: "\<not> length (inv_digits b) > 3" using inv_digits_length [of b] by simp
  have "store_chars n out (dec b) = (if length out + length (dec b) \<le> n then Some (out @ dec b) else None)"
    by (rule store_chars_eq) (subst dec_rec, simp)
  then show ?case unfolding ntoa_bytes.simps if_not_P [OF d] dec_def [symmetric]
    using Cons.IH [of "out @ dec b @ [46]"] by auto
qed simp

lemma ntoa_r_eq:
  "ip4addr_ntoa_r addr n = Inr (if length (dotted (le32 addr)) < n then Some (dotted (le32 addr)) else None)"
proof -
  let ?t = "concat (map (\<lambda>b. dec b @ [46]) (le32 addr))"
  have "length ?t = Suc (length (dotted (le32 addr)))" by (simp add: dotted_def le32_def le16_def)
  then show ?thesis by (simp add: ip4addr_ntoa_r_def ntoa_bytes_eq dotted_def Suc_le_eq)
qed

lemma parts_dec:
  assumes "\<not> lwip_isxdigit (peek cs)" "peek cs \<noteq> 120" "peek cs \<noteq> 88"
  shows "aton_parts parts (dec b @ cs) =
    (if peek cs = 46 then if 3 \<le> length parts then None else aton_parts (parts @ [ucast b]) (tl cs)
     else Some (parts, ucast b, cs))"
proof -
  obtain base cs' where "number_base (dec b @ cs) = (base, cs')" by fastforce
  then show ?thesis using number_dec [OF assms, of b] peek_dec(1) [of b cs] by (subst aton_parts.simps) simp
qed

lemma not_hex: "\<not> lwip_isxdigit 46" "\<not> lwip_isxdigit 0"
  by (simp_all add: lwip_isxdigit_def lwip_isdigit_def)

lemma byte_small: "\<not> ucast b > (0xFF :: u32)" for b :: u8
proof -
  have "unat (ucast b :: u32) = unat b"
    using unat_u8_bound [of b] by (simp add: unsigned_ucast_eq take_bit_nat_eq_self del: unat_u8_bound)
  then show ?thesis using unat_u8_bound [of b] by (simp add: word_less_nat_alt del: unat_u8_bound)
qed

lemma concoct_le32:
  assumes "le32 addr = [a, b, c, d]"
  shows "lwip_htonl (ucast d OR (push_bit 24 (ucast a) OR push_bit 16 (ucast b) OR push_bit 8 (ucast c))) = addr"
proof -
  have "a = ucast addr" "b = ucast (drop_bit 8 addr)" "c = ucast (drop_bit 16 addr)" "d = ucast (drop_bit 24 addr)"
    using assms by (auto simp: le32_def le16_def intro!: bit_word_eqI simp: bit_simps)
  then have "ucast d OR (push_bit 24 (ucast a) OR push_bit 16 (ucast b) OR push_bit 8 (ucast c)) = lwip_htonl addr"
    unfolding lwip_htonl_def PP_HTONL_def byte_masks by (auto intro!: bit_word_eqI simp: bit_simps)
  then show ?thesis by simp
qed

lemma aton_dotted: "ip4addr_aton (dotted (le32 addr)) = Some addr"
proof -
  obtain a b c d where l: "le32 addr = [a, b, c, d]" by (simp add: le32_def le16_def)
  have t: "dotted (le32 addr) = dec a @ 46 # dec b @ 46 # dec c @ 46 # dec d @ []"
    by (simp add: l dotted_def butlast_append)
  have "aton_parts [] (dotted (le32 addr)) = Some ([ucast a, ucast b, ucast c], ucast d, [])"
    unfolding t by (simp add: parts_dec not_hex del: append_Nil2)
  then show ?thesis by (simp add: ip4addr_aton_def concoct_def byte_small concoct_le32 [OF l])
qed

section \<open>Valid netmasks\<close>

text \<open>The loops probe the bits from the top: \<open>probe k\<close> has bit \<open>k - 1\<close> set.\<close>

definition probe :: "nat \<Rightarrow> u32" where
  "probe k = (if k = 0 then 0 else push_bit (k - 1) 1)"

lemma probe_0: "k \<le> 32 \<Longrightarrow> (probe k = 0) = (k = 0)"
  by (cases k) (auto simp: probe_def)

lemma probe_drop: "k < 32 \<Longrightarrow> drop_bit (Suc 0) (probe (Suc k)) = probe k"
  by (rule bit_word_eqI) (auto simp: probe_def bit_simps)

lemma probe_test: "nm AND probe (Suc k) \<noteq> 0 \<longleftrightarrow> bit nm k"
  by (simp add: probe_def bit_iff_and_push_bit_not_eq_0)

lemma no_one_probe: "k \<le> 32 \<Longrightarrow> no_one nm (probe k) \<longleftrightarrow> (\<forall>i < k. \<not> bit nm i)"
proof (induction k)
  case (Suc k)
  then show ?case
    by (subst no_one.simps) (auto simp: probe_0 probe_drop probe_test less_Suc_eq)
qed (simp add: no_one.simps probe_def)

lemma first_zero_probe:
  "k \<le> 32 \<Longrightarrow> \<exists>j \<le> k. first_zero nm (probe k) = probe j \<and> (\<forall>i. j \<le> i \<longrightarrow> i < k \<longrightarrow> bit nm i) \<and> (0 < j \<longrightarrow> \<not> bit nm (j - 1))"
proof (induction k)
  case 0
  then show ?case by (simp add: first_zero.simps probe_def)
next
  case (Suc k)
  then have k: "k < 32" by simp
  show ?case
  proof (cases "bit nm k")
    case True
    then have step: "first_zero nm (probe (Suc k)) = first_zero nm (probe k)"
      using Suc.prems k by (subst first_zero.simps) (simp add: probe_0 probe_drop probe_test)
    from Suc.IH k obtain j where "j \<le> k" "first_zero nm (probe k) = probe j" "\<forall>i. j \<le> i \<longrightarrow> i < k \<longrightarrow> bit nm i"
        "0 < j \<longrightarrow> \<not> bit nm (j - 1)" by auto
    then show ?thesis using True step by (intro exI [of _ j]) (auto simp: less_Suc_eq)
  next
    case False
    then have "first_zero nm (probe (Suc k)) = probe (Suc k)"
      by (subst first_zero.simps) (simp add: probe_test)
    then show ?thesis using False by (intro exI [of _ "Suc k"]) auto
  qed
qed

lemma prefix_mask_iff: "h = NOT (mask k) \<longleftrightarrow> (\<forall>i < 32. bit h i = (k \<le> i))" for h :: u32
proof
  show "h = NOT (mask k)" if "\<forall>i < 32. bit h i = (k \<le> i)"
    using that by (intro bit_word_eqI) (auto simp: bit_simps)
qed (auto simp: bit_simps)

text \<open>A netmask is accepted exactly when it is a prefix in host order: ones, then zeros.\<close>

theorem netmask_valid_iff_prefix: "ip4_addr_netmask_valid nm \<longleftrightarrow> (\<exists>n \<le> 32. lwip_htonl nm = NOT (mask (32 - n)))"
proof -
  let ?h = "lwip_htonl nm"
  have p: "push_bit 31 1 = probe 32" by (simp add: probe_def)
  obtain j where j: "j \<le> 32" "first_zero ?h (probe 32) = probe j" "\<forall>i. j \<le> i \<longrightarrow> i < 32 \<longrightarrow> bit ?h i"
      "0 < j \<longrightarrow> \<not> bit ?h (j - 1)" using first_zero_probe [of 32 ?h] by auto
  have eq: "?h = NOT (mask k) \<longleftrightarrow> (\<forall>i < 32. bit ?h i = (k \<le> i))" for k
    by (rule prefix_mask_iff)
  have "ip4_addr_netmask_valid nm \<longleftrightarrow> (\<forall>i < j. \<not> bit ?h i)"
    unfolding ip4_addr_netmask_valid_def Let_def p j(2) by (rule no_one_probe [OF j(1)])
  also have "\<dots> \<longleftrightarrow> ?h = NOT (mask j)" unfolding eq using j(1,3) by (auto intro: leI)
  also have "\<dots> \<longleftrightarrow> (\<exists>n \<le> 32. ?h = NOT (mask (32 - n)))"
  proof
    assume "?h = NOT (mask j)"
    then show "\<exists>n \<le> 32. ?h = NOT (mask (32 - n))" using j(1) by (intro exI [of _ "32 - j"]) simp
  next
    assume "\<exists>n \<le> 32. ?h = NOT (mask (32 - n))"
    then obtain k where k: "k \<le> 32" "\<forall>i < 32. bit ?h i = (k \<le> i)" unfolding eq by (auto intro: diff_le_self)
    have "k = j"
    proof (cases rule: linorder_cases [of k j])
      case less
      then have "bit ?h (j - 1)" using k(2) j(1) by auto
      with less j(4) show ?thesis by simp
    next
      case greater
      then have "bit ?h j" "\<not> bit ?h j" using k j(1,3) by auto
      then show ?thesis by contradiction
    qed
    then show "?h = NOT (mask j)" using k(2) unfolding eq by simp
  qed
  finally show ?thesis .
qed

section \<open>Properties\<close>

lemma dotted_length: "length (dotted (le32 addr)) < IP4ADDR_STRLEN_MAX"
proof -
  obtain a b c d where l: "le32 addr = [a, b, c, d]" by (simp add: le32_def le16_def)
  have "length (dec x) \<le> 3" for x using inv_digits_length [of x] by (simp add: dec_def)
  from this [of a] this [of b] this [of c] this [of d] show ?thesis
    by (simp add: l dotted_def IP4ADDR_STRLEN_MAX_def)
qed

text \<open>C31. Text and address are inverse: \<^verbatim>\<open>ip4addr_ntoa\<close> always fits its buffer of 16 characters, never writes outside of
  its array of three digits, and \<^verbatim>\<open>ip4addr_aton\<close> reads the address back; with a buffer of another length the text
  is the same or, exactly when it does not fit with its terminator, the result is null.\<close>

theorem ip4_text_roundtrip:
  "\<exists>text. ip4addr_ntoa addr = Inr (Some text) \<and> ip4addr_aton text = Some addr
     \<and> (\<forall>buflen. ip4addr_ntoa_r addr buflen = Inr (if length text < buflen then Some text else None))"
  using dotted_length [of addr] aton_dotted [of addr] by (auto simp: ip4addr_ntoa_def ntoa_r_eq)

text \<open>A number beyond 32 bits is not refused: \<^verbatim>\<open>4294967297\<close> is read as 1.\<close>

lemma aton_number_wraps:
  "ip4addr_aton [52, 50, 57, 52, 57, 54, 55, 50, 57, 55] = ip4addr_aton [49]"
proof -
  have wrap: "(4294967297 :: u32) = 1" by simp
  show ?thesis by (simp add: ip4addr_aton_def aton_parts.simps number_base_def lwip_isdigit_def) (simp only: wrap)
qed

end
