(* ===== verification/Lwip_Mem.thy ===== *)
theory Lwip_Mem
  imports Lwip_Memp Lwip_Pbuf
begin

text \<open>
  The heap of lwIP (lib/lwip/src/core/mem.c) in the configuration of lwipopts.h: a memory area of 1600 bytes with
  blocks linked by headers in the area itself, first fit from the lowest free block, coalescing on release.  Heap
  pointers are offsets from \<^verbatim>\<open>ram\<close>, the aligned start of the area, so \<^verbatim>\<open>ram\<close> is 0 and \<^verbatim>\<open>ram_end\<close> is
  \<open>MEM_SIZE_ALIGNED\<close> once \<^verbatim>\<open>mem_init\<close> has run.  \<^verbatim>\<open>mem_size_t\<close> has 16 bits; sums with the constants of the file
  are computed in 32 bits, as in C.  Without an operating system the mutex does nothing.
\<close>

section \<open>The heap\<close>

definition MEM_SIZE :: u32 where "MEM_SIZE = 1600"
definition MIN_SIZE :: u32 where "MIN_SIZE = 12"
definition MIN_SIZE_ALIGNED :: u32 where "MIN_SIZE_ALIGNED = LWIP_MEM_ALIGN_SIZE MIN_SIZE"
definition MEM_SIZE_ALIGNED :: u32 where "MEM_SIZE_ALIGNED = LWIP_MEM_ALIGN_SIZE MEM_SIZE"
definition SIZEOF_STRUCT_MEM :: u32 where "SIZEOF_STRUCT_MEM = LWIP_MEM_ALIGN_SIZE 6"

record struct_mem =
  mem_next :: u16
  mem_prev :: u16
  mem_used :: u8

record heap_stats = stats_mem +
  st_illegal :: u16

record lwip_heap =
  ram_heap :: bytes
  lfree :: nat
  mem_st :: heap_stats

abbreviation ram_end :: nat where "ram_end \<equiv> unat MEM_SIZE_ALIGNED"

text \<open>The area has room for two headers behind its end.\<close>

definition ram_size :: nat where
  "ram_size = unat (MEM_SIZE_ALIGNED + 2 * SIZEOF_STRUCT_MEM)"

definition ptr_to_mem :: "u16 \<Rightarrow> nat" where "ptr_to_mem ptr = unat ptr"
definition mem_to_ptr :: "nat \<Rightarrow> u16" where "mem_to_ptr mem = of_nat mem"

definition in_ram :: "nat \<Rightarrow> (lwip_heap, unit) act" where
  "in_ram p = act_check OutOfBounds (p + unat SIZEOF_STRUCT_MEM \<le> ram_size)"

definition mem_get :: "nat \<Rightarrow> (lwip_heap, struct_mem) act" where
  "mem_get p =
     act_bind (in_ram p) (\<lambda>_.
     act_gets (\<lambda>h. \<lparr>mem_next = rd16 (ram_heap h) p, mem_prev = rd16 (ram_heap h) (p + 2), mem_used = ram_heap h (p + 4)\<rparr>))"

definition set_next :: "nat \<Rightarrow> u16 \<Rightarrow> (lwip_heap, unit) act" where
  "set_next p v = act_bind (in_ram p) (\<lambda>_. act_modify (ram_heap_update (\<lambda>m. wr16 m p v)))"

definition set_prev :: "nat \<Rightarrow> u16 \<Rightarrow> (lwip_heap, unit) act" where
  "set_prev p v = act_bind (in_ram p) (\<lambda>_. act_modify (ram_heap_update (\<lambda>m. wr16 m (p + 2) v)))"

definition set_used :: "nat \<Rightarrow> u8 \<Rightarrow> (lwip_heap, unit) act" where
  "set_used p v = act_bind (in_ram p) (\<lambda>_. act_modify (ram_heap_update (\<lambda>m. m(p + 4 := v))))"

definition set_lfree :: "nat \<Rightarrow> (lwip_heap, unit) act" where
  "set_lfree p = act_modify (lfree_update (\<lambda>_. p))"

text \<open>The statistics of the heap.\<close>

definition MEM_STATS_INC_illegal :: "(lwip_heap, unit) act" where
  "MEM_STATS_INC_illegal = act_modify (mem_st_update (st_illegal_update (\<lambda>n. n + 1)))"

definition MEM_STATS_INC_err :: "(lwip_heap, unit) act" where
  "MEM_STATS_INC_err = act_modify (mem_st_update (st_err_update (\<lambda>n. n + 1)))"

definition MEM_STATS_INC_USED :: "u16 \<Rightarrow> (lwip_heap, unit) act" where
  "MEM_STATS_INC_USED y = act_modify (mem_st_update (\<lambda>t.
     let u = st_used t + y in t\<lparr>st_used := u, st_max := (if st_max t < u then u else st_max t)\<rparr>))"

definition MEM_STATS_DEC_USED :: "u16 \<Rightarrow> (lwip_heap, unit) act" where
  "MEM_STATS_DEC_USED y = act_modify (mem_st_update (st_used_update (\<lambda>u. u - y)))"

section \<open>Initialisation and release\<close>

definition mem_init :: "(lwip_heap, unit) act" where
  "mem_init =
     act_bind (set_next 0 (ucast MEM_SIZE_ALIGNED)) (\<lambda>_.
     act_bind (set_prev 0 0) (\<lambda>_.
     act_bind (set_used 0 0) (\<lambda>_.
     act_bind (set_used ram_end 1) (\<lambda>_.
     act_bind (set_next ram_end (ucast MEM_SIZE_ALIGNED)) (\<lambda>_.
     act_bind (set_prev ram_end (ucast MEM_SIZE_ALIGNED)) (\<lambda>_.
     act_bind (set_lfree 0) (\<lambda>_.
     act_modify (mem_st_update (st_avail_update (\<lambda>_. ucast MEM_SIZE_ALIGNED)))))))))) "

text \<open>Linking the block behind to its new predecessor, unless it is the end of the heap.\<close>

definition link_back :: "u16 \<Rightarrow> nat \<Rightarrow> (lwip_heap, unit) act" where
  "link_back nxt p =
     (if ucast nxt \<noteq> MEM_SIZE_ALIGNED then set_prev (ptr_to_mem nxt) (mem_to_ptr p) else act_return ())"

definition plug_forward :: "nat \<Rightarrow> (lwip_heap, unit) act" where
  "plug_forward mem =
     act_bind (mem_get mem) (\<lambda>m.
     let nmem = ptr_to_mem (mem_next m) in
     act_bind (mem_get nmem) (\<lambda>n.
     if mem \<noteq> nmem \<and> mem_used n = 0 \<and> nmem \<noteq> ram_end then
       act_bind (act_gets lfree) (\<lambda>lf.
       act_bind (if lf = nmem then set_lfree mem else act_return ()) (\<lambda>_.
       act_bind (set_next mem (mem_next n)) (\<lambda>_.
       link_back (mem_next n) mem)))
     else act_return ()))"

definition plug_backward :: "nat \<Rightarrow> (lwip_heap, unit) act" where
  "plug_backward mem =
     act_bind (mem_get mem) (\<lambda>m.
     let pmem = ptr_to_mem (mem_prev m) in
     act_bind (mem_get pmem) (\<lambda>p.
     if pmem \<noteq> mem \<and> mem_used p = 0 then
       act_bind (act_gets lfree) (\<lambda>lf.
       act_bind (if lf = mem then set_lfree pmem else act_return ()) (\<lambda>_.
       act_bind (set_next pmem (mem_next m)) (\<lambda>_.
       link_back (mem_next m) pmem)))
     else act_return ()))"

definition plug_holes :: "nat \<Rightarrow> (lwip_heap, unit) act" where
  "plug_holes mem = act_bind (plug_forward mem) (\<lambda>_. plug_backward mem)"

definition mem_link_valid :: "nat \<Rightarrow> (lwip_heap, bool) act" where
  "mem_link_valid mem =
     act_bind (mem_get mem) (\<lambda>m.
     let rmem_idx = mem_to_ptr mem; nmem = ptr_to_mem (mem_next m); pmem = ptr_to_mem (mem_prev m) in
     if ucast (mem_next m) > MEM_SIZE_ALIGNED \<or> ucast (mem_prev m) > MEM_SIZE_ALIGNED then act_return False
     else
       act_bind (mem_get pmem) (\<lambda>p.
       if mem_prev m \<noteq> rmem_idx \<and> mem_next p \<noteq> rmem_idx then act_return False
       else if nmem \<noteq> ram_end then
         act_bind (mem_get nmem) (\<lambda>n. act_return (mem_prev n = rmem_idx))
       else act_return True))"

definition lwip_mem_free :: "nat option \<Rightarrow> (lwip_heap, unit) act" where
  "lwip_mem_free rmem =
     (case rmem of
        None \<Rightarrow> act_return ()
      | Some r \<Rightarrow>
          if r mod 4 \<noteq> 0 then MEM_STATS_INC_illegal
          else if r < unat SIZEOF_STRUCT_MEM \<or> r + unat MIN_SIZE_ALIGNED > ram_end then MEM_STATS_INC_illegal
          else
            let mem = r - unat SIZEOF_STRUCT_MEM in
            act_bind (mem_get mem) (\<lambda>m.
            if mem_used m = 0 then MEM_STATS_INC_illegal
            else
              act_bind (mem_link_valid mem) (\<lambda>valid.
              if \<not> valid then MEM_STATS_INC_illegal
              else
                act_bind (set_used mem 0) (\<lambda>_.
                act_bind (act_gets lfree) (\<lambda>lf.
                act_bind (if mem < lf then set_lfree mem else act_return ()) (\<lambda>_.
                act_bind (MEM_STATS_DEC_USED (mem_next m - of_nat mem)) (\<lambda>_.
                plug_holes mem)))))))"

section \<open>Shrinking\<close>

text \<open>The size of a request: aligned and not below the minimum.\<close>

definition adjusted_size :: "u16 \<Rightarrow> u16" where
  "adjusted_size n =
     (let size = ucast (LWIP_MEM_ALIGN_SIZE (ucast n)) :: u16 in
      if ucast size < MIN_SIZE_ALIGNED then ucast MIN_SIZE_ALIGNED else size)"

text \<open>The end of the block at \<open>mem\<close> goes to the free block behind it or becomes a free block, if it is big enough.\<close>

definition trim_block :: "nat \<Rightarrow> u16 \<Rightarrow> u16 \<Rightarrow> u16 \<Rightarrow> (lwip_heap, unit) act" where
  "trim_block mem nxt sz newsize =
     (let ptr = mem_to_ptr mem; mem2 = ptr_to_mem nxt;
          ptr2 = ucast (ucast ptr + SIZEOF_STRUCT_MEM + ucast newsize) :: u16
      in
      act_bind (mem_get mem2) (\<lambda>m2.
      if mem_used m2 = 0 then
        act_bind (act_gets lfree) (\<lambda>lf.
        act_bind (if lf = mem2 then set_lfree (ptr_to_mem ptr2) else act_return ()) (\<lambda>_.
        act_bind (set_used (ptr_to_mem ptr2) 0) (\<lambda>_.
        act_bind (set_next (ptr_to_mem ptr2) (mem_next m2)) (\<lambda>_.
        act_bind (set_prev (ptr_to_mem ptr2) ptr) (\<lambda>_.
        act_bind (set_next mem ptr2) (\<lambda>_.
        act_bind (link_back (mem_next m2) (ptr_to_mem ptr2)) (\<lambda>_.
        MEM_STATS_DEC_USED (sz - newsize))))))))
      else if ucast newsize + SIZEOF_STRUCT_MEM + MIN_SIZE_ALIGNED \<le> ucast sz then
        act_bind (act_gets lfree) (\<lambda>lf.
        act_bind (if ptr_to_mem ptr2 < lf then set_lfree (ptr_to_mem ptr2) else act_return ()) (\<lambda>_.
        act_bind (set_used (ptr_to_mem ptr2) 0) (\<lambda>_.
        act_bind (set_next (ptr_to_mem ptr2) nxt) (\<lambda>_.
        act_bind (set_prev (ptr_to_mem ptr2) ptr) (\<lambda>_.
        act_bind (set_next mem ptr2) (\<lambda>_.
        act_bind (link_back nxt (ptr_to_mem ptr2)) (\<lambda>_.
        MEM_STATS_DEC_USED (sz - newsize))))))))
      else act_return ()))"

definition lwip_mem_trim :: "nat \<Rightarrow> u16 \<Rightarrow> (lwip_heap, nat option) act" where
  "lwip_mem_trim rmem new_size =
     (let newsize = adjusted_size new_size in
      if ucast newsize > MEM_SIZE_ALIGNED \<or> newsize < new_size then act_return None
      else if rmem \<ge> ram_end then
        act_bind MEM_STATS_INC_illegal (\<lambda>_. act_return (Some rmem))
      else
        act_bind (act_check OutOfBounds (unat SIZEOF_STRUCT_MEM \<le> rmem)) (\<lambda>_.
        let mem = rmem - unat SIZEOF_STRUCT_MEM; ptr = mem_to_ptr mem in
        act_bind (mem_get mem) (\<lambda>m.
        let size = ucast (ucast (mem_next m - ptr) - SIZEOF_STRUCT_MEM) :: u16 in
        if newsize > size then act_return None
        else if newsize = size then act_return (Some rmem)
        else
          act_bind (trim_block mem (mem_next m) size newsize) (\<lambda>_.
          act_return (Some rmem)))))"

section \<open>Allocation\<close>

text \<open>The loops follow the list of blocks with fuel: one turn per byte of the heap is more than a list of blocks needs.\<close>

definition heap_fuel :: nat where "heap_fuel = 1601"

text \<open>The search for a free block that is big enough.\<close>

definition data_size :: "u16 \<Rightarrow> u16 \<Rightarrow> u32" where
  "data_size nxt ptr = ucast nxt - (ucast ptr + SIZEOF_STRUCT_MEM)"

fun malloc_scan :: "nat \<Rightarrow> u16 \<Rightarrow> u16 \<Rightarrow> (lwip_heap, u16 option) act" where
  "malloc_scan 0 sz ptr = act_fail NoReturn"
| "malloc_scan (Suc fuel) sz ptr =
     (if \<not> ucast ptr < MEM_SIZE_ALIGNED - ucast sz then act_return None
      else
        act_bind (mem_get (ptr_to_mem ptr)) (\<lambda>m.
        if mem_used m = 0 \<and> data_size (mem_next m) ptr \<ge> ucast sz then act_return (Some ptr)
        else malloc_scan fuel sz (mem_next m)))"

text \<open>Taking the block, with a new free one behind it when the rest is big enough.\<close>

definition take_block :: "u16 \<Rightarrow> u16 \<Rightarrow> (lwip_heap, unit) act" where
  "take_block sz ptr =
     (let mem = ptr_to_mem ptr in
      act_bind (mem_get mem) (\<lambda>m.
      if data_size (mem_next m) ptr \<ge> ucast sz + SIZEOF_STRUCT_MEM + MIN_SIZE_ALIGNED then
        let ptr2 = ucast (ucast ptr + SIZEOF_STRUCT_MEM + ucast sz) :: u16; mem2 = ptr_to_mem ptr2 in
        act_bind (set_used mem2 0) (\<lambda>_.
        act_bind (set_next mem2 (mem_next m)) (\<lambda>_.
        act_bind (set_prev mem2 ptr) (\<lambda>_.
        act_bind (set_next mem ptr2) (\<lambda>_.
        act_bind (set_used mem 1) (\<lambda>_.
        act_bind (link_back (mem_next m) mem2) (\<lambda>_.
        MEM_STATS_INC_USED (ucast (ucast sz + SIZEOF_STRUCT_MEM))))))))
      else
        act_bind (set_used mem 1) (\<lambda>_.
        MEM_STATS_INC_USED (mem_next m - ptr))))"

text \<open>The next free block from \<open>cur\<close> on.\<close>

fun next_free :: "nat \<Rightarrow> nat \<Rightarrow> (lwip_heap, nat) act" where
  "next_free 0 cur = act_fail NoReturn"
| "next_free (Suc fuel) cur =
     act_bind (mem_get cur) (\<lambda>c.
     if mem_used c \<noteq> 0 \<and> cur \<noteq> ram_end then next_free fuel (ptr_to_mem (mem_next c)) else act_return cur)"

definition lwip_mem_malloc :: "u16 \<Rightarrow> (lwip_heap, nat option) act" where
  "lwip_mem_malloc size_in =
     (if size_in = 0 then act_return None
      else
        let size = adjusted_size size_in in
        if ucast size > MEM_SIZE_ALIGNED \<or> size < size_in then act_return None
        else
          act_bind (act_gets lfree) (\<lambda>lf.
          act_bind (malloc_scan heap_fuel size (mem_to_ptr lf)) (\<lambda>found.
          case found of
            None \<Rightarrow> act_bind MEM_STATS_INC_err (\<lambda>_. act_return None)
          | Some ptr \<Rightarrow>
              let mem = ptr_to_mem ptr in
              act_bind (take_block size ptr) (\<lambda>_.
              act_bind (if mem = lf then act_bind (next_free heap_fuel lf) set_lfree else act_return ()) (\<lambda>_.
              act_return (Some (mem + unat SIZEOF_STRUCT_MEM)))))))"

definition lwip_mem_calloc :: "u16 \<Rightarrow> u16 \<Rightarrow> (lwip_heap, nat option) act" where
  "lwip_mem_calloc n sz =
     (let alloc_size = ucast n * ucast sz :: u32 in
      if ucast (ucast alloc_size :: u16) \<noteq> alloc_size then act_return None
      else
        act_bind (lwip_mem_malloc (ucast alloc_size)) (\<lambda>p.
        case p of
          None \<Rightarrow> act_return None
        | Some a \<Rightarrow>
            act_bind (act_check OutOfBounds (a + unat alloc_size \<le> ram_size)) (\<lambda>_.
            act_bind (act_modify (ram_heap_update (\<lambda>m. wr_list m a (replicate (unat alloc_size) 0)))) (\<lambda>_.
            act_return (Some a)))))"

text \<open>
  The heap as the packet buffers use it; a custom buffer is freed by its owner, the parameter \<open>custom\<close>.
  The memory behind the structure of a new heap buffer holds what the heap holds there; what an element of
  the pool holds is the parameter \<open>pool\<close>.
\<close>

definition heap_env :: "(nat \<Rightarrow> (lwip_heap pbuf_sys, unit) act) \<Rightarrow> (pptr \<Rightarrow> nat \<Rightarrow> u8) \<Rightarrow> lwip_heap mem_env" where
  "heap_env custom pool = \<lparr>mem_malloc = lwip_mem_malloc, mem_free = (\<lambda>p. lwip_mem_free (Some p)),
     mem_trim = (\<lambda>p n. act_bind (lwip_mem_trim p n) (\<lambda>_. act_return ())), custom_free_function = custom,
     uninit = (\<lambda>s x k. case x of
         HeapPbuf e \<Rightarrow> ram_heap (mem_heap s) (e + unat (LWIP_MEM_ALIGN_SIZE SIZEOF_STRUCT_PBUF) + k)
       | _ \<Rightarrow> pool x k)\<rparr>"

end
