(* ===== verification/Lwip_MemList.thy ===== *)
theory Lwip_MemList
  imports Lwip_Mem
begin

text \<open>
  The heap as a list of blocks: the linked headers in memory represent the list, which tiles the whole area.  The
  lemmas say how the list changes when headers between two blocks are rewritten.
\<close>

section \<open>Constants and accesses\<close>

lemma mem_consts [simp]: "MEM_SIZE_ALIGNED = 1600" "MIN_SIZE_ALIGNED = 12" "SIZEOF_STRUCT_MEM = 8"
  by (simp_all add: MEM_SIZE_ALIGNED_def MIN_SIZE_ALIGNED_def SIZEOF_STRUCT_MEM_def MEM_SIZE_def MIN_SIZE_def LWIP_MEM_ALIGN_SIZE_def)

lemma ram_size_eq [simp]: "ram_size = 1616"
  by (simp add: ram_size_def)

lemma in_ram_run: "p \<le> 1608 \<Longrightarrow> in_ram p h = Inr ((), h)"
  by (simp add: in_ram_def act_check_def act_return_def)

abbreviation header_at :: "bytes \<Rightarrow> nat \<Rightarrow> struct_mem" where
  "header_at m p \<equiv> \<lparr>mem_next = rd16 m p, mem_prev = rd16 m (p + 2), mem_used = m (p + 4)\<rparr>"

lemma mem_get_run [simp]: "p \<le> 1608 \<Longrightarrow> mem_get p h = Inr (header_at (ram_heap h) p, h)"
  by (simp add: mem_get_def in_ram_run act_bind_def act_gets_def)

lemma set_run [simp]:
  assumes "p \<le> 1608"
  shows "set_next p v h = Inr ((), ram_heap_update (\<lambda>m. wr16 m p v) h)"
    and "set_prev p v h = Inr ((), ram_heap_update (\<lambda>m. wr16 m (p + 2) v) h)"
    and "set_used p b h = Inr ((), ram_heap_update (\<lambda>m. m(p + 4 := b)) h)"
  using assms by (simp_all add: set_next_def set_prev_def set_used_def in_ram_run act_bind_def act_modify_def)

lemma set_lfree_run [simp]: "set_lfree p h = Inr ((), h\<lparr>lfree := p\<rparr>)"
  by (simp add: set_lfree_def act_modify_def)

section \<open>Lists of blocks\<close>

type_synonym blk = "nat \<times> bool"

fun start :: "blk list \<Rightarrow> nat \<Rightarrow> nat" where
  "start [] e = e"
| "start ((p, u) # bs) e = p"

fun lastp :: "nat \<Rightarrow> blk list \<Rightarrow> nat" where
  "lastp pv [] = pv"
| "lastp pv ((p, u) # bs) = lastp p bs"

text \<open>Headers from the first block of \<open>bs\<close> on, up to the address \<open>e\<close>; \<open>pv\<close> is what the first one has as predecessor.\<close>

fun mseg :: "bytes \<Rightarrow> nat \<Rightarrow> blk list \<Rightarrow> nat \<Rightarrow> bool" where
  "mseg m pv [] e \<longleftrightarrow> True"
| "mseg m pv ((p, u) # bs) e \<longleftrightarrow> rd16 m p = of_nat (start bs e) \<and> rd16 m (p + 2) = of_nat pv
     \<and> m (p + 4) = (if u then 1 else 0) \<and> p + 20 \<le> start bs e \<and> 4 dvd p \<and> mseg m p bs e"

definition heap_list :: "bytes \<Rightarrow> blk list \<Rightarrow> bool" where
  "heap_list m bs \<longleftrightarrow> bs \<noteq> [] \<and> start bs 1600 = 0 \<and> mseg m 0 bs 1600 \<and> rd16 m 1600 = 1600 \<and> rd16 m 1602 = 1600
     \<and> m 1604 = 1"

lemma start_append [simp]: "start (xs @ ys) e = start xs (start ys e)"
  by (induction xs e rule: start.induct) auto

lemma lastp_append [simp]: "lastp pv (xs @ ys) = lastp (lastp pv xs) ys"
  by (induction pv xs rule: lastp.induct) auto

lemma mseg_append: "mseg m pv (xs @ ys) e \<longleftrightarrow> mseg m pv xs (start ys e) \<and> mseg m (lastp pv xs) ys e"
  by (induction m pv xs e rule: mseg.induct) auto

lemma mseg_start: "mseg m pv bs e \<Longrightarrow> start bs e \<le> e"
  by (induction m pv bs e rule: mseg.induct) (auto intro: order_trans)

lemma mseg_block: "mseg m pv bs e \<Longrightarrow> (p, u) \<in> set bs \<Longrightarrow> start bs e \<le> p \<and> p + 20 \<le> e \<and> 4 dvd p"
proof (induction m pv bs e rule: mseg.induct)
  case (2 m pv p' u' bs e)
  then show ?case using mseg_start [of m p' bs e] by auto
qed simp

lemma mseg_frame:
  assumes "\<And>p u i. (p, u) \<in> set bs \<Longrightarrow> i < 5 \<Longrightarrow> m' (p + i) = m (p + i)"
  shows "mseg m' pv bs e = mseg m pv bs e"
  using assms
proof (induction m pv bs e rule: mseg.induct)
  case (2 m pv p u bs e)
  have rd: "rd16 m' (p + k) = rd16 m (p + k)" if "k \<le> 3" for k
    using 2(2) [of p u k] 2(2) [of p u "k + 1"] that by (simp add: rd16_def)
  have "rd16 m' p = rd16 m p" "rd16 m' (p + 2) = rd16 m (p + 2)" "m' (p + 4) = m (p + 4)"
    using rd [of 0] rd [of 2] 2(2) [of p u 4] by simp_all
  moreover have "mseg m' p bs e = mseg m p bs e" using 2(1) 2(2) by auto
  ultimately show ?case by simp
qed simp

lemma mseg_below: "mseg m pv xs e \<Longrightarrow> (\<And>i. i < e \<Longrightarrow> m' i = m i) \<Longrightarrow> mseg m' pv xs e"
  by (subst mseg_frame [of xs m' m]) (fastforce dest: mseg_block)+

lemma mseg_above: "mseg m pv xs e \<Longrightarrow> (\<And>i. start xs e \<le> i \<Longrightarrow> m' i = m i) \<Longrightarrow> mseg m' pv xs e"
  by (subst mseg_frame [of xs m' m]) (fastforce dest: mseg_block)+

lemma mseg_new_prev:
  assumes "mseg m pv ((q, v) # ys) e" "\<And>i. q \<le> i \<Longrightarrow> m' i = wr16 m (q + 2) (of_nat pv') i"
  shows "mseg m' pv' ((q, v) # ys) e"
proof -
  have rd: "rd16 m' (q + k) = rd16 (wr16 m (q + 2) (of_nat pv')) (q + k)" for k
    using assms(2) [of "q + k"] assms(2) [of "q + k + 1"] by (simp add: rd16_def)
  have h: "rd16 m' q = rd16 m q" "rd16 m' (q + 2) = of_nat pv'" "m' (q + 4) = m (q + 4)"
    using rd [of 0] rd [of 2] assms(2) [of "q + 4"] by simp_all
  have ys: "mseg m q ys e" "q + 20 \<le> start ys e" using assms(1) by simp_all
  have "mseg m' q ys e"
  proof (rule mseg_above [OF ys(1)])
    fix i assume "start ys e \<le> i"
    with ys(2) have "q \<le> i" "q + 2 + 2 \<le> i" by simp_all
    with assms(2) [of i] show "m' i = m i" by simp
  qed
  then show ?thesis using assms(1) h by simp
qed

text \<open>Replacing the blocks between \<open>xs\<close> and \<open>ys\<close>.\<close>

definition relinked :: "bytes \<Rightarrow> nat \<Rightarrow> nat \<Rightarrow> bytes" where
  "relinked m q pv = (if q \<noteq> 1600 then wr16 m (q + 2) (of_nat pv) else m)"

lemma heap_list_split:
  assumes "heap_list m (xs @ mid @ ys)"
  shows "mseg m 0 xs (start mid (start ys 1600))" "mseg m (lastp 0 xs) mid (start ys 1600)"
    "mseg m (lastp 0 (xs @ mid)) ys 1600" "start mid (start ys 1600) \<le> start ys 1600" "start ys 1600 \<le> 1600"
  using assms mseg_start [of m "lastp 0 xs" mid "start ys 1600"] mseg_start [of m _ ys 1600]
  by (auto simp: heap_list_def mseg_append)

lemma heap_replace:
  assumes hl: "heap_list m (xs @ mid @ ys)" and P: "P = start mid (start ys 1600)" and Q: "Q = start ys 1600"
    and below: "\<And>i. i < P \<Longrightarrow> m' i = m i" and above: "\<And>i. Q \<le> i \<Longrightarrow> m' i = relinked m Q (lastp (lastp 0 xs) mid') i"
    and new: "mid' \<noteq> []" "start mid' Q = P" "mseg m' (lastp 0 xs) mid' Q"
  shows "heap_list m' (xs @ mid' @ ys)"
proof -
  note s = heap_list_split [OF hl]
  have xs: "mseg m' 0 xs P" using mseg_below [OF s(1) below [unfolded P]] P by simp
  have ys: "mseg m' (lastp (lastp 0 xs) mid') ys 1600"
  proof (cases ys)
    case (Cons y ys')
    obtain q v where y: "y = (q, v)" by (cases y)
    then have "q = Q" "q \<noteq> 1600" using Q Cons mseg_block [OF s(3), of q v] by simp_all
    have "mseg m (lastp 0 (xs @ mid)) ((q, v) # ys') 1600" using s(3) by (simp only: Cons y)
    then show ?thesis unfolding Cons y
    proof (rule mseg_new_prev)
      fix i assume "q \<le> i"
      with above [of i] \<open>q = Q\<close> \<open>q \<noteq> 1600\<close> show "m' i = wr16 m (q + 2) (of_nat (lastp (lastp 0 xs) mid')) i"
        by (simp only: relinked_def if_True simp_thms)
    qed
  qed simp
  have "relinked m Q pv i = m i" if "1600 \<le> i" for pv i
  proof (cases ys)
    case Nil
    then show ?thesis using Q by (simp add: relinked_def)
  next
    case (Cons y ys')
    obtain q v where y: "y = (q, v)" by (cases y)
    then have "Q + 20 \<le> 1600" using Q Cons mseg_block [OF s(3), of q v] by simp
    then show ?thesis using that by (simp add: relinked_def)
  qed
  then have fin: "m' i = m i" if "1600 \<le> i" for i using that above [of i] s(5) Q by simp
  have "rd16 m' 1600 = rd16 m 1600" "rd16 m' 1602 = rd16 m 1602" "m' 1604 = m 1604"
    using fin [of 1600] fin [of 1601] fin [of 1602] fin [of 1603] fin [of 1604] by (simp_all add: rd16_def)
  then show ?thesis
    using hl xs ys new P Q by (auto simp: heap_list_def mseg_append)
qed

lemma relinked_below: "i < q \<Longrightarrow> relinked m q pv i = m i"
  by (simp add: relinked_def)

lemma relinked_cong: "(\<And>i. q \<le> i \<Longrightarrow> m1 i = m2 i) \<Longrightarrow> q \<le> i \<Longrightarrow> relinked m1 q pv i = relinked m2 q pv i"
  by (auto simp: relinked_def wr16_def)

lemma relinked_other: "q + 8 \<le> i \<Longrightarrow> relinked m q pv i = m i"
  by (simp add: relinked_def)

section \<open>Conversions\<close>

lemma n16 [simp]: "n < 65536 \<Longrightarrow> unat (of_nat n :: u16) = n"
  by (simp add: unat_of_nat_u16)

lemma w16 [simp]: "unat (ucast (x :: u16) :: u32) = unat x"
proof -
  have "unat x < 2 ^ LENGTH(32)" using unat_u16_bound [of x] by (rule less_trans) simp
  then show ?thesis by (simp only: unsigned_ucast_eq take_bit_nat_eq_self)
qed

lemma u32_add_small: "unat x + unat y < 4294967296 \<Longrightarrow> unat (x + y) = unat x + unat y" for x y :: u32
  by (simp add: unat_u32_add)

lemma u32_as_u16: "(ucast x :: u16) = of_nat (unat x)" for x :: u32
  by simp

lemma link_back_run:
  assumes "q \<le> 1600"
  shows "link_back (of_nat q) p h = Inr ((), ram_heap_update (\<lambda>m. relinked m q p) h)"
proof -
  have "unat (ucast (of_nat q :: u16) :: u32) = q" using assms by simp
  then have "ucast (of_nat q :: u16) \<noteq> (1600 :: u32) \<longleftrightarrow> q \<noteq> 1600" by (auto simp: word_unat_eq_iff)
  then show ?thesis using assms by (auto simp: link_back_def ptr_to_mem_def mem_to_ptr_def relinked_def act_return_def)
qed

section \<open>The invariant\<close>

fun used_bytes :: "blk list \<Rightarrow> nat \<Rightarrow> nat" where
  "used_bytes [] e = 0"
| "used_bytes ((p, u) # bs) e = (if u then start bs e - p else 0) + used_bytes bs e"

definition plugged :: "blk list \<Rightarrow> bool" where
  "plugged bs = successively (\<lambda>a b. snd a \<or> snd b) bs"

definition first_free :: "blk list \<Rightarrow> nat" where
  "first_free bs = start (dropWhile snd bs) 1600"

text \<open>
  The heap holds the blocks \<open>bs\<close>: they tile the area, no two free ones are neighbours, \<^verbatim>\<open>lfree\<close> is the lowest free block,
  and the statistics count the bytes in use.
\<close>

definition heap_inv :: "lwip_heap \<Rightarrow> blk list \<Rightarrow> bool" where
  "heap_inv h bs \<longleftrightarrow> heap_list (ram_heap h) bs \<and> plugged bs \<and> lfree h = first_free bs
     \<and> unat (st_used (mem_st h)) = used_bytes bs 1600"

text \<open>Outside of the headers at the addresses \<open>A\<close> the memory is as it was.\<close>

definition kept :: "nat set \<Rightarrow> bytes \<Rightarrow> bytes \<Rightarrow> bool" where
  "kept A m m' \<longleftrightarrow> (\<forall>i. (\<forall>q \<in> A. i < q \<or> q + 8 \<le> i) \<longrightarrow> m' i = m i)"

lemma kept_refl [simp]: "kept A m m"
  by (simp add: kept_def)

lemma kept_trans: "kept A m m1 \<Longrightarrow> kept A m1 m2 \<Longrightarrow> kept A m m2"
  by (simp add: kept_def)

lemma kept_mono: "kept A m m' \<Longrightarrow> A \<subseteq> B \<Longrightarrow> kept B m m'"
  by (auto simp: kept_def)

lemma start_mem: "start ys e = e \<or> start ys e \<in> fst ` set ys"
  by (cases "(ys, e)" rule: start.cases) auto

text \<open>Rewriting the headers of \<open>mid'\<close> and linking the block behind them.\<close>

lemma heap_put:
  assumes hl: "heap_list m (xs @ mid @ ys)" and P: "start mid' Q = start mid Q" and Q: "Q = start ys 1600"
    and kp: "kept (fst ` set mid') m m1" and new: "mid' \<noteq> []" "mseg m1 (lastp 0 xs) mid' Q"
    and m': "m' = relinked m1 Q (lastp (lastp 0 xs) mid')"
  shows "heap_list m' (xs @ mid' @ ys)" and "kept (fst ` set (mid' @ ys)) m m'"
proof -
  have blk: "start mid Q \<le> q \<and> q + 20 \<le> Q" if "q \<in> fst ` set mid'" for q
    using mseg_block [OF new(2)] that P by fastforce
  have m1: "m1 i = m i" if "i < start mid Q \<or> Q \<le> i" for i
  proof -
    have "i < q \<or> q + 8 \<le> i" if "q \<in> fst ` set mid'" for q using blk [OF that] \<open>i < start mid Q \<or> Q \<le> i\<close> by linarith
    then show ?thesis using kp by (simp add: kept_def)
  qed
  have PQ: "start mid Q \<le> Q" using heap_list_split(4) [OF hl] Q by simp
  have "mseg m' (lastp 0 xs) mid' Q" unfolding m' by (rule mseg_below [OF new(2)]) (simp add: relinked_below)
  then show "heap_list m' (xs @ mid' @ ys)"
    using P Q new(1) m1 PQ unfolding m'
    by (intro heap_replace [OF hl]) (auto simp: relinked_below intro: relinked_cong)
  show "kept (fst ` set (mid' @ ys)) m m'"
    unfolding kept_def
  proof (intro allI impI)
    fix i assume i: "\<forall>q \<in> fst ` set (mid' @ ys). i < q \<or> q + 8 \<le> i"
    have "Q = 1600 \<or> Q \<in> fst ` set (mid' @ ys)" using start_mem [of ys 1600] Q by auto
    then have "Q = 1600 \<or> i < Q \<or> Q + 8 \<le> i" using i by blast
    then have "m' i = m1 i" unfolding m' by (auto simp: relinked_def)
    moreover have "m1 i = m i" using kp i by (simp add: kept_def)
    ultimately show "m' i = m i" by simp
  qed
qed

lemma used_bytes_append: "used_bytes (xs @ ys) e = used_bytes xs (start ys e) + used_bytes ys e"
  by (induction xs e rule: used_bytes.induct) auto

lemma used_bytes_bound: "mseg m pv bs e \<Longrightarrow> used_bytes bs e + start bs e \<le> e"
proof (induction m pv bs e rule: mseg.induct)
  case (2 m pv p u bs e)
  then show ?case by (cases u) simp_all
qed simp

lemma mem_init_inv:
  assumes "st_used (mem_st h) = 0"
  shows "\<exists>h'. mem_init h = Inr ((), h') \<and> heap_inv h' [(0, False)]"
proof -
  let ?f = "\<lambda>m. wr16 (wr16 ((wr16 (wr16 m 0 1600) 2 0)(4 := 0, 1604 := 1)) 1600 1600) 1602 1600"
  have c: "ucast (1600 :: u32) = (1600 :: u16)" by simp
  have "mem_init h = Inr ((), mem_st_update (st_avail_update (\<lambda>_. 1600)) (lfree_update (\<lambda>_. 0) (ram_heap_update ?f h)))"
    unfolding mem_init_def act_bind_def mem_consts c by (simp add: act_modify_def comp_def) (simp add: numeral_2_eq_2)
  moreover have "heap_list (?f (ram_heap h)) [(0, False)]"
    by (simp add: heap_list_def rd16_def wr16_def)
  ultimately show ?thesis using assms by (auto simp: heap_inv_def plugged_def first_free_def)
qed

section \<open>First fit\<close>

fun ab_malloc :: "nat \<Rightarrow> blk list \<Rightarrow> (nat \<times> blk list) option" where
  "ab_malloc sz [] = None"
| "ab_malloc sz ((p, u) # bs) =
     (if \<not> u \<and> p + 8 + sz \<le> start bs 1600
      then Some (p, if p + 8 + sz + 20 \<le> start bs 1600 then (p, True) # (p + 8 + sz, False) # bs else (p, True) # bs)
      else map_option (\<lambda>(q, bs'). (q, (p, u) # bs')) (ab_malloc sz bs))"

lemma ab_malloc_high:
  assumes "mseg m pv bs 1600" "1600 - sz \<le> start bs 1600"
  shows "ab_malloc sz bs = None"
  using assms
proof (induction m pv bs "1600 :: nat" rule: mseg.induct)
  case (2 m pv p u bs)
  then show ?case using mseg_start [of m p bs 1600] by auto
qed simp

lemma ab_malloc_used: "list_all snd xs \<Longrightarrow> ab_malloc sz (xs @ ys) = map_option (\<lambda>(q, bs'). (q, xs @ bs')) (ab_malloc sz ys)"
proof (induction xs)
  case Nil
  then show ?case by (cases "ab_malloc sz ys") auto
next
  case (Cons b xs)
  then show ?case by (cases b; cases "ab_malloc sz ys") auto
qed

abbreviation taken :: "nat \<Rightarrow> nat \<Rightarrow> nat \<Rightarrow> blk list" where
  "taken sz p Q \<equiv> (if p + 8 + sz + 20 \<le> Q then [(p, True), (p + 8 + sz, False)] else [(p, True)])"

lemma ab_malloc_split:
  assumes "ab_malloc sz bs = Some (p, bs')"
  obtains xs ys where "bs = xs @ (p, False) # ys" "p + 8 + sz \<le> start ys 1600" "bs' = xs @ taken sz p (start ys 1600) @ ys"
    "\<And>us q vs. xs = us @ (q, False) # vs \<Longrightarrow> start (vs @ [(p, False)]) 1600 < q + 8 + sz"
  using assms
proof (induction bs arbitrary: bs' thesis)
  case (Cons b bs)
  obtain r u where b: "b = (r, u)" by (cases b)
  show ?case
  proof (cases "\<not> u \<and> r + 8 + sz \<le> start bs 1600")
    case True
    then show ?thesis using Cons.prems(2) b by (intro Cons.prems(1) [of "[]" bs]) auto
  next
    case False
    then obtain bs2 where r: "ab_malloc sz bs = Some (p, bs2)" "bs' = b # bs2" using Cons.prems(2) b by (auto split: if_splits)
    obtain xs ys where xs: "bs = xs @ (p, False) # ys" "p + 8 + sz \<le> start ys 1600" "bs2 = xs @ taken sz p (start ys 1600) @ ys"
      "\<And>us q vs. xs = us @ (q, False) # vs \<Longrightarrow> start (vs @ [(p, False)]) 1600 < q + 8 + sz"
      using Cons.IH [OF _ r(1)] by blast
    have "start (vs @ [(p, False)]) 1600 < q + 8 + sz" if "b # xs = us @ (q, False) # vs" for us q vs
      using that xs(1,4) False b by (cases us) auto
    then show ?thesis using xs r(2) by (intro Cons.prems(1) [of "b # xs" ys]) auto
  qed
qed simp

lemma scan_bound:
  assumes "p \<le> 1600" "unat sz \<le> 1600"
  shows "ucast (of_nat p :: u16) < (1600 :: u32) - ucast (sz :: u16) \<longleftrightarrow> p < 1600 - unat sz"
proof -
  have "(ucast sz :: u32) \<le> 1600" using assms(2) by (simp add: word_le_nat_alt)
  then have "unat ((1600 :: u32) - ucast sz) = 1600 - unat sz" by (simp add: unat_sub)
  then show ?thesis using assms(1) by (simp add: word_less_nat_alt)
qed

lemma data_size_run:
  assumes "nx \<le> 1600" "p + 8 \<le> nx"
  shows "unat (data_size (of_nat nx) (of_nat p)) = nx - (p + 8)"
proof -
  have p: "unat (ucast (of_nat p :: u16) + 8 :: u32) = p + 8" using assms by (simp add: u32_add_small)
  then have "(ucast (of_nat p :: u16) + 8 :: u32) \<le> ucast (of_nat nx :: u16)" using assms by (simp add: word_le_nat_alt)
  then show ?thesis using p assms by (simp add: data_size_def unat_sub)
qed

lemma scan_run:
  assumes "mseg (ram_heap h) pv bs 1600" "length bs < fuel" "unat sz \<le> 1600"
  shows "malloc_scan fuel sz (of_nat (start bs 1600)) h = Inr (map_option (\<lambda>(p, _). of_nat p) (ab_malloc (unat sz) bs), h)"
  using assms
proof (induction bs arbitrary: pv fuel)
  case Nil
  then obtain f where "fuel = Suc f" by (cases fuel) auto
  moreover have "\<not> 1600 < 1600 - unat sz" by linarith
  ultimately show ?case using scan_bound [of 1600 sz] Nil by (simp add: act_return_def)
next
  case (Cons b bs)
  obtain p u where b: "b = (p, u)" by (cases b)
  obtain f where f: "fuel = Suc f" "length bs < f" using Cons by (cases fuel) auto
  have seg: "mseg (ram_heap h) p bs 1600" "p + 20 \<le> start bs 1600" "start bs 1600 \<le> 1600" "p \<le> 1580"
    "rd16 (ram_heap h) p = of_nat (start bs 1600)" "ram_heap h (p + 4) = (if u then 1 else 0)"
    using Cons.prems(1) b mseg_start [of "ram_heap h" p bs 1600] by auto
  note IH = Cons.IH [OF seg(1) f(2) Cons.prems(3)]
  show ?case
  proof (cases "p < 1600 - unat sz")
    case False
    then have "ab_malloc (unat sz) (b # bs) = None" using ab_malloc_high [OF Cons.prems(1)] b by simp
    then show ?thesis using False f b seg Cons.prems(3) by (simp add: scan_bound act_return_def)
  next
    case True
    have "ucast sz \<le> data_size (of_nat (start bs 1600)) (of_nat p) \<longleftrightarrow> p + 8 + unat sz \<le> start bs 1600"
      using seg by (auto simp: word_le_nat_alt data_size_run)
    then show ?thesis using True f b seg Cons.prems(3) IH
      by (cases "ab_malloc (unat sz) bs") (auto simp: scan_bound act_return_def act_bind_def ptr_to_mem_def)
  qed
qed

section \<open>Taking a block\<close>

lemma rd16_upd_other [simp]: "a < b \<or> b + 2 \<le> a \<Longrightarrow> rd16 (m(a := v)) b = rd16 m b"
  by (auto simp: rd16_def)

lemma wr16_rd16: "wr16 m a (rd16 m a) = m"
proof -
  have "\<not> bit x (8 + n)" for x :: u8 and n using bit_imp_le_length [of x "8 + n"] by auto
  then show ?thesis by (intro ext) (auto simp: wr16_def rd16_def intro!: bit_word_eqI simp: bit_simps)
qed

text \<open>A link that is already there is not changed.\<close>

lemma relinked_id:
  assumes "mseg m pv ys 1600"
  shows "relinked m (start ys 1600) pv = m"
proof (cases ys)
  case (Cons b bs)
  then have "rd16 m (start ys 1600 + 2) = of_nat pv" using assms by (cases b) simp
  then show ?thesis using wr16_rd16 [of m "start ys 1600 + 2"] by (simp only: relinked_def split: if_split) simp
qed (simp add: relinked_def)

lemma rd16_relinked [simp]: "i + 2 \<le> q + 2 \<Longrightarrow> rd16 (relinked m q pv) i = rd16 m i"
  by (simp add: relinked_def)

lemma stats_run [simp]:
  "MEM_STATS_INC_illegal h = Inr ((), mem_st_update (st_illegal_update (\<lambda>n. n + 1)) h)"
  "MEM_STATS_INC_err h = Inr ((), mem_st_update (st_err_update (\<lambda>n. n + 1)) h)"
  "MEM_STATS_DEC_USED y h = Inr ((), mem_st_update (st_used_update (\<lambda>u. u - y)) h)"
  by (simp_all add: MEM_STATS_INC_illegal_def MEM_STATS_INC_err_def MEM_STATS_DEC_USED_def act_modify_def)

lemma INC_USED_run:
  "\<exists>h'. MEM_STATS_INC_USED y h = Inr ((), h') \<and> ram_heap h' = ram_heap h \<and> lfree h' = lfree h
     \<and> st_used (mem_st h') = st_used (mem_st h) + y"
  by (simp add: MEM_STATS_INC_USED_def act_modify_def Let_def)

lemma take_block_run:
  assumes hl: "heap_list (ram_heap h) (xs @ (p, False) # ys)" and Q: "Q = start ys 1600"
    and fit: "p + 8 + unat sz \<le> Q" and sz: "12 \<le> unat sz" "4 dvd unat sz"
  shows "\<exists>h'. take_block sz (of_nat p) h = Inr ((), h') \<and> heap_list (ram_heap h') (xs @ taken (unat sz) p Q @ ys)
    \<and> kept (fst ` set (taken (unat sz) p Q @ ys)) (ram_heap h) (ram_heap h') \<and> lfree h' = lfree h
    \<and> st_used (mem_st h') = st_used (mem_st h) + of_nat (start (tl (taken (unat sz) p Q)) Q - p)"
proof -
  let ?m = "ram_heap h"
  define p2 where "p2 = p + 8 + unat sz"
  have hl': "heap_list ?m (xs @ [(p, False)] @ ys)" using hl by simp
  note s = heap_list_split [OF hl']
  have Q1: "Q \<le> 1600" using s(5) Q by simp
  have p: "rd16 ?m p = of_nat Q" "rd16 ?m (p + 2) = of_nat (lastp 0 xs)" "4 dvd p" "p + 20 \<le> Q"
    using s(2) Q by simp_all
  have "unat (of_nat p :: u16) = p" using p Q1 by simp
  have ds: "unat (data_size (of_nat Q) (of_nat p)) = Q - (p + 8)" using p Q1 by (simp add: data_size_run)
  have tk: "taken (unat sz) p Q = (if p2 + 20 \<le> Q then [(p, True), (p2, False)] else [(p, True)])" "p + 20 \<le> p2" "4 dvd p2"
    using p sz by (simp_all add: p2_def)
  have big: "data_size (of_nat Q) (of_nat p) \<ge> ucast sz + 8 + 12 \<longleftrightarrow> p2 + 20 \<le> Q"
    using fit Q1 p by (auto simp: word_le_nat_alt ds u32_add_small p2_def)
  show ?thesis
  proof (cases "p2 + 20 \<le> Q")
    case True
    have ucp2: "ucast (ucast (of_nat p :: u16) + 8 + ucast sz :: u32) = (of_nat p2 :: u16)"
      using fit Q1 unfolding p2_def u32_as_u16 by (simp add: u32_add_small)
    let ?f = "\<lambda>m. (wr16 (wr16 (wr16 (m(p2 + 4 := 0)) p2 (of_nat Q)) (p2 + 2) (of_nat p)) p (of_nat p2))(p + 4 := 1)"
    let ?m1 = "?f ?m"
    have "kept (fst ` set [(p, True), (p2, False)]) ?m ?m1" by (auto simp: kept_def)
    moreover have "mseg ?m1 (lastp 0 xs) [(p, True), (p2, False)] Q" using p tk True by simp
    ultimately have "heap_list (relinked ?m1 Q p2) (xs @ [(p, True), (p2, False)] @ ys)"
        "kept (fst ` set ([(p, True), (p2, False)] @ ys)) ?m (relinked ?m1 Q p2)"
      using heap_put [OF hl' _ Q, of "[(p, True), (p2, False)]" ?m1] by simp_all
    moreover have "take_block sz (of_nat p) h =
        MEM_STATS_INC_USED (ucast (ucast sz + 8 :: u32)) (ram_heap_update (\<lambda>m. relinked (?f m) Q p2) h)"
      using True p Q1 big ucp2 by (simp add: take_block_def act_bind_def ptr_to_mem_def link_back_run comp_def)
    moreover have "ucast (ucast sz + 8 :: u32) = (of_nat (p2 - p) :: u16)"
      using fit Q1 unfolding p2_def u32_as_u16 by (simp add: u32_add_small)
    ultimately show ?thesis unfolding tk(1)
      using True INC_USED_run [of "of_nat (p2 - p)" "ram_heap_update (\<lambda>m. relinked (?f m) Q p2) h"] by auto
  next
    case False
    let ?m1 = "?m(p + 4 := 1)"
    have "kept (fst ` set [(p, True)]) ?m ?m1" by (auto simp: kept_def)
    moreover have "mseg ?m1 (lastp 0 xs) [(p, True)] Q" using p by simp
    ultimately have "heap_list (relinked ?m1 Q p) (xs @ [(p, True)] @ ys)"
        "kept (fst ` set ([(p, True)] @ ys)) ?m (relinked ?m1 Q p)"
      using heap_put [OF hl' _ Q, of "[(p, True)]" ?m1] by simp_all
    moreover have "mseg ?m1 p ys 1600" using mseg_above [OF s(3)] p Q by simp
    then have "relinked ?m1 Q p = ?m1" unfolding Q by (rule relinked_id)
    moreover have "take_block sz (of_nat p) h = MEM_STATS_INC_USED (of_nat Q - of_nat p) (ram_heap_update (\<lambda>m. m(p + 4 := 1)) h)"
      using False p Q1 big by (simp add: take_block_def act_bind_def ptr_to_mem_def link_back_run comp_def)
    ultimately show ?thesis unfolding tk(1)
      using False INC_USED_run [of "of_nat (Q - p)" "ram_heap_update (\<lambda>m. m(p + 4 := 1)) h"] p by (auto simp: of_nat_diff)
  qed
qed

end
