(* ===== verification/Lwip_MemOps.thy ===== *)
theory Lwip_MemOps
  imports Lwip_MemList Lwip_Alloc
begin

text \<open>The operations of the heap implement operations on the list of blocks.\<close>

section \<open>Sizes\<close>

definition req :: "nat \<Rightarrow> nat" where "req n = max 12 (4 * ((n + 3) div 4))"

lemma req_props: "12 \<le> req n" "4 dvd req n" "n \<le> req n" "n \<le> 1600 \<Longrightarrow> req n \<le> 1600"
  by (auto simp: req_def max_def)

lemma align16: "unat (ucast (LWIP_MEM_ALIGN_SIZE (ucast n)) :: u16) = 4 * ((unat n + 3) div 4) mod 65536" for n :: u16
  unfolding u32_as_u16 unat_of_nat_u16 using unat_u16_bound [of n] by (simp add: align_4 del: unat_u16_bound)

lemma req16_unat: "unat (adjusted_size n) = max 12 (4 * ((unat n + 3) div 4) mod 65536)"
  using align16 [of n] by (simp add: adjusted_size_def Let_def word_less_nat_alt max_def)

lemma req16_small:
  assumes "unat n \<le> 1600"
  shows "unat (adjusted_size n) = req (unat n)" and "\<not> (ucast (adjusted_size n) > (1600 :: u32) \<or> adjusted_size n < n)"
proof -
  show r: "unat (adjusted_size n) = req (unat n)" using assms by (simp add: req16_unat req_def)
  then show "\<not> (ucast (adjusted_size n) > (1600 :: u32) \<or> adjusted_size n < n)"
    using req_props [of "unat n"] assms by (auto simp: word_less_nat_alt)
qed

lemma req16_large:
  assumes "1600 < unat n"
  shows "ucast (adjusted_size n) > (1600 :: u32) \<or> adjusted_size n < n"
proof (cases "unat n \<le> 65532")
  case True
  then have "unat n \<le> unat (adjusted_size n)" by (simp add: req16_unat)
  then show ?thesis using assms by (auto simp: word_less_nat_alt)
next
  case False
  then have "4 * ((unat n + 3) div 4) = 65536" using unat_u16_bound [of n] by presburger
  then show ?thesis using assms by (simp add: word_less_nat_alt req16_unat)
qed

section \<open>Allocation\<close>

lemma next_free_run:
  assumes "mseg (ram_heap h) pv zs 1600" "ram_heap h 1604 = 1" "length zs < fuel"
  shows "next_free fuel (start zs 1600) h = Inr (first_free zs, h)"
  unfolding first_free_def using assms
proof (induction zs arbitrary: pv fuel)
  case Nil
  then obtain f where "fuel = Suc f" by (cases fuel) auto
  then show ?case using Nil by (simp add: act_bind_def act_return_def)
next
  case (Cons b bs)
  obtain p u where b: "b = (p, u)" by (cases b)
  obtain f where f: "fuel = Suc f" "length bs < f" using Cons by (cases fuel) auto
  have seg: "mseg (ram_heap h) p bs 1600" "p + 20 \<le> start bs 1600" "start bs 1600 \<le> 1600" "p \<le> 1580"
    "rd16 (ram_heap h) p = of_nat (start bs 1600)" "ram_heap h (p + 4) = (if u then 1 else 0)"
    using Cons.prems(1) b mseg_start [of "ram_heap h" p bs 1600] by auto
  then show ?case using b f Cons.IH [OF seg(1) Cons.prems(2) f(2)] by (simp add: act_bind_def act_return_def ptr_to_mem_def)
qed

lemma mseg_length: "mseg m pv bs e \<Longrightarrow> 20 * length bs + start bs e \<le> e"
proof (induction m pv bs e rule: mseg.induct)
  case (2 m pv p u bs e)
  then show ?case by simp
qed simp

lemma heap_length: "heap_list m bs \<Longrightarrow> length bs \<le> 80"
  using mseg_length [of m 0 bs 1600] by (auto simp: heap_list_def)

lemma first_free_simps [simp]: "first_free [] = 1600" "first_free ((p, u) # bs) = (if u then first_free bs else p)"
  by (simp_all add: first_free_def)

lemma first_free_append: "first_free (xs @ ys) = (if list_all snd xs then first_free ys else first_free xs)"
  by (induction xs) auto

lemma plugged_taken:
  assumes "plugged (xs @ (p, False) # ys)"
  shows "plugged (xs @ taken sz p Q @ ys)"
  using assms by (cases xs rule: rev_cases; cases ys) (auto simp: plugged_def successively_append_iff successively_Cons)

lemma heap_invD:
  assumes "heap_inv h bs"
  shows "heap_list (ram_heap h) bs" "plugged bs" "lfree h = first_free bs" "unat (st_used (mem_st h)) = used_bytes bs 1600"
    "mseg (ram_heap h) 0 bs 1600" "used_bytes bs 1600 \<le> 1600" "length bs \<le> 80"
  using assms used_bytes_bound [of "ram_heap h" 0 bs 1600] heap_length [of "ram_heap h" bs]
  by (auto simp: heap_inv_def heap_list_def)

lemma heap_listD:
  assumes "heap_list m (xs @ zs)"
  shows "mseg m (lastp 0 xs) zs 1600" "m 1604 = 1" "used_bytes (xs @ zs) 1600 \<le> 1600" "length zs \<le> 80"
  using assms used_bytes_bound [of m 0 "xs @ zs" 1600] heap_length [OF assms] by (auto simp: heap_list_def mseg_append)

text \<open>The statistics follow the list of blocks.\<close>

lemma used_step:
  fixes u u' :: u16
  assumes "unat u = a" "unat u' = unat (u + of_nat k)" "a + k = b" "b \<le> 1600"
  shows "unat u' = b"
  using assms by (simp add: unat_u16_add)

lemma scan_lfree:
  assumes inv: "heap_inv h bs" and "unat sz \<le> 1600"
  shows "malloc_scan heap_fuel sz (mem_to_ptr (lfree h)) h = Inr (map_option (\<lambda>(p, _). of_nat p) (ab_malloc (unat sz) bs), h)"
proof -
  note I = heap_invD [OF inv]
  let ?us = "takeWhile snd bs" and ?zs = "dropWhile snd bs"
  have "mseg (ram_heap h) (lastp 0 ?us) ?zs 1600" using heap_listD(1) [of _ ?us ?zs] I(1) by simp
  moreover have "length ?zs < heap_fuel" using I(7) length_dropWhile_le [of snd bs] by (simp add: heap_fuel_def)
  ultimately have "malloc_scan heap_fuel sz (mem_to_ptr (lfree h)) h =
      Inr (map_option (\<lambda>(p, _). of_nat p) (ab_malloc (unat sz) ?zs), h)"
    using scan_run [of h _ ?zs heap_fuel sz] assms(2) I(3) by (simp add: mem_to_ptr_def first_free_def)
  moreover have "list_all snd ?us" by (simp add: list_all_iff) (metis set_takeWhileD)
  then have "ab_malloc (unat sz) bs = map_option (\<lambda>(q, bs'). (q, ?us @ bs')) (ab_malloc (unat sz) ?zs)"
    using ab_malloc_used [of ?us _ ?zs] by simp
  ultimately show ?thesis by (cases "ab_malloc (unat sz) ?zs") auto
qed

lemma first_free_mem: "\<not> list_all snd xs \<Longrightarrow> first_free xs \<in> fst ` set xs"
  by (induction xs) force+

lemma first_free_all: "list_all snd xs \<Longrightarrow> first_free xs = 1600"
  by (induction xs) auto

lemma first_free_before:
  assumes "heap_list m (xs @ (p, u) # ys)" "\<not> list_all snd xs"
  shows "first_free xs + 20 \<le> p"
  using first_free_mem [OF assms(2)] heap_list_split(1) [of m xs "[(p, u)]" ys] assms(1) mseg_block by fastforce

lemma malloc_none:
  assumes inv: "heap_inv h bs" and n: "unat n \<le> 1600" "n \<noteq> 0" and ab: "ab_malloc (req (unat n)) bs = None"
  shows "lwip_mem_malloc n h = Inr (None, mem_st_update (st_err_update (\<lambda>k. k + 1)) h)"
  using scan_lfree [OF inv, of "adjusted_size n"] req16_small [OF n(1)] req_props(4) [OF n(1)] n(2) ab
  by (simp add: lwip_mem_malloc_def act_bind_def act_gets_def act_return_def Let_def)

lemma malloc_some:
  assumes inv: "heap_inv h bs" and n: "unat n \<le> 1600" "n \<noteq> 0" and ab: "ab_malloc (req (unat n)) bs = Some (p, bs')"
  shows "\<exists>h'. lwip_mem_malloc n h = Inr (Some (p + 8), h') \<and> heap_inv h' bs' \<and> kept (fst ` set bs') (ram_heap h) (ram_heap h')"
proof -
  note I = heap_invD [OF inv]
  let ?sz = "adjusted_size n"
  note sz = req16_small [OF n(1)]
  obtain xs ys where bs: "bs = xs @ (p, False) # ys" and fit: "p + 8 + unat ?sz \<le> start ys 1600"
    and bs': "bs' = xs @ taken (unat ?sz) p (start ys 1600) @ ys"
    using ab_malloc_split [OF ab] sz(1) by metis
  let ?tk = "taken (unat ?sz) p (start ys 1600)"
  from take_block_run [OF _ refl fit, of h xs] I(1) bs sz(1) req_props
  obtain h1 where h1: "take_block ?sz (of_nat p) h = Inr ((), h1)" "heap_list (ram_heap h1) bs'"
      "kept (fst ` set (?tk @ ys)) (ram_heap h) (ram_heap h1)" "lfree h1 = lfree h"
      "st_used (mem_st h1) = st_used (mem_st h) + of_nat (start (tl ?tk) (start ys 1600) - p)"
    unfolding bs' by auto
  have p: "p \<le> 1600" "p + 20 \<le> start ys 1600" using heap_list_split(2,5) [of "ram_heap h" xs "[(p, False)]" ys] I(1) bs by simp_all
  have used: "used_bytes bs' 1600 = used_bytes bs 1600 + (start (tl ?tk) (start ys 1600) - p)"
    unfolding bs bs' using p by (auto simp: used_bytes_append)
  have st: "unat (st_used (mem_st h1)) = used_bytes bs' 1600"
    using used_step [OF I(4), of "st_used (mem_st h1)"] h1(5) used heap_listD(3) [of _ "[]" bs'] h1(2) by simp
  have pl: "plugged bs'" using plugged_taken I(2) unfolding bs bs' by blast
  let ?lf = "if p = lfree h then first_free (?tk @ ys) else lfree h"
  have nf: "(if p = lfree h then act_bind (next_free heap_fuel (lfree h)) set_lfree else act_return ()) h1
      = Inr ((), h1\<lparr>lfree := ?lf\<rparr>)"
  proof (cases "p = lfree h")
    case True
    have zs: "mseg (ram_heap h1) (lastp 0 xs) (?tk @ ys) 1600" "ram_heap h1 1604 = 1" "length (?tk @ ys) < heap_fuel"
      using heap_listD [of "ram_heap h1" xs "?tk @ ys"] h1(2) by (simp_all add: bs' heap_fuel_def)
    moreover have "start (?tk @ ys) 1600 = lfree h" using True by simp
    ultimately have "next_free heap_fuel (lfree h) h1 = Inr (first_free (?tk @ ys), h1)"
      using next_free_run [OF zs] by (simp only:)
    then show ?thesis using True by (simp only: simp_thms act_bind_def set_lfree_run if_True sum.case prod.case)
  qed (use h1(4) in \<open>simp add: act_return_def\<close>)
  have lf: "?lf = first_free bs'"
    using I(3) first_free_before [of "ram_heap h" xs p False ys] I(1) p unfolding bs bs'
    by (cases "list_all snd xs") (auto simp: first_free_append)
  have "malloc_scan heap_fuel ?sz (mem_to_ptr (lfree h)) h = Inr (Some (of_nat p), h)"
    using scan_lfree [OF inv, of ?sz] ab sz(1) req_props(4) [OF n(1)] by simp
  then have "lwip_mem_malloc n h = Inr (Some (p + 8), h1\<lparr>lfree := ?lf\<rparr>)"
    using n(2) sz(2) h1(1) nf p by (simp add: lwip_mem_malloc_def act_bind_def act_gets_def act_return_def ptr_to_mem_def Let_def)
  moreover have "heap_inv (h1\<lparr>lfree := ?lf\<rparr>) bs'" using h1(2) st pl lf by (simp add: heap_inv_def)
  moreover have "kept (fst ` set bs') (ram_heap h) (ram_heap h1)" using h1(3) by (rule kept_mono) (auto simp: bs')
  ultimately show ?thesis by auto
qed

section \<open>Release\<close>

fun coalesce :: "blk list \<Rightarrow> blk list" where
  "coalesce ((p, u) # (q, v) # bs) =
     (if \<not> u \<and> \<not> v then coalesce ((p, u) # bs) else (p, u) # coalesce ((q, v) # bs))"
| "coalesce bs = bs"

definition ab_free :: "nat \<Rightarrow> blk list \<Rightarrow> blk list" where
  "ab_free p bs = coalesce (map (\<lambda>(q, u). (q, u \<and> q \<noteq> p)) bs)"

fun drop_free :: "blk list \<Rightarrow> blk list" where
  "drop_free ((q, u) # bs) = (if u then (q, u) # bs else bs)"
| "drop_free [] = []"

lemma plugged_Nil [simp]: "plugged []"
  by (simp add: plugged_def)

lemma plugged_Cons: "plugged (b # bs) \<longleftrightarrow> plugged bs \<and> (snd b \<or> bs = [] \<or> snd (hd bs))"
  by (cases bs) (auto simp: plugged_def)

lemma coalesce_plugged: "plugged bs \<Longrightarrow> coalesce bs = bs"
  by (induction bs rule: coalesce.induct) (auto simp: plugged_Cons)

lemma plugged_coalesce: "plugged (coalesce bs) \<and> (bs \<noteq> [] \<longrightarrow> coalesce bs \<noteq> [] \<and> snd (hd (coalesce bs)) = snd (hd bs))"
  by (induction bs rule: coalesce.induct) (auto simp: plugged_Cons)

lemma coalesce_first:
  assumes "plugged ((p, True) # ys)"
  shows "coalesce ((p, False) # ys) = (p, False) # drop_free ys"
proof (cases ys rule: drop_free.cases)
  case (1 q u bs)
  have "coalesce ((p, False) # bs) = (p, False) # bs" if "\<not> u"
    using assms that 1 by (intro coalesce_plugged) (auto simp: plugged_Cons)
  moreover have "coalesce ((q, u) # bs) = (q, u) # bs" using assms 1 by (intro coalesce_plugged) (auto simp: plugged_Cons)
  ultimately show ?thesis using 1 by (cases u) simp_all
qed simp

lemma coalesce_at:
  assumes "plugged (xs @ (p, True) # ys)"
  shows "coalesce (xs @ (p, False) # ys) =
    (if xs \<noteq> [] \<and> \<not> snd (last xs) then xs @ drop_free ys else xs @ (p, False) # drop_free ys)"
  using assms
proof (induction xs rule: induct_list012)
  case 1
  then show ?case by (simp add: coalesce_first)
next
  case (2 x)
  then show ?case using coalesce_first [of _ ys] by (cases x) (auto simp: plugged_Cons)
next
  case (3 x y zs)
  then show ?case by (cases x; cases y) (auto simp: plugged_Cons)
qed

lemma hdr:
  assumes "heap_list m (xs @ (p, u) # ys)"
  shows "rd16 m p = of_nat (start ys 1600)" "rd16 m (Suc (Suc p)) = of_nat (lastp 0 xs)" "m (p + 4) = (if u then 1 else 0)"
    "p + 20 \<le> start ys 1600" "start ys 1600 \<le> 1600" "4 dvd p"
  using heap_list_split(2,5) [of m xs "[(p, u)]" ys] assms by simp_all

lemma hdr_prev:
  assumes "heap_list m (xs @ (p, u) # ys)"
  shows "xs = [] \<and> p = 0 \<or> (\<exists>xs' r v. xs = xs' @ [(r, v)] \<and> lastp 0 xs = r \<and> r + 20 \<le> p \<and> rd16 m r = of_nat p
    \<and> m (r + 4) = (if v then 1 else 0))"
proof (cases xs rule: rev_cases)
  case Nil
  then show ?thesis using assms by (simp add: heap_list_def)
next
  case (snoc xs' x)
  then show ?thesis using assms hdr(1,3,4) [of m xs' "fst x" "snd x" "(p, u) # ys"] by (cases x) auto
qed

lemma hdr_next:
  assumes "heap_list m (xs @ (p, u) # ys)"
  shows "ys = [] \<and> m 1604 = 1 \<or> (\<exists>q v ys'. ys = (q, v) # ys' \<and> q + 20 \<le> start ys' 1600 \<and> rd16 m (Suc (Suc q)) = of_nat p
    \<and> rd16 m q = of_nat (start ys' 1600) \<and> m (q + 4) = (if v then 1 else 0))"
proof (cases ys)
  case Nil
  then show ?thesis using assms by (simp add: heap_list_def)
next
  case (Cons y ys')
  then show ?thesis using assms hdr [of m "xs @ [(p, u)]" "fst y" "snd y" ys'] by (cases y) auto
qed

lemma first_free_after:
  assumes "heap_list m (xs @ (p, u) # ys)"
  shows "start ys 1600 \<le> first_free ys"
proof (cases "list_all snd ys")
  case True
  then show ?thesis using hdr(5) [OF assms] by (simp add: first_free_all)
next
  case False
  then show ?thesis
    using first_free_mem [OF False] heap_list_split(3) [of m xs "[(p, u)]" ys] assms mseg_block by fastforce
qed

text \<open>Two neighbouring free blocks become one.\<close>

lemma join_blocks:
  assumes hl: "heap_list m (xs @ (p, False) # (q, False) # ys)" and Q: "Q = start ys 1600"
    and m': "m' = relinked (wr16 m p (of_nat Q)) Q p"
  shows "heap_list m' (xs @ (p, False) # ys)" "kept (fst ` set ((p, False) # ys)) m m'"
proof -
  let ?m1 = "wr16 m p (of_nat Q)"
  have hl': "heap_list m (xs @ [(p, False), (q, False)] @ ys)" using hl by simp
  have "kept (fst ` set [(p, False)]) m ?m1" by (auto simp: kept_def)
  moreover have "mseg ?m1 (lastp 0 xs) [(p, False)] Q" using heap_list_split(2) [OF hl'] Q by auto
  ultimately show "heap_list m' (xs @ (p, False) # ys)" "kept (fst ` set ((p, False) # ys)) m m'"
    using heap_put [OF hl' _ Q, of "[(p, False)]" ?m1 m'] m' by simp_all
qed

lemma plug_forward_run:
  assumes hl: "heap_list (ram_heap h) (xs @ (p, False) # ys)" and lf: "lfree h \<le> p"
  shows "\<exists>h'. plug_forward p h = Inr ((), h') \<and> heap_list (ram_heap h') (xs @ (p, False) # drop_free ys)
    \<and> kept (fst ` set ((p, False) # ys)) (ram_heap h) (ram_heap h') \<and> lfree h' = lfree h \<and> mem_st h' = mem_st h"
  using hdr_next [OF hl]
proof (elim disjE exE conjE)
  assume "ys = []" "ram_heap h 1604 = 1"
  then show ?thesis using hl hdr [OF hl] by (auto simp: plug_forward_def act_bind_def ptr_to_mem_def act_return_def)
next
  fix q v zs assume ys: "ys = (q, v) # zs" and nx: "q + 20 \<le> start zs 1600" "rd16 (ram_heap h) q = of_nat (start zs 1600)"
    "ram_heap h (q + 4) = (if v then 1 else 0)"
  have q: "p + 20 \<le> q" "start zs 1600 \<le> 1600" using hdr(4) [OF hl] hdr(5) [of _ "xs @ [(p, False)]" q v zs] hl ys by auto
  let ?f = "\<lambda>m. relinked (wr16 m p (of_nat (start zs 1600))) (start zs 1600) p"
  show ?thesis
  proof (cases v)
    case True
    then show ?thesis using hl hdr [OF hl] nx q ys by (auto simp: plug_forward_def act_bind_def ptr_to_mem_def act_return_def)
  next
    case False
    then have "plug_forward p h = Inr ((), ram_heap_update ?f h)"
      using hdr [OF hl] nx q ys lf
      by (simp add: plug_forward_def act_bind_def ptr_to_mem_def act_return_def act_gets_def link_back_run comp_def)
    moreover have "heap_list (?f (ram_heap h)) (xs @ (p, False) # zs)" "kept (fst ` set ((p, False) # zs)) (ram_heap h) (?f (ram_heap h))"
      using join_blocks [of "ram_heap h" xs p q zs, OF _ refl refl] hl ys False by simp_all
    ultimately show ?thesis using ys False by (auto elim: kept_mono)
  qed
qed

definition plug_back :: "blk list \<Rightarrow> nat \<Rightarrow> blk list \<Rightarrow> blk list" where
  "plug_back xs p ys = (if xs \<noteq> [] \<and> \<not> snd (last xs) then xs @ ys else xs @ (p, False) # ys)"

lemma plug_backward_run:
  assumes hl: "heap_list (ram_heap h) (xs @ (p, False) # ys)" and lf: "lfree h = first_free (xs @ (p, False) # ys)"
  shows "\<exists>h'. plug_backward p h = Inr ((), h') \<and> heap_list (ram_heap h') (plug_back xs p ys)
    \<and> kept (fst ` set (xs @ (p, False) # ys)) (ram_heap h) (ram_heap h') \<and> lfree h' = lfree h \<and> mem_st h' = mem_st h
    \<and> ram_heap h' (p + 4) = 0"
  using hdr_prev [OF hl]
proof (elim disjE exE conjE)
  assume "xs = []" "p = 0"
  then show ?thesis using hl hdr [OF hl]
    by (auto simp: plug_backward_def act_bind_def ptr_to_mem_def act_return_def plug_back_def)
next
  fix xs' r v assume xs: "xs = xs' @ [(r, v)]" and pv: "lastp 0 xs = r" "r + 20 \<le> p" "rd16 (ram_heap h) r = of_nat p"
    "ram_heap h (r + 4) = (if v then 1 else 0)"
  have p: "p \<le> 1580" using hdr(4,5) [OF hl] by simp
  let ?f = "\<lambda>m. relinked (wr16 m r (of_nat (start ys 1600))) (start ys 1600) r"
  show ?thesis
  proof (cases v)
    case True
    then show ?thesis using hl hdr [OF hl] pv p xs
      by (auto simp: plug_backward_def act_bind_def ptr_to_mem_def act_return_def plug_back_def)
  next
    case False
    then have "\<not> list_all snd xs" using xs by simp
    then have "lfree h \<noteq> p" using lf first_free_before [OF hl] by (simp add: first_free_append)
    then have "plug_backward p h = Inr ((), ram_heap_update ?f h)"
      using hdr [OF hl] pv p False
      by (simp add: plug_backward_def act_bind_def ptr_to_mem_def act_return_def act_gets_def link_back_run comp_def)
    moreover have "heap_list (?f (ram_heap h)) (xs' @ (r, False) # ys)" "kept (fst ` set ((r, False) # ys)) (ram_heap h) (?f (ram_heap h))"
      using join_blocks [of "ram_heap h" xs' r p ys, OF _ refl refl] hl xs False by simp_all
    moreover have "?f (ram_heap h) (p + 4) = 0" using hdr [OF hl] pv by (simp add: relinked_below)
    ultimately show ?thesis using xs False by (auto simp: plug_back_def elim: kept_mono)
  qed
qed

lemma first_free_plug: "first_free (plug_back xs p ys) = first_free (xs @ (p, False) # ys)"
  by (auto simp: plug_back_def first_free_append list_all_iff)

lemma plug_holes_run:
  assumes hl: "heap_list (ram_heap h) (xs @ (p, False) # ys)" and lf: "lfree h = first_free (xs @ (p, False) # ys)"
  shows "\<exists>h'. plug_holes p h = Inr ((), h') \<and> heap_list (ram_heap h') (plug_back xs p (drop_free ys))
    \<and> kept (fst ` set (xs @ (p, False) # ys)) (ram_heap h) (ram_heap h')
    \<and> lfree h' = first_free (plug_back xs p (drop_free ys)) \<and> mem_st h' = mem_st h \<and> ram_heap h' (p + 4) = 0"
proof -
  have ff: "first_free (xs @ (p, False) # zs) = (if list_all snd xs then p else first_free xs)" for zs
    by (simp add: first_free_append)
  have "lfree h \<le> p" using first_free_before [OF hl] lf by (auto simp: ff)
  then obtain h1 where h1: "plug_forward p h = Inr ((), h1)" "heap_list (ram_heap h1) (xs @ (p, False) # drop_free ys)"
      "kept (fst ` set ((p, False) # ys)) (ram_heap h) (ram_heap h1)" "lfree h1 = lfree h" "mem_st h1 = mem_st h"
    using plug_forward_run [OF hl] by auto
  obtain h2 where h2: "plug_backward p h1 = Inr ((), h2)" "heap_list (ram_heap h2) (plug_back xs p (drop_free ys))"
      "kept (fst ` set (xs @ (p, False) # drop_free ys)) (ram_heap h1) (ram_heap h2)" "lfree h2 = lfree h1" "mem_st h2 = mem_st h1" "ram_heap h2 (p + 4) = 0"
    using plug_backward_run [OF h1(2)] h1(4) lf ff by auto
  have "set (drop_free ys) \<subseteq> set ys" by (cases ys rule: drop_free.cases) auto
  then have "kept (fst ` set (xs @ (p, False) # ys)) (ram_heap h) (ram_heap h2)"
    by (intro kept_trans [OF kept_mono [OF h1(3)] kept_mono [OF h2(3)]]) auto
  then show ?thesis using h1 h2 lf ff by (simp add: plug_holes_def act_bind_def first_free_plug)
qed

lemma mem_link_valid_run:
  assumes hl: "heap_list (ram_heap h) (xs @ (p, u) # ys)"
  shows "mem_link_valid p h = Inr (True, h)"
proof -
  note H = hdr [OF hl]
  have p: "p \<le> 1580" using H by simp
  have pv: "lastp 0 xs \<le> 1580" "of_nat (lastp 0 xs) = (of_nat p :: u16) \<or> rd16 (ram_heap h) (lastp 0 xs) = of_nat p"
    using hdr_prev [OF hl] p by auto
  have nx: "start ys 1600 = 1600 \<or> rd16 (ram_heap h) (Suc (Suc (start ys 1600))) = of_nat p"
    using hdr_next [OF hl] by auto
  have "\<not> ucast (of_nat (start ys 1600) :: u16) > (1600 :: u32)" "\<not> ucast (of_nat (lastp 0 xs) :: u16) > (1600 :: u32)"
    using H(5) pv(1) by (simp_all add: word_less_nat_alt)
  then show ?thesis using H p pv nx
    by (auto simp: mem_link_valid_def act_bind_def act_return_def ptr_to_mem_def mem_to_ptr_def Let_def)
qed

lemma start_coalesce [simp]: "start (coalesce bs) e = start bs e"
  by (induction bs rule: coalesce.induct) auto

lemma used_bytes_coalesce [simp]: "used_bytes (coalesce bs) e = used_bytes bs e"
  by (induction bs rule: coalesce.induct) auto

lemma heap_distinct:
  assumes "heap_list m (xs @ (p, u) # ys)"
  shows "(p, v) \<notin> set xs" "(p, v) \<notin> set ys"
  using heap_list_split(1,3) [of m xs "[(p, u)]" ys] assms hdr(4) [OF assms] mseg_block by fastforce+

lemma ab_free_at:
  assumes "heap_list m (xs @ (p, True) # ys)"
  shows "map (\<lambda>(q, u). (q, u \<and> q \<noteq> p)) (xs @ (p, True) # ys) = xs @ (p, False) # ys"
  using heap_distinct [OF assms] by (auto intro!: map_idI)

lemma free_mark:
  assumes hl: "heap_list m (xs @ (p, u) # ys)" and m1: "m1 = m(p + 4 := (if v then 1 else 0))"
  shows "heap_list m1 (xs @ (p, v) # ys)" "kept {p} m m1"
proof -
  have hl': "heap_list m (xs @ [(p, u)] @ ys)" using hl by simp
  note H = hdr [OF hl]
  have "kept (fst ` set [(p, v)]) m m1" by (auto simp: kept_def m1)
  moreover have "mseg m1 (lastp 0 xs) [(p, v)] (start ys 1600)" using H by (simp add: m1)
  moreover have "mseg m1 p ys 1600" using mseg_above [OF heap_list_split(3) [OF hl'], of m1] H by (simp add: m1)
  then have "m1 = relinked m1 (start ys 1600) p" by (simp add: relinked_id)
  ultimately show "heap_list m1 (xs @ (p, v) # ys)" "kept {p} m m1"
    using heap_put(1) [OF hl' _ refl, of "[(p, v)]" m1 m1] by simp_all
qed

lemma move_lfree:
  "\<exists>h0. (if c then set_lfree p else act_return ()) h = Inr ((), h0) \<and> ram_heap h0 = ram_heap h
     \<and> lfree h0 = (if c then p else lfree h) \<and> mem_st h0 = mem_st h"
  by (simp add: act_return_def)

lemma free_run:
  assumes inv: "heap_inv h (xs @ (p, True) # ys)"
  shows "\<exists>h'. lwip_mem_free (Some (p + 8)) h = Inr ((), h') \<and> heap_inv h' (ab_free p (xs @ (p, True) # ys))
    \<and> kept (fst ` set (xs @ (p, True) # ys)) (ram_heap h) (ram_heap h') \<and> ram_heap h' (p + 4) = 0"
proof -
  note I = heap_invD [OF inv] and H = hdr [OF heap_invD(1) [OF inv]]
  let ?Q = "start ys 1600" and ?bs1 = "xs @ (p, False) # ys"
  obtain h0 where h0: "(if p < lfree h then set_lfree p else act_return ()) (ram_heap_update (\<lambda>m. m(p + 4 := 0)) h) = Inr ((), h0)"
      "ram_heap h0 = (ram_heap h)(p + 4 := 0)" "lfree h0 = (if p < lfree h then p else lfree h)" "mem_st h0 = mem_st h"
    using move_lfree [of "p < lfree h" p "ram_heap_update (\<lambda>m. m(p + 4 := 0)) h"] by auto
  let ?h1 = "mem_st_update (st_used_update (\<lambda>u. u - of_nat (?Q - p))) h0"
  have hl1: "heap_list (ram_heap ?h1) ?bs1" and k1: "kept {p} (ram_heap h) (ram_heap ?h1)"
    using free_mark [OF I(1), of _ False] h0(2) by simp_all
  have "lfree ?h1 = first_free ?bs1"
    using I(3) first_free_before [OF I(1)] first_free_after [OF I(1)] h0(3) H(4)
    by (cases "list_all snd xs") (auto simp: first_free_append)
  from plug_holes_run [OF hl1 this] obtain h2 where h2: "plug_holes p ?h1 = Inr ((), h2)"
      "heap_list (ram_heap h2) (plug_back xs p (drop_free ys))" "kept (fst ` set ?bs1) (ram_heap ?h1) (ram_heap h2)"
      "lfree h2 = first_free (plug_back xs p (drop_free ys))" "mem_st h2 = mem_st ?h1" "ram_heap h2 (p + 4) = 0" by auto
  have ab: "ab_free p (xs @ (p, True) # ys) = plug_back xs p (drop_free ys)"
    using coalesce_at [OF I(2)] by (simp only: ab_free_def ab_free_at [OF I(1)] plug_back_def)
  have ub: "used_bytes (plug_back xs p (drop_free ys)) 1600 = used_bytes ?bs1 1600"
    using used_bytes_coalesce [of ?bs1 1600] ab ab_free_at [OF I(1)] by (simp only: ab_free_def)
  have "unat (st_used (mem_st h)) = used_bytes ?bs1 1600 + (?Q - p)" using I(4) by (simp add: used_bytes_append)
  then have "unat (st_used (mem_st h2)) = used_bytes ?bs1 1600"
    using H h2(5) h0(4) by (simp add: unat_sub word_le_nat_alt)
  moreover have "lwip_mem_free (Some (p + 8)) h = Inr ((), h2)"
    using H h2(1) mem_link_valid_run [OF I(1)] h0(1)
    by (simp add: lwip_mem_free_def act_bind_def act_gets_def act_return_def of_nat_diff)
  moreover have "plugged (ab_free p (xs @ (p, True) # ys))" using plugged_coalesce by (simp add: ab_free_def)
  moreover have "kept (fst ` set (xs @ (p, True) # ys)) (ram_heap h) (ram_heap h2)"
    by (rule kept_trans [OF kept_mono [OF k1] kept_mono [OF h2(3)]]) auto
  ultimately show ?thesis using h2 ub ab by (auto simp: heap_inv_def)
qed

section \<open>Shrinking\<close>

definition trimmed :: "nat \<Rightarrow> nat \<Rightarrow> blk list \<Rightarrow> blk list" where
  "trimmed sz p ys =
     (if p + 8 + sz = start ys 1600 then ys
      else if ys \<noteq> [] \<and> \<not> snd (hd ys) then (p + 8 + sz, False) # tl ys
      else if p + 8 + sz + 20 \<le> start ys 1600 then (p + 8 + sz, False) # ys
      else ys)"

lemma split_block:
  assumes hl: "heap_list m (xs @ mid @ ys)" and Q: "Q = start ys 1600" "start mid Q = p"
    and hd: "rd16 m (p + 2) = of_nat (lastp 0 xs)" "m (p + 4) = 1" "4 dvd p"
    and p2: "p + 20 \<le> p2" "p2 + 20 \<le> Q" "4 dvd p2"
    and m': "m' = relinked (wr16 (wr16 (wr16 (m(p2 + 4 := 0)) p2 (of_nat Q)) (p2 + 2) (of_nat p)) p (of_nat p2)) Q p2"
  shows "heap_list m' (xs @ (p, True) # (p2, False) # ys)" "kept (fst ` set ((p, True) # (p2, False) # ys)) m m'"
proof -
  let ?m1 = "wr16 (wr16 (wr16 (m(p2 + 4 := 0)) p2 (of_nat Q)) (p2 + 2) (of_nat p)) p (of_nat p2)"
  have "kept (fst ` set [(p, True), (p2, False)]) m ?m1" by (auto simp: kept_def)
  moreover have "mseg ?m1 (lastp 0 xs) [(p, True), (p2, False)] Q" using hd p2 by simp
  ultimately show "heap_list m' (xs @ (p, True) # (p2, False) # ys)" "kept (fst ` set ((p, True) # (p2, False) # ys)) m m'"
    using heap_put [OF hl _ Q(1), of "[(p, True), (p2, False)]" ?m1 m'] m' Q(2) by simp_all
qed

lemma trim_sizes:
  assumes "p + 8 \<le> Q" "Q \<le> 1600" "unat n \<le> 1600" "p + 8 + req (unat n) \<le> Q"
  shows "ucast (ucast (of_nat Q - of_nat p :: u16) - 8 :: u32) = (of_nat (Q - (p + 8)) :: u16)"
    and "ucast (ucast (of_nat p :: u16) + 8 + ucast (adjusted_size n) :: u32) = (of_nat (p + 8 + req (unat n)) :: u16)"
    and "\<not> adjusted_size n > of_nat (Q - (p + 8))" "adjusted_size n = of_nat (Q - (p + 8)) \<longleftrightarrow> p + 8 + req (unat n) = Q"
    and "ucast (adjusted_size n) + 8 + 12 \<le> (ucast (of_nat (Q - (p + 8)) :: u16) :: u32) \<longleftrightarrow> p + 8 + req (unat n) + 20 \<le> Q"
    and "unat (of_nat (Q - (p + 8)) - adjusted_size n) = Q - (p + 8 + req (unat n))"
proof -
  note r = req16_small(1) [OF assms(3)]
  have d: "of_nat Q - of_nat p = (of_nat (Q - p) :: u16)" using assms by (simp add: of_nat_diff)
  define k where "k = Q - (p + 8)"
  then have k: "Q = p + 8 + k" "Q - p = k + 8" "p + 8 + k - (p + 8) = k" using assms(1) by simp_all
  then have kn: "k \<le> 1600" "req (unat n) \<le> k" "p \<le> 1600" using assms by simp_all
  show "ucast (ucast (of_nat Q - of_nat p :: u16) - 8 :: u32) = (of_nat (Q - (p + 8)) :: u16)"
  proof -
    have "unat (ucast (of_nat (k + 8) :: u16) :: u32) = k + 8" using kn by (simp del: of_nat_add)
    then have "unat (ucast (of_nat (k + 8) :: u16) - 8 :: u32) = k" by (simp add: unat_sub word_le_nat_alt del: of_nat_add w16)
    then show ?thesis unfolding d k(2) k_def [symmetric] u32_as_u16 by (simp only:)
  qed
  show "ucast (ucast (of_nat p :: u16) + 8 + ucast (adjusted_size n) :: u32) = (of_nat (p + 8 + req (unat n)) :: u16)"
    using kn r unfolding u32_as_u16 by (simp add: u32_add_small)
  show "\<not> adjusted_size n > of_nat (Q - (p + 8))" using kn r unfolding k_def [symmetric] by (simp add: word_less_nat_alt)
  show "adjusted_size n = of_nat (Q - (p + 8)) \<longleftrightarrow> p + 8 + req (unat n) = Q"
    using kn r k(1) unfolding k_def [symmetric] by (auto simp: word_unat_eq_iff)
  show "ucast (adjusted_size n) + 8 + 12 \<le> (ucast (of_nat (Q - (p + 8)) :: u16) :: u32) \<longleftrightarrow> p + 8 + req (unat n) + 20 \<le> Q"
    using kn r k(1) unfolding k_def [symmetric] by (auto simp: word_le_nat_alt u32_add_small)
  show "unat (of_nat (Q - (p + 8)) - adjusted_size n) = Q - (p + 8 + req (unat n))"
    using kn r k(1) unfolding k_def [symmetric] by (simp add: unat_sub word_le_nat_alt)
qed

lemma plugged_trimmed:
  assumes "plugged (xs @ (p, True) # ys)"
  shows "plugged (xs @ (p, True) # trimmed sz p ys)"
proof -
  have pl: "plugged (zs @ (p, True) # vs) \<longleftrightarrow> plugged (zs @ [(p, True)]) \<and> plugged vs" for zs vs
    by (induction zs) (auto simp: plugged_Cons hd_append)
  have "plugged ys" using assms pl by blast
  then have "plugged (trimmed sz p ys)" by (cases ys) (auto simp: trimmed_def plugged_Cons)
  then show ?thesis using assms pl by blast
qed

lemma trim_run:
  assumes inv: "heap_inv h (xs @ (p, True) # ys)" and n: "unat n \<le> 1600" and fit: "p + 8 + req (unat n) \<le> start ys 1600"
  shows "\<exists>h'. lwip_mem_trim (p + 8) n h = Inr (Some (p + 8), h') \<and> heap_inv h' (xs @ (p, True) # trimmed (req (unat n)) p ys)
    \<and> kept (fst ` set (xs @ (p, True) # trimmed (req (unat n)) p ys)) (ram_heap h) (ram_heap h')"
proof -
  note I = heap_invD [OF inv] and H = hdr [OF heap_invD(1) [OF inv]]
  let ?Q = "start ys 1600"
  define p2 where "p2 = p + 8 + req (unat n)"
  have p2: "p + 20 \<le> p2" "4 dvd p2" "p2 \<le> ?Q" using req_props [of "unat n"] H fit by (simp_all add: p2_def)
  have Q: "p + 8 \<le> ?Q" using H by simp
  note S = trim_sizes [OF Q H(5) n fit, folded p2_def]
  note run = lwip_mem_trim_def act_bind_def act_gets_def act_return_def ptr_to_mem_def mem_to_ptr_def act_check_def
    Let_def
  have pl: "plugged (xs @ (p, True) # trimmed (req (unat n)) p ys)" by (rule plugged_trimmed [OF I(2)])
  let ?bs = "\<lambda>zs. xs @ (p, True) # (p2, False) # zs"
  let ?f = "\<lambda>R m. relinked (wr16 (wr16 (wr16 (m(p2 + 4 := 0)) p2 (of_nat R)) (p2 + 2) (of_nat p)) p (of_nat p2)) R p2"
  let ?sz = "of_nat (?Q - (p + 8)) - adjusted_size n"
  have shrunk: "\<exists>h'. lwip_mem_trim (p + 8) n h = Inr (Some (p + 8), h') \<and> heap_inv h' (?bs zs)
      \<and> kept (fst ` set (?bs zs)) (ram_heap h) (ram_heap h')"
    if "(if c then set_lfree p2 else act_return ()) h = Inr ((), h0)" "ram_heap h0 = ram_heap h" "mem_st h0 = mem_st h"
      "lfree h0 = first_free (?bs zs)" "plugged (?bs zs)"
      "lwip_mem_trim (p + 8) n h = Inr (Some (p + 8), mem_st_update (st_used_update (\<lambda>u. u - ?sz)) (ram_heap_update (?f (start zs 1600)) h0))"
      "heap_list (ram_heap h) (xs @ ((p, True) # mid) @ zs)" "p2 + 20 \<le> start zs 1600" "used_bytes ys 1600 = used_bytes zs 1600" for c h0 zs mid
  proof -
    have "heap_list (?f (start zs 1600) (ram_heap h)) (?bs zs)" "kept (fst ` set (?bs zs)) (ram_heap h) (?f (start zs 1600) (ram_heap h))"
      using split_block [OF that(7) refl _ _ _ H(6) p2(1) that(8) p2(2) refl] H by (auto elim: kept_mono)
    moreover have "unat (st_used (mem_st h) - ?sz) = used_bytes (?bs zs) 1600"
      using I(4) S(6) that(9) p2 by (subst unat_sub) (auto simp: used_bytes_append word_le_nat_alt simp del: of_nat_diff)
    ultimately show ?thesis using that by (simp add: heap_inv_def)
  qed
  consider "p2 = ?Q" | "p2 < ?Q" "ys \<noteq> [] \<and> \<not> snd (hd ys)" | "p2 < ?Q" "ys = [] \<or> snd (hd ys)" "p2 + 20 \<le> ?Q"
    | "p2 < ?Q" "ys = [] \<or> snd (hd ys)" "\<not> p2 + 20 \<le> ?Q" using p2(3) by linarith
  then show ?thesis
  proof cases
    case 1
    then have "lwip_mem_trim (p + 8) n h = Inr (Some (p + 8), h)"
      using H S(1,3,4) req16_small(2) [OF n] by (simp add: run del: of_nat_diff)
    then show ?thesis using inv 1 by (simp add: trimmed_def p2_def)
  next
    case 2
    then obtain q zs where ys: "ys = (q, False) # zs" by (cases ys) auto
    note N = hdr [of "ram_heap h" "xs @ [(p, True)]" q False zs, simplified, OF I(1) [unfolded ys]]
    obtain h0 where h0: "(if lfree h = q then set_lfree p2 else act_return ()) h = Inr ((), h0)" "ram_heap h0 = ram_heap h"
        "mem_st h0 = mem_st h" "lfree h0 = (if lfree h = q then p2 else lfree h)"
      using move_lfree [of "lfree h = q" p2 h] by auto
    have "lwip_mem_trim (p + 8) n h = Inr (Some (p + 8), mem_st_update (st_used_update (\<lambda>u. u - ?sz)) (ram_heap_update (?f (start zs 1600)) h0))"
      using H S req16_small(2) [OF n] N ys 2(1) p2
      by (simp add: run trim_block_def link_back_run comp_def del: of_nat_diff) (use h0(1) in \<open>auto simp: act_return_def split: if_splits\<close>)
    moreover have "lfree h0 = first_free (?bs zs)"
      using h0(4) I(3) first_free_before [OF I(1)] H(4) by (auto simp: first_free_append ys)
    moreover have tr: "trimmed (req (unat n)) p ys = (p2, False) # zs" using 2 ys by (simp add: trimmed_def p2_def)
    ultimately show ?thesis
      using shrunk [OF h0(1-3) _ _ _, of zs "[(q, False)]"] pl I(1) N(4) ys 2(1) by simp
  next
    case 3
    obtain h0 where h0: "(if p2 < lfree h then set_lfree p2 else act_return ()) h = Inr ((), h0)" "ram_heap h0 = ram_heap h"
        "mem_st h0 = mem_st h" "lfree h0 = (if p2 < lfree h then p2 else lfree h)"
      using move_lfree [of "p2 < lfree h" p2 h] by auto
    have "ram_heap h (?Q + 4) = 1" using hdr_next [OF I(1)] 3(2) by auto
    then have "lwip_mem_trim (p + 8) n h = Inr (Some (p + 8), mem_st_update (st_used_update (\<lambda>u. u - ?sz)) (ram_heap_update (?f ?Q) h0))"
      using H S req16_small(2) [OF n] 3 p2
      by (simp add: run trim_block_def link_back_run comp_def del: of_nat_diff) (use h0(1) in \<open>auto simp: act_return_def split: if_splits\<close>)
    moreover have "?Q \<le> first_free ys" by (rule first_free_after [OF I(1)])
    then have "lfree h0 = first_free (?bs ys)"
      using h0(4) I(3) first_free_before [OF I(1)] 3(1) p2 by (cases "list_all snd xs") (auto simp: first_free_append)
    moreover have "trimmed (req (unat n)) p ys = (p2, False) # ys" using 3 by (auto simp: trimmed_def p2_def)
    ultimately show ?thesis using shrunk [OF h0(1-3), of ys "[]"] pl I(1) 3 by simp
  next
    case 4
    then have "lwip_mem_trim (p + 8) n h = Inr (Some (p + 8), h)"
      using H S req16_small(2) [OF n] hdr_next [OF I(1)] by (auto simp add: run trim_block_def simp del: of_nat_diff)
    then show ?thesis using inv 4 by (auto simp: trimmed_def p2_def)
  qed
qed

lemma trim_refused:
  assumes inv: "heap_inv h (xs @ (p, True) # ys)" and n: "\<not> (unat n \<le> 1600 \<and> p + 8 + req (unat n) \<le> start ys 1600)"
  shows "lwip_mem_trim (p + 8) n h = Inr (None, h)"
proof (cases "unat n \<le> 1600")
  case True
  note H = hdr [OF heap_invD(1) [OF inv]]
  define k where "k = start ys 1600 - p"
  have k: "12 + 8 \<le> k" "k \<le> 1600" "of_nat (start ys 1600) - of_nat p = (of_nat k :: u16)"
    using H by (simp_all add: k_def of_nat_diff)
  have big: "k - 8 < req (unat n)" using n True H(4) unfolding k_def by linarith
  have "unat (ucast (of_nat k :: u16) - 8 :: u32) = k - 8" using k by (simp add: unat_sub word_le_nat_alt)
  then have "ucast (ucast (of_nat (start ys 1600) - of_nat p :: u16) - 8 :: u32) < adjusted_size n"
    unfolding k(3) u32_as_u16 using req16_small(1) [OF True] big k by (simp add: word_less_nat_alt del: of_nat_diff)
  then show ?thesis using H req16_small(2) [OF True]
    by (simp add: lwip_mem_trim_def act_bind_def act_return_def mem_to_ptr_def act_check_def Let_def)
next
  case False
  then show ?thesis using req16_large [of n] by (simp add: lwip_mem_trim_def act_return_def)
qed

section \<open>Blocks in use\<close>

fun used_blocks :: "blk list \<Rightarrow> nat \<Rightarrow> (nat \<times> nat) list" where
  "used_blocks [] e = []"
| "used_blocks ((p, u) # bs) e = (if u then [(p, start bs e - (p + 8))] else []) @ used_blocks bs e"

lemma used_blocks_append: "used_blocks (xs @ ys) e = used_blocks xs (start ys e) @ used_blocks ys e"
  by (induction xs) auto

lemma used_blocks_coalesce [simp]: "used_blocks (coalesce bs) e = used_blocks bs e"
  by (induction bs rule: coalesce.induct) auto

lemma used_blocks_split:
  assumes "(p, s) \<in> set (used_blocks bs e)"
  obtains xs ys where "bs = xs @ (p, True) # ys" "s = start ys e - (p + 8)"
  using assms
proof (induction bs arbitrary: thesis)
  case (Cons b bs)
  obtain q u where b: "b = (q, u)" by (cases b)
  show ?case
  proof (cases "(p, s) \<in> set (used_blocks bs e)")
    case True
    then show ?thesis using Cons.IH Cons.prems(1) [of "b # _"] by (metis append_Cons)
  next
    case False
    then show ?thesis using Cons.prems b by (intro Cons.prems(1) [of "[]" bs]) (auto split: if_splits)
  qed
qed simp

lemma used_blocks_bounds:
  assumes "mseg m pv bs e" "(p, s) \<in> set (used_blocks bs e)"
  shows "start bs e \<le> p \<and> p + 8 + s \<le> e \<and> 4 dvd p \<and> 12 \<le> s"
  using assms
proof (induction m pv bs e rule: mseg.induct)
  case (2 m pv q u bs e)
  then have "start bs e \<le> e" using mseg_start [of m q bs e] by simp
  then show ?case using 2 by (auto split: if_splits)
qed simp

lemma used_blocks_disjoint:
  assumes "mseg m pv bs e" "(p, s) \<in> set (used_blocks bs e)" "(q, t) \<in> set (used_blocks bs e)"
  shows "p = q \<and> s = t \<or> p + 8 + s \<le> q \<or> q + 8 + t \<le> p"
  using assms
proof (induction m pv bs e rule: mseg.induct)
  case (2 m pv r u bs e)
  then show ?case
    using used_blocks_bounds [of m r bs e p s] used_blocks_bounds [of m r bs e q t] by (auto split: if_splits)
qed simp

lemma used_blocks_malloc:
  assumes "ab_malloc sz bs = Some (p, bs')"
  shows "\<exists>s. sz \<le> s \<and> set (used_blocks bs' 1600) = insert (p, s) (set (used_blocks bs 1600))"
proof -
  obtain xs ys where "bs = xs @ (p, False) # ys" "p + 8 + sz \<le> start ys 1600" "bs' = xs @ taken sz p (start ys 1600) @ ys"
    using ab_malloc_split [OF assms] by metis
  then show ?thesis
    by (intro exI [of _ "start (tl (taken sz p (start ys 1600))) (start ys 1600) - (p + 8)"]) (auto simp: used_blocks_append)
qed

lemma used_blocks_free:
  assumes "heap_list m (xs @ (p, True) # ys)"
  shows "set (used_blocks (ab_free p (xs @ (p, True) # ys)) 1600) = {(q, s) \<in> set (used_blocks (xs @ (p, True) # ys) 1600). q \<noteq> p}"
proof -
  have seg: "mseg m 0 xs p" "mseg m p ys 1600" "p + 20 \<le> start ys 1600"
    using heap_list_split [of m xs "[(p, True)]" ys] assms hdr(4) [OF assms] by simp_all
  have "q \<noteq> p" if "(q, s) \<in> set (used_blocks xs p) \<or> (q, s) \<in> set (used_blocks ys 1600)" for q s
    using that used_blocks_bounds [OF seg(1)] used_blocks_bounds [OF seg(2)] seg(3) by fastforce
  then show ?thesis unfolding ab_free_def ab_free_at [OF assms] by (auto simp: used_blocks_append)
qed

lemma used_blocks_trim:
  assumes "p + 8 + sz \<le> start ys 1600"
  shows "\<exists>s'. sz \<le> s' \<and> set (used_blocks (xs @ (p, True) # trimmed sz p ys) 1600) =
    insert (p, s') (set (used_blocks xs p) \<union> set (used_blocks ys 1600))"
proof -
  have "sz \<le> start (trimmed sz p ys) 1600 - (p + 8)" "used_blocks (trimmed sz p ys) 1600 = used_blocks ys 1600"
    using assms by (cases ys; auto simp: trimmed_def)+
  then show ?thesis by (auto simp: used_blocks_append)
qed

lemma free_undoes_malloc_list:
  assumes hl: "heap_list m bs'" and pl: "plugged bs" "plugged bs'" and ab: "ab_malloc sz bs = Some (p, bs')"
  shows "ab_free p bs' = bs"
proof -
  obtain xs ys where bs: "bs = xs @ (p, False) # ys" and bs': "bs' = xs @ taken sz p (start ys 1600) @ ys"
    using ab_malloc_split [OF ab] by metis
  obtain zs where zs: "bs' = xs @ (p, True) # zs" "drop_free zs = ys"
  proof (cases "p + 8 + sz + 20 \<le> start ys 1600")
    case True
    then show ?thesis using bs' by (intro that [of "(p + 8 + sz, False) # ys"]) auto
  next
    case False
    have "drop_free ys = ys" using pl(1) bs
      by (cases ys) (auto simp: plugged_def successively_append_iff successively_Cons split: if_splits)
    then show ?thesis using False bs' by (intro that [of ys]) auto
  qed
  have "xs = [] \<or> snd (last xs)" using pl(1) bs by (cases xs rule: rev_cases) (auto simp: plugged_def successively_append_iff)
  then show ?thesis using coalesce_at [of xs p zs] pl(2) zs ab_free_at [of m xs p zs] hl bs by (auto simp: ab_free_def)
qed

end
