(* ===== verification/Lwip_MemProps.thy ===== *)
theory Lwip_MemProps
  imports Lwip_MemOps Fx3_DmaBuf
begin

text \<open>
  The heap as its clients see it: every sequence of allocations, releases, shrinkings and stores into allocated memory
  keeps the blocks apart and their contents intact, and no call fails.
\<close>

section \<open>Runs of the heap\<close>

text \<open>\<open>L\<close> gives the memory the clients own: the size asked for at every pointer they got and did not release.\<close>

inductive heap_run :: "lwip_heap \<Rightarrow> (nat \<rightharpoonup> nat) \<Rightarrow> bool" where
  run_init: "st_used (mem_st h0) = 0 \<Longrightarrow> mem_init h0 = Inr ((), h) \<Longrightarrow> heap_run h Map.empty"
| run_malloc: "heap_run h L \<Longrightarrow> lwip_mem_malloc n h = Inr (r, h')
    \<Longrightarrow> heap_run h' (case r of None \<Rightarrow> L | Some p \<Rightarrow> L(p \<mapsto> unat n))"
| run_calloc: "heap_run h L \<Longrightarrow> lwip_mem_calloc c n h = Inr (r, h')
    \<Longrightarrow> heap_run h' (case r of None \<Rightarrow> L | Some p \<Rightarrow> L(p \<mapsto> unat c * unat n))"
| run_free: "heap_run h L \<Longrightarrow> p \<in> dom L \<Longrightarrow> lwip_mem_free (Some p) h = Inr ((), h') \<Longrightarrow> heap_run h' (L(p := None))"
| run_free_null: "heap_run h L \<Longrightarrow> lwip_mem_free None h = Inr ((), h') \<Longrightarrow> heap_run h' L"
| run_trim: "heap_run h L \<Longrightarrow> p \<in> dom L \<Longrightarrow> lwip_mem_trim p n h = Inr (r, h')
    \<Longrightarrow> heap_run h' (case r of None \<Rightarrow> L | Some q \<Rightarrow> L(p \<mapsto> unat n))"
| run_store: "heap_run h L \<Longrightarrow> L p = Some k \<Longrightarrow> i < k \<Longrightarrow> heap_run (ram_heap_update (\<lambda>m. m(p + i := v)) h) L"

text \<open>The blocks in use are the memory the clients own.\<close>

definition owns :: "(nat \<rightharpoonup> nat) \<Rightarrow> (nat \<times> nat) set \<Rightarrow> bool" where
  "owns L U \<longleftrightarrow> (\<forall>p k. L p = Some k \<longrightarrow> (\<exists>b s. p = b + 8 \<and> (b, s) \<in> U \<and> k \<le> s)) \<and> (\<forall>(b, s) \<in> U. L (b + 8) \<noteq> None)"

lemma owns_insert:
  assumes "owns L U" "k \<le> s"
  shows "owns (L(b + 8 \<mapsto> k)) (insert (b, s) U)"
  unfolding owns_def
proof (intro conjI allI impI)
  fix p j assume L: "(L(b + 8 \<mapsto> k)) p = Some j"
  show "\<exists>c t. p = c + 8 \<and> (c, t) \<in> insert (b, s) U \<and> j \<le> t"
  proof (cases "p = b + 8")
    case False
    then have "L p = Some j" using L by simp
    then show ?thesis using assms(1) unfolding owns_def by blast
  qed (use L assms(2) in auto)
qed (use assms in \<open>auto simp: owns_def\<close>)

lemma owns_remove:
  assumes "owns L U"
  shows "owns (L(b + 8 := None)) {(q, s) \<in> U. q \<noteq> b}"
  unfolding owns_def
proof (intro conjI allI impI)
  fix p k assume "(L(b + 8 := None)) p = Some k"
  then have "L p = Some k" "p \<noteq> b + 8" by (auto split: if_splits)
  then obtain c s where "p = c + 8" "(c, s) \<in> U" "k \<le> s" using assms unfolding owns_def by blast
  then show "\<exists>c s. p = c + 8 \<and> (c, s) \<in> {(q, s) \<in> U. q \<noteq> b} \<and> k \<le> s" using \<open>p \<noteq> b + 8\<close> by blast
qed (use assms in \<open>auto simp: owns_def\<close>)

definition heap_owned :: "lwip_heap \<Rightarrow> (nat \<rightharpoonup> nat) \<Rightarrow> bool" where
  "heap_owned h L \<longleftrightarrow> (\<exists>bs. heap_inv h bs \<and> owns L (set (used_blocks bs 1600)))"

text \<open>What a call leaves alone: the data of the blocks \<open>U\<close>.\<close>

definition data_kept :: "(nat \<rightharpoonup> nat) \<Rightarrow> lwip_heap \<Rightarrow> lwip_heap \<Rightarrow> bool" where
  "data_kept L h h' \<longleftrightarrow> (\<forall>p k i. L p = Some k \<longrightarrow> i < k \<longrightarrow> ram_heap h' (p + i) = ram_heap h (p + i))"

lemma owns_block:
  assumes "heap_inv h bs" "owns L (set (used_blocks bs 1600))" "L p = Some k"
  obtains xs b ys where "bs = xs @ (b, True) # ys" "p = b + 8" "p + k \<le> start ys 1600" "(b, start ys 1600 - (b + 8)) \<in> set (used_blocks bs 1600)"
proof -
  from assms(2,3) obtain b s where b: "p = b + 8" "(b, s) \<in> set (used_blocks bs 1600)" "k \<le> s" unfolding owns_def by metis
  obtain xs ys where "bs = xs @ (b, True) # ys" "s = start ys 1600 - (b + 8)" using used_blocks_split [OF b(2)] by metis
  then show ?thesis using that b hdr(4) [of "ram_heap h" xs b True ys] heap_invD(1) [OF assms(1)] by auto
qed

text \<open>Headers and data do not overlap.\<close>

lemma data_no_header:
  assumes seg: "mseg m pv bs 1600" and b: "(b, s) \<in> set (used_blocks bs 1600)" "i < s" and q: "q \<in> fst ` set bs"
  shows "b + 8 + i < q \<or> q + 8 \<le> b + 8 + i"
proof -
  obtain xs ys where bs: "bs = xs @ (b, True) # ys" "s = start ys 1600 - (b + 8)" using used_blocks_split [OF b(1)] by metis
  then have "mseg m pv xs b" "mseg m b ys 1600" using seg by (auto simp: mseg_append)
  then have "q + 20 \<le> b \<or> q = b \<or> start ys 1600 \<le> q" using mseg_block bs q by fastforce
  then show ?thesis using bs(2) b(2) by linarith
qed

lemma kept_data:
  assumes "mseg m pv bs 1600" "kept (fst ` set bs) m0 m'" "(b, s) \<in> set (used_blocks bs 1600)" "i < s"
  shows "m' (b + 8 + i) = m0 (b + 8 + i)"
  using assms(2) data_no_header [OF assms(1,3,4)] unfolding kept_def by blast

lemma data_keptI:
  assumes "mseg m pv bs 1600" "kept (fst ` set bs) (ram_heap h) (ram_heap h')" "owns L U" "U \<subseteq> set (used_blocks bs 1600)"
  shows "data_kept L h h'"
  unfolding data_kept_def
proof (intro allI impI)
  fix p k i assume "L p = Some k" "i < k"
  then obtain b s where "p = b + 8" "(b, s) \<in> U" "i < s" using assms(3) unfolding owns_def by (meson less_le_trans)
  then show "ram_heap h' (p + i) = ram_heap h (p + i)" using kept_data [OF assms(1,2)] assms(4) by blast
qed

section \<open>Each operation\<close>

lemma heap_owned_err [simp]: "heap_owned (mem_st_update (st_err_update f) h) L = heap_owned h L"
  by (simp add: heap_owned_def heap_inv_def)

lemma data_kept_refl [simp]: "data_kept L h h" "data_kept L h (mem_st_update f h)"
  by (simp_all add: data_kept_def)

lemma malloc_fails: "n = 0 \<or> 1600 < unat n \<Longrightarrow> lwip_mem_malloc n h = Inr (None, h)"
  using req16_large [of n] by (auto simp: lwip_mem_malloc_def act_return_def)

lemma malloc_owned:
  assumes "heap_owned h L"
  shows "\<exists>r h'. lwip_mem_malloc n h = Inr (r, h') \<and> heap_owned h' (case r of None \<Rightarrow> L | Some p \<Rightarrow> L(p \<mapsto> unat n))
    \<and> data_kept L h h' \<and> (\<forall>p. r = Some p \<longrightarrow> L p = None)"
proof -
  obtain bs where inv: "heap_inv h bs" and own: "owns L (set (used_blocks bs 1600))" using assms by (auto simp: heap_owned_def)
  consider "n = 0 \<or> 1600 < unat n" | "n \<noteq> 0" "unat n \<le> 1600" "ab_malloc (req (unat n)) bs = None"
    | p bs' where "n \<noteq> 0" "unat n \<le> 1600" "ab_malloc (req (unat n)) bs = Some (p, bs')"
    by (metis linorder_not_le option.exhaust surj_pair)
  then show ?thesis
  proof cases
    case 1
    then show ?thesis using assms by (simp add: malloc_fails)
  next
    case 2
    then show ?thesis using malloc_none [OF inv 2(2,1,3)] assms by simp
  next
    case 3
    obtain h' where h': "lwip_mem_malloc n h = Inr (Some (p + 8), h')" "heap_inv h' bs'"
        "kept (fst ` set bs') (ram_heap h) (ram_heap h')"
      using malloc_some [OF inv 3(2,1,3)] by auto
    obtain s where s: "req (unat n) \<le> s" "set (used_blocks bs' 1600) = insert (p, s) (set (used_blocks bs 1600))"
      using used_blocks_malloc [OF 3(3)] by auto
    have new: "\<not> (\<exists>t. (p, t) \<in> set (used_blocks bs 1600))"
    proof
      assume "\<exists>t. (p, t) \<in> set (used_blocks bs 1600)"
      then obtain t xs ys where "bs = xs @ (p, True) # ys" using used_blocks_split by metis
      moreover obtain xs' ys' where "bs = xs' @ (p, False) # ys'" using ab_malloc_split [OF 3(3)] by metis
      ultimately show False using heap_distinct [of "ram_heap h" xs p True ys False] heap_invD(1) [OF inv] by (metis Un_iff in_set_conv_decomp list.set_intros(2) prod.inject set_ConsD set_append)
    qed
    then have "L (p + 8) = None" using own unfolding owns_def by (metis add_right_cancel option.exhaust)
    moreover have "owns (L(p + 8 \<mapsto> unat n)) (set (used_blocks bs' 1600))"
      using owns_insert [OF own, of "unat n" s p] s req_props(3) [of "unat n"] by simp
    then have "heap_owned h' (L(p + 8 \<mapsto> unat n))" using h'(2) by (auto simp: heap_owned_def)
    moreover have "data_kept L h h'" using data_keptI [OF heap_invD(5) [OF h'(2)] h'(3) own] s(2) by auto
    ultimately show ?thesis using h'(1) by auto
  qed
qed

lemma free_owned:
  assumes "heap_owned h L" "p \<in> dom L"
  shows "\<exists>h'. lwip_mem_free (Some p) h = Inr ((), h') \<and> heap_owned h' (L(p := None)) \<and> data_kept (L(p := None)) h h'"
proof -
  obtain bs where inv: "heap_inv h bs" and own: "owns L (set (used_blocks bs 1600))" using assms by (auto simp: heap_owned_def)
  obtain k where "L p = Some k" using assms(2) by auto
  then obtain xs b ys where bs: "bs = xs @ (b, True) # ys" "p = b + 8" using owns_block [OF inv own] by metis
  obtain h' where h': "lwip_mem_free (Some (b + 8)) h = Inr ((), h')" "heap_inv h' (ab_free b bs)"
      "kept (fst ` set bs) (ram_heap h) (ram_heap h')"
    using free_run inv bs by metis
  let ?U = "{(q, s) \<in> set (used_blocks bs 1600). q \<noteq> b}"
  have own': "owns (L(p := None)) ?U" using owns_remove [OF own] bs(2) by simp
  then have "heap_owned h' (L(p := None))"
    using h'(2) used_blocks_free [of "ram_heap h" xs b ys] heap_invD(1) [OF inv] bs by (auto simp: heap_owned_def)
  moreover have "data_kept (L(p := None)) h h'"
    by (rule data_keptI [OF heap_invD(5) [OF inv] h'(3) own']) auto
  ultimately show ?thesis using h'(1) bs(2) by auto
qed

lemma trim_owned:
  assumes "heap_owned h L" "p \<in> dom L"
  shows "\<exists>r h'. lwip_mem_trim p n h = Inr (r, h') \<and> heap_owned h' (case r of None \<Rightarrow> L | Some q \<Rightarrow> L(p \<mapsto> unat n))
    \<and> data_kept (case r of None \<Rightarrow> L | Some q \<Rightarrow> L(p \<mapsto> unat n)) h h'"
proof -
  obtain bs where inv: "heap_inv h bs" and own: "owns L (set (used_blocks bs 1600))" using assms by (auto simp: heap_owned_def)
  obtain k where "L p = Some k" using assms(2) by auto
  then obtain xs b ys where bs: "bs = xs @ (b, True) # ys" "p = b + 8" using owns_block [OF inv own] by metis
  show ?thesis
  proof (cases "unat n \<le> 1600 \<and> b + 8 + req (unat n) \<le> start ys 1600")
    case False
    then show ?thesis using trim_refused [OF inv [unfolded bs(1)] False] assms(1) bs(2) by simp
  next
    case True
    let ?bs' = "xs @ (b, True) # trimmed (req (unat n)) b ys"
    obtain h' where h': "lwip_mem_trim p n h = Inr (Some p, h')" "heap_inv h' ?bs'" "kept (fst ` set ?bs') (ram_heap h) (ram_heap h')"
      using trim_run [OF inv [unfolded bs(1)]] True bs(2) by auto
    obtain s' where s': "req (unat n) \<le> s'" "set (used_blocks ?bs' 1600) = insert (b, s') (set (used_blocks xs b) \<union> set (used_blocks ys 1600))"
      using used_blocks_trim [of b "req (unat n)" ys xs] True by auto
    have "{(q, s) \<in> set (used_blocks bs 1600). q \<noteq> b} = set (used_blocks xs b) \<union> set (used_blocks ys 1600)"
    proof -
      have hl: "heap_list (ram_heap h) (xs @ (b, True) # ys)" using heap_invD(1) [OF inv] bs by simp
      have "set (used_blocks (ab_free b bs) 1600) = set (used_blocks xs b) \<union> set (used_blocks ys 1600)"
        unfolding bs ab_free_def ab_free_at [OF hl] by (simp add: used_blocks_append)
      then show ?thesis using used_blocks_free [OF hl] bs(1) by (simp only:)
    qed
    then have "owns (L(p \<mapsto> unat n)) (set (used_blocks ?bs' 1600))"
      using owns_insert [OF owns_remove [OF own, of b], of "unat n" s' b] s' req_props(3) [of "unat n"] bs(2) by simp
    then show ?thesis using h' data_keptI [OF heap_invD(5) [OF h'(2)] h'(3)] by (auto simp: heap_owned_def)
  qed
qed

lemma write_owned:
  assumes "heap_owned h L" and w: "\<And>i. f (ram_heap h) i \<noteq> ram_heap h i \<Longrightarrow> \<exists>p k. L p = Some k \<and> p \<le> i \<and> i < p + k"
  shows "heap_owned (ram_heap_update f h) L"
proof -
  obtain bs where inv: "heap_inv h bs" and own: "owns L (set (used_blocks bs 1600))" using assms by (auto simp: heap_owned_def)
  note I = heap_invD [OF inv]
  let ?m = "f (ram_heap h)"
  have b: "\<exists>b s j. i = b + 8 + j \<and> j < s \<and> (b, s) \<in> set (used_blocks bs 1600)" if ne: "?m i \<noteq> ram_heap h i" for i
  proof -
    obtain p k where "L p = Some k" "p \<le> i" "i < p + k" using w [OF ne] by auto
    moreover then obtain b s where "p = b + 8" "(b, s) \<in> set (used_blocks bs 1600)" "k \<le> s" using own unfolding owns_def by blast
    ultimately show ?thesis by (intro exI [of _ b] exI [of _ s] exI [of _ "i - p"]) auto
  qed
  have hd: "?m (q + j) = ram_heap h (q + j)" if "(q, u) \<in> set bs" "j < 5" for q u j
    using b [of "q + j"] data_no_header [OF I(5), of _ _ _ q] that by force
  have "mseg ?m 0 bs 1600" using I(5) mseg_frame [of bs ?m "ram_heap h" 0 1600] hd by blast
  moreover have "?m i = ram_heap h i" if "1600 \<le> i" for i
    using b [of i] used_blocks_bounds [OF I(5)] that by fastforce
  then have "rd16 ?m 1600 = rd16 (ram_heap h) 1600" "rd16 ?m 1602 = rd16 (ram_heap h) 1602" "?m 1604 = ram_heap h 1604"
    by (simp_all add: rd16_def)
  ultimately have "heap_inv (ram_heap_update f h) bs" using inv by (simp add: heap_inv_def heap_list_def)
  then show ?thesis using own by (auto simp: heap_owned_def)
qed

lemma store_owned:
  assumes "heap_owned h L" "L p = Some k" "i < k"
  shows "heap_owned (ram_heap_update (\<lambda>m. m(p + i := v)) h) L"
proof (rule write_owned [OF assms(1)])
  fix j assume "((ram_heap h)(p + i := v)) j \<noteq> ram_heap h j"
  then have "j = p + i" by (auto split: if_splits)
  then show "\<exists>p k. L p = Some k \<and> p \<le> j \<and> j < p + k" using assms(2,3) by (intro exI [of _ p] exI [of _ k]) auto
qed

lemma owned_apart:
  assumes "heap_owned h L" "L p = Some k" "L q = Some l" "p \<noteq> q"
  shows "p + k \<le> q \<or> q + l \<le> p"
proof -
  obtain bs where inv: "heap_inv h bs" and own: "owns L (set (used_blocks bs 1600))" using assms by (auto simp: heap_owned_def)
  obtain b s where b: "p = b + 8" "(b, s) \<in> set (used_blocks bs 1600)" "k \<le> s" using own assms(2) unfolding owns_def by blast
  obtain c t where c: "q = c + 8" "(c, t) \<in> set (used_blocks bs 1600)" "l \<le> t" using own assms(3) unfolding owns_def by blast
  show ?thesis using used_blocks_disjoint [OF heap_invD(5) [OF inv] b(2) c(2)] b c assms(4) by auto
qed

lemma owned_inside:
  assumes "heap_owned h L" "L p = Some k"
  shows "4 dvd p" "8 \<le> p" "p + k \<le> 1600"
proof -
  obtain bs where inv: "heap_inv h bs" and own: "owns L (set (used_blocks bs 1600))" using assms by (auto simp: heap_owned_def)
  obtain b s where b: "p = b + 8" "(b, s) \<in> set (used_blocks bs 1600)" "k \<le> s" using own assms(2) unfolding owns_def by blast
  show "4 dvd p" "8 \<le> p" "p + k \<le> 1600" using used_blocks_bounds [OF heap_invD(5) [OF inv] b(2)] b by auto
qed

lemma calloc_owned:
  assumes "heap_owned h L"
  shows "\<exists>r h'. lwip_mem_calloc c n h = Inr (r, h') \<and> heap_owned h' (case r of None \<Rightarrow> L | Some p \<Rightarrow> L(p \<mapsto> unat c * unat n))
    \<and> data_kept L h h' \<and> (\<forall>p. r = Some p \<longrightarrow> L p = None \<and> (\<forall>i < unat c * unat n. ram_heap h' (p + i) = 0))"
proof -
  let ?a = "ucast c * ucast n :: u32"
  have "unat c * unat n \<le> 65535 * 65535" using unat_u16_bound [of c] unat_u16_bound [of n]
    by (intro mult_mono) (simp_all add: less_Suc_eq_le del: unat_u16_bound)
  then have a: "unat ?a = unat c * unat n" by (simp add: unat_word_ariths)
  show ?thesis
  proof (cases "ucast (ucast ?a :: u16) = ?a")
    case False
    then show ?thesis using assms by (simp add: lwip_mem_calloc_def act_return_def)
  next
    case True
    then have a16: "unat (ucast ?a :: u16) = unat c * unat n" using a w16 by metis
    obtain r h1 where h1: "lwip_mem_malloc (ucast ?a) h = Inr (r, h1)"
        "heap_owned h1 (case r of None \<Rightarrow> L | Some p \<Rightarrow> L(p \<mapsto> unat c * unat n))" "data_kept L h h1"
        "\<forall>p. r = Some p \<longrightarrow> L p = None"
      using malloc_owned [OF assms, of "ucast ?a"] a16 by metis
    show ?thesis
    proof (cases r)
      case None
      then show ?thesis using True h1 by (simp add: lwip_mem_calloc_def act_bind_def act_return_def Let_def)
    next
      case (Some p)
      let ?L = "L(p \<mapsto> unat c * unat n)" and ?f = "\<lambda>m. wr_list m p (replicate (unat c * unat n) 0)"
      have own1: "heap_owned h1 ?L" using h1(2) Some by simp
      note ins = owned_inside [OF own1, of p]
      have "lwip_mem_calloc c n h = Inr (Some p, ram_heap_update ?f h1)"
        using True h1(1) Some a ins by (simp add: lwip_mem_calloc_def act_bind_def act_return_def act_check_def act_modify_def Let_def)
      moreover have "heap_owned (ram_heap_update ?f h1) ?L"
        by (rule write_owned [OF own1]) (auto simp: wr_list_at split: if_splits)
      moreover have "data_kept L h (ram_heap_update ?f h1)"
        unfolding data_kept_def
      proof (intro allI impI)
        fix q k i assume q: "L q = Some k" "i < k"
        then have "p \<noteq> q" using h1(4) Some by auto
        then have "q + k \<le> p \<or> p + unat c * unat n \<le> q" using owned_apart [OF own1, of p _ q k] q by auto
        then show "ram_heap (ram_heap_update ?f h1) (q + i) = ram_heap h (q + i)"
          using h1(3) q by (auto simp: wr_list_at data_kept_def)
      qed
      ultimately show ?thesis using h1(4) Some by (auto simp: wr_list_at)
    qed
  qed
qed

text \<open>Every state of a run is owned by its clients.\<close>

lemma heap_run_owned: "heap_run h L \<Longrightarrow> heap_owned h L"
proof (induction rule: heap_run.induct)
  case (run_init h0 h)
  then show ?case using mem_init_inv [of h0] by (auto simp: heap_owned_def owns_def intro!: exI [of _ "[(0, False)]"])
next
  case (run_malloc h L n r h')
  then show ?case using malloc_owned [of h L n] by auto
next
  case (run_calloc h L c n r h')
  then show ?case using calloc_owned [of h L c n] by auto
next
  case (run_free h L p h')
  then show ?case using free_owned [of h L p] by (auto simp del: fun_upd_apply)
next
  case (run_trim h L p n r h')
  then show ?case using trim_owned [of h L p n] by auto
next
  case (run_store h L p k i v)
  then show ?case by (blast intro: store_owned)
qed (simp add: lwip_mem_free_def act_return_def)

section \<open>The contract of an allocator\<close>

definition heap_alloc :: "lwip_heap \<Rightarrow> nat \<Rightarrow> c_error + nat option \<times> lwip_heap" where
  "heap_alloc h n = lwip_mem_malloc (of_nat n) h"

definition heap_release :: "lwip_heap \<Rightarrow> nat \<Rightarrow> c_error + lwip_heap" where
  "heap_release h p = map_sum id snd (lwip_mem_free (Some p) h)"

definition heap_blocks :: "lwip_heap \<Rightarrow> (nat \<times> nat) set \<Rightarrow> bool" where
  "heap_blocks h B \<longleftrightarrow> (\<exists>L. heap_owned h L \<and> B = Map.graph L)"

interpretation heap_pool: block_pool heap_alloc heap_release heap_blocks "\<lambda>n. n < 65536"
proof unfold_locales
  fix h B and n :: nat assume "heap_blocks h B" "n < 65536"
  then obtain L where L: "heap_owned h L" "B = Map.graph L" by (auto simp: heap_blocks_def)
  obtain r h' where r: "lwip_mem_malloc (of_nat n) h = Inr (r, h')" "heap_owned h' (case r of None \<Rightarrow> L | Some p \<Rightarrow> L(p \<mapsto> n))"
      "\<forall>p. r = Some p \<longrightarrow> L p = None"
    using malloc_owned [OF L(1), of "of_nat n", unfolded n16 [OF \<open>n < 65536\<close>]] by blast
  have "insert (p, n) B = Map.graph (L(p \<mapsto> n))" if "r = Some p" for p
    using r(3) L(2) that by (auto simp: Map.graph_def split: if_splits)
  then have "heap_blocks h' (insert (p, n) B)" if "r = Some p" for p
    using r(2) that unfolding heap_blocks_def by auto
  then show "\<exists>r P'. heap_alloc h n = Inr (r, P')
      \<and> (case r of None \<Rightarrow> heap_blocks P' B | Some p \<Rightarrow> (p, n) \<notin> B \<and> heap_blocks P' (insert (p, n) B))"
    using r L by (auto simp: heap_alloc_def heap_blocks_def in_graphD split: option.split)
next
  fix h B p n assume "heap_blocks h B" "(p, n) \<in> B"
  then obtain L where L: "heap_owned h L" "B = Map.graph L" "L p = Some n" by (auto simp: heap_blocks_def dest: in_graphD)
  obtain h' where "lwip_mem_free (Some p) h = Inr ((), h')" "heap_owned h' (L(p := None))" using free_owned [OF L(1), of p] L(3) by auto
  moreover have "B - {(p, n)} = Map.graph (L(p := None))" using L by (auto simp: Map.graph_def split: if_splits)
  ultimately show "\<exists>P'. heap_release h p = Inr P' \<and> heap_blocks P' (B - {(p, n)})"
    by (auto simp: heap_release_def heap_blocks_def)
next
  fix h B p n q k assume "heap_blocks h B" "(p, n) \<in> B" "(q, k) \<in> B" "(p, n) \<noteq> (q, k)"
  then show "p + n \<le> q \<or> q + k \<le> p" using owned_apart [of h _ p n q k] by (fastforce simp: heap_blocks_def dest: in_graphD)
qed

section \<open>Properties\<close>

lemma demo_heap: "\<exists>h. heap_run h Map.empty \<and> heap_inv h [(0, False)]"
proof -
  let ?h0 = "\<lparr>ram_heap = \<lambda>_. 0, lfree = 0,
    mem_st = \<lparr>st_err = 0, st_avail = 0, st_used = 0, st_max = 0, st_illegal = 0\<rparr>\<rparr>"
  obtain h where "mem_init ?h0 = Inr ((), h)" "heap_inv h [(0, False)]" using mem_init_inv [of ?h0] by auto
  then show ?thesis using run_init [of ?h0 h] by auto
qed

lemma demo_block: "\<exists>h. heap_run h [8 \<mapsto> 5] \<and> heap_inv h [(0, True), (20, False)]"
proof -
  obtain h where h: "heap_run h Map.empty" "heap_inv h [(0, False)]" using demo_heap by blast
  have "ab_malloc (req (unat (5 :: u16))) [(0, False)] = Some (0, [(0, True), (20, False)])" by (simp add: req_def)
  then obtain h' where "lwip_mem_malloc 5 h = Inr (Some 8, h')" "heap_inv h' [(0, True), (20, False)]"
    using malloc_some [OF h(2), of 5] by auto
  then show ?thesis using run_malloc [OF h(1), of 5 "Some 8" h'] by auto
qed

lemma ab_malloc_None:
  assumes "ab_malloc sz bs = None" "bs = xs @ (p, False) # ys"
  shows "start ys 1600 < p + 8 + sz"
  using assms by (induction xs arbitrary: bs) (auto split: if_splits)

text \<open>C32. Over any sequence of allocations, releases, shrinkings and stores into allocated memory, the areas the clients own are
  aligned, disjoint, inside the heap and never in its headers, and the next call of any kind succeeds.\<close>

theorem heap_areas_stay_disjoint:
  assumes "heap_run h L" "L p = Some k"
  shows "4 dvd p \<and> 8 \<le> p \<and> p + k \<le> 1600 \<and> (\<forall>q l. L q = Some l \<longrightarrow> q \<noteq> p \<longrightarrow> p + k \<le> q \<or> q + l \<le> p)
    \<and> (\<exists>r h'. lwip_mem_malloc n h = Inr (r, h') \<and> data_kept L h h')
    \<and> (\<exists>r h'. lwip_mem_calloc c n h = Inr (r, h') \<and> data_kept L h h')
    \<and> (\<exists>h'. lwip_mem_free (Some p) h = Inr ((), h') \<and> data_kept (L(p := None)) h h')
    \<and> (\<exists>r h'. lwip_mem_trim p n h = Inr (r, h') \<and> data_kept (case r of None \<Rightarrow> L | Some q \<Rightarrow> L(p \<mapsto> unat n)) h h')"
proof -
  note o = heap_run_owned [OF assms(1)]
  have p: "p \<in> dom L" using assms(2) by auto
  show ?thesis
    using owned_inside [OF o assms(2)] owned_apart [OF o assms(2)] malloc_owned [OF o, of n] calloc_owned [OF o, of c n]
      free_owned [OF o p] trim_owned [OF o p, of n] by (intro conjI) blast+
qed

theorem heap_areas_stay_disjoint_witness:
  "\<exists>h. heap_run h [8 \<mapsto> 5] \<and> (\<exists>h'. lwip_mem_free (Some 8) h = Inr ((), h')) \<and> (\<exists>r h'. lwip_mem_malloc 7 h = Inr (r, h')
     \<and> data_kept [8 \<mapsto> 5] h h')"
proof -
  obtain h where h: "heap_run h [8 \<mapsto> 5]" using demo_block by blast
  then show ?thesis using heap_areas_stay_disjoint [OF h, where p = 8 and k = 5 and n = 7 and c = 0] by auto
qed

text \<open>C33. An allocation of up to 1600 bytes fails only when no free block has room for the aligned request; then only the error
  counter changes.  Otherwise it takes the lowest block that fits.\<close>

theorem malloc_is_first_fit:
  assumes "heap_inv h bs" "0 < unat n" "unat n \<le> 1600"
  shows "(case lwip_mem_malloc n h of
      Inr (None, h') \<Rightarrow> h' = mem_st_update (st_err_update (\<lambda>k. k + 1)) h
        \<and> (\<forall>xs p ys. bs = xs @ (p, False) # ys \<longrightarrow> start ys 1600 < p + 8 + req (unat n))
    | Inr (Some a, h') \<Rightarrow> (\<exists>xs p ys. bs = xs @ (p, False) # ys \<and> a = p + 8 \<and> p + 8 + req (unat n) \<le> start ys 1600
        \<and> (\<forall>us q vs. xs = us @ (q, False) # vs \<longrightarrow> start (vs @ [(p, False)]) 1600 < q + 8 + req (unat n))
        \<and> heap_inv h' (xs @ taken (req (unat n)) p (start ys 1600) @ ys))
    | Inl e \<Rightarrow> False)"
proof (cases "ab_malloc (req (unat n)) bs")
  case None
  have "n \<noteq> 0" using assms(2) by auto
  from malloc_none [OF assms(1,3) this None] show ?thesis using ab_malloc_None [OF None] by auto
next
  case (Some r)
  obtain p bs' where r: "r = (p, bs')" by (cases r)
  have "n \<noteq> 0" using assms(2) by auto
  then obtain h' where h': "lwip_mem_malloc n h = Inr (Some (p + 8), h')" "heap_inv h' bs'"
    using malloc_some [OF assms(1,3)] Some r by blast
  obtain xs ys where xs: "bs = xs @ (p, False) # ys" "p + 8 + req (unat n) \<le> start ys 1600"
      "bs' = xs @ taken (req (unat n)) p (start ys 1600) @ ys"
      "\<And>us q vs. xs = us @ (q, False) # vs \<Longrightarrow> start (vs @ [(p, False)]) 1600 < q + 8 + req (unat n)"
    using ab_malloc_split [OF Some [unfolded r]] by metis
  show ?thesis unfolding h'(1) sum.case prod.case option.case
    by (intro exI [of _ xs] exI [of _ p] exI [of _ ys] conjI allI impI) (use xs h'(2) in auto)
qed

theorem malloc_is_first_fit_witness:
  "\<exists>h h'. heap_inv h [(0, True), (20, False)] \<and> lwip_mem_malloc 100 h = Inr (Some 28, h')
     \<and> heap_inv h' [(0, True), (20, True), (128, False)]"
proof -
  obtain h where h: "heap_inv h [(0, True), (20, False)]" using demo_block by blast
  have [simp]: "req 100 = 100" by (simp add: req_def)
  show ?thesis using malloc_is_first_fit [OF h, of 100] h
    by (auto simp: Cons_eq_append_conv append_eq_Cons_conv split: sum.splits prod.splits option.splits)
qed

lemma malloc_then_free:
  assumes "heap_inv h bs" "lwip_mem_malloc n h = Inr (Some p, h1)"
  shows "\<exists>h2. lwip_mem_free (Some p) h1 = Inr ((), h2) \<and> heap_inv h2 bs \<and> lfree h2 = lfree h
    \<and> st_used (mem_st h2) = st_used (mem_st h)"
proof -
  have n: "n \<noteq> 0" "unat n \<le> 1600" using malloc_fails [of n h] assms(2) by (auto simp: not_less [symmetric])
  obtain b bs' where ab: "ab_malloc (req (unat n)) bs = Some (b, bs')"
    using malloc_none [OF assms(1) n(2,1)] assms(2) by (cases "ab_malloc (req (unat n)) bs") auto
  have inv1: "heap_inv h1 bs'" "p = b + 8" using malloc_some [OF assms(1) n(2,1) ab] assms(2) by auto
  obtain xs zs where "bs' = xs @ taken (req (unat n)) b (start zs 1600) @ zs" using ab_malloc_split [OF ab] by metis
  then obtain ys where "bs' = xs @ (b, True) # ys" by (auto split: if_splits)
  then obtain h2 where "lwip_mem_free (Some p) h1 = Inr ((), h2)" "heap_inv h2 (ab_free b bs')"
    using free_run [of h1 xs b ys] inv1 by auto
  moreover have "ab_free b bs' = bs"
    using free_undoes_malloc_list ab heap_invD(1,2) [OF inv1(1)] heap_invD(2) [OF assms(1)] by blast
  ultimately show ?thesis using assms(1) by (auto simp: heap_inv_def word_unat_eq_iff)
qed

text \<open>C34. A pointer that is released a second time is refused, also when its block has been joined with its neighbours: the
  call is counted as illegal and changes nothing else.\<close>

theorem double_free_refused:
  assumes "heap_run h L" "p \<in> dom L"
  shows "\<exists>h1. lwip_mem_free (Some p) h = Inr ((), h1)
    \<and> lwip_mem_free (Some p) h1 = Inr ((), mem_st_update (st_illegal_update (\<lambda>n. n + 1)) h1)"
proof -
  obtain bs where inv: "heap_inv h bs" and own: "owns L (set (used_blocks bs 1600))"
    using heap_run_owned [OF assms(1)] by (auto simp: heap_owned_def)
  obtain k where "L p = Some k" using assms(2) by auto
  then obtain xs b ys where bs: "bs = xs @ (b, True) # ys" "p = b + 8" using owns_block [OF inv own] by metis
  obtain h1 where h1: "lwip_mem_free (Some (b + 8)) h = Inr ((), h1)" "ram_heap h1 (b + 4) = 0"
    using free_run [of h xs b ys] inv bs by auto
  moreover have "4 dvd b" "b + 20 \<le> 1600" using hdr(4-6) [of "ram_heap h" xs b True ys] heap_invD(1) [OF inv] bs by auto
  then have "lwip_mem_free (Some (b + 8)) h1 = Inr ((), mem_st_update (st_illegal_update (\<lambda>n. n + 1)) h1)"
    using h1(2) by (auto simp: lwip_mem_free_def act_bind_def)
  ultimately show ?thesis using bs(2) by auto
qed

theorem double_free_refused_witness:
  "\<exists>h h1. heap_run h [8 \<mapsto> 5] \<and> lwip_mem_free (Some 8) h = Inr ((), h1)
     \<and> lwip_mem_free (Some 8) h1 = Inr ((), mem_st_update (st_illegal_update (\<lambda>n. n + 1)) h1)"
proof -
  obtain h where h: "heap_run h [8 \<mapsto> 5]" using demo_block by blast
  then show ?thesis using double_free_refused [OF h, of 8] by auto
qed

end
