(* ===== verification/Lwip_RamPbuf.thy ===== *)
theory Lwip_RamPbuf
  imports Lwip_MemProps Lwip_PbufProps
begin

text \<open>Packet buffers on the heap of lwIP: the parameter \<^typ>\<open>'h mem_env\<close> of the packet buffers filled with mem.c.\<close>

section \<open>Buffers of type PBUF_RAM\<close>

lemma ram_lengths:
  fixes layer l :: u16
  assumes "unat layer \<le> 54"
    and ok: "\<not> ucast (ucast (LWIP_MEM_ALIGN_SIZE (ucast layer) + LWIP_MEM_ALIGN_SIZE (ucast l)) :: u16) < LWIP_MEM_ALIGN_SIZE (ucast l)"
  shows "unat (LWIP_MEM_ALIGN_SIZE (ucast layer)) + unat l
    \<le> unat (ucast (LWIP_MEM_ALIGN_SIZE (ucast layer) + LWIP_MEM_ALIGN_SIZE (ucast l)) :: u16)"
proof -
  let ?a = "LWIP_MEM_ALIGN_SIZE (ucast layer)" and ?b = "LWIP_MEM_ALIGN_SIZE (ucast l)"
  have l: "unat l < 65536" by (rule unat_u16_bound)
  have a: "unat ?a = 4 * ((unat layer + 3) div 4)" "unat ?a \<le> 56" using assms(1) by (simp_all add: align_4)
  have b: "unat ?b = 4 * ((unat l + 3) div 4)" "unat ?b \<le> 65536" "unat l \<le> unat ?b" using l by (simp_all add: align_4 del: unat_u16_bound)
  have "unat (ucast (?a + ?b) :: u16) = (unat ?a + unat ?b) mod 65536"
    unfolding u32_as_u16 unat_of_nat_u16 using a(2) b(2) by (simp add: u32_add_small)
  moreover have "unat ?b \<le> unat (ucast (?a + ?b) :: u16)" using ok by (simp add: word_less_nat_alt)
  ultimately show ?thesis using a(2) b(2,3) by (cases "unat ?a + unat ?b < 65536") (auto simp: mod_if)
qed

lemma struct_pbuf_size: "unat (LWIP_MEM_ALIGN_SIZE SIZEOF_STRUCT_PBUF) = 16"
  by (simp add: LWIP_MEM_ALIGN_SIZE_def SIZEOF_STRUCT_PBUF_def)

lemma ram_alloc_run:
  assumes inv: "heap_inv (mem_heap s) bs"
    and al: "pbuf_alloc (heap_env custom pool) layer l PBUF_RAM s = Inr (Some p, s1)"
  obtains e n h1 b where "p = HeapPbuf e" "lwip_mem_malloc n (mem_heap s) = Inr (Some e, h1)"
    "s1 = s\<lparr>mem_heap := h1, pb_obj := (pb_obj s)(p \<mapsto> b)\<rparr>"
    "b = \<lparr>pb_next = None, pb_payload = Some (unat (LWIP_MEM_ALIGN_SIZE (ucast layer))), pb_tot_len = l, pb_len = l,
        pb_type_internal = ucast (pbuf_type_code PBUF_RAM), pb_flags = 0, pb_ref = 1, pb_if_idx = 0,
        pb_mem = map (\<lambda>k. ram_heap h1 (e + 16 + k)) [0..<unat (ucast (LWIP_MEM_ALIGN_SIZE (ucast layer) + LWIP_MEM_ALIGN_SIZE (ucast l)) :: u16)]\<rparr>"
    "\<not> ucast (ucast (LWIP_MEM_ALIGN_SIZE (ucast layer) + LWIP_MEM_ALIGN_SIZE (ucast l)) :: u16) < LWIP_MEM_ALIGN_SIZE (ucast l)"
  using al
  by (auto simp: pbuf_alloc_def heap_env_def in_heap_def act_bind_def act_return_def pbuf_init_alloced_pbuf_def fresh_mem_def act_gets_def struct_pbuf_size act_modify_def Let_def
      split: if_splits sum.splits prod.splits option.splits)

text \<open>C35. A packet buffer from the heap holds exactly the requested number of bytes, behind its structure and the room for its
  headers, inside the memory it got from the heap: they are the bytes that memory holds at that place, nothing clears them.
  Freeing it gives back its memory and leaves the list of blocks, the pools and all other buffers as they were.\<close>

theorem ram_packet_roundtrip:
  assumes "heap_inv (mem_heap s) bs" "unat layer \<le> 54"
    and "pbuf_alloc (heap_env custom pool) layer l PBUF_RAM s = Inr (Some p, s1)"
  shows "packet (pb_obj s1) (Some p) [p] \<and> (\<exists>e. p = HeapPbuf e \<and> chain_data (pb_obj s1) [p] =
      map (\<lambda>k. ram_heap (mem_heap s1) (e + 16 + unat (LWIP_MEM_ALIGN_SIZE (ucast layer)) + k)) [0..<unat l])
    \<and> (\<exists>s2. pbuf_free (heap_env custom pool) (Some p) s1 = Inr (1, s2) \<and> heap_inv (mem_heap s2) bs
        \<and> pb_obj s2 = (pb_obj s)(p := None) \<and> pool_PBUF_POOL s2 = pool_PBUF_POOL s \<and> pool_PBUF s2 = pool_PBUF s)"
proof -
  obtain e n h1 b where r: "p = HeapPbuf e" "lwip_mem_malloc n (mem_heap s) = Inr (Some e, h1)"
    "s1 = s\<lparr>mem_heap := h1, pb_obj := (pb_obj s)(p \<mapsto> b)\<rparr>"
    and b: "b = \<lparr>pb_next = None, pb_payload = Some (unat (LWIP_MEM_ALIGN_SIZE (ucast layer))), pb_tot_len = l, pb_len = l,
        pb_type_internal = ucast (pbuf_type_code PBUF_RAM), pb_flags = 0, pb_ref = 1, pb_if_idx = 0,
        pb_mem = map (\<lambda>k. ram_heap h1 (e + 16 + k)) [0..<unat (ucast (LWIP_MEM_ALIGN_SIZE (ucast layer) + LWIP_MEM_ALIGN_SIZE (ucast l)) :: u16)]\<rparr>"
    and ok: "\<not> ucast (ucast (LWIP_MEM_ALIGN_SIZE (ucast layer) + LWIP_MEM_ALIGN_SIZE (ucast l)) :: u16) < LWIP_MEM_ALIGN_SIZE (ucast l)"
    using ram_alloc_run [OF assms(1,3)] by metis
  note len = ram_lengths [OF assms(2) ok]
  obtain h2 where h2: "lwip_mem_free (Some e) h1 = Inr ((), h2)" "heap_inv h2 bs"
    using malloc_then_free [OF assms(1) r(2)] by auto
  have "packet (pb_obj s1) (Some p) [p]" using len by (simp add: packet_def r(3) b payload_ok_def blen_def)
  moreover have "chain_data (pb_obj s1) [p] =
      map (\<lambda>k. ram_heap (mem_heap s1) (e + 16 + unat (LWIP_MEM_ALIGN_SIZE (ucast layer)) + k)) [0..<unat l]"
    using len by (auto simp: chain_data_def bdata_def r(3) b payload_bytes_def intro!: nth_equalityI simp: ac_simps)
  moreover have "pbuf_free (heap_env custom pool) (Some p) s1 = Inr (1, s\<lparr>mem_heap := h2, pb_obj := (pb_obj s)(p := None)\<rparr>)"
  proof -
    have "pbuf_free_loop (heap_env custom pool) (Suc (Suc k)) (Some p) 0 s1 = Inr (1, s\<lparr>mem_heap := h2, pb_obj := (pb_obj s)(p := None)\<rparr>)" for k
      using h2(1) by (simp add: r b act_defs pbuf_dealloc_def pbuf_get_allocsrc_def pbuf_consts heap_env_def in_heap_def pb_drop_def)
    moreover have "chain_fuel = Suc (Suc (chain_fuel - 2))" by (simp add: chain_fuel_def)
    ultimately show ?thesis unfolding pbuf_free_def by metis
  qed
  ultimately show ?thesis using h2(2) r(1) by auto
qed

theorem ram_packet_roundtrip_witness:
  "\<exists>(s :: lwip_heap pbuf_sys) s1 s2. pbuf_alloc (heap_env (\<lambda>_. act_return ()) (\<lambda>_ _. 0xA5)) 14 100 PBUF_RAM s = Inr (Some (HeapPbuf 8), s1)
     \<and> length (chain_data (pb_obj s1) [HeapPbuf 8]) = 100
     \<and> pbuf_free (heap_env (\<lambda>_. act_return ()) (\<lambda>_ _. 0xA5)) (Some (HeapPbuf 8)) s1 = Inr (1, s2) \<and> heap_inv (mem_heap s2) [(0, False)]"
proof -
  obtain h where h: "heap_inv h [(0, False)]" using demo_heap by blast
  let ?s = "\<lparr>pb_obj = (\<lambda>_. None), pool_PBUF_POOL = demo_pool, pool_PBUF = demo_pool,
     pbuf_free_ooseq_pending = False, mem_heap = h\<rparr>"
  have "ab_malloc (req (unat (132 :: u16))) [(0, False)] = Some (0, [(0, True), (140, False)])" by (simp add: req_def)
  then obtain h1 where h1: "lwip_mem_malloc 132 h = Inr (Some 8, h1)" using malloc_some [OF h, of 132] by auto
  have "\<exists>s1. pbuf_alloc (heap_env (\<lambda>_. act_return ()) (\<lambda>_ _. 0xA5)) 14 100 PBUF_RAM ?s = Inr (Some (HeapPbuf 8), s1)"
    using h1 by (simp add: pbuf_alloc_def heap_env_def in_heap_def act_bind_def act_return_def pbuf_init_alloced_pbuf_def fresh_mem_def act_gets_def
        act_modify_def Let_def LWIP_MEM_ALIGN_SIZE_def SIZEOF_STRUCT_PBUF_def)
  then obtain s1 where s1: "pbuf_alloc (heap_env (\<lambda>_. act_return ()) (\<lambda>_ _. 0xA5)) 14 100 PBUF_RAM ?s = Inr (Some (HeapPbuf 8), s1)" by blast
  obtain s2 where "length (chain_data (pb_obj s1) [HeapPbuf 8]) = 100" "heap_inv (mem_heap s2) [(0, False)]"
    "pbuf_free (heap_env (\<lambda>_. act_return ()) (\<lambda>_ _. 0xA5)) (Some (HeapPbuf 8)) s1 = Inr (1, s2)"
    using ram_packet_roundtrip [OF _ _ s1, of "[(0, False)]"] h by auto
  with s1 show ?thesis by blast
qed

end
