(* ===== verification/Lwip_Timers.thy ===== *)
theory Lwip_Timers
  imports Lwip_Memp
begin

text \<open>
  The timers of the network stack (lib/lwip/src/core/timeouts.c) in the configuration of lwipopts.h: one list of
  timeouts, ordered by the time they are due, whose elements come from a memory pool.  The clock, the handlers of
  the protocols and the handlers of other clients are the record \<open>timer_env\<close>; they run on the rest of the stack, the
  state \<open>'x\<close>, and the clients' handlers on the timers as well.
\<close>

section \<open>Data\<close>

datatype sys_timeout_handler = Cyclic_timer | Tcp_timer | Client_timer nat

record sys_timeo =
  to_next :: "nat option"
  to_time :: u32
  to_h :: "sys_timeout_handler option"
  to_arg :: nat

record 'x timers =
  tm_obj :: "nat \<Rightarrow> sys_timeo option"
  next_timeout :: "nat option"
  current_timeout_due_time :: u32
  tcpip_tcp_timer_active :: bool
  pool_SYS_TIMEOUT :: memp_desc
  tm_stack :: 'x

record 'x timer_env =
  te_now :: "('x, u32) act"
  te_pcbs :: "'x \<Rightarrow> bool"
  te_tcp_tmr :: "('x, unit) act"
  te_ip_reass_tmr :: "('x, unit) act"
  te_etharp_tmr :: "('x, unit) act"
  te_free_ooseq :: "('x, unit) act"
  te_client :: "nat \<Rightarrow> nat \<Rightarrow> ('x timers, unit) act"

definition TCP_TMR_INTERVAL :: u32 where "TCP_TMR_INTERVAL = 250"
definition IP_TMR_INTERVAL :: u32 where "IP_TMR_INTERVAL = 1000"
definition ARP_TMR_INTERVAL :: u32 where "ARP_TMR_INTERVAL = 1000"
definition LWIP_MAX_TIMEOUT :: u32 where "LWIP_MAX_TIMEOUT = 0x7FFFFFFF"
definition SYS_TIMEOUTS_SLEEPTIME_INFINITE :: u32 where "SYS_TIMEOUTS_SLEEPTIME_INFINITE = 0xFFFFFFFF"

definition TIME_LESS_THAN :: "u32 \<Rightarrow> u32 \<Rightarrow> bool" where
  "TIME_LESS_THAN t compare_to \<longleftrightarrow> t - compare_to > LWIP_MAX_TIMEOUT"

definition lwip_cyclic_timers :: "'x timer_env \<Rightarrow> (u32 \<times> ('x, unit) act) list" where
  "lwip_cyclic_timers E =
     [(TCP_TMR_INTERVAL, te_tcp_tmr E), (IP_TMR_INTERVAL, te_ip_reass_tmr E), (ARP_TMR_INTERVAL, te_etharp_tmr E)]"

section \<open>Access\<close>

definition on_stack :: "('x, 'a) act \<Rightarrow> ('x timers, 'a) act" where
  "on_stack m s = (case m (tm_stack s) of Inl e \<Rightarrow> Inl e | Inr (r, x) \<Rightarrow> Inr (r, s\<lparr>tm_stack := x\<rparr>))"

definition tm_get :: "nat \<Rightarrow> ('x timers, sys_timeo) act" where
  "tm_get t s = (case tm_obj s t of None \<Rightarrow> Inl OutOfBounds | Some tt \<Rightarrow> Inr (tt, s))"

definition tm_modify :: "nat \<Rightarrow> (sys_timeo \<Rightarrow> sys_timeo) \<Rightarrow> ('x timers, unit) act" where
  "tm_modify t f s =
     (case tm_obj s t of None \<Rightarrow> Inl OutOfBounds | Some tt \<Rightarrow> Inr ((), s\<lparr>tm_obj := (tm_obj s)(t \<mapsto> f tt)\<rparr>))"

definition set_next_timeout :: "nat option \<Rightarrow> ('x timers, unit) act" where
  "set_next_timeout p = act_modify (next_timeout_update (\<lambda>_. p))"

definition memp_malloc_SYS_TIMEOUT :: "('x timers, nat option) act" where
  "memp_malloc_SYS_TIMEOUT s =
     (case do_memp_malloc_pool (pool_SYS_TIMEOUT s) of (e, d) \<Rightarrow> Inr (e, s\<lparr>pool_SYS_TIMEOUT := d\<rparr>))"

definition memp_free_SYS_TIMEOUT :: "nat \<Rightarrow> ('x timers, unit) act" where
  "memp_free_SYS_TIMEOUT t s =
     Inr ((), s\<lparr>tm_obj := (tm_obj s)(t := None), pool_SYS_TIMEOUT := do_memp_free_pool (pool_SYS_TIMEOUT s) t\<rparr>)"

text \<open>A walk over the list visits every element of the pool at most once.\<close>

definition tm_fuel :: "('x timers, nat) act" where
  "tm_fuel = act_gets (\<lambda>s. Suc (memp_num (pool_SYS_TIMEOUT s)))"

section \<open>Setting and deleting timeouts\<close>

fun insert_loop :: "nat \<Rightarrow> nat \<Rightarrow> u32 \<Rightarrow> nat option \<Rightarrow> ('x timers, unit) act" where
  "insert_loop 0 timeout abs_time t = act_fail NoReturn"
| "insert_loop (Suc fuel) timeout abs_time t =
     (case t of
        None \<Rightarrow> act_return ()
      | Some x \<Rightarrow>
          act_bind (tm_get x) (\<lambda>tx.
          act_bind (case to_next tx of
              None \<Rightarrow> act_return True
            | Some y \<Rightarrow> act_bind (tm_get y) (\<lambda>ty. act_return (TIME_LESS_THAN abs_time (to_time ty)))) (\<lambda>here.
          if here then
            act_bind (tm_modify timeout (to_next_update (\<lambda>_. to_next tx))) (\<lambda>_.
            tm_modify x (to_next_update (\<lambda>_. Some timeout)))
          else insert_loop fuel timeout abs_time (to_next tx))))"

definition sys_timeout_abs :: "u32 \<Rightarrow> sys_timeout_handler option \<Rightarrow> nat \<Rightarrow> ('x timers, unit) act" where
  "sys_timeout_abs abs_time handler arg =
     act_bind memp_malloc_SYS_TIMEOUT (\<lambda>timeout.
     case timeout of
       None \<Rightarrow> act_return ()
     | Some n \<Rightarrow>
         act_bind (act_modify (\<lambda>s. s\<lparr>tm_obj := (tm_obj s)(n \<mapsto>
           \<lparr>to_next = None, to_time = abs_time, to_h = handler, to_arg = arg\<rparr>)\<rparr>)) (\<lambda>_.
         act_bind (act_gets next_timeout) (\<lambda>first.
         case first of
           None \<Rightarrow> set_next_timeout (Some n)
         | Some f \<Rightarrow>
             act_bind (tm_get f) (\<lambda>tf.
             if TIME_LESS_THAN abs_time (to_time tf) then
               act_bind (tm_modify n (to_next_update (\<lambda>_. first))) (\<lambda>_. set_next_timeout (Some n))
             else act_bind tm_fuel (\<lambda>fuel. insert_loop fuel n abs_time first)))))"

definition sys_timeout :: "'x timer_env \<Rightarrow> u32 \<Rightarrow> sys_timeout_handler option \<Rightarrow> nat \<Rightarrow> ('x timers, unit) act" where
  "sys_timeout E msecs handler arg =
     act_bind (on_stack (te_now E)) (\<lambda>now. sys_timeout_abs (now + msecs) handler arg)"

fun untimeout_loop :: "nat \<Rightarrow> sys_timeout_handler option \<Rightarrow> nat \<Rightarrow> nat option \<Rightarrow> nat option \<Rightarrow> ('x timers, unit) act" where
  "untimeout_loop 0 handler arg prev_t t = act_fail NoReturn"
| "untimeout_loop (Suc fuel) handler arg prev_t t =
     (case t of
        None \<Rightarrow> act_return ()
      | Some x \<Rightarrow>
          act_bind (tm_get x) (\<lambda>tx.
          if to_h tx = handler \<and> to_arg tx = arg then
            act_bind (case prev_t of
                None \<Rightarrow> set_next_timeout (to_next tx)
              | Some y \<Rightarrow> tm_modify y (to_next_update (\<lambda>_. to_next tx))) (\<lambda>_.
            memp_free_SYS_TIMEOUT x)
          else untimeout_loop fuel handler arg t (to_next tx)))"

definition sys_untimeout :: "sys_timeout_handler option \<Rightarrow> nat \<Rightarrow> ('x timers, unit) act" where
  "sys_untimeout handler arg =
     act_bind (act_gets next_timeout) (\<lambda>first.
     if first = None then act_return ()
     else act_bind tm_fuel (\<lambda>fuel. untimeout_loop fuel handler arg None first))"

section \<open>The timers of the stack\<close>

definition lwip_cyclic_timer :: "'x timer_env \<Rightarrow> nat \<Rightarrow> ('x timers, unit) act" where
  "lwip_cyclic_timer E arg =
     act_bind (act_check OutOfBounds (arg < length (lwip_cyclic_timers E))) (\<lambda>_.
     let (interval_ms, handler) = lwip_cyclic_timers E ! arg in
     act_bind (on_stack handler) (\<lambda>_.
     act_bind (on_stack (te_now E)) (\<lambda>now.
     act_bind (act_gets current_timeout_due_time) (\<lambda>due.
     let next_timeout_time = due + interval_ms in
     if TIME_LESS_THAN next_timeout_time now then sys_timeout_abs (now + interval_ms) (Some Cyclic_timer) arg
     else sys_timeout_abs next_timeout_time (Some Cyclic_timer) arg))))"

definition tcpip_tcp_timer :: "'x timer_env \<Rightarrow> ('x timers, unit) act" where
  "tcpip_tcp_timer E =
     act_bind (on_stack (te_tcp_tmr E)) (\<lambda>_.
     act_bind (act_gets (\<lambda>s. te_pcbs E (tm_stack s))) (\<lambda>pcbs.
     if pcbs then sys_timeout E TCP_TMR_INTERVAL (Some Tcp_timer) 0
     else act_modify (tcpip_tcp_timer_active_update (\<lambda>_. False))))"

definition tcp_timer_needed :: "'x timer_env \<Rightarrow> ('x timers, unit) act" where
  "tcp_timer_needed E =
     act_bind (act_gets (\<lambda>s. \<not> tcpip_tcp_timer_active s \<and> te_pcbs E (tm_stack s))) (\<lambda>needed.
     if needed then
       act_bind (act_modify (tcpip_tcp_timer_active_update (\<lambda>_. True))) (\<lambda>_.
       sys_timeout E TCP_TMR_INTERVAL (Some Tcp_timer) 0)
     else act_return ())"

fun init_loop :: "'x timer_env \<Rightarrow> nat list \<Rightarrow> ('x timers, unit) act" where
  "init_loop E [] = act_return ()"
| "init_loop E (i # js) =
     act_bind (sys_timeout E (fst (lwip_cyclic_timers E ! i)) (Some Cyclic_timer) i) (\<lambda>_. init_loop E js)"

definition sys_timeouts_init :: "'x timer_env \<Rightarrow> ('x timers, unit) act" where
  "sys_timeouts_init E = init_loop E [1..<length (lwip_cyclic_timers E)]"

section \<open>Expiry\<close>

definition call_handler :: "'x timer_env \<Rightarrow> sys_timeout_handler option \<Rightarrow> nat \<Rightarrow> ('x timers, unit) act" where
  "call_handler E handler arg =
     (case handler of
        None \<Rightarrow> act_return ()
      | Some Cyclic_timer \<Rightarrow> lwip_cyclic_timer E arg
      | Some Tcp_timer \<Rightarrow> tcpip_tcp_timer E
      | Some (Client_timer k) \<Rightarrow> te_client E k arg)"

text \<open>The loop of \<^verbatim>\<open>sys_check_timeouts\<close>; a handler that sets a timeout of no length makes it run for ever.\<close>

fun check_loop :: "'x timer_env \<Rightarrow> nat \<Rightarrow> u32 \<Rightarrow> ('x timers, unit) act" where
  "check_loop E 0 now = act_fail NoReturn"
| "check_loop E (Suc fuel) now =
     act_bind (on_stack (te_free_ooseq E)) (\<lambda>_.
     act_bind (act_gets next_timeout) (\<lambda>tmptimeout.
     case tmptimeout of
       None \<Rightarrow> act_return ()
     | Some x \<Rightarrow>
         act_bind (tm_get x) (\<lambda>tx.
         if TIME_LESS_THAN now (to_time tx) then act_return ()
         else
           act_bind (set_next_timeout (to_next tx)) (\<lambda>_.
           act_bind (act_modify (current_timeout_due_time_update (\<lambda>_. to_time tx))) (\<lambda>_.
           act_bind (memp_free_SYS_TIMEOUT x) (\<lambda>_.
           act_bind (call_handler E (to_h tx) (to_arg tx)) (\<lambda>_.
           check_loop E fuel now)))))))"

definition sys_check_timeouts :: "'x timer_env \<Rightarrow> nat \<Rightarrow> ('x timers, unit) act" where
  "sys_check_timeouts E fuel = act_bind (on_stack (te_now E)) (\<lambda>now. check_loop E fuel now)"

fun restart_loop :: "nat \<Rightarrow> u32 \<Rightarrow> u32 \<Rightarrow> nat option \<Rightarrow> ('x timers, unit) act" where
  "restart_loop 0 base now t = act_fail NoReturn"
| "restart_loop (Suc fuel) base now t =
     (case t of
        None \<Rightarrow> act_return ()
      | Some x \<Rightarrow>
          act_bind (tm_modify x (to_time_update (\<lambda>time. time - base + now))) (\<lambda>_.
          act_bind (tm_get x) (\<lambda>tx. restart_loop fuel base now (to_next tx))))"

definition sys_restart_timeouts :: "'x timer_env \<Rightarrow> ('x timers, unit) act" where
  "sys_restart_timeouts E =
     act_bind (act_gets next_timeout) (\<lambda>first.
     case first of
       None \<Rightarrow> act_return ()
     | Some f \<Rightarrow>
         act_bind (on_stack (te_now E)) (\<lambda>now.
         act_bind (tm_get f) (\<lambda>tf.
         act_bind tm_fuel (\<lambda>fuel. restart_loop fuel (to_time tf) now first))))"

definition sys_timeouts_sleeptime :: "'x timer_env \<Rightarrow> ('x timers, u32) act" where
  "sys_timeouts_sleeptime E =
     act_bind (act_gets next_timeout) (\<lambda>first.
     case first of
       None \<Rightarrow> act_return SYS_TIMEOUTS_SLEEPTIME_INFINITE
     | Some f \<Rightarrow>
         act_bind (on_stack (te_now E)) (\<lambda>now.
         act_bind (tm_get f) (\<lambda>tf.
         if TIME_LESS_THAN (to_time tf) now then act_return 0 else act_return (to_time tf - now))))"

end
