(* ===== verification/Lwip_TimerList.thy ===== *)
theory Lwip_TimerList
  imports Lwip_Timers
begin

text \<open>
  The linked timeouts represent a list; setting, deleting and expiring timeouts are operations on that list.
\<close>

section \<open>The list of timeouts\<close>

datatype tmo = Tmo (tid: nat) (ttime: u32) (thandler: "sys_timeout_handler option") (targ: nat)

abbreviation tcell :: "tmo \<Rightarrow> nat option \<Rightarrow> sys_timeo" where
  "tcell t nx \<equiv> \<lparr>to_next = nx, to_time = ttime t, to_h = thandler t, to_arg = targ t\<rparr>"

fun tpath :: "(nat \<Rightarrow> sys_timeo option) \<Rightarrow> nat option \<Rightarrow> tmo list \<Rightarrow> bool" where
  "tpath m p [] \<longleftrightarrow> p = None"
| "tpath m p (t # ts) \<longleftrightarrow> p = Some (tid t) \<and> (\<exists>nx. m (tid t) = Some (tcell t nx) \<and> tpath m nx ts)"

abbreviation ids :: "tmo list \<Rightarrow> nat set" where "ids ts \<equiv> tid ` set ts"

lemma tpath_frame: "(\<And>i. i \<in> ids ts \<Longrightarrow> m' i = m i) \<Longrightarrow> tpath m' p ts = tpath m p ts"
  by (induction ts arbitrary: p) auto

lemma tpath_upd [simp]: "n \<notin> ids ts \<Longrightarrow> tpath (m(n := x)) p ts = tpath m p ts"
  by (rule tpath_frame) auto

text \<open>The list is in memory, its elements are distinct and in use, and all others are free.\<close>

definition timers_inv :: "'x timers \<Rightarrow> tmo list \<Rightarrow> bool" where
  "timers_inv s ts \<longleftrightarrow> tpath (tm_obj s) (next_timeout s) ts \<and> distinct (map tid ts)
     \<and> ids ts \<subseteq> {..<memp_num (pool_SYS_TIMEOUT s)}
     \<and> memp_avail (pool_SYS_TIMEOUT s) ({..<memp_num (pool_SYS_TIMEOUT s)} - ids ts)"

text \<open>What the operations on the list leave alone.\<close>

definition timers_rest :: "'x timers \<Rightarrow> 'x timers \<Rightarrow> bool" where
  "timers_rest s s' \<longleftrightarrow> tm_stack s' = tm_stack s \<and> current_timeout_due_time s' = current_timeout_due_time s
     \<and> tcpip_tcp_timer_active s' = tcpip_tcp_timer_active s \<and> memp_num (pool_SYS_TIMEOUT s') = memp_num (pool_SYS_TIMEOUT s)"

lemma timers_inv_length:
  assumes "timers_inv s ts"
  shows "length ts \<le> memp_num (pool_SYS_TIMEOUT s)"
proof -
  have "length ts = card (ids ts)" using assms distinct_card [of "map tid ts"] by (simp add: timers_inv_def)
  also have "\<dots> \<le> card {..<memp_num (pool_SYS_TIMEOUT s)}" using assms by (intro card_mono) (auto simp: timers_inv_def)
  finally show ?thesis by simp
qed

section \<open>Setting a timeout\<close>

fun ab_insert :: "tmo \<Rightarrow> tmo list \<Rightarrow> tmo list" where
  "ab_insert e [] = [e]"
| "ab_insert e (t # ts) = (if TIME_LESS_THAN (ttime e) (ttime t) then e # t # ts else t # ab_insert e ts)"

lemma set_ab_insert [simp]: "set (ab_insert e ts) = insert e (set ts)"
  by (induction ts) auto

lemma mset_ab_insert [simp]: "mset (ab_insert e ts) = add_mset e (mset ts)"
  by (induction ts) auto

lemma distinct_ab_insert: "distinct (map tid (ab_insert e ts)) \<longleftrightarrow> tid e \<notin> ids ts \<and> distinct (map tid ts)"
  by (induction ts) auto

lemma insert_loop_run:
  assumes "tpath (tm_obj s) (Some (tid a)) (a # ts)" "distinct (map tid (a # ts))" "tid e \<notin> ids (a # ts)"
    and "tm_obj s (tid e) = Some (tcell e nn)" "length ts < fuel"
  shows "\<exists>m'. insert_loop fuel (tid e) (ttime e) (Some (tid a)) s = Inr ((), s\<lparr>tm_obj := m'\<rparr>)
    \<and> tpath m' (Some (tid a)) (a # ab_insert e ts) \<and> (\<forall>i. i \<notin> insert (tid e) (ids (a # ts)) \<longrightarrow> m' i = tm_obj s i)"
  using assms
proof (induction ts arbitrary: a fuel)
  case Nil
  obtain f where f: "fuel = Suc f" using Nil.prems(5) by (cases fuel) auto
  show ?case using Nil.prems f
    by (auto simp: act_bind_def act_return_def tm_get_def tm_modify_def)
next
  case (Cons b ts)
  obtain f where f: "fuel = Suc f" "length ts < f" using Cons.prems(5) by (cases fuel) auto
  have a: "tm_obj s (tid a) = Some (tcell a (Some (tid b)))" and b: "tpath (tm_obj s) (Some (tid b)) (b # ts)"
    using Cons.prems(1) by auto
  then obtain nx where nx: "tm_obj s (tid b) = Some (tcell b nx)" by auto
  show ?case
  proof (cases "TIME_LESS_THAN (ttime e) (ttime b)")
    case True
    let ?m = "(tm_obj s)(tid e \<mapsto> tcell e (Some (tid b)), tid a \<mapsto> tcell a (Some (tid e)))"
    have "insert_loop fuel (tid e) (ttime e) (Some (tid a)) s = Inr ((), s\<lparr>tm_obj := ?m\<rparr>)"
      using True a nx f Cons.prems(3,4) by (auto simp: act_bind_def act_return_def tm_get_def tm_modify_def)
    moreover have "tpath ?m (Some (tid a)) (a # ab_insert e (b # ts))" using True b Cons.prems(2,3) by auto
    moreover have "\<forall>i. i \<notin> insert (tid e) (ids (a # b # ts)) \<longrightarrow> ?m i = tm_obj s i" by auto
    ultimately show ?thesis by blast
  next
    case False
    from Cons.IH [OF b _ _ Cons.prems(4) f(2)] Cons.prems(2,3)
    obtain m' where m': "insert_loop f (tid e) (ttime e) (Some (tid b)) s = Inr ((), s\<lparr>tm_obj := m'\<rparr>)"
        "tpath m' (Some (tid b)) (b # ab_insert e ts)" "\<forall>i. i \<notin> insert (tid e) (ids (b # ts)) \<longrightarrow> m' i = tm_obj s i" by auto
    have "m' (tid a) = tm_obj s (tid a)" using m'(3) Cons.prems(2,3) by auto
    then have "tpath m' (Some (tid a)) (a # ab_insert e (b # ts))" using m'(2) a False by auto
    moreover have "insert_loop fuel (tid e) (ttime e) (Some (tid a)) s = Inr ((), s\<lparr>tm_obj := m'\<rparr>)"
      using m'(1) a nx f False by (simp add: act_bind_def act_return_def tm_get_def)
    ultimately show ?thesis using m'(3) by auto
  qed
qed

declare insert_loop.simps [simp del]

lemma sys_timeout_abs_run:
  assumes inv: "timers_inv s ts"
  shows "\<exists>s'. sys_timeout_abs time h arg s = Inr ((), s') \<and> timers_rest s s'
    \<and> (if length ts = memp_num (pool_SYS_TIMEOUT s) then timers_inv s' ts
       else \<exists>n. n \<notin> ids ts \<and> timers_inv s' (ab_insert (Tmo n time h arg) ts))"
proof -
  let ?d = "pool_SYS_TIMEOUT s" and ?N = "{..<memp_num (pool_SYS_TIMEOUT s)}"
  have I: "tpath (tm_obj s) (next_timeout s) ts" "distinct (map tid ts)" "ids ts \<subseteq> ?N" "memp_avail ?d (?N - ids ts)"
    using inv by (auto simp: timers_inv_def)
  have card: "card (ids ts) = length ts" using I(2) distinct_card [of "map tid ts"] by simp
  show ?thesis
    using I(4)
  proof (cases rule: memp.malloc_cases)
    case (1 d')
    then have "ids ts = ?N" using I(3) by auto
    then have "length ts = memp_num ?d" using card by simp
    moreover have "sys_timeout_abs time h arg s = Inr ((), s\<lparr>pool_SYS_TIMEOUT := d'\<rparr>)"
      using 1 by (simp add: sys_timeout_abs_def memp_malloc_SYS_TIMEOUT_def act_bind_def act_return_def)
    moreover have "timers_inv (s\<lparr>pool_SYS_TIMEOUT := d'\<rparr>) ts" using inv 1 \<open>ids ts = ?N\<close> by (simp add: timers_inv_def)
    ultimately show ?thesis using 1 by (simp add: timers_rest_def)
  next
    case (2 n d')
    let ?e = "Tmo n time h arg" and ?s1 = "s\<lparr>pool_SYS_TIMEOUT := d', tm_obj := (tm_obj s)(n \<mapsto> tcell (Tmo n time h arg) None)\<rparr>"
    have n: "n \<notin> ids ts" "n < memp_num ?d" using 2(2,3) by auto
    have "\<exists>s'. sys_timeout_abs time h arg s = Inr ((), s') \<and> tpath (tm_obj s') (next_timeout s') (ab_insert ?e ts)
        \<and> pool_SYS_TIMEOUT s' = d' \<and> timers_rest ?s1 s'"
    proof (cases ts)
      case Nil
      then show ?thesis using I(1) 2(1)
        by (simp add: sys_timeout_abs_def memp_malloc_SYS_TIMEOUT_def act_bind_def act_modify_def act_gets_def set_next_timeout_def
            timers_rest_def)
    next
      case (Cons f ts')
      have f: "next_timeout s = Some (tid f)" "tid f \<noteq> n" and tp: "tpath (tm_obj ?s1) (Some (tid f)) (f # ts')"
        using I(1) n Cons by auto
      then obtain nx where nx: "tm_obj ?s1 (tid f) = Some (tcell f nx)" by auto
      have pre: "sys_timeout_abs time h arg s = (if TIME_LESS_THAN time (ttime f)
          then act_bind (tm_modify n (to_next_update (\<lambda>_. Some (tid f)))) (\<lambda>_. set_next_timeout (Some n)) ?s1
          else insert_loop (Suc (memp_num ?d)) n time (Some (tid f)) ?s1)"
        using f nx 2(1,5) by (simp add: sys_timeout_abs_def memp_malloc_SYS_TIMEOUT_def act_bind_def act_modify_def act_gets_def
            tm_get_def tm_fuel_def)
      show ?thesis
      proof (cases "TIME_LESS_THAN time (ttime f)")
        case True
        then show ?thesis unfolding pre using tp n Cons
          by (auto simp: act_bind_def tm_modify_def set_next_timeout_def act_modify_def timers_rest_def)
      next
        case False
        have "length ts' < Suc (memp_num ?d)" using timers_inv_length [OF inv] Cons by simp
        with insert_loop_run [OF tp, of ?e None "Suc (memp_num ?d)"] I(2) n Cons obtain m' where
            "insert_loop (Suc (memp_num ?d)) n time (Some (tid f)) ?s1 = Inr ((), ?s1\<lparr>tm_obj := m'\<rparr>)"
            "tpath m' (Some (tid f)) (f # ab_insert ?e ts')" by auto
        then show ?thesis unfolding pre using False Cons f(1) by (auto simp: timers_rest_def)
      qed
    qed
    then obtain s' where s': "sys_timeout_abs time h arg s = Inr ((), s')" "tpath (tm_obj s') (next_timeout s') (ab_insert ?e ts)"
        "pool_SYS_TIMEOUT s' = d'" "timers_rest ?s1 s'" by blast
    have "?N - ids ts - {n} = ?N - ids (ab_insert ?e ts)" by auto
    then have "timers_inv s' (ab_insert ?e ts)"
      using s'(2,3) 2(4,5) I(2,3) n by (simp add: timers_inv_def distinct_ab_insert)
    moreover have "length ts \<noteq> memp_num ?d"
      using card n I(3) card_subset_eq [of ?N "ids ts"] by auto
    moreover have "timers_rest s s'" using s'(4) 2(5) by (simp add: timers_rest_def)
    ultimately show ?thesis using s'(1) n(1) by auto
  qed
qed

section \<open>Deleting a timeout\<close>

fun ab_remove :: "sys_timeout_handler option \<Rightarrow> nat \<Rightarrow> tmo list \<Rightarrow> tmo list" where
  "ab_remove h a [] = []"
| "ab_remove h a (t # ts) = (if thandler t = h \<and> targ t = a then ts else t # ab_remove h a ts)"

fun found :: "sys_timeout_handler option \<Rightarrow> nat \<Rightarrow> tmo list \<Rightarrow> tmo option" where
  "found h a [] = None"
| "found h a (t # ts) = (if thandler t = h \<and> targ t = a then Some t else found h a ts)"

lemma found_mem: "found h a ts = Some t \<Longrightarrow> t \<in> set ts"
  by (induction ts) (auto split: if_splits)

definition give_back :: "tmo option \<Rightarrow> memp_desc \<Rightarrow> memp_desc" where
  "give_back r d = (case r of None \<Rightarrow> d | Some t \<Rightarrow> do_memp_free_pool d (tid t))"

lemma ids_ab_remove:
  assumes "distinct (map tid ts)"
  shows "ids (ab_remove h a ts) = ids ts - (case found h a ts of None \<Rightarrow> {} | Some t \<Rightarrow> {tid t})"
    and "distinct (map tid (ab_remove h a ts))"
proof -
  show s: "ids (ab_remove h a ts) = ids ts - (case found h a ts of None \<Rightarrow> {} | Some t \<Rightarrow> {tid t})"
    using assms
  proof (induction ts)
    case (Cons t ts)
    then show ?case using found_mem [of h a ts] by (auto split: option.splits)
  qed simp
  have "set (ab_remove h a ts) \<subseteq> set ts" for ts by (induction ts) auto
  then show "distinct (map tid (ab_remove h a ts))" using assms by (induction ts) fastforce+
qed

lemma untimeout_loop_run:
  assumes "tpath (tm_obj s) (Some (tid a)) (a # ts)" "distinct (map tid (a # ts))" "tm_obj s (tid a) = Some (tcell a nx)"
    and "length ts < fuel"
  shows "\<exists>s'. untimeout_loop fuel h arg (Some (tid a)) nx s = Inr ((), s') \<and> tpath (tm_obj s') (Some (tid a)) (a # ab_remove h arg ts)
    \<and> (\<forall>i. i \<notin> ids (a # ts) \<longrightarrow> tm_obj s' i = tm_obj s i) \<and> next_timeout s' = next_timeout s
    \<and> pool_SYS_TIMEOUT s' = give_back (found h arg ts) (pool_SYS_TIMEOUT s)
    \<and> tm_stack s' = tm_stack s \<and> current_timeout_due_time s' = current_timeout_due_time s
    \<and> tcpip_tcp_timer_active s' = tcpip_tcp_timer_active s"
  using assms
proof (induction ts arbitrary: a nx fuel)
  case Nil
  then obtain f where "fuel = Suc f" by (cases fuel) auto
  then show ?case using Nil by (auto simp: act_return_def give_back_def)
next
  case (Cons b ts)
  obtain f where f: "fuel = Suc f" "length ts < f" using Cons.prems(4) by (cases fuel) auto
  have nx: "nx = Some (tid b)" and b: "tpath (tm_obj s) (Some (tid b)) (b # ts)" using Cons.prems(1,3) by auto
  then obtain ny where ny: "tm_obj s (tid b) = Some (tcell b ny)" "tpath (tm_obj s) ny ts" by auto
  show ?case
  proof (cases "thandler b = h \<and> targ b = arg")
    case True
    then show ?thesis using Cons.prems(2,3) nx ny f
      by (auto simp: act_bind_def tm_get_def tm_modify_def memp_free_SYS_TIMEOUT_def give_back_def)
  next
    case False
    from Cons.IH [OF b _ ny(1) f(2)] Cons.prems(2)
    obtain s' where s': "untimeout_loop f h arg (Some (tid b)) ny s = Inr ((), s')" "tpath (tm_obj s') (Some (tid b)) (b # ab_remove h arg ts)"
        "\<forall>i. i \<notin> ids (b # ts) \<longrightarrow> tm_obj s' i = tm_obj s i" "next_timeout s' = next_timeout s"
        "pool_SYS_TIMEOUT s' = give_back (found h arg ts) (pool_SYS_TIMEOUT s)"
        "tm_stack s' = tm_stack s" "current_timeout_due_time s' = current_timeout_due_time s"
        "tcpip_tcp_timer_active s' = tcpip_tcp_timer_active s" by auto
    have "tm_obj s' (tid a) = tm_obj s (tid a)" using s'(3) Cons.prems(2) by auto
    then have "tpath (tm_obj s') (Some (tid a)) (a # ab_remove h arg (b # ts))" using s'(2) Cons.prems(3) nx False by auto
    moreover have "untimeout_loop fuel h arg (Some (tid a)) nx s = Inr ((), s')"
      using s'(1) nx ny f False by (auto simp: act_bind_def tm_get_def)
    ultimately show ?thesis using s'(3-) False by auto
  qed
qed

declare untimeout_loop.simps [simp del]

lemma give_back_avail:
  assumes "memp_avail d ({..<memp_num d} - ids ts)" "ids ts \<subseteq> {..<memp_num d}" "distinct (map tid ts)"
  shows "memp_avail (give_back (found h a ts) d) ({..<memp_num d} - ids (ab_remove h a ts))
    \<and> memp_num (give_back (found h a ts) d) = memp_num d"
proof (cases "found h a ts")
  case None
  then show ?thesis using assms ids_ab_remove(1) [OF assms(3), of h a] by (simp add: give_back_def)
next
  case (Some t)
  then have t: "tid t \<in> ids ts" using found_mem by auto
  then have "{..<memp_num d} - ids (ab_remove h a ts) = insert (tid t) ({..<memp_num d} - ids ts)"
    using assms(2) ids_ab_remove(1) [OF assms(3), of h a] Some by auto
  then show ?thesis using memp.free_law [OF assms(1), of "tid t"] t assms(2) Some by (auto simp: give_back_def)
qed

lemma sys_untimeout_run:
  assumes inv: "timers_inv s ts"
  shows "\<exists>s'. sys_untimeout h arg s = Inr ((), s') \<and> timers_inv s' (ab_remove h arg ts) \<and> timers_rest s s'"
proof -
  have I: "tpath (tm_obj s) (next_timeout s) ts" "distinct (map tid ts)" using inv by (auto simp: timers_inv_def)
  note gb = give_back_avail [of "pool_SYS_TIMEOUT s" ts h arg]
  have "\<exists>s'. sys_untimeout h arg s = Inr ((), s') \<and> tpath (tm_obj s') (next_timeout s') (ab_remove h arg ts)
      \<and> pool_SYS_TIMEOUT s' = give_back (found h arg ts) (pool_SYS_TIMEOUT s)
      \<and> tm_stack s' = tm_stack s \<and> current_timeout_due_time s' = current_timeout_due_time s
      \<and> tcpip_tcp_timer_active s' = tcpip_tcp_timer_active s"
  proof (cases ts)
    case Nil
    then show ?thesis using I(1) by (simp add: sys_untimeout_def act_bind_def act_gets_def act_return_def give_back_def)
  next
    case (Cons a us)
    have tp: "tpath (tm_obj s) (Some (tid a)) (a # us)" "next_timeout s = Some (tid a)" using I(1) Cons by auto
    then obtain nx where nx: "tm_obj s (tid a) = Some (tcell a nx)" by auto
    have len: "length us < memp_num (pool_SYS_TIMEOUT s)" using timers_inv_length [OF inv] Cons by simp
    have pre: "sys_untimeout h arg s = (if thandler a = h \<and> targ a = arg
        then Inr ((), s\<lparr>next_timeout := nx, tm_obj := (tm_obj s)(tid a := None),
          pool_SYS_TIMEOUT := do_memp_free_pool (pool_SYS_TIMEOUT s) (tid a)\<rparr>)
        else untimeout_loop (memp_num (pool_SYS_TIMEOUT s)) h arg (Some (tid a)) nx s)"
      using tp(2) nx by (simp add: sys_untimeout_def act_bind_def act_gets_def tm_fuel_def untimeout_loop.simps tm_get_def
          set_next_timeout_def act_modify_def memp_free_SYS_TIMEOUT_def)
    show ?thesis
    proof (cases "thandler a = h \<and> targ a = arg")
      case True
      then show ?thesis unfolding pre using tp nx I(2) Cons by (auto simp: give_back_def)
    next
      case False
      have "distinct (map tid (a # us))" using I(2) Cons by simp
      from untimeout_loop_run [OF tp(1) this nx len, of h arg] show ?thesis unfolding pre using False Cons tp(2) by auto
    qed
  qed
  moreover have "ids (ab_remove h arg ts) \<subseteq> {..<memp_num (pool_SYS_TIMEOUT s)}"
    using ids_ab_remove(1) [OF I(2), of h arg] inv by (fastforce simp: timers_inv_def)
  ultimately show ?thesis using gb ids_ab_remove(2) [OF I(2), of h arg] inv by (auto simp: timers_inv_def timers_rest_def)
qed

section \<open>Order\<close>

text \<open>Times are compared modulo the range of the clock: in a window of half that range behind \<open>b\<close> the comparison is an order.\<close>

definition after :: "u32 \<Rightarrow> u32 \<Rightarrow> nat" where "after b x = unat (x - b)"

definition in_window :: "u32 \<Rightarrow> tmo list \<Rightarrow> bool" where
  "in_window b ts \<longleftrightarrow> (\<forall>t \<in> set ts. after b (ttime t) < 2 ^ 31)"

definition in_order :: "u32 \<Rightarrow> tmo list \<Rightarrow> bool" where
  "in_order b ts \<longleftrightarrow> in_window b ts \<and> sorted (map (\<lambda>t. after b (ttime t)) ts)"

lemma TIME_LESS_THAN_after:
  assumes "after b x < 2 ^ 31" "after b y < 2 ^ 31"
  shows "TIME_LESS_THAN x y \<longleftrightarrow> after b x < after b y"
proof -
  define u v where "u = x - b" and "v = y - b"
  have xy: "x - y = u - v" by (simp add: u_def v_def)
  have uv: "unat u < 2147483648" "unat v < 2147483648" using assms by (simp_all add: after_def u_def v_def)
  have "unat (u - v) = (if v \<le> u then unat u - unat v else unat u + 4294967296 - unat v)"
    by (auto simp: unat_sub_if' word_le_nat_alt)
  then have "u - v > LWIP_MAX_TIMEOUT \<longleftrightarrow> \<not> v \<le> u"
    using uv by (auto simp: word_less_nat_alt LWIP_MAX_TIMEOUT_def word_le_nat_alt)
  then show ?thesis by (simp add: TIME_LESS_THAN_def xy after_def word_le_nat_alt flip: u_def v_def) linarith
qed

lemma in_order_insert:
  assumes "in_order b ts" "after b (ttime e) < 2 ^ 31"
  shows "in_order b (ab_insert e ts)"
proof -
  have "sorted (map (\<lambda>t. after b (ttime t)) (ab_insert e ts))"
    using assms unfolding in_order_def in_window_def
  proof (induction ts)
    case (Cons t ts)
    then show ?case using TIME_LESS_THAN_after [of b "ttime e" "ttime t"] by (auto simp: not_less)
  qed simp
  then show ?thesis using assms by (auto simp: in_order_def in_window_def)
qed

text \<open>A new timeout comes behind all that are due at the same time or earlier.\<close>

lemma ab_insert_split:
  assumes "in_order b ts" "after b (ttime e) < 2 ^ 31"
  shows "\<exists>xs ys. ts = xs @ ys \<and> ab_insert e ts = xs @ e # ys \<and> (\<forall>t \<in> set xs. after b (ttime t) \<le> after b (ttime e))
    \<and> (\<forall>t \<in> set ys. after b (ttime e) < after b (ttime t))"
  using assms unfolding in_order_def in_window_def
proof (induction ts)
  case (Cons t ts)
  have lt: "TIME_LESS_THAN (ttime e) (ttime t) \<longleftrightarrow> after b (ttime e) < after b (ttime t)"
    using Cons.prems by (simp add: TIME_LESS_THAN_after)
  show ?case
  proof (cases "after b (ttime e) < after b (ttime t)")
    case True
    then have "\<forall>u \<in> set (t # ts). after b (ttime e) < after b (ttime u)" using Cons.prems by fastforce
    then show ?thesis using True lt by (intro exI [of _ "[]"] exI [of _ "t # ts"]) auto
  next
    case False
    obtain xs ys where "ts = xs @ ys" "ab_insert e ts = xs @ e # ys" "\<forall>t \<in> set xs. after b (ttime t) \<le> after b (ttime e)"
        "\<forall>t \<in> set ys. after b (ttime e) < after b (ttime t)" using Cons by auto
    then show ?thesis using False lt by (intro exI [of _ "t # xs"] exI [of _ ys]) auto
  qed
qed simp

lemma after_add:
  assumes "after b x + unat i < 2 ^ 32"
  shows "after b (x + i) = after b x + unat i"
proof -
  define u where "u = x - b"
  then have e: "x + i - b = u + i" by simp
  have "unat u + unat i < 4294967296" using assms by (simp add: after_def u_def)
  then show ?thesis unfolding after_def e u_def [symmetric] by (simp add: unat_u32_add)
qed

section \<open>Expiry\<close>

lemma sys_timeout_abs_room:
  assumes "timers_inv s ts" "length ts < memp_num (pool_SYS_TIMEOUT s)"
  obtains n s' where "sys_timeout_abs time h arg s = Inr ((), s')" "timers_rest s s'" "timers_inv s' (ab_insert (Tmo n time h arg) ts)"
  using sys_timeout_abs_run [OF assms(1), of time h arg] assms(2) by auto

text \<open>The loop takes the first timeout off the list and gives its memory back before it calls the handler.\<close>

lemma check_step:
  assumes inv: "timers_inv s (t # ts)" and oo: "te_free_ooseq E (tm_stack s) = Inr ((), x1)" and due: "\<not> TIME_LESS_THAN now (ttime t)"
  obtains s1 where "check_loop E (Suc fuel) now s = act_bind (call_handler E (thandler t) (targ t)) (\<lambda>_. check_loop E fuel now) s1"
    "timers_inv s1 ts" "current_timeout_due_time s1 = ttime t" "tm_stack s1 = x1"
    "tcpip_tcp_timer_active s1 = tcpip_tcp_timer_active s" "length ts < memp_num (pool_SYS_TIMEOUT s1)"
proof -
  let ?d = "pool_SYS_TIMEOUT s"
  obtain nx where nx: "next_timeout s = Some (tid t)" "tm_obj s (tid t) = Some (tcell t nx)" "tpath (tm_obj s) nx ts"
    using inv by (auto simp: timers_inv_def)
  have I: "distinct (map tid (t # ts))" "ids (t # ts) \<subseteq> {..<memp_num ?d}" "memp_avail ?d ({..<memp_num ?d} - ids (t # ts))"
    using inv by (auto simp: timers_inv_def)
  let ?s1 = "s\<lparr>tm_stack := x1, next_timeout := nx, current_timeout_due_time := ttime t, tm_obj := (tm_obj s)(tid t := None),
    pool_SYS_TIMEOUT := do_memp_free_pool ?d (tid t)\<rparr>"
  have "insert (tid t) ({..<memp_num ?d} - ids (t # ts)) = {..<memp_num ?d} - ids ts" using I(1,2) by auto
  then have fr: "memp_avail (do_memp_free_pool ?d (tid t)) ({..<memp_num ?d} - ids ts)" "memp_num (do_memp_free_pool ?d (tid t)) = memp_num ?d"
    using memp.free_law [OF I(3), of "tid t"] I(2) by auto
  have "timers_inv ?s1 ts" using fr I(1,2) nx(3) by (simp add: timers_inv_def)
  moreover have "check_loop E (Suc fuel) now s = act_bind (call_handler E (thandler t) (targ t)) (\<lambda>_. check_loop E fuel now) ?s1"
    using nx oo due by (simp add: act_bind_def on_stack_def act_gets_def tm_get_def set_next_timeout_def act_modify_def memp_free_SYS_TIMEOUT_def)
  moreover have "length ts < memp_num ?d" using timers_inv_length [OF inv] by simp
  ultimately show ?thesis using that fr(2) by simp
qed

lemma check_end:
  assumes "timers_inv s ts" "te_free_ooseq E (tm_stack s) = Inr ((), x1)" "\<And>t us. ts = t # us \<Longrightarrow> TIME_LESS_THAN now (ttime t)"
  shows "check_loop E (Suc fuel) now s = Inr ((), s\<lparr>tm_stack := x1\<rparr>)"
  using assms by (cases ts) (auto simp: act_bind_def on_stack_def act_gets_def tm_get_def act_return_def timers_inv_def)

end
