(* ===== verification/Lwip_TimerProps.thy ===== *)
theory Lwip_TimerProps
  imports Lwip_TimerList
begin

text \<open>What the timers of the stack guarantee.\<close>

section \<open>The timers of the stack itself\<close>

definition own_timer :: "tmo \<Rightarrow> bool" where
  "own_timer t \<longleftrightarrow> thandler t = Some Cyclic_timer \<and> targ t < 3 \<or> thandler t = Some Tcp_timer \<and> targ t = 0"

definition cyclic :: "tmo list \<Rightarrow> nat multiset" where
  "cyclic ts = image_mset targ (filter_mset (\<lambda>t. thandler t = Some Cyclic_timer) (mset ts))"

definition tcp_timers :: "tmo list \<Rightarrow> nat" where
  "tcp_timers ts = size (filter_mset (\<lambda>t. thandler t = Some Tcp_timer) (mset ts))"

text \<open>
  The stack below the timers: its handlers return, and its clock, read any number of times, does not run backwards and
  stays in the first half of the window.
\<close>

definition timer_stack :: "'x timer_env \<Rightarrow> u32 \<Rightarrow> u32 \<Rightarrow> ('x \<Rightarrow> bool) \<Rightarrow> bool" where
  "timer_stack E b now P \<longleftrightarrow> (\<forall>x. P x \<longrightarrow>
     (\<exists>n x'. te_now E x = Inr (n, x') \<and> P x' \<and> after b now \<le> after b n \<and> after b n < 2 ^ 30)
     \<and> (\<exists>x'. te_tcp_tmr E x = Inr ((), x') \<and> P x') \<and> (\<exists>x'. te_ip_reass_tmr E x = Inr ((), x') \<and> P x')
     \<and> (\<exists>x'. te_etharp_tmr E x = Inr ((), x') \<and> P x') \<and> (\<exists>x'. te_free_ooseq E x = Inr ((), x') \<and> P x'))"

text \<open>How often a timeout may still expire in a call at the time \<open>now\<close>: a timer that is set to \<open>now\<close> again expires once more.\<close>

definition turns_left :: "u32 \<Rightarrow> u32 \<Rightarrow> tmo \<Rightarrow> nat" where
  "turns_left b now t = (if after b (ttime t) < after b now then 2 else if after b (ttime t) = after b now then 1 else 0)"

definition weights :: "u32 \<Rightarrow> u32 \<Rightarrow> tmo list \<Rightarrow> nat" where
  "weights b now ts = sum_mset (image_mset (turns_left b now) (mset ts))"

lemma insert_counts [simp]:
  "cyclic (ab_insert e ts) = (if thandler e = Some Cyclic_timer then add_mset (targ e) (cyclic ts) else cyclic ts)"
  "tcp_timers (ab_insert e ts) = (if thandler e = Some Tcp_timer then Suc (tcp_timers ts) else tcp_timers ts)"
  "weights b now (ab_insert e ts) = turns_left b now e + weights b now ts"
  by (simp_all add: cyclic_def tcp_timers_def weights_def)

lemma cons_counts [simp]:
  "cyclic (e # ts) = (if thandler e = Some Cyclic_timer then add_mset (targ e) (cyclic ts) else cyclic ts)"
  "tcp_timers (e # ts) = (if thandler e = Some Tcp_timer then Suc (tcp_timers ts) else tcp_timers ts)"
  "weights b now (e # ts) = turns_left b now e + weights b now ts"
  by (simp_all add: cyclic_def tcp_timers_def weights_def)

lemma cyclic_cases:
  assumes st: "timer_stack E b now P" and P: "P x" and arg: "arg < 3"
  obtains iv hd x' where "lwip_cyclic_timers E ! arg = (iv, hd)" "hd x = Inr ((), x')" "P x'" "0 < unat iv" "unat iv \<le> 1000"
proof -
  have "arg = 0 \<or> arg = 1 \<or> arg = 2" using arg by auto
  then show ?thesis
    using st P that unfolding timer_stack_def
    by (elim disjE) (auto simp: lwip_cyclic_timers_def TCP_TMR_INTERVAL_def IP_TMR_INTERVAL_def ARP_TMR_INTERVAL_def)
qed

lemma cyclic_run:
  assumes st: "timer_stack E b now P" and inv: "timers_inv s ts" and room: "length ts < memp_num (pool_SYS_TIMEOUT s)"
    and arg: "arg < 3" and P: "P (tm_stack s)" and due: "after b (current_timeout_due_time s) \<le> after b now"
    and now: "after b now < 2 ^ 30"
  shows "\<exists>s' e. lwip_cyclic_timer E arg s = Inr ((), s') \<and> timers_inv s' (ab_insert e ts) \<and> thandler e = Some Cyclic_timer
    \<and> targ e = arg \<and> after b (ttime e) < 2 ^ 31
    \<and> turns_left b now e < (if after b (current_timeout_due_time s) < after b now then 2 else 1)
    \<and> P (tm_stack s') \<and> tcpip_tcp_timer_active s' = tcpip_tcp_timer_active s"
proof -
  obtain iv hd x1 where iv: "lwip_cyclic_timers E ! arg = (iv, hd)" "hd (tm_stack s) = Inr ((), x1)" "P x1" "0 < unat iv" "unat iv \<le> 1000"
    using cyclic_cases [OF st P arg] by metis
  obtain n x2 where n: "te_now E x1 = Inr (n, x2)" "P x2" "after b now \<le> after b n" "after b n < 2 ^ 30"
    using st iv(3) unfolding timer_stack_def by blast
  let ?due = "current_timeout_due_time s" and ?s2 = "s\<lparr>tm_stack := x2\<rparr>"
  let ?nt = "if TIME_LESS_THAN (?due + iv) n then n + iv else ?due + iv"
  have ad: "after b (?due + iv) = after b ?due + unat iv" "after b (n + iv) = after b n + unat iv"
    using due now n iv(5) by (simp_all add: after_add)
  have lt: "TIME_LESS_THAN (?due + iv) n \<longleftrightarrow> after b ?due + unat iv < after b n"
    using TIME_LESS_THAN_after [of b "?due + iv" n] ad due now n iv(5) by simp
  have nt: "after b ?nt < 2 ^ 31" "after b now \<le> after b ?nt" "after b ?due = after b now \<longrightarrow> after b now < after b ?nt"
    using ad lt due now n iv(4,5) by auto
  have "timers_inv ?s2 ts" "length ts < memp_num (pool_SYS_TIMEOUT ?s2)" using inv room by (simp_all add: timers_inv_def)
  then obtain m s' where s': "sys_timeout_abs ?nt (Some Cyclic_timer) arg ?s2 = Inr ((), s')" "timers_rest ?s2 s'"
      "timers_inv s' (ab_insert (Tmo m ?nt (Some Cyclic_timer) arg) ts)"
    using sys_timeout_abs_room by metis
  have "length (lwip_cyclic_timers E) = 3" by (simp add: lwip_cyclic_timers_def)
  then have "lwip_cyclic_timer E arg s = Inr ((), s')"
    using iv n s'(1) arg by (simp add: lwip_cyclic_timer_def act_bind_def on_stack_def act_check_def act_return_def act_gets_def split: if_splits)
  then show ?thesis using s' nt n(2) due
    by (intro exI [of _ s'] exI [of _ "Tmo m ?nt (Some Cyclic_timer) arg"]) (auto simp: turns_left_def timers_rest_def)
qed

text \<open>What is true between the calls: the list is in order, holds only timers of the stack, and the TCP timer once while it is on.\<close>

definition own_timers :: "u32 \<Rightarrow> ('x \<Rightarrow> bool) \<Rightarrow> 'x timers \<Rightarrow> tmo list \<Rightarrow> bool" where
  "own_timers b P s ts \<longleftrightarrow> timers_inv s ts \<and> in_order b ts \<and> (\<forall>t \<in> set ts. own_timer t) \<and> P (tm_stack s)
     \<and> tcp_timers ts = (if tcpip_tcp_timer_active s then 1 else 0)"

lemma set_own:
  assumes st: "timer_stack E b now P" and inv: "timers_inv s ts" and room: "length ts < memp_num (pool_SYS_TIMEOUT s)"
    and P: "P (tm_stack s)" and ms: "0 < unat msecs" "unat msecs \<le> 1000"
  shows "\<exists>s' e. sys_timeout E msecs h arg s = Inr ((), s') \<and> timers_inv s' (ab_insert e ts) \<and> thandler e = h \<and> targ e = arg
    \<and> after b (ttime e) < 2 ^ 31 \<and> turns_left b now e = 0 \<and> P (tm_stack s')
    \<and> tcpip_tcp_timer_active s' = tcpip_tcp_timer_active s \<and> memp_num (pool_SYS_TIMEOUT s') = memp_num (pool_SYS_TIMEOUT s)"
proof -
  obtain n x where n: "te_now E (tm_stack s) = Inr (n, x)" "P x" "after b now \<le> after b n" "after b n < 2 ^ 30"
    using st P unfolding timer_stack_def by blast
  let ?s1 = "s\<lparr>tm_stack := x\<rparr>" and ?nt = "n + msecs"
  have nt: "after b ?nt = after b n + unat msecs" using n(4) ms by (simp add: after_add)
  have "timers_inv ?s1 ts" "length ts < memp_num (pool_SYS_TIMEOUT ?s1)" using inv room by (simp_all add: timers_inv_def)
  then obtain m s' where s': "sys_timeout_abs ?nt h arg ?s1 = Inr ((), s')" "timers_rest ?s1 s'" "timers_inv s' (ab_insert (Tmo m ?nt h arg) ts)"
    using sys_timeout_abs_room by metis
  have "sys_timeout E msecs h arg s = Inr ((), s')" using n(1) s'(1) by (simp add: sys_timeout_def act_bind_def on_stack_def)
  then show ?thesis using s'(2,3) n nt ms by (intro exI [of _ s'] exI [of _ "Tmo m ?nt h arg"]) (auto simp: timers_rest_def turns_left_def)
qed

lemma tcp_run:
  assumes st: "timer_stack E b now P" and inv: "timers_inv s ts" and room: "length ts < memp_num (pool_SYS_TIMEOUT s)"
    and P: "P (tm_stack s)" and act: "tcpip_tcp_timer_active s"
  shows "\<exists>s'. tcpip_tcp_timer E s = Inr ((), s') \<and> P (tm_stack s')
    \<and> (\<not> tcpip_tcp_timer_active s' \<and> timers_inv s' ts
       \<or> tcpip_tcp_timer_active s' \<and> (\<exists>e. timers_inv s' (ab_insert e ts) \<and> thandler e = Some Tcp_timer \<and> targ e = 0
           \<and> after b (ttime e) < 2 ^ 31 \<and> turns_left b now e = 0))"
proof -
  obtain x1 where x1: "te_tcp_tmr E (tm_stack s) = Inr ((), x1)" "P x1" using st P unfolding timer_stack_def by blast
  let ?s1 = "s\<lparr>tm_stack := x1\<rparr>"
  show ?thesis
  proof (cases "te_pcbs E x1")
    case False
    then show ?thesis using x1 inv
      by (auto simp: tcpip_tcp_timer_def act_bind_def on_stack_def act_gets_def act_modify_def timers_inv_def)
  next
    case True
    then have "tcpip_tcp_timer E s = sys_timeout E TCP_TMR_INTERVAL (Some Tcp_timer) 0 ?s1"
      using x1(1) by (simp add: tcpip_tcp_timer_def act_bind_def on_stack_def act_gets_def)
    moreover have "timers_inv ?s1 ts" using inv by (simp add: timers_inv_def)
    ultimately show ?thesis
      using set_own [OF st, of ?s1 ts TCP_TMR_INTERVAL "Some Tcp_timer" 0] room x1(2) act by (fastforce simp: TCP_TMR_INTERVAL_def)
  qed
qed

text \<open>Switching the TCP timer on, and the start of the timers.\<close>

lemma own_insert:
  assumes "own_timers b P s ts" "timers_inv s' (ab_insert e ts)" "own_timer e" "after b (ttime e) < 2 ^ 31" "P (tm_stack s')"
    and "tcp_timers (ab_insert e ts) = (if tcpip_tcp_timer_active s' then 1 else 0)"
  shows "own_timers b P s' (ab_insert e ts)"
  using assms in_order_insert [of b ts e] by (auto simp: own_timers_def)

lemma tcp_timer_needed_run:
  assumes st: "timer_stack E b now P" and own: "own_timers b P s ts" and room: "length ts < memp_num (pool_SYS_TIMEOUT s)"
  shows "\<exists>s' ts'. tcp_timer_needed E s = Inr ((), s') \<and> own_timers b P s' ts' \<and> cyclic ts' = cyclic ts
    \<and> (te_pcbs E (tm_stack s) \<longrightarrow> tcpip_tcp_timer_active s')"
proof (cases "\<not> tcpip_tcp_timer_active s \<and> te_pcbs E (tm_stack s)")
  case True
  let ?s1 = "s\<lparr>tcpip_tcp_timer_active := True\<rparr>"
  have I: "timers_inv ?s1 ts" "P (tm_stack ?s1)" "tcp_timers ts = 0" using own True by (auto simp: own_timers_def timers_inv_def)
  obtain s' e where s': "sys_timeout E TCP_TMR_INTERVAL (Some Tcp_timer) 0 ?s1 = Inr ((), s')" "timers_inv s' (ab_insert e ts)"
      "thandler e = Some Tcp_timer" "targ e = 0" "after b (ttime e) < 2 ^ 31" "P (tm_stack s')" "tcpip_tcp_timer_active s'"
    using set_own [OF st I(1) _ I(2), of TCP_TMR_INTERVAL "Some Tcp_timer" 0] room by (auto simp: TCP_TMR_INTERVAL_def)
  have "tcp_timer_needed E s = Inr ((), s')"
    using True s'(1) by (simp add: tcp_timer_needed_def act_bind_def act_gets_def act_modify_def)
  moreover have "own_timers b P s' (ab_insert e ts)"
    using own_insert [OF own s'(2) _ s'(5,6)] s'(3,4,7) I(3) by (simp add: own_timer_def)
  ultimately show ?thesis using s'(3,7) by auto
next
  case False
  then show ?thesis using own by (auto simp: tcp_timer_needed_def act_bind_def act_gets_def act_return_def)
qed

lemma sys_timeouts_init_run:
  assumes st: "timer_stack E b now P" and own: "own_timers b P s []" and room: "2 \<le> memp_num (pool_SYS_TIMEOUT s)"
  shows "\<exists>s' ts'. sys_timeouts_init E s = Inr ((), s') \<and> own_timers b P s' ts' \<and> cyclic ts' = {#1, 2#}"
proof -
  have I: "timers_inv s []" "P (tm_stack s)" "\<not> tcpip_tcp_timer_active s" using own by (auto simp: own_timers_def tcp_timers_def split: if_splits)
  obtain s1 e1 where s1: "sys_timeout E IP_TMR_INTERVAL (Some Cyclic_timer) 1 s = Inr ((), s1)" "timers_inv s1 (ab_insert e1 [])"
      "thandler e1 = Some Cyclic_timer" "targ e1 = 1" "after b (ttime e1) < 2 ^ 31" "P (tm_stack s1)" "\<not> tcpip_tcp_timer_active s1"
      "memp_num (pool_SYS_TIMEOUT s1) = memp_num (pool_SYS_TIMEOUT s)"
    using set_own [OF st I(1) _ I(2), of IP_TMR_INTERVAL "Some Cyclic_timer" 1] room I(3) by (auto simp: IP_TMR_INTERVAL_def)
  have own1: "own_timers b P s1 (ab_insert e1 [])"
    by (rule own_insert [OF own s1(2) _ s1(5,6)]) (use s1 in \<open>simp_all add: own_timer_def tcp_timers_def\<close>)
  have "length (ab_insert e1 []) < memp_num (pool_SYS_TIMEOUT s1)" using room s1(8) by simp
  from set_own [OF st s1(2) this s1(6), of ARP_TMR_INTERVAL "Some Cyclic_timer" 2] s1(7)
  obtain s2 e2 where s2: "sys_timeout E ARP_TMR_INTERVAL (Some Cyclic_timer) 2 s1 = Inr ((), s2)" "timers_inv s2 (ab_insert e2 (ab_insert e1 []))"
      "thandler e2 = Some Cyclic_timer" "targ e2 = 2" "after b (ttime e2) < 2 ^ 31" "P (tm_stack s2)" "\<not> tcpip_tcp_timer_active s2"
    by (auto simp: ARP_TMR_INTERVAL_def)
  have "own_timers b P s2 (ab_insert e2 (ab_insert e1 []))"
    by (rule own_insert [OF own1 s2(2) _ s2(5,6)]) (use s1 s2 in \<open>simp_all add: own_timer_def tcp_timers_def\<close>)
  moreover have "sys_timeouts_init E s = Inr ((), s2)"
    using s1(1) s2(1) by (simp add: sys_timeouts_init_def lwip_cyclic_timers_def act_bind_def act_return_def upt_rec numeral_2_eq_2)
  ultimately show ?thesis using s1(3,4) s2(3,4) by (auto simp: cyclic_def)
qed

text \<open>One turn of the loop.\<close>

lemma own_step:
  assumes st: "timer_stack E b now P" and own: "own_timers b P s (t # ts)" and due: "\<not> TIME_LESS_THAN now (ttime t)"
    and now: "after b now < 2 ^ 30"
  shows "\<exists>s' ts'. check_loop E (Suc fuel) now s = check_loop E fuel now s' \<and> own_timers b P s' ts'
    \<and> cyclic ts' = cyclic (t # ts) \<and> weights b now ts' < weights b now (t # ts)"
proof -
  have I: "timers_inv s (t # ts)" "in_order b (t # ts)" "own_timer t" "\<forall>t \<in> set ts. own_timer t" "P (tm_stack s)"
    "tcp_timers (t # ts) = (if tcpip_tcp_timer_active s then 1 else 0)" using own by (auto simp: own_timers_def)
  obtain x1 where x1: "te_free_ooseq E (tm_stack s) = Inr ((), x1)" "P x1" using st I(5) unfolding timer_stack_def by blast
  obtain s1 where s1: "check_loop E (Suc fuel) now s = act_bind (call_handler E (thandler t) (targ t)) (\<lambda>_. check_loop E fuel now) s1"
    "timers_inv s1 ts" "current_timeout_due_time s1 = ttime t" "tm_stack s1 = x1"
    "tcpip_tcp_timer_active s1 = tcpip_tcp_timer_active s" "length ts < memp_num (pool_SYS_TIMEOUT s1)"
    using check_step [OF I(1) x1(1) due] by metis
  have win: "after b (ttime t) < 2 ^ 31" and ord: "in_order b ts" using I(2) by (auto simp: in_order_def in_window_def)
  have dueb: "after b (ttime t) \<le> after b now" using due TIME_LESS_THAN_after [of b now "ttime t"] win now by simp
  show ?thesis
  proof (cases "thandler t = Some Cyclic_timer")
    case True
    then have "targ t < 3" using I(3) by (auto simp: own_timer_def)
    then obtain s' e where s': "lwip_cyclic_timer E (targ t) s1 = Inr ((), s')" "timers_inv s' (ab_insert e ts)"
        "thandler e = Some Cyclic_timer" "targ e = targ t" "after b (ttime e) < 2 ^ 31"
        "turns_left b now e < (if after b (ttime t) < after b now then 2 else 1)"
        "P (tm_stack s')" "tcpip_tcp_timer_active s' = tcpip_tcp_timer_active s1"
      using cyclic_run [OF st s1(2,6), of "targ t"] s1(3,4) x1(2) dueb now by auto
    have "own_timers b P s' (ab_insert e ts)"
      using s' in_order_insert [OF ord s'(5)] I(4,6) True s1(5) \<open>targ t < 3\<close> by (auto simp: own_timers_def own_timer_def)
    moreover have "check_loop E (Suc fuel) now s = check_loop E fuel now s'"
      using s1(1) s'(1) True by (simp add: call_handler_def act_bind_def)
    moreover have "turns_left b now e < turns_left b now t" using s'(6) dueb by (auto simp: turns_left_def split: if_splits)
    ultimately show ?thesis using s' True by (intro exI [of _ s'] exI [of _ "ab_insert e ts"]) simp
  next
    case False
    then have tcp: "thandler t = Some Tcp_timer" using I(3) by (auto simp: own_timer_def)
    then have act: "tcpip_tcp_timer_active s1" and none: "tcp_timers ts = 0" using I(6) s1(5) by (auto split: if_splits)
    obtain s' where s': "tcpip_tcp_timer E s1 = Inr ((), s')" "P (tm_stack s')"
      "\<not> tcpip_tcp_timer_active s' \<and> timers_inv s' ts
       \<or> tcpip_tcp_timer_active s' \<and> (\<exists>e. timers_inv s' (ab_insert e ts) \<and> thandler e = Some Tcp_timer \<and> targ e = 0
           \<and> after b (ttime e) < 2 ^ 31 \<and> turns_left b now e = 0)"
      using tcp_run [OF st s1(2,6) _ act] s1(4) x1(2) by auto
    have run: "check_loop E (Suc fuel) now s = check_loop E fuel now s'"
      using s1(1) s'(1) tcp by (simp add: call_handler_def act_bind_def)
    have w: "0 < turns_left b now t" using dueb by (simp add: turns_left_def)
    from s'(3) show ?thesis
    proof (elim disjE conjE exE)
      assume "\<not> tcpip_tcp_timer_active s'" "timers_inv s' ts"
      then have "own_timers b P s' ts" using ord I(4) none s'(2) by (simp add: own_timers_def)
      then show ?thesis using run w tcp by (intro exI [of _ s'] exI [of _ ts]) simp
    next
      fix e assume e: "tcpip_tcp_timer_active s'" "timers_inv s' (ab_insert e ts)" "thandler e = Some Tcp_timer" "targ e = 0"
          "after b (ttime e) < 2 ^ 31" "turns_left b now e = 0"
      then have "own_timers b P s' (ab_insert e ts)"
        using in_order_insert [OF ord e(5)] I(4) none s'(2) by (auto simp: own_timers_def own_timer_def)
      then show ?thesis using run w tcp e by (intro exI [of _ s'] exI [of _ "ab_insert e ts"]) simp
    qed
  qed
qed

lemma check_loop_run:
  assumes st: "timer_stack E b now P" and now: "after b now < 2 ^ 30" and own: "own_timers b P s ts" and fuel: "weights b now ts < fuel"
  shows "\<exists>s' ts'. check_loop E fuel now s = Inr ((), s') \<and> own_timers b P s' ts' \<and> cyclic ts' = cyclic ts
    \<and> (\<forall>t \<in> set ts'. after b now < after b (ttime t))"
  using own fuel
proof (induction fuel arbitrary: s ts)
  case (Suc fuel)
  show ?case
  proof (cases "\<exists>t us. ts = t # us \<and> \<not> TIME_LESS_THAN now (ttime t)")
    case True
    then obtain t us where ts: "ts = t # us" "\<not> TIME_LESS_THAN now (ttime t)" by auto
    obtain s1 ts1 where s1: "check_loop E (Suc fuel) now s = check_loop E fuel now s1" "own_timers b P s1 ts1"
        "cyclic ts1 = cyclic ts" "weights b now ts1 < weights b now ts"
      using own_step [OF st _ ts(2) now] Suc.prems(1) ts(1) by metis
    then have "weights b now ts1 < fuel" using Suc.prems(2) by simp
    from Suc.IH [OF s1(2) this] show ?thesis unfolding s1(1) using s1(3) by auto
  next
    case False
    have I: "timers_inv s ts" "in_order b ts" "P (tm_stack s)" using Suc.prems(1) by (auto simp: own_timers_def)
    obtain x1 where x1: "te_free_ooseq E (tm_stack s) = Inr ((), x1)" "P x1" using st I(3) unfolding timer_stack_def by blast
    have "check_loop E (Suc fuel) now s = Inr ((), s\<lparr>tm_stack := x1\<rparr>)" using check_end [OF I(1) x1(1)] False by blast
    moreover have "own_timers b P (s\<lparr>tm_stack := x1\<rparr>) ts" using Suc.prems(1) x1(2) by (simp add: own_timers_def timers_inv_def)
    moreover have "\<forall>t \<in> set ts. after b now < after b (ttime t)"
    proof (cases ts)
      case (Cons t us)
      then have "after b now < after b (ttime t)"
        using False TIME_LESS_THAN_after [of b now "ttime t"] now I(2) by (auto simp: in_order_def in_window_def)
      then show ?thesis using I(2) Cons by (fastforce simp: in_order_def)
    qed simp
    ultimately show ?thesis by blast
  qed
qed simp

section \<open>Rebasing and sleeping\<close>

definition rebase :: "u32 \<Rightarrow> u32 \<Rightarrow> tmo \<Rightarrow> tmo" where
  "rebase base now t = Tmo (tid t) (ttime t - base + now) (thandler t) (targ t)"

lemma rebase_sel [simp]: "tid (rebase base now t) = tid t" "ttime (rebase base now t) = ttime t - base + now"
    "thandler (rebase base now t) = thandler t" "targ (rebase base now t) = targ t"
  by (simp_all add: rebase_def)

lemma restart_loop_run:
  assumes "tpath (tm_obj s) p ts" "distinct (map tid ts)" "length ts < fuel"
  shows "\<exists>m'. restart_loop fuel base now p s = Inr ((), s\<lparr>tm_obj := m'\<rparr>) \<and> tpath m' p (map (rebase base now) ts)
    \<and> (\<forall>i. i \<notin> ids ts \<longrightarrow> m' i = tm_obj s i)"
  using assms
proof (induction ts arbitrary: p fuel s)
  case Nil
  then obtain f where "fuel = Suc f" by (cases fuel) auto
  then show ?case using Nil by (auto simp: act_return_def intro!: exI [of _ "tm_obj s"])
next
  case (Cons t ts)
  obtain f where f: "fuel = Suc f" "length ts < f" using Cons.prems(3) by (cases fuel) auto
  obtain nx where nx: "p = Some (tid t)" "tm_obj s (tid t) = Some (tcell t nx)" "tpath (tm_obj s) nx ts" using Cons.prems(1) by auto
  let ?s1 = "s\<lparr>tm_obj := (tm_obj s)(tid t \<mapsto> tcell (rebase base now t) nx)\<rparr>"
  have "tpath (tm_obj ?s1) nx ts" "distinct (map tid ts)" using nx(3) Cons.prems(2) by auto
  from Cons.IH [OF this f(2)] obtain m' where m': "restart_loop f base now nx ?s1 = Inr ((), ?s1\<lparr>tm_obj := m'\<rparr>)"
      "tpath m' nx (map (rebase base now) ts)" "\<forall>i. i \<notin> ids ts \<longrightarrow> m' i = tm_obj ?s1 i" by blast
  have "m' (tid t) = Some (tcell (rebase base now t) nx)" using m'(3) Cons.prems(2) by auto
  moreover have "restart_loop fuel base now p s = Inr ((), s\<lparr>tm_obj := m'\<rparr>)"
    using m'(1) nx f by (simp add: act_bind_def tm_modify_def tm_get_def)
  ultimately show ?case using m'(2,3) nx(1) by auto
qed

text \<open>After a long sleep all timeouts move by the same time: the first is due now, and their distances and order are kept.\<close>

lemma sys_restart_timeouts_run:
  assumes "timers_inv s (t # ts)" "in_order b (t # ts)" "te_now E (tm_stack s) = Inr (now, x)"
  shows "\<exists>s'. sys_restart_timeouts E s = Inr ((), s') \<and> timers_inv s' (map (rebase (ttime t) now) (t # ts))
    \<and> in_order (b - ttime t + now) (map (rebase (ttime t) now) (t # ts)) \<and> ttime (rebase (ttime t) now t) = now"
proof -
  have I: "tpath (tm_obj s) (next_timeout s) (t # ts)" "distinct (map tid (t # ts))" using assms(1) by (auto simp: timers_inv_def)
  then obtain nx where nx: "next_timeout s = Some (tid t)" "tm_obj s (tid t) = Some (tcell t nx)" by auto
  have "length (t # ts) < Suc (memp_num (pool_SYS_TIMEOUT s))" using timers_inv_length [OF assms(1)] by simp
  with restart_loop_run [of "s\<lparr>tm_stack := x\<rparr>" "next_timeout s" "t # ts" "Suc (memp_num (pool_SYS_TIMEOUT s))"] I
  obtain m' where m': "restart_loop (Suc (memp_num (pool_SYS_TIMEOUT s))) (ttime t) now (next_timeout s) (s\<lparr>tm_stack := x\<rparr>)
      = Inr ((), s\<lparr>tm_stack := x, tm_obj := m'\<rparr>)" "tpath m' (next_timeout s) (map (rebase (ttime t) now) (t # ts))" by fastforce
  have "sys_restart_timeouts E s = Inr ((), s\<lparr>tm_stack := x, tm_obj := m'\<rparr>)"
    using m'(1) nx assms(3) by (simp add: sys_restart_timeouts_def act_bind_def act_gets_def on_stack_def tm_get_def tm_fuel_def del: restart_loop.simps)
  moreover have ii: "ids (map (rebase (ttime t) now) us) = ids us" for us by (auto simp: image_image)
  have d: "distinct (map tid (map (rebase (ttime t) now) (t # ts)))" using I(2) by (simp add: comp_def)
  have "timers_inv (s\<lparr>tm_stack := x, tm_obj := m'\<rparr>) (map (rebase (ttime t) now) (t # ts))"
    unfolding timers_inv_def ii
    by (intro conjI d) (use m'(2) assms(1) in \<open>simp_all add: timers_inv_def\<close>)
  moreover have "after (b - ttime t + now) (ttime (rebase (ttime t) now u)) = after b (ttime u)" for u
    by (simp add: after_def)
  then have "in_order (b - ttime t + now) (map (rebase (ttime t) now) (t # ts))"
    using assms(2) by (simp add: in_order_def in_window_def comp_def del: rebase_sel)
  ultimately show ?thesis by auto
qed

lemma sys_timeouts_sleeptime_run:
  assumes "timers_inv s ts" "in_order b ts" "te_now E (tm_stack s) = Inr (now, x)" "after b now < 2 ^ 31"
  shows "\<exists>s' r. sys_timeouts_sleeptime E s = Inr (r, s')
    \<and> (case ts of [] \<Rightarrow> r = SYS_TIMEOUTS_SLEEPTIME_INFINITE | t # _ \<Rightarrow> unat r = after b (ttime t) - after b now)"
proof (cases ts)
  case Nil
  then show ?thesis using assms(1) by (simp add: timers_inv_def sys_timeouts_sleeptime_def act_bind_def act_gets_def act_return_def)
next
  case (Cons t us)
  obtain nx where nx: "next_timeout s = Some (tid t)" "tm_obj s (tid t) = Some (tcell t nx)"
    using assms(1) Cons by (auto simp: timers_inv_def)
  have t: "after b (ttime t) < 2 ^ 31" using assms(2) Cons by (simp add: in_order_def in_window_def)
  define u v where "u = ttime t - b" and "v = now - b"
  have uv: "ttime t - now = u - v" "after b (ttime t) = unat u" "after b now = unat v" by (simp_all add: u_def v_def after_def)
  have "unat (ttime t - now) = unat u - unat v" if "\<not> TIME_LESS_THAN (ttime t) now"
    using that TIME_LESS_THAN_after [OF t assms(4)] unfolding uv by (simp add: unat_sub word_le_nat_alt)
  moreover have "unat u - unat v = 0" if "TIME_LESS_THAN (ttime t) now"
    using that TIME_LESS_THAN_after [OF t assms(4)] unfolding uv by simp
  ultimately show ?thesis using nx assms(3) Cons
    by (auto simp: uv(2,3) sys_timeouts_sleeptime_def act_bind_def act_gets_def on_stack_def tm_get_def act_return_def)
qed

section \<open>Properties\<close>

lemma weights_bound: "weights b now ts \<le> 2 * length ts"
  by (induction ts) (auto simp: weights_def turns_left_def)

text \<open>C36. A call of \<^verbatim>\<open>sys_check_timeouts\<close> ends, with at most two turns for each timer of the stack, and then none of them is due:
  every cyclic timer is set again exactly once, the TCP timer exactly while there are connections, and the list stays ordered.  The
  clock may go on and wrap around meanwhile.\<close>

theorem sys_check_timeouts_ends:
  assumes "te_now E (tm_stack s) = Inr (now, x)" "P x" "timer_stack E b now P" "after b now < 2 ^ 30"
    and "own_timers b P s ts" "2 * length ts < fuel"
  shows "\<exists>s' ts'. sys_check_timeouts E fuel s = Inr ((), s') \<and> own_timers b P s' ts' \<and> cyclic ts' = cyclic ts
    \<and> (\<forall>t \<in> set ts'. after b now < after b (ttime t))"
proof -
  have "own_timers b P (s\<lparr>tm_stack := x\<rparr>) ts" using assms(2,5) by (simp add: own_timers_def timers_inv_def)
  moreover have "weights b now ts < fuel" using weights_bound [of b now ts] assms(6) by simp
  moreover have "sys_check_timeouts E fuel s = check_loop E fuel now (s\<lparr>tm_stack := x\<rparr>)"
    using assms(1) by (simp add: sys_check_timeouts_def act_bind_def on_stack_def)
  ultimately show ?thesis using check_loop_run [OF assms(3,4)] by presburger
qed

definition demo_timer_env :: "u32 timer_env" where
  "demo_timer_env = \<lparr>te_now = (\<lambda>x. Inr (x, x)), te_pcbs = (\<lambda>_. False), te_tcp_tmr = act_return (), te_ip_reass_tmr = act_return (),
     te_etharp_tmr = act_return (), te_free_ooseq = act_return (), te_client = (\<lambda>_ _. act_return ())\<rparr>"

definition demo_timers :: "u32 timers" where
  "demo_timers = \<lparr>tm_obj = (\<lambda>_. None), next_timeout = None, current_timeout_due_time = 0, tcpip_tcp_timer_active = False,
     pool_SYS_TIMEOUT = memp_init_pool \<lparr>memp_num = 3, memp_next = (\<lambda>_. None), memp_tab = None,
       memp_stats = \<lparr>st_err = 0, st_avail = 0, st_used = 0, st_max = 0\<rparr>\<rparr>, tm_stack = 1000\<rparr>"

lemma demo_timers_inv: "timers_inv demo_timers []" "memp_num (pool_SYS_TIMEOUT demo_timers) = 3"
proof -
  let ?d = "\<lparr>memp_num = 3, memp_next = (\<lambda>_. None), memp_tab = None, memp_stats = \<lparr>st_err = 0, st_avail = 0, st_used = 0, st_max = 0\<rparr>\<rparr>"
  have "memp_avail (memp_init_pool ?d) {..<3}" "memp_num (memp_init_pool ?d) = 3"
    using memp_init_free [of ?d] by (auto simp: memp_avail_def intro!: exI [of _ "rev [0..<3]"])
  then show "timers_inv demo_timers []" "memp_num (pool_SYS_TIMEOUT demo_timers) = 3" by (simp_all add: timers_inv_def demo_timers_def)
qed

lemma demo_stack: "timer_stack demo_timer_env 0 1000 (\<lambda>x. x = 1000)"
  by (simp add: timer_stack_def demo_timer_env_def act_return_def after_def)

lemma demo_one: "\<exists>n (s :: u32 timers). timers_inv s [Tmo n 1000 (Some Cyclic_timer) 2] \<and> timers_rest demo_timers s"
  using sys_timeout_abs_run [OF demo_timers_inv(1), of 1000 "Some Cyclic_timer" 2] demo_timers_inv(2) by auto

lemma demo_arp_timer:
  "\<exists>n (s :: u32 timers). own_timers 0 (\<lambda>x. x = 1000) s [Tmo n 1000 (Some Cyclic_timer) 2] \<and> tm_stack s = 1000"
proof -
  obtain n and s :: "u32 timers" where "timers_inv s [Tmo n 1000 (Some Cyclic_timer) 2]" "timers_rest demo_timers s"
    using demo_one by blast
  then show ?thesis
    by (auto simp: own_timers_def own_timer_def in_order_def in_window_def after_def timers_rest_def demo_timers_def tcp_timers_def)
qed

theorem sys_check_timeouts_ends_witness:
  "\<exists>(s :: u32 timers) s' ts'. sys_check_timeouts demo_timer_env 3 s = Inr ((), s') \<and> timers_inv s' ts' \<and> cyclic ts' = {#2#}
     \<and> (\<forall>t \<in> set ts'. 1000 < after 0 (ttime t))"
proof -
  obtain n and s :: "u32 timers" where s: "own_timers 0 (\<lambda>x. x = 1000) s [Tmo n 1000 (Some Cyclic_timer) 2]" "tm_stack s = 1000" using demo_arp_timer by blast
  have "te_now demo_timer_env (tm_stack s) = Inr (1000, 1000)" using s(2) by (simp add: demo_timer_env_def)
  from sys_check_timeouts_ends [OF this _ demo_stack _ s(1), of 3]
  obtain s' ts' where "sys_check_timeouts demo_timer_env 3 s = Inr ((), s')" "own_timers 0 (\<lambda>x. x = 1000) s' ts'"
      "cyclic ts' = cyclic [Tmo n 1000 (Some Cyclic_timer) 2]" "\<forall>t \<in> set ts'. after 0 1000 < after 0 (ttime t)"
    by (auto simp: after_def)
  then show ?thesis by (auto simp: own_timers_def cyclic_def after_def)
qed

text \<open>C37. A new timeout comes behind all that are due earlier or at the same time and before all that are due later, whatever the clock
  has wrapped around to; deleting it again restores the list, provided that no pending timeout has the same handler and argument.  When all
  elements of the pool are in use no timeout is set.\<close>

theorem sys_timeout_keeps_order:
  assumes "timers_inv s ts" "in_order b ts" "te_now E (tm_stack s) = Inr (now, x)" "after b (now + msecs) < 2 ^ 31"
    and "\<forall>t \<in> set ts. \<not> (thandler t = h \<and> targ t = arg)"
  shows "\<exists>s'. sys_timeout E msecs h arg s = Inr ((), s') \<and> tm_stack s' = x
    \<and> (if length ts = memp_num (pool_SYS_TIMEOUT s) then timers_inv s' ts
       else (\<exists>n xs ys. ts = xs @ ys \<and> timers_inv s' (xs @ Tmo n (now + msecs) h arg # ys)
         \<and> (\<forall>t \<in> set xs. after b (ttime t) \<le> after b (now + msecs)) \<and> (\<forall>t \<in> set ys. after b (now + msecs) < after b (ttime t)))
         \<and> (\<exists>s2. sys_untimeout h arg s' = Inr ((), s2) \<and> timers_inv s2 ts))"
proof -
  let ?s1 = "s\<lparr>tm_stack := x\<rparr>"
  have inv: "timers_inv ?s1 ts" using assms(1) by (simp add: timers_inv_def)
  obtain s' where s': "sys_timeout_abs (now + msecs) h arg ?s1 = Inr ((), s')" "timers_rest ?s1 s'"
      "if length ts = memp_num (pool_SYS_TIMEOUT s) then timers_inv s' ts
       else \<exists>n. n \<notin> ids ts \<and> timers_inv s' (ab_insert (Tmo n (now + msecs) h arg) ts)"
    using sys_timeout_abs_run [OF inv, of "now + msecs" h arg] by auto
  have run: "sys_timeout E msecs h arg s = Inr ((), s')" using s'(1) assms(3) by (simp add: sys_timeout_def act_bind_def on_stack_def)
  show ?thesis
  proof (cases "length ts = memp_num (pool_SYS_TIMEOUT s)")
    case True
    then show ?thesis using run s' by (auto simp: timers_rest_def)
  next
    case False
    then obtain n where n: "timers_inv s' (ab_insert (Tmo n (now + msecs) h arg) ts)" using s'(3) by auto
    let ?e = "Tmo n (now + msecs) h arg"
    have "after b (ttime ?e) < 2 ^ 31" using assms(4) by simp
    from ab_insert_split [OF assms(2) this] obtain xs ys where xs: "ts = xs @ ys" "ab_insert ?e ts = xs @ ?e # ys"
        "\<forall>t \<in> set xs. after b (ttime t) \<le> after b (now + msecs)" "\<forall>t \<in> set ys. after b (now + msecs) < after b (ttime t)" by auto
    have "ab_remove h arg (ab_insert ?e ts) = ts" using assms(5) by (induction ts) auto
    then have "\<exists>s2. sys_untimeout h arg s' = Inr ((), s2) \<and> timers_inv s2 ts" using sys_untimeout_run [OF n, of h arg] by auto
    then show ?thesis using False run s'(2) n xs by (auto simp: timers_rest_def)
  qed
qed

theorem sys_timeout_keeps_order_witness:
  "\<exists>(s :: u32 timers) s' n m. timers_inv s [Tmo n 1000 (Some Cyclic_timer) 2] \<and> sys_timeout demo_timer_env 0 (Some (Client_timer 1)) 7 s = Inr ((), s')
     \<and> timers_inv s' [Tmo n 1000 (Some Cyclic_timer) 2, Tmo m 1000 (Some (Client_timer 1)) 7]"
proof -
  obtain n and s :: "u32 timers" where s: "timers_inv s [Tmo n 1000 (Some Cyclic_timer) 2]" "timers_rest demo_timers s"
    using demo_one by blast
  have "tm_stack s = 1000" "memp_num (pool_SYS_TIMEOUT s) = 3"
    using s(2) demo_timers_inv(2) by (simp_all add: timers_rest_def demo_timers_def)
  then show ?thesis
    using sys_timeout_keeps_order [OF s(1), of 0 demo_timer_env 1000 1000 0 "Some (Client_timer 1)" 7] s(1)
    by (fastforce simp: in_order_def in_window_def after_def demo_timer_env_def Cons_eq_append_conv append_eq_Cons_conv)
qed

end
