(* ===== verification/Lwip_Ip4.thy ===== *)
theory Lwip_Ip4
  imports Lwip_Send Lwip_ChksumProps
begin

text \<open>
  The IPv4 layer (lib/lwip/src/core/ipv4/ip4.c, include/lwip/prot/ip4.h, include/lwip/ip.h): headers and output.  In
  the configuration of lwipopts.h there is one interface, no forwarding, no loopback and no header options on output,
  and the header checksum is summed up while the header is written.  The functions take the contents \<open>n\<close> of the
  interface.  Its output function, fragmentation, reassembly and the transport protocols are the record \<open>ip_env\<close>;
  \<open>ip_at\<close> gives the addresses of the buffers' memory.  Statistics and debug output are left out.
\<close>

section \<open>Data\<close>

definition IP_HLEN :: nat where "IP_HLEN = 20"
definition IP_MF :: u16 where "IP_MF = 0x2000"
definition IP_OFFMASK :: u16 where "IP_OFFMASK = 0x1FFF"
definition IP_PROTO_ICMP :: u8 where "IP_PROTO_ICMP = 1"
definition IP_PROTO_UDP :: u8 where "IP_PROTO_UDP = 17"
definition IP_PROTO_TCP :: u8 where "IP_PROTO_TCP = 6"
definition ICMP_TTL :: u8 where "ICMP_TTL = 255"

lemmas ip_consts = IP_HLEN_def IP_MF_def IP_OFFMASK_def IP_PROTO_ICMP_def IP_PROTO_UDP_def IP_PROTO_TCP_def ICMP_TTL_def

text \<open>A pointer into the memory of a buffer: the buffer and the offset.\<close>

type_synonym mptr = "pptr \<times> nat"

record ip_globals =
  current_netif :: bool
  current_input_netif :: bool
  current_ip4_header :: "mptr option"
  current_ip_header_tot_len :: u16
  current_iphdr_src :: ip4_addr_t
  current_iphdr_dest :: ip4_addr_t

record 'z ip_stack =
  ip_id :: u16
  ip_data :: ip_globals
  ip_rest :: 'z

type_synonym ('h, 'z, 'k) ifw = "('h, 'z ip_stack, 'k) afw"

record ('h, 'z, 'k) ip_env =
  ip_mem :: "'h mem_env"
  ip_at :: pbuf_addr
  ip_netif_output :: "pptr option \<Rightarrow> ip4_addr_t \<Rightarrow> (('h, 'z, 'k) ifw, err_t) act"
  ip4_frag :: "pptr option \<Rightarrow> netif \<Rightarrow> ip4_addr_t \<Rightarrow> (('h, 'z, 'k) ifw, err_t) act"
  ip4_reass :: "pptr option \<Rightarrow> (('h, 'z, 'k) ifw, pptr option) act"
  udp_input :: "pptr option \<Rightarrow> netif \<Rightarrow> (('h, 'z, 'k) ifw, unit) act"
  tcp_input :: "pptr option \<Rightarrow> netif \<Rightarrow> (('h, 'z, 'k) ifw, unit) act"

section \<open>Access\<close>

definition ip4 :: "('z ip_stack \<Rightarrow> 'a) \<Rightarrow> (('h, 'z, 'k) ifw, 'a) act" where
  "ip4 f = arp (\<lambda>a. f (stack_rest a))"

definition ip4_modify :: "('z ip_stack \<Rightarrow> 'z ip_stack) \<Rightarrow> (('h, 'z, 'k) ifw, unit) act" where
  "ip4_modify f = arp_modify (stack_rest_update f)"

definition set_ip_data :: "(ip_globals \<Rightarrow> ip_globals) \<Rightarrow> (('h, 'z, 'k) ifw, unit) act" where
  "set_ip_data f = ip4_modify (ip_data_update f)"

text \<open>The payload pointer of a buffer, and access through a pointer that was taken from one.\<close>

definition payload_ptr :: "pptr option \<Rightarrow> ('h pbuf_sys, mptr) act" where
  "payload_ptr p =
     act_bind (pb_get p) (\<lambda>b.
     case (p, pb_payload b) of (Some x, Some a) \<Rightarrow> act_return (x, a) | _ \<Rightarrow> act_fail NullDeref)"

definition mem_bytes :: "nat \<Rightarrow> nat \<Rightarrow> u8 list \<Rightarrow> u8 list" where
  "mem_bytes i n m = take n (drop i m)"

definition at_read :: "mptr \<Rightarrow> nat \<Rightarrow> nat \<Rightarrow> ('h pbuf_sys, u8 list) act" where
  "at_read q off n =
     act_bind (pb_get (Some (fst q))) (\<lambda>b.
     act_bind (act_check OutOfBounds (snd q + off + n \<le> length (pb_mem b))) (\<lambda>_.
     act_return (mem_bytes (snd q + off) n (pb_mem b))))"

definition at_write :: "mptr \<Rightarrow> nat \<Rightarrow> u8 list \<Rightarrow> ('h pbuf_sys, unit) act" where
  "at_write q off bs =
     act_bind (pb_get (Some (fst q))) (\<lambda>b.
     act_bind (act_check OutOfBounds (snd q + off + length bs \<le> length (pb_mem b))) (\<lambda>_.
     pb_modify (Some (fst q)) (pb_mem_update (mem_write (snd q + off) bs))))"

definition ptr_odd :: "pbuf_addr \<Rightarrow> mptr \<Rightarrow> bool" where
  "ptr_odd A q = odd (A (fst q) + snd q)"

section \<open>Headers\<close>

definition byte_at :: "u8 list \<Rightarrow> nat \<Rightarrow> u8" where "byte_at h i = h ! i"
definition half_at :: "u8 list \<Rightarrow> nat \<Rightarrow> u16" where "half_at h i = rd16 (\<lambda>j. h ! j) i"
definition word_at :: "u8 list \<Rightarrow> nat \<Rightarrow> u32" where "word_at h i = rd32 (\<lambda>j. h ! j) i"

definition IPH_V :: "u8 list \<Rightarrow> u8" where "IPH_V h = drop_bit 4 (byte_at h 0)"
definition IPH_HL :: "u8 list \<Rightarrow> u8" where "IPH_HL h = byte_at h 0 AND 0x0F"
definition IPH_HL_BYTES :: "u8 list \<Rightarrow> u8" where "IPH_HL_BYTES h = IPH_HL h * 4"
definition IPH_OFFSET :: "u8 list \<Rightarrow> u16" where "IPH_OFFSET h = half_at h 6"
definition IPH_PROTO :: "u8 list \<Rightarrow> u8" where "IPH_PROTO h = byte_at h 9"
definition iph_src :: "u8 list \<Rightarrow> ip4_addr_t" where "iph_src h = word_at h 12"
definition iph_dest :: "u8 list \<Rightarrow> ip4_addr_t" where "iph_dest h = word_at h 16"

definition IPH_VHL :: "u8 \<Rightarrow> u8 \<Rightarrow> u8" where "IPH_VHL v hl = push_bit 4 v OR hl"

text \<open>\<^verbatim>\<open>PP_NTOHS\<close> of two bytes, the second in the upper half.\<close>

definition pair_ntohs :: "u8 \<Rightarrow> u8 \<Rightarrow> u16" where
  "pair_ntohs lo hi = PP_HTONS (ucast lo OR push_bit 8 (ucast hi))"

section \<open>Output\<close>

text \<open>The checksum that \<^verbatim>\<open>ip4_output_if_src\<close> sums up over the fields, in the order of the code.\<close>

definition inline_chksum :: "u8 \<Rightarrow> u8 \<Rightarrow> ip4_addr_t \<Rightarrow> u8 \<Rightarrow> u8 \<Rightarrow> u16 \<Rightarrow> u16 \<Rightarrow> ip4_addr_t \<Rightarrow> u16" where
  "inline_chksum proto ttl dest tos v_hl len idn src =
     (let chk_sum = ucast (pair_ntohs proto ttl) :: u32;
          chk_sum = chk_sum + (dest AND 0xFFFF);
          chk_sum = chk_sum + drop_bit 16 dest;
          chk_sum = chk_sum + ucast (pair_ntohs tos v_hl);
          chk_sum = chk_sum + ucast len;
          chk_sum = chk_sum + ucast idn;
          chk_sum = chk_sum + (src AND 0xFFFF);
          chk_sum = chk_sum + drop_bit 16 src;
          chk_sum = drop_bit 16 chk_sum + (chk_sum AND 0xFFFF);
          chk_sum = drop_bit 16 chk_sum + chk_sum
      in ucast (NOT chk_sum))"

text \<open>The end of the function: a packet that is too long for the interface is fragmented.\<close>

definition ip4_send :: "('h, 'z, 'k) ip_env \<Rightarrow> netif \<Rightarrow> pptr option \<Rightarrow> ip4_addr_t \<Rightarrow> (('h, 'z, 'k) ifw, err_t) act" where
  "ip4_send E n p dest =
     act_bind (lw_pbuf (pb_get p)) (\<lambda>b.
     if mtu n \<noteq> 0 \<and> pb_tot_len b > mtu n then ip4_frag E p n dest else ip_netif_output E p dest)"

text \<open>The fields of the new header, written in the order of the code.\<close>

definition ip4_put_header :: "pptr option \<Rightarrow> ip4_addr_t option \<Rightarrow> ip4_addr_t \<Rightarrow> u8 \<Rightarrow> u8 \<Rightarrow> u8 \<Rightarrow> (('h, 'z, 'k) ifw, unit) act" where
  "ip4_put_header p src dest ttl tos proto =
     (let v_hl = IPH_VHL 4 (of_nat IP_HLEN div 4) in
      act_bind (lw_pbuf (pb_write p 8 [ttl])) (\<lambda>_.
      act_bind (lw_pbuf (pb_write p 9 [proto])) (\<lambda>_.
      act_bind (lw_pbuf (pb_write p 16 (le32 dest))) (\<lambda>_.
      act_bind (lw_pbuf (pb_write p 0 [v_hl])) (\<lambda>_.
      act_bind (lw_pbuf (pb_write p 1 [tos])) (\<lambda>_.
      act_bind (lw_pbuf (pb_get p)) (\<lambda>b.
      let len = lwip_htons (pb_tot_len b) in
      act_bind (lw_pbuf (pb_write p 2 (le16 len))) (\<lambda>_.
      act_bind (lw_pbuf (pb_write p 6 (le16 0))) (\<lambda>_.
      act_bind (ip4 ip_id) (\<lambda>i.
      act_bind (lw_pbuf (pb_write p 4 (le16 (lwip_htons i)))) (\<lambda>_.
      act_bind (ip4_modify (ip_id_update (\<lambda>i. i + 1))) (\<lambda>_.
      act_bind (lw_pbuf (pb_write p 12 (le32 (or_any src)))) (\<lambda>_.
      lw_pbuf (pb_write p 10 (le16 (inline_chksum proto ttl dest tos v_hl len (lwip_htons i) (or_any src)))))))))))))))))"

text \<open>A missing destination is \<^verbatim>\<open>LWIP_IP_HDRINCL\<close>: the packet has its header already.\<close>

definition ip4_output_if_src :: "('h, 'z, 'k) ip_env \<Rightarrow> pptr option \<Rightarrow> ip4_addr_t option \<Rightarrow> ip4_addr_t option \<Rightarrow>
    u8 \<Rightarrow> u8 \<Rightarrow> u8 \<Rightarrow> netif \<Rightarrow> (('h, 'z, 'k) ifw, err_t) act" where
  "ip4_output_if_src E p src dest ttl tos proto n =
     (case dest of
        Some d \<Rightarrow>
          act_bind (lw_pbuf (pbuf_add_header p (of_nat IP_HLEN))) (\<lambda>failed.
          if failed then act_return ERR_BUF
          else act_bind (ip4_put_header p src d ttl tos proto) (\<lambda>_. ip4_send E n p d))
      | None \<Rightarrow>
          act_bind (lw_pbuf (pb_get p)) (\<lambda>b.
          if unat (pb_len b) < IP_HLEN then act_return ERR_BUF
          else act_bind (lw_pbuf (pb_read p 16 4)) (\<lambda>bs. ip4_send E n p (word_at bs 0))))"

definition ip4_output_if :: "('h, 'z, 'k) ip_env \<Rightarrow> pptr option \<Rightarrow> ip4_addr_t option \<Rightarrow> ip4_addr_t option \<Rightarrow>
    u8 \<Rightarrow> u8 \<Rightarrow> u8 \<Rightarrow> netif \<Rightarrow> (('h, 'z, 'k) ifw, err_t) act" where
  "ip4_output_if E p src dest ttl tos proto n =
     (let src_used = (if dest \<noteq> None \<and> or_any src = IPADDR_ANY then Some (ip_addr n) else src) in
      ip4_output_if_src E p src_used dest ttl tos proto n)"

definition ip4_output :: "('h, 'z, 'k) ip_env \<Rightarrow> pptr option \<Rightarrow> ip4_addr_t option \<Rightarrow> ip4_addr_t \<Rightarrow>
    u8 \<Rightarrow> u8 \<Rightarrow> u8 \<Rightarrow> (('h, 'z, 'k) ifw, err_t) act" where
  "ip4_output E p src dest ttl tos proto =
     act_bind (ip4_route dest) (\<lambda>r.
     case r of
       None \<Rightarrow> act_return ERR_RTE
     | Some n \<Rightarrow> ip4_output_if E p src (Some dest) ttl tos proto n)"

section \<open>ICMP\<close>

text \<open>core/ipv4/icmp.c: answers to echo requests, and error messages.\<close>

definition ICMP_ER :: u8 where "ICMP_ER = 0"
definition ICMP_DUR :: u8 where "ICMP_DUR = 3"
definition ICMP_ECHO :: u8 where "ICMP_ECHO = 8"
definition ICMP_TE :: u8 where "ICMP_TE = 11"
definition ICMP_DUR_PROTO :: u8 where "ICMP_DUR_PROTO = 2"
definition ICMP_DEST_UNREACH_DATASIZE :: nat where "ICMP_DEST_UNREACH_DATASIZE = 8"
definition SIZEOF_ICMP_HDR :: nat where "SIZEOF_ICMP_HDR = 8"

lemmas icmp_consts = ICMP_ER_def ICMP_DUR_def ICMP_ECHO_def ICMP_TE_def ICMP_DUR_PROTO_def ICMP_DEST_UNREACH_DATASIZE_def
  SIZEOF_ICMP_HDR_def

definition drop_packet :: "('h, 'z, 'k) ip_env \<Rightarrow> pptr option \<Rightarrow> (('h, 'z, 'k) ifw, unit) act" where
  "drop_packet E p = act_bind (lw_pbuf (pbuf_free (ip_mem E) p)) (\<lambda>_. act_return ())"

text \<open>The echo request in a buffer with room for the link header: the packet itself, or a copy of it with the IP header
  \<open>iphdr\<close> in front.  No result is the jump to \<^verbatim>\<open>icmperr\<close>.\<close>

definition echo_copy :: "('h, 'z, 'k) ip_env \<Rightarrow> pptr option \<Rightarrow> mptr \<Rightarrow> u8 \<Rightarrow> (('h, 'z, 'k) ifw, pptr option) act" where
  "echo_copy E p iphdr hlen =
     act_bind (lw_pbuf (pb_get p)) (\<lambda>b.
     let alloc_len = pb_tot_len b + ucast hlen;
         fail = (\<lambda>r. act_bind (lw_pbuf (pbuf_free (ip_mem E) r)) (\<lambda>_. act_return None))
     in
     if alloc_len < pb_tot_len b then act_return None
     else
       act_bind (lw_pbuf (pbuf_alloc (ip_mem E) PBUF_LINK alloc_len PBUF_RAM)) (\<lambda>r.
       if r = None then act_return None
       else
         act_bind (lw_pbuf (pb_get r)) (\<lambda>br.
         if unat (pb_len br) < unat hlen + SIZEOF_ICMP_HDR then fail r
         else
           act_bind (lw_pbuf (at_read iphdr 0 (unat hlen))) (\<lambda>hdr.
           act_bind (lw_pbuf (pb_write r 0 hdr)) (\<lambda>_.
           act_bind (lw_pbuf (pbuf_remove_header r (ucast hlen))) (\<lambda>failed.
           if failed then fail r
           else
             act_bind (lw_pbuf (pbuf_copy r p)) (\<lambda>err.
             if err \<noteq> ERR_OK then fail r
             else act_bind (lw_pbuf (pbuf_free (ip_mem E) p)) (\<lambda>_. act_return r))))))))"

definition echo_buffer :: "('h, 'z, 'k) ip_env \<Rightarrow> pptr option \<Rightarrow> mptr \<Rightarrow> u8 \<Rightarrow> (('h, 'z, 'k) ifw, pptr option) act" where
  "echo_buffer E p iphdr hlen =
     (let room = ucast hlen + of_nat (PBUF_LINK_HLEN + PBUF_LINK_ENCAPSULATION_HLEN) in
      act_bind (lw_pbuf (pbuf_add_header p room)) (\<lambda>failed.
      if failed then echo_copy E p iphdr hlen
      else act_bind (lw_pbuf (pbuf_remove_header p room)) (\<lambda>failed.
        act_return (if failed then None else p))))"

text \<open>The adjusted checksum of the reply, for the type 8 that becomes 0.\<close>

definition echo_chksum :: "u16 \<Rightarrow> u16" where
  "echo_chksum c =
     (if c > PP_HTONS (0xFFFF - push_bit 8 (ucast ICMP_ECHO)) then c + PP_HTONS (push_bit 8 (ucast ICMP_ECHO)) + 1
      else c + PP_HTONS (push_bit 8 (ucast ICMP_ECHO)))"

text \<open>The request becomes the reply in place and is sent.\<close>

definition echo_reply :: "('h, 'z, 'k) ip_env \<Rightarrow> netif \<Rightarrow> pptr option \<Rightarrow> ip4_addr_t \<Rightarrow> u8 \<Rightarrow> (('h, 'z, 'k) ifw, unit) act" where
  "echo_reply E n p src hlen =
     act_bind (lw_pbuf (payload_ptr p)) (\<lambda>iecho.
     act_bind (lw_pbuf (pbuf_add_header p (ucast hlen))) (\<lambda>failed.
     if failed then act_return ()
     else
       act_bind (lw_pbuf (payload_ptr p)) (\<lambda>iphdr.
       act_bind (lw_pbuf (at_write iphdr 12 (le32 src))) (\<lambda>_.
       act_bind (ip4 (\<lambda>s. current_iphdr_src (ip_data s))) (\<lambda>dest.
       act_bind (lw_pbuf (at_write iphdr 16 (le32 dest))) (\<lambda>_.
       act_bind (lw_pbuf (at_write iecho 0 [ICMP_ER])) (\<lambda>_.
       act_bind (lw_pbuf (at_read iecho 2 2)) (\<lambda>c.
       act_bind (lw_pbuf (at_write iecho 2 (le16 (echo_chksum (half_at c 0))))) (\<lambda>_.
       act_bind (lw_pbuf (at_write iphdr 8 [ICMP_TTL])) (\<lambda>_.
       act_bind (lw_pbuf (at_write iphdr 10 (le16 0))) (\<lambda>_.
       act_bind (lw_pbuf (at_read iphdr 0 (unat hlen))) (\<lambda>hdr.
       act_bind (lw_pbuf (at_write iphdr 10 (le16 (inet_chksum (ptr_odd (ip_at E) iphdr) hdr (ucast hlen))))) (\<lambda>_.
       act_bind (ip4_output_if E p (Some src) None ICMP_TTL 0 IP_PROTO_ICMP n) (\<lambda>_.
       act_return ()))))))))))))))"

definition icmp_echo_input :: "('h, 'z, 'k) ip_env \<Rightarrow> pptr option \<Rightarrow> netif \<Rightarrow> mptr \<Rightarrow> u8 \<Rightarrow> (('h, 'z, 'k) ifw, unit) act" where
  "icmp_echo_input E p n iphdr hlen =
     act_bind (ip4 (\<lambda>s. current_iphdr_dest (ip_data s))) (\<lambda>dest.
     let src = (if ip4_addr_ismulticast dest \<or> ip4_addr_isbroadcast_u32 dest n then ip_addr n else dest) in
     act_bind (lw_pbuf (pb_get p)) (\<lambda>b.
     if unat (pb_tot_len b) < SIZEOF_ICMP_HDR then drop_packet E p
     else
       act_bind (lw_pbuf (inet_chksum_pbuf (ip_at E) p)) (\<lambda>c.
       if c \<noteq> 0 then drop_packet E p
       else
         act_bind (echo_buffer E p iphdr hlen) (\<lambda>r.
         if r = None then drop_packet E p
         else act_bind (echo_reply E n r src hlen) (\<lambda>_. drop_packet E r)))))"

definition icmp_input :: "('h, 'z, 'k) ip_env \<Rightarrow> pptr option \<Rightarrow> netif \<Rightarrow> (('h, 'z, 'k) ifw, unit) act" where
  "icmp_input E p n =
     act_bind (ip4 (\<lambda>s. current_ip4_header (ip_data s))) (\<lambda>h.
     case h of
       None \<Rightarrow> act_fail NullDeref
     | Some iphdr \<Rightarrow>
         act_bind (lw_pbuf (at_read iphdr 0 1)) (\<lambda>v.
         let hlen = IPH_HL_BYTES v in
         if unat hlen < IP_HLEN then drop_packet E p
         else
           act_bind (lw_pbuf (pb_get p)) (\<lambda>b.
           if unat (pb_len b) < 4 then drop_packet E p
           else
             act_bind (lw_pbuf (pb_read p 0 1)) (\<lambda>t.
             if byte_at t 0 = ICMP_ECHO then icmp_echo_input E p n iphdr hlen else drop_packet E p))))"

text \<open>An error message with the head of the packet that caused it.\<close>

definition icmp_send_response :: "('h, 'z, 'k) ip_env \<Rightarrow> pptr option \<Rightarrow> u8 \<Rightarrow> u8 \<Rightarrow> (('h, 'z, 'k) ifw, unit) act" where
  "icmp_send_response E p type code =
     act_bind (lw_pbuf (pb_get p)) (\<lambda>b.
     let limit = of_nat (IP_HLEN + ICMP_DEST_UNREACH_DATASIZE);
         response_pkt_len = (if pb_tot_len b < limit then pb_tot_len b else limit)
     in
     act_bind (lw_pbuf (pbuf_alloc (ip_mem E) PBUF_IP (of_nat SIZEOF_ICMP_HDR + response_pkt_len) PBUF_RAM)) (\<lambda>q.
     if q = None then act_return ()
     else
       act_bind (lw_pbuf (payload_ptr p)) (\<lambda>iphdr.
       act_bind (lw_pbuf (pb_write q 0 [type])) (\<lambda>_.
       act_bind (lw_pbuf (pb_write q 1 [code])) (\<lambda>_.
       act_bind (lw_pbuf (pb_write q 4 (le32 0))) (\<lambda>_.
       act_bind (lw_pbuf (pbuf_copy_partial_pbuf q p response_pkt_len (of_nat SIZEOF_ICMP_HDR))) (\<lambda>_.
       act_bind (lw_pbuf (at_read iphdr 12 4)) (\<lambda>bs.
       let iphdr_src = word_at bs 0 in
       act_bind (ip4_route iphdr_src) (\<lambda>r.
       act_bind
         (case r of
            None \<Rightarrow> act_return ()
          | Some n \<Rightarrow>
              act_bind (lw_pbuf (payload_ptr q)) (\<lambda>icmphdr.
              act_bind (lw_pbuf (at_write icmphdr 2 (le16 0))) (\<lambda>_.
              act_bind (lw_pbuf (pb_get q)) (\<lambda>bq.
              act_bind (lw_pbuf (at_read icmphdr 0 (unat (pb_len bq)))) (\<lambda>msg.
              act_bind (lw_pbuf (at_write icmphdr 2 (le16 (inet_chksum (ptr_odd (ip_at E) icmphdr) msg (pb_len bq))))) (\<lambda>_.
              act_bind (ip4_output_if E q None (Some iphdr_src) ICMP_TTL 0 IP_PROTO_ICMP n) (\<lambda>_.
              act_return ()))))))) (\<lambda>_.
       drop_packet E q))))))))))"

definition icmp_dest_unreach :: "('h, 'z, 'k) ip_env \<Rightarrow> pptr option \<Rightarrow> u8 \<Rightarrow> (('h, 'z, 'k) ifw, unit) act" where
  "icmp_dest_unreach E p t = icmp_send_response E p ICMP_DUR t"

definition icmp_time_exceeded :: "('h, 'z, 'k) ip_env \<Rightarrow> pptr option \<Rightarrow> u8 \<Rightarrow> (('h, 'z, 'k) ifw, unit) act" where
  "icmp_time_exceeded E p t = icmp_send_response E p ICMP_TE t"

section \<open>Input\<close>

definition ip4_input_accept :: "netif \<Rightarrow> ip4_addr_t \<Rightarrow> bool" where
  "ip4_input_accept n dest \<longleftrightarrow> netif_is_up n \<and> ip_addr n \<noteq> IPADDR_ANY \<and> (dest = ip_addr n \<or> ip4_addr_isbroadcast_u32 dest n)"

text \<open>Whether the interface takes the packet, before the exception for a port.\<close>

definition for_netif :: "netif \<Rightarrow> ip4_addr_t \<Rightarrow> bool" where
  "for_netif n dest =
     (if ip4_addr_ismulticast dest then netif_is_up n \<and> ip_addr n \<noteq> IPADDR_ANY else ip4_input_accept n dest)"

definition LWIP_IP_ACCEPT_UDP_PORT :: "u16 \<Rightarrow> bool" where "LWIP_IP_ACCEPT_UDP_PORT p \<longleftrightarrow> p = PP_HTONS 67"

text \<open>The address check; the two results are whether the interface takes the packet and whether its source is checked.\<close>

definition ip4_match :: "netif \<Rightarrow> mptr \<Rightarrow> u8 list \<Rightarrow> ('h pbuf_sys, bool \<times> bool) act" where
  "ip4_match n iphdr hdr =
     (if for_netif n (iph_dest hdr) then act_return (True, True)
      else if IPH_PROTO hdr = IP_PROTO_UDP then
        act_bind (at_read iphdr (unat (IPH_HL_BYTES hdr) + 2) 2) (\<lambda>port.
        if LWIP_IP_ACCEPT_UDP_PORT (half_at port 0) then act_return (True, False) else act_return (False, True))
      else act_return (False, True))"

definition ip4_bad_src :: "netif \<Rightarrow> ip4_addr_t \<Rightarrow> bool" where
  "ip4_bad_src n src \<longleftrightarrow> src \<noteq> IPADDR_ANY \<and> (ip4_addr_isbroadcast_u32 src n \<or> ip4_addr_ismulticast src)"

definition no_ip_data :: ip_globals where
  "no_ip_data = \<lparr>current_netif = False, current_input_netif = False, current_ip4_header = None, current_ip_header_tot_len = 0,
     current_iphdr_src = IPADDR_ANY, current_iphdr_dest = IPADDR_ANY\<rparr>"

text \<open>The upper layers; the packet still has its header, of length \<open>hlen\<close>.\<close>

definition ip4_deliver :: "('h, 'z, 'k) ip_env \<Rightarrow> pptr option \<Rightarrow> netif \<Rightarrow> u8 \<Rightarrow> (('h, 'z, 'k) ifw, unit) act" where
  "ip4_deliver E p n hlen =
     act_bind (lw_pbuf (payload_ptr p)) (\<lambda>iphdr.
     act_bind (lw_pbuf (at_read iphdr 0 IP_HLEN)) (\<lambda>hdr.
     act_bind (set_ip_data (\<lambda>d. d\<lparr>current_netif := True, current_input_netif := True, current_ip4_header := Some iphdr,
         current_ip_header_tot_len := ucast (IPH_HL_BYTES hdr)\<rparr>)) (\<lambda>_.
     act_bind (lw_pbuf (pbuf_remove_header p (ucast hlen))) (\<lambda>_.
     act_bind
       (if IPH_PROTO hdr = IP_PROTO_UDP then udp_input E p n
        else if IPH_PROTO hdr = IP_PROTO_TCP then tcp_input E p n
        else if IPH_PROTO hdr = IP_PROTO_ICMP then icmp_input E p n
        else
          act_bind (ip4 (\<lambda>s. current_iphdr_dest (ip_data s))) (\<lambda>dest.
          act_bind (if \<not> ip4_addr_isbroadcast_u32 dest n \<and> \<not> ip4_addr_ismulticast dest then
                      act_bind (lw_pbuf (pbuf_header_force p (ucast hlen))) (\<lambda>_. icmp_dest_unreach E p ICMP_DUR_PROTO)
                    else act_return ()) (\<lambda>_.
          drop_packet E p))) (\<lambda>_.
     set_ip_data (\<lambda>_. no_ip_data))))))"

text \<open>A packet with a sound header: matching, source check, reassembly, delivery.\<close>

definition ip4_receive :: "('h, 'z, 'k) ip_env \<Rightarrow> pptr option \<Rightarrow> netif \<Rightarrow> mptr \<Rightarrow> u8 list \<Rightarrow> (('h, 'z, 'k) ifw, unit) act" where
  "ip4_receive E p n iphdr hdr =
     act_bind (set_ip_data (\<lambda>d. d\<lparr>current_iphdr_dest := iph_dest hdr, current_iphdr_src := iph_src hdr\<rparr>)) (\<lambda>_.
     act_bind (lw_pbuf (ip4_match n iphdr hdr)) (\<lambda>(ours, check_ip_src).
     if check_ip_src \<and> ip4_bad_src n (iph_src hdr) then drop_packet E p
     else if \<not> ours then drop_packet E p
     else if IPH_OFFSET hdr AND PP_HTONS (IP_OFFMASK OR IP_MF) \<noteq> 0 then
       act_bind (ip4_reass E p) (\<lambda>r. if r = None then act_return () else ip4_deliver E r n (IPH_HL_BYTES hdr))
     else ip4_deliver E p n (IPH_HL_BYTES hdr)))"

definition ip4_input_ip :: "('h, 'z, 'k) ip_env \<Rightarrow> pptr option \<Rightarrow> netif \<Rightarrow> (('h, 'z, 'k) ifw, unit) act" where
  "ip4_input_ip E p n =
     act_bind (lw_pbuf (payload_ptr p)) (\<lambda>iphdr.
     act_bind (lw_pbuf (at_read iphdr 0 1)) (\<lambda>v.
     if IPH_V v \<noteq> 4 then drop_packet E p
     else
       let iphdr_hlen = ucast (IPH_HL_BYTES v) :: u16 in
       act_bind (lw_pbuf (at_read iphdr 2 2)) (\<lambda>l.
       let iphdr_len = lwip_htons (half_at l 0) in
       act_bind (lw_pbuf (pb_get p)) (\<lambda>b.
       act_bind (if iphdr_len < pb_tot_len b then lw_pbuf (pbuf_realloc (ip_mem E) p iphdr_len) else act_return ()) (\<lambda>_.
       act_bind (lw_pbuf (pb_get p)) (\<lambda>b.
       if iphdr_hlen > pb_len b \<or> iphdr_len > pb_tot_len b \<or> unat iphdr_hlen < IP_HLEN then drop_packet E p
       else
         act_bind (lw_pbuf (at_read iphdr 0 (unat iphdr_hlen))) (\<lambda>hdr.
         if inet_chksum (ptr_odd (ip_at E) iphdr) hdr iphdr_hlen \<noteq> 0 then drop_packet E p
         else ip4_receive E p n iphdr hdr)))))))"

end
