(* ===== verification/Lwip_IpOut.thy ===== *)
theory Lwip_IpOut
  imports Lwip_Ip4
begin

text \<open>Runs of the IPv4 layer on buffers, and what the output function puts in front of a packet.\<close>

section \<open>Runs\<close>

abbreviation istk :: "('h, 'z, 'k) ifw \<Rightarrow> 'z ip_stack" where "istk s \<equiv> stack_rest (astk s)"

abbreviation objs :: "('h, 'x, 'k) fw \<Rightarrow> pheap" where "objs s \<equiv> pb_obj (pbufs (world s))"

definition with_ip :: "('z ip_stack \<Rightarrow> 'z ip_stack) \<Rightarrow> ('h, 'z, 'k) ifw \<Rightarrow> ('h, 'z, 'k) ifw" where
  "with_ip f s = s\<lparr>world := (world s)\<lparr>net := (net (world s))\<lparr>stack := (astk s)\<lparr>stack_rest := f (istk s)\<rparr>\<rparr>\<rparr>\<rparr>"

lemma with_ip_simps [simp]:
  "istk (with_ip f s) = f (istk s)" "pbufs (world (with_ip f s)) = pbufs (world s)" "ncm_if (with_ip f s) = ncm_if s"
  "netif_data (net (world (with_ip f s))) = netif_data (net (world s))" "arp_table (astk (with_ip f s)) = arp_table (astk s)"
  "with_ip g (with_ip f s) = with_ip (\<lambda>i. g (f i)) s" "with_ip f (with_buf x b s) = with_buf x b (with_ip f s)"
  "net (world (with_buf x b t)) = net (world t)"
  by (simp_all add: with_ip_def with_buf_def)

lemma run_ip4 [simp]: "ip4 f s = Inr (f (istk s), s)"
  by (simp add: ip4_def arp_def in_world_def in_net_def act_defs)

lemma run_ip4_modify [simp]: "ip4_modify f s = Inr ((), with_ip f s)"
  by (simp add: ip4_modify_def arp_modify_def in_world_def in_net_def act_defs with_ip_def)

lemma run_get [simp]: "objs s x = Some b \<Longrightarrow> lw_pbuf (pb_get (Some x)) s = Inr (b, s)"
  by (simp add: lw_pbuf_def in_world_def in_pbufs_def)

lemma run_ptr [simp]: "objs s x = Some b \<Longrightarrow> pb_payload b = Some a \<Longrightarrow> lw_pbuf (payload_ptr (Some x)) s = Inr ((x, a), s)"
  by (simp add: payload_ptr_def lw_pbuf_def in_world_def in_pbufs_def act_defs)

lemma run_at_read [simp]:
  "objs s x = Some b \<Longrightarrow> a + off + n \<le> length (pb_mem b) \<Longrightarrow>
     lw_pbuf (at_read (x, a) off n) s = Inr (mem_bytes (a + off) n (pb_mem b), s)"
  by (simp add: at_read_def lw_pbuf_def in_world_def in_pbufs_def act_defs)

lemma run_at_write [simp]:
  "objs s x = Some b \<Longrightarrow> a + off + length bs \<le> length (pb_mem b) \<Longrightarrow>
     lw_pbuf (at_write (x, a) off bs) s = Inr ((), with_buf x (pb_mem_update (mem_write (a + off) bs) b) s)"
  by (simp add: at_write_def lw_pbuf_def in_world_def in_pbufs_def act_defs with_buf_def)

lemma run_pb_write:
  "objs s x = Some b \<Longrightarrow> pb_payload b = Some a \<Longrightarrow> a + off + length bs \<le> length (pb_mem b) \<Longrightarrow>
     lw_pbuf (pb_write (Some x) off bs) s = Inr ((), with_buf x (pb_mem_update (mem_write (a + off) bs) b) s)"
  by (subst run_write) (auto simp: payload_ok_def payload_write_def intro!: arg_cong [where f = "\<lambda>b. with_buf x b s"] pbuf.equality)

section \<open>The header\<close>

definition ip_fields :: "u8 \<Rightarrow> u16 \<Rightarrow> u16 \<Rightarrow> u8 \<Rightarrow> u8 \<Rightarrow> u16 \<Rightarrow> ip4_addr_t \<Rightarrow> ip4_addr_t \<Rightarrow> u8 list" where
  "ip_fields tos len idn ttl proto c src dest =
     [0x45, tos] @ le16 (lwip_htons len) @ le16 (lwip_htons idn) @ le16 0 @ [ttl, proto] @ le16 c @ le32 src @ le32 dest"

definition ip_header :: "u8 \<Rightarrow> u16 \<Rightarrow> u16 \<Rightarrow> u8 \<Rightarrow> u8 \<Rightarrow> ip4_addr_t \<Rightarrow> ip4_addr_t \<Rightarrow> u8 list" where
  "ip_header tos len idn ttl proto src dest =
     ip_fields tos len idn ttl proto (rfc1071 (ip_fields tos len idn ttl proto 0 src dest)) src dest"

lemma length_ip_fields [simp]: "length (ip_fields tos len idn ttl proto c src dest) = 20"
    "length (ip_header tos len idn ttl proto src dest) = 20"
  by (simp_all add: ip_fields_def ip_header_def)

lemma ip_header_verifies: "rfc1071 (ip_header tos len idn ttl proto src dest) = 0"
proof -
  let ?c = "rfc1071 (ip_fields tos len idn ttl proto 0 src dest)"
  have z: "ip_fields tos len idn ttl proto 0 src dest ! 10 = 0" "ip_fields tos len idn ttl proto 0 src dest ! 11 = 0"
    by (simp_all add: ip_fields_def le16_def)
  have "ip_header tos len idn ttl proto src dest =
      (ip_fields tos len idn ttl proto 0 src dest)[2 * 5 := ucast ?c, 2 * 5 + 1 := ucast (drop_bit 8 ?c)]"
    by (simp add: ip_header_def ip_fields_def le16_def)
  then show ?thesis using rfc1071_verifies [of 5 "ip_fields tos len idn ttl proto 0 src dest"] z by simp
qed

lemma unat_pair_ntohs: "unat (pair_ntohs a b) = unat b + 256 * unat a"
proof -
  let ?v = "ucast a OR push_bit 8 (ucast b) :: u16"
  have "\<not> bit a (8 + i)" for i using bit_imp_le_length [of a "8 + i"] by auto
  then have "ucast (drop_bit 8 ?v) = b" "ucast ?v = a" by (auto intro!: bit_word_eqI simp: bit_simps)
  then show ?thesis using unat_htons [of ?v] by (simp add: pair_ntohs_def lwip_htons_def)
qed

text \<open>The sum over the fields is the one's complement sum of the header.\<close>

lemma fold_complement:
  fixes u :: u32
  assumes n: "0 < unat u" "unat u < 655360"
  defines "f \<equiv> drop_bit 16 u + (u AND 0xFFFF)"
  shows "ucast (NOT (drop_bit 16 f + f)) = (of_nat (65535 - ones (unat u)) :: u16)"
proof -
  have f: "unat f = unat u div 65536 + unat u mod 65536" using unat_FOLD [of u] by (simp add: f_def FOLD_U32T_def)
  have d: "unat (drop_bit 16 f) = unat f div 65536" by (rule unat_parts)
  define q r where "q = unat u div 65536" and "r = unat u mod 65536"
  have "unat u = 65536 * q + r" "r < 65536" by (simp_all add: q_def r_def)
  then have fb: "unat f \<le> 65544" "0 < unat f" using n unfolding f by (simp_all flip: q_def r_def)
  have s: "unat (drop_bit 16 f + f) = unat f div 65536 + unat f" using fb d by (subst unat_add_lem [THEN iffD1]) simp_all
  have o: "ones (unat u) = ones (unat f)" unfolding f by (rule ones_fold [symmetric])
  have "(unat f div 65536 + unat f) mod 65536 = ones (unat f)"
  proof (cases "unat f < 65536")
    case True
    then show ?thesis by (simp add: ones_small)
  next
    case False
    define r where "r = unat f - 65536"
    have r: "unat f = 65536 + r" "r < 10" using False fb by (simp_all add: r_def)
    then have "unat f div 65536 = 1" by (simp add: div_nat_eqI)
    moreover have "(1 + (65536 + r)) mod 65536 = r + 1" using mod_add_self1 [of 65536 "r + 1"] r(2) by (simp add: ac_simps)
    ultimately show ?thesis using r by (simp add: ones_def)
  qed
  then have "unat (ucast (drop_bit 16 f + f) :: u16) = ones (unat u)"
    using s o by (simp add: unsigned_ucast_eq take_bit_nat_def)
  then have "NOT (ucast (drop_bit 16 f + f) :: u16) = of_nat (65535 - ones (unat u))" by (rule complement_u16)
  moreover have "ucast (NOT (drop_bit 16 f + f)) = (NOT (ucast (drop_bit 16 f + f)) :: u16)"
    by (auto intro!: bit_word_eqI simp: bit_simps)
  ultimately show ?thesis by simp
qed

lemma unat_sum_list: "sum_list (map unat ws) < 4294967296 \<Longrightarrow> unat (sum_list ws) = sum_list (map unat ws)" for ws :: "u32 list"
proof (induction ws)
  case (Cons w ws)
  then have "unat (sum_list ws) = sum_list (map unat ws)" by simp
  then show ?case using Cons.prems unat_add_lem [of w "sum_list ws"] by simp
qed simp

lemma unat_halves: "unat (w AND 0xFFFF) = unat w mod 65536" "unat (drop_bit 16 w) = unat w div 65536"
    "unat (w AND 0xFFFF) < 65536" "unat (drop_bit 16 w) < 65536" for w :: u32
proof -
  show h: "unat (w AND 0xFFFF) = unat w mod 65536" "unat (drop_bit 16 w) = unat w div 65536" by (simp_all only: and_masks unat_parts)
  have "unat w < 4294967296" by simp
  then show "unat (w AND 0xFFFF) < 65536" "unat (drop_bit 16 w) < 65536"
    unfolding h by (simp_all add: div_less_iff_less_mult del: unat_u32_bound)
qed

lemma inline_chksum_eq:
  "inline_chksum proto ttl dest tos 0x45 (lwip_htons len) (lwip_htons idn) src = rfc1071 (ip_fields tos len idn ttl proto 0 src dest)"
proof -
  let ?ws = "[ucast (pair_ntohs proto ttl), dest AND 0xFFFF, drop_bit 16 dest, ucast (pair_ntohs tos 0x45),
    ucast (lwip_htons len), ucast (lwip_htons idn), src AND 0xFFFF, drop_bit 16 src] :: u32 list"
  let ?F = "ip_fields tos len idn ttl proto 0 src dest"
  have ws: "word_sum ?F = sum_list (map unat ?ws)"
    by (simp add: ip_fields_def word_sum_le16 word_sum_le32 [of _ "[]", simplified] word_sum_le32 unat_pair_ntohs unat_halves)
  have b: "sum_list (map unat ?ws) < 655360"
    using unat_halves(3,4) [of dest] unat_halves(3,4) [of src] unat_u16_bound [of "pair_ntohs proto ttl"]
      unat_u16_bound [of "pair_ntohs tos 0x45"] unat_u16_bound [of "lwip_htons len"] unat_u16_bound [of "lwip_htons idn"]
    unfolding list.map sum_list.Cons sum_list.Nil unat_widen by linarith
  define w where "w = sum_list ?ws"
  have u: "unat w = word_sum ?F" using b unat_sum_list [of ?ws] ws unfolding w_def by linarith
  have "0 < word_sum ?F" by (simp add: ip_fields_def)
  then have "0 < unat w" "unat w < 655360" using b ws unfolding u by linarith+
  from fold_complement [OF this] have "ucast (NOT (drop_bit 16 (drop_bit 16 w + (w AND 0xFFFF)) + (drop_bit 16 w + (w AND 0xFFFF)))) = rfc1071 ?F"
    unfolding u rfc1071_def .
  then show ?thesis by (simp add: inline_chksum_def Let_def add.assoc w_def)
qed

section \<open>Output\<close>

lemma header_writes:
  assumes "i + 20 \<le> length m"
  shows "mem_write (i + 10) (le16 c) (mem_write (i + 12) (le32 src) (mem_write (i + 4) (le16 idn) (mem_write (i + 6) (le16 0)
    (mem_write (i + 2) (le16 len) (mem_write (i + 1) [tos] (mem_write i [v] (mem_write (i + 16) (le32 dest)
    (mem_write (i + 9) [proto] (mem_write (i + 8) [ttl] m))))))))) =
    mem_write i ([v, tos] @ le16 len @ le16 idn @ le16 0 @ [ttl, proto] @ le16 c @ le32 src @ le32 dest) m"
proof -
  define pre hole rest where "pre = take i m" and "hole = take 20 (drop i m)" and "rest = drop (i + 20) m"
  have m: "m = pre @ hole @ rest" "length pre = i" "length hole = 20"
    using assms append_take_drop_id [of 20 "drop i m"] by (simp_all add: pre_def hole_def rest_def add.commute)
  have "mem_write 10 (le16 c) (mem_write 12 (le32 src) (mem_write 4 (le16 idn) (mem_write 6 (le16 0)
    (mem_write 2 (le16 len) (mem_write (Suc 0) [tos] (mem_write 0 [v] (mem_write 16 (le32 dest)
    (mem_write 9 [proto] (mem_write 8 [ttl] (hole @ rest))))))))))
    = [v, tos] @ le16 len @ le16 idn @ le16 0 @ [ttl, proto] @ le16 c @ le32 src @ le32 dest @ rest"
    using m(3) by (simp add: mem_write_def le16_def le32_def)
  moreover have "mem_write 0 ([v, tos] @ le16 len @ le16 idn @ le16 0 @ [ttl, proto] @ le16 c @ le32 src @ le32 dest) (hole @ rest) =
      [v, tos] @ le16 len @ le16 idn @ le16 0 @ [ttl, proto] @ le16 c @ le32 src @ le32 dest @ rest" using m(3) by (simp add: mem_write_def)
  ultimately show ?thesis unfolding m(1) m(2) [symmetric]
    using mem_write_append [of pre 0] mem_write_append [of pre 1] mem_write_append [of pre 2] by (simp add: mem_write_append)
qed

lemma mem_update_cong: "f (pb_mem b) = g (pb_mem b) \<Longrightarrow> pb_mem_update f b = pb_mem_update g b"
  by (rule pbuf.equality) simp_all

lemma put_header_run:
  assumes b: "objs s x = Some b" "pb_payload b = Some a" "a + 20 \<le> length (pb_mem b)"
    and h: "h = ip_header tos (pb_tot_len b) (ip_id (istk s)) ttl proto (or_any src) dest"
  shows "ip4_put_header (Some x) src dest ttl tos proto s =
    Inr ((), with_buf x (pb_mem_update (mem_write a h) b) (with_ip (ip_id_update (\<lambda>i. i + 1)) s))"
proof -
  have v: "IPH_VHL 4 (of_nat IP_HLEN div 4) = 0x45" by (simp add: IPH_VHL_def IP_HLEN_def push_bit_eq_mult)
  show ?thesis
    unfolding ip4_put_header_def Let_def v inline_chksum_eq using b(3)
    by (simp add: act_bind_def run_pb_write b(1,2) length_mem_write inline_chksum_eq)
      (rule arg_cong [where f = "\<lambda>c. with_buf x c _"], rule mem_update_cong,
       simp add: header_writes [of a "pb_mem b", simplified] h ip_header_def ip_fields_def)
qed

text \<open>The packet after a header of \<open>k\<close> bytes was put in front of it.\<close>

definition prepend :: "nat \<Rightarrow> u8 list \<Rightarrow> pbuf \<Rightarrow> pbuf" where
  "prepend k hs b = pb_mem_update (mem_write (the (pb_payload b) - k) hs) (b\<lparr>pb_payload := map_option (\<lambda>a. a - k) (pb_payload b),
     pb_len := pb_len b + of_nat k, pb_tot_len := pb_tot_len b + of_nat k\<rparr>)"

lemma prepend_packet:
  assumes p: "packet h (Some x) (x # xs)" "h x = Some b" and room: "headroom k b" "lens h (x # xs) + k < 65536" and hs: "length hs = k"
    and b': "b' = prepend k hs b"
  shows "packet (h(x \<mapsto> b')) (Some x) (x # xs)" "lens (h(x \<mapsto> b')) (x # xs) = lens h (x # xs) + k"
    "chain_data (h(x \<mapsto> b')) (x # xs) = hs @ chain_data h (x # xs)"
proof -
  obtain a where a: "pb_payload b = Some (a + k)" "a + k + unat (pb_len b) \<le> length (pb_mem b)"
    using room(1) by (auto simp: headroom_def) (metis add.commute le_Suc_ex)
  have seg: "unat (pb_tot_len b) = unat (pb_len b) + lens h xs" "seg h (pb_next b) xs None 0" "x \<notin> set xs" "distinct xs"
    using p by (auto simp: packet_def)
  have k: "unat (of_nat k :: u16) = k" using room(2) by (simp add: unsigned_of_nat take_bit_nat_eq_self)
  have sz: "unat (pb_len b + of_nat k) = unat (pb_len b) + k" "unat (pb_tot_len b + of_nat k) = unat (pb_tot_len b) + k"
    using room(2) seg(1) p(2) k by (simp_all add: unat_u16_add)
  have f: "pb_payload b' = Some a" "pb_len b' = pb_len b + of_nat k" "pb_tot_len b' = pb_tot_len b + of_nat k" "pb_next b' = pb_next b"
    "pb_mem b' = mem_write a hs (pb_mem b)" using a by (simp_all add: b' prepend_def)
  have m: "length (pb_mem b') = length (pb_mem b)" using a(2) hs by (simp add: f length_mem_write)
  show "packet (h(x \<mapsto> b')) (Some x) (x # xs)" "lens (h(x \<mapsto> b')) (x # xs) = lens h (x # xs) + k"
    using seg a(2) f m sz p(2) by (auto simp: packet_def payload_ok_def)
  have "bdata (h(x \<mapsto> b')) x = hs @ bdata h x"
    using a f sz p(2) hs by (simp add: bdata_def payload_bytes_def mem_write_def min_def)
  then show "chain_data (h(x \<mapsto> b')) (x # xs) = hs @ chain_data h (x # xs)" using seg(3) by simp
qed

text \<open>The output function with a header to write.\<close>

lemma ip4_output_if_src_run:
  assumes b: "objs s x = Some b" "headroom 20 b" "unat (pb_tot_len b) + 20 < 65536"
    and h: "h = ip_header tos (pb_tot_len b + 20) (ip_id (istk s)) ttl proto (or_any src) dest"
  shows "ip4_output_if_src E (Some x) src (Some dest) ttl tos proto n s =
    ip4_send E n (Some x) dest (with_buf x (prepend 20 h b) (with_ip (ip_id_update (\<lambda>i. i + 1)) s))"
proof -
  obtain a where a: "pb_payload b = Some a" "20 \<le> a" "a + unat (pb_len b) \<le> length (pb_mem b)" using b(2) by (auto simp: headroom_def)
  show ?thesis
    unfolding ip4_output_if_src_def using run_add_header [OF b(1,2) _ b(3)] a
    by (simp add: IP_HLEN_def act_bind_def put_header_run h prepend_def)
qed

end
