(* ===== verification/Lwip_IpIn.thy ===== *)
theory Lwip_IpIn
  imports Lwip_IpOut
begin

text \<open>
  What happens to a received packet: the decision of the input function as a function of the bytes of the packet, and
  the state in which the upper layer gets it.
\<close>

section \<open>Numbers in a header\<close>

definition be16 :: "u8 list \<Rightarrow> nat \<Rightarrow> nat" where
  "be16 m i = 256 * unat (m ! i) + unat (m ! (i + 1))"

lemma be16_bound: "be16 m i < 65536"
  using word_pair_bound [of "m ! (i + 1)" "m ! i"] by (simp add: be16_def)

lemma rd16_bytes: "ucast (rd16 f i) = f i" "ucast (drop_bit 8 (rd16 f i)) = f (i + 1)"
proof -
  have "\<not> bit (f i) (8 + k)" for k using bit_imp_le_length [of "f i" "8 + k"] by auto
  then show "ucast (rd16 f i) = f i" "ucast (drop_bit 8 (rd16 f i)) = f (i + 1)"
    unfolding rd16_def by (auto intro!: bit_word_eqI simp: bit_simps)
qed

lemma rd16_htons: "lwip_htons (rd16 f i) = of_nat (256 * unat (f i) + unat (f (i + 1)))"
proof -
  have "unat (lwip_htons (rd16 f i)) = 256 * unat (f i) + unat (f (i + 1))" by (simp only: unat_htons rd16_bytes) simp
  then show ?thesis by (metis of_nat_unat ucast_id)
qed

lemma half_at_be: "lwip_htons (half_at m i) = of_nat (be16 m i)" "half_at m i = lwip_htons (of_nat (be16 m i))"
proof -
  show "lwip_htons (half_at m i) = of_nat (be16 m i)" unfolding half_at_def be16_def by (rule rd16_htons)
  then show "half_at m i = lwip_htons (of_nat (be16 m i))" by (metis htons_htons)
qed

lemma unat_be16 [simp]: "unat (of_nat (be16 m i) :: u16) = be16 m i"
  using be16_bound [of m i] by (simp add: unsigned_of_nat take_bit_nat_eq_self)

definition ip_hlen :: "u8 list \<Rightarrow> nat" where "ip_hlen m = 4 * (unat (m ! 0) mod 16)"

lemma ip_hlen_bound: "ip_hlen m \<le> 60"
  using mod_less_divisor [of 16 "unat (m ! 0)"] by (simp add: ip_hlen_def)

lemma IPH_V_nat: "IPH_V m = 4 \<longleftrightarrow> unat (m ! 0) div 16 = 4"
  by (simp add: IPH_V_def byte_at_def word_unat_eq_iff drop_bit_eq_div unat_div_distrib)

lemma IPH_HL_nat: "unat (IPH_HL_BYTES m) = ip_hlen m" "IPH_HL_BYTES m = of_nat (ip_hlen m)"
proof -
  have "unat (IPH_HL m) = unat (m ! 0) mod 16"
  proof -
    have "IPH_HL m = take_bit 4 (m ! 0)" by (simp add: IPH_HL_def byte_at_def take_bit_eq_mask mask_eq_exp_minus_1)
    then show ?thesis by (simp add: take_bit_eq_mod unat_mod_distrib)
  qed
  moreover have "unat (m ! 0) mod 16 * 4 < 256" using mod_less_divisor [of 16 "unat (m ! 0)"] by linarith
  ultimately show "unat (IPH_HL_BYTES m) = ip_hlen m"
    by (simp add: IPH_HL_BYTES_def unat_word_ariths ip_hlen_def mult.commute)
  then show "IPH_HL_BYTES m = of_nat (ip_hlen m)" by (metis of_nat_unat ucast_id)
qed

lemma htons_0 [simp]: "lwip_htons w = 0 \<longleftrightarrow> w = 0"
proof
  assume "lwip_htons w = 0"
  then have "lwip_htons 0 = w" using htons_htons [of w] by simp
  then show "w = 0" by (simp add: lwip_htons_def PP_HTONS_def)
qed (simp add: lwip_htons_def PP_HTONS_def)

lemma fragment_nat: "IPH_OFFSET m AND PP_HTONS (IP_OFFMASK OR IP_MF) = 0 \<longleftrightarrow> be16 m 6 mod 16384 = 0"
proof -
  let ?v = "of_nat (be16 m 6) :: u16"
  have "IPH_OFFSET m AND PP_HTONS (IP_OFFMASK OR IP_MF) = lwip_htons (?v AND mask 14)"
    unfolding IPH_OFFSET_def half_at_be(2) lwip_htons_def [symmetric]
    by (rule bit_word_eqI) (simp add: bit_htons bit_simps ip_consts mask_eq_exp_minus_1)
  moreover have "?v AND mask 14 = 0 \<longleftrightarrow> be16 m 6 mod 16384 = 0"
    by (simp add: word_unat_eq_iff unat_mod_distrib take_bit_eq_mod flip: take_bit_eq_mask)
  ultimately show ?thesis by simp
qed

section \<open>A received buffer\<close>

text \<open>One buffer of the pool that holds the whole packet, as the receive callback fills it; there is room for the longest header
  and a port behind the payload pointer.\<close>

definition rx_buf :: "pbuf \<Rightarrow> bool" where
  "rx_buf b \<longleftrightarrow> pb_next b = None \<and> pb_ref b = 1 \<and> pb_flags b AND PBUF_FLAG_IS_CUSTOM = 0
     \<and> pb_type_internal b = ucast (pbuf_type_code PBUF_POOL) \<and> pb_tot_len b = pb_len b
     \<and> (\<exists>a. pb_payload b = Some a \<and> a + unat (pb_len b) \<le> length (pb_mem b) \<and> a + 64 \<le> length (pb_mem b))"

lemma rx_src: "rx_buf b \<Longrightarrow> pbuf_get_allocsrc b = ALLOC_SRC_STD_MEMP_PBUF_POOL"
  by (simp add: rx_buf_def pbuf_get_allocsrc_def pbuf_consts)

definition rx_freed :: "nat \<Rightarrow> ('h, 'x, 'k) fw \<Rightarrow> ('h, 'x, 'k) fw" where
  "rx_freed e s = s\<lparr>world := (world s)\<lparr>pbufs := (pbufs (world s))\<lparr>pb_obj := (objs s)(PoolPbuf e := None),
     pool_PBUF_POOL := do_memp_free_pool (pool_PBUF_POOL (pbufs (world s))) e\<rparr>\<rparr>\<rparr>"

lemma rx_freed_simps [simp]: "objs (rx_freed e s) = (objs s)(PoolPbuf e := None)" "ncm_if (rx_freed e s) = ncm_if s"
    "rx_freed e (with_buf (PoolPbuf e) b s) = rx_freed e s" "net (world (rx_freed e s)) = net (world s)"
  by (simp_all add: rx_freed_def with_buf_def)

lemma run_free:
  assumes "objs s (PoolPbuf e) = Some b" "rx_buf b"
  shows "lw_pbuf (pbuf_free E (Some (PoolPbuf e))) s = Inr (1, rx_freed e s)"
proof -
  obtain k where fuel: "chain_fuel = Suc (Suc k)" using that [of 65535] by (simp add: chain_fuel_def)
  have src: "pbuf_get_allocsrc (pb_ref_update f b) = ALLOC_SRC_STD_MEMP_PBUF_POOL" for f
    using rx_src [OF assms(2)] by (simp add: pbuf_get_allocsrc_def)
  show ?thesis
    using assms src unfolding pbuf_free_def fuel
    by (simp add: rx_buf_def pbuf_dealloc_def pb_drop_def act_defs lw_pbuf_def in_world_def in_pbufs_def rx_freed_def)
qed

lemma run_drop: "objs s (PoolPbuf e) = Some b \<Longrightarrow> rx_buf b \<Longrightarrow> drop_packet E (Some (PoolPbuf e)) s = Inr ((), rx_freed e s)"
  by (simp add: drop_packet_def act_bind_def act_return_def run_free)

definition shorten :: "u16 \<Rightarrow> pbuf \<Rightarrow> pbuf" where "shorten n b = b\<lparr>pb_len := n, pb_tot_len := n\<rparr>"

lemma shorten_same: "rx_buf b \<Longrightarrow> shorten (pb_len b) b = b"
  by (rule pbuf.equality) (simp_all add: shorten_def rx_buf_def)

lemma rx_shorten: "rx_buf b \<Longrightarrow> n \<le> pb_len b \<Longrightarrow> rx_buf (shorten n b)"
  by (auto simp: rx_buf_def shorten_def word_le_nat_alt)

lemma run_realloc:
  assumes b: "objs s x = Some b" "rx_buf b" and n: "n < pb_tot_len b"
  shows "lw_pbuf (pbuf_realloc E (Some x) n) s = Inr ((), with_buf x (shorten n b) s)"
proof -
  obtain k where fuel: "chain_fuel = Suc k" using that [of 65536] by (simp add: chain_fuel_def)
  have "\<not> n > pb_len b" "\<not> n \<ge> pb_tot_len b" using b(2) n by (simp_all add: rx_buf_def)
  moreover have "b\<lparr>pb_len := n, pb_tot_len := n, pb_next := None\<rparr> = shorten n b"
    using b(2) by (intro pbuf.equality) (simp_all add: shorten_def rx_buf_def)
  ultimately show ?thesis
    using b rx_src [OF b(2)] unfolding pbuf_realloc_def fuel
    by (simp add: rx_buf_def act_defs lw_pbuf_def in_world_def in_pbufs_def with_buf_def pbuf_consts)
qed

lemma mem_bytes_at: "mem_bytes (a + i) n M = take n (drop i (drop a M))"
  by (simp add: mem_bytes_def add.commute)

section \<open>The decision\<close>

datatype verdict = Ip_Drop | Ip_Fragment | Ip_Accept

text \<open>\<open>m\<close> is the memory from the packet on and \<open>l\<close> the length of the packet.\<close>

definition ip_verdict :: "netif \<Rightarrow> u8 list \<Rightarrow> nat \<Rightarrow> verdict" where
  "ip_verdict n m l =
     (if unat (m ! 0) div 16 \<noteq> 4 then Ip_Drop
      else if ip_hlen m < 20 \<or> be16 m 2 < ip_hlen m \<or> l < be16 m 2 then Ip_Drop
      else if rfc1071 (take (ip_hlen m) m) \<noteq> 0 then Ip_Drop
      else if (if for_netif n (iph_dest m) then \<not> ip4_bad_src n (iph_src m)
               else unat (m ! 9) = 17 \<and> be16 m (ip_hlen m + 2) = 67)
      then if be16 m 6 mod 16384 \<noteq> 0 then Ip_Fragment else Ip_Accept
      else Ip_Drop)"

text \<open>The packet cut to its length, and its addresses noted.\<close>

definition received :: "pptr \<Rightarrow> pbuf \<Rightarrow> u8 list \<Rightarrow> ('h, 'z, 'k) ifw \<Rightarrow> ('h, 'z, 'k) ifw" where
  "received x b m s = with_buf x (shorten (of_nat (be16 m 2)) b)
     (with_ip (ip_data_update (\<lambda>d. d\<lparr>current_iphdr_dest := iph_dest m, current_iphdr_src := iph_src m\<rparr>)) s)"

lemma take_fields:
  assumes "20 \<le> k"
  shows "iph_dest (take k m) = iph_dest m" "iph_src (take k m) = iph_src m" "IPH_PROTO (take k m) = IPH_PROTO m"
    "IPH_OFFSET (take k m) = IPH_OFFSET m" "IPH_HL_BYTES (take k m) = IPH_HL_BYTES m"
  using assms by (simp_all add: iph_dest_def iph_src_def word_at_def rd32_def rd16_def IPH_PROTO_def byte_at_def IPH_OFFSET_def
      half_at_def IPH_HL_BYTES_def IPH_HL_def)

lemma with_ip_same: "with_ip (ip_data_update (\<lambda>d. d)) s = s"
proof -
  have "ip_data_update (\<lambda>d. d) i = i" for i :: "'a ip_stack" by (rule ip_stack.equality) simp_all
  then show ?thesis by (simp add: with_ip_def)
qed

lemma run_set_data [simp]: "set_ip_data f s = Inr ((), with_ip (ip_data_update f) s)"
  by (simp add: set_ip_data_def)

lemma read_at: "pb_obj t x = Some b \<Longrightarrow> a + off + n \<le> length (pb_mem b) \<Longrightarrow>
    at_read (x, a) off n t = Inr (mem_bytes (a + off) n (pb_mem b), t)"
  by (simp add: at_read_def act_defs)

lemma lw_pbuf_pure: "m (pbufs (world s)) = Inr (r, pbufs (world s)) \<Longrightarrow> lw_pbuf m s = Inr (r, s)"
  by (simp add: lw_pbuf_def in_world_def in_pbufs_def)

lemma if_run: "(if c then f else g) s = (if c then f s else g s)"
  by simp

lemma run_match:
  assumes b: "objs s x = Some b" and a: "a + 64 \<le> length (pb_mem b)" and m: "m = drop a (pb_mem b)" and hl: "20 \<le> ip_hlen m"
  shows "\<exists>ours check. lw_pbuf (ip4_match n (x, a) (take (ip_hlen m) m)) s = Inr ((ours, check), s)
    \<and> (ours \<and> \<not> (check \<and> ip4_bad_src n (iph_src m)) \<longleftrightarrow>
      (if for_netif n (iph_dest m) then \<not> ip4_bad_src n (iph_src m) else unat (m ! 9) = 17 \<and> be16 m (ip_hlen m + 2) = 67))"
proof -
  have bound: "a + (ip_hlen m + 2) + 2 \<le> length (pb_mem b)" using a ip_hlen_bound [of m] by linarith
  have port: "half_at (mem_bytes (a + (ip_hlen m + 2)) 2 (pb_mem b)) 0 = half_at m (ip_hlen m + 2)"
    using bound by (simp add: mem_bytes_def half_at_def rd16_def m)
  have port_67: "(67 :: u16) = of_nat (be16 m i) \<longleftrightarrow> be16 m i = 67" for i by (simp add: word_unat_eq_iff)
  have "LWIP_IP_ACCEPT_UDP_PORT (half_at m (ip_hlen m + 2)) \<longleftrightarrow> be16 m (ip_hlen m + 2) = 67"
    unfolding LWIP_IP_ACCEPT_UDP_PORT_def half_at_be(2)
    using be16_bound [of m "ip_hlen m + 2"]
    by (metis htons_htons lwip_htons_def port_67 unat_be16)
  moreover have "IPH_PROTO m = IP_PROTO_UDP \<longleftrightarrow> unat (m ! 9) = 17"
    by (simp add: IPH_PROTO_def byte_at_def ip_consts word_unat_eq_iff)
  ultimately show ?thesis
    using read_at [OF b bound] port take_fields [OF hl, of m] IPH_HL_nat(1) [of m]
    by (auto simp: ip4_match_def lw_pbuf_pure act_bind_def act_return_def) blast+
qed

lemma receive_run:
  assumes b: "objs s (PoolPbuf e) = Some b" "rx_buf b" and a: "a + 64 \<le> length (pb_mem b)" and m: "m = drop a (pb_mem b)"
    and hl: "20 \<le> ip_hlen m" and p: "p = Some (PoolPbuf e)"
    and f: "f = (\<lambda>d. d\<lparr>current_iphdr_dest := iph_dest m, current_iphdr_src := iph_src m\<rparr>)"
  shows "ip4_receive E p n (PoolPbuf e, a) (take (ip_hlen m) m) s =
    (if (if for_netif n (iph_dest m) then \<not> ip4_bad_src n (iph_src m) else unat (m ! 9) = 17 \<and> be16 m (ip_hlen m + 2) = 67)
     then if be16 m 6 mod 16384 \<noteq> 0
       then act_bind (ip4_reass E p) (\<lambda>r. if r = None then act_return () else ip4_deliver E r n (of_nat (ip_hlen m))) (with_ip (ip_data_update f) s)
       else ip4_deliver E p n (of_nat (ip_hlen m)) (with_ip (ip_data_update f) s)
     else Inr ((), rx_freed e (with_ip (ip_data_update f) s)))"
proof -
  let ?s = "with_ip (ip_data_update f) s"
  have b': "objs ?s (PoolPbuf e) = Some b" using b(1) by simp
  obtain ours check where r: "lw_pbuf (ip4_match n (PoolPbuf e, a) (take (ip_hlen m) m)) ?s = Inr ((ours, check), ?s)"
      "ours \<and> \<not> (check \<and> ip4_bad_src n (iph_src m)) \<longleftrightarrow>
        (if for_netif n (iph_dest m) then \<not> ip4_bad_src n (iph_src m) else unat (m ! 9) = 17 \<and> be16 m (ip_hlen m + 2) = 67)"
    using run_match [OF b' a m hl] by blast
  show ?thesis
    unfolding ip4_receive_def take_fields [OF hl] f [symmetric] r(2) [symmetric] unfolding IPH_HL_nat(2) fragment_nat
    using r(1) run_drop [OF b' b(2)] by (auto simp: act_bind_def p)
qed

text \<open>The lengths that the code compares.\<close>

lemma length_checks:
  assumes "rx_buf b" "l = of_nat (be16 m 2)" "c = (if l < pb_tot_len b then shorten l b else b)"
  shows "(ucast (IPH_HL_BYTES m) > pb_len c \<or> l > pb_tot_len c \<or> unat (ucast (IPH_HL_BYTES m) :: u16) < IP_HLEN) \<longleftrightarrow>
      (ip_hlen m < 20 \<or> be16 m 2 < ip_hlen m \<or> unat (pb_len b) < be16 m 2)"
    "\<not> unat (pb_len b) < be16 m 2 \<Longrightarrow> c = shorten l b"
proof -
  have h: "unat (ucast (IPH_HL_BYTES m) :: u16) = ip_hlen m"
    using IPH_HL_nat(1) [of m] ip_hlen_bound [of m] by (simp add: unsigned_ucast_eq take_bit_nat_eq_self)
  have l: "unat l = be16 m 2" "pb_tot_len b = pb_len b" using assms(1,2) by (simp_all add: rx_buf_def)
  show "(ucast (IPH_HL_BYTES m) > pb_len c \<or> l > pb_tot_len c \<or> unat (ucast (IPH_HL_BYTES m) :: u16) < IP_HLEN) \<longleftrightarrow>
      (ip_hlen m < 20 \<or> be16 m 2 < ip_hlen m \<or> unat (pb_len b) < be16 m 2)"
    using l h by (auto simp: assms(3) word_less_nat_alt IP_HLEN_def shorten_def)
  show "c = shorten l b" if "\<not> unat (pb_len b) < be16 m 2"
  proof (cases "l < pb_tot_len b")
    case False
    then have "l = pb_len b" using that l by (auto simp: word_less_nat_alt word_unat_eq_iff)
    then show ?thesis using False shorten_same [OF assms(1)] assms(3) by simp
  qed (simp add: assms(3))
qed

lemma ip4_input_run:
  assumes b: "objs s (PoolPbuf e) = Some b" "rx_buf b" and a: "pb_payload b = Some a" and m: "m = drop a (pb_mem b)"
    and p: "p = Some (PoolPbuf e)"
  shows "case ip_verdict n m (unat (pb_len b)) of
      Ip_Drop \<Rightarrow> \<exists>f. ip4_input_ip E p n s = Inr ((), rx_freed e (with_ip (ip_data_update f) s))
    | Ip_Fragment \<Rightarrow> ip4_input_ip E p n s = act_bind (ip4_reass E p) (\<lambda>r. if r = None then act_return ()
        else ip4_deliver E r n (of_nat (ip_hlen m))) (received (PoolPbuf e) b m s)
    | Ip_Accept \<Rightarrow> ip4_input_ip E p n s = ip4_deliver E p n (of_nat (ip_hlen m)) (received (PoolPbuf e) b m s)"
proof -
  have a64: "a + 64 \<le> length (pb_mem b)" using a b(2) by (auto simp: rx_buf_def)
  let ?l = "of_nat (be16 m 2) :: u16" and ?x = "PoolPbuf e"
  define c where "c = (if ?l < pb_tot_len b then shorten ?l b else b)"
  note len = length_checks [OF b(2) refl c_def]
  have rl: "(if ?l < pb_tot_len b then lw_pbuf (pbuf_realloc (ip_mem E) (Some ?x) ?l) s else act_return () s) = Inr ((), with_buf ?x c s)"
    using run_realloc [OF b] b(1) by (auto simp: act_return_def with_buf_def c_def fun_upd_idem)
  have rx: "rx_buf c" using rx_shorten [OF b(2)] b(2) by (auto simp: rx_buf_def c_def)
  have c: "objs (with_buf ?x c s) ?x = Some c" "pb_mem c = pb_mem b" by (simp_all add: c_def shorten_def)
  have v: "IPH_V (mem_bytes a (Suc 0) (pb_mem b)) = IPH_V m" "IPH_HL_BYTES (mem_bytes a (Suc 0) (pb_mem b)) = IPH_HL_BYTES m"
    "lwip_htons (half_at (mem_bytes (Suc (Suc a)) 2 (pb_mem b)) 0) = ?l"
    using a64 half_at_be(1) [of m 2]
    by (simp_all add: m mem_bytes_def IPH_V_def IPH_HL_BYTES_def IPH_HL_def byte_at_def half_at_def rd16_def numeral_3_eq_3)
  have hl: "unat (ucast (IPH_HL_BYTES m) :: u16) = ip_hlen m"
    using IPH_HL_nat(1) [of m] ip_hlen_bound [of m] by (simp add: unsigned_ucast_eq take_bit_nat_eq_self)
  have hdr: "lw_pbuf (at_read (?x, a) 0 (ip_hlen m)) (with_buf ?x c s) = Inr (take (ip_hlen m) m, with_buf ?x c s)"
    using run_at_read [OF c(1), of a 0 "ip_hlen m"] c(2) a64 ip_hlen_bound [of m] by (simp add: mem_bytes_def m)
  have chk: "inet_chksum od (take (ip_hlen m) m) (ucast (IPH_HL_BYTES m)) = rfc1071 (take (ip_hlen m) m)" for od
    by (simp add: inet_chksum_take hl)
  have dr: "drop_packet E (Some ?x) s = Inr ((), rx_freed e s)" "drop_packet E (Some ?x) (with_buf ?x c s) = Inr ((), rx_freed e s)"
    using run_drop [OF b] run_drop [OF c(1) rx] by simp_all
  have eq: "ip4_input_ip E p n s =
     (if IPH_V m \<noteq> 4 then Inr ((), rx_freed e s)
      else if ip_hlen m < 20 \<or> be16 m 2 < ip_hlen m \<or> unat (pb_len b) < be16 m 2 then Inr ((), rx_freed e s)
      else if inet_chksum (ptr_odd (ip_at E) (?x, a)) (take (ip_hlen m) m) (ucast (IPH_HL_BYTES m)) \<noteq> 0 then Inr ((), rx_freed e s)
      else ip4_receive E p n (?x, a) (take (ip_hlen m) m) (with_buf ?x c s))"
    unfolding ip4_input_ip_def len(1) [symmetric] using a64
    by (simp add: act_bind_def p b(1) a v rl dr hl hdr Let_def c(1) if_run del: with_buf_simps split del: if_split cong: if_cong)
  show ?thesis
  proof (cases "IPH_V m \<noteq> 4 \<or> ip_hlen m < 20 \<or> be16 m 2 < ip_hlen m \<or> unat (pb_len b) < be16 m 2
      \<or> inet_chksum (ptr_odd (ip_at E) (?x, a)) (take (ip_hlen m) m) (ucast (IPH_HL_BYTES m)) \<noteq> 0")
    case True
    have "ip4_input_ip E p n s = Inr ((), rx_freed e (with_ip (ip_data_update (\<lambda>d. d)) s))"
      unfolding with_ip_same using True eq by auto
    moreover have "ip_verdict n m (unat (pb_len b)) = Ip_Drop"
      using True chk by (auto simp: ip_verdict_def IPH_V_nat)
    ultimately show ?thesis by auto
  next
    case False
    then have "c = shorten ?l b" "20 \<le> ip_hlen m" using len(2) by auto
    moreover have "a + 64 \<le> length (pb_mem c)" "m = drop a (pb_mem c)" using c(2) a64 m by simp_all
    ultimately show ?thesis
      using False eq chk receive_run [OF c(1) rx _ _ _ p refl, of a m E n]
      by (auto simp: ip_verdict_def IPH_V_nat received_def)
  qed
qed

end
