(* ===== verification/Lwip_Icmp.thy ===== *)
theory Lwip_Icmp
  imports Lwip_IpIn
begin

text \<open>Echo requests: the reply that is made of a request, in place, with both checksums in order.\<close>

section \<open>Writing into a byte string\<close>

lemma take_mem_write: "i + length bs \<le> k \<Longrightarrow> take k (mem_write i bs xs) = mem_write i bs (take k xs)"
    "k \<le> i \<Longrightarrow> i \<le> length xs \<Longrightarrow> take k (mem_write i bs xs) = take k xs"
proof -
  assume "i + length bs \<le> k"
  then obtain d where "k = i + length bs + d" by (auto simp: le_iff_add)
  then show "take k (mem_write i bs xs) = mem_write i bs (take k xs)" by (auto simp: mem_write_def take_drop min_def ac_simps)
next
  assume "k \<le> i" "i \<le> length xs"
  then show "take k (mem_write i bs xs) = take k xs" by (simp add: mem_write_def min_def)
qed

lemma drop_mem_write: "k \<le> i \<Longrightarrow> i \<le> length xs \<Longrightarrow> drop k (mem_write i bs xs) = mem_write (i - k) bs (drop k xs)"
    "i + length bs \<le> k \<Longrightarrow> i + length bs \<le> length xs \<Longrightarrow> drop k (mem_write i bs xs) = drop k xs"
  by (auto simp: mem_write_def drop_take min_def)

lemma nth_mem_write:
  assumes "j < length xs" "i + length bs \<le> length xs"
  shows "mem_write i bs xs ! j = (if i \<le> j \<and> j < i + length bs then bs ! (j - i) else xs ! j)"
  using assms by (auto simp: mem_write_def nth_append min_def)

lemma mem_write_two: "i + 1 < length xs \<Longrightarrow> mem_write i (le16 c) xs = xs[i := ucast c, i + 1 := ucast (drop_bit 8 c)]"
  by (rule nth_equalityI) (auto simp: length_mem_write nth_mem_write nth_list_update le16_def nth_Cons')

section \<open>The reply\<close>

text \<open>The bytes of the reply: \<open>m\<close> is the memory from the IP header on, \<open>hl\<close> the length of the header.\<close>

definition echo_fields :: "ip4_addr_t \<Rightarrow> ip4_addr_t \<Rightarrow> nat \<Rightarrow> u8 list \<Rightarrow> u8 list" where
  "echo_fields src dest hl m = mem_write 10 (le16 0) (mem_write 8 [ICMP_TTL]
     (mem_write (hl + 2) (le16 (echo_chksum (half_at m (hl + 2)))) (mem_write hl [ICMP_ER]
     (mem_write 16 (le32 dest) (mem_write 12 (le32 src) m)))))"

definition echo_bytes :: "ip4_addr_t \<Rightarrow> ip4_addr_t \<Rightarrow> nat \<Rightarrow> u8 list \<Rightarrow> u8 list" where
  "echo_bytes src dest hl m = mem_write 10 (le16 (rfc1071 (take hl (echo_fields src dest hl m)))) (echo_fields src dest hl m)"

text \<open>What an echo reply is, as an answer to the packet \<open>D\<close> with a header of \<open>hl\<close> bytes.\<close>

definition is_echo_reply :: "ip4_addr_t \<Rightarrow> ip4_addr_t \<Rightarrow> nat \<Rightarrow> u8 list \<Rightarrow> u8 list \<Rightarrow> bool" where
  "is_echo_reply src dest hl D R \<longleftrightarrow> length R = length D \<and> iph_src R = src \<and> iph_dest R = dest \<and> R ! 8 = 255
     \<and> (\<forall>i < 8. R ! i = D ! i) \<and> R ! 9 = D ! 9 \<and> take (hl - 20) (drop 20 R) = take (hl - 20) (drop 20 D)
     \<and> R ! hl = 0 \<and> R ! (hl + 1) = D ! (hl + 1) \<and> drop (hl + 4) R = drop (hl + 4) D
     \<and> rfc1071 (take hl R) = 0 \<and> rfc1071 (drop hl R) = 0"

lemma rfc1071_0: "rfc1071 bs = 0 \<longleftrightarrow> ones (word_sum bs) = 65535"
proof -
  have "unat (of_nat (65535 - ones (word_sum bs)) :: u16) = 65535 - ones (word_sum bs)"
    by (simp only: unsigned_of_nat take_bit_nat_eq_self of_nat_id) (simp add: take_bit_nat_eq_self)
  then show ?thesis using ones_bound [of "word_sum bs"] unfolding rfc1071_def word_unat_eq_iff unat_0 by linarith
qed

lemma ones_65535: "ones n = 65535 \<longleftrightarrow> 0 < n \<and> n mod 65535 = 0"
proof (cases "n = 0")
  case False
  then have "0 < ones n" "ones n < 65536" using ones_0 [of n] ones_bound [of n] by auto
  then have "ones n < 65535 \<or> ones n = 65535" by linarith
  then have "ones n = 65535 \<longleftrightarrow> ones n mod 65535 = 0" using \<open>0 < ones n\<close> by auto
  then show ?thesis using False ones_mod [of n] by simp
qed (simp add: ones_def)

lemma echo_chksum_nat: "unat (echo_chksum c) = (if unat c > 65527 then unat c + 9 - 65536 else unat c + 8)"
proof -
  have k: "PP_HTONS (0xFFFF - push_bit 8 (ucast ICMP_ECHO)) = 0xFFF7" "PP_HTONS (push_bit 8 (ucast ICMP_ECHO)) = 8"
    by (simp_all add: PP_HTONS_def ICMP_ECHO_def push_bit_eq_mult drop_bit_eq_div)
  have "echo_chksum c = (if unat c > 65527 then c + 9 else c + 8)"
    unfolding echo_chksum_def k by (simp add: word_less_nat_alt)
  moreover have "unat (c + 8) = unat c + 8" if "\<not> unat c > 65527" using that by (simp add: unat_u16_add)
  moreover have "unat (c + 9) = unat c + 9 - 65536" if "unat c > 65527"
  proof -
    have "unat (c + 9) = (unat c + 9) mod 65536" by (simp add: unat_word_ariths)
    moreover define k where "k = unat c - 65527"
    have "unat c + 9 = 65536 + k" "k < 65536" using that unat_u16_bound [of c] unfolding k_def by linarith+
    ultimately show ?thesis by simp
  qed
  ultimately show ?thesis by simp
qed

lemma mod_shift: "65535 < n \<Longrightarrow> n mod 65535 = 0 \<Longrightarrow> (n - 65535) mod 65535 = 0" for n :: nat
  by (metis le_mod_geq less_imp_le)

lemma echo_sum:
  assumes "4 \<le> length bs" "bs ! 0 = 8" "rfc1071 bs = 0" and bs': "bs' = mem_write 2 (le16 (echo_chksum (half_at bs 2))) (mem_write 0 [0] bs)"
  shows "rfc1071 bs' = 0"
proof -
  have "\<exists>t cd c0 c1 rest. bs = t # cd # c0 # c1 # rest" using assms(1) by (auto simp: Suc_le_length_iff numeral_eq_Suc)
  then obtain cd c0 c1 rest where bs: "bs = 8 # cd # c0 # c1 # rest" using assms(2) by auto
  define c where "c = half_at bs 2"
  have c: "unat c = unat c0 + 256 * unat c1" using unat_rd16 [of c0 c1] by (simp add: c_def half_at_def bs rd16_def)
  define w where "w = word_sum rest + 256 * unat cd"
  have "bs' = 0 # cd # le16 (echo_chksum c) @ rest" by (simp add: bs' c_def bs mem_write_def)
  then have s': "word_sum bs' = unat (echo_chksum c) + w" by (simp add: word_sum_le16 w_def)
  have s: "word_sum bs = 8 + unat c + w" using c by (simp add: bs w_def)
  have "0 < word_sum bs" "word_sum bs mod 65535 = 0" using assms(3) by (simp_all add: rfc1071_0 ones_65535)
  moreover have "word_sum bs' = (if unat c > 65527 then word_sum bs - 65535 else word_sum bs)" unfolding s s' echo_chksum_nat by simp
  moreover have "unat c > 65527 \<Longrightarrow> 65535 < word_sum bs" unfolding s by simp
  ultimately have "0 < word_sum bs'" "word_sum bs' mod 65535 = 0" using mod_shift by (auto split: if_splits)
  then show ?thesis by (simp add: rfc1071_0 ones_65535)
qed

lemma echo_take:
  assumes "20 \<le> hl" "hl + 8 \<le> k" "k \<le> length m"
  shows "take k (echo_bytes src dest hl m) = echo_bytes src dest hl (take k m)"
proof -
  have h: "half_at m (hl + 2) = half_at (take k m) (hl + 2)" using assms by (simp add: half_at_def rd16_def)
  have f: "take k (echo_fields src dest hl m) = echo_fields src dest hl (take k m)"
    unfolding echo_fields_def h [symmetric] using assms by (simp add: take_mem_write(1))
  have "take hl (echo_fields src dest hl m) = take hl (echo_fields src dest hl (take k m))"
    using arg_cong [OF f, of "take hl"] assms by (simp add: min_def)
  then show ?thesis unfolding echo_bytes_def using f assms by (simp add: take_mem_write(1))
qed

lemma echo_length:
  assumes "20 \<le> hl" "hl + 8 \<le> length D"
  shows "length (echo_fields src dest hl D) = length D" "length (echo_bytes src dest hl D) = length D"
  using assms by (simp_all add: echo_bytes_def echo_fields_def length_mem_write)

lemma echo_nth:
  assumes "20 \<le> hl" "hl + 8 \<le> length D" "j < length D"
  shows "echo_fields src dest hl D ! j =
    (if j = 8 then 255 else if j = 10 \<or> j = 11 then 0 else if 12 \<le> j \<and> j < 16 then le32 src ! (j - 12)
     else if 16 \<le> j \<and> j < 20 then le32 dest ! (j - 16) else if j = hl then 0
     else if hl + 2 \<le> j \<and> j < hl + 4 then le16 (echo_chksum (half_at D (hl + 2))) ! (j - (hl + 2)) else D ! j)"
  unfolding echo_fields_def using assms
  by (simp add: nth_mem_write length_mem_write icmp_consts ip_consts le16_def [of 0] nth_Cons' cong: if_cong)

lemma word_at_le32:
  assumes "\<forall>k < 4. m ! (i + k) = le32 v ! k"
  shows "word_at m i = v"
proof -
  have "m ! i = le32 v ! 0" "m ! (i + 1) = le32 v ! 1" "m ! (i + 2) = le32 v ! 2" "m ! (i + 3) = le32 v ! 3"
    using assms [rule_format, of 0] assms [rule_format, of 1] assms [rule_format, of 2] assms [rule_format, of 3] by simp_all
  then have "word_at m i = rd32 (\<lambda>j. le32 v ! j) 0" by (simp add: word_at_def rd32_def rd16_def numeral_3_eq_3 numeral_2_eq_2)
  also have "\<dots> = v" unfolding rd32_def rd16_def le32_def le16_def by (rule bit_word_eqI) (auto simp: bit_simps)
  finally show ?thesis .
qed

lemma echo_bytes_nth:
  assumes "20 \<le> hl" "hl + 8 \<le> length D" "j < length D" "j \<noteq> 10" "j \<noteq> 11"
  shows "echo_bytes src dest hl D ! j = echo_fields src dest hl D ! j"
proof -
  have "\<not> (10 \<le> j \<and> j < 12)" using assms(4,5) by presburger
  then show ?thesis using assms(1-3) by (auto simp: echo_bytes_def nth_mem_write echo_length)
qed

lemma echo_addrs:
  assumes "20 \<le> hl" "hl + 8 \<le> length D"
  shows "iph_src (echo_bytes src dest hl D) = src" "iph_dest (echo_bytes src dest hl D) = dest"
  unfolding iph_src_def iph_dest_def
  by (rule word_at_le32; use assms in \<open>simp add: echo_bytes_nth [OF assms] echo_nth [OF assms]\<close>)+

lemma echo_reply_ok:
  assumes hl: "20 \<le> hl" "hl + 8 \<le> length D" and t: "D ! hl = 8" and c: "rfc1071 (drop hl D) = 0"
  shows "is_echo_reply src dest hl D (echo_bytes src dest hl D)"
proof -
  let ?R = "echo_bytes src dest hl D" and ?F = "echo_fields src dest hl D"
  note nth = echo_bytes_nth [OF hl] echo_nth [OF hl]
  have b: "?R ! 8 = 255" "?R ! 9 = D ! 9" "\<forall>i < 8. ?R ! i = D ! i" "?R ! hl = 0" "?R ! (hl + 1) = D ! (hl + 1)"
    using hl by (simp_all add: nth)
  have d: "take (hl - 20) (drop 20 ?R) = take (hl - 20) (drop 20 D)" "drop (hl + 4) ?R = drop (hl + 4) D"
    by (rule nth_equalityI; use hl in \<open>auto simp: nth echo_length\<close>)+
  have z: "take hl ?F ! (2 * 5) = 0" "take hl ?F ! (2 * 5 + 1) = 0" "2 * 5 + 1 < length (take hl ?F)" using hl by (simp_all add: nth echo_length)
  have "take hl ?R = (take hl ?F)[2 * 5 := ucast (rfc1071 (take hl ?F)), 2 * 5 + 1 := ucast (drop_bit 8 (rfc1071 (take hl ?F)))]"
    using hl mem_write_two [of 10 "take hl ?F"] by (simp add: echo_bytes_def take_mem_write echo_length)
  then have v: "rfc1071 (take hl ?R) = 0" using rfc1071_verifies [OF z(3) z(1,2)] by simp
  have h: "half_at D (hl + 2) = half_at (drop hl D) 2" using hl by (simp add: half_at_def rd16_def numeral_3_eq_3)
  have "drop hl ?R = mem_write 2 (le16 (echo_chksum (half_at (drop hl D) 2))) (mem_write 0 [0] (drop hl D))"
    unfolding echo_bytes_def echo_fields_def h using hl by (simp add: drop_mem_write length_mem_write icmp_consts)
  then have "rfc1071 (drop hl ?R) = 0" using echo_sum [OF _ _ c refl] t hl by simp
  then show ?thesis unfolding is_echo_reply_def using echo_addrs [OF hl] b d v echo_length [OF hl] by simp
qed

end
