(* ===== verification/Lwip_Ping.thy ===== *)
theory Lwip_Ping
  imports Lwip_Icmp
begin

text \<open>The way of an echo request through the IP layer and of its reply back to the interface.\<close>

section \<open>Moving over headers\<close>

definition skip :: "nat \<Rightarrow> pbuf \<Rightarrow> pbuf" where
  "skip k b = b\<lparr>pb_payload := map_option (\<lambda>a. a + k) (pb_payload b), pb_len := pb_len b - of_nat k, pb_tot_len := pb_tot_len b - of_nat k\<rparr>"

lemma small_words: "k < 65536 \<Longrightarrow> unat (of_nat k :: u32) = k" "k < 65536 \<Longrightarrow> unat (of_nat k :: u16) = k"
    "k < 65536 \<Longrightarrow> ucast (of_nat k :: u32) = (of_nat k :: u16)"
  by (simp_all add: unsigned_of_nat take_bit_nat_eq_self word_unat_eq_iff unsigned_ucast_eq)

lemma byte_words: "k < 256 \<Longrightarrow> ucast (of_nat k :: u8) = (of_nat k :: u32)" "k < 256 \<Longrightarrow> unat (of_nat k :: u8) = k"
  by (simp_all add: unsigned_of_nat take_bit_nat_eq_self word_unat_eq_iff unsigned_ucast_eq)

lemma byte_word16: "k < 256 \<Longrightarrow> unat (ucast (of_nat k :: u8) :: u16) = k"
  by (simp add: unsigned_of_nat take_bit_nat_eq_self unsigned_ucast_eq)

lemma run_remove_header:
  assumes "objs s x = Some b" "0 < k" "k \<le> unat (pb_len b)"
  shows "lw_pbuf (pbuf_remove_header (Some x) (of_nat k)) s = Inr (False, with_buf x (skip k b) s)"
proof -
  have k: "k < 65536" using assms(3) unat_u16_bound [of "pb_len b"] by linarith
  then have "(of_nat k :: u32) \<noteq> 0" "\<not> 0xFFFF < (of_nat k :: u32)" "(of_nat k :: u16) \<le> pb_len b"
    using assms(2,3) small_words [OF k] by (auto simp: word_unat_eq_iff word_less_nat_alt word_le_nat_alt)
  then show ?thesis
    using assms(1) small_words [OF k]
    by (simp add: pbuf_remove_header_def act_defs Let_def lw_pbuf_def in_world_def in_pbufs_def with_buf_def skip_def)
qed

lemma with_buf_same: "objs s x = Some b \<Longrightarrow> with_buf x b s = s"
  by (simp add: with_buf_def fun_upd_idem)

lemma skip_back:
  assumes "pb_payload b = Some a"
  shows "(skip k b)\<lparr>pb_payload := map_option (\<lambda>a. a - k) (pb_payload (skip k b)), pb_len := pb_len (skip k b) + of_nat k,
    pb_tot_len := pb_tot_len (skip k b) + of_nat k\<rparr> = b"
  using assms by (intro pbuf.equality) (simp_all add: skip_def)

lemma back_skip:
  assumes "headroom k b"
  shows "skip k (b\<lparr>pb_payload := map_option (\<lambda>a. a - k) (pb_payload b), pb_len := pb_len b + of_nat k, pb_tot_len := pb_tot_len b + of_nat k\<rparr>) = b"
  using assms by (intro pbuf.equality) (auto simp: skip_def headroom_def)

section \<open>The reply is made and sent\<close>

text \<open>A buffer with room for the link header needs no copy.\<close>

lemma echo_buffer_run:
  assumes b: "objs s x = Some b" "headroom (hl + 14) b" and n: "hl < 256" "unat (pb_tot_len b) + hl + 14 < 65536" and t: "pb_tot_len b = pb_len b"
  shows "echo_buffer E (Some x) iphdr (of_nat hl) s = Inr (Some x, s)"
proof -
  have room: "ucast (of_nat hl :: u8) + of_nat (PBUF_LINK_HLEN + PBUF_LINK_ENCAPSULATION_HLEN) = (of_nat (hl + 14) :: u32)"
    using byte_words(1) [OF n(1)] by (simp add: PBUF_LINK_HLEN_def PBUF_LINK_ENCAPSULATION_HLEN_def)
  let ?b = "b\<lparr>pb_payload := map_option (\<lambda>a. a - (hl + 14)) (pb_payload b), pb_len := pb_len b + of_nat (hl + 14),
    pb_tot_len := pb_tot_len b + of_nat (hl + 14)\<rparr>"
  have "unat (pb_len ?b) = unat (pb_len b) + (hl + 14)"
    using n(2) t small_words(2) [of "hl + 14"] by (simp add: unat_u16_add)
  then have "lw_pbuf (pbuf_remove_header (Some x) (of_nat (hl + 14))) (with_buf x ?b s) = Inr (False, s)"
    using run_remove_header [of "with_buf x ?b s" x ?b "hl + 14"] back_skip [OF b(2)] with_buf_same [OF b(1)] by simp
  moreover have "lw_pbuf (pbuf_add_header (Some x) (of_nat (hl + 14))) s = Inr (False, with_buf x ?b s)"
    using run_add_header [OF b] n(2) by simp
  ultimately show ?thesis unfolding echo_buffer_def Let_def room by (simp add: act_bind_def act_return_def del: of_nat_add)
qed

text \<open>Sending a packet that has its header.\<close>

lemma output_included_run:
  assumes "objs s x = Some b" "pb_payload b = Some a" "a + 20 \<le> length (pb_mem b)" "20 \<le> unat (pb_len b)"
  shows "ip4_output_if E (Some x) src None ttl tos proto n s = ip4_send E n (Some x) (iph_dest (drop a (pb_mem b))) s"
proof -
  have "word_at (take 4 (drop (a + 16) (pb_mem b))) 0 = iph_dest (drop a (pb_mem b))"
    using assms(3) by (simp add: iph_dest_def word_at_def rd32_def rd16_def numeral_3_eq_3 numeral_2_eq_2 add.commute)
  moreover have "lw_pbuf (pb_read (Some x) 16 4) s = Inr (take 4 (drop (a + 16) (pb_mem b)), s)"
    using assms by (intro lw_pbuf_pure) (simp add: payload_ok_def payload_bytes_def)
  ultimately show ?thesis
    using assms by (simp add: ip4_output_if_def ip4_output_if_src_def act_bind_def IP_HLEN_def)
qed

lemma echo_reply_run:
  assumes b: "objs s x = Some (skip hl b)" and a: "pb_payload b = Some a" "pb_mem b = pre @ m" "length pre = a"
    and hl: "20 \<le> hl" "hl \<le> 60" "hl + 8 \<le> unat (pb_len b)" "unat (pb_len b) \<le> length m" and t: "pb_tot_len b = pb_len b"
      "pb_type_internal b = ucast (pbuf_type_code PBUF_POOL)"
    and d: "current_iphdr_src (ip_data (istk s)) = dest"
  shows "echo_reply E n (Some x) src (of_nat hl) s = act_bind (ip4_send E n (Some x) dest) (\<lambda>_. act_return ())
    (with_buf x (b\<lparr>pb_mem := pre @ echo_bytes src dest hl m\<rparr>) s)"
proof -
  have len: "unat (pb_len b) < 65536" by simp
  have w: "ucast (of_nat hl :: u8) = (of_nat hl :: u32)" "unat (of_nat hl :: u8) = hl" using hl byte_words [of hl] by simp_all
  have l2: "unat (pb_len b - of_nat hl) = unat (pb_len b) - hl"
    using hl(2,3) small_words(2) [of hl] by (simp add: unat_sub word_le_nat_alt)
  have room: "headroom hl (skip hl b)"
    using a hl l2 t by (simp add: headroom_def skip_def pbuf_consts)
  have "unat (pb_tot_len (skip hl b)) + hl < 65536" using l2 t hl(3) len by (simp add: skip_def del: unat_u16_bound)
  then have add: "lw_pbuf (pbuf_add_header (Some x) (of_nat hl)) s = Inr (False, with_buf x b s)"
    using run_add_header [OF b room] hl(1) skip_back [OF a(1), of hl] by simp
  have p: "pb_payload (skip hl b) = Some (a + hl)" using a by (simp add: skip_def)
  define S where "S m' = with_buf x (b\<lparr>pb_mem := pre @ m'\<rparr>) s" for m'
  have S: "with_buf x b s = S m" "istk (S m') = istk s" for m'
    using a(2) by (auto simp: S_def intro!: arg_cong [where f = "\<lambda>c. with_buf x c s"] pbuf.equality)
  have wr: "lw_pbuf (at_write (x, a) i bs) (S m') = Inr ((), S (mem_write i bs m'))" if "i + length bs \<le> length m'" for i bs m'
    using that a(3) mem_write_append [of pre i bs m']
    by (simp add: S_def run_at_write [of _ x "b\<lparr>pb_mem := pre @ m'\<rparr>"] comp_def)
  have wr2: "lw_pbuf (at_write (x, a + hl) i bs) (S m') = Inr ((), S (mem_write (hl + i) bs m'))" if "hl + i + length bs \<le> length m'" for i bs m'
    using that a(3) mem_write_append [of pre "hl + i" bs m']
    by (simp add: S_def run_at_write [of _ x "b\<lparr>pb_mem := pre @ m'\<rparr>"] add.assoc comp_def)
  have rd: "lw_pbuf (at_read (x, a) i k) (S m') = Inr (take k (drop i m'), S m')" if "i + k \<le> length m'" for i k m'
    using that a(3) by (simp add: S_def run_at_read [of _ x "b\<lparr>pb_mem := pre @ m'\<rparr>"] mem_bytes_def)
  have rd2: "lw_pbuf (at_read (x, a + hl) i k) (S m') = Inr (take k (drop (hl + i) m'), S m')" if "hl + i + k \<le> length m'" for i k m'
    using that a(3) by (simp add: S_def run_at_read [of _ x "b\<lparr>pb_mem := pre @ m'\<rparr>"] mem_bytes_def)
  have ptr: "lw_pbuf (payload_ptr (Some x)) (S m') = Inr ((x, a), S m')" for m'
    by (rule run_ptr [of _ _ "b\<lparr>pb_mem := pre @ m'\<rparr>"]) (simp_all add: S_def a)
  have c: "half_at (take 2 (drop (hl + 2) (mem_write hl bs (mem_write 16 (le32 dest) (mem_write 12 (le32 src) m))))) 0 = half_at m (hl + 2)"
    if "length bs = 1" for bs
    using hl that by (simp add: half_at_def rd16_def nth_mem_write length_mem_write)
  have ck: "inet_chksum od (take hl m') (ucast (of_nat hl :: u8)) = rfc1071 (take hl m')" for od m'
    using hl byte_word16 [of hl] by (simp add: inet_chksum_take)
  have run: "echo_reply E n (Some x) src (of_nat hl) s =
      act_bind (ip4_output_if E (Some x) (Some src) None ICMP_TTL 0 IP_PROTO_ICMP n) (\<lambda>_. act_return ()) (S (echo_bytes src dest hl m))"
    unfolding echo_reply_def w echo_bytes_def using hl
    by (simp add: act_bind_def run_ptr [OF b p] add S wr wr2 rd rd2 d length_mem_write c [simplified] ck ptr echo_fields_def)
  show ?thesis
    unfolding run S_def using a hl echo_addrs(2) [of hl m src dest] echo_length(2) [of hl m src dest]
    by (simp add: act_bind_def output_included_run [of _ x "b\<lparr>pb_mem := pre @ echo_bytes src dest hl m\<rparr>" a])
qed

text \<open>An echo request with a good checksum, in a buffer as it is received behind the Ethernet header.\<close>

definition our_addr :: "netif \<Rightarrow> ip4_addr_t \<Rightarrow> ip4_addr_t" where
  "our_addr n dest = (if ip4_addr_ismulticast dest \<or> ip4_addr_isbroadcast_u32 dest n then ip_addr n else dest)"

lemma rx_bufD:
  assumes "rx_buf b" "pb_payload b = Some a"
  shows "a + unat (pb_len b) \<le> length (pb_mem b)" "a + 64 \<le> length (pb_mem b)" "pb_tot_len b = pb_len b" "pb_next b = None"
    "pb_type_internal b = ucast (pbuf_type_code PBUF_POOL)"
  using assms by (auto simp: rx_buf_def)

lemma skip_len:
  assumes "k \<le> unat (pb_len b)" "pb_tot_len b = pb_len b"
  shows "unat (pb_len (skip k b)) = unat (pb_len b) - k" "pb_tot_len (skip k b) = pb_len (skip k b)"
proof -
  have "unat (of_nat k :: u16) = k" using assms(1) unat_u16_bound [of "pb_len b"] by (intro small_words) linarith
  then show "unat (pb_len (skip k b)) = unat (pb_len b) - k" "pb_tot_len (skip k b) = pb_len (skip k b)"
    using assms by (simp_all add: skip_def unat_sub word_le_nat_alt)
qed

lemma skip_packet:
  assumes "h x = Some (skip k b)" "rx_buf b" "pb_payload b = Some a" "k \<le> unat (pb_len b)"
  shows "packet h (Some x) [x]" "chain_data h [x] = take (unat (pb_len b) - k) (drop k (drop a (pb_mem b)))"
proof -
  note b = rx_bufD [OF assms(2,3)]
  note l = skip_len [OF assms(4) b(3)]
  have f: "pb_payload (skip k b) = Some (a + k)" "pb_next (skip k b) = None" "pb_mem (skip k b) = pb_mem b" using assms(3) b by (simp_all add: skip_def)
  show "packet h (Some x) [x]" using assms(1,4) l f b by (auto simp: packet_def payload_ok_def)
  show "chain_data h [x] = take (unat (pb_len b) - k) (drop k (drop a (pb_mem b)))"
    using assms(1) l f by (simp add: bdata_def payload_bytes_def add.commute)
qed

lemma icmp_echo_run:
  assumes b: "objs s x = Some (skip hl b)" "rx_buf b" "pb_payload b = Some a" "14 \<le> a" and m: "m = drop a (pb_mem b)" "hl = ip_hlen m"
    and hl: "20 \<le> hl" "hl + 8 \<le> unat (pb_len b)" "unat (pb_len b) + 14 < 65536"
    and cur: "current_ip4_header (ip_data (istk s)) = Some (x, a)" "current_iphdr_src (ip_data (istk s)) = dest"
      "our_addr n (current_iphdr_dest (ip_data (istk s))) = src"
    and t: "m ! hl = 8" and c: "rfc1071 (take (unat (pb_len b) - hl) (drop hl m)) = 0"
  shows "icmp_input E (Some x) n s = act_bind (act_bind (ip4_send E n (Some x) dest) (\<lambda>_. act_return ())) (\<lambda>_. drop_packet E (Some x))
    (with_buf x (b\<lparr>pb_mem := take a (pb_mem b) @ echo_bytes src dest hl m\<rparr>) s)"
proof -
  note r = rx_bufD [OF b(2,3)]
  have hl60: "hl \<le> 60" using m(2) ip_hlen_bound by simp
  note l = skip_len [of hl b, OF _ r(3)]
  have mm: "pb_mem (skip hl b) = pb_mem b" "pb_payload (skip hl b) = Some (a + hl)" by (simp_all add: skip_def b(3))
  have v: "IPH_HL_BYTES (mem_bytes (a + 0) 1 (pb_mem b)) = of_nat hl"
    using r(2) IPH_HL_nat(2) [of m] by (simp add: m mem_bytes_def IPH_HL_BYTES_def IPH_HL_def byte_at_def)
  have rv: "lw_pbuf (at_read (x, a) 0 1) s = Inr (mem_bytes (a + 0) 1 (pb_mem b), s)"
    using run_at_read [OF b(1), of a 0 1] r(2) mm by simp
  have ty: "byte_at (payload_bytes (skip hl b) 0 1) 0 = 8"
    using t r hl by (simp add: byte_at_def payload_bytes_def mm m(1))
  have rt: "lw_pbuf (pb_read (Some x) 0 1) s = Inr (payload_bytes (skip hl b) 0 1, s)"
    using b(1) r hl mm by (intro lw_pbuf_pure) (simp add: payload_ok_def)
  have ck: "lw_pbuf (inet_chksum_pbuf (ip_at E) (Some x)) s = Inr (0, s)"
    using inet_chksum_pbuf_run [OF skip_packet(1) [of "objs s" x hl, OF b(1-3)], of "ip_at E"] skip_packet(2) [of "objs s" x hl, OF b(1-3)] hl c
    by (intro lw_pbuf_pure) (simp add: chain_fuel_def m)
  have len: "unat (pb_len b) < 65536" by simp
  have "headroom (hl + 14) (skip hl b)"
    using b(4) r hl l mm by (simp add: headroom_def pbuf_consts) (simp add: skip_def pbuf_consts)
  then have eb: "echo_buffer E (Some x) (x, a) (of_nat hl) s = Inr (Some x, s)"
    using l hl hl60 r(3) by (intro echo_buffer_run [OF b(1)]) simp_all
  have m': "pb_mem b = take a (pb_mem b) @ m" "length (take a (pb_mem b)) = a" "unat (pb_len b) \<le> length m" using r m by simp_all
  note er = echo_reply_run [OF b(1,3) m'(1,2) hl(1) hl60 hl(2) m'(3) r(3,5) cur(2)]
  have u: "unat (of_nat hl :: u8) = hl" using hl60 byte_words(2) [of hl] by simp
  have big: "\<not> unat (pb_len (skip hl b)) < 4" "\<not> unat (pb_tot_len (skip hl b)) < 8" using l hl by simp_all
  have "icmp_input E (Some x) n s = icmp_echo_input E (Some x) n (x, a) (of_nat hl) s"
    unfolding icmp_input_def using cur(1) rv rt v ty b(1) hl(1) big u
    by (simp add: act_bind_def Let_def icmp_consts ip_consts)
  also have "\<dots> = act_bind (echo_reply E n (Some x) src (of_nat hl)) (\<lambda>_. drop_packet E (Some x)) s"
    unfolding icmp_echo_input_def Let_def using ck eb b(1) big cur(3)
    by (simp add: act_bind_def our_addr_def icmp_consts)
  finally show ?thesis using er by (simp add: act_bind_def)
qed

section \<open>Delivery\<close>

definition delivered :: "pptr \<Rightarrow> nat \<Rightarrow> nat \<Rightarrow> pbuf \<Rightarrow> ('h, 'z, 'k) ifw \<Rightarrow> ('h, 'z, 'k) ifw" where
  "delivered x a hl b s = with_buf x (skip hl b) (with_ip (ip_data_update (\<lambda>d. d\<lparr>current_netif := True, current_input_netif := True,
     current_ip4_header := Some (x, a), current_ip_header_tot_len := of_nat hl\<rparr>)) s)"

lemma deliver_run:
  assumes b: "objs s x = Some b" "rx_buf b" "pb_payload b = Some a" and m: "m = drop a (pb_mem b)" and hl: "20 \<le> ip_hlen m" "ip_hlen m \<le> unat (pb_len b)"
    and u: "upper = (if unat (m ! 9) = 17 then udp_input E (Some x) n else if unat (m ! 9) = 6 then tcp_input E (Some x) n else icmp_input E (Some x) n)"
      "unat (m ! 9) \<in> {1, 6, 17}"
  shows "ip4_deliver E (Some x) n (of_nat (ip_hlen m)) s =
    act_bind upper (\<lambda>_. set_ip_data (\<lambda>_. no_ip_data)) (delivered x a (ip_hlen m) b s)"
proof -
  note r = rx_bufD [OF b(2,3)]
  have hl60: "ip_hlen m < 256" using ip_hlen_bound [of m] by simp
  have hdr: "mem_bytes (a + 0) IP_HLEN (pb_mem b) = take 20 m" by (simp add: mem_bytes_def IP_HLEN_def m)
  have rd: "lw_pbuf (at_read (x, a) 0 IP_HLEN) s = Inr (take 20 m, s)"
    using run_at_read [OF b(1), of a 0 IP_HLEN] r(2) hdr by (simp add: IP_HLEN_def)
  have t: "ucast (IPH_HL_BYTES m) = (of_nat (ip_hlen m) :: u16)"
    using IPH_HL_nat(1) [of m] hl60 small_words(2) [of "ip_hlen m"] by (simp add: word_unat_eq_iff unsigned_ucast_eq take_bit_nat_eq_self)
  have rm: "lw_pbuf (pbuf_remove_header (Some x) (of_nat (ip_hlen m))) (with_ip f s) = Inr (False, with_buf x (skip (ip_hlen m) b) (with_ip f s))" for f
    using hl b(1) by (intro run_remove_header) simp_all
  have p: "IPH_PROTO m = IP_PROTO_UDP \<longleftrightarrow> unat (m ! 9) = 17" "IPH_PROTO m = IP_PROTO_TCP \<longleftrightarrow> unat (m ! 9) = 6"
    "IPH_PROTO m = IP_PROTO_ICMP \<longleftrightarrow> unat (m ! 9) = 1"
    by (simp_all add: IPH_PROTO_def byte_at_def ip_consts word_unat_eq_iff)
  show ?thesis
    unfolding ip4_deliver_def delivered_def u(1) using u(2) b(1,3) rd rm byte_words(1) [OF hl60]
    by (auto simp: act_bind_def take_fields t p)
qed

end
