(* ===== verification/Lwip_IpProps.thy ===== *)
theory Lwip_IpProps
  imports Lwip_Ping
begin

text \<open>What the IPv4 layer does with packets it sends and receives.\<close>

section \<open>Output\<close>

lemma output_packet:
  assumes p: "packet (objs s) (Some x) (x # xs)" "objs s x = Some b" and room: "headroom 20 b" "lens (objs s) (x # xs) + 20 < 65536"
    and h: "h = ip_header tos (of_nat (lens (objs s) (x # xs) + 20)) (ip_id (istk s)) ttl proto (or_any src) dest"
  shows "\<exists>s'. ip4_output_if_src E (Some x) src (Some dest) ttl tos proto n s =
      (if mtu n \<noteq> 0 \<and> unat (mtu n) < lens (objs s) (x # xs) + 20 then ip4_frag E (Some x) n dest else ip_netif_output E (Some x) dest) s'
    \<and> packet (objs s') (Some x) (x # xs) \<and> chain_data (objs s') (x # xs) = h @ chain_data (objs s) (x # xs)
    \<and> ip_id (istk s') = ip_id (istk s) + 1"
proof -
  have tot: "unat (pb_tot_len b) = lens (objs s) (x # xs)" using p by (auto simp: packet_def)
  then have b20: "unat (pb_tot_len b) + 20 < 65536" using room(2) by simp
  have t: "pb_tot_len b + 20 = of_nat (lens (objs s) (x # xs) + 20)" using tot by (metis of_nat_add of_nat_numeral of_nat_unat ucast_id)
  let ?s = "with_buf x (prepend 20 h b) (with_ip (ip_id_update (\<lambda>i. i + 1)) s)"
  note run = ip4_output_if_src_run [OF p(2) room(1) b20 refl, unfolded t]
  note q = prepend_packet [OF p room, of h]
  have "unat (pb_tot_len (prepend 20 h b)) = lens (objs s) (x # xs) + 20"
    using b20 tot by (simp add: prepend_def unat_u16_add)
  then have "ip4_send E n (Some x) dest ?s =
      (if mtu n \<noteq> 0 \<and> unat (mtu n) < lens (objs s) (x # xs) + 20 then ip4_frag E (Some x) n dest else ip_netif_output E (Some x) dest) ?s"
    by (simp add: ip4_send_def act_bind_def word_less_nat_alt)
  moreover have "packet (objs ?s) (Some x) (x # xs)" "chain_data (objs ?s) (x # xs) = h @ chain_data (objs s) (x # xs)"
    using q h by simp_all
  moreover have "ip_id (istk ?s) = ip_id (istk s) + 1" by simp
  ultimately show ?thesis unfolding run h [symmetric] by blast
qed

text \<open>C25. A packet that is sent gets a header of 20 bytes in front, with the length of the packet, a fresh identification, the given
  addresses and a checksum that verifies; its bytes are not changed.  It goes to the output function of the interface, or to
  fragmentation when it is longer than the interface allows.\<close>

theorem ip4_output_writes_header:
  assumes "packet (objs s) (Some x) (x # xs)" "objs s x = Some b" "headroom 20 b" "lens (objs s) (x # xs) + 20 < 65536"
    and "h = ip_header tos (of_nat (lens (objs s) (x # xs) + 20)) (ip_id (istk s)) ttl proto
      (if or_any src = IPADDR_ANY then ip_addr n else or_any src) dest"
  shows "\<exists>s'. ip4_output_if E (Some x) src (Some dest) ttl tos proto n s =
      (if mtu n \<noteq> 0 \<and> unat (mtu n) < lens (objs s) (x # xs) + 20 then ip4_frag E (Some x) n dest else ip_netif_output E (Some x) dest) s'
    \<and> packet (objs s') (Some x) (x # xs) \<and> chain_data (objs s') (x # xs) = h @ chain_data (objs s) (x # xs)
    \<and> rfc1071 h = 0 \<and> ip_id (istk s') = ip_id (istk s) + 1"
proof -
  let ?src = "if or_any src = IPADDR_ANY then Some (ip_addr n) else src"
  have "or_any ?src = (if or_any src = IPADDR_ANY then ip_addr n else or_any src)" by (simp add: or_any_def)
  then show ?thesis
    using output_packet [OF assms(1-4), of h tos ttl proto ?src dest E n] assms(5) ip_header_verifies
    by (simp add: ip4_output_if_def)
qed

section \<open>The header that was sent\<close>

lemma verdict_header:
  assumes k: "20 \<le> k" "k < 65536" "k \<le> l" and n: "for_netif n dest" "\<not> ip4_bad_src n src"
  shows "ip_verdict n (ip_header tos (of_nat k) idn ttl proto src dest @ R) l = Ip_Accept"
    "ip_hlen (ip_header tos (of_nat k) idn ttl proto src dest @ R) = 20"
    "be16 (ip_header tos (of_nat k) idn ttl proto src dest @ R) 2 = k"
    "(ip_header tos (of_nat k) idn ttl proto src dest @ R) ! 9 = proto"
    "iph_src (ip_header tos (of_nat k) idn ttl proto src dest @ R) = src"
    "iph_dest (ip_header tos (of_nat k) idn ttl proto src dest @ R) = dest"
proof -
  define v m where "v = (of_nat k :: u16)" and "m = ip_header tos v idn ttl proto src dest @ R"
  have h: "m ! 0 = 0x45" "m ! 6 = 0" "m ! 7 = 0" "m ! 2 = ucast (drop_bit 8 v)" "m ! 3 = ucast v" "m ! 9 = proto"
    "\<forall>i < 4. m ! (12 + i) = le32 src ! i" "\<forall>i < 4. m ! (16 + i) = le32 dest ! i"
    by (simp_all add: m_def ip_header_def ip_fields_def le16_htons le16_def [of 0] nth_append)
  have hl: "ip_hlen m = 20" by (simp add: ip_hlen_def h)
  have tot: "be16 m 2 = k" using le16_parts [of v] k(2) small_words(2) [of k] by (simp add: be16_def h v_def)
  have off: "be16 m 6 = 0" using h by (simp add: be16_def)
  have adr: "iph_src m = src" "iph_dest m = dest" using h(7,8) word_at_le32 unfolding iph_src_def iph_dest_def by blast+
  have sum: "rfc1071 (take 20 m) = 0" by (simp add: m_def ip_header_verifies)
  show "ip_verdict n (ip_header tos (of_nat k) idn ttl proto src dest @ R) l = Ip_Accept"
    "ip_hlen (ip_header tos (of_nat k) idn ttl proto src dest @ R) = 20"
    "be16 (ip_header tos (of_nat k) idn ttl proto src dest @ R) 2 = k"
    "(ip_header tos (of_nat k) idn ttl proto src dest @ R) ! 9 = proto"
    "iph_src (ip_header tos (of_nat k) idn ttl proto src dest @ R) = src"
    "iph_dest (ip_header tos (of_nat k) idn ttl proto src dest @ R) = dest"
    using k n h hl tot off adr sum unfolding v_def [symmetric] m_def [symmetric] by (simp_all add: ip_verdict_def)
qed

section \<open>Input\<close>

lemma accepted:
  assumes "ip_verdict n m l = Ip_Accept"
  shows "20 \<le> ip_hlen m" "ip_hlen m \<le> be16 m 2" "be16 m 2 \<le> l"
  using assms by (auto simp: ip_verdict_def split: if_splits)

lemma accept_run:
  assumes b: "objs s (PoolPbuf e) = Some b" "rx_buf b" "pb_payload b = Some a" and m: "m = drop a (pb_mem b)" and p: "p = Some (PoolPbuf e)"
    and c: "c = shorten (of_nat (be16 m 2)) b"
    and s1: "s1 = with_ip (ip_data_update (\<lambda>d. d\<lparr>current_iphdr_dest := iph_dest m, current_iphdr_src := iph_src m\<rparr>)) s"
    and v: "ip_verdict n m (unat (pb_len b)) = Ip_Accept" "unat (m ! 9) \<in> {1, 6, 17}"
  shows "ip4_input_ip E p n s = act_bind
    (if unat (m ! 9) = 17 then udp_input E p n else if unat (m ! 9) = 6 then tcp_input E p n else icmp_input E p n)
    (\<lambda>_. set_ip_data (\<lambda>_. no_ip_data)) (delivered (PoolPbuf e) a (ip_hlen m) c s1)"
    and "rx_buf c" "pb_payload c = Some a" "pb_mem c = pb_mem b" "unat (pb_len c) = be16 m 2"
proof -
  note h = accepted [OF v(1)]
  show cc: "rx_buf c" "pb_payload c = Some a" "pb_mem c = pb_mem b" "unat (pb_len c) = be16 m 2"
    using rx_shorten [OF b(2)] h(3) b(3) by (simp_all add: c shorten_def word_le_nat_alt)
  have r: "received (PoolPbuf e) b m s = with_buf (PoolPbuf e) c s1" by (simp add: received_def c s1)
  have "ip4_input_ip E p n s = ip4_deliver E p n (of_nat (ip_hlen m)) (with_buf (PoolPbuf e) c s1)"
    using ip4_input_run [OF b m p, where n = n and E = E] v(1) r by simp
  also have "\<dots> = act_bind (if unat (m ! 9) = 17 then udp_input E p n else if unat (m ! 9) = 6 then tcp_input E p n else icmp_input E p n)
    (\<lambda>_. set_ip_data (\<lambda>_. no_ip_data)) (delivered (PoolPbuf e) a (ip_hlen m) c (with_buf (PoolPbuf e) c s1))"
    unfolding p by (rule deliver_run) (use cc h m v(2) in simp_all)
  also have "delivered (PoolPbuf e) a (ip_hlen m) c (with_buf (PoolPbuf e) c s1) = delivered (PoolPbuf e) a (ip_hlen m) c s1"
    by (simp add: delivered_def)
  finally show "ip4_input_ip E p n s = act_bind
    (if unat (m ! 9) = 17 then udp_input E p n else if unat (m ! 9) = 6 then tcp_input E p n else icmp_input E p n)
    (\<lambda>_. set_ip_data (\<lambda>_. no_ip_data)) (delivered (PoolPbuf e) a (ip_hlen m) c s1)" .
qed

text \<open>A packet of a protocol that the stack does not know: the header comes back in front of the payload for the message.\<close>

lemma run_header_force:
  assumes b: "objs s x = Some b" "headroom n b" and n: "0 < n" "n < 256" "unat (pb_tot_len b) + n < 65536"
  shows "lw_pbuf (pbuf_header_force (Some x) (of_nat n)) s = Inr (False, with_buf x (b\<lparr>
    pb_payload := map_option (\<lambda>a. a - n) (pb_payload b), pb_len := pb_len b + of_nat n, pb_tot_len := pb_tot_len b + of_nat n\<rparr>) s)"
proof -
  have n32: "unat (of_nat n :: u32) = n" "unat (of_nat n :: u16) = n" "(of_nat n :: u32) \<noteq> 0" "ucast (of_nat n :: u32) = (of_nat n :: u16)"
    using n small_words [of n] by (simp_all add: word_unat_eq_iff)
  have sg: "sint (of_nat n :: u16) = int n" using n(2) by (simp add: signed_of_nat signed_take_bit_int_eq_self)
  have fits: "\<not> (of_nat n :: u16) + pb_tot_len b < of_nat n" "\<not> 0xFFFF < (of_nat n :: u32)"
    using n n32 by (simp_all add: word_less_nat_alt unat_u16_add)
  show ?thesis
    using b fits n32
    by (auto simp: headroom_def pbuf_header_force_def pbuf_header_impl_def sg pbuf_add_header_impl_def act_defs Let_def lw_pbuf_def
        in_world_def in_pbufs_def with_buf_def)
qed

lemma run_drop_skipped:
  assumes "objs s (PoolPbuf e) = Some (skip k b)" "rx_buf b"
  shows "drop_packet E (Some (PoolPbuf e)) s = Inr ((), rx_freed e s)"
proof -
  obtain j where fuel: "chain_fuel = Suc (Suc j)" using that [of 65535] by (simp add: chain_fuel_def)
  have src: "pbuf_get_allocsrc (pb_ref_update f (skip k b)) = ALLOC_SRC_STD_MEMP_PBUF_POOL" for f
    using rx_src [OF assms(2)] by (simp add: pbuf_get_allocsrc_def skip_def)
  have flds: "pb_next (skip k b) = None" "pb_ref (skip k b) = 1" "pb_flags (skip k b) AND PBUF_FLAG_IS_CUSTOM = 0"
    using assms(2) by (auto simp: rx_buf_def skip_def)
  show ?thesis
    using assms src flds unfolding drop_packet_def pbuf_free_def fuel
    by (simp add: pbuf_dealloc_def pb_drop_def act_defs lw_pbuf_def in_world_def in_pbufs_def rx_freed_def)
qed

lemma deliver_unknown_run:
  assumes b: "objs s (PoolPbuf e) = Some b" "rx_buf b" "pb_payload b = Some a" and m: "m = drop a (pb_mem b)"
    and hl: "20 \<le> ip_hlen m" "ip_hlen m \<le> unat (pb_len b)" and u: "unat (m ! 9) \<notin> {1, 6, 17}"
    and p: "p = Some (PoolPbuf e)" and d: "current_iphdr_dest (ip_data (istk s)) = dest"
  shows "ip4_deliver E p n (of_nat (ip_hlen m)) s =
    (if ip4_addr_isbroadcast_u32 dest n \<or> ip4_addr_ismulticast dest
     then Inr ((), rx_freed e (with_ip (ip_data_update (\<lambda>_. no_ip_data)) s))
     else act_bind (icmp_dest_unreach E p ICMP_DUR_PROTO) (\<lambda>_. act_bind (drop_packet E p) (\<lambda>_. set_ip_data (\<lambda>_. no_ip_data)))
       (with_buf (PoolPbuf e) b (delivered (PoolPbuf e) a (ip_hlen m) b s)))"
proof -
  let ?x = "PoolPbuf e"
  note r = rx_bufD [OF b(2,3)]
  have hl60: "ip_hlen m < 256" using ip_hlen_bound [of m] by simp
  have rd: "lw_pbuf (at_read (?x, a) 0 IP_HLEN) s = Inr (take 20 m, s)"
    using run_at_read [OF b(1), of a 0 IP_HLEN] r(2) by (simp add: IP_HLEN_def mem_bytes_def m)
  have t: "ucast (IPH_HL_BYTES m) = (of_nat (ip_hlen m) :: u16)"
    using IPH_HL_nat(1) [of m] hl60 small_words(2) [of "ip_hlen m"] by (simp add: word_unat_eq_iff unsigned_ucast_eq take_bit_nat_eq_self)
  have rm: "lw_pbuf (pbuf_remove_header (Some ?x) (of_nat (ip_hlen m))) (with_ip f s) = Inr (False, with_buf ?x (skip (ip_hlen m) b) (with_ip f s))" for f
    using hl b(1) by (intro run_remove_header) simp_all
  have q: "IPH_PROTO m \<noteq> IP_PROTO_UDP" "IPH_PROTO m \<noteq> IP_PROTO_TCP" "IPH_PROTO m \<noteq> IP_PROTO_ICMP"
    using u by (auto simp: IPH_PROTO_def byte_at_def ip_consts)
  have w: "ucast (of_nat (ip_hlen m) :: u8) = (of_nat (ip_hlen m) :: u16)"
    using byte_word16 [OF hl60] small_words(2) [of "ip_hlen m"] hl60 by (simp add: word_unat_eq_iff)
  let ?s = "delivered ?x a (ip_hlen m) b s"
  have o: "objs ?s ?x = Some (skip (ip_hlen m) b)" by (simp add: delivered_def)
  have l2: "unat (pb_len b - of_nat (ip_hlen m)) = unat (pb_len b) - ip_hlen m"
    using hl(2) hl60 small_words(2) [of "ip_hlen m"] by (simp add: unat_sub word_le_nat_alt)
  have room: "headroom (ip_hlen m) (skip (ip_hlen m) b)" "unat (pb_tot_len (skip (ip_hlen m) b)) + ip_hlen m < 65536"
    using r hl l2 b(3) unat_u16_bound [of "pb_len b"] by (simp_all add: headroom_def skip_def pbuf_consts del: unat_u16_bound)
  have hf: "lw_pbuf (pbuf_header_force (Some ?x) (of_nat (ip_hlen m))) ?s = Inr (False, with_buf ?x b ?s)"
    using run_header_force [OF o room(1) _ hl60 room(2)] hl(1) skip_back [OF b(3), of "ip_hlen m"] by simp
  have body: "ip4_deliver E p n (of_nat (ip_hlen m)) s = act_bind
      (act_bind (if \<not> ip4_addr_isbroadcast_u32 dest n \<and> \<not> ip4_addr_ismulticast dest then
           act_bind (lw_pbuf (pbuf_header_force (Some ?x) (of_nat (ip_hlen m)))) (\<lambda>_. icmp_dest_unreach E (Some ?x) ICMP_DUR_PROTO)
         else act_return ()) (\<lambda>_. drop_packet E (Some ?x))) (\<lambda>_. set_ip_data (\<lambda>_. no_ip_data)) ?s"
    unfolding ip4_deliver_def delivered_def p using b(1,3) rd rm byte_words(1) [OF hl60] d q w
    by (simp add: act_bind_def take_fields t)
  show ?thesis
  proof (cases "ip4_addr_isbroadcast_u32 dest n \<or> ip4_addr_ismulticast dest")
    case True
    then have "ip4_deliver E p n (of_nat (ip_hlen m)) s = Inr ((), with_ip (ip_data_update (\<lambda>_. no_ip_data)) (rx_freed e ?s))"
      unfolding body using run_drop_skipped [OF o b(2)] by (auto simp: act_bind_def act_return_def)
    moreover have "with_ip (ip_data_update (\<lambda>_. no_ip_data)) (rx_freed e ?s) = rx_freed e (with_ip (ip_data_update (\<lambda>_. no_ip_data)) s)"
      by (simp add: delivered_def rx_freed_def with_ip_def with_buf_def comp_def)
    ultimately show ?thesis using True by simp
  next
    case False
    then show ?thesis unfolding body unfolding p act_bind_assoc by (auto simp: act_bind_def hf split: sum.splits)
  qed
qed

lemma unknown_run:
  assumes b: "objs s (PoolPbuf e) = Some b" "rx_buf b" "pb_payload b = Some a" and m: "m = drop a (pb_mem b)" and p: "p = Some (PoolPbuf e)"
    and c: "c = shorten (of_nat (be16 m 2)) b"
    and s1: "s1 = with_ip (ip_data_update (\<lambda>d. d\<lparr>current_iphdr_dest := iph_dest m, current_iphdr_src := iph_src m\<rparr>)) s"
    and v: "ip_verdict n m (unat (pb_len b)) = Ip_Accept" "unat (m ! 9) \<notin> {1, 6, 17}"
  shows "ip4_input_ip E p n s =
    (if ip4_addr_isbroadcast_u32 (iph_dest m) n \<or> ip4_addr_ismulticast (iph_dest m)
     then Inr ((), rx_freed e (with_ip (ip_data_update (\<lambda>_. no_ip_data)) s))
     else act_bind (icmp_dest_unreach E p ICMP_DUR_PROTO) (\<lambda>_. act_bind (drop_packet E p) (\<lambda>_. set_ip_data (\<lambda>_. no_ip_data)))
       (with_buf (PoolPbuf e) c (delivered (PoolPbuf e) a (ip_hlen m) c s1)))"
proof -
  note h = accepted [OF v(1)]
  have cc: "rx_buf c" "pb_payload c = Some a" "pb_mem c = pb_mem b" "unat (pb_len c) = be16 m 2"
    using rx_shorten [OF b(2)] h(3) b(3) by (simp_all add: c shorten_def word_le_nat_alt)
  let ?t = "with_buf (PoolPbuf e) c s1"
  have "received (PoolPbuf e) b m s = ?t" by (simp add: received_def c s1)
  then have "ip4_input_ip E p n s = ip4_deliver E p n (of_nat (ip_hlen m)) ?t"
    using ip4_input_run [OF b m p, where n = n and E = E] v(1) by simp
  also note deliver_unknown_run [where s = ?t and e = e and b = c and a = a and m = m and p = p and dest = "iph_dest m" and E = E and n = n]
  finally show ?thesis
    using cc h m v(2) p s1 by (simp add: delivered_def rx_freed_def with_ip_def with_buf_def comp_def)
qed

text \<open>C24. The header decides: a received packet is dropped, and only its buffer is released, when the version, a length, the checksum or
  an address is wrong; a fragment goes to reassembly; everything else is cut to its length and goes to the protocol of the header (UDP,
  TCP or ICMP) with the addresses, the interface and the header noted, and the notes are gone afterwards.  A packet of another protocol
  is dropped when it was sent to a group address; otherwise the header is put back, the message that the protocol is unreachable is
  sent for the packet, and then its buffer is released.  The decision is the function \<^const>\<open>ip_verdict\<close> of the bytes; the
  packet is in one buffer of the pool.\<close>

theorem ip4_input_follows_header:
  assumes "objs s (PoolPbuf e) = Some b" "rx_buf b" "pb_payload b = Some a" "m = drop a (pb_mem b)" "p = Some (PoolPbuf e)"
    and "c = shorten (of_nat (be16 m 2)) b"
    and "s1 = with_ip (ip_data_update (\<lambda>d. d\<lparr>current_iphdr_dest := iph_dest m, current_iphdr_src := iph_src m\<rparr>)) s"
  shows "case ip_verdict n m (unat (pb_len b)) of
      Ip_Drop \<Rightarrow> \<exists>f. ip4_input_ip E p n s = Inr ((), rx_freed e (with_ip (ip_data_update f) s))
    | Ip_Fragment \<Rightarrow> ip4_input_ip E p n s = act_bind (ip4_reass E p) (\<lambda>r. if r = None then act_return ()
        else ip4_deliver E r n (of_nat (ip_hlen m))) (with_buf (PoolPbuf e) c s1)
    | Ip_Accept \<Rightarrow> ip4_input_ip E p n s =
        (if unat (m ! 9) \<in> {1, 6, 17} then act_bind
           (if unat (m ! 9) = 17 then udp_input E p n else if unat (m ! 9) = 6 then tcp_input E p n else icmp_input E p n)
           (\<lambda>_. set_ip_data (\<lambda>_. no_ip_data)) (delivered (PoolPbuf e) a (ip_hlen m) c s1)
         else if ip4_addr_isbroadcast_u32 (iph_dest m) n \<or> ip4_addr_ismulticast (iph_dest m)
           then Inr ((), rx_freed e (with_ip (ip_data_update (\<lambda>_. no_ip_data)) s))
         else act_bind (icmp_dest_unreach E p ICMP_DUR_PROTO) (\<lambda>_. act_bind (drop_packet E p) (\<lambda>_. set_ip_data (\<lambda>_. no_ip_data)))
           (with_buf (PoolPbuf e) c (delivered (PoolPbuf e) a (ip_hlen m) c s1)))"
proof -
  have r: "received (PoolPbuf e) b m s = with_buf (PoolPbuf e) c s1" by (simp add: received_def assms(6,7))
  show ?thesis
  proof (cases "ip_verdict n m (unat (pb_len b))")
    case Ip_Accept
    then show ?thesis
      using accept_run(1) [OF assms, where E = E, OF Ip_Accept] unknown_run [OF assms, where E = E, OF Ip_Accept]
      by (cases "unat (m ! 9) \<in> {1, 6, 17}") (simp_all del: insert_iff)
  qed (use ip4_input_run [OF assms(1-5), where n = n and E = E] r in simp_all)
qed

section \<open>What is sent is accepted\<close>

lemma header_accepted:
  fixes t :: "('g, 'y, 'j) ifw"
  assumes c: "objs t (PoolPbuf e) = Some c" "rx_buf c" "pb_payload c = Some a"
    and m: "take (length (h @ D)) (drop a (pb_mem c)) = h @ D" "length (h @ D) \<le> unat (pb_len c)"
    and h: "h = ip_header tos (of_nat (20 + length D)) idn ttl proto src dest"
    and n: "for_netif n dest" "\<not> ip4_bad_src n src" "unat proto \<in> {1, 6, 17}" and sz: "20 + length D < 65536"
  shows "\<exists>t'. ip4_input_ip F (Some (PoolPbuf e)) n t = act_bind
      (if unat proto = 17 then udp_input F (Some (PoolPbuf e)) n else if unat proto = 6 then tcp_input F (Some (PoolPbuf e)) n
       else icmp_input F (Some (PoolPbuf e)) n) (\<lambda>_. set_ip_data (\<lambda>_. no_ip_data)) t'
    \<and> packet (objs t') (Some (PoolPbuf e)) [PoolPbuf e] \<and> chain_data (objs t') [PoolPbuf e] = D
    \<and> current_iphdr_src (ip_data (istk t')) = src \<and> current_iphdr_dest (ip_data (istk t')) = dest"
proof -
  let ?x = "PoolPbuf e"
  define M where "M = drop a (pb_mem c)"
  have lh: "length h = 20" by (simp add: h)
  have M: "M = h @ D @ drop (20 + length D) M"
    using m(1) lh append_take_drop_id [of "20 + length D" M] by (simp add: M_def)
  define R where "R = D @ drop (20 + length D) M"
  have MR: "M = ip_header tos (of_nat (20 + length D)) idn ttl proto src dest @ R" using M h by (simp add: R_def)
  have k: "20 + length D \<le> unat (pb_len c)" using m(2) lh by simp
  note v = verdict_header [where k = "20 + length D" and l = "unat (pb_len c)" and n = n and R = R, OF le_add1 sz k n(1,2), of tos idn ttl proto, folded MR]
  let ?c = "shorten (of_nat (be16 M 2)) c"
  let ?t = "with_ip (ip_data_update (\<lambda>d. d\<lparr>current_iphdr_dest := iph_dest M, current_iphdr_src := iph_src M\<rparr>)) t"
  let ?t' = "delivered ?x a (ip_hlen M) ?c ?t"
  have "unat (M ! 9) \<in> {1, 6, 17}" using v(4) n(3) by simp
  note acc = accept_run(1) [OF c M_def refl refl refl v(1) this, where E = F, unfolded v(4)]
  have o: "objs ?t' ?x = Some (skip 20 ?c)" using v(2) by (simp add: delivered_def)
  have sk: "pb_payload (skip 20 ?c) = Some (a + 20)" "unat (pb_len (skip 20 ?c)) = length D" "pb_tot_len (skip 20 ?c) = pb_len (skip 20 ?c)"
    "pb_next (skip 20 ?c) = None" "pb_mem (skip 20 ?c) = pb_mem c"
    using skip_len [of 20 ?c] c(2,3) v(3) small_words(2) [OF sz] by (auto simp: skip_def shorten_def rx_buf_def)
  have "drop (a + 20) (pb_mem c) = drop 20 M" by (simp add: M_def add.commute)
  also have "\<dots> = D @ drop (20 + length D) M" by (subst M) (simp add: lh)
  finally have bytes: "payload_bytes (skip 20 ?c) 0 (length D) = D" by (simp add: payload_bytes_def sk)
  have room: "a + 20 + length D \<le> length (pb_mem c)" using rx_bufD(1) [OF c(2,3)] k by simp
  have "packet (objs ?t') (Some ?x) [?x]" using o sk room by (simp add: packet_def payload_ok_def)
  moreover have "chain_data (objs ?t') [?x] = D" using o sk bytes by (simp add: bdata_def)
  moreover have "current_iphdr_src (ip_data (istk ?t')) = src" "current_iphdr_dest (ip_data (istk ?t')) = dest"
    using v(5,6) by (simp_all add: delivered_def)
  ultimately show ?thesis using acc by blast
qed

text \<open>C26. What one host sends another accepts: a packet from \<^verbatim>\<open>ip4_output_if\<close> that fits the interface, received in a buffer of the
  pool by a host that has the destination address, passes every check of \<^verbatim>\<open>ip4_input\<close> there, which calls UDP, TCP or ICMP with a
  buffer that holds exactly the bytes that were sent and with the source and the destination noted, for each source that is not a
  group address and whatever follows the packet in the buffer.\<close>

theorem sent_packet_is_accepted:
  assumes "packet (objs s) (Some x) (x # xs)" "objs s x = Some b" "headroom 20 b" "lens (objs s) (x # xs) + 20 \<le> unat (mtu n)"
    and "for_netif n' dest" "\<not> ip4_bad_src n' src" "src \<noteq> IPADDR_ANY" "unat proto \<in> {1, 6, 17}"
  shows "\<exists>s' m. ip4_output_if E (Some x) (Some src) (Some dest) ttl tos proto n s = ip_netif_output E (Some x) dest s'
    \<and> m = chain_data (objs s') (x # xs) \<and> length m = 20 + lens (objs s) (x # xs)
    \<and> (\<forall>(t :: ('g, 'y, 'j) ifw) F e c a. objs t (PoolPbuf e) = Some c \<longrightarrow> rx_buf c \<longrightarrow> pb_payload c = Some a \<longrightarrow>
        take (length m) (drop a (pb_mem c)) = m \<longrightarrow> length m \<le> unat (pb_len c) \<longrightarrow>
        (\<exists>t'. ip4_input_ip F (Some (PoolPbuf e)) n' t = act_bind
            (if unat proto = 17 then udp_input F (Some (PoolPbuf e)) n' else if unat proto = 6 then tcp_input F (Some (PoolPbuf e)) n'
             else icmp_input F (Some (PoolPbuf e)) n') (\<lambda>_. set_ip_data (\<lambda>_. no_ip_data)) t'
          \<and> packet (objs t') (Some (PoolPbuf e)) [PoolPbuf e] \<and> chain_data (objs t') [PoolPbuf e] = chain_data (objs s) (x # xs)
          \<and> current_iphdr_src (ip_data (istk t')) = src \<and> current_iphdr_dest (ip_data (istk t')) = dest))"
proof -
  have big: "lens (objs s) (x # xs) + 20 < 65536" using assms(4) unat_u16_bound [of "mtu n"] by linarith
  have len: "length (chain_data (objs s) (x # xs)) = lens (objs s) (x # xs)" using assms(1) seg_length by (auto simp: packet_def simp del: chain_data_simps)
  let ?D = "chain_data (objs s) (x # xs)"
  let ?h = "ip_header tos (of_nat (20 + length ?D)) (ip_id (istk s)) ttl proto src dest"
  have fit: "\<not> (mtu n \<noteq> 0 \<and> unat (mtu n) < lens (objs s) (x # xs) + 20)" using assms(4) by simp
  have h: "?h = ip_header tos (of_nat (lens (objs s) (x # xs) + 20)) (ip_id (istk s)) ttl proto (or_any (Some src)) dest"
    unfolding len by (simp only: add.commute or_any_def option.case)
  from output_packet [OF assms(1-3) big h, of E n] obtain s' where s':
      "ip4_output_if_src E (Some x) (Some src) (Some dest) ttl tos proto n s = ip_netif_output E (Some x) dest s'"
      "chain_data (objs s') (x # xs) = ?h @ ?D"
    unfolding if_not_P [OF fit] by blast
  note accept = header_accepted [where D = ?D and tos = tos and idn = "ip_id (istk s)" and ttl = ttl, OF _ _ _ _ _ _ assms(5,6,8)]
  have out: "ip4_output_if E (Some x) (Some src) (Some dest) ttl tos proto n s = ip_netif_output E (Some x) dest s'"
    using s'(1) assms(7) by (simp add: ip4_output_if_def or_any_def IPADDR_ANY_def)
  have sz: "20 + length ?D < 65536" "length (?h @ ?D) = 20 + lens (objs s) (x # xs)"
    using len big by (simp_all del: chain_data_simps lens_simps)
  show ?thesis
    by (rule exI [of _ s'], rule exI [of _ "?h @ ?D"], intro conjI allI impI, rule out, rule s'(2) [symmetric], rule sz(2), rule accept)
      (use sz(1) in \<open>simp_all del: chain_data_simps\<close>)
qed

section \<open>Echo\<close>

text \<open>The packet at the payload pointer is an echo request with good checksums for this interface.\<close>

definition echo_request :: "netif \<Rightarrow> u8 list \<Rightarrow> nat \<Rightarrow> bool" where
  "echo_request n m l \<longleftrightarrow> ip_verdict n m l = Ip_Accept \<and> unat (m ! 9) = 1 \<and> ip_hlen m + 8 \<le> be16 m 2 \<and> m ! ip_hlen m = 8
     \<and> rfc1071 (take (be16 m 2 - ip_hlen m) (drop (ip_hlen m) m)) = 0"

definition echo_answer :: "netif \<Rightarrow> u8 list \<Rightarrow> u8 list" where
  "echo_answer n m = echo_bytes (our_addr n (iph_dest m)) (iph_src m) (ip_hlen m) m"

definition reply_buf :: "netif \<Rightarrow> nat \<Rightarrow> pbuf \<Rightarrow> pbuf" where
  "reply_buf n a b = (shorten (of_nat (be16 (drop a (pb_mem b)) 2)) b)\<lparr>pb_mem := take a (pb_mem b) @ echo_answer n (drop a (pb_mem b))\<rparr>"

lemma echo_run:
  assumes b: "objs s (PoolPbuf e) = Some b" "rx_buf b" "pb_payload b = Some a" "14 \<le> a" and m: "m = drop a (pb_mem b)"
    and p: "p = Some (PoolPbuf e)" and r: "echo_request n m (unat (pb_len b))" and l: "be16 m 2 + 14 < 65536"
  shows "\<exists>f. ip4_input_ip E p n s = act_bind (ip4_send E n p (iph_src m)) (\<lambda>_. act_bind (drop_packet E p) (\<lambda>_. set_ip_data (\<lambda>_. no_ip_data)))
      (with_buf (PoolPbuf e) (reply_buf n a b) (with_ip f s))"
proof -
  let ?x = "PoolPbuf e" and ?hl = "ip_hlen m"
  let ?c = "shorten (of_nat (be16 m 2)) b"
  let ?s1 = "with_ip (ip_data_update (\<lambda>d. d\<lparr>current_iphdr_dest := iph_dest m, current_iphdr_src := iph_src m\<rparr>)) s"
  have v: "ip_verdict n m (unat (pb_len b)) = Ip_Accept" "unat (m ! 9) = 1" "unat (m ! 9) \<in> {1, 6, 17}" "?hl + 8 \<le> be16 m 2"
    "m ! ?hl = 8" "rfc1071 (take (be16 m 2 - ?hl) (drop ?hl m)) = 0" using r by (auto simp: echo_request_def)
  note c = accept_run [OF b(1-3) m p refl refl v(1,3)]
  let ?s = "delivered ?x a ?hl ?c ?s1"
  have "icmp_input E (Some ?x) n ?s = act_bind (act_bind (ip4_send E n (Some ?x) (iph_src m)) (\<lambda>_. act_return ())) (\<lambda>_. drop_packet E (Some ?x))
    (with_buf ?x (?c\<lparr>pb_mem := take a (pb_mem ?c) @ echo_bytes (our_addr n (iph_dest m)) (iph_src m) ?hl m\<rparr>) ?s)"
    by (rule icmp_echo_run [OF _ c(2,3) b(4)]) (use c(4,5) m v l accepted [OF v(1)] in \<open>simp_all add: delivered_def\<close>)
  then have "ip4_input_ip E p n s = act_bind (ip4_send E n p (iph_src m)) (\<lambda>_. act_bind (drop_packet E p) (\<lambda>_. set_ip_data (\<lambda>_. no_ip_data)))
      (with_buf ?x (?c\<lparr>pb_mem := take a (pb_mem ?c) @ echo_bytes (our_addr n (iph_dest m)) (iph_src m) ?hl m\<rparr>) ?s)"
    unfolding c(1) using v(2) p by (auto simp: act_bind_def act_return_def split: sum.splits)
  moreover have "with_buf ?x (?c\<lparr>pb_mem := take a (pb_mem ?c) @ echo_bytes (our_addr n (iph_dest m)) (iph_src m) ?hl m\<rparr>) ?s =
      with_buf ?x (reply_buf n a b) (with_ip (\<lambda>i. ip_data_update (\<lambda>d. d\<lparr>current_netif := True, current_input_netif := True,
     current_ip4_header := Some (?x, a), current_ip_header_tot_len := of_nat ?hl\<rparr>)
        (ip_data_update (\<lambda>d. d\<lparr>current_iphdr_dest := iph_dest m, current_iphdr_src := iph_src m\<rparr>) i)) s)"
    using c(4) by (simp add: delivered_def reply_buf_def echo_answer_def m)
  ultimately show ?thesis by metis
qed

text \<open>The packet in the buffer of the reply.\<close>

lemma reply_packet:
  assumes b: "rx_buf b" "pb_payload b = Some a" and m: "m = drop a (pb_mem b)" and r: "echo_request n m (unat (pb_len b))"
    and h: "h x = Some (reply_buf n a b)"
  shows "packet h (Some x) [x]" "is_echo_reply (our_addr n (iph_dest m)) (iph_src m) (ip_hlen m) (take (be16 m 2) m) (chain_data h [x])"
    "lens h [x] = be16 m 2" "pb_payload (reply_buf n a b) = Some a" "rx_buf (reply_buf n a b)"
proof -
  have v: "20 \<le> ip_hlen m" "be16 m 2 \<le> unat (pb_len b)" "ip_hlen m + 8 \<le> be16 m 2" "m ! ip_hlen m = 8"
    "rfc1071 (take (be16 m 2 - ip_hlen m) (drop (ip_hlen m) m)) = 0" using r accepted by (auto simp: echo_request_def)
  note rx = rx_bufD [OF b]
  have lm: "unat (pb_len b) \<le> length m" "length m = length (pb_mem b) - a" using rx m by simp_all
  have len: "length (echo_answer n m) = length m" using v lm by (simp add: echo_answer_def echo_length)
  have f: "pb_mem (reply_buf n a b) = take a (pb_mem b) @ echo_answer n m" "pb_len (reply_buf n a b) = of_nat (be16 m 2)"
    "pb_tot_len (reply_buf n a b) = of_nat (be16 m 2)" "pb_next (reply_buf n a b) = None"
    using rx by (simp_all add: reply_buf_def shorten_def m)
  show pay: "pb_payload (reply_buf n a b) = Some a" using b by (simp add: reply_buf_def shorten_def)
  have lb: "length (pb_mem (reply_buf n a b)) = length (pb_mem b)" using f(1) len lm rx by simp
  show "rx_buf (reply_buf n a b)" using b f pay lb v(2) by (auto simp: rx_buf_def) (simp_all add: reply_buf_def shorten_def)
  show "packet h (Some x) [x]" "lens h [x] = be16 m 2" using h f pay lb v(2) rx(1) by (auto simp: packet_def payload_ok_def)
  have "chain_data h [x] = take (be16 m 2) (echo_answer n m)"
    using h f pay rx by (simp add: bdata_def payload_bytes_def)
  also have "\<dots> = echo_bytes (our_addr n (iph_dest m)) (iph_src m) (ip_hlen m) (take (be16 m 2) m)"
    unfolding echo_answer_def by (rule echo_take) (use v lm in simp_all)
  finally show "is_echo_reply (our_addr n (iph_dest m)) (iph_src m) (ip_hlen m) (take (be16 m 2) m) (chain_data h [x])"
    using echo_reply_ok [of "ip_hlen m" "take (be16 m 2) m"] v lm by (simp add: drop_take)
qed

text \<open>C23. A ping is answered: for an echo request to an address of the interface, with good checksums, \<^verbatim>\<open>ip4_input\<close> calls the
  output function of the interface with the sender's address and a packet that is an echo reply (the addresses exchanged, type 0,
  the same identifier, number and data, both checksums good).  The reply is made in the buffer of the request, which is released afterwards.\<close>

theorem ping_is_answered:
  assumes "objs s (PoolPbuf e) = Some b" "rx_buf b" "pb_payload b = Some a" "14 \<le> a" "m = drop a (pb_mem b)" "p = Some (PoolPbuf e)"
    and "echo_request n m (unat (pb_len b))" "mtu n = 0 \<or> be16 m 2 \<le> unat (mtu n)" "be16 m 2 + 14 < 65536"
  shows "\<exists>s'. ip4_input_ip E p n s = act_bind (ip_netif_output E p (iph_src m))
      (\<lambda>_. act_bind (drop_packet E p) (\<lambda>_. set_ip_data (\<lambda>_. no_ip_data))) s'
    \<and> packet (objs s') p [PoolPbuf e] \<and> ncm_if s' = ncm_if s
    \<and> is_echo_reply (our_addr n (iph_dest m)) (iph_src m) (ip_hlen m) (take (be16 m 2) m) (chain_data (objs s') [PoolPbuf e])"
proof -
  obtain f where f: "ip4_input_ip E p n s = act_bind (ip4_send E n p (iph_src m)) (\<lambda>_. act_bind (drop_packet E p) (\<lambda>_. set_ip_data (\<lambda>_. no_ip_data)))
      (with_buf (PoolPbuf e) (reply_buf n a b) (with_ip f s))"
    using echo_run [OF assms(1-7,9)] by blast
  let ?s = "with_buf (PoolPbuf e) (reply_buf n a b) (with_ip f s)"
  have o: "objs ?s (PoolPbuf e) = Some (reply_buf n a b)" by simp
  note q = reply_packet [OF assms(2,3,5,7), where h = "objs ?s" and x = "PoolPbuf e", OF o]
  have "\<not> (mtu n \<noteq> 0 \<and> pb_tot_len (reply_buf n a b) > mtu n)"
    using assms(8) by (auto simp: word_less_nat_alt reply_buf_def shorten_def assms(5))
  then have "ip4_send E n p (iph_src m) ?s = ip_netif_output E p (iph_src m) ?s"
    using run_get [OF o] assms(6) by (auto simp: ip4_send_def act_bind_def)
  then show ?thesis
    using f q assms(6) by (intro exI [of _ ?s]) (simp add: act_bind_def del: chain_data_simps)
qed

section \<open>A host with one received packet\<close>

definition ip_rx_buf :: "u8 list \<Rightarrow> pbuf" where
  "ip_rx_buf bs = \<lparr>pb_next = None, pb_payload = Some 14, pb_tot_len = of_nat (length bs), pb_len = of_nat (length bs),
     pb_type_internal = ucast (pbuf_type_code PBUF_POOL), pb_flags = 0, pb_ref = 1, pb_if_idx = 0,
     pb_mem = replicate 14 0 @ bs @ replicate 64 0\<rparr>"

definition ip_app :: "u8 list \<Rightarrow> (unit, unit ip_stack arp_stack, dma_channel set) app" where
  "ip_app bs = \<lparr>glIsApplnActive = True, glDMARxCount = 0, glDMATxCount = 0, glDataTransStarted = False,
     StandbyModeEnable = False, TriggerStandbyMode = False, glForceLinkU2 = False, glEp0StatCount = 0,
     gl_setupdat0 = 0, gl_setupdat1 = 0, gl_UsbLogBuffer = 0x40060000, glSrcEpFlush = False,
     notifyBuf = \<lparr>buf_buffer = 0, buf_count = 0, buf_size = 0, buf_status = 0\<rparr>,
     outBuf = \<lparr>buf_buffer = 0, buf_count = 0, buf_size = 0, buf_status = 0\<rparr>, received_frame = None,
     pbufs = demo_chain\<lparr>pb_obj := [PoolPbuf 3 \<mapsto> ip_rx_buf bs]\<rparr>,
     net = \<lparr>netif_data = arp_netif, netif_default = True,
       stack = \<lparr>arp_table = static_for\<lparr>ae_state := ETHARP_STATE_STABLE\<rparr> # replicate 9 arp_entry_zero, etharp_cached_entry = 0,
         stack_rest = \<lparr>ip_id = 7, ip_data = no_ip_data, ip_rest = ()\<rparr>\<rparr>\<rparr>, fx3 = demo_fx3\<rparr>"

definition ip_fw :: "u8 list \<Rightarrow> (unit, unit ip_stack arp_stack, dma_channel set) fw" where
  "ip_fw bs = \<lparr>ncm_if = ncm_ready, world = ip_app bs\<rparr>"

definition demo_ip_env :: "(unit, unit, dma_channel set) ip_env" where
  "demo_ip_env = \<lparr>ip_mem = demo_env, ip_at = (\<lambda>_. 0), ip_netif_output = (\<lambda>_ _. act_return ERR_OK), ip4_frag = (\<lambda>_ _ _. act_return ERR_OK),
     ip4_reass = (\<lambda>_. act_return None), udp_input = (\<lambda>_ _. act_return ()), tcp_input = (\<lambda>_ _. act_return ())\<rparr>"

text \<open>An echo request from 192.168.7.9 to 192.168.7.1.\<close>

definition ping_packet :: "u8 list" where
  "ping_packet = [0x45, 0, 0, 0x1C, 0, 0, 0, 0, 0x40, 1, 0xEB, 0x86, 0xC0, 0xA8, 7, 9, 0xC0, 0xA8, 7, 1, 8, 0, 0xF7, 0xFD, 0, 1, 0, 1]"

lemma ip_fw_buf:
  "objs (ip_fw bs) (PoolPbuf 3) = Some (ip_rx_buf bs)" "pb_payload (ip_rx_buf bs) = Some 14"
  "drop 14 (pb_mem (ip_rx_buf bs)) = bs @ replicate 64 0"
  by (simp_all add: ip_fw_def ip_app_def ip_rx_buf_def)

lemma ip_fw_rx: "length bs < 65536 \<Longrightarrow> rx_buf (ip_rx_buf bs)" "length bs < 65536 \<Longrightarrow> unat (pb_len (ip_rx_buf bs)) = length bs"
  by (simp_all add: rx_buf_def ip_rx_buf_def small_words)

lemma arp_netif_for:
  "for_netif arp_netif 0x0107A8C0" "\<not> ip4_bad_src arp_netif demo_host" "our_addr arp_netif 0x0107A8C0 = 0x0107A8C0"
  by (simp_all add: for_netif_def ip4_input_accept_def ip4_bad_src_def our_addr_def arp_netif_def netif_is_up_def ip4_addr_ismulticast_def
      ip4_addr_isbroadcast_u32_def IPADDR_ANY_def PP_HTONL_def NETIF_FLAG_UP_def NETIF_FLAG_LINK_UP_def NETIF_FLAG_BROADCAST_def)

lemma ping_bytes:
  "be16 (ping_packet @ replicate 64 0) 2 = 28" "be16 (ping_packet @ replicate 64 0) 6 = 0" "ip_hlen (ping_packet @ replicate 64 0) = 20"
  "iph_src (ping_packet @ replicate 64 0) = demo_host" "iph_dest (ping_packet @ replicate 64 0) = 0x0107A8C0"
  "(ping_packet @ replicate 64 0) ! 0 = 0x45" "(ping_packet @ replicate 64 0) ! 9 = 1" "(ping_packet @ replicate 64 0) ! 20 = 8"
  by (simp_all add: be16_def ip_hlen_def ping_packet_def iph_src_def iph_dest_def word_at_def rd32_def rd16_def)

lemma ping_sums:
  "rfc1071 (take 20 (ping_packet @ replicate 64 0)) = 0" "rfc1071 (take 8 (drop 20 (ping_packet @ replicate 64 0))) = 0"
  by (simp_all add: rfc1071_def ones_def ping_packet_def)

lemma ping_ok: "echo_request arp_netif (ping_packet @ replicate 64 0) 28"
  using ping_bytes ping_sums arp_netif_for by (simp add: echo_request_def ip_verdict_def)

text \<open>A packet of eight bytes that is to be sent, with room for the headers.\<close>

definition ip_tx_buf :: pbuf where
  "ip_tx_buf = \<lparr>pb_next = None, pb_payload = Some 34, pb_tot_len = 8, pb_len = 8, pb_type_internal = ucast (pbuf_type_code PBUF_RAM),
     pb_flags = 0, pb_ref = 1, pb_if_idx = 0, pb_mem = replicate 34 0 @ [8, 0, 0xF7, 0xFD, 0, 1, 0, 1]\<rparr>"

definition ip_tx_fw :: "(unit, unit ip_stack arp_stack, dma_channel set) fw" where
  "ip_tx_fw = with_buf (PoolPbuf 3) ip_tx_buf (ip_fw [])"

lemma ip_tx_ok:
  "packet (objs ip_tx_fw) (Some (PoolPbuf 3)) [PoolPbuf 3]" "objs ip_tx_fw (PoolPbuf 3) = Some ip_tx_buf"
  "lens (objs ip_tx_fw) [PoolPbuf 3] = 8" "chain_data (objs ip_tx_fw) [PoolPbuf 3] = [8, 0, 0xF7, 0xFD, 0, 1, 0, 1]"
  "headroom 20 ip_tx_buf" "ip_id (istk ip_tx_fw) = 7" "unat (mtu arp_netif) = 1514"
  "pb_len ip_tx_buf = 8"
  by (simp_all add: ip_tx_fw_def ip_tx_buf_def packet_def payload_ok_def bdata_def payload_bytes_def headroom_def pbuf_consts
      ip_fw_def ip_app_def arp_netif_def)

theorem ip4_output_writes_header_witness:
  "\<exists>s'. ip4_output_if demo_ip_env (Some (PoolPbuf 3)) None (Some demo_host) 255 0 1 arp_netif ip_tx_fw =
      ip_netif_output demo_ip_env (Some (PoolPbuf 3)) demo_host s' \<and> ip_id (istk s') = 8
    \<and> chain_data (objs s') [PoolPbuf 3] = ip_header 0 28 7 255 1 0x0107A8C0 demo_host @ [8, 0, 0xF7, 0xFD, 0, 1, 0, 1]"
  using ip4_output_writes_header [where s = ip_tx_fw and x = "PoolPbuf 3" and xs = "[]" and b = ip_tx_buf and E = demo_ip_env
      and src = None and dest = demo_host and ttl = 255 and tos = 0 and proto = 1 and n = arp_netif, OF ip_tx_ok(1,2,5) _ refl]
    ip_tx_ok by (simp add: or_any_def IPADDR_ANY_def arp_netif_def del: chain_data_simps) blast

text \<open>The packet is received by a host with the address 192.168.7.1.\<close>

theorem sent_packet_is_accepted_witness:
  "\<exists>m s' t'. ip4_output_if demo_ip_env (Some (PoolPbuf 3)) (Some demo_host) (Some 0x0107A8C0) 255 0 1 arp_netif ip_tx_fw =
      ip_netif_output demo_ip_env (Some (PoolPbuf 3)) 0x0107A8C0 s' \<and> m = chain_data (objs s') [PoolPbuf 3]
    \<and> ip4_input_ip demo_ip_env (Some (PoolPbuf 3)) arp_netif (ip_fw m) =
        act_bind (icmp_input demo_ip_env (Some (PoolPbuf 3)) arp_netif) (\<lambda>_. set_ip_data (\<lambda>_. no_ip_data)) t'
    \<and> chain_data (objs t') [PoolPbuf 3] = [8, 0, 0xF7, 0xFD, 0, 1, 0, 1]"
proof -
  have prem: "lens (objs ip_tx_fw) [PoolPbuf 3] + 20 \<le> unat (mtu arp_netif)" "demo_host \<noteq> IPADDR_ANY" "unat (1 :: u8) \<in> {1, 6, 17}"
    using ip_tx_ok(3,7) by (simp_all add: IPADDR_ANY_def del: lens_simps)
  note sent = sent_packet_is_accepted [where E = demo_ip_env and ttl = 255 and tos = 0, OF ip_tx_ok(1,2,5) prem(1) arp_netif_for(1,2) prem(2,3)]
  from sent obtain s' m where m: "ip4_output_if demo_ip_env (Some (PoolPbuf 3)) (Some demo_host) (Some 0x0107A8C0) 255 0 1 arp_netif ip_tx_fw =
      ip_netif_output demo_ip_env (Some (PoolPbuf 3)) 0x0107A8C0 s'" "m = chain_data (objs s') [PoolPbuf 3]" "length m = 20 + lens (objs ip_tx_fw) [PoolPbuf 3]"
    and acc: "\<forall>(t :: (unit, unit, dma_channel set) ifw) F e c a. objs t (PoolPbuf e) = Some c \<longrightarrow> rx_buf c \<longrightarrow> pb_payload c = Some a \<longrightarrow>
        take (length m) (drop a (pb_mem c)) = m \<longrightarrow> length m \<le> unat (pb_len c) \<longrightarrow>
        (\<exists>t'. ip4_input_ip F (Some (PoolPbuf e)) arp_netif t = act_bind
            (if unat (1 :: u8) = 17 then udp_input F (Some (PoolPbuf e)) arp_netif else if unat (1 :: u8) = 6 then tcp_input F (Some (PoolPbuf e)) arp_netif
             else icmp_input F (Some (PoolPbuf e)) arp_netif) (\<lambda>_. set_ip_data (\<lambda>_. no_ip_data)) t'
          \<and> packet (objs t') (Some (PoolPbuf e)) [PoolPbuf e] \<and> chain_data (objs t') [PoolPbuf e] = chain_data (objs ip_tx_fw) [PoolPbuf 3]
          \<and> current_iphdr_src (ip_data (istk t')) = demo_host \<and> current_iphdr_dest (ip_data (istk t')) = 0x0107A8C0)"
    by (elim exE conjE) (rule that, assumption+)
  have l: "length m < 65536" using m(3) ip_tx_ok(3) by (simp del: lens_simps)
  have "take (length m) (drop 14 (pb_mem (ip_rx_buf m))) = m" "length m \<le> unat (pb_len (ip_rx_buf m))"
    using ip_fw_rx(2) [OF l] unfolding ip_fw_buf(3) by simp_all
  from acc [rule_format, OF ip_fw_buf(1) ip_fw_rx(1) [OF l] ip_fw_buf(2) this, of demo_ip_env]
  obtain t' where "ip4_input_ip demo_ip_env (Some (PoolPbuf 3)) arp_netif (ip_fw m) =
        act_bind (icmp_input demo_ip_env (Some (PoolPbuf 3)) arp_netif) (\<lambda>_. set_ip_data (\<lambda>_. no_ip_data)) t'"
      "chain_data (objs t') [PoolPbuf 3] = chain_data (objs ip_tx_fw) [PoolPbuf 3]"
    by (auto simp del: chain_data_simps)
  then show ?thesis using m(1,2) unfolding ip_tx_ok(4) by blast
qed

theorem ip4_input_follows_header_witness:
  "\<exists>s1 c. ip4_input_ip demo_ip_env (Some (PoolPbuf 3)) arp_netif (ip_fw ping_packet) =
     act_bind (icmp_input demo_ip_env (Some (PoolPbuf 3)) arp_netif) (\<lambda>_. set_ip_data (\<lambda>_. no_ip_data)) (delivered (PoolPbuf 3) 14 20 c s1)"
proof -
  have l: "length ping_packet = 28" by (simp add: ping_packet_def)
  have v: "ip_verdict arp_netif (ping_packet @ replicate 64 0) (unat (pb_len (ip_rx_buf ping_packet))) = Ip_Accept"
    using ping_ok ip_fw_rx(2) [of ping_packet] l by (simp add: echo_request_def)
  show ?thesis
    using ip4_input_follows_header [where e = 3 and n = arp_netif and E = demo_ip_env,
        OF ip_fw_buf(1) ip_fw_rx(1) ip_fw_buf(2) refl refl refl refl, of ping_packet] l
    unfolding ip_fw_buf(3) v by (auto simp: ping_bytes simp del: chain_data_simps)
qed

theorem ping_is_answered_witness:
  "\<exists>s'. ip4_input_ip demo_ip_env (Some (PoolPbuf 3)) arp_netif (ip_fw ping_packet) =
      act_bind (ip_netif_output demo_ip_env (Some (PoolPbuf 3)) demo_host)
        (\<lambda>_. act_bind (drop_packet demo_ip_env (Some (PoolPbuf 3))) (\<lambda>_. set_ip_data (\<lambda>_. no_ip_data))) s'
    \<and> is_echo_reply 0x0107A8C0 demo_host 20 ping_packet (chain_data (objs s') [PoolPbuf 3])"
proof -
  have l: "length ping_packet = 28" by (simp add: ping_packet_def)
  have r: "echo_request arp_netif (drop 14 (pb_mem (ip_rx_buf ping_packet))) (unat (pb_len (ip_rx_buf ping_packet)))"
    using ping_ok ip_fw_rx(2) [of ping_packet] l by (simp add: ip_fw_buf(3))
  show ?thesis
    using ping_is_answered [where e = 3 and n = arp_netif and E = demo_ip_env,
        OF ip_fw_buf(1) ip_fw_rx(1) ip_fw_buf(2) _ refl refl r] l ping_bytes arp_netif_for(3)
    unfolding ip_fw_buf(3) by (auto simp: arp_netif_def simp del: chain_data_simps)
qed

end
