(* ===== verification/Lwip_EchoNcm.thy ===== *)
theory Lwip_EchoNcm
  imports Lwip_IpProps
begin

text \<open>
  A ping on its way through the firmware: from the Ethernet layer through IP and ICMP, back through address resolution
  and the Ethernet layer to the application's output function and into a block of the NCM driver.
\<close>

section \<open>Packet buffers under the transmit path\<close>

abbreviation pbufs_is :: "'h pbuf_sys \<Rightarrow> ('h, 'x, 'k) app \<Rightarrow> bool" where
  "pbufs_is v w \<equiv> pbufs w = v"

lemma ikp_basic: "ik (pbufs_is v) (in_fx3 m)" "ik (pbufs_is v) (in_sdk n)" "ik (pbufs_is v) (sdk K r)"
  by (auto simp: ik_def intro: wlp_any)

lemma ikp_pbufs: "ik (\<lambda>s. s = v) m \<Longrightarrow> ik (pbufs_is v) (in_pbufs m)"
  by (auto simp: ik_def intro: wpx_mono)

lemma ikp_get: "ik (\<lambda>s. s = v) (pb_get p)"
  by (auto simp: ik_def wpx_def pb_get_def split: option.splits)

lemma ikp_read: "ik (\<lambda>s. s = v) (pb_read p off n)"
  unfolding pb_read_def by (intro ik_rules ikp_get)

lemma ikp_copy: "ik (\<lambda>s. s = v) (copy_partial_loop fuel p l off out c)"
proof (induction fuel arbitrary: p l off out c)
  case (Suc fuel)
  show ?case unfolding copy_partial_loop.simps Let_def by (intro ik_rules ikp_get ikp_read Suc)
qed (simp add: ik_rules)

lemma ikp_do: "ik (pbufs_is v) (sdk_do K r)"
  unfolding sdk_do_def by (intro ik_rules ikp_basic)

lemma ikp_seq: "ik (pbufs_is v) (sdk_seq K rs)"
  by (induction rs) (auto intro!: ik_rules ikp_do)

lemma ikp_transfer: "ik (pbufs_is v) (usb_transfer_ep_app K ep b n)"
  unfolding usb_transfer_ep_app_def channel_get_retry_def channel_get_def channel_commit_def channel_reset_def dma_memcpy_def
  by (intro ik_rules ik_usb_buf ikp_basic ikp_do ikp_seq ik_modify; simp)

lemma ikp_tx_cb: "ik (pbufs_is v) (net_tx_cb_app d arg)"
  unfolding net_tx_cb_app_def pbuf_copy_partial_def by (intro ik_rules ikp_pbufs ikp_get ikp_copy)

interpretation appp: env_world "app_env K L" "pbufs_is v"
  for K :: "'k sdk" and L :: "('h, 'x, 'k) lwip" and v :: "'h pbuf_sys"
  by unfold_locales (auto simp: app_env_def usb_ep_busy_app_def ikp_tx_cb ikp_transfer intro!: ik_rules)

lemma link_output_pbufs: "ik (\<lambda>s. pbufs_is v (world s)) (link_output_app K L fuel p)"
  by (induction fuel) (auto simp: lw_pbuf_def intro!: appp.ikw_rules ikp_pbufs ikp_get appp.can_tx_world appp.tx_world)

lemma dwp_ik: "dwp m Q s \<Longrightarrow> ik I m \<Longrightarrow> I s \<Longrightarrow> dwp m (\<lambda>r s'. Q r s' \<and> I s') s"
  by (auto simp: ik_def wpx_def split: sum.splits)

lemma resolved_mac: "arp_inv a \<Longrightarrow> arp_resolved (arp_table a) hop = Some i \<Longrightarrow> length (ae_ethaddr (arp_table a ! i)) = 6"
  using arp_resolved_iff [of a hop i] arp_invD(3) [of a i] by (auto simp: entry_ok_def arp_consts)

text \<open>Sending writes the Ethernet header and changes no other packet buffer.\<close>

lemma ip_packet_sent_pbufs:
  assumes inv: "tx_inv (ncm_if s)" and active: "glIsApplnActive (world s)"
    and arp: "arp_inv (astk s)" and n: "netif_data (net (world s)) = n" "length (hwaddr n) = 6"
    and ip: "\<not> ip4_addr_isbroadcast_u32 ip n" "\<not> ip4_addr_ismulticast ip" "next_hop n ip = Some hop"
    and e: "arp_resolved (arp_table (astk s)) hop = Some i" "arp_table (astk s) ! i = e"
      "ae_ctime e < ARP_AGE_REREQUEST_USED_UNICAST"
    and h: "pb_obj (pbufs (world s)) = h" and p: "packet h (Some x) (x # xs)" "length (x # xs) < chain_fuel"
    and b: "h x = Some b" "headroom 14 b"
    and room: "lens h (x # xs) + 14 \<le> max_datagram" "tx_room (of_nat (lens h (x # xs) + 14)) (ncm_if s)"
  shows "dwp (ip4_output_app (with_etharp K (Suc fuel) L) (Some x) ip) (\<lambda>r s'. r = ERR_OK
      \<and> tx_appended (of_nat (lens h (x # xs) + 14)) (ncm_if s)
        (eth_frame (ae_ethaddr e) (hwaddr n) ETHTYPE_IP (chain_data h (x # xs))) (ncm_if s')
      \<and> objs s' = (objs s)(x \<mapsto> with_header (hwaddr n) (ae_ethaddr e) ETHTYPE_IP b)) s"
proof -
  let ?s = "with_buf x (with_header (hwaddr n) (ae_ethaddr e) ETHTYPE_IP b) (with_hint i s)"
  note len = resolved_mac [OF arp e(1), unfolded e(2)]
  have "lens h (x # xs) + 14 < 65536" using room(1) by (simp add: max_datagram_def ntb_sizes ncm_consts)
  then have tot: "unat (pb_tot_len b) + 14 < 65536" using packet_tot_len [OF p(1)] b(1) by auto
  have run: "ip4_output_app (with_etharp K (Suc fuel) L) (Some x) ip s = link_output_app K L (Suc fuel) (Some x) ?s"
    unfolding ip4_output_run [OF arp n(1) ip e] by (rule ethernet_output_run) (use b h tot len n(2) in auto)
  note d = ip_packet_sent [OF assms, of K fuel L]
  then have "dwp (link_output_app K L (Suc fuel) (Some x)) (\<lambda>r s'. r = ERR_OK
      \<and> tx_appended (of_nat (lens h (x # xs) + 14)) (ncm_if s)
        (eth_frame (ae_ethaddr e) (hwaddr n) ETHTYPE_IP (chain_data h (x # xs))) (ncm_if s')) ?s"
    using run by (simp add: wpx_def del: link_output_app.simps)
  from dwp_ik [OF this link_output_pbufs [of "pbufs (world ?s)"] refl] show ?thesis
    unfolding wpx_def run by (auto simp del: link_output_app.simps split: sum.splits)
qed

section \<open>The Ethernet layer\<close>

text \<open>A received frame at the payload pointer: long enough for the checks of the upper layers and of type IP.\<close>

definition ip_frame :: "pbuf \<Rightarrow> nat \<Rightarrow> bool" where
  "ip_frame b a \<longleftrightarrow> rx_buf b \<and> pb_payload b = Some a \<and> a + 78 \<le> length (pb_mem b) \<and> 14 < unat (pb_len b)
     \<and> half_at (drop a (pb_mem b)) 12 = PP_HTONS ETHTYPE_IP"

lemma cast_not_custom: "eth_cast_flag d AND PBUF_FLAG_IS_CUSTOM = 0"
  by (simp add: eth_cast_flag_def PBUF_FLAG_IS_CUSTOM_def PBUF_FLAG_LLMCAST_def PBUF_FLAG_LLBCAST_def)

lemma ethernet_input_run:
  assumes b: "objs s x = Some b" "ip_frame b a" and n: "nif_flags (netif_data (net (world s))) AND NETIF_FLAG_ETHARP \<noteq> 0"
  shows "\<exists>c. ethernet_input L (Some x) s = act_bind (ip4_input L (Some x)) (\<lambda>_. act_return ERR_OK) (with_buf x c s)
    \<and> rx_buf c \<and> pb_payload c = Some (a + 14) \<and> pb_mem c = pb_mem b \<and> unat (pb_len c) = unat (pb_len b) - 14"
proof -
  have f: "rx_buf b" "pb_payload b = Some a" "a + 78 \<le> length (pb_mem b)" "14 < unat (pb_len b)"
    "half_at (drop a (pb_mem b)) 12 = PP_HTONS ETHTYPE_IP" using b(2) by (auto simp: ip_frame_def)
  note rx = rx_bufD [OF f(1,2)]
  let ?hdr = "payload_bytes b 0 14" and ?n = "netif_data (net (world s))"
  let ?d = "b\<lparr>pb_if_idx := (if pb_if_idx b = 0 then nif_num ?n + 1 else pb_if_idx b), pb_flags := pb_flags b OR eth_cast_flag (take 6 ?hdr)\<rparr>"
  let ?c = "skip 14 ?d"
  have ty: "rd16 (\<lambda>i. ?hdr ! i) 12 = PP_HTONS ETHTYPE_IP"
    using f(2,3,5) by (simp add: half_at_def rd16_def payload_bytes_def)
  have rd: "lw_pbuf (pb_read (Some x) 0 14) s = Inr (?hdr, s)"
    using b(1) f rx by (simp add: lw_pbuf_def in_world_def in_pbufs_def pb_read_def act_defs payload_ok_def)
  have md: "lw_pbuf (pb_modify (Some x) g) s = Inr ((), with_buf x (g b) s)" for g
    using b(1) by (simp add: lw_pbuf_def in_world_def in_pbufs_def with_buf_def)
  have rm: "lw_pbuf (pbuf_remove_header (Some x) (of_nat 14)) (with_buf x ?d s) = Inr (False, with_buf x ?c s)"
    using run_remove_header [of "with_buf x ?d s" x ?d 14] f(4) by simp
  have "ethernet_input L (Some x) s = act_bind (ip4_input L (Some x)) (\<lambda>_. act_return ERR_OK) (with_buf x ?c s)"
    using b(1) f(4) n rd md rm ty unfolding ethernet_input_def Let_def SIZEOF_ETH_HDR_def
    by (simp add: act_bind_def in_world_def act_gets_def)
  moreover
  have "rx_buf ?c" "pb_payload ?c = Some (a + 14)" "pb_mem ?c = pb_mem b"  "unat (pb_len ?c) = unat (pb_len b) - 14"
    using f rx skip_len [of 14 ?d] cast_not_custom [of "take 6 ?hdr"]
    by (auto simp: rx_buf_def skip_def bit.conj_disj_distrib2)
  ultimately show ?thesis by blast
qed

section \<open>The whole way\<close>

text \<open>The stack with IP filled in, over the output function of the application.\<close>

definition on_link :: "'k sdk \<Rightarrow> nat \<Rightarrow> ('h, 'z ip_stack arp_stack, 'k) lwip \<Rightarrow> ('h, 'z, 'k) ip_env \<Rightarrow> ('h, 'z, 'k) ip_env" where
  "on_link K fuel L E = E\<lparr>ip_mem := lw_mem L, ip_netif_output := ip4_output_app (with_etharp K fuel L)\<rparr>"

definition with_ip4 :: "'k sdk \<Rightarrow> nat \<Rightarrow> ('h, 'z, 'k) ip_env \<Rightarrow> ('h, 'z ip_stack arp_stack, 'k) lwip \<Rightarrow> ('h, 'z ip_stack arp_stack, 'k) lwip" where
  "with_ip4 K fuel E L = (with_etharp K fuel L)\<lparr>
     ip4_input := (\<lambda>p. act_bind the_netif (\<lambda>n. ip4_input_ip (on_link K fuel L E) p n))\<rparr>"

lemma with_ip_arp [simp]:
  "arp_table (astk (with_ip f s)) = arp_table (astk s)" "arp_inv (astk (with_ip f s)) = arp_inv (astk s)"
  "netif_data (net (world (with_ip f s))) = netif_data (net (world s))" "glIsApplnActive (world (with_ip f s)) = glIsApplnActive (world s)"
  by (simp_all add: with_ip_def arp_inv_def)

lemma with_buf_arp [simp]:
  "astk (with_buf x b s) = astk s" "net (world (with_buf x b s)) = net (world s)"
  "glIsApplnActive (world (with_buf x b s)) = glIsApplnActive (world s)"
  by (simp_all add: with_buf_def)

lemma reply_headroom: "rx_buf b \<Longrightarrow> pb_payload b = Some a \<Longrightarrow> 14 \<le> a \<Longrightarrow> headroom 14 b"
  by (auto simp: rx_buf_def headroom_def pbuf_consts)

lemma with_header_rx:
  assumes b: "rx_buf b" "pb_payload b = Some a" "14 \<le> a" and l: "length src = 6" "length dst = 6" "unat (pb_len b) + 14 < 65536"
  shows "rx_buf (with_header src dst ty b)"
proof -
  note rx = rx_bufD [OF b(1,2)]
  have "unat (pb_len b + 14) = unat (pb_len b) + 14" using l(3) by (simp add: unat_u16_add)
  moreover have "length (le16 v) = 2" for v by (simp add: le16_def)
  ultimately show ?thesis
    using b l rx by (auto simp: rx_buf_def with_header_def payload_write_def length_mem_write)
qed

lemma echo_to_driver:
  assumes inv: "tx_inv (ncm_if s)" and active: "glIsApplnActive (world s)" and arp: "arp_inv (astk s)"
    and n: "netif_data (net (world s)) = n" "length (hwaddr n) = 6" "mtu n = 0 \<or> be16 m 2 \<le> unat (mtu n)"
    and b: "objs s (PoolPbuf x) = Some b" "rx_buf b" "pb_payload b = Some a" "14 \<le> a" and m: "m = drop a (pb_mem b)"
    and r: "echo_request n m (unat (pb_len b))"
    and ip: "\<not> ip4_addr_isbroadcast_u32 (iph_src m) n" "\<not> ip4_addr_ismulticast (iph_src m)" "next_hop n (iph_src m) = Some hop"
    and e: "arp_resolved (arp_table (astk s)) hop = Some i" "arp_table (astk s) ! i = e" "ae_ctime e < ARP_AGE_REREQUEST_USED_UNICAST"
    and room: "be16 m 2 + 14 \<le> max_datagram" "tx_room (of_nat (be16 m 2 + 14)) (ncm_if s)"
    and E: "ip_netif_output E = ip4_output_app (with_etharp K (Suc fuel) L)"
  shows "dwp (ip4_input_ip E (Some (PoolPbuf x)) n) (\<lambda>_ s'. objs s' = (objs s)(PoolPbuf x := None)
    \<and> (\<exists>R. tx_appended (of_nat (be16 m 2 + 14)) (ncm_if s) (eth_frame (ae_ethaddr e) (hwaddr n) ETHTYPE_IP R) (ncm_if s')
        \<and> is_echo_reply (our_addr n (iph_dest m)) (iph_src m) (ip_hlen m) (take (be16 m 2) m) R)) s"
proof -
  let ?x = "PoolPbuf x" and ?b = "reply_buf n a b"
  have big: "be16 m 2 + 14 < 65536" using room(1) by (simp add: max_datagram_def ntb_sizes ncm_consts)
  obtain f where f: "ip4_input_ip E (Some ?x) n s = act_bind (ip4_send E n (Some ?x) (iph_src m))
      (\<lambda>_. act_bind (drop_packet E (Some ?x)) (\<lambda>_. set_ip_data (\<lambda>_. no_ip_data))) (with_buf ?x ?b (with_ip f s))"
    using echo_run [OF b(1-4) m refl r big] by blast
  let ?s = "with_buf ?x ?b (with_ip f s)"
  have o: "objs ?s ?x = Some ?b" by simp
  note q = reply_packet [OF b(2,3) m r, where h = "objs ?s" and x = ?x, OF o]
  have len: "unat (pb_tot_len ?b) = be16 m 2" "unat (pb_len ?b) = be16 m 2"
    using q(3) be16_bound [of m 2] by (simp_all add: reply_buf_def shorten_def m [symmetric] small_words)
  then have "\<not> (mtu n \<noteq> 0 \<and> pb_tot_len ?b > mtu n)" using n(3) by (auto simp: word_less_nat_alt)
  then have snd: "ip4_send E n (Some ?x) (iph_src m) ?s = ip4_output_app (with_etharp K (Suc fuel) L) (Some ?x) (iph_src m) ?s"
    using run_get [OF o] E by (auto simp: ip4_send_def act_bind_def)
  have l: "length [?x] < chain_fuel" by (simp add: chain_fuel_def)
  note mac = resolved_mac [OF arp e(1), unfolded e(2)]
  have "rx_buf (with_header (hwaddr n) (ae_ethaddr e) ETHTYPE_IP ?b)"
    by (rule with_header_rx [OF q(5,4) b(4)]) (use n(2) mac len big in simp_all)
  note dr = run_drop [OF _ this]
  have fit: "lens (objs ?s) [?x] + 14 \<le> max_datagram" "tx_room (of_nat (lens (objs ?s) [?x] + 14)) (ncm_if ?s)"
    unfolding q(3) using room by simp_all
  have "dwp (ip4_output_app (with_etharp K (Suc fuel) L) (Some ?x) (iph_src m)) (\<lambda>r s'. r = ERR_OK
      \<and> tx_appended (of_nat (lens (objs ?s) [?x] + 14)) (ncm_if ?s)
          (eth_frame (ae_ethaddr e) (hwaddr n) ETHTYPE_IP (chain_data (objs ?s) [?x])) (ncm_if s')
      \<and> objs s' = (objs ?s)(?x \<mapsto> with_header (hwaddr n) (ae_ethaddr e) ETHTYPE_IP ?b)) ?s"
    by (rule ip_packet_sent_pbufs [OF _ _ _ _ n(2) ip _ _ e(3) refl q(1) l o reply_headroom [OF q(5,4) b(4)] fit(1)])
      (use inv active arp n e fit(2) in \<open>simp_all del: lens_simps\<close>)
  then show ?thesis
    unfolding wpx_def f act_bind_def snd q(3) using q(2)
    by (auto simp: dr set_ip_data_def split: sum.splits simp del: chain_data_simps) blast
qed

text \<open>C22. A ping that reaches the device as an Ethernet frame is answered on the wire: \<^verbatim>\<open>ethernet_input\<close> passes the packet to IP and
  ICMP, and the echo reply (the addresses exchanged, the same data, both checksums good) becomes an Ethernet frame to the hardware
  address of the next hop towards the sender and the last datagram of the block that the driver is collecting; every other block is
  as before, and the buffer of the frame is released.  The application is active, the sender is a unicast address whose next hop is
  resolved with an entry younger than the age at which it is requested again, the reply needs no fragmentation, and the block has
  room for the frame; a fault of the driver's environment is left open.\<close>

theorem ping_frame_is_answered_in_ntb:
  assumes "ncm_reach (app_env K (with_ip4 K (Suc fuel) E L)) s" "glIsApplnActive (world s)" "arp_inv (astk s)"
    and "netif_data (net (world s)) = n" "length (hwaddr n) = 6" "nif_flags n AND NETIF_FLAG_ETHARP \<noteq> 0"
    and "objs s (PoolPbuf x) = Some b" "ip_frame b a" "m = drop (a + 14) (pb_mem b)" "echo_request n m (unat (pb_len b) - 14)"
    and "mtu n = 0 \<or> be16 m 2 \<le> unat (mtu n)"
    and "\<not> ip4_addr_isbroadcast_u32 (iph_src m) n" "\<not> ip4_addr_ismulticast (iph_src m)" "next_hop n (iph_src m) = Some hop"
    and "arp_resolved (arp_table (astk s)) hop = Some i" "arp_table (astk s) ! i = e" "ae_ctime e < ARP_AGE_REREQUEST_USED_UNICAST"
    and "be16 m 2 + 14 \<le> max_datagram" "tx_room (of_nat (be16 m 2 + 14)) (ncm_if s)"
  shows "dwp (ethernet_input (with_ip4 K (Suc fuel) E L) (Some (PoolPbuf x))) (\<lambda>r s'. r = ERR_OK \<and> objs s' = (objs s)(PoolPbuf x := None)
    \<and> (\<exists>R. tx_appended (of_nat (be16 m 2 + 14)) (ncm_if s) (eth_frame (ae_ethaddr e) (hwaddr n) ETHTYPE_IP R) (ncm_if s')
        \<and> is_echo_reply (our_addr n (iph_dest m)) (iph_src m) (ip_hlen m) (take (be16 m 2) m) R)) s"
proof -
  let ?x = "PoolPbuf x" and ?L = "with_ip4 K (Suc fuel) E L"
  have fl: "nif_flags (netif_data (net (world s))) AND NETIF_FLAG_ETHARP \<noteq> 0" using assms(4,6) by simp
  obtain c where run: "ethernet_input ?L (Some ?x) s = act_bind (ip4_input ?L (Some ?x)) (\<lambda>_. act_return ERR_OK) (with_buf ?x c s)"
    and c: "rx_buf c" "pb_payload c = Some (a + 14)" "pb_mem c = pb_mem b" "unat (pb_len c) = unat (pb_len b) - 14"
    using ethernet_input_run [OF assms(7,8) fl, of ?L] by auto
  let ?s = "with_buf ?x c s"
  have inp: "ip4_input ?L (Some ?x) ?s = ip4_input_ip (on_link K (Suc fuel) L E) (Some ?x) n ?s"
    using assms(4) by (simp add: with_ip4_def act_bind_def the_netif_run)
  have "dwp (ip4_input_ip (on_link K (Suc fuel) L E) (Some ?x) n) (\<lambda>_ s'. objs s' = (objs ?s)(?x := None)
    \<and> (\<exists>R. tx_appended (of_nat (be16 m 2 + 14)) (ncm_if ?s) (eth_frame (ae_ethaddr e) (hwaddr n) ETHTYPE_IP R) (ncm_if s')
        \<and> is_echo_reply (our_addr n (iph_dest m)) (iph_src m) (ip_hlen m) (take (be16 m 2) m) R)) ?s"
    by (rule echo_to_driver [where K = K and fuel = fuel and L = L and i = i, OF _ _ _ _ assms(5,11) _ c(1,2) _ _ _ assms(12-14) _ _ assms(17,18)])
      (use assms reach_tx_inv [OF assms(1)] c in \<open>simp_all add: on_link_def\<close>)
  then show ?thesis
    unfolding wpx_def run act_bind_def inp by (auto simp: act_return_def split: sum.splits)
qed

section \<open>A ping from a host on the link\<close>

definition echo_netif :: netif where
  "echo_netif = arp_netif\<lparr>nif_flags := NETIF_FLAG_BROADCAST OR NETIF_FLAG_ETHARP OR NETIF_FLAG_LINK_UP OR NETIF_FLAG_UP\<rparr>"

definition echo_frame_buf :: pbuf where
  "echo_frame_buf = (ip_rx_buf ping_packet)\<lparr>pb_payload := Some 0, pb_len := 42, pb_tot_len := 42,
     pb_mem := [2, 0, 0, 0, 0, 1, 2, 0, 0, 0, 0, 9, 8, 0] @ ping_packet @ replicate 64 0\<rparr>"

definition echo_app :: "(unit, unit ip_stack arp_stack, dma_channel set) app" where
  "echo_app = (ip_app [])\<lparr>pbufs := demo_chain\<lparr>pb_obj := [PoolPbuf 3 \<mapsto> echo_frame_buf]\<rparr>, net := (net (ip_app []))\<lparr>netif_data := echo_netif\<rparr>\<rparr>"

definition bare_lwip :: "(unit, unit ip_stack arp_stack, dma_channel set) lwip" where
  "bare_lwip = \<lparr>lw_mem = demo_env, lw_netif = \<lparr>netif_do_ip_addr_changed = (\<lambda>_ _ x. Inr ((), x)),
       etharp_gratuitous = (\<lambda>_ x. Inr ((), x)), etharp_cleanup_netif = (\<lambda>_ x. Inr ((), x))\<rparr>,
     lwip_init = (\<lambda>s. Inr ((), s)), lwiperf_start = (\<lambda>s. Inr ((), s)), ip4_input = (\<lambda>_ s. Inr ((), s)),
     etharp_input = (\<lambda>_ s. Inr ((), s)), etharp_output = (\<lambda>_ _ s. Inr (ERR_OK, s))\<rparr>"

abbreviation echo_lwip :: "(unit, unit ip_stack arp_stack, dma_channel set) lwip" where
  "echo_lwip \<equiv> with_ip4 demo_sdk 1 demo_ip_env bare_lwip"

definition echo_fw :: "(unit, unit ip_stack arp_stack, dma_channel set) fw" where
  "echo_fw = snd (projr (net_can_tx (app_env demo_sdk echo_lwip) 42 \<lparr>ncm_if = ncm_ready, world = echo_app\<rparr>))"

lemma echo_fw_state: "ncm_reach (app_env demo_sdk echo_lwip) echo_fw" "world echo_fw = echo_app" "tx_room 42 (ncm_if echo_fw)"
proof -
  let ?s = "\<lparr>ncm_if = ncm_ready, world = echo_app\<rparr>"
  have "\<exists>t. net_can_tx (app_env demo_sdk echo_lwip) 42 ?s = Inr (True, t)"
    by (simp add: net_can_tx_def tx_datagram_fits_user_ntb_def tx_accept_user_ntb_def act_defs get_if_def modify_if_def
      on_list_def ncm_ready_def ncm_zero_def pop_ntb_def push_ntb_def NCM_NTB_N_def ntb_modify_def ring_index_advance_def)
  then have run: "net_can_tx (app_env demo_sdk echo_lwip) 42 ?s = Inr (True, echo_fw)" by (auto simp: echo_fw_def)
  have r: "ncm_reach (app_env demo_sdk echo_lwip) ?s"
    by (rule ncm_reach.init [of "\<lparr>ncm_if = ncm_zero, world = echo_app\<rparr>"]) (simp add: net_init_eq)
  from ncm_reach.step [OF r ncm_step.can_tx [OF run]]
  show "ncm_reach (app_env demo_sdk echo_lwip) echo_fw" .
  have "\<not> tx_room 42 ncm_ready" by (simp add: tx_room_def ncm_ready_def ncm_zero_def)
  moreover have "42 \<le> max_datagram" by (simp add: max_datagram_def ntb_sizes ncm_consts)
  ultimately show "world echo_fw = echo_app" "tx_room 42 (ncm_if echo_fw)"
    using wpx_conj [OF net_can_tx_spec [OF reach_tx_inv [OF r], of "app_env demo_sdk echo_lwip" 42]
        net_can_tx_block [OF reach_tx_inv [OF r], of "app_env demo_sdk echo_lwip" 42]] run
    by (auto simp: wpx_def)
qed

lemma echo_netif_for:
  "for_netif echo_netif 0x0107A8C0" "\<not> ip4_bad_src echo_netif demo_host" "our_addr echo_netif 0x0107A8C0 = 0x0107A8C0"
  "\<not> ip4_addr_isbroadcast_u32 demo_host echo_netif" "\<not> ip4_addr_ismulticast demo_host" "next_hop echo_netif demo_host = Some demo_host"
  by (simp_all add: for_netif_def ip4_input_accept_def ip4_bad_src_def our_addr_def echo_netif_def arp_netif_def netif_is_up_def ip4_addr_ismulticast_def
      ip4_addr_isbroadcast_u32_def IPADDR_ANY_def IPADDR_BROADCAST_def PP_HTONL_def NETIF_FLAG_UP_def NETIF_FLAG_LINK_UP_def NETIF_FLAG_BROADCAST_def
      NETIF_FLAG_ETHARP_def next_hop_def)

lemma echo_request_ok: "echo_request echo_netif (ping_packet @ replicate 64 0) 28"
  using ping_bytes ping_sums echo_netif_for by (simp add: echo_request_def ip_verdict_def)

lemma echo_frame_ok: "ip_frame echo_frame_buf 0" "drop 14 (pb_mem echo_frame_buf) = ping_packet @ replicate 64 0" "unat (pb_len echo_frame_buf) = 42"
  by (simp_all add: ip_frame_def rx_buf_def echo_frame_buf_def ip_rx_buf_def ping_packet_def half_at_def rd16_def PP_HTONS_def ETHTYPE_IP_def)

theorem ping_frame_is_answered_in_ntb_witness:
  "dwp (ethernet_input echo_lwip (Some (PoolPbuf 3))) (\<lambda>r s'. r = ERR_OK \<and> objs s' = (objs echo_fw)(PoolPbuf 3 := None)
    \<and> (\<exists>R. tx_appended 42 (ncm_if echo_fw) (eth_frame [2, 0, 0, 0, 0, 9] [2, 0, 0, 0, 0, 1] ETHTYPE_IP R) (ncm_if s')
        \<and> is_echo_reply 0x0107A8C0 demo_host 20 ping_packet R)) echo_fw"
proof -
  let ?e = "static_for\<lparr>ae_state := ETHARP_STATE_STABLE\<rparr>"
  note w = echo_fw_state(2)
  have st: "arp_table (astk echo_fw) = ?e # replicate 9 arp_entry_zero" "netif_data (net (world echo_fw)) = echo_netif"
    "objs echo_fw (PoolPbuf 3) = Some echo_frame_buf" "glIsApplnActive (world echo_fw)"
    by (simp_all add: w echo_app_def ip_app_def)
  have arp: "arp_inv (astk echo_fw)"
    by (simp add: w echo_app_def ip_app_def arp_inv_def static_for_def arp_entry_zero_def entry_ok_def sole_at_def nth_Cons' arp_consts)
  have i: "arp_resolved (arp_table (astk echo_fw)) demo_host = Some 0" by (simp add: st arp_resolved_def static_for_def)
  have e: "arp_table (astk echo_fw) ! 0 = ?e" "ae_ctime ?e < ARP_AGE_REREQUEST_USED_UNICAST"
    by (simp_all add: st static_for_def arp_entry_zero_def arp_consts)
  have fl: "length (hwaddr echo_netif) = 6" "nif_flags echo_netif AND NETIF_FLAG_ETHARP \<noteq> 0" "hwaddr echo_netif = [2, 0, 0, 0, 0, 1]"
    "unat (mtu echo_netif) = 1514"
    by (simp_all add: echo_netif_def arp_netif_def NETIF_FLAG_UP_def NETIF_FLAG_LINK_UP_def NETIF_FLAG_BROADCAST_def NETIF_FLAG_ETHARP_def)
  have room: "42 \<le> max_datagram" by (simp add: max_datagram_def ntb_sizes ncm_consts)
  have mac: "ae_ethaddr ?e = [2, 0, 0, 0, 0, 9]" "length ping_packet = 28" by (simp_all add: static_for_def ping_packet_def)
  show ?thesis
    using ping_frame_is_answered_in_ntb [where fuel = 0 and K = demo_sdk and L = bare_lwip and E = demo_ip_env and x = 3 and a = 0,
        OF _ st(4) arp st(2) fl(1,2) st(3) echo_frame_ok(1) refl _ _ _ _ _ _ e, where hop = demo_host]
      echo_fw_state(1,3) echo_netif_for echo_request_ok i fl room ping_bytes mac by (simp add: echo_frame_ok)
qed

end
