(* ===== verification/Lwip_Reass.thy ===== *)
theory Lwip_Reass
  imports Lwip_Ip4
begin

text \<open>
  Reassembly of IP fragments (lib/lwip/src/core/ipv4/ip4_frag.c, first part), in the configuration of lwipopts.h: old
  datagrams are dropped when there is no room, fragments that overlap are refused.  A fragment waits in its packet buffer,
  where a helper structure replaces the first eight bytes of its header: the next fragment, the first position and the end of
  its data.  How a pointer to a buffer is kept in memory is the record \<open>pbuf_repr\<close>.
\<close>

section \<open>Data\<close>

definition IP_REASS_MAX_PBUFS :: nat where "IP_REASS_MAX_PBUFS = 10"
definition IP_REASS_MAXAGE :: u8 where "IP_REASS_MAXAGE = 15"
definition IP_REASS_FLAG_LASTFRAG :: u8 where "IP_REASS_FLAG_LASTFRAG = 0x01"
definition ICMP_TE_FRAG :: u8 where "ICMP_TE_FRAG = 1"

record ip_reassdata =
  rd_next :: "nat option"
  rd_p :: "pptr option"
  rd_iphdr :: "u8 list"
  rd_datagram_len :: u16
  rd_flags :: u8
  rd_timer :: u8

record 'r reass_stack =
  rd_obj :: "nat \<Rightarrow> ip_reassdata option"
  reassdatagrams :: "nat option"
  ip_reass_pbufcount :: u16
  pool_REASSDATA :: memp_desc
  reass_rest :: 'r

type_synonym ('h, 'r, 'k) rfw = "('h, 'r reass_stack, 'k) ifw"

record pbuf_repr =
  ptr_word :: "pptr option \<Rightarrow> u32"
  word_ptr :: "u32 \<Rightarrow> pptr option"

record ip_reass_helper =
  rh_next_pbuf :: "pptr option"
  rh_start :: u16
  rh_end :: u16

datatype validate = IP_REASS_VALIDATE_TELEGRAM_FINISHED | IP_REASS_VALIDATE_PBUF_QUEUED | IP_REASS_VALIDATE_PBUF_DROPPED

section \<open>Access\<close>

definition reass :: "('r reass_stack \<Rightarrow> 'a) \<Rightarrow> (('h, 'r, 'k) rfw, 'a) act" where
  "reass f = ip4 (\<lambda>s. f (ip_rest s))"

definition reass_modify :: "('r reass_stack \<Rightarrow> 'r reass_stack) \<Rightarrow> (('h, 'r, 'k) rfw, unit) act" where
  "reass_modify f = ip4_modify (ip_rest_update f)"

definition rd_get :: "nat option \<Rightarrow> (('h, 'r, 'k) rfw, ip_reassdata) act" where
  "rd_get n =
     (case n of
        None \<Rightarrow> act_fail NullDeref
      | Some i \<Rightarrow>
          act_bind (reass (\<lambda>s. rd_obj s i)) (\<lambda>d.
          case d of None \<Rightarrow> act_fail OutOfBounds | Some r \<Rightarrow> act_return r))"

definition rd_modify :: "nat option \<Rightarrow> (ip_reassdata \<Rightarrow> ip_reassdata) \<Rightarrow> (('h, 'r, 'k) rfw, unit) act" where
  "rd_modify n f =
     act_bind (rd_get n) (\<lambda>d. reass_modify (\<lambda>s. s\<lparr>rd_obj := (rd_obj s)(the n \<mapsto> f d)\<rparr>))"

text \<open>A walk over the queue of datagrams visits every element of the pool at most once.\<close>

definition rd_fuel :: "(('h, 'r, 'k) rfw, nat) act" where
  "rd_fuel = reass (\<lambda>s. Suc (memp_num (pool_REASSDATA s)))"

definition memp_malloc_REASSDATA :: "(('h, 'r, 'k) rfw, nat option) act" where
  "memp_malloc_REASSDATA =
     act_bind (reass (\<lambda>s. do_memp_malloc_pool (pool_REASSDATA s))) (\<lambda>(e, d).
     act_bind (reass_modify (pool_REASSDATA_update (\<lambda>_. d))) (\<lambda>_.
     act_return e))"

definition memp_free_REASSDATA :: "nat \<Rightarrow> (('h, 'r, 'k) rfw, unit) act" where
  "memp_free_REASSDATA n =
     reass_modify (\<lambda>s. s\<lparr>rd_obj := (rd_obj s)(n := None), pool_REASSDATA := do_memp_free_pool (pool_REASSDATA s) n\<rparr>)"

definition iprh_bytes :: "pbuf_repr \<Rightarrow> u8 list \<Rightarrow> ip_reass_helper" where
  "iprh_bytes R bs = \<lparr>rh_next_pbuf = word_ptr R (word_at bs 0), rh_start = half_at bs 4, rh_end = half_at bs 6\<rparr>"

definition iprh :: "pbuf_repr \<Rightarrow> pptr option \<Rightarrow> (('h, 'r, 'k) rfw, ip_reass_helper) act" where
  "iprh R p = act_bind (lw_pbuf (pb_read p 0 8)) (\<lambda>bs. act_return (iprh_bytes R bs))"

definition set_next_pbuf :: "pbuf_repr \<Rightarrow> pptr option \<Rightarrow> pptr option \<Rightarrow> (('h, 'r, 'k) rfw, unit) act" where
  "set_next_pbuf R p q = lw_pbuf (pb_write p 0 (le32 (ptr_word R q)))"

definition IP_ADDRESSES_AND_ID_MATCH :: "u8 list \<Rightarrow> u8 list \<Rightarrow> bool" where
  "IP_ADDRESSES_AND_ID_MATCH a b \<longleftrightarrow> iph_src a = iph_src b \<and> iph_dest a = iph_dest b \<and> half_at a 4 = half_at b 4"

definition IPH_OFFSET_BYTES :: "u8 list \<Rightarrow> u16" where
  "IPH_OFFSET_BYTES h = (lwip_htons (IPH_OFFSET h) AND IP_OFFMASK) * 8"

section \<open>Removing datagrams\<close>

definition ip_reass_dequeue_datagram :: "nat \<Rightarrow> nat option \<Rightarrow> (('h, 'r, 'k) rfw, unit) act" where
  "ip_reass_dequeue_datagram ipr prev =
     act_bind (reass reassdatagrams) (\<lambda>first.
     act_bind (rd_get (Some ipr)) (\<lambda>d.
     act_bind (if first = Some ipr then reass_modify (reassdatagrams_update (\<lambda>_. rd_next d))
               else rd_modify prev (rd_next_update (\<lambda>_. rd_next d))) (\<lambda>_.
     memp_free_REASSDATA ipr)))"

text \<open>The fragments of a datagram are released one by one; the result is the number of buffers.\<close>

fun free_frags :: "('h, 'r reass_stack, 'k) ip_env \<Rightarrow> pbuf_repr \<Rightarrow> nat \<Rightarrow> pptr option \<Rightarrow> u16 \<Rightarrow> (('h, 'r, 'k) rfw, u16) act" where
  "free_frags E R 0 p n = act_fail NoReturn"
| "free_frags E R (Suc fuel) p n =
     (if p = None then act_return n
      else
        act_bind (iprh R p) (\<lambda>h.
        act_bind (lw_pbuf (pbuf_clen p)) (\<lambda>clen.
        act_bind (lw_pbuf (pbuf_free (ip_mem E) p)) (\<lambda>_.
        free_frags E R fuel (rh_next_pbuf h) (n + clen)))))"

definition ip_reass_free_complete_datagram :: "('h, 'r reass_stack, 'k) ip_env \<Rightarrow> pbuf_repr \<Rightarrow> nat \<Rightarrow> nat option \<Rightarrow> (('h, 'r, 'k) rfw, u16) act" where
  "ip_reass_free_complete_datagram E R ipr prev =
     act_bind (rd_get (Some ipr)) (\<lambda>d.
     act_bind (iprh R (rd_p d)) (\<lambda>h.
     act_bind
       (if rh_start h = 0 then
          let p = rd_p d in
          act_bind (rd_modify (Some ipr) (rd_p_update (\<lambda>_. rh_next_pbuf h))) (\<lambda>_.
          act_bind (lw_pbuf (pb_write p 0 (rd_iphdr d))) (\<lambda>_.
          act_bind (icmp_time_exceeded E p ICMP_TE_FRAG) (\<lambda>_.
          act_bind (lw_pbuf (pbuf_clen p)) (\<lambda>clen.
          act_bind (lw_pbuf (pbuf_free (ip_mem E) p)) (\<lambda>_.
          act_return clen)))))
        else act_return 0) (\<lambda>n.
     act_bind (rd_get (Some ipr)) (\<lambda>d.
     act_bind (free_frags E R chain_fuel (rd_p d) n) (\<lambda>pbufs_freed.
     act_bind (ip_reass_dequeue_datagram ipr prev) (\<lambda>_.
     act_bind (reass_modify (ip_reass_pbufcount_update (\<lambda>c. c - pbufs_freed))) (\<lambda>_.
     act_return pbufs_freed)))))))"

fun tmr_loop :: "('h, 'r reass_stack, 'k) ip_env \<Rightarrow> pbuf_repr \<Rightarrow> nat \<Rightarrow> nat option \<Rightarrow> nat option \<Rightarrow> (('h, 'r, 'k) rfw, unit) act" where
  "tmr_loop E R 0 prev r = act_fail NoReturn"
| "tmr_loop E R (Suc fuel) prev r =
     (case r of
        None \<Rightarrow> act_return ()
      | Some i \<Rightarrow>
          act_bind (rd_get r) (\<lambda>d.
          if rd_timer d > 0 then
            act_bind (rd_modify r (rd_timer_update (\<lambda>t. t - 1))) (\<lambda>_. tmr_loop E R fuel r (rd_next d))
          else act_bind (ip_reass_free_complete_datagram E R i prev) (\<lambda>_. tmr_loop E R fuel prev (rd_next d))))"

definition ip_reass_tmr :: "('h, 'r reass_stack, 'k) ip_env \<Rightarrow> pbuf_repr \<Rightarrow> (('h, 'r, 'k) rfw, unit) act" where
  "ip_reass_tmr E R = act_bind rd_fuel (\<lambda>fuel. act_bind (reass reassdatagrams) (tmr_loop E R fuel None))"

text \<open>The oldest datagram that is not the one of the header \<open>fraghdr\<close>, the one before it, and how many there are.\<close>

fun oldest_loop :: "u8 list \<Rightarrow> nat \<Rightarrow> nat option \<Rightarrow> nat option \<Rightarrow> nat option \<Rightarrow> nat option \<Rightarrow> nat \<Rightarrow>
    (('h, 'r, 'k) rfw, nat option \<times> nat option \<times> nat) act" where
  "oldest_loop fraghdr 0 r prev old old_prev n = act_fail NoReturn"
| "oldest_loop fraghdr (Suc fuel) r prev old old_prev n =
     (if r = None then act_return (old, old_prev, n)
      else
        act_bind (rd_get r) (\<lambda>d.
        let prev' = (if rd_next d \<noteq> None then r else prev) in
        if IP_ADDRESSES_AND_ID_MATCH (rd_iphdr d) fraghdr then oldest_loop fraghdr fuel (rd_next d) prev' old old_prev n
        else
          act_bind (if old = None then act_return True
                    else act_bind (rd_get old) (\<lambda>od. act_return (rd_timer d \<le> rd_timer od))) (\<lambda>older.
          if older then oldest_loop fraghdr fuel (rd_next d) prev' r prev (n + 1)
          else oldest_loop fraghdr fuel (rd_next d) prev' old old_prev (n + 1))))"

fun remove_loop :: "('h, 'r reass_stack, 'k) ip_env \<Rightarrow> pbuf_repr \<Rightarrow> u8 list \<Rightarrow> nat \<Rightarrow> nat \<Rightarrow> nat \<Rightarrow> (('h, 'r, 'k) rfw, nat) act" where
  "remove_loop E R fraghdr pbufs_needed 0 pbufs_freed = act_fail NoReturn"
| "remove_loop E R fraghdr pbufs_needed (Suc fuel) pbufs_freed =
     act_bind rd_fuel (\<lambda>k.
     act_bind (reass reassdatagrams) (\<lambda>r.
     act_bind (oldest_loop fraghdr k r None None None 0) (\<lambda>(old, old_prev, other_datagrams).
     act_bind (case old of
         None \<Rightarrow> act_return 0
       | Some i \<Rightarrow> act_bind (ip_reass_free_complete_datagram E R i old_prev) (\<lambda>c. act_return (unat c))) (\<lambda>c.
     let freed' = pbufs_freed + c in
     if freed' < pbufs_needed \<and> other_datagrams > 1 then remove_loop E R fraghdr pbufs_needed fuel freed'
     else act_return freed'))))"

definition ip_reass_remove_oldest_datagram :: "('h, 'r reass_stack, 'k) ip_env \<Rightarrow> pbuf_repr \<Rightarrow> u8 list \<Rightarrow> nat \<Rightarrow> (('h, 'r, 'k) rfw, nat) act" where
  "ip_reass_remove_oldest_datagram E R fraghdr pbufs_needed =
     act_bind rd_fuel (\<lambda>fuel. remove_loop E R fraghdr pbufs_needed fuel 0)"

section \<open>Queueing a fragment\<close>

definition ip_reass_enqueue_new_datagram :: "('h, 'r reass_stack, 'k) ip_env \<Rightarrow> pbuf_repr \<Rightarrow> u8 list \<Rightarrow> nat \<Rightarrow> (('h, 'r, 'k) rfw, nat option) act" where
  "ip_reass_enqueue_new_datagram E R fraghdr clen =
     act_bind memp_malloc_REASSDATA (\<lambda>ipr.
     act_bind
       (if ipr = None then
          act_bind (ip_reass_remove_oldest_datagram E R fraghdr clen) (\<lambda>freed'.
          if freed' \<ge> clen then memp_malloc_REASSDATA else act_return None)
        else act_return ipr) (\<lambda>ipr.
     case ipr of
       None \<Rightarrow> act_return None
     | Some i \<Rightarrow>
         act_bind (reass reassdatagrams) (\<lambda>first.
         act_bind (reass_modify (\<lambda>s. s\<lparr>rd_obj := (rd_obj s)(i \<mapsto>
             \<lparr>rd_next = first, rd_p = None, rd_iphdr = fraghdr, rd_datagram_len = 0, rd_flags = 0, rd_timer = IP_REASS_MAXAGE\<rparr>),
             reassdatagrams := Some i\<rparr>)) (\<lambda>_.
         act_return (Some i)))))"

text \<open>Where the walk over the waiting fragments ends: the fragment is refused, it was linked in before another one, or the end of
  the queue behind the fragment \<open>prev\<close>.  The flag says that no hole was seen.\<close>

datatype frag_pos = Frag_refused | Frag_linked bool | Frag_end "pptr option" bool

fun frag_loop :: "pbuf_repr \<Rightarrow> nat \<Rightarrow> pptr option \<Rightarrow> u16 \<Rightarrow> u16 \<Rightarrow> nat \<Rightarrow> pptr option \<Rightarrow> pptr option \<Rightarrow> bool \<Rightarrow>
    (('h, 'r, 'k) rfw, frag_pos) act" where
  "frag_loop R ipr new_p st en 0 q prev valid = act_fail NoReturn"
| "frag_loop R ipr new_p st en (Suc fuel) q prev valid =
     (if q = None then act_return (Frag_end prev valid)
      else
        act_bind (iprh R q) (\<lambda>tmp.
        if st < rh_start tmp then
          act_bind (set_next_pbuf R new_p q) (\<lambda>_.
          if prev \<noteq> None then
            act_bind (iprh R prev) (\<lambda>h.
            if st < rh_end h \<or> en > rh_start tmp then act_return Frag_refused
            else
              act_bind (set_next_pbuf R prev new_p) (\<lambda>_.
              act_return (Frag_linked (valid \<and> rh_end h = st))))
          else if en > rh_start tmp then act_return Frag_refused
          else
            act_bind (rd_modify (Some ipr) (rd_p_update (\<lambda>_. new_p))) (\<lambda>_.
            act_return (Frag_linked valid)))
        else if st = rh_start tmp then act_return Frag_refused
        else if st < rh_end tmp then act_return Frag_refused
        else
          act_bind (if prev \<noteq> None then act_bind (iprh R prev) (\<lambda>h. act_return (valid \<and> rh_end h = rh_start tmp))
                    else act_return valid) (\<lambda>valid'.
          frag_loop R ipr new_p st en fuel (rh_next_pbuf tmp) q valid')))"

text \<open>The fragment linked into the queue; the result is whether there is no hole before it, or nothing for one that is refused.\<close>

definition frag_link :: "pbuf_repr \<Rightarrow> nat \<Rightarrow> pptr option \<Rightarrow> u16 \<Rightarrow> u16 \<Rightarrow> nat \<Rightarrow> pptr option \<Rightarrow> pptr option \<Rightarrow> bool \<Rightarrow>
    (('h, 'r, 'k) rfw, bool option) act" where
  "frag_link R ipr new_p st en fuel q prev valid =
     act_bind (frag_loop R ipr new_p st en fuel q prev valid) (\<lambda>pos.
     case pos of
       Frag_refused \<Rightarrow> act_return None
     | Frag_linked valid \<Rightarrow> act_return (Some valid)
     | Frag_end prev valid \<Rightarrow>
         if prev \<noteq> None then
           act_bind (set_next_pbuf R prev new_p) (\<lambda>_.
           act_bind (iprh R prev) (\<lambda>h.
           act_return (Some (valid \<and> rh_end h = st))))
         else
           act_bind (rd_modify (Some ipr) (rd_p_update (\<lambda>_. new_p))) (\<lambda>_.
           act_return (Some valid)))"

text \<open>No hole from the fragment with the end \<open>en\<close> on.\<close>

fun rest_loop :: "pbuf_repr \<Rightarrow> nat \<Rightarrow> u16 \<Rightarrow> pptr option \<Rightarrow> (('h, 'r, 'k) rfw, bool) act" where
  "rest_loop R 0 en q = act_fail NoReturn"
| "rest_loop R (Suc fuel) en q =
     (if q = None then act_return True
      else
        act_bind (iprh R q) (\<lambda>h.
        if en \<noteq> rh_start h then act_return False else rest_loop R fuel (rh_end h) (rh_next_pbuf h)))"

text \<open>The checks behind the insertion: with the last fragment here and no hole the datagram is complete.\<close>

definition frag_validate :: "pbuf_repr \<Rightarrow> nat \<Rightarrow> pptr option \<Rightarrow> bool \<Rightarrow> bool \<Rightarrow> (('h, 'r, 'k) rfw, validate) act" where
  "frag_validate R ipr new_p is_last valid =
     act_bind (rd_get (Some ipr)) (\<lambda>d.
     if is_last \<or> rd_flags d AND IP_REASS_FLAG_LASTFRAG \<noteq> 0 then
       if valid then
         act_bind (if rd_p d = None then act_return True
                   else act_bind (iprh R (rd_p d)) (\<lambda>h. act_return (rh_start h \<noteq> 0))) (\<lambda>no_first.
         if no_first then act_return IP_REASS_VALIDATE_PBUF_QUEUED
         else
           act_bind (iprh R new_p) (\<lambda>h.
           act_bind (rest_loop R chain_fuel (rh_end h) (rh_next_pbuf h)) (\<lambda>complete.
           act_return (if complete then IP_REASS_VALIDATE_TELEGRAM_FINISHED else IP_REASS_VALIDATE_PBUF_QUEUED))))
       else act_return IP_REASS_VALIDATE_PBUF_QUEUED
     else act_return IP_REASS_VALIDATE_PBUF_QUEUED)"

definition ip_reass_chain_frag_into_datagram_and_validate :: "pbuf_repr \<Rightarrow> nat \<Rightarrow> pptr option \<Rightarrow> bool \<Rightarrow> (('h, 'r, 'k) rfw, validate) act" where
  "ip_reass_chain_frag_into_datagram_and_validate R ipr new_p is_last =
     act_bind (lw_pbuf (pb_read new_p 0 IP_HLEN)) (\<lambda>fraghdr.
     let len = lwip_htons (half_at fraghdr 2);
         hlen = IPH_HL_BYTES fraghdr
     in
     if ucast hlen > len then act_return IP_REASS_VALIDATE_PBUF_DROPPED
     else
       let len = len - ucast hlen;
           offset = IPH_OFFSET_BYTES fraghdr;
           en = offset + len
       in
       act_bind (set_next_pbuf R new_p None) (\<lambda>_.
       act_bind (lw_pbuf (pb_write new_p 4 (le16 offset))) (\<lambda>_.
       act_bind (lw_pbuf (pb_write new_p 6 (le16 en))) (\<lambda>_.
       if en < offset then act_return IP_REASS_VALIDATE_PBUF_DROPPED
       else
         act_bind (rd_get (Some ipr)) (\<lambda>d.
         act_bind (frag_link R ipr new_p offset en chain_fuel (rd_p d) None True) (\<lambda>linked.
         case linked of
           None \<Rightarrow> act_return IP_REASS_VALIDATE_PBUF_DROPPED
         | Some valid \<Rightarrow> frag_validate R ipr new_p is_last valid))))))"

section \<open>Reassembly\<close>

fun match_loop :: "u8 list \<Rightarrow> nat \<Rightarrow> nat option \<Rightarrow> (('h, 'r, 'k) rfw, nat option) act" where
  "match_loop fraghdr 0 ipr = act_fail NoReturn"
| "match_loop fraghdr (Suc fuel) ipr =
     (if ipr = None then act_return None
      else
        act_bind (rd_get ipr) (\<lambda>d.
        if IP_ADDRESSES_AND_ID_MATCH (rd_iphdr d) fraghdr then act_return ipr else match_loop fraghdr fuel (rd_next d)))"

fun prev_loop :: "nat \<Rightarrow> nat \<Rightarrow> nat option \<Rightarrow> (('h, 'r, 'k) rfw, nat option) act" where
  "prev_loop ipr 0 r = act_fail NoReturn"
| "prev_loop ipr (Suc fuel) r =
     (if r = None then act_return None
      else
        act_bind (rd_get r) (\<lambda>d.
        if rd_next d = Some ipr then act_return r else prev_loop ipr fuel (rd_next d)))"

text \<open>The fragments behind the first one lose their headers and are appended to the packet.\<close>

fun join_loop :: "pbuf_repr \<Rightarrow> nat \<Rightarrow> pptr option \<Rightarrow> pptr option \<Rightarrow> (('h, 'r, 'k) rfw, unit) act" where
  "join_loop R 0 p r = act_fail NoReturn"
| "join_loop R (Suc fuel) p r =
     (if r = None then act_return ()
      else
        act_bind (lw_pbuf (payload_ptr r)) (\<lambda>iprh.
        act_bind (lw_pbuf (pbuf_remove_header r (of_nat IP_HLEN))) (\<lambda>_.
        act_bind (lw_pbuf (pbuf_cat p r)) (\<lambda>_.
        act_bind (lw_pbuf (at_read iprh 0 8)) (\<lambda>bs.
        join_loop R fuel p (rh_next_pbuf (iprh_bytes R bs)))))))"

definition reass_finish :: "('h, 'r reass_stack, 'k) ip_env \<Rightarrow> pbuf_repr \<Rightarrow> nat \<Rightarrow> (('h, 'r, 'k) rfw, pptr option) act" where
  "reass_finish E R ipr =
     act_bind (rd_get (Some ipr)) (\<lambda>d.
     let datagram_len = rd_datagram_len d + of_nat IP_HLEN;
         p = rd_p d
     in
     act_bind (iprh R p) (\<lambda>h.
     act_bind (lw_pbuf (pb_write p 0 (rd_iphdr d))) (\<lambda>_.
     act_bind (lw_pbuf (pb_write p 2 (le16 (lwip_htons datagram_len)))) (\<lambda>_.
     act_bind (lw_pbuf (pb_write p 6 (le16 0))) (\<lambda>_.
     act_bind (lw_pbuf (pb_write p 10 (le16 0))) (\<lambda>_.
     act_bind (lw_pbuf (payload_ptr p)) (\<lambda>fraghdr.
     act_bind (lw_pbuf (at_read fraghdr 0 IP_HLEN)) (\<lambda>hdr.
     act_bind (lw_pbuf (pb_write p 10 (le16 (inet_chksum (ptr_odd (ip_at E) fraghdr) hdr (of_nat IP_HLEN))))) (\<lambda>_.
     act_bind (join_loop R chain_fuel p (rh_next_pbuf h)) (\<lambda>_.
     act_bind (reass reassdatagrams) (\<lambda>first.
     act_bind (if first = Some ipr then act_return None
               else act_bind rd_fuel (\<lambda>fuel. prev_loop ipr fuel first)) (\<lambda>ipr_prev.
     act_bind (ip_reass_dequeue_datagram ipr ipr_prev) (\<lambda>_.
     act_bind (lw_pbuf (pbuf_clen p)) (\<lambda>clen.
     act_bind (reass_modify (ip_reass_pbufcount_update (\<lambda>c. c - clen))) (\<lambda>_.
     act_return p)))))))))))))))"

text \<open>The labels \<^verbatim>\<open>nullreturn\<close> and \<^verbatim>\<open>nullreturn_ipr\<close>.\<close>

definition reass_drop :: "('h, 'r reass_stack, 'k) ip_env \<Rightarrow> pptr option \<Rightarrow> (('h, 'r, 'k) rfw, pptr option) act" where
  "reass_drop E p = act_bind (lw_pbuf (pbuf_free (ip_mem E) p)) (\<lambda>_. act_return None)"

definition reass_drop_ipr :: "('h, 'r reass_stack, 'k) ip_env \<Rightarrow> pptr option \<Rightarrow> nat \<Rightarrow> (('h, 'r, 'k) rfw, pptr option) act" where
  "reass_drop_ipr E p ipr =
     act_bind (rd_get (Some ipr)) (\<lambda>d.
     act_bind (if rd_p d = None then ip_reass_dequeue_datagram ipr None else act_return ()) (\<lambda>_.
     reass_drop E p))"

text \<open>A fragment whose datagram has the entry \<open>ipr\<close>.\<close>

definition reass_add :: "('h, 'r reass_stack, 'k) ip_env \<Rightarrow> pbuf_repr \<Rightarrow> pptr option \<Rightarrow> u8 list \<Rightarrow> u16 \<Rightarrow> nat \<Rightarrow> (('h, 'r, 'k) rfw, pptr option) act" where
  "reass_add E R p fraghdr clen ipr =
     (let offset = IPH_OFFSET_BYTES fraghdr;
          len = lwip_htons (half_at fraghdr 2) - ucast (IPH_HL_BYTES fraghdr);
          is_last = (IPH_OFFSET fraghdr AND PP_HTONS IP_MF = 0);
          datagram_len = offset + len
      in
      if is_last \<and> (datagram_len < offset \<or> datagram_len > 0xFFFF - of_nat IP_HLEN) then reass_drop_ipr E p ipr
      else
        act_bind (ip_reass_chain_frag_into_datagram_and_validate R ipr p is_last) (\<lambda>valid.
        if valid = IP_REASS_VALIDATE_PBUF_DROPPED then reass_drop_ipr E p ipr
        else
          act_bind (reass_modify (ip_reass_pbufcount_update (\<lambda>c. c + clen))) (\<lambda>_.
          act_bind (if is_last then
              rd_modify (Some ipr) (\<lambda>d. d\<lparr>rd_datagram_len := datagram_len, rd_flags := rd_flags d OR IP_REASS_FLAG_LASTFRAG\<rparr>)
            else act_return ()) (\<lambda>_.
          if valid = IP_REASS_VALIDATE_TELEGRAM_FINISHED then reass_finish E R ipr else act_return None))))"

definition ip4_reass_ip :: "('h, 'r reass_stack, 'k) ip_env \<Rightarrow> pbuf_repr \<Rightarrow> pptr option \<Rightarrow> (('h, 'r, 'k) rfw, pptr option) act" where
  "ip4_reass_ip E R p =
     act_bind (lw_pbuf (pb_read p 0 IP_HLEN)) (\<lambda>fraghdr.
     if unat (IPH_HL_BYTES fraghdr) \<noteq> IP_HLEN then reass_drop E p
     else if ucast (IPH_HL_BYTES fraghdr) > lwip_htons (half_at fraghdr 2) then reass_drop E p
     else
       act_bind (lw_pbuf (pbuf_clen p)) (\<lambda>clen.
       let full = reass (\<lambda>s. unat (ip_reass_pbufcount s) + unat clen > IP_REASS_MAX_PBUFS) in
       act_bind full (\<lambda>over.
       act_bind (if over then
           act_bind (ip_reass_remove_oldest_datagram E R fraghdr (unat clen)) (\<lambda>n.
           if n = 0 then act_return True else full)
         else act_return False) (\<lambda>overflow.
       if overflow then reass_drop E p
       else
         act_bind rd_fuel (\<lambda>fuel.
         act_bind (reass reassdatagrams) (\<lambda>first.
         act_bind (match_loop fraghdr fuel first) (\<lambda>found.
         act_bind
           (case found of
              None \<Rightarrow> ip_reass_enqueue_new_datagram E R fraghdr (unat clen)
            | Some i \<Rightarrow>
                act_bind (rd_get found) (\<lambda>d.
                act_bind (if lwip_htons (IPH_OFFSET fraghdr) AND IP_OFFMASK = 0 \<and> lwip_htons (IPH_OFFSET (rd_iphdr d)) AND IP_OFFMASK \<noteq> 0
                          then rd_modify found (rd_iphdr_update (\<lambda>_. fraghdr)) else act_return ()) (\<lambda>_.
                act_return found))) (\<lambda>ipr.
         case ipr of None \<Rightarrow> reass_drop E p | Some i \<Rightarrow> reass_add E R p fraghdr clen i))))))))"

end
