(* ===== verification/Lwip_Frags.thy ===== *)
theory Lwip_Frags
  imports Lwip_Reass Lwip_Ping
begin

text \<open>
  The fragments of a datagram in their packet buffers represent a list of pieces, and queueing a fragment is the insertion into
  this list.
\<close>

section \<open>Runs\<close>

abbreviation rstk :: "('h, 'r, 'k) rfw \<Rightarrow> 'r reass_stack" where "rstk s \<equiv> ip_rest (istk s)"

definition with_objs :: "pheap \<Rightarrow> ('h, 'x, 'k) fw \<Rightarrow> ('h, 'x, 'k) fw" where
  "with_objs h s = s\<lparr>world := (world s)\<lparr>pbufs := (pbufs (world s))\<lparr>pb_obj := h\<rparr>\<rparr>\<rparr>"

definition with_reass :: "('r reass_stack \<Rightarrow> 'r reass_stack) \<Rightarrow> ('h, 'r, 'k) rfw \<Rightarrow> ('h, 'r, 'k) rfw" where
  "with_reass f s = with_ip (ip_rest_update f) s"

definition with_rd :: "nat \<Rightarrow> ip_reassdata \<Rightarrow> ('h, 'r, 'k) rfw \<Rightarrow> ('h, 'r, 'k) rfw" where
  "with_rd i d = with_reass (\<lambda>r. r\<lparr>rd_obj := (rd_obj r)(i \<mapsto> d)\<rparr>)"

lemma with_objs_simps [simp]:
  "objs (with_objs h s) = h" "with_objs h (with_objs g s) = with_objs h s" "istk (with_objs h t) = istk t"
  "with_objs (objs s) s = s" "ncm_if (with_objs h s) = ncm_if s"
  by (simp_all add: with_objs_def)

lemma with_buf_objs: "with_buf x b s = with_objs ((objs s)(x \<mapsto> b)) s"
  by (simp add: with_objs_def with_buf_def)

lemma with_reass_simps [simp]:
  "rstk (with_reass f s) = f (rstk s)" "objs (with_reass f s) = objs s" "with_reass g (with_reass f s) = with_reass (\<lambda>r. g (f r)) s"
  "with_reass f (with_objs h s) = with_objs h (with_reass f s)" "ncm_if (with_reass f s) = ncm_if s"
  by (simp_all add: with_reass_def with_objs_def with_ip_def comp_def)

lemma with_rd_simps [simp]:
  "rd_obj (rstk (with_rd i d s)) = (rd_obj (rstk s))(i \<mapsto> d)" "objs (with_rd i d s) = objs s" "ncm_if (with_rd i d s) = ncm_if s"
  "reassdatagrams (rstk (with_rd i d s)) = reassdatagrams (rstk s)" "ip_reass_pbufcount (rstk (with_rd i d s)) = ip_reass_pbufcount (rstk s)"
  "pool_REASSDATA (rstk (with_rd i d s)) = pool_REASSDATA (rstk s)" "with_rd i d (with_objs h s) = with_objs h (with_rd i d s)"
  "with_rd i e (with_rd i d s) = with_rd i e s" "with_objs (objs s) (with_rd i d s) = with_rd i d s"
  using with_objs_simps(4) [of "with_rd i d s"] by (simp_all add: with_rd_def del: with_objs_simps(4))

lemma with_rd_same: "rd_obj (rstk s) i = Some d \<Longrightarrow> with_rd i d s = s"
  by (simp add: with_rd_def with_reass_def with_ip_def fun_upd_idem)

lemma run_reass [simp]: "reass f s = Inr (f (rstk s), s)" "reass_modify g s = Inr ((), with_reass g s)"
  by (simp_all add: reass_def reass_modify_def with_reass_def)

lemma run_rd [simp]:
  "rd_obj (rstk s) i = Some d \<Longrightarrow> rd_get (Some i) s = Inr (d, s)"
  "rd_obj (rstk s) i = Some d \<Longrightarrow> rd_modify (Some i) f s = Inr ((), with_rd i (f d) s)"
  by (simp_all add: rd_get_def rd_modify_def act_bind_def act_return_def with_rd_def)

section \<open>A fragment in its buffer\<close>

definition frag_at :: "pbuf_repr \<Rightarrow> pbuf \<Rightarrow> pptr option \<Rightarrow> nat \<Rightarrow> u8 list \<Rightarrow> bool" where
  "frag_at R b q st D \<longleftrightarrow> rx_buf b \<and> unat (pb_len b) = 20 + length D \<and> st + length D < 65536 \<and> word_ptr R (ptr_word R q) = q
     \<and> (\<exists>a. pb_payload b = Some a \<and> take 8 (drop a (pb_mem b)) = le32 (ptr_word R q) @ le16 (of_nat st) @ le16 (of_nat (st + length D))
          \<and> take (length D) (drop (a + 20) (pb_mem b)) = D)"

definition link_to :: "pbuf_repr \<Rightarrow> pptr option \<Rightarrow> pbuf \<Rightarrow> pbuf" where
  "link_to R q b = pb_mem_update (mem_write (the (pb_payload b)) (le32 (ptr_word R q))) b"

lemma half_at_le16: "xs ! i = le16 v ! 0 \<Longrightarrow> xs ! (i + 1) = le16 v ! 1 \<Longrightarrow> half_at xs i = v"
  by (simp add: half_at_def rd16_def le16_def) (rule bit_word_eqI, auto simp: bit_simps)

lemma helper_bytes:
  assumes "frag_at R b q st D" "pb_payload b = Some a"
  shows "iprh_bytes R (take 8 (drop a (pb_mem b))) = \<lparr>rh_next_pbuf = q, rh_start = of_nat st, rh_end = of_nat (st + length D)\<rparr>"
proof -
  let ?bs = "le32 (ptr_word R q) @ le16 (of_nat st) @ le16 (of_nat (st + length D))"
  have a: "take 8 (drop a (pb_mem b)) = ?bs" "word_ptr R (ptr_word R q) = q" using assms by (auto simp: frag_at_def)
  have "word_at ?bs 0 = ptr_word R q" using word_at_le32 [of ?bs 0 "ptr_word R q"] by (simp add: nth_append)
  moreover have "half_at ?bs 4 = of_nat st" "half_at ?bs 6 = of_nat (st + length D)"
    by (intro half_at_le16; simp add: nth_append)+
  ultimately show ?thesis unfolding a(1) by (simp add: iprh_bytes_def a(2))
qed

lemma iprh_run:
  assumes "objs s x = Some b" "frag_at R b q st D"
  shows "iprh R (Some x) s = Inr (\<lparr>rh_next_pbuf = q, rh_start = of_nat st, rh_end = of_nat (st + length D)\<rparr>, s)"
proof -
  obtain a where a: "pb_payload b = Some a" "rx_buf b" using assms(2) by (auto simp: frag_at_def)
  have "a + 64 \<le> length (pb_mem b)" using rx_bufD [OF a(2,1)] by simp
  then have rd: "lw_pbuf (pb_read (Some x) 0 8) s = Inr (take 8 (drop a (pb_mem b)), s)"
    using assms(1) a(1) by (simp add: lw_pbuf_def in_world_def in_pbufs_def pb_read_def act_defs payload_ok_def payload_bytes_def)
  show ?thesis unfolding iprh_def act_bind_def rd using helper_bytes [OF assms(2) a(1)] by (simp add: act_return_def)
qed

lemma link_frag_at:
  assumes "frag_at R b q st D" "word_ptr R (ptr_word R q') = q'"
  shows "frag_at R (link_to R q' b) q' st D"
proof -
  obtain a where a: "pb_payload b = Some a" "rx_buf b"
      "take 8 (drop a (pb_mem b)) = le32 (ptr_word R q) @ le16 (of_nat st) @ le16 (of_nat (st + length D))"
      "take (length D) (drop (a + 20) (pb_mem b)) = D"
    using assms(1) by (auto simp: frag_at_def)
  have l: "a + 64 \<le> length (pb_mem b)" using rx_bufD [OF a(2,1)] by simp
  let ?w = "le32 (ptr_word R q')"
  have m: "pb_mem (link_to R q' b) = take a (pb_mem b) @ ?w @ drop (a + 4) (pb_mem b)"
    using a(1) by (simp add: link_to_def mem_write_def)
  have "drop a (pb_mem (link_to R q' b)) = ?w @ drop (a + 4) (pb_mem b)" using l unfolding m by simp
  moreover have "take 4 (drop (a + 4) (pb_mem b)) = drop 4 (take 8 (drop a (pb_mem b)))"
    by (simp add: drop_take add.commute)
  ultimately have "take 8 (drop a (pb_mem (link_to R q' b))) = ?w @ le16 (of_nat st) @ le16 (of_nat (st + length D))"
    unfolding a(3) by simp
  moreover have "drop (a + 20) (pb_mem (link_to R q' b)) = drop (a + 20) (pb_mem b)"
    using l unfolding m by (simp add: add.commute)
  moreover have "rx_buf (link_to R q' b)"
    using a(1,2) l by (auto simp: rx_buf_def link_to_def length_mem_write)
  ultimately show ?thesis
    using assms a by (auto simp: frag_at_def) (simp_all add: link_to_def)
qed

lemma set_next_run:
  assumes "objs s x = Some b" "frag_at R b q st D"
  shows "set_next_pbuf R (Some x) q' s = Inr ((), with_objs ((objs s)(x \<mapsto> link_to R q' b)) s)"
proof -
  obtain a where a: "pb_payload b = Some a" "rx_buf b" using assms(2) by (auto simp: frag_at_def)
  have l: "a + 64 \<le> length (pb_mem b)" using rx_bufD [OF a(2,1)] by simp
  show ?thesis
    unfolding set_next_pbuf_def using run_pb_write [OF assms(1) a(1), of 0 "le32 (ptr_word R q')"] l a(1)
    by (simp add: with_buf_objs link_to_def)
qed

section \<open>The queue\<close>

type_synonym frag = "pptr \<times> nat \<times> u8 list"

abbreviation fr_start :: "frag \<Rightarrow> nat" where "fr_start f \<equiv> fst (snd f)"
abbreviation fr_data :: "frag \<Rightarrow> u8 list" where "fr_data f \<equiv> snd (snd f)"
abbreviation fr_end :: "frag \<Rightarrow> nat" where "fr_end f \<equiv> fr_start f + length (fr_data f)"

fun frag_seg :: "pbuf_repr \<Rightarrow> pheap \<Rightarrow> pptr option \<Rightarrow> frag list \<Rightarrow> pptr option \<Rightarrow> bool" where
  "frag_seg R h p [] e \<longleftrightarrow> p = e"
| "frag_seg R h p (f # fs) e \<longleftrightarrow> p = Some (fst f)
     \<and> (\<exists>b q. h (fst f) = Some b \<and> frag_at R b q (fr_start f) (fr_data f) \<and> frag_seg R h q fs e)"

lemma frag_seg_upd [simp]: "y \<notin> fst ` set fs \<Longrightarrow> frag_seg R (h(y := v)) p fs e = frag_seg R h p fs e"
  by (induction fs arbitrary: p) auto

lemma frag_seg_append: "frag_seg R h p (fs @ gs) e \<longleftrightarrow> (\<exists>q. frag_seg R h p fs q \<and> frag_seg R h q gs e)"
  by (induction fs arbitrary: p) auto

text \<open>The queue in its order: no two pieces overlap.  Neighbours without a hole between them are joined.\<close>

definition in_order :: "frag list \<Rightarrow> bool" where
  "in_order fs \<longleftrightarrow> sorted_wrt (\<lambda>f g. fr_start f < fr_start g \<and> fr_end f \<le> fr_start g) fs"

fun joined :: "frag list \<Rightarrow> bool" where
  "joined (f # g # fs) \<longleftrightarrow> fr_end f = fr_start g \<and> joined (g # fs)"
| "joined _ \<longleftrightarrow> True"

fun frag_insert :: "frag \<Rightarrow> frag list \<Rightarrow> frag list option" where
  "frag_insert n [] = Some [n]"
| "frag_insert n (f # fs) =
     (if fr_start n < fr_start f then if fr_end n \<le> fr_start f then Some (n # f # fs) else None
      else if fr_start n = fr_start f \<or> fr_start n < fr_end f then None
      else map_option (Cons f) (frag_insert n fs))"

lemma joined_snoc: "joined (fs @ [f, g]) \<longleftrightarrow> joined (fs @ [f]) \<and> fr_end f = fr_start g"
  by (induction fs rule: joined.induct) auto

lemma joined_mid: "joined (fs @ f # gs) \<longleftrightarrow> joined (fs @ [f]) \<and> joined (f # gs)"
  by (induction fs rule: joined.induct) (auto simp: neq_Nil_conv)

definition ptrs_ok :: "pbuf_repr \<Rightarrow> pptr set \<Rightarrow> bool" where
  "ptrs_ok R X \<longleftrightarrow> word_ptr R (ptr_word R None) = None \<and> (\<forall>x\<in>X. word_ptr R (ptr_word R (Some x)) = Some x)"

lemma u16_cmp: "a < 65536 \<Longrightarrow> b < 65536 \<Longrightarrow> (of_nat a < (of_nat b :: u16)) = (a < b)"
    "a < 65536 \<Longrightarrow> b < 65536 \<Longrightarrow> (of_nat a = (of_nat b :: u16)) = (a = b)"
  by (simp_all add: word_less_nat_alt word_unat_eq_iff small_words)

lemma frag_at_bound: "frag_at R b q st D \<Longrightarrow> st + length D < 65536"
  by (simp add: frag_at_def)

text \<open>The walk over the rest \<open>fs\<close> of a queue behind \<open>pre\<close>.\<close>

definition frag_last :: "frag list \<Rightarrow> pptr option" where
  "frag_last fs = (if fs = [] then None else Some (fst (last fs)))"

lemma relink:
  assumes seg: "frag_seg R h p (pre @ [f]) q" and d: "distinct (map fst (pre @ [f]))" and q: "word_ptr R (ptr_word R q') = q'"
  shows "\<exists>b. h (fst f) = Some b \<and> (\<exists>q0. frag_at R b q0 (fr_start f) (fr_data f))
    \<and> frag_seg R (h(fst f \<mapsto> link_to R q' b)) p (pre @ [f]) q'"
proof -
  from seg obtain b where b: "frag_seg R h p pre (Some (fst f))" "h (fst f) = Some b" "frag_at R b q (fr_start f) (fr_data f)"
    by (auto simp: frag_seg_append)
  have "fst f \<notin> fst ` set pre" using d by auto
  then have "frag_seg R (h(fst f \<mapsto> link_to R q' b)) p (pre @ [f]) q'"
    using b link_frag_at [OF b(3) q] by (auto simp: frag_seg_append)
  then show ?thesis using b by blast
qed

lemma link_end:
  assumes seg: "frag_seg R (objs s) p pre None" "distinct (map fst pre)" "x \<notin> fst ` set pre"
    and nb: "objs s x = Some nb" "frag_at R nb None st D" and d: "rd_obj (rstk s) i = Some d" "rd_p d = p" and ok: "word_ptr R (ptr_word R (Some x)) = Some x"
  shows "\<exists>h' p'. frag_link R i (Some x) (of_nat st) (of_nat (st + length D)) (Suc k) None (frag_last pre) (joined pre) s =
      Inr (Some (joined (pre @ [(x, st, D)])), with_objs h' (with_rd i (d\<lparr>rd_p := p'\<rparr>) s))
    \<and> frag_seg R h' p' (pre @ [(x, st, D)]) None \<and> (\<forall>y. y \<notin> insert x (fst ` set pre) \<longrightarrow> h' y = objs s y)"
proof (cases pre rule: rev_cases)
  case Nil
  then have "frag_link R i (Some x) (of_nat st) (of_nat (st + length D)) (Suc k) None (frag_last pre) (joined pre) s =
      Inr (Some True, with_rd i (d\<lparr>rd_p := Some x\<rparr>) s)"
    using d by (simp add: frag_link_def act_bind_def act_return_def frag_last_def)
  moreover have "frag_seg R (objs s) (Some x) [(x, st, D)] None" using nb by auto
  ultimately show ?thesis using Nil by (intro exI [of _ "objs s"] exI [of _ "Some x"]) simp
next
  case (snoc pre' f)
  obtain b q0 where b: "objs s (fst f) = Some b" "frag_at R b q0 (fr_start f) (fr_data f)"
      "frag_seg R ((objs s)(fst f \<mapsto> link_to R (Some x) b)) p (pre' @ [f]) (Some x)"
    using relink [OF seg(1) [unfolded snoc] _ ok] seg(2) snoc by auto
  let ?h = "(objs s)(fst f \<mapsto> link_to R (Some x) b)"
  have ne: "fst f \<noteq> x" using seg(3) snoc by auto
  have "frag_link R i (Some x) (of_nat st) (of_nat (st + length D)) (Suc k) None (frag_last pre) (joined pre) s =
      Inr (Some (joined pre \<and> fr_end f = st), with_objs ?h s)"
    using snoc set_next_run [OF b(1,2), of "Some x"] iprh_run [where s = "with_objs ?h s", OF _ link_frag_at [OF b(2) ok]]
      frag_at_bound [OF b(2)] frag_at_bound [OF nb(2)]
    by (simp add: frag_link_def act_bind_def act_return_def frag_last_def u16_cmp del: of_nat_add)
  moreover have "frag_seg R ?h (Some x) [(x, st, D)] None" using nb ne by auto
  then have "frag_seg R ?h p (pre' @ [f, (x, st, D)]) None"
    using b(3) frag_seg_append [of R ?h p "pre' @ [f]" "[(x, st, D)]" None] by auto
  moreover have "with_rd i (d\<lparr>rd_p := p\<rparr>) s = s" using d by (simp add: with_rd_same)
  ultimately show ?thesis
    using snoc joined_snoc [of pre' f "(x, st, D)"] by (intro exI [of _ ?h] exI [of _ p]) simp
qed

lemma link_before:
  assumes seg: "frag_seg R (objs s) p pre q" "frag_seg R (objs s) q (f # fs) None" "distinct (map fst (pre @ f # fs))" "x \<notin> fst ` set (pre @ f # fs)"
    and nb: "objs s x = Some nb" "frag_at R nb None st D" and d: "rd_obj (rstk s) i = Some d" "rd_p d = p"
    and pre: "\<forall>g \<in> set pre. fr_end g \<le> st" and ok: "word_ptr R (ptr_word R (Some x)) = Some x" "word_ptr R (ptr_word R q) = q"
    and st: "st < fr_start f"
    and run_def: "run = frag_link R i (Some x) (of_nat st) (of_nat (st + length D)) (Suc k) q (frag_last pre) (joined pre) s"
  shows "fr_start f < st + length D \<Longrightarrow> run = Inr (None, with_objs ((objs s)(x \<mapsto> link_to R q nb)) s)"
    "\<not> fr_start f < st + length D \<Longrightarrow> \<exists>h' p'. run = Inr (Some (joined (pre @ [(x, st, D)])), with_objs h' (with_rd i (d\<lparr>rd_p := p'\<rparr>) s))
        \<and> frag_seg R h' p' (pre @ (x, st, D) # f # fs) None \<and> (\<forall>y. y \<notin> insert x (fst ` set (pre @ f # fs)) \<longrightarrow> h' y = objs s y)"
proof -
  obtain b q1 where b: "q = Some (fst f)" "objs s (fst f) = Some b" "frag_at R b q1 (fr_start f) (fr_data f)" "frag_seg R (objs s) q1 fs None"
    using seg(2) by auto
  note tmp = iprh_run [OF b(2,3)] and set1 = set_next_run [OF nb, of q]
  note nb' = link_frag_at [OF nb(2) ok(2)]
  have bd: "st < 65536" "st + length D < 65536" "fr_start f < 65536" "fr_end f < 65536"
    using frag_at_bound [OF b(3)] frag_at_bound [OF nb(2)] by simp_all
  have ne: "fst f \<noteq> x" "x \<notin> fst ` set fs" "x \<notin> fst ` set pre" "fst f \<notin> fst ` set pre" "fst f \<notin> fst ` set fs"
    using seg(3,4) by auto
  let ?h = "(objs s)(x \<mapsto> link_to R q nb)"
  have "if fr_start f < st + length D then run = Inr (None, with_objs ?h s)
    else \<exists>h' p'. run = Inr (Some (joined (pre @ [(x, st, D)])), with_objs h' (with_rd i (d\<lparr>rd_p := p'\<rparr>) s))
        \<and> frag_seg R h' p' (pre @ (x, st, D) # f # fs) None \<and> (\<forall>y. y \<notin> insert x (fst ` set (pre @ f # fs)) \<longrightarrow> h' y = objs s y)"
  proof (cases pre rule: rev_cases)
    case Nil
    have "run = (if fr_start f < st + length D then Inr (None, with_objs ?h s)
        else Inr (Some True, with_objs ?h (with_rd i (d\<lparr>rd_p := Some x\<rparr>) s)))"
      using st bd tmp set1 b(1) d Nil unfolding run_def
      by (simp add: frag_link_def act_bind_def act_return_def frag_last_def u16_cmp del: of_nat_add)
    moreover have "frag_seg R ?h (Some x) ((x, st, D) # f # fs) None" using nb' b ne by auto
    ultimately show ?thesis using Nil by simp (intro impI exI [of _ ?h] exI [of _ "Some x"]; simp)
  next
    case (snoc pre' g)
    have "frag_seg R ?h p (pre' @ [g]) q" using seg(1) snoc ne by simp
    then obtain c q0 where c: "?h (fst g) = Some c" "frag_at R c q0 (fr_start g) (fr_data g)"
        "frag_seg R (?h(fst g \<mapsto> link_to R (Some x) c)) p (pre' @ [g]) (Some x)"
      using relink [OF _ _ ok(1), of ?h p pre' g q] seg(3) snoc by auto
    let ?h2 = "?h(fst g \<mapsto> link_to R (Some x) c)"
    note tmp2 = iprh_run [where s = "with_objs ?h s" and x = "fst g" and b = c, OF _ c(2)]
    note set2 = set_next_run [where s = "with_objs ?h s" and x = "fst g" and b = c, OF _ c(2), of "Some x"]
    have g: "fr_end g \<le> st" "fr_end g < 65536" using pre snoc frag_at_bound [OF c(2)] by auto
    have "run = (if fr_start f < st + length D then Inr (None, with_objs ?h s)
        else Inr (Some (joined pre \<and> fr_end g = st), with_objs ?h2 s))"
      using st bd tmp set1 b(1) g snoc tmp2 set2 c(1) unfolding run_def
      by (simp add: frag_link_def act_bind_def act_return_def frag_last_def u16_cmp del: of_nat_add)
    moreover have "fst g \<noteq> x" "fst g \<notin> fst ` set fs" "fst g \<noteq> fst f" using seg(3,4) snoc by auto
    then have "frag_seg R ?h2 (Some x) ((x, st, D) # f # fs) None" using nb' b ne by auto
    with c(3) have "frag_seg R ?h2 p (pre @ (x, st, D) # f # fs) None"
      unfolding snoc using frag_seg_append [of R ?h2 p "pre' @ [g]" "(x, st, D) # f # fs" None] by auto
    moreover have "with_rd i (d\<lparr>rd_p := p\<rparr>) s = s" using d by (simp add: with_rd_same)
    ultimately show ?thesis
      using snoc joined_snoc [of pre' g "(x, st, D)"] by simp (intro impI exI [of _ ?h2] exI [of _ p]; simp)
  qed
  then show "fr_start f < st + length D \<Longrightarrow> run = Inr (None, with_objs ?h s)"
    "\<not> fr_start f < st + length D \<Longrightarrow> \<exists>h' p'. run = Inr (Some (joined (pre @ [(x, st, D)])), with_objs h' (with_rd i (d\<lparr>rd_p := p'\<rparr>) s))
        \<and> frag_seg R h' p' (pre @ (x, st, D) # f # fs) None \<and> (\<forall>y. y \<notin> insert x (fst ` set (pre @ f # fs)) \<longrightarrow> h' y = objs s y)"
    by simp_all
qed

lemma frag_link_run:
  assumes "frag_seg R (objs s) p pre q" "frag_seg R (objs s) q fs None" "distinct (map fst (pre @ fs))" "x \<notin> fst ` set (pre @ fs)"
    and "objs s x = Some nb" "frag_at R nb None st D" "rd_obj (rstk s) i = Some d" "rd_p d = p"
    and "\<forall>f \<in> set pre. fr_end f \<le> st" "ptrs_ok R (insert x (fst ` set (pre @ fs)))" "length fs < fuel"
    and "v = joined pre" "prev = frag_last pre"
  shows "case frag_insert (x, st, D) fs of
      None \<Rightarrow> \<exists>nb' q'. frag_link R i (Some x) (of_nat st) (of_nat (st + length D)) fuel q prev v s =
          Inr (None, with_objs ((objs s)(x \<mapsto> nb')) s) \<and> frag_at R nb' q' st D
    | Some gs \<Rightarrow> \<exists>h' p' l r. frag_link R i (Some x) (of_nat st) (of_nat (st + length D)) fuel q prev v s =
          Inr (Some (joined (pre @ l @ [(x, st, D)])), with_objs h' (with_rd i (d\<lparr>rd_p := p'\<rparr>) s))
        \<and> frag_seg R h' p' (pre @ gs) None \<and> gs = l @ (x, st, D) # r \<and> fs = l @ r
        \<and> (\<forall>y. y \<notin> insert x (fst ` set (pre @ fs)) \<longrightarrow> h' y = objs s y)"
  using assms
proof (induction fs arbitrary: pre q v prev fuel)
  case Nil
  obtain k where k: "fuel = Suc k" using Nil.prems(11) by (cases fuel) auto
  have ok: "word_ptr R (ptr_word R (Some x)) = Some x" using Nil.prems(10) by (simp add: ptrs_ok_def)
  show ?case
    using link_end [OF Nil.prems(1) [unfolded Nil.prems(2) [simplified]] _ _ Nil.prems(5-8) ok, of k] Nil.prems(2-4,12,13) k by simp
next
  case (Cons f fs)
  obtain k where k: "fuel = Suc k" using Cons.prems(11) by (cases fuel) auto
  obtain b q1 where b: "q = Some (fst f)" "objs s (fst f) = Some b" "frag_at R b q1 (fr_start f) (fr_data f)" "frag_seg R (objs s) q1 fs None"
    using Cons.prems(2) by auto
  note tmp = iprh_run [OF b(2,3)]
  have ok: "word_ptr R (ptr_word R (Some x)) = Some x" "word_ptr R (ptr_word R q) = q" using Cons.prems(10) b(1) by (auto simp: ptrs_ok_def)
  have bd: "st < 65536" "st + length D < 65536" "fr_start f < 65536" "fr_end f < 65536"
    using frag_at_bound [OF b(3)] frag_at_bound [OF Cons.prems(6)] by simp_all
  let ?run = "frag_link R i (Some x) (of_nat st) (of_nat (st + length D)) fuel q prev v s"
  have ne: "fst f \<noteq> x" "x \<notin> fst ` set fs" "x \<notin> fst ` set pre" "fst f \<notin> fst ` set pre" "fst f \<notin> fst ` set fs"
    using Cons.prems(3,4) by auto
  consider (before) "st < fr_start f" | (same) "\<not> st < fr_start f" "st = fr_start f \<or> st < fr_end f"
    | (behind) "\<not> st < fr_start f" "st \<noteq> fr_start f" "\<not> st < fr_end f" by blast
  then show ?case
  proof cases
    case before
    note L = link_before [OF Cons.prems(1-9) ok before refl, of k]
    show ?thesis
    proof (cases "fr_start f < st + length D")
      case True
      then show ?thesis
        using L(1) before k Cons.prems(12,13) link_frag_at [OF Cons.prems(6) ok(2)] by (auto intro!: exI [of _ "link_to R q nb"] exI [of _ q])
    next
      case False
      from L(2) [OF this] obtain h' p' where "?run = Inr (Some (joined (pre @ [(x, st, D)])), with_objs h' (with_rd i (d\<lparr>rd_p := p'\<rparr>) s))"
          "frag_seg R h' p' (pre @ (x, st, D) # f # fs) None" "\<forall>y. y \<notin> insert x (fst ` set (pre @ f # fs)) \<longrightarrow> h' y = objs s y"
        using k Cons.prems(12,13) by auto
      then show ?thesis
        using False before by simp (intro exI [of _ h'] exI [of _ p'] exI [of _ "[]"] exI [of _ "f # fs"]; simp)
    qed
  next
    case same
    have "?run = Inr (None, s)"
      using same bd tmp k b(1) by (auto simp: frag_link_def act_bind_def act_return_def u16_cmp simp del: of_nat_add)
    moreover have "with_objs ((objs s)(x \<mapsto> nb)) s = s" using Cons.prems(5) by (simp add: fun_upd_idem)
    ultimately show ?thesis using same Cons.prems(6) by (auto intro!: exI [of _ nb] exI [of _ None])
  next
    case behind
    have run: "?run = frag_link R i (Some x) (of_nat st) (of_nat (st + length D)) k q1 q (joined (pre @ [f])) s"
    proof (cases pre rule: rev_cases)
      case Nil
      then show ?thesis
        using behind bd tmp k b(1) Cons.prems(12,13)
        by (simp add: frag_link_def act_bind_def act_return_def frag_last_def u16_cmp del: of_nat_add)
    next
      case (snoc pre' g)
      obtain c q0 where c: "objs s (fst g) = Some c" "frag_at R c q0 (fr_start g) (fr_data g)"
        using Cons.prems(1) snoc by (auto simp: frag_seg_append)
      show ?thesis
        using behind bd tmp k b(1) Cons.prems(12,13) snoc iprh_run [OF c] frag_at_bound [OF c(2)] joined_snoc [of pre' g f]
        by (simp add: frag_link_def act_bind_def act_return_def frag_last_def u16_cmp del: of_nat_add)
    qed
    have "frag_seg R (objs s) p (pre @ [f]) q1" using Cons.prems(1) b by (auto simp: frag_seg_append)
    moreover have "\<forall>g \<in> set (pre @ [f]). fr_end g \<le> st" using Cons.prems(9) behind by auto
    moreover have "length fs < k" "q = frag_last (pre @ [f])" using Cons.prems(11) k b(1) by (simp_all add: frag_last_def)
    moreover have "distinct (map fst ((pre @ [f]) @ fs))" "x \<notin> fst ` set ((pre @ [f]) @ fs)" "ptrs_ok R (insert x (fst ` set ((pre @ [f]) @ fs)))"
      using Cons.prems(3,4,10) by auto
    ultimately have ih: "case frag_insert (x, st, D) fs of
      None \<Rightarrow> \<exists>nb' q'. ?run = Inr (None, with_objs ((objs s)(x \<mapsto> nb')) s) \<and> frag_at R nb' q' st D
    | Some gs \<Rightarrow> \<exists>h' p' l r. ?run = Inr (Some (joined ((pre @ [f]) @ l @ [(x, st, D)])), with_objs h' (with_rd i (d\<lparr>rd_p := p'\<rparr>) s))
        \<and> frag_seg R h' p' ((pre @ [f]) @ gs) None \<and> gs = l @ (x, st, D) # r \<and> fs = l @ r
        \<and> (\<forall>y. y \<notin> insert x (fst ` set ((pre @ [f]) @ fs)) \<longrightarrow> h' y = objs s y)"
      unfolding run using Cons.IH [of "pre @ [f]" q1 k "joined (pre @ [f])" q] Cons.prems(5-8) b(4) by simp
    show ?thesis
    proof (cases "frag_insert (x, st, D) fs")
      case None
      then show ?thesis using ih behind by simp
    next
      case (Some gs)
      with ih obtain h' p' l r where "?run = Inr (Some (joined (pre @ f # l @ [(x, st, D)])), with_objs h' (with_rd i (d\<lparr>rd_p := p'\<rparr>) s))"
          "frag_seg R h' p' (pre @ f # gs) None" "gs = l @ (x, st, D) # r" "fs = l @ r"
          "\<forall>y. y \<notin> insert x (fst ` set ((pre @ [f]) @ fs)) \<longrightarrow> h' y = objs s y" by auto
      then show ?thesis
        using Some behind by simp (intro exI [of _ h'] exI [of _ p'] exI [of _ "f # l"] exI [of _ r]; simp)
    qed
  qed
qed

lemma rest_loop_run:
  assumes "frag_seg R (objs s) q fs None" "en < 65536" "length fs < fuel"
  shows "rest_loop R fuel (of_nat en) q s = Inr (case fs of [] \<Rightarrow> True | f # _ \<Rightarrow> en = fr_start f \<and> joined fs, s)"
  using assms
proof (induction fs arbitrary: q en fuel)
  case Nil
  then show ?case by (cases fuel) (auto simp: act_return_def)
next
  case (Cons f fs)
  obtain k where k: "fuel = Suc k" using Cons.prems(3) by (cases fuel) auto
  obtain b q1 where b: "q = Some (fst f)" "objs s (fst f) = Some b" "frag_at R b q1 (fr_start f) (fr_data f)" "frag_seg R (objs s) q1 fs None"
    using Cons.prems(1) by auto
  have bd: "fr_start f < 65536" "fr_end f < 65536" using frag_at_bound [OF b(3)] by simp_all
  have "rest_loop R k (of_nat (fr_end f)) q1 s = Inr (case fs of [] \<Rightarrow> True | g # _ \<Rightarrow> fr_end f = fr_start g \<and> joined fs, s)"
    using Cons.IH [OF b(4) bd(2)] Cons.prems(3) k by simp
  moreover have "joined (f # fs) \<longleftrightarrow> (case fs of [] \<Rightarrow> True | g # _ \<Rightarrow> fr_end f = fr_start g \<and> joined fs)" by (cases fs) auto
  ultimately show ?case
    using k b(1) iprh_run [OF b(2,3)] Cons.prems(2) bd
    by (auto simp: act_bind_def act_return_def u16_cmp simp del: of_nat_add)
qed

definition whole :: "frag list \<Rightarrow> bool" where
  "whole fs \<longleftrightarrow> fs \<noteq> [] \<and> fr_start (hd fs) = 0 \<and> joined fs"

text \<open>A fragment as it is received: the header in front of the data.\<close>

definition frag_rx :: "pbuf \<Rightarrow> u8 list \<Rightarrow> u8 list \<Rightarrow> bool" where
  "frag_rx b hdr D \<longleftrightarrow> rx_buf b \<and> length hdr = 20 \<and> unat (pb_len b) = 20 + length D
     \<and> (\<exists>a. pb_payload b = Some a \<and> take (20 + length D) (drop a (pb_mem b)) = hdr @ D)"

definition frag_hdr :: "u8 list \<Rightarrow> nat \<Rightarrow> nat \<Rightarrow> bool \<Rightarrow> bool" where
  "frag_hdr hdr st l mf \<longleftrightarrow> length hdr = 20 \<and> ip_hlen hdr = 20 \<and> be16 hdr 2 = 20 + l
     \<and> st = 8 * (be16 hdr 6 mod 8192) \<and> mf = (be16 hdr 6 div 8192 mod 2 = 1)"

lemma offset_words:
  assumes "length h = 20" "f = lwip_htons (IPH_OFFSET h)"
  shows "unat f = be16 h 6" "unat (f AND IP_OFFMASK) = be16 h 6 mod 8192" "IPH_OFFSET_BYTES h = of_nat (8 * (be16 h 6 mod 8192))"
    "IPH_OFFSET h AND PP_HTONS IP_MF = 0 \<longleftrightarrow> be16 h 6 div 8192 mod 2 = 0"
proof -
  have f: "f = of_nat (be16 h 6)" using rd16_htons [of "\<lambda>j. h ! j" 6] by (simp add: assms(2) IPH_OFFSET_def half_at_def be16_def)
  show u: "unat f = be16 h 6" using be16_bound [of h 6] small_words(2) f by simp
  have "f AND IP_OFFMASK = take_bit 13 f" by (simp add: IP_OFFMASK_def take_bit_eq_mask mask_eq_exp_minus_1)
  then show o: "unat (f AND IP_OFFMASK) = be16 h 6 mod 8192" by (simp add: take_bit_eq_mod unat_mod_distrib u)
  have "f AND IP_OFFMASK = of_nat (be16 h 6 mod 8192)" unfolding o [symmetric] by simp
  then show "IPH_OFFSET_BYTES h = of_nat (8 * (be16 h 6 mod 8192))"
    by (simp add: IPH_OFFSET_BYTES_def assms(2) [symmetric])
  have "IPH_OFFSET h AND PP_HTONS IP_MF = 0 \<longleftrightarrow> \<not> bit (IPH_OFFSET h) 5"
  proof -
    have "PP_HTONS IP_MF = 2 ^ 5" by (simp add: PP_HTONS_def IP_MF_def)
    then show ?thesis by (metis and_exp_eq_0_iff_not_bit)
  qed
  also have "bit (IPH_OFFSET h) 5 = bit f 13"
    by (simp add: assms(2) lwip_htons_def PP_HTONS_def bit_simps)
  also have "bit f 13 \<longleftrightarrow> bit (unat f) 13" by (simp add: bit_unsigned_iff)
  also have "\<dots> \<longleftrightarrow> be16 h 6 div 8192 mod 2 = 1" unfolding u by (simp add: bit_iff_odd odd_iff_mod_2_eq_one)
  finally show "IPH_OFFSET h AND PP_HTONS IP_MF = 0 \<longleftrightarrow> be16 h 6 div 8192 mod 2 = 0" by auto
qed

text \<open>The helper structure replaces the header.\<close>

definition helper_in :: "pbuf_repr \<Rightarrow> nat \<Rightarrow> u8 list \<Rightarrow> pbuf \<Rightarrow> pbuf" where
  "helper_in R st D b = pb_mem_update (mem_write (the (pb_payload b)) (le32 (ptr_word R None) @ le16 (of_nat st) @ le16 (of_nat (st + length D)))) b"

lemma mem_write_behind: "mem_write (a + length xs) ys (mem_write a xs M) = mem_write a (xs @ ys) M" if "a + length xs + length ys \<le> length M"
  using that by (simp add: mem_write_def ac_simps)

lemma helper_frag_at:
  assumes "frag_rx b hdr D" "st + length D < 65536" "ptrs_ok R X"
  shows "frag_at R (helper_in R st D b) None st D"
proof -
  obtain a where a: "pb_payload b = Some a" "rx_buf b" "length hdr = 20" "unat (pb_len b) = 20 + length D"
      "take (20 + length D) (drop a (pb_mem b)) = hdr @ D"
    using assms(1) by (auto simp: frag_rx_def)
  have l: "a + 64 \<le> length (pb_mem b)" using rx_bufD [OF a(2,1)] by simp
  let ?w = "le32 (ptr_word R None) @ le16 (of_nat st) @ le16 (of_nat (st + length D))"
  have m: "pb_mem (helper_in R st D b) = take a (pb_mem b) @ ?w @ drop (a + 8) (pb_mem b)"
    using a(1) by (simp add: helper_in_def mem_write_def)
  have "drop (a + 20) (pb_mem (helper_in R st D b)) = drop (a + 20) (pb_mem b)" using l unfolding m by (simp add: add.commute)
  moreover have "take (length D) (drop (a + 20) (pb_mem b)) = drop 20 (take (20 + length D) (drop a (pb_mem b)))"
    by (simp add: drop_take add.commute)
  ultimately have "take (length D) (drop (a + 20) (pb_mem (helper_in R st D b))) = D" using a(3) unfolding a(5) by simp
  moreover have "take 8 (drop a (pb_mem (helper_in R st D b))) = ?w" using l unfolding m by simp
  moreover have "rx_buf (helper_in R st D b)" using a(1,2) l by (auto simp: rx_buf_def helper_in_def length_mem_write)
  moreover have "pb_payload (helper_in R st D b) = Some a" "pb_len (helper_in R st D b) = pb_len b" using a(1) by (simp_all add: helper_in_def)
  ultimately show ?thesis using assms(2,3) a(4) by (auto simp: frag_at_def ptrs_ok_def)
qed

lemma run_pb_read:
  "objs s x = Some b \<Longrightarrow> pb_payload b = Some a \<Longrightarrow> a + n \<le> length (pb_mem b) \<Longrightarrow>
     lw_pbuf (pb_read (Some x) 0 n) s = Inr (take n (drop a (pb_mem b)), s)"
  by (simp add: lw_pbuf_def in_world_def in_pbufs_def pb_read_def act_defs payload_ok_def payload_bytes_def)

lemma frag_rx_hdr:
  assumes "frag_rx b hdr D" "objs s x = Some b"
  shows "lw_pbuf (pb_read (Some x) 0 20) s = Inr (hdr, s)"
proof -
  obtain a where a: "pb_payload b = Some a" "rx_buf b" "length hdr = 20" "take (20 + length D) (drop a (pb_mem b)) = hdr @ D"
    using assms(1) by (auto simp: frag_rx_def)
  have "take 20 (drop a (pb_mem b)) = take 20 (take (20 + length D) (drop a (pb_mem b)))" by simp
  then have "take 20 (drop a (pb_mem b)) = hdr" using a(3) unfolding a(4) by simp
  then show ?thesis using run_pb_read [OF assms(2) a(1), of 20] rx_bufD [OF a(2,1)] by simp
qed

lemma helper_run:
  assumes "frag_rx b hdr D" "objs s x = Some b"
  shows "act_bind (set_next_pbuf R (Some x) None) (\<lambda>_. act_bind (lw_pbuf (pb_write (Some x) 4 (le16 (of_nat st)))) (\<lambda>_.
      act_bind (lw_pbuf (pb_write (Some x) 6 (le16 (of_nat (st + length D))))) f)) s = f () (with_objs ((objs s)(x \<mapsto> helper_in R st D b)) s)"
proof -
  obtain a where a: "pb_payload b = Some a" "rx_buf b" using assms(1) by (auto simp: frag_rx_def)
  have l: "a + 64 \<le> length (pb_mem b)" using rx_bufD [OF a(2,1)] by simp
  have eq: "pb_mem_update (mem_write (a + 6) w \<circ> (mem_write (a + 4) v \<circ> mem_write a u)) b =
      pb_mem_update (mem_write a (u @ v @ w)) b" if "length u = 4" "length v = 2" "length w = 2" for u v w
    using that l mem_write_behind [of a u v "pb_mem b"] mem_write_behind [of a "u @ v" w "pb_mem b"]
    by (intro pbuf.equality) (simp_all add: add.assoc)
  show ?thesis
    unfolding set_next_pbuf_def using assms(2) a(1) l
    by (simp add: act_bind_def run_pb_write length_mem_write with_buf_objs helper_in_def del: of_nat_add) (simp add: eq fun_upd_def del: of_nat_add)
qed

lemma insert_split: "frag_insert n fs = Some gs \<Longrightarrow> \<exists>l r. gs = l @ n # r \<and> fs = l @ r"
proof (induction fs arbitrary: gs)
  case (Cons f fs)
  show ?case
  proof (cases "fr_start n < fr_start f")
    case True
    then show ?thesis using Cons.prems by (intro exI [of _ "[]"] exI [of _ "f # fs"]) (auto split: if_splits)
  next
    case False
    then obtain hs where hs: "frag_insert n fs = Some hs" "gs = f # hs" using Cons.prems by (auto split: if_splits)
    from Cons.IH [OF hs(1)] obtain l r where "hs = l @ n # r" "fs = l @ r" by blast
    then show ?thesis using hs(2) by (intro exI [of _ "f # l"] exI [of _ r]) simp
  qed
qed auto

lemma validate_run:
  assumes seg: "frag_seg R (objs s) p gs None" and gs: "gs = l @ (x, st, D) # r" and d: "rd_obj (rstk s) i = Some d" "rd_p d = p"
    and len: "length gs < chain_fuel"
  shows "frag_validate R i (Some x) il (joined (l @ [(x, st, D)])) s =
    Inr (if (il \<or> rd_flags d AND IP_REASS_FLAG_LASTFRAG \<noteq> 0) \<and> whole gs then IP_REASS_VALIDATE_TELEGRAM_FINISHED
      else IP_REASS_VALIDATE_PBUF_QUEUED, s)"
proof -
  obtain b q where b: "objs s x = Some b" "frag_at R b q st D" "frag_seg R (objs s) q r None"
    using seg gs by (auto simp: frag_seg_append)
  obtain g gs' where g: "gs = g # gs'" using gs that by (metis append_is_Nil_conv list.exhaust list.discI)
  obtain bg qg where bg: "p = Some (fst g)" "objs s (fst g) = Some bg" "frag_at R bg qg (fr_start g) (fr_data g)"
    using seg g by auto
  have "rest_loop R chain_fuel (of_nat (st + length D)) q s = Inr (joined ((x, st, D) # r), s)"
    using rest_loop_run [OF b(3) frag_at_bound [OF b(2)], of chain_fuel] len gs by (cases r) auto
  moreover have "whole gs \<longleftrightarrow> fr_start g = 0 \<and> joined (l @ [(x, st, D)]) \<and> joined ((x, st, D) # r)"
    using g joined_mid [of l "(x, st, D)" r] unfolding gs by (auto simp: whole_def)
  moreover have "(of_nat (fr_start g) = (0 :: u16)) = (fr_start g = 0)"
    using u16_cmp(2) [of "fr_start g" 0] frag_at_bound [OF bg(3)] by simp
  ultimately show ?thesis
    using d bg(1) iprh_run [OF b(1,2)] iprh_run [OF bg(2,3)]
    by (auto simp: frag_validate_def act_bind_def act_return_def simp del: of_nat_add)
qed

lemma frag_hdr_words:
  assumes "frag_hdr hdr st l mf"
  shows "lwip_htons (half_at hdr 2) = of_nat (20 + l)" "20 + l < 65536" "IPH_HL_BYTES hdr = 20" "IPH_OFFSET_BYTES hdr = of_nat st"
    "IPH_OFFSET hdr AND PP_HTONS IP_MF = 0 \<longleftrightarrow> \<not> mf"
proof -
  note h = assms [unfolded frag_hdr_def]
  show "lwip_htons (half_at hdr 2) = of_nat (20 + l)"
    using rd16_htons [of "\<lambda>j. hdr ! j" 2] h unfolding half_at_def be16_def by (metis Suc_1 Suc_eq_plus1 add_2_eq_Suc' numeral_plus_one)
  show "20 + l < 65536" using be16_bound [of hdr 2] h by simp
  show "IPH_HL_BYTES hdr = 20" using IPH_HL_nat(2) [of hdr] h by simp
  show "IPH_OFFSET_BYTES hdr = of_nat st" "IPH_OFFSET hdr AND PP_HTONS IP_MF = 0 \<longleftrightarrow> \<not> mf" using offset_words(3,4) [of hdr] h by auto
qed

lemma chain_frag_link:
  assumes b: "frag_rx nb hdr D" "frag_hdr hdr st (length D) mf" "st + length D < 65536" "objs s x = Some nb"
    and d: "rd_obj (rstk s) i = Some d"
  shows "ip_reass_chain_frag_into_datagram_and_validate R i (Some x) il s =
    act_bind (frag_link R i (Some x) (of_nat st) (of_nat (st + length D)) chain_fuel (rd_p d) None True) (\<lambda>linked.
      case linked of
        None \<Rightarrow> act_return IP_REASS_VALIDATE_PBUF_DROPPED
      | Some valid \<Rightarrow> frag_validate R i (Some x) il valid) (with_objs ((objs s)(x \<mapsto> helper_in R st D nb)) s)"
proof -
  note w = frag_hdr_words [OF b(2)]
  have l20: "\<not> ucast (20 :: u8) > (of_nat (20 + length D) :: u16)" "of_nat (20 + length D) - ucast (20 :: u8) = (of_nat (length D) :: u16)"
    using u16_cmp(1) [OF w(2), of 20] by (simp_all del: of_nat_add) simp
  have add: "of_nat st + of_nat (length D) = (of_nat (st + length D) :: u16)" by simp
  have ov: "\<not> (of_nat (st + length D) :: u16) < of_nat st" using u16_cmp(1) [OF b(3), of st] b(3) by (simp del: of_nat_add)
  show ?thesis
    unfolding ip_reass_chain_frag_into_datagram_and_validate_def IP_HLEN_def act_bind_def [of "lw_pbuf (pb_read (Some x) 0 20)"]
      frag_rx_hdr [OF b(1,4)] sum.case prod.case Let_def w(1,3,4) l20(2) add if_not_P [OF l20(1)] helper_run [OF b(1,4)] if_not_P [OF ov]
    using d by (simp add: act_bind_def [of "rd_get (Some i)"])
qed

lemma chain_frag_run:
  assumes b: "frag_rx nb hdr D" "frag_hdr hdr st (length D) mf" "st + length D < 65536" "objs s x = Some nb"
    and q: "frag_seg R (objs s) p fs None" "distinct (map fst fs)" "x \<notin> fst ` set fs" "length fs + 1 < chain_fuel"
    and d: "rd_obj (rstk s) i = Some d" "rd_p d = p" and ptr: "ptrs_ok R (insert x (fst ` set fs))"
  shows "case frag_insert (x, st, D) fs of
      None \<Rightarrow> \<exists>nb'. ip_reass_chain_frag_into_datagram_and_validate R i (Some x) il s =
          Inr (IP_REASS_VALIDATE_PBUF_DROPPED, with_objs ((objs s)(x \<mapsto> nb')) s) \<and> rx_buf nb'
    | Some gs \<Rightarrow> \<exists>h' p'. ip_reass_chain_frag_into_datagram_and_validate R i (Some x) il s =
          Inr (if (il \<or> rd_flags d AND IP_REASS_FLAG_LASTFRAG \<noteq> 0) \<and> whole gs then IP_REASS_VALIDATE_TELEGRAM_FINISHED
            else IP_REASS_VALIDATE_PBUF_QUEUED, with_objs h' (with_rd i (d\<lparr>rd_p := p'\<rparr>) s))
        \<and> frag_seg R h' p' gs None \<and> (\<forall>y. y \<notin> insert x (fst ` set fs) \<longrightarrow> h' y = objs s y)"
proof -
  let ?h = "(objs s)(x \<mapsto> helper_in R st D nb)" and ?n = "(x, st, D)"
  let ?s = "with_objs ?h s"
  note at = helper_frag_at [OF b(1,3) ptr]
  note run = chain_frag_link [OF b d(1), unfolded d(2), of R il]
  have seg: "frag_seg R ?h p fs None" using q(1,3) by simp
  note L = frag_link_run [where s = ?s and pre = "[]" and fs = fs and p = p and q = p and nb = "helper_in R st D nb" and x = x and st = st and D = D
      and i = i and d = d and fuel = chain_fuel and v = True and prev = None and R = R]
  show ?thesis
  proof (cases "frag_insert ?n fs")
    case None
    then obtain nb' q' where "frag_link R i (Some x) (of_nat st) (of_nat (st + length D)) chain_fuel p None True ?s =
        Inr (None, with_objs ((objs s)(x \<mapsto> nb')) s)" "frag_at R nb' q' st D"
      using L q d at ptr by (auto simp: frag_last_def)
    then show ?thesis unfolding run using None by (auto simp: act_bind_def act_return_def frag_at_def intro!: exI [of _ nb'])
  next
    case (Some gs)
    then obtain h' p' l r where f: "frag_link R i (Some x) (of_nat st) (of_nat (st + length D)) chain_fuel p None True ?s =
          Inr (Some (joined (l @ [?n])), with_objs h' (with_rd i (d\<lparr>rd_p := p'\<rparr>) s))"
        "frag_seg R h' p' gs None" "gs = l @ ?n # r" "fs = l @ r" "\<forall>y. y \<notin> insert x (fst ` set fs) \<longrightarrow> h' y = objs s y"
      using L q d at ptr by (auto simp: frag_last_def)
    let ?t = "with_objs h' (with_rd i (d\<lparr>rd_p := p'\<rparr>) s)"
    have g: "length gs < chain_fuel" using q(4) f(3,4) by simp
    have "frag_validate R i (Some x) il (joined (l @ [?n])) ?t =
        Inr (if (il \<or> rd_flags d AND IP_REASS_FLAG_LASTFRAG \<noteq> 0) \<and> whole gs then IP_REASS_VALIDATE_TELEGRAM_FINISHED
          else IP_REASS_VALIDATE_PBUF_QUEUED, ?t)"
      using validate_run [where s = ?t and p = p' and i = i and d = "d\<lparr>rd_p := p'\<rparr>", OF _ f(3) _ _ g] f(2) by simp
    then show ?thesis
      unfolding run act_bind_def f(1) sum.case prod.case option.case Some using f(2,5) by metis
  qed
qed

end
