(* ===== verification/Lwip_ReassRun.thy ===== *)
theory Lwip_ReassRun
  imports Lwip_Frags Lwip_Alloc
begin

text \<open>The steps of reassembly on queues of fragments: joining a complete queue to a packet, and what \<^verbatim>\<open>ip4_reass\<close> does with a fragment.\<close>

section \<open>The header of the datagram\<close>

definition reass_fields :: "u8 list \<Rightarrow> u16 \<Rightarrow> u8 list" where
  "reass_fields hdr n = mem_write 10 (le16 0) (mem_write 6 (le16 0) (mem_write 2 (le16 (lwip_htons n)) hdr))"

definition reass_hdr :: "u8 list \<Rightarrow> u16 \<Rightarrow> u8 list" where
  "reass_hdr hdr n = mem_write 10 (le16 (rfc1071 (reass_fields hdr n))) (reass_fields hdr n)"

lemma reass_hdr_length: "length hdr = 20 \<Longrightarrow> length (reass_fields hdr n) = 20" "length hdr = 20 \<Longrightarrow> length (reass_hdr hdr n) = 20"
  by (simp_all add: reass_fields_def reass_hdr_def length_mem_write)

lemma reass_hdr_ok:
  assumes "length hdr = 20"
  shows "rfc1071 (reass_hdr hdr n) = 0" "be16 (reass_hdr hdr n) 2 = unat n" "be16 (reass_hdr hdr n) 6 = 0"
    "\<forall>j < 20. j \<notin> {2, 3, 6, 7, 10, 11} \<longrightarrow> reass_hdr hdr n ! j = hdr ! j"
proof -
  let ?F = "reass_fields hdr n" and ?H = "reass_hdr hdr n"
  have nth: "?F ! j = (if j = 10 \<or> j = 11 \<or> j = 6 \<or> j = 7 then 0 else if j = 2 then ucast (drop_bit 8 n) else if j = 3 then ucast n else hdr ! j)"
    if "j < 20" for j
  proof -
    have "2 \<le> j \<and> j < 4 \<longleftrightarrow> j = 2 \<or> j = 3" "6 \<le> j \<and> j < 8 \<longleftrightarrow> j = 6 \<or> j = 7" "10 \<le> j \<and> j < 12 \<longleftrightarrow> j = 10 \<or> j = 11" by presburger+
    then show ?thesis
      using that assms by (auto simp: reass_fields_def nth_mem_write length_mem_write le16_htons le16_def [of 0] nth_Cons')
  qed
  have H: "?H = ?F[2 * 5 := ucast (rfc1071 ?F), 2 * 5 + 1 := ucast (drop_bit 8 (rfc1071 ?F))]"
    using mem_write_two [of 10 ?F] assms by (simp add: reass_hdr_def reass_hdr_length)
  show "rfc1071 ?H = 0"
    unfolding H by (rule rfc1071_verifies) (simp_all add: nth reass_hdr_length assms)
  have hn: "?H ! j = ?F ! j" if "j \<noteq> 10" "j \<noteq> 11" for j unfolding H using that by (simp add: nth_list_update)
  show "be16 ?H 2 = unat n" "be16 ?H 6 = 0"
    using le16_parts [of n] by (simp_all add: be16_def hn nth)
  show "\<forall>j < 20. j \<notin> {2, 3, 6, 7, 10, 11} \<longrightarrow> ?H ! j = hdr ! j" by (simp add: hn nth)
qed

section \<open>Joining\<close>

lemma run_cat:
  assumes "packet (objs s) (Some p) xs" "packet (objs s) (Some x) [x]" "x \<notin> set xs" "lens (objs s) xs + lens (objs s) [x] < 65536"
    "length xs \<le> chain_fuel"
  shows "\<exists>h. lw_pbuf (pbuf_cat (Some p) (Some x)) s = Inr ((), with_objs h s) \<and> packet h (Some p) (xs @ [x])
    \<and> chain_data h (xs @ [x]) = chain_data (objs s) xs @ chain_data (objs s) [x] \<and> (\<forall>z. z \<notin> set xs \<longrightarrow> h z = objs s z)"
proof -
  have "set xs \<inter> set [x] = {}" using assms(3) by simp
  from pbuf_cat_run [where s = "pbufs (world s)", OF assms(1) _ assms(2) _ this assms(4,5)] obtain h where
    "pbuf_cat (Some p) (Some x) (pbufs (world s)) = Inr ((), (pbufs (world s))\<lparr>pb_obj := h\<rparr>)" "packet h (Some p) (xs @ [x])"
    "chain_data h (xs @ [x]) = chain_data (objs s) xs @ chain_data (objs s) [x]" "\<forall>z. z \<notin> set xs \<longrightarrow> h z = objs s z" by auto
  then show ?thesis by (intro exI [of _ h]) (simp add: lw_pbuf_def in_world_def in_pbufs_def with_objs_def)
qed

lemma frag_packet:
  assumes "frag_at R b q st D" "h x = Some (skip 20 b)"
  shows "packet h (Some x) [x]" "chain_data h [x] = D" "lens h [x] = length D"
proof -
  obtain a where a: "pb_payload b = Some a" "rx_buf b" "unat (pb_len b) = 20 + length D" "take (length D) (drop (a + 20) (pb_mem b)) = D"
    using assms(1) by (auto simp: frag_at_def)
  note rx = rx_bufD [OF a(2,1)]
  note l = skip_len [of 20 b, OF _ rx(3)]
  have u: "unat (pb_len (skip 20 b)) = length D" "pb_tot_len (skip 20 b) = pb_len (skip 20 b)" using l a(3) by simp_all
  have f: "pb_payload (skip 20 b) = Some (a + 20)" "pb_mem (skip 20 b) = pb_mem b" "pb_next (skip 20 b) = None"
    using a(1) rx(4) by (simp_all add: skip_def)
  show "packet h (Some x) [x]" "chain_data h [x] = D" "lens h [x] = length D"
    using assms(2) u f rx(1) a(3,4) by (auto simp: packet_def payload_ok_def bdata_def payload_bytes_def)
qed

lemma join_loop_run:
  assumes "frag_seg R (objs s) r fs None" "packet (objs s) (Some p) xs" "distinct (xs @ map fst fs)"
    and "lens (objs s) xs + sum_list (map (length \<circ> fr_data) fs) < 65536" "length xs + length fs \<le> chain_fuel" "length fs < fuel"
  shows "\<exists>h. join_loop R fuel (Some p) r s = Inr ((), with_objs h s) \<and> packet h (Some p) (xs @ map fst fs)
    \<and> chain_data h (xs @ map fst fs) = chain_data (objs s) xs @ concat (map fr_data fs)
    \<and> (\<forall>z. z \<notin> set xs \<union> fst ` set fs \<longrightarrow> h z = objs s z)"
  using assms
proof (induction fs arbitrary: s r xs fuel)
  case Nil
  then show ?case by (cases fuel) (auto simp: act_return_def intro!: exI [of _ "objs s"])
next
  case (Cons f fs)
  obtain k where k: "fuel = Suc k" using Cons.prems(6) by (cases fuel) auto
  obtain x st D where f: "f = (x, st, D)" by (cases f) auto
  obtain b q where b: "r = Some x" "objs s x = Some b" "frag_at R b q st D" "frag_seg R (objs s) q fs None"
    using Cons.prems(1) f by auto
  obtain a where a: "pb_payload b = Some a" "rx_buf b" "unat (pb_len b) = 20 + length D" using b(3) by (auto simp: frag_at_def)
  note rx = rx_bufD [OF a(2,1)]
  let ?s1 = "with_objs ((objs s)(x \<mapsto> skip 20 b)) s"
  have nx: "x \<notin> set xs" "x \<notin> fst ` set fs" using Cons.prems(3) f by auto
  have rm: "lw_pbuf (pbuf_remove_header (Some x) (of_nat IP_HLEN)) s = Inr (False, ?s1)"
    using run_remove_header [OF b(2), of 20] a(3) by (simp add: with_buf_objs IP_HLEN_def)
  have px: "packet (objs ?s1) (Some x) [x]" "chain_data (objs ?s1) [x] = D" "lens (objs ?s1) [x] = length D"
    using frag_packet [OF b(3), of "objs ?s1" x] by simp_all
  have pp: "packet (objs ?s1) (Some p) xs" using Cons.prems(2) nx by (simp add: packet_def)
  have "lens (objs ?s1) xs + lens (objs ?s1) [x] < 65536" unfolding px(3) using Cons.prems(4) nx f by simp
  from run_cat [OF pp px(1) nx(1) this] Cons.prems(5) obtain h where
    h: "lw_pbuf (pbuf_cat (Some p) (Some x)) ?s1 = Inr ((), with_objs h s)" "packet h (Some p) (xs @ [x])"
      "chain_data h (xs @ [x]) = chain_data (objs s) xs @ D" "\<forall>z. z \<notin> set xs \<longrightarrow> h z = objs ?s1 z"
    using px(2) nx by auto
  let ?s2 = "with_objs h s"
  have hx: "h x = Some (skip 20 b)" using h(4) nx by simp
  have "lw_pbuf (at_read (x, a) 0 8) ?s2 = Inr (take 8 (drop a (pb_mem b)), ?s2)"
    using run_at_read [of ?s2 x "skip 20 b" a 0 8] hx rx(2) by (simp add: skip_def mem_bytes_def)
  then have step: "join_loop R fuel (Some p) r s = join_loop R k (Some p) q ?s2"
    using k b(1,2) a(1) rm h(1) helper_bytes [OF b(3) a(1)] by (simp add: act_bind_def)
  have "frag_seg R h q fs None"
  proof -
    have eq: "frag_seg R h q' gs None = frag_seg R (objs s) q' gs None" if "set gs \<subseteq> set fs" for q' gs
      using that
    proof (induction gs arbitrary: q')
      case (Cons g gs)
      then have "fst g \<in> fst ` set fs" by auto
      then have "fst g \<noteq> x" "fst g \<notin> set xs" using nx(2) Cons.prems \<open>distinct (xs @ map fst (f # fs))\<close> by auto
      then have "h (fst g) = objs s (fst g)" using h(4) by simp
      then show ?case using Cons by simp
    qed simp
    show ?thesis using eq b(4) by blast
  qed
  moreover have "lens h (xs @ [x]) = lens (objs s) xs + length D"
    using h(2,3) Cons.prems(2) seg_length by (metis packet_def length_append)
  ultimately obtain h' where h': "join_loop R k (Some p) q ?s2 = Inr ((), with_objs h' ?s2)" "packet h' (Some p) ((xs @ [x]) @ map fst fs)"
      "chain_data h' ((xs @ [x]) @ map fst fs) = chain_data h (xs @ [x]) @ concat (map fr_data fs)"
      "\<forall>z. z \<notin> set (xs @ [x]) \<union> fst ` set fs \<longrightarrow> h' z = h z"
    using Cons.IH [of ?s2 q "xs @ [x]" k] h(2) Cons.prems(3-6) f k by auto
  then show ?case
    using step f h(3,4) by (intro exI [of _ h']) (simp del: chain_data_simps)
qed

lemma clen_run:
  assumes "seg h p xs None 0" "length xs < fuel" "pb_obj s = h"
  shows "clen_loop fuel p n s = Inr (n + of_nat (length xs), s)"
  using assms
proof (induction xs arbitrary: p n fuel)
  case Nil
  then show ?case by (cases fuel) (auto simp: act_return_def)
next
  case (Cons x xs)
  then obtain k b where "fuel = Suc k" "p = Some x" "h x = Some b" "seg h (pb_next b) xs None 0" by (cases fuel) auto
  then show ?case using Cons.IH [of "pb_next b" k "n + 1"] Cons.prems(2,3) by (simp add: act_bind_def pb_get_def add.assoc)
qed

lemma run_clen:
  assumes "packet (objs s) p xs" "length xs < chain_fuel"
  shows "lw_pbuf (pbuf_clen p) s = Inr (of_nat (length xs), s)"
  using clen_run [of "objs s" p xs chain_fuel "pbufs (world s)" 0] assms
  by (simp add: packet_def pbuf_clen_def lw_pbuf_def in_world_def in_pbufs_def)

section \<open>A complete queue\<close>

lemma mem_write_in:
  assumes "i + length v \<le> length u" "a + length u \<le> length M"
  shows "mem_write (a + i) v (mem_write a u M) = mem_write a (mem_write i v u) M"
proof -
  have "mem_write (a + i) v (take a M @ u @ drop (a + length u) M) = take a M @ mem_write i v u @ drop (a + length u) M"
    using mem_write_append [of "take a M" i v "u @ drop (a + length u) M"] mem_write_front [OF assms(1)] assms by simp
  then show ?thesis using length_mem_write [OF assms(1)] by (simp add: mem_write_def)
qed

definition header_in :: "u8 list \<Rightarrow> pbuf \<Rightarrow> pbuf" where
  "header_in hdr b = pb_mem_update (mem_write (the (pb_payload b)) hdr) b"

lemma header_run:
  assumes b: "objs s x = Some b" "rx_buf b" "pb_payload b = Some a" and l: "length hdr = 20"
  shows "act_bind (lw_pbuf (pb_write (Some x) 0 hdr)) (\<lambda>_.
     act_bind (lw_pbuf (pb_write (Some x) 2 (le16 (lwip_htons n)))) (\<lambda>_.
     act_bind (lw_pbuf (pb_write (Some x) 6 (le16 0))) (\<lambda>_.
     act_bind (lw_pbuf (pb_write (Some x) 10 (le16 0))) (\<lambda>_.
     act_bind (lw_pbuf (payload_ptr (Some x))) (\<lambda>fraghdr.
     act_bind (lw_pbuf (at_read fraghdr 0 IP_HLEN)) (\<lambda>h.
     act_bind (lw_pbuf (pb_write (Some x) 10 (le16 (inet_chksum (ptr_odd A fraghdr) h (of_nat IP_HLEN))))) f)))))) s =
     f () (with_objs ((objs s)(x \<mapsto> header_in (reass_hdr hdr n) b)) s)"
proof -
  have m: "a + 64 \<le> length (pb_mem b)" using rx_bufD [OF b(2,3)] by simp
  have F: "mem_write (a + 10) (le16 0) (mem_write (a + 6) (le16 0) (mem_write (a + 2) (le16 (lwip_htons n)) (mem_write a hdr (pb_mem b)))) =
      mem_write a (reass_fields hdr n) (pb_mem b)"
    using l m mem_write_in [of 2 "le16 (lwip_htons n)" hdr a "pb_mem b"] by (simp add: reass_fields_def mem_write_in length_mem_write)
  have rd: "mem_bytes a 20 (mem_write a (reass_fields hdr n) (pb_mem b)) = reass_fields hdr n"
    using m reass_hdr_length(1) [OF l, of n] by (simp add: mem_bytes_def mem_write_def)
  have ck: "inet_chksum od (reass_fields hdr n) 20 = rfc1071 (reass_fields hdr n)" for od
    by (rule inet_chksum_eq) (simp add: reass_hdr_length l)
  have H: "mem_write (a + 10) (le16 (rfc1071 (reass_fields hdr n))) (mem_write a (reass_fields hdr n) (pb_mem b)) =
      mem_write a (reass_hdr hdr n) (pb_mem b)"
    using m reass_hdr_length(1) [OF l, of n] by (simp add: reass_hdr_def mem_write_in)
  have "pb_mem_update (\<lambda>M. mem_write (a + 10) (le16 (rfc1071 (reass_fields hdr n))) (mem_write (a + 10) (le16 0) (mem_write (a + 6) (le16 0)
      (mem_write (a + 2) (le16 (lwip_htons n)) (mem_write a hdr M))))) b = header_in (reass_hdr hdr n) b"
    by (intro pbuf.equality) (use b F H in \<open>simp_all add: header_in_def\<close>)
  then show ?thesis
    using b m l F rd ck reass_hdr_length(1) [OF l, of n]
    by (simp add: act_bind_def run_pb_write length_mem_write with_buf_objs IP_HLEN_def comp_def)
qed

lemma header_packet:
  assumes "frag_at R b q st D" "length hdr = 20" "h x = Some (header_in hdr b)"
  shows "packet h (Some x) [x]" "chain_data h [x] = hdr @ D" "lens h [x] = 20 + length D"
proof -
  obtain a where a: "pb_payload b = Some a" "rx_buf b" "unat (pb_len b) = 20 + length D" "take (length D) (drop (a + 20) (pb_mem b)) = D"
    using assms(1) by (auto simp: frag_at_def)
  note rx = rx_bufD [OF a(2,1)]
  have f: "pb_payload (header_in hdr b) = Some a" "pb_mem (header_in hdr b) = mem_write a hdr (pb_mem b)" "pb_next (header_in hdr b) = None"
    "pb_len (header_in hdr b) = pb_len b" "pb_tot_len (header_in hdr b) = pb_len b"
    using a(1) rx by (simp_all add: header_in_def)
  have "take (20 + length D) (drop a (mem_write a hdr (pb_mem b))) = hdr @ D"
    using rx(2) assms(2) a(4) by (simp add: mem_write_def add.commute)
  then show "packet h (Some x) [x]" "chain_data h [x] = hdr @ D" "lens h [x] = 20 + length D"
    using assms(2,3) f rx(1,2) a(3) by (auto simp: packet_def payload_ok_def bdata_def payload_bytes_def length_mem_write)
qed

text \<open>The datagrams that wait, in their list.\<close>

fun rd_queue :: "(nat \<Rightarrow> ip_reassdata option) \<Rightarrow> nat option \<Rightarrow> nat list \<Rightarrow> bool" where
  "rd_queue f p [] \<longleftrightarrow> p = None"
| "rd_queue f p (i # is) \<longleftrightarrow> p = Some i \<and> (\<exists>d. f i = Some d \<and> rd_queue f (rd_next d) is)"

lemma match_none:
  assumes "rd_queue (rd_obj (rstk s)) p js" "\<forall>j \<in> set js. \<forall>d. rd_obj (rstk s) j = Some d \<longrightarrow> \<not> IP_ADDRESSES_AND_ID_MATCH (rd_iphdr d) hdr"
    "length js < fuel"
  shows "match_loop hdr fuel p s = Inr (None, s)"
  using assms
proof (induction js arbitrary: p fuel)
  case Nil
  then show ?case by (cases fuel) (auto simp: act_return_def)
next
  case (Cons j js)
  then obtain k d where "fuel = Suc k" "p = Some j" "rd_obj (rstk s) j = Some d" "rd_queue (rd_obj (rstk s)) (rd_next d) js" by (cases fuel) auto
  then show ?case using Cons.IH [of "rd_next d" k] Cons.prems(2,3) by (simp add: act_bind_def)
qed

text \<open>The state behind reassembly: the entry is gone and so are the buffers from the count.\<close>

definition reassembled :: "nat \<Rightarrow> nat option \<Rightarrow> nat \<Rightarrow> 'r reass_stack \<Rightarrow> 'r reass_stack" where
  "reassembled i first n = (\<lambda>r. ip_reass_pbufcount_update (\<lambda>c. c - of_nat n)
     (r\<lparr>reassdatagrams := first, rd_obj := (rd_obj r)(i := None), pool_REASSDATA := do_memp_free_pool (pool_REASSDATA r) i\<rparr>))"

lemma finish_run:
  assumes seg: "frag_seg R (objs s) (rd_p d) gs None" and gs: "gs = (x, st, D) # fs" "distinct (map fst gs)" "length gs < chain_fuel"
    and d: "rd_obj (rstk s) i = Some d" "length (rd_iphdr d) = 20" "reassdatagrams (rstk s) = Some i"
    and len: "20 + sum_list (map (length \<circ> fr_data) gs) < 65536"
  shows "\<exists>h. reass_finish E R i s = Inr (Some x, with_objs h (with_reass (reassembled i (rd_next d) (length gs)) s))
    \<and> packet h (Some x) (map fst gs)
    \<and> chain_data h (map fst gs) = reass_hdr (rd_iphdr d) (rd_datagram_len d + 20) @ concat (map fr_data gs)
    \<and> (\<forall>z. z \<notin> fst ` set gs \<longrightarrow> h z = objs s z)"
proof -
  obtain b q where b: "rd_p d = Some x" "objs s x = Some b" "frag_at R b q st D" "frag_seg R (objs s) q fs None"
    using seg gs(1) by auto
  obtain a where a: "pb_payload b = Some a" "rx_buf b" using b(3) by (auto simp: frag_at_def)
  let ?H = "reass_hdr (rd_iphdr d) (rd_datagram_len d + 20)"
  let ?h = "(objs s)(x \<mapsto> header_in ?H b)"
  let ?s = "with_objs ?h s"
  have nx: "x \<notin> fst ` set fs" using gs by auto
  note p1 = header_packet [OF b(3) reass_hdr_length(2) [OF d(2)], where h = "objs ?s" and x = x, unfolded with_objs_simps, OF fun_upd_same]
  have seg1: "frag_seg R (objs ?s) q fs None" using b(4) nx by simp
  have ds: "distinct ([x] @ map fst fs)" using gs by simp
  have ln: "lens (objs ?s) [x] + sum_list (map (length \<circ> fr_data) fs) < 65536" unfolding with_objs_simps p1(3) using len gs(1) by simp
  from join_loop_run [where s = ?s and p = x and xs = "[x]" and fuel = chain_fuel, OF seg1 _ ds ln] p1(1) gs
  obtain h where h: "join_loop R chain_fuel (Some x) q ?s = Inr ((), with_objs h s)" "packet h (Some x) (map fst gs)"
      "chain_data h (map fst gs) = ?H @ D @ concat (map fr_data fs)" "\<forall>z. z \<notin> fst ` set gs \<longrightarrow> h z = objs s z"
    using p1(2) by (auto simp del: chain_data_simps)
  let ?t = "with_objs h s"
  have deq: "ip_reass_dequeue_datagram i None ?t = Inr ((), with_objs h (with_reass (\<lambda>r. r\<lparr>reassdatagrams := rd_next d,
      rd_obj := (rd_obj r)(i := None), pool_REASSDATA := do_memp_free_pool (pool_REASSDATA r) i\<rparr>) s))"
    using d by (simp add: ip_reass_dequeue_datagram_def act_bind_def memp_free_REASSDATA_def)
  have cl: "lw_pbuf (pbuf_clen (Some x)) t = Inr (of_nat (length gs), t)" if "objs t = h" for t :: "('a, 'b, 'c) rfw"
    using run_clen [of t "Some x" "map fst gs"] that h(2) gs(3) by simp
  have "reass_finish E R i s = Inr (Some x, with_objs h (with_reass (reassembled i (rd_next d) (length gs)) s))"
    unfolding reass_finish_def act_bind_def [of "rd_get (Some i)"] run_rd(1) [OF d(1)] sum.case prod.case Let_def b(1)
      act_bind_def [of "iprh R (Some x)"] iprh_run [OF b(2,3)] IP_HLEN_def of_nat_numeral
      header_run [OF b(2) a(2,1) d(2), unfolded IP_HLEN_def of_nat_numeral]
    using h(1) deq cl d(3) by (simp add: act_bind_def act_return_def reassembled_def)
  then show ?thesis using h gs(1) by (intro exI [of _ h]) (simp del: chain_data_simps)
qed

section \<open>A fragment of a known datagram\<close>

text \<open>The entry of a datagram that waits with the fragments \<open>fs\<close>.\<close>

definition with_frag :: "nat \<Rightarrow> nat \<Rightarrow> bool \<Rightarrow> pptr option \<Rightarrow> ip_reassdata \<Rightarrow> ip_reassdata" where
  "with_frag st l mf p d = (if mf then d\<lparr>rd_p := p\<rparr> else
     d\<lparr>rd_p := p, rd_datagram_len := of_nat (st + l), rd_flags := rd_flags d OR IP_REASS_FLAG_LASTFRAG\<rparr>)"

lemma count_swap: "(ip_reass_pbufcount_update g r)\<lparr>rd_obj := f\<rparr> = ip_reass_pbufcount_update g (r\<lparr>rd_obj := f\<rparr>)"
  by (cases r) simp

lemma reass_add_chain:
  assumes "frag_hdr hdr st l mf" "st + l \<le> 65515"
  shows "reass_add E R p hdr n i =
        act_bind (ip_reass_chain_frag_into_datagram_and_validate R i p (\<not> mf)) (\<lambda>valid.
        if valid = IP_REASS_VALIDATE_PBUF_DROPPED then reass_drop_ipr E p i
        else
          act_bind (reass_modify (ip_reass_pbufcount_update (\<lambda>c. c + n))) (\<lambda>_.
          act_bind (if \<not> mf then
              rd_modify (Some i) (\<lambda>d. d\<lparr>rd_datagram_len := of_nat (st + l), rd_flags := rd_flags d OR IP_REASS_FLAG_LASTFRAG\<rparr>)
            else act_return ()) (\<lambda>_.
          if valid = IP_REASS_VALIDATE_TELEGRAM_FINISHED then reass_finish E R i else act_return None)))"
proof -
  note w = frag_hdr_words [OF assms(1)]
  have len: "lwip_htons (half_at hdr 2) - ucast (IPH_HL_BYTES hdr) = of_nat l" unfolding w(1,3) by simp
  have add: "of_nat st + of_nat l = (of_nat (st + l) :: u16)" by simp
  have bd: "st + l < 65536" using assms(2) by simp
  have ok: "\<not> (\<not> mf \<and> (of_nat (st + l) < (of_nat st :: u16) \<or> (of_nat (st + l) :: u16) > 0xFFFF - of_nat IP_HLEN))"
    using u16_cmp(1) [OF bd, of st] u16_cmp(1) [of 65515 "st + l"] bd assms(2) by (simp add: IP_HLEN_def del: of_nat_add)
  show ?thesis unfolding reass_add_def Let_def w(4,5) len add if_not_P [OF ok] ..
qed

lemma add_run:
  assumes b: "frag_rx nb hdr D" "frag_hdr hdr st (length D) mf" "st + length D \<le> 65515" "objs s x = Some nb"
    and q: "frag_seg R (objs s) (rd_p d) fs None" "distinct (map fst fs)" "x \<notin> fst ` set fs" "length fs + 1 < chain_fuel"
    and d: "rd_obj (rstk s) i = Some d" and ptr: "ptrs_ok R (insert x (fst ` set fs))"
    and ins: "frag_insert (x, st, D) fs = Some gs"
  shows "\<exists>h p t. t = with_objs h (with_reass (ip_reass_pbufcount_update (\<lambda>c. c + n)) (with_rd i (with_frag st (length D) mf p d) s))
    \<and> reass_add E R (Some x) hdr n i s =
        (if (\<not> mf \<or> rd_flags d AND IP_REASS_FLAG_LASTFRAG \<noteq> 0) \<and> whole gs then reass_finish E R i t else Inr (None, t))
    \<and> frag_seg R h p gs None \<and> (\<forall>y. y \<notin> insert x (fst ` set fs) \<longrightarrow> h y = objs s y)"
proof -
  have bd: "st + length D < 65536" using b(3) by simp
  obtain h p where c: "ip_reass_chain_frag_into_datagram_and_validate R i (Some x) (\<not> mf) s =
          Inr (if (\<not> mf \<or> rd_flags d AND IP_REASS_FLAG_LASTFRAG \<noteq> 0) \<and> whole gs then IP_REASS_VALIDATE_TELEGRAM_FINISHED
            else IP_REASS_VALIDATE_PBUF_QUEUED, with_objs h (with_rd i (d\<lparr>rd_p := p\<rparr>) s))"
        "frag_seg R h p gs None" "\<forall>y. y \<notin> insert x (fst ` set fs) \<longrightarrow> h y = objs s y"
    using chain_frag_run [OF b(1,2) bd b(4) q d refl ptr, of "\<not> mf"] ins by auto
  let ?c = "ip_reass_pbufcount_update (\<lambda>c. c + n)"
  let ?t = "with_objs h (with_reass ?c (with_rd i (with_frag st (length D) mf p d) s))"
  have mod: "act_bind (if \<not> mf then
              rd_modify (Some i) (\<lambda>d. d\<lparr>rd_datagram_len := of_nat (st + length D), rd_flags := rd_flags d OR IP_REASS_FLAG_LASTFRAG\<rparr>)
            else act_return ()) f (with_reass ?c (with_objs h (with_rd i (d\<lparr>rd_p := p\<rparr>) s))) = f () ?t" for f :: "unit \<Rightarrow> (('a, 'b, 'c) rfw, pptr option) act"
    by (cases mf) (simp_all add: act_bind_def act_return_def with_frag_def rd_modify_def with_rd_def count_swap)
  have "reass_add E R (Some x) hdr n i s =
      (if (\<not> mf \<or> rd_flags d AND IP_REASS_FLAG_LASTFRAG \<noteq> 0) \<and> whole gs then reass_finish E R i ?t else Inr (None, ?t))"
    unfolding reass_add_chain [OF b(2,3)]
      act_bind_def [of "ip_reass_chain_frag_into_datagram_and_validate R i (Some x) (\<not> mf)"] c(1) sum.case prod.case
    by (cases "(\<not> mf \<or> rd_flags d AND IP_REASS_FLAG_LASTFRAG \<noteq> 0) \<and> whole gs")
      (simp_all only: if_True if_False validate.distinct act_bind_def [of "reass_modify g" for g] run_reass sum.case prod.case mod act_return_def simp_thms)
  then show ?thesis using c(2,3) by blast
qed

section \<open>Which datagram\<close>

lemma rx_packet: "frag_rx b hdr D \<Longrightarrow> h x = Some b \<Longrightarrow> packet h (Some x) [x]"
  using rx_bufD by (fastforce simp: frag_rx_def packet_def payload_ok_def)

definition first_hdr :: "u8 list \<Rightarrow> nat \<Rightarrow> ip_reassdata \<Rightarrow> ip_reassdata" where
  "first_hdr hdr st d = (if st = 0 \<and> be16 (rd_iphdr d) 6 mod 8192 \<noteq> 0 then d\<lparr>rd_iphdr := hdr\<rparr> else d)"

text \<open>The checks before the search, for a fragment in one buffer and with room for it.\<close>

lemma reass_search:
  assumes b: "frag_rx nb hdr D" "frag_hdr hdr st (length D) mf" "objs s x = Some nb"
    and c: "unat (ip_reass_pbufcount (rstk s)) + 1 \<le> 10"
  shows "ip4_reass_ip E R (Some x) s =
    act_bind (match_loop hdr (Suc (memp_num (pool_REASSDATA (rstk s)))) (reassdatagrams (rstk s))) (\<lambda>found.
         act_bind
           (case found of
              None \<Rightarrow> ip_reass_enqueue_new_datagram E R hdr (unat (1 :: u16))
            | Some i \<Rightarrow>
                act_bind (rd_get found) (\<lambda>d.
                act_bind (if lwip_htons (IPH_OFFSET hdr) AND IP_OFFMASK = 0 \<and> lwip_htons (IPH_OFFSET (rd_iphdr d)) AND IP_OFFMASK \<noteq> 0
                          then rd_modify found (rd_iphdr_update (\<lambda>_. hdr)) else act_return ()) (\<lambda>_.
                act_return found))) (\<lambda>ipr.
         case ipr of None \<Rightarrow> reass_drop E (Some x) | Some i \<Rightarrow> reass_add E R (Some x) hdr 1 i)) s"
proof -
  note w = frag_hdr_words [OF b(2)]
  have l: "\<not> ucast (20 :: u8) > (of_nat (20 + length D) :: u16)" using u16_cmp(1) [OF w(2), of 20] by (simp del: of_nat_add)
  have cl: "lw_pbuf (pbuf_clen (Some x)) s = Inr (1, s)"
    using run_clen [OF rx_packet [of nb hdr D "objs s" x]] b by (simp add: chain_fuel_def)
  have over: "\<not> unat (ip_reass_pbufcount (rstk s)) + unat (1 :: u16) > IP_REASS_MAX_PBUFS" using c by (simp add: IP_REASS_MAX_PBUFS_def)
  show ?thesis
    unfolding ip4_reass_ip_def IP_HLEN_def act_bind_def [of "lw_pbuf (pb_read (Some x) 0 20)"] frag_rx_hdr [OF b(1,3)] sum.case prod.case w(1,3)
      if_not_P [OF l] Let_def
    using over cl by (simp add: act_bind_def act_return_def rd_fuel_def del: match_loop.simps of_nat_add)
qed

lemma reass_known:
  assumes b: "frag_rx nb hdr D" "frag_hdr hdr st (length D) mf" "objs s x = Some nb"
    and c: "unat (ip_reass_pbufcount (rstk s)) + 1 \<le> 10"
    and i: "reassdatagrams (rstk s) = Some i" "rd_obj (rstk s) i = Some d" "IP_ADDRESSES_AND_ID_MATCH (rd_iphdr d) hdr" "length (rd_iphdr d) = 20"
  shows "ip4_reass_ip E R (Some x) s = reass_add E R (Some x) hdr 1 i (with_rd i (first_hdr hdr st d) s)"
proof -
  have off: "lwip_htons (IPH_OFFSET h) AND IP_OFFMASK = 0 \<longleftrightarrow> be16 h 6 mod 8192 = 0" if "length h = 20" for h
    using offset_words(2) [OF that refl] by (simp add: word_unat_eq_iff)
  have st: "be16 hdr 6 mod 8192 = 0 \<longleftrightarrow> st = 0" "length hdr = 20" using b(2) by (auto simp: frag_hdr_def)
  show ?thesis
    unfolding reass_search [OF b c] using i off [OF st(2)] off [OF i(4)] st(1)
    by (auto simp: act_bind_def act_return_def first_hdr_def with_rd_same)
qed

definition new_rd :: "nat option \<Rightarrow> u8 list \<Rightarrow> ip_reassdata" where
  "new_rd first hdr = \<lparr>rd_next = first, rd_p = None, rd_iphdr = hdr, rd_datagram_len = 0, rd_flags = 0, rd_timer = IP_REASS_MAXAGE\<rparr>"

lemma reass_new:
  assumes b: "frag_rx nb hdr D" "frag_hdr hdr st (length D) mf" "objs s x = Some nb"
    and c: "unat (ip_reass_pbufcount (rstk s)) + 1 \<le> 10"
    and js: "rd_queue (rd_obj (rstk s)) (reassdatagrams (rstk s)) js" "length js \<le> memp_num (pool_REASSDATA (rstk s))"
      "\<forall>j \<in> set js. \<forall>d. rd_obj (rstk s) j = Some d \<longrightarrow> \<not> IP_ADDRESSES_AND_ID_MATCH (rd_iphdr d) hdr"
    and m: "do_memp_malloc_pool (pool_REASSDATA (rstk s)) = (Some i, pool)"
  shows "ip4_reass_ip E R (Some x) s = reass_add E R (Some x) hdr 1 i
    (with_reass (\<lambda>r. r\<lparr>pool_REASSDATA := pool, rd_obj := (rd_obj r)(i \<mapsto> new_rd (reassdatagrams (rstk s)) hdr), reassdatagrams := Some i\<rparr>) s)"
proof -
  have "match_loop hdr (Suc (memp_num (pool_REASSDATA (rstk s)))) (reassdatagrams (rstk s)) s = Inr (None, s)"
    by (rule match_none [OF js(1,3)]) (use js(2) in simp)
  then show ?thesis
    unfolding reass_search [OF b c] using m
    by (simp add: act_bind_def act_return_def ip_reass_enqueue_new_datagram_def memp_malloc_REASSDATA_def new_rd_def del: match_loop.simps)
qed

end
