(* ===== verification/Lwip_ReassSteps.thy ===== *)
theory Lwip_ReassSteps
  imports Lwip_ReassRun
begin

text \<open>Reassembly gives the datagram, in whatever order its fragments arrive.\<close>

section \<open>The pieces of a datagram\<close>

text \<open>Pieces with data that follow each other from position \<open>k\<close> on.\<close>

fun tiles :: "nat \<Rightarrow> (nat \<times> u8 list) list \<Rightarrow> bool" where
  "tiles k [] \<longleftrightarrow> True"
| "tiles k (c # P) \<longleftrightarrow> fst c = k \<and> snd c \<noteq> [] \<and> tiles (k + length (snd c)) P"

lemma tiles_start: "tiles k P \<Longrightarrow> c \<in> set P \<Longrightarrow> k \<le> fst c"
  by (induction P arbitrary: k) force+

lemma tiles_sorted: "tiles k P \<Longrightarrow> sorted_wrt (\<lambda>c e. fst c < fst e \<and> fst c + length (snd c) \<le> fst e) P"
proof (induction P arbitrary: k)
  case (Cons c P)
  then have c: "0 < length (snd c)" "tiles (k + length (snd c)) P" "fst c = k" by auto
  have "fst c < fst e \<and> fst c + length (snd c) \<le> fst e" if "e \<in> set P" for e using tiles_start [OF c(2) that] c(1,3) by linarith
  then show ?case using Cons.IH [OF c(2)] by simp
qed simp

lemma tiles_whole:
  assumes "tiles k P" "set (map snd gs) \<subseteq> set P" "in_order gs" "joined gs" "gs \<noteq> []" "fr_start (hd gs) = k" "last P \<in> set (map snd gs)"
  shows "map snd gs = P"
  using assms
proof (induction P arbitrary: k gs)
  case (Cons c P)
  obtain f fs where f: "gs = f # fs" using Cons.prems(5) by (cases gs) auto
  have c: "fst c = k" "0 < length (snd c)" "tiles (k + length (snd c)) P" using Cons.prems(1) by auto
  have far: "e \<in> set P \<Longrightarrow> k < fst e" for e using tiles_start [OF c(3), of e] c(2) by linarith
  have hd: "snd f = c" using Cons.prems(2,6) f far [of "snd f"] by auto
  have later: "g \<in> set fs \<Longrightarrow> k < fr_start g" for g using Cons.prems(3,6) f by (auto simp: in_order_def)
  have sub: "set (map snd fs) \<subseteq> set P"
  proof
    fix e assume "e \<in> set (map snd fs)"
    then obtain g where g: "g \<in> set fs" "e = snd g" by auto
    then have "e \<in> set (c # P)" using Cons.prems(2) f by auto
    then show "e \<in> set P" using later [OF g(1)] g(2) c(1) by auto
  qed
  show ?case
  proof (cases "P = []")
    case True
    then show ?thesis using sub f hd by auto
  next
    case False
    then have "last P \<noteq> c" "last P \<in> set (map snd gs)" using far [of "last P"] c(1) Cons.prems(7) by auto
    then have "last P \<in> set (map snd fs)" using f hd by auto
    moreover from this have "fs \<noteq> []" by auto
    moreover have "joined fs" "fs \<noteq> [] \<Longrightarrow> fr_start (hd fs) = k + length (snd c)" "in_order fs"
      using Cons.prems(3,4) f hd c(1) by (cases fs; auto simp: in_order_def)+
    ultimately show ?thesis using Cons.IH [OF c(3) sub] f hd by simp
  qed
qed simp

lemma whole_all:
  assumes "tiles 0 P" "set (map snd gs) = set P" "in_order gs" "P \<noteq> []"
  shows "map snd gs = P" "whole gs"
proof -
  have sg: "sorted_wrt (\<lambda>c e. fst c < fst e) (map snd gs)"
    using assms(3) unfolding in_order_def sorted_wrt_map by (rule sorted_wrt_mono_rel [rotated]) auto
  have sp: "sorted_wrt (\<lambda>c e. fst c < fst e) P" using tiles_sorted [OF assms(1)] by (rule sorted_wrt_mono_rel [rotated]) auto
  have strict: "sorted (map fst Q) \<and> distinct (map fst Q)" if "sorted_wrt (\<lambda>c e. fst c < fst e) Q" for Q :: "(nat \<times> u8 list) list"
  proof -
    have "sorted_wrt (<) (map fst Q)" using that by (simp add: sorted_wrt_map)
    then show ?thesis by (simp only: strict_sorted_iff)
  qed
  have "inj_on fst (set (map snd gs) \<union> set P)"
    using strict [OF sp] assms(2) by (simp add: distinct_map)
  then show eq: "map snd gs = P"
    using strict [OF sg] strict [OF sp] assms(2) by (intro map_sorted_distinct_set_unique [where f = fst]) auto
  have "tiles k (map snd gs) \<Longrightarrow> gs \<noteq> [] \<Longrightarrow> fr_start (hd gs) = k \<and> joined gs" for k
  proof (induction gs arbitrary: k rule: joined.induct)
    case (1 f g fs)
    then show ?case by (cases f; cases g) auto
  qed auto
  from this [of 0] show "whole gs" using assms(1,4) eq by (auto simp: whole_def)
qed

text \<open>A piece that touches no other is inserted at its place.\<close>

lemma insert_apart:
  assumes "in_order fs" "\<forall>f \<in> set fs. fr_end n \<le> fr_start f \<and> fr_start n < fr_start f \<or> fr_end f \<le> fr_start n \<and> fr_start f < fr_start n"
  shows "\<exists>gs. frag_insert n fs = Some gs \<and> in_order gs \<and> set gs = insert n (set fs) \<and> length gs = Suc (length fs)
    \<and> mset gs = add_mset n (mset fs)"
  using assms
proof (induction fs)
  case (Cons f fs)
  have fs: "in_order fs" "\<forall>g \<in> set fs. fr_start f < fr_start g \<and> fr_end f \<le> fr_start g" using Cons.prems(1) by (auto simp: in_order_def)
  show ?case
  proof (cases "fr_start n < fr_start f")
    case True
    then have "fr_end n \<le> fr_start f" using Cons.prems(2) by fastforce
    then show ?thesis using True Cons.prems(1) fs(2) by (fastforce simp: in_order_def)
  next
    case False
    then have n: "fr_end f \<le> fr_start n" "fr_start f < fr_start n" using Cons.prems(2) by auto
    then obtain gs where "frag_insert n fs = Some gs" "in_order gs" "set gs = insert n (set fs)" "length gs = Suc (length fs)"
        "mset gs = add_mset n (mset fs)" using Cons.IH fs(1) Cons.prems(2) by auto
    then show ?thesis using n fs(2) False by (auto simp: in_order_def)
  qed
qed (simp add: in_order_def)

section \<open>A datagram that waits for fragments\<close>

abbreviation fr_pieces :: "frag list \<Rightarrow> (nat \<times> u8 list) set" where "fr_pieces fs \<equiv> snd ` set fs"

definition waits :: "pbuf_repr \<Rightarrow> (nat \<times> u8 list) list \<Rightarrow> nat option \<Rightarrow> nat \<Rightarrow> frag list \<Rightarrow> ip_reassdata \<Rightarrow> ('h, 'r, 'k) rfw \<Rightarrow> bool" where
  "waits R P first i fs d s \<longleftrightarrow> rd_obj (rstk s) i = Some d \<and> reassdatagrams (rstk s) = Some i \<and> rd_next d = first
     \<and> frag_seg R (objs s) (rd_p d) fs None \<and> distinct (map fst fs) \<and> in_order fs \<and> fr_pieces fs \<subseteq> set P \<and> length (rd_iphdr d) = 20
     \<and> (rd_flags d AND IP_REASS_FLAG_LASTFRAG \<noteq> 0 \<longleftrightarrow> last P \<in> fr_pieces fs)
     \<and> (last P \<in> fr_pieces fs \<longrightarrow> rd_datagram_len d = of_nat (length (concat (map snd P))))"

lemma waitsD:
  assumes "waits R P first i fs d s"
  shows "rd_obj (rstk s) i = Some d" "reassdatagrams (rstk s) = Some i" "rd_next d = first"
    "frag_seg R (objs s) (rd_p d) fs None" "distinct (map fst fs)" "in_order fs" "fr_pieces fs \<subseteq> set P" "length (rd_iphdr d) = 20"
    "rd_flags d AND IP_REASS_FLAG_LASTFRAG \<noteq> 0 \<longleftrightarrow> last P \<in> fr_pieces fs"
    "last P \<in> fr_pieces fs \<Longrightarrow> rd_datagram_len d = of_nat (length (concat (map snd P)))"
  using assms unfolding waits_def by blast+

lemma tiles_last: "tiles k P \<Longrightarrow> P \<noteq> [] \<Longrightarrow> fst (last P) + length (snd (last P)) = k + length (concat (map snd P))"
  by (induction P arbitrary: k) (auto split: if_splits)

lemma tiles_apart:
  assumes "tiles 0 P" "c \<in> set P" "e \<in> set P" "c \<noteq> e"
  shows "fst c + length (snd c) \<le> fst e \<and> fst c < fst e \<or> fst e + length (snd e) \<le> fst c \<and> fst e < fst c"
proof -
  obtain i j where ij: "i < length P" "j < length P" "c = P ! i" "e = P ! j" using assms(2,3) by (auto simp: in_set_conv_nth)
  then have "i < j \<or> j < i" using assms(4) by (metis linorder_neqE_nat)
  then show ?thesis using sorted_wrt_nth_less [OF tiles_sorted [OF assms(1)]] ij by auto
qed

lemma tiles_end: "tiles k P \<Longrightarrow> c \<in> set P \<Longrightarrow> fst c + length (snd c) \<le> k + length (concat (map snd P))"
  by (induction P arbitrary: k) force+

lemma flag_set: "(f OR IP_REASS_FLAG_LASTFRAG) AND IP_REASS_FLAG_LASTFRAG \<noteq> 0"
  by (simp add: IP_REASS_FLAG_LASTFRAG_def bit.conj_disj_distrib2)

text \<open>With the last piece here and no hole all the pieces are here.\<close>

lemma complete_iff:
  assumes "tiles 0 P" "P \<noteq> []" "in_order gs" "fr_pieces gs \<subseteq> set P"
  shows "last P \<in> fr_pieces gs \<and> whole gs \<longleftrightarrow> fr_pieces gs = set P"
proof
  assume "last P \<in> fr_pieces gs \<and> whole gs"
  then have "map snd gs = P" using tiles_whole [OF assms(1), of gs] assms(3,4) by (simp add: whole_def)
  then show "fr_pieces gs = set P" by (metis set_map)
next
  assume "fr_pieces gs = set P"
  then show "last P \<in> fr_pieces gs \<and> whole gs" using whole_all(2) [OF assms(1), of gs] assms(2,3) by simp
qed

lemma piece_inserted:
  assumes "tiles 0 P" "in_order fs" "fr_pieces fs \<subseteq> set P" "snd n \<in> set P" "snd n \<notin> fr_pieces fs"
  obtains gs where "frag_insert n fs = Some gs" "in_order gs" "set gs = insert n (set fs)" "mset gs = add_mset n (mset fs)"
proof -
  have "\<forall>f \<in> set fs. fr_end n \<le> fr_start f \<and> fr_start n < fr_start f \<or> fr_end f \<le> fr_start n \<and> fr_start f < fr_start n"
  proof
    fix f assume "f \<in> set fs"
    then have f: "snd f \<in> fr_pieces fs" by (rule imageI)
    then have "snd f \<in> set P" "snd n \<noteq> snd f" using assms(3,5) by (blast, metis)
    from tiles_apart [OF assms(1,4) this]
    show "fr_end n \<le> fr_start f \<and> fr_start n < fr_start f \<or> fr_end f \<le> fr_start n \<and> fr_start f < fr_start n" .
  qed
  then show ?thesis using insert_apart [OF assms(2), of n] that by blast
qed

lemma add_waits:
  assumes P: "tiles 0 P" "P \<noteq> []" and w: "waits R P first i fs d s" and x: "x \<notin> fst ` set fs"
    and gs: "frag_seg R h p gs None" "in_order gs" "set gs = insert (x, st, D) (set fs)" "mset gs = add_mset (x, st, D) (mset fs)" "(st, D) \<in> set P"
  shows "waits R P first i gs (with_frag st (length D) ((st, D) \<noteq> last P) p d)
    (with_objs h (with_reass (ip_reass_pbufcount_update g) (with_rd i (with_frag st (length D) ((st, D) \<noteq> last P) p d) s)))"
proof -
  note W = waitsD [OF w]
  have "distinct (map fst gs)"
  proof -
    have "mset (map fst gs) = mset (x # map fst fs)" using gs(4) by simp
    moreover have "distinct (x # map fst fs)" using W(5) x by simp
    ultimately show ?thesis by (metis mset_eq_imp_distinct_iff)
  qed
  moreover have "of_nat (st + length D) = (of_nat (length (concat (map snd P))) :: u16)" if "(st, D) = last P"
    using tiles_last [OF P] unfolding that [symmetric] by simp
  moreover have "fr_pieces gs \<subseteq> set P" using gs(3,5) W(7) by auto
  ultimately show ?thesis
    unfolding waits_def using W(1-3,8-10) gs(1-3) flag_set
    by (auto simp: with_frag_def simp del: of_nat_add)
qed

lemma add_step:
  assumes P: "tiles 0 P" "length (concat (map snd P)) \<le> 65515" and w: "waits R P first i fs d s"
    and b: "frag_rx nb hdr D" "frag_hdr hdr st (length D) ((st, D) \<noteq> last P)" "objs s x = Some nb"
    and n: "(st, D) \<in> set P" "(st, D) \<notin> fr_pieces fs" "x \<notin> fst ` set fs" "length fs + 1 < chain_fuel" "ptrs_ok R (insert x (fst ` set fs))"
  shows "\<exists>h p t d' gs. d' = with_frag st (length D) ((st, D) \<noteq> last P) p d
    \<and> t = with_objs h (with_reass (ip_reass_pbufcount_update (\<lambda>c. c + 1)) (with_rd i d' s)) \<and> mset gs = add_mset (x, st, D) (mset fs)
    \<and> waits R P first i gs d' t \<and> (\<forall>y. y \<notin> insert x (fst ` set fs) \<longrightarrow> h y = objs s y)
    \<and> reass_add E R (Some x) hdr 1 i s = (if fr_pieces gs = set P then reass_finish E R i t else Inr (None, t))"
proof -
  note W = waitsD [OF w]
  have ne: "P \<noteq> []" using n(1) by auto
  have "st + length D \<le> 65515" using tiles_end [OF P(1) n(1)] P(2) by simp
  note bound = this
  obtain gs where gs: "frag_insert (x, st, D) fs = Some gs" "in_order gs" "set gs = insert (x, st, D) (set fs)" "mset gs = add_mset (x, st, D) (mset fs)"
    using piece_inserted [OF P(1) W(6,7), of "(x, st, D)"] n(1,2) by auto
  from add_run [where n = 1 and E = E, OF b(1,2) bound b(3) W(4,5) n(3,4) W(1) n(5) gs(1)] obtain h p t where
    r: "t = with_objs h (with_reass (ip_reass_pbufcount_update (\<lambda>c. c + 1)) (with_rd i (with_frag st (length D) ((st, D) \<noteq> last P) p d) s))"
      "reass_add E R (Some x) hdr 1 i s =
        (if (\<not> (st, D) \<noteq> last P \<or> rd_flags d AND IP_REASS_FLAG_LASTFRAG \<noteq> 0) \<and> whole gs then reass_finish E R i t else Inr (None, t))"
      "frag_seg R h p gs None" "\<forall>y. y \<notin> insert x (fst ` set fs) \<longrightarrow> h y = objs s y"
    by blast
  have lastiff: "(st, D) = last P \<or> rd_flags d AND IP_REASS_FLAG_LASTFRAG \<noteq> 0 \<longleftrightarrow> last P \<in> fr_pieces gs"
    unfolding W(9) using gs(3) by auto
  have "fr_pieces gs \<subseteq> set P" using gs(3) n(1) W(7) by auto
  note all = complete_iff [OF P(1) ne gs(2) this]
  have cond: "((\<not> (st, D) \<noteq> last P \<or> rd_flags d AND IP_REASS_FLAG_LASTFRAG \<noteq> 0) \<and> whole gs) = (fr_pieces gs = set P)"
    unfolding not_not lastiff by (rule all)
  have wt: "waits R P first i gs (with_frag st (length D) ((st, D) \<noteq> last P) p d) t"
    unfolding r(1) by (rule add_waits [OF P(1) ne w n(3) r(3) gs(2-4) n(1)])
  show ?thesis by (intro exI conjI) (rule refl r(1) gs(4) wt r(4) r(2) [unfolded cond])+
qed

section \<open>One fragment after the other\<close>

text \<open>The calls of \<^verbatim>\<open>ip4_reass\<close> for buffers that arrive one after the other, with their results.\<close>

fun reass_all :: "('h, 'r reass_stack, 'k) ip_env \<Rightarrow> pbuf_repr \<Rightarrow> pptr list \<Rightarrow> (('h, 'r, 'k) rfw, pptr option list) act" where
  "reass_all E R [] = act_return []"
| "reass_all E R (x # xs) = act_bind (ip4_reass_ip E R (Some x)) (\<lambda>p. act_bind (reass_all E R xs) (\<lambda>ps. act_return (p # ps)))"

text \<open>The stack with the entry \<open>d\<close> for a datagram of which \<open>n\<close> buffers wait, and behind the last fragment.\<close>

definition queued :: "nat \<Rightarrow> ip_reassdata \<Rightarrow> memp_desc \<Rightarrow> nat \<Rightarrow> 'r reass_stack \<Rightarrow> 'r reass_stack" where
  "queued i d pool n r = r\<lparr>rd_obj := (rd_obj r)(i \<mapsto> d), reassdatagrams := Some i, ip_reass_pbufcount := ip_reass_pbufcount r + of_nat n, pool_REASSDATA := pool\<rparr>"

definition entry_freed :: "nat \<Rightarrow> memp_desc \<Rightarrow> 'r reass_stack \<Rightarrow> 'r reass_stack" where
  "entry_freed i pool r = r\<lparr>rd_obj := (rd_obj r)(i := None), pool_REASSDATA := do_memp_free_pool pool i\<rparr>"

lemma queued_upd:
  "(\<lambda>r. (queued i d pool n r)\<lparr>rd_obj := (rd_obj (queued i d pool n r))(i \<mapsto> e)\<rparr>) = queued i e pool n"
  "(\<lambda>r. ip_reass_pbufcount_update (\<lambda>c. c + 1) (queued i d pool n r)) = queued i d pool (Suc n)"
  by (rule ext, simp add: queued_def ac_simps)+

lemma queued_simps [simp]:
  "with_rd i e (with_objs h (with_reass (queued i d pool n) s)) = with_objs h (with_reass (queued i e pool n) s)"
  "with_reass (ip_reass_pbufcount_update (\<lambda>c. c + 1)) (with_objs h (with_reass (queued i d pool n) s)) = with_objs h (with_reass (queued i d pool (Suc n)) s)"
  "with_reass (reassembled i (reassdatagrams (rstk s)) n) (with_objs h (with_reass (queued i d pool n) s)) = with_objs h (with_reass (entry_freed i pool) s)"
proof -
  show "with_rd i e (with_objs h (with_reass (queued i d pool n) s)) = with_objs h (with_reass (queued i e pool n) s)"
    by (simp add: with_rd_def queued_upd)
  show "with_reass (ip_reass_pbufcount_update (\<lambda>c. c + 1)) (with_objs h (with_reass (queued i d pool n) s)) = with_objs h (with_reass (queued i d pool (Suc n)) s)"
    by (simp add: queued_upd)
  show "with_reass (reassembled i (reassdatagrams (rstk s)) n) (with_objs h (with_reass (queued i d pool n) s)) = with_objs h (with_reass (entry_freed i pool) s)"
    by (simp add: with_reass_def with_ip_def with_objs_def reassembled_def queued_def entry_freed_def)
qed

text \<open>The header that is kept is the one of the first piece as soon as it is here, before that one with another offset.\<close>

definition hdr_kept :: "(pptr \<Rightarrow> u8 list) \<Rightarrow> u8 list \<Rightarrow> frag set \<Rightarrow> ip_reassdata \<Rightarrow> bool" where
  "hdr_kept H hdr F d \<longleftrightarrow> IP_ADDRESSES_AND_ID_MATCH (rd_iphdr d) hdr \<and> length (rd_iphdr d) = 20
     \<and> (\<forall>f \<in> F. fr_start f = 0 \<longrightarrow> rd_iphdr d = H (fst f)) \<and> ((\<forall>f \<in> F. fr_start f \<noteq> 0) \<longrightarrow> be16 (rd_iphdr d) 6 mod 8192 \<noteq> 0)"

text \<open>A fragment in its buffer.\<close>

definition arrives :: "pheap \<Rightarrow> (pptr \<Rightarrow> u8 list) \<Rightarrow> u8 list \<Rightarrow> (nat \<times> u8 list) list \<Rightarrow> frag \<Rightarrow> bool" where
  "arrives h H hdr P f \<longleftrightarrow> (\<exists>b. h (fst f) = Some b \<and> frag_rx b (H (fst f)) (fr_data f)
     \<and> frag_hdr (H (fst f)) (fr_start f) (length (fr_data f)) (snd f \<noteq> last P) \<and> IP_ADDRESSES_AND_ID_MATCH (H (fst f)) hdr)"

lemma hdr_kept_next:
  assumes "hdr_kept H hdr F d" "arrives h H hdr P f" "\<forall>g \<in> F. snd f \<noteq> snd g" "tiles 0 P" "snd ` F \<subseteq> set P" "snd f \<in> set P"
  shows "hdr_kept H hdr (insert f F) (first_hdr (H (fst f)) (fr_start f) d)"
proof -
  have f: "fr_start f = 8 * (be16 (H (fst f)) 6 mod 8192)" "length (H (fst f)) = 20" "IP_ADDRESSES_AND_ID_MATCH (H (fst f)) hdr"
    using assms(2) by (auto simp: arrives_def frag_hdr_def)
  have one: "\<forall>g \<in> F. fr_start g \<noteq> 0" if "fr_start f = 0"
    using tiles_apart [OF assms(4,6)] assms(3,5) that by fastforce
  show ?thesis
    using assms(1) f one by (cases "fr_start f = 0") (fastforce simp: hdr_kept_def first_hdr_def)+
qed

lemma waits_hdr: "waits R P first i fs d s \<Longrightarrow> length (rd_iphdr (first_hdr hdr st d)) = 20 \<Longrightarrow> waits R P first i fs (first_hdr hdr st d) (with_rd i (first_hdr hdr st d) s)"
  by (auto simp: waits_def first_hdr_def)

lemma hdr_kept_frag [simp]: "hdr_kept H hdr F (with_frag st l mf p d) = hdr_kept H hdr F d"
  by (simp add: hdr_kept_def with_frag_def)

lemma finish_step:
  assumes P: "tiles 0 P" "length (concat (map snd P)) \<le> 65515" "P \<noteq> []"
    and w: "waits R P first i gs d t" "fr_pieces gs = set P" "hdr_kept H hdr (set gs) d" "length gs < chain_fuel"
  shows "\<exists>h x0. reass_finish E R i t = Inr (Some x0, with_objs h (with_reass (reassembled i first (length gs)) t))
    \<and> (\<exists>D0. (x0, 0, D0) \<in> set gs) \<and> packet h (Some x0) (map fst gs)
    \<and> chain_data h (map fst gs) = reass_hdr (H x0) (of_nat (length (concat (map snd P)) + 20)) @ concat (map snd P)
    \<and> (\<forall>z. z \<notin> fst ` set gs \<longrightarrow> h z = objs t z)"
proof -
  note W = waitsD [OF w(1)]
  have gs: "map snd gs = P" "whole gs" using whole_all [OF P(1) _ W(6) P(3)] w(2) by auto
  obtain x0 D0 fs where f: "gs = (x0, 0, D0) # fs" using gs(2) by (cases gs) (auto simp: whole_def)
  have data: "map fr_data gs = map snd P" unfolding gs(1) [symmetric] by simp
  have "sum_list (map (length \<circ> fr_data) gs) = length (concat (map snd P))"
    unfolding data [symmetric] by (simp add: length_concat comp_def)
  then have len: "20 + sum_list (map (length \<circ> fr_data) gs) < 65536" using P(2) by simp
  have "rd_iphdr d = H x0" using w(3) f by (auto simp: hdr_kept_def)
  moreover have "rd_datagram_len d = of_nat (length (concat (map snd P)))" using W(10) w(2) P(3) by simp
  moreover have "(x0, 0, D0) \<in> set gs" using f by simp
  ultimately show ?thesis
    using finish_run [OF W(4) f W(5) w(4) W(1,8,2) len, where E = E] unfolding data W(3) by force
qed

lemma tiles_distinct: "tiles 0 P \<Longrightarrow> distinct P"
  using tiles_sorted [of 0 P] by (auto simp: distinct_conv_nth sorted_wrt_iff_nth_less) (metis less_irrefl linorder_neqE_nat)

lemma mset_cons: "mset gs = add_mset f (mset fs) \<Longrightarrow> set gs = insert f (set fs)" "mset gs = add_mset f (mset fs) \<Longrightarrow> length gs = Suc (length fs)"
  by (metis set_mset_add_mset_insert set_mset_mset) (metis size_add_mset size_mset)

lemma pieces_in:
  assumes "tiles 0 P" "mset (map snd (fs @ f # rs)) = mset P"
  shows "snd f \<in> set P" "snd f \<notin> fr_pieces fs" "fr_pieces (fs @ f # rs) = set P" "rs \<noteq> [] \<Longrightarrow> insert (snd f) (fr_pieces fs) \<noteq> set P"
proof -
  have d: "distinct (map snd (fs @ f # rs))" using tiles_distinct [OF assms(1)] mset_eq_imp_distinct_iff [OF assms(2)] by simp
  have e: "set (map snd (fs @ f # rs)) = set P" using assms(2) by (metis set_mset_mset)
  show "snd f \<in> set P" "snd f \<notin> fr_pieces fs" "fr_pieces (fs @ f # rs) = set P" using d e by auto
  show "insert (snd f) (fr_pieces fs) \<noteq> set P" if "rs \<noteq> []"
  proof -
    from that obtain g rs' where "rs = g # rs'" by (cases rs) auto
    then have "snd g \<in> set P" "snd g \<notin> insert (snd f) (fr_pieces fs)" using d e by auto
    then show ?thesis by blast
  qed
qed

lemma queue_step:
  assumes P: "tiles 0 P" "length (concat (map snd P)) \<le> 65515"
    and m: "snd f \<in> set P" "snd f \<notin> fr_pieces fs" "fst f \<notin> fst ` set fs" "length fs + 1 < chain_fuel" "ptrs_ok R (insert (fst f) (fst ` set fs))"
    and s: "s = with_objs h (with_reass (queued i d pool (length fs)) s0)" "arrives h H hdr P f" and w: "waits R P first i fs d s"
  shows "\<exists>h' d' gs t. mset gs = add_mset f (mset fs) \<and> t = with_objs h' (with_reass (queued i d' pool (length gs)) s0) \<and> waits R P first i gs d' t
    \<and> (\<forall>F. hdr_kept H hdr F d' = hdr_kept H hdr F d) \<and> (\<forall>y. y \<notin> fst ` set gs \<longrightarrow> h' y = h y)
    \<and> reass_add E R (Some (fst f)) (H (fst f)) 1 i s = (if fr_pieces gs = set P then reass_finish E R i t else Inr (None, t))"
proof -
  obtain x st D where f: "f = (x, st, D)" by (cases f) auto
  obtain b where b: "frag_rx b (H x) D" "frag_hdr (H x) st (length D) ((st, D) \<noteq> last P)" "h x = Some b" using s(2) f by (auto simp: arrives_def)
  have bx: "objs s x = Some b" using b(3) s(1) by simp
  from add_step [where E = E, OF P w b(1,2) bx] m f obtain h' p t d' gs where
    g: "d' = with_frag st (length D) ((st, D) \<noteq> last P) p d" "t = with_objs h' (with_reass (ip_reass_pbufcount_update (\<lambda>c. c + 1)) (with_rd i d' s))"
      "mset gs = add_mset f (mset fs)" "waits R P first i gs d' t" "\<forall>y. y \<notin> insert x (fst ` set fs) \<longrightarrow> h' y = objs s y"
      "reass_add E R (Some x) (H x) 1 i s = (if fr_pieces gs = set P then reass_finish E R i t else Inr (None, t))"
    by (metis fst_conv snd_conv)
  have gs: "set gs = insert f (set fs)" "length gs = Suc (length fs)" using mset_cons [OF g(3)] .
  have "t = with_objs h' (with_reass (queued i d' pool (length gs)) s0)"
    unfolding g(2) s(1) gs(2) by (simp add: with_rd_def queued_upd)
  then show ?thesis using g(1,3-6) s(1) gs(1) f by (intro exI [of _ h'] exI [of _ d'] exI [of _ gs] exI [of _ t]) simp
qed

text \<open>The next fragment finds the entry of its datagram.\<close>

lemma next_known:
  assumes P: "tiles 0 P" and ar: "arrives h H hdr P g" and g: "snd g \<in> set P" "snd g \<notin> fr_pieces gs" "hdr_kept H hdr (set gs) d"
    and c: "unat (ip_reass_pbufcount (rstk s0)) + length gs + 1 \<le> 10"
    and t: "t = with_objs h (with_reass (queued i d pool (length gs)) s0)" "waits R P first i gs d t"
    and e: "e = first_hdr (H (fst g)) (fr_start g) d" "s = with_objs h (with_reass (queued i e pool (length gs)) s0)"
  shows "ip4_reass_ip E R (Some (fst g)) t = reass_add E R (Some (fst g)) (H (fst g)) 1 i s"
    "waits R P first i gs e s" "hdr_kept H hdr (insert g (set gs)) e"
proof -
  have other: "\<forall>k \<in> set gs. snd g \<noteq> snd k" using g(2) by auto
  show hk: "hdr_kept H hdr (insert g (set gs)) e"
    unfolding e(1) using hdr_kept_next [OF g(3) ar other P waitsD(7) [OF t(2)] g(1)] .
  have s: "with_rd i e t = s" unfolding t(1) e(2) queued_simps(1) ..
  show "waits R P first i gs e s"
    using waits_hdr [OF t(2), of "H (fst g)" "fr_start g"] hk s unfolding e(1) by (simp add: hdr_kept_def)
  obtain b where b: "frag_rx b (H (fst g)) (fr_data g)" "frag_hdr (H (fst g)) (fr_start g) (length (fr_data g)) (snd g \<noteq> last P)" "h (fst g) = Some b"
      "IP_ADDRESSES_AND_ID_MATCH (H (fst g)) hdr" using ar by (auto simp: arrives_def)
  have cnt: "unat (ip_reass_pbufcount (rstk t)) + 1 \<le> 10"
    using c unat_add_lem [of "ip_reass_pbufcount (rstk s0)" "of_nat (length gs)"] unfolding t(1) by (simp add: queued_def small_words)
  have mt: "IP_ADDRESSES_AND_ID_MATCH (rd_iphdr d) (H (fst g))"
    using b(4) g(3) by (auto simp: hdr_kept_def IP_ADDRESSES_AND_ID_MATCH_def)
  have bt: "objs t (fst g) = Some b" using b(3) t(1) by simp
  show "ip4_reass_ip E R (Some (fst g)) t = reass_add E R (Some (fst g)) (H (fst g)) 1 i s"
    using reass_known [OF b(1,2) bt cnt waitsD(2,1) [OF t(2)] mt waitsD(8) [OF t(2)], where E = E and R = R] s unfolding e(1) by simp
qed

lemma reass_adds:
  assumes P: "tiles 0 P" "length (concat (map snd P)) \<le> 65515"
    and m: "mset (map snd (fs @ f # rs)) = mset P" "distinct (map fst (fs @ f # rs))"
      "unat (ip_reass_pbufcount (rstk s0)) + length (fs @ f # rs) \<le> 10" "ptrs_ok R (fst ` set (fs @ f # rs))"
    and s: "s = with_objs h (with_reass (queued i d pool (length fs)) s0)" "\<forall>g \<in> set (f # rs). arrives h H hdr P g"
    and w: "waits R P (reassdatagrams (rstk s0)) i fs d s" "hdr_kept H hdr (insert f (set fs)) d"
  shows "\<exists>h' x0 xs. act_bind (reass_add E R (Some (fst f)) (H (fst f)) 1 i) (\<lambda>p. act_bind (reass_all E R (map fst rs)) (\<lambda>ps. act_return (p # ps))) s =
      Inr (replicate (length rs) None @ [Some x0], with_objs h' (with_reass (entry_freed i pool) s0))
    \<and> (\<exists>D0. (x0, 0, D0) \<in> set (fs @ f # rs)) \<and> packet h' (Some x0) xs \<and> mset xs = mset (map fst (fs @ f # rs))
    \<and> chain_data h' xs = reass_hdr (H x0) (of_nat (length (concat (map snd P)) + 20)) @ concat (map snd P)
    \<and> (\<forall>z. z \<notin> set xs \<longrightarrow> h' z = h z)"
  using m s w
proof (induction rs arbitrary: f fs d h s)
  case Nil
  have m: "snd f \<in> set P" "snd f \<notin> fr_pieces fs" "insert (snd f) (fr_pieces fs) = set P" using pieces_in [OF P(1) Nil.prems(1)] by auto
  have fuel: "length fs + 1 < chain_fuel" using Nil.prems(3) by (simp add: chain_fuel_def)
  have "fst f \<notin> fst ` set fs" "ptrs_ok R (insert (fst f) (fst ` set fs))" "arrives h H hdr P f" using Nil.prems(2,4,6) by auto
  from queue_step [where E = E, OF P m(1,2) this(1) fuel this(2) Nil.prems(5) this(3) Nil.prems(7)] obtain h' d' gs t where
    g: "mset gs = add_mset f (mset fs)" "t = with_objs h' (with_reass (queued i d' pool (length gs)) s0)"
      "waits R P (reassdatagrams (rstk s0)) i gs d' t"
      "\<forall>F. hdr_kept H hdr F d' = hdr_kept H hdr F d" "\<forall>y. y \<notin> fst ` set gs \<longrightarrow> h' y = h y"
      "reass_add E R (Some (fst f)) (H (fst f)) 1 i s = (if fr_pieces gs = set P then reass_finish E R i t else Inr (None, t))" by blast
  have gs: "set gs = insert f (set fs)" "length gs = Suc (length fs)" using mset_cons [OF g(1)] .
  have all: "fr_pieces gs = set P" "hdr_kept H hdr (set gs) d'" "P \<noteq> []" "length gs < chain_fuel" using gs m g(4) Nil.prems(8) fuel by auto
  from finish_step [where E = E, OF P all(3) g(3) all(1,2,4)] obtain h2 x0 where
    f: "reass_finish E R i t = Inr (Some x0, with_objs h2 (with_reass (reassembled i (reassdatagrams (rstk s0)) (length gs)) t))"
      "\<exists>D0. (x0, 0, D0) \<in> set gs" "packet h2 (Some x0) (map fst gs)"
      "chain_data h2 (map fst gs) = reass_hdr (H x0) (of_nat (length (concat (map snd P)) + 20)) @ concat (map snd P)"
      "\<forall>z. z \<notin> fst ` set gs \<longrightarrow> h2 z = objs t z" by blast
  have "with_objs h2 (with_reass (reassembled i (reassdatagrams (rstk s0)) (length gs)) t) = with_objs h2 (with_reass (entry_freed i pool) s0)"
    unfolding g(2) queued_simps(3) by simp
  then have "act_bind (reass_add E R (Some (fst f)) (H (fst f)) 1 i) (\<lambda>p. act_bind (reass_all E R (map fst [])) (\<lambda>ps. act_return (p # ps))) s =
      Inr ([Some x0], with_objs h2 (with_reass (entry_freed i pool) s0))"
    using g(6) all(1) f(1) by (simp add: act_bind_def act_return_def)
  moreover have "mset (map fst gs) = mset (map fst (fs @ [f]))" using g(1) by simp
  moreover have "\<forall>z. z \<notin> set (map fst gs) \<longrightarrow> h2 z = h z" using f(5) g(2,5) by simp
  ultimately show ?case using f(2-4) gs(1) by (intro exI [of _ h2] exI [of _ x0] exI [of _ "map fst gs"]) (simp del: chain_data_simps)
next
  case (Cons g rs)
  have m: "snd f \<in> set P" "snd f \<notin> fr_pieces fs" "insert (snd f) (fr_pieces fs) \<noteq> set P" using pieces_in [OF P(1) Cons.prems(1)] by auto
  have fuel: "length fs + 1 < chain_fuel" using Cons.prems(3) by (simp add: chain_fuel_def)
  have "fst f \<notin> fst ` set fs" "ptrs_ok R (insert (fst f) (fst ` set fs))" "arrives h H hdr P f" using Cons.prems(2,4,6) by (auto simp: ptrs_ok_def)
  from queue_step [where E = E, OF P m(1,2) this(1) fuel this(2) Cons.prems(5) this(3) Cons.prems(7)] obtain h1 d1 gs t where
    g: "mset gs = add_mset f (mset fs)" "t = with_objs h1 (with_reass (queued i d1 pool (length gs)) s0)"
      "waits R P (reassdatagrams (rstk s0)) i gs d1 t"
      "\<forall>F. hdr_kept H hdr F d1 = hdr_kept H hdr F d" "\<forall>y. y \<notin> fst ` set gs \<longrightarrow> h1 y = h y"
      "reass_add E R (Some (fst f)) (H (fst f)) 1 i s = (if fr_pieces gs = set P then reass_finish E R i t else Inr (None, t))" by blast
  have gs: "set gs = insert f (set fs)" "length gs = Suc (length fs)" using mset_cons [OF g(1)] .
  have none: "reass_add E R (Some (fst f)) (H (fst f)) 1 i s = Inr (None, t)" using g(6) gs(1) m(3) by simp
  have ms: "mset (map snd (gs @ g # rs)) = mset P" "mset (map fst (gs @ g # rs)) = mset (map fst (fs @ f # g # rs))" using Cons.prems(1) g(1) by (simp_all add: add_mset_commute)
  have ds: "distinct (map fst (gs @ g # rs))" using Cons.prems(2) mset_eq_imp_distinct_iff [OF ms(2)] by simp
  have ar: "\<forall>k \<in> set (g # rs). arrives h1 H hdr P k"
  proof
    fix k assume k: "k \<in> set (g # rs)"
    then have "fst k \<in> set (map fst (g # rs))" by (simp only: set_map imageI)
    moreover have "set (map fst gs) \<inter> set (map fst (g # rs)) = {}" using ds by (simp only: map_append distinct_append)
    ultimately have "fst k \<notin> fst ` set gs" unfolding set_map by blast
    then have "h1 (fst k) = h (fst k)" using g(5) by blast
    moreover have "arrives h H hdr P k" using bspec [OF Cons.prems(6), of k] k by simp
    ultimately show "arrives h1 H hdr P k" by (simp add: arrives_def)
  qed
  let ?d = "first_hdr (H (fst g)) (fr_start g) d1"
  let ?s = "with_objs h1 (with_reass (queued i ?d pool (length gs)) s0)"
  have g0: "snd g \<in> set P" "snd g \<notin> fr_pieces gs" "arrives h1 H hdr P g" "hdr_kept H hdr (set gs) d1"
      "unat (ip_reass_pbufcount (rstk s0)) + length gs + 1 \<le> 10"
    using pieces_in(1,2) [OF P(1) ms(1)] ar g(4) gs Cons.prems(3,8) by simp_all
  note nx = next_known [OF P(1) g0(3,1,2,4,5) g(2,3) refl refl]
  have run: "reass_all E R (map fst (g # rs)) t =
      act_bind (reass_add E R (Some (fst g)) (H (fst g)) 1 i) (\<lambda>p. act_bind (reass_all E R (map fst rs)) (\<lambda>ps. act_return (p # ps))) ?s"
    using nx(1) [where E = E] by (simp add: act_bind_def)
  have len: "unat (ip_reass_pbufcount (rstk s0)) + length (gs @ g # rs) \<le> 10" "ptrs_ok R (fst ` set (gs @ g # rs))"
    using Cons.prems(3,4) gs by (simp_all add: insert_commute)
  from Cons.IH [OF ms(1) ds len refl ar nx(2,3)] obtain h' x0 xs where
    f: "reass_all E R (map fst (g # rs)) t = Inr (replicate (length rs) None @ [Some x0], with_objs h' (with_reass (entry_freed i pool) s0))"
      "\<exists>D0. (x0, 0, D0) \<in> set (gs @ g # rs)" "packet h' (Some x0) xs" "mset xs = mset (map fst (gs @ g # rs))"
      "chain_data h' xs = reass_hdr (H x0) (of_nat (length (concat (map snd P)) + 20)) @ concat (map snd P)" "\<forall>z. z \<notin> set xs \<longrightarrow> h' z = h1 z"
    unfolding run by blast
  have "set xs = fst ` set (gs @ g # rs)" using f(4) by (metis set_map set_mset_mset)
  then have "\<forall>z. z \<notin> set xs \<longrightarrow> h' z = h z" using f(6) g(5) by (simp add: image_Un)
  moreover have "act_bind (reass_add E R (Some (fst f)) (H (fst f)) 1 i) (\<lambda>p. act_bind (reass_all E R (map fst (g # rs))) (\<lambda>ps. act_return (p # ps))) s =
      Inr (replicate (length (g # rs)) None @ [Some x0], with_objs h' (with_reass (entry_freed i pool) s0))"
    unfolding act_bind_def none sum.case prod.case f(1) by (simp add: act_return_def)
  moreover have "\<exists>D0. (x0, 0, D0) \<in> set (fs @ f # g # rs)" using f(2) gs(1) by auto
  ultimately show ?case using f(3-5) unfolding ms(2) by blast
qed

section \<open>Every order of arrival\<close>

text \<open>The list of the datagrams and the pool of their entries.\<close>

definition reass_ok :: "'r reass_stack \<Rightarrow> nat list \<Rightarrow> bool" where
  "reass_ok r js \<longleftrightarrow> rd_queue (rd_obj r) (reassdatagrams r) js \<and> distinct js
     \<and> set js \<subseteq> {..<memp_num (pool_REASSDATA r)} \<and> memp_avail (pool_REASSDATA r) ({..<memp_num (pool_REASSDATA r)} - set js)"

lemma rd_queue_other: "\<forall>j \<in> set js. f j = g j \<Longrightarrow> rd_queue f p js = rd_queue g p js"
  by (induction js arbitrary: p) auto

lemma reass_ok_length: "reass_ok r js \<Longrightarrow> length js \<le> memp_num (pool_REASSDATA r)"
  using card_mono [of "{..<memp_num (pool_REASSDATA r)}" "set js"] by (simp add: reass_ok_def distinct_card)

lemma entry_for_new:
  assumes "reass_ok r js" "length js < memp_num (pool_REASSDATA r)"
  obtains i pool where "do_memp_malloc_pool (pool_REASSDATA r) = (Some i, pool)" "i \<notin> set js" "reass_ok (entry_freed i pool r) js"
proof -
  let ?F = "{..<memp_num (pool_REASSDATA r)} - set js"
  have av: "memp_avail (pool_REASSDATA r) ?F" using assms(1) by (simp add: reass_ok_def)
  have "?F \<noteq> {}"
  proof
    assume "?F = {}"
    then have "card {..<memp_num (pool_REASSDATA r)} \<le> card (set js)" by (intro card_mono) auto
    then show False using assms(2) card_length [of js] by simp
  qed
  then obtain i pool where i: "do_memp_malloc_pool (pool_REASSDATA r) = (Some i, pool)" "i \<in> ?F" "memp_avail pool (?F - {i})"
      "memp_num pool = memp_num (pool_REASSDATA r)"
    using memp.malloc_cases [OF av] by metis
  have "memp_num (do_memp_free_pool pool i) = memp_num (pool_REASSDATA r)" using memp.free_law [OF i(3)] i(2,4) by simp
  moreover have "rd_queue ((rd_obj r)(i := None)) p js = rd_queue (rd_obj r) p js" for p using i(2) by (intro rd_queue_other) auto
  ultimately have "reass_ok (entry_freed i pool r) js"
    using assms(1) memp.malloc_free_restores [OF av i(1)] by (simp add: reass_ok_def entry_freed_def)
  then show ?thesis using that [of i pool] i(1,2) by simp
qed

lemma first_new:
  assumes b: "frag_rx nb hdr D" "frag_hdr hdr st (length D) mf" "objs s x = Some nb" "unat (ip_reass_pbufcount (rstk s)) + 1 \<le> 10"
    and js: "reass_ok (rstk s) js" "\<forall>j \<in> set js. \<forall>d. rd_obj (rstk s) j = Some d \<longrightarrow> \<not> IP_ADDRESSES_AND_ID_MATCH (rd_iphdr d) hdr"
    and m: "do_memp_malloc_pool (pool_REASSDATA (rstk s)) = (Some i, pool)"
  shows "ip4_reass_ip E R (Some x) s = reass_add E R (Some x) hdr 1 i (with_objs (objs s) (with_reass (queued i (new_rd (reassdatagrams (rstk s)) hdr) pool 0) s))"
proof -
  have "with_reass (\<lambda>r. r\<lparr>pool_REASSDATA := pool, rd_obj := (rd_obj r)(i \<mapsto> d), reassdatagrams := Some i\<rparr>) s = with_reass (queued i d pool 0) s" for d
    by (simp add: with_reass_def with_ip_def queued_def)
  moreover have "with_objs (objs s) (with_reass f s) = with_reass f s" for f
    using with_objs_simps(4) [of "with_reass f s"] by simp
  ultimately show ?thesis
    using reass_new [OF b _ reass_ok_length [OF js(1)] js(2) m] js(1) by (simp add: reass_ok_def)
qed

lemma datagram_reassembled:
  assumes P: "tiles 0 P" "P \<noteq> []" "length (concat (map snd P)) \<le> 65515" and fs: "mset (map snd fs) = mset P" "distinct (map fst fs)"
      "\<forall>f \<in> set fs. arrives (objs s) H hdr P f" "ptrs_ok R (fst ` set fs)"
    and room: "unat (ip_reass_pbufcount (rstk s)) + length fs \<le> 10" "length js < memp_num (pool_REASSDATA (rstk s))"
    and js: "reass_ok (rstk s) js" "\<forall>j \<in> set js. \<forall>d. rd_obj (rstk s) j = Some d \<longrightarrow> \<not> IP_ADDRESSES_AND_ID_MATCH (rd_iphdr d) hdr"
  shows "\<exists>h r x0 xs. reass_all E R (map fst fs) s = Inr (replicate (length fs - 1) None @ [Some x0], with_objs h (with_reass (\<lambda>_. r) s))
    \<and> (\<exists>D0. (x0, 0, D0) \<in> set fs) \<and> packet h (Some x0) xs \<and> mset xs = mset (map fst fs)
    \<and> chain_data h xs = reass_hdr (H x0) (of_nat (length (concat (map snd P)) + 20)) @ concat (map snd P)
    \<and> (\<forall>z. z \<notin> set xs \<longrightarrow> h z = objs s z)
    \<and> reass_ok r js \<and> (\<forall>j \<in> set js. rd_obj r j = rd_obj (rstk s) j) \<and> ip_reass_pbufcount r = ip_reass_pbufcount (rstk s)"
proof -
  obtain f rs where f: "fs = f # rs" using fs(1) P(2) by (cases fs) auto
  obtain b where b: "frag_rx b (H (fst f)) (fr_data f)" "frag_hdr (H (fst f)) (fr_start f) (length (fr_data f)) (snd f \<noteq> last P)" "objs s (fst f) = Some b"
      "IP_ADDRESSES_AND_ID_MATCH (H (fst f)) hdr" using fs(3) f by (auto simp: arrives_def)
  have nm: "\<forall>j \<in> set js. \<forall>d. rd_obj (rstk s) j = Some d \<longrightarrow> \<not> IP_ADDRESSES_AND_ID_MATCH (rd_iphdr d) (H (fst f))"
    using js(2) b(4) by (auto simp: IP_ADDRESSES_AND_ID_MATCH_def)
  have c1: "unat (ip_reass_pbufcount (rstk s)) + 1 \<le> 10" using room(1) f by simp
  obtain i pool where i: "do_memp_malloc_pool (pool_REASSDATA (rstk s)) = (Some i, pool)" "i \<notin> set js" "reass_ok (entry_freed i pool (rstk s)) js"
    using entry_for_new [OF js(1) room(2)] by blast
  let ?d = "new_rd (reassdatagrams (rstk s)) (H (fst f))"
  let ?s = "with_objs (objs s) (with_reass (queued i ?d pool (length ([] :: frag list))) s)"
  have w: "waits R P (reassdatagrams (rstk s)) i [] ?d ?s" "hdr_kept H hdr (insert f (set [])) ?d"
    using b(2,4) by (auto simp: waits_def new_rd_def queued_def in_order_def hdr_kept_def frag_hdr_def)
  have "reass_all E R (map fst fs) s = act_bind (reass_add E R (Some (fst f)) (H (fst f)) 1 i)
      (\<lambda>p. act_bind (reass_all E R (map fst rs)) (\<lambda>ps. act_return (p # ps))) ?s"
    using first_new [OF b(1-3) c1 js(1) nm i(1), where E = E and R = R] f by (simp add: act_bind_def)
  moreover have "mset (map snd ([] @ f # rs)) = mset P" "distinct (map fst ([] @ f # rs))" "ptrs_ok R (fst ` set ([] @ f # rs))"
      "unat (ip_reass_pbufcount (rstk s)) + length ([] @ f # rs) \<le> 10" "\<forall>g \<in> set (f # rs). arrives (objs s) H hdr P g"
    using fs room(1) f by simp_all
  note ra = reass_adds [OF P(1,3) this(1,2,4,3) refl this(5) w, where E = E]
  ultimately obtain h x0 xs where g: "reass_all E R (map fst fs) s = Inr (replicate (length rs) None @ [Some x0], with_objs h (with_reass (entry_freed i pool) s))"
      "\<exists>D0. (x0, 0, D0) \<in> set fs" "packet h (Some x0) xs" "mset xs = mset (map fst fs)"
      "chain_data h xs = reass_hdr (H x0) (of_nat (length (concat (map snd P)) + 20)) @ concat (map snd P)"
      "\<forall>z. z \<notin> set xs \<longrightarrow> h z = objs s z"
    using f by auto
  have "with_reass (entry_freed i pool) s = with_reass (\<lambda>_. entry_freed i pool (rstk s)) s" by (simp add: with_reass_def with_ip_def)
  moreover have "\<forall>j \<in> set js. rd_obj (entry_freed i pool (rstk s)) j = rd_obj (rstk s) j" "ip_reass_pbufcount (entry_freed i pool (rstk s)) = ip_reass_pbufcount (rstk s)"
    using i(2) by (auto simp: entry_freed_def)
  moreover have "length fs - 1 = length rs" using f by simp
  ultimately show ?thesis using g i(3) by metis
qed

section \<open>A fragment that overlaps\<close>

lemma insert_no_overlap:
  "frag_insert n fs = Some gs \<Longrightarrow> in_order fs \<Longrightarrow> f \<in> set fs \<Longrightarrow> fr_end n \<le> fr_start f \<or> fr_end f \<le> fr_start n"
proof (induction fs arbitrary: gs)
  case (Cons g fs)
  have g: "\<forall>k \<in> set fs. fr_start g < fr_start k" "in_order fs" using Cons.prems(2) by (auto simp: in_order_def)
  show ?case
  proof (cases "fr_start n < fr_start g")
    case True
    then have "fr_end n \<le> fr_start g" using Cons.prems(1) by (auto split: if_splits)
    then show ?thesis using Cons.prems(3) g(1) by fastforce
  next
    case False
    then have "fr_end g \<le> fr_start n" "\<exists>hs. frag_insert n fs = Some hs" using Cons.prems(1) by (auto split: if_splits)
    then show ?thesis using Cons.IH g(2) Cons.prems(3) by auto
  qed
qed simp

lemma refused_run:
  assumes b: "frag_rx nb hdr D" "frag_hdr hdr st (length D) mf" "st + length D \<le> 65515" "objs s (PoolPbuf e) = Some nb"
    and q: "frag_seg R (objs s) (rd_p d) fs None" "distinct (map fst fs)" "PoolPbuf e \<notin> fst ` set fs" "length fs + 1 < chain_fuel"
    and d: "rd_obj (rstk s) i = Some d" and ptr: "ptrs_ok R (insert (PoolPbuf e) (fst ` set fs))"
    and ins: "frag_insert (PoolPbuf e, st, D) fs = None" "fs \<noteq> []"
  shows "reass_add E R (Some (PoolPbuf e)) hdr n i s = Inr (None, rx_freed e s)"
proof -
  have bd: "st + length D < 65536" using b(3) by simp
  obtain nb' where c: "ip_reass_chain_frag_into_datagram_and_validate R i (Some (PoolPbuf e)) (\<not> mf) s =
      Inr (IP_REASS_VALIDATE_PBUF_DROPPED, with_objs ((objs s)(PoolPbuf e \<mapsto> nb')) s)" "rx_buf nb'"
    using chain_frag_run [OF b(1,2) bd b(4) q d refl ptr, of "\<not> mf"] ins(1) by auto
  have p: "rd_p d \<noteq> None" using q(1) ins(2) by (cases fs) auto
  let ?t = "with_objs ((objs s)(PoolPbuf e \<mapsto> nb')) s"
  have "rx_freed e ?t = rx_freed e s" by (simp add: rx_freed_def with_objs_def)
  then have "reass_drop_ipr E (Some (PoolPbuf e)) i ?t = Inr (None, rx_freed e s)"
    using run_free [of ?t e nb'] c(2) p d by (auto simp: reass_drop_ipr_def reass_drop_def act_bind_def act_return_def)
  then show ?thesis
    unfolding reass_add_chain [OF b(2,3)] act_bind_def [of "ip_reass_chain_frag_into_datagram_and_validate R i (Some (PoolPbuf e)) (\<not> mf)"] c(1) sum.case prod.case
    by simp
qed

end
