(* ===== verification/Lwip_ReassProps.thy ===== *)
theory Lwip_ReassProps
  imports Lwip_ReassSteps Lwip_IpProps
begin

text \<open>What reassembly promises: the fragments of a datagram give the datagram in whatever order they arrive, and a fragment that overlaps
  with others is refused.\<close>

section \<open>Properties\<close>

text \<open>The header of a datagram of \<open>n\<close> bytes without fragmentation: what the first fragment had in it, with the length, no offset, no flag and a
  good checksum.\<close>

definition whole_header :: "u8 list \<Rightarrow> nat \<Rightarrow> u8 list \<Rightarrow> bool" where
  "whole_header first n hdr \<longleftrightarrow> length hdr = 20 \<and> be16 hdr 2 = n \<and> be16 hdr 6 = 0 \<and> rfc1071 hdr = 0
     \<and> (\<forall>j < 20. j \<notin> {2, 3, 6, 7, 10, 11} \<longrightarrow> hdr ! j = first ! j)"

text \<open>C27. A datagram in fragments is put together whatever the order of arrival: the pieces \<open>P\<close> follow each other from 0 to the end of the
  data, each of them waits in a buffer of its own with a header that says its place (and more fragments for all but the last), \<open>fs\<close> lists
  the buffers in any order, and there is room for the buffers and for an entry of the list.  Then \<^verbatim>\<open>ip4_reass\<close> gives nothing for all the
  buffers but the last one to arrive, and there the packet: a chain of exactly these buffers with the buffer of the first piece in front, its
  bytes the header of the first fragment with the length of the whole and the data of \<open>P\<close> in order.  The datagrams that
  waited before wait as they did, the entry is free again, the count is the old one, and no other buffer has changed.\<close>

theorem fragments_become_datagram:
  assumes "tiles 0 P" "P \<noteq> []" "length (concat (map snd P)) \<le> 65515" "mset (map snd fs) = mset P" "distinct (map fst fs)"
    and "\<forall>f \<in> set fs. arrives (objs s) H hdr P f" "ptrs_ok R (fst ` set fs)"
    and "unat (ip_reass_pbufcount (rstk s)) + length fs \<le> 10" "length js < memp_num (pool_REASSDATA (rstk s))" "reass_ok (rstk s) js"
    and "\<forall>j \<in> set js. \<forall>d. rd_obj (rstk s) j = Some d \<longrightarrow> \<not> IP_ADDRESSES_AND_ID_MATCH (rd_iphdr d) hdr"
  shows "\<exists>h r x0 xs hd0. reass_all E R (map fst fs) s = Inr (replicate (length fs - 1) None @ [Some x0], with_objs h (with_reass (\<lambda>_. r) s))
    \<and> (\<exists>D0. (x0, 0, D0) \<in> set fs) \<and> packet h (Some x0) xs \<and> mset xs = mset (map fst fs)
    \<and> chain_data h xs = hd0 @ concat (map snd P) \<and> whole_header (H x0) (20 + length (concat (map snd P))) hd0
    \<and> (\<forall>z. z \<notin> set xs \<longrightarrow> h z = objs s z)
    \<and> reass_ok r js \<and> (\<forall>j \<in> set js. rd_obj r j = rd_obj (rstk s) j) \<and> ip_reass_pbufcount r = ip_reass_pbufcount (rstk s)"
proof -
  obtain h r x0 xs where r: "reass_all E R (map fst fs) s = Inr (replicate (length fs - 1) None @ [Some x0], with_objs h (with_reass (\<lambda>_. r) s))"
    "\<exists>D0. (x0, 0, D0) \<in> set fs" "packet h (Some x0) xs" "mset xs = mset (map fst fs)"
    "chain_data h xs = reass_hdr (H x0) (of_nat (length (concat (map snd P)) + 20)) @ concat (map snd P)"
    "\<forall>z. z \<notin> set xs \<longrightarrow> h z = objs s z"
    "reass_ok r js" "\<forall>j \<in> set js. rd_obj r j = rd_obj (rstk s) j" "ip_reass_pbufcount r = ip_reass_pbufcount (rstk s)"
    using datagram_reassembled [OF assms, where E = E] by blast
  have "length (H x0) = 20" using r(2) assms(6) by (auto simp: arrives_def frag_hdr_def)
  from reass_hdr_ok [OF this] reass_hdr_length(2) [OF this]
  have "whole_header (H x0) (20 + length (concat (map snd P))) (reass_hdr (H x0) (of_nat (length (concat (map snd P)) + 20)))"
    using assms(3) by (simp add: whole_header_def small_words del: of_nat_add)
  then show ?thesis using r by blast
qed

text \<open>The search finds a datagram wherever it is in the list.\<close>

lemma match_found:
  assumes "rd_queue (rd_obj (rstk s)) p (js @ i # ks)" "rd_obj (rstk s) i = Some d" "IP_ADDRESSES_AND_ID_MATCH (rd_iphdr d) hdr"
    "\<forall>j \<in> set js. \<forall>d. rd_obj (rstk s) j = Some d \<longrightarrow> \<not> IP_ADDRESSES_AND_ID_MATCH (rd_iphdr d) hdr" "length js < fuel"
  shows "match_loop hdr fuel p s = Inr (Some i, s)"
  using assms
proof (induction js arbitrary: p fuel)
  case Nil
  then show ?case by (cases fuel) (auto simp: act_bind_def act_return_def)
next
  case (Cons j js)
  then obtain k d' where "fuel = Suc k" "p = Some j" "rd_obj (rstk s) j = Some d'" "rd_queue (rd_obj (rstk s)) (rd_next d') (js @ i # ks)"
    by (cases fuel) auto
  then show ?case using Cons.IH [of "rd_next d'" k] Cons.prems(2-5) by (simp add: act_bind_def)
qed

lemma reass_known_anywhere:
  assumes b: "frag_rx nb hdr D" "frag_hdr hdr st (length D) mf" "objs s x = Some nb"
    and c: "unat (ip_reass_pbufcount (rstk s)) + 1 \<le> 10"
    and q: "reass_ok (rstk s) (js @ i # ks)"
      "\<forall>j \<in> set js. \<forall>d. rd_obj (rstk s) j = Some d \<longrightarrow> \<not> IP_ADDRESSES_AND_ID_MATCH (rd_iphdr d) hdr"
    and i: "rd_obj (rstk s) i = Some d" "IP_ADDRESSES_AND_ID_MATCH (rd_iphdr d) hdr" "length (rd_iphdr d) = 20"
  shows "ip4_reass_ip E R (Some x) s = reass_add E R (Some x) hdr 1 i (with_rd i (first_hdr hdr st d) s)"
proof -
  have off: "lwip_htons (IPH_OFFSET h) AND IP_OFFMASK = 0 \<longleftrightarrow> be16 h 6 mod 8192 = 0" if "length h = 20" for h
    using offset_words(2) [OF that refl] by (simp add: word_unat_eq_iff)
  have st: "be16 hdr 6 mod 8192 = 0 \<longleftrightarrow> st = 0" "length hdr = 20" using b(2) by (auto simp: frag_hdr_def)
  have "card (set (js @ i # ks)) \<le> card {..<memp_num (pool_REASSDATA (rstk s))}"
    using q(1) by (intro card_mono) (auto simp: reass_ok_def)
  moreover have "card (set (js @ i # ks)) = length (js @ i # ks)" using q(1) by (intro distinct_card) (simp add: reass_ok_def)
  ultimately have "length js < Suc (memp_num (pool_REASSDATA (rstk s)))" by simp
  then have "match_loop hdr (Suc (memp_num (pool_REASSDATA (rstk s)))) (reassdatagrams (rstk s)) s = Inr (Some i, s)"
    using q i by (intro match_found) (auto simp: reass_ok_def)
  then show ?thesis
    unfolding reass_search [OF b c] using i off [OF st(2)] off [OF i(3)] st(1)
    by (auto simp: act_bind_def act_return_def first_hdr_def with_rd_same simp del: match_loop.simps)
qed

text \<open>C28. A fragment that overlaps with one that waits, a repeated one above all, is refused, wherever its datagram is in the list of
  the waiting ones: its buffer is released, and the fragments of the datagram, their buffers, all other datagrams and the count are as
  before.  The entry of the datagram keeps everything but its header, which is replaced by that of the new fragment when the new one
  starts at 0 and the kept header is that of a later fragment.\<close>

theorem overlapping_fragment_is_refused:
  assumes "frag_rx nb hdr D" "frag_hdr hdr st (length D) mf" "st + length D \<le> 65515" "objs s (PoolPbuf e) = Some nb"
    and "unat (ip_reass_pbufcount (rstk s)) + 1 \<le> 10" "reass_ok (rstk s) (js @ i # ks)"
    and "\<forall>j \<in> set js. \<forall>d. rd_obj (rstk s) j = Some d \<longrightarrow> \<not> IP_ADDRESSES_AND_ID_MATCH (rd_iphdr d) hdr"
    and "rd_obj (rstk s) i = Some d" "IP_ADDRESSES_AND_ID_MATCH (rd_iphdr d) hdr" "length (rd_iphdr d) = 20"
    and "frag_seg R (objs s) (rd_p d) fs None" "distinct (map fst fs)" "in_order fs" "PoolPbuf e \<notin> fst ` set fs" "length fs + 1 < chain_fuel"
    and "ptrs_ok R (insert (PoolPbuf e) (fst ` set fs))" "f \<in> set fs" "st < fr_end f" "fr_start f < st + length D"
  shows "ip4_reass_ip E R (Some (PoolPbuf e)) s = Inr (None, rx_freed e (with_rd i
    (if st = 0 \<and> be16 (rd_iphdr d) 6 mod 8192 \<noteq> 0 then d\<lparr>rd_iphdr := hdr\<rparr> else d) s))"
proof -
  have "frag_insert (PoolPbuf e, st, D) fs = None"
    using insert_no_overlap [of "(PoolPbuf e, st, D)" fs _ f] assms(13,17-19) by (cases "frag_insert (PoolPbuf e, st, D) fs") auto
  moreover have "rd_p (first_hdr hdr st d) = rd_p d" "fs \<noteq> []" using assms(17) by (auto simp: first_hdr_def)
  ultimately have "ip4_reass_ip E R (Some (PoolPbuf e)) s = Inr (None, rx_freed e (with_rd i (first_hdr hdr st d) s))"
    unfolding reass_known_anywhere [OF assms(1,2,4-10)]
    using assms(4,11) by (intro refused_run [OF assms(1-3) _ _ assms(12,14,15) _ assms(16)]) simp_all
  then show ?thesis by (simp add: first_hdr_def)
qed

section \<open>A datagram in two fragments\<close>

definition demo_repr :: pbuf_repr where
  "demo_repr = \<lparr>ptr_word = (\<lambda>p. case p of Some (PoolPbuf e) \<Rightarrow> of_nat e + 1 | _ \<Rightarrow> 0),
     word_ptr = (\<lambda>w. if w = 0 then None else Some (PoolPbuf (unat (w - 1))))\<rparr>"

definition frag_first :: "u8 list" where
  "frag_first = [0x45, 0, 0, 0x1C, 0, 5, 0x20, 0, 0x40, 17, 0, 0, 0xC0, 0xA8, 7, 9, 0xC0, 0xA8, 7, 1]"

definition frag_second :: "u8 list" where
  "frag_second = [0x45, 0, 0, 0x17, 0, 5, 0, 1, 0x40, 17, 0, 0, 0xC0, 0xA8, 7, 9, 0xC0, 0xA8, 7, 1]"

definition frag_app :: "pheap \<Rightarrow> unit reass_stack \<Rightarrow> (unit, unit reass_stack ip_stack arp_stack, dma_channel set) app" where
  "frag_app h r = \<lparr>glIsApplnActive = True, glDMARxCount = 0, glDMATxCount = 0, glDataTransStarted = False,
     StandbyModeEnable = False, TriggerStandbyMode = False, glForceLinkU2 = False, glEp0StatCount = 0,
     gl_setupdat0 = 0, gl_setupdat1 = 0, gl_UsbLogBuffer = 0x40060000, glSrcEpFlush = False,
     notifyBuf = \<lparr>buf_buffer = 0, buf_count = 0, buf_size = 0, buf_status = 0\<rparr>,
     outBuf = \<lparr>buf_buffer = 0, buf_count = 0, buf_size = 0, buf_status = 0\<rparr>, received_frame = None,
     pbufs = demo_chain\<lparr>pb_obj := h\<rparr>,
     net = \<lparr>netif_data = arp_netif, netif_default = True,
       stack = \<lparr>arp_table = replicate 10 arp_entry_zero, etharp_cached_entry = 0,
         stack_rest = \<lparr>ip_id = 7, ip_data = no_ip_data, ip_rest = r\<rparr>\<rparr>\<rparr>, fx3 = demo_fx3\<rparr>"

definition frag_fw :: "pheap \<Rightarrow> unit reass_stack \<Rightarrow> (unit, unit reass_stack ip_stack arp_stack, dma_channel set) fw" where
  "frag_fw h r = \<lparr>ncm_if = ncm_ready, world = frag_app h r\<rparr>"

definition frag_env :: "(unit, unit reass_stack, dma_channel set) ip_env" where
  "frag_env = \<lparr>ip_mem = demo_env, ip_at = (\<lambda>_. 0), ip_netif_output = (\<lambda>_ _. act_return ERR_OK), ip4_frag = (\<lambda>_ _ _. act_return ERR_OK),
     ip4_reass = (\<lambda>_. act_return None), udp_input = (\<lambda>_ _. act_return ()), tcp_input = (\<lambda>_ _. act_return ())\<rparr>"

definition no_reass :: "unit reass_stack" where
  "no_reass = \<lparr>rd_obj = (\<lambda>_. None), reassdatagrams = None, ip_reass_pbufcount = 0, pool_REASSDATA = demo_pool, reass_rest = ()\<rparr>"

definition data_first :: "u8 list" where "data_first = [1, 2, 3, 4, 5, 6, 7, 8]"
definition data_second :: "u8 list" where "data_second = [9, 10, 11]"

definition frag_heap :: pheap where
  "frag_heap = [PoolPbuf 3 \<mapsto> ip_rx_buf (frag_first @ data_first), PoolPbuf 2 \<mapsto> ip_rx_buf (frag_second @ data_second)]"

lemma demo_lengths [simp]: "length data_first = 8" "length data_second = 3" "length frag_first = 20" "length frag_second = 20"
  by (simp_all add: data_first_def data_second_def frag_first_def frag_second_def)

lemma frag_fw_parts [simp]: "objs (frag_fw h r) = h" "rstk (frag_fw h r) = r"
  by (simp_all add: frag_fw_def frag_app_def)

lemma demo_frag_hdr: "frag_hdr frag_first 0 8 True" "frag_hdr frag_second 8 3 False" "IP_ADDRESSES_AND_ID_MATCH frag_second frag_first"
    "IP_ADDRESSES_AND_ID_MATCH frag_first frag_first"
  by (simp_all add: frag_hdr_def frag_first_def frag_second_def be16_def ip_hlen_def IP_ADDRESSES_AND_ID_MATCH_def iph_src_def iph_dest_def
      word_at_def half_at_def rd32_def rd16_def)

lemma demo_frag_rx: "length hdr = 20 \<Longrightarrow> length D < 60000 \<Longrightarrow> frag_rx (ip_rx_buf (hdr @ D)) hdr D"
  using ip_fw_rx [of "hdr @ D"] by (simp add: frag_rx_def) (simp add: ip_rx_buf_def)

lemma demo_ptrs: "ptrs_ok demo_repr {PoolPbuf 2, PoolPbuf 3}"
  by (simp add: ptrs_ok_def demo_repr_def)

lemma demo_reass_ok: "reass_ok no_reass []"
proof -
  have "{..<4} = {0, 1, 2, 3 :: nat}" by auto
  then show ?thesis using demo_pool_avail by (simp add: reass_ok_def no_reass_def)
qed

theorem fragments_become_datagram_witness:
  "\<exists>h r xs hd0. reass_all frag_env demo_repr [PoolPbuf 2, PoolPbuf 3] (frag_fw frag_heap no_reass) =
      Inr ([None, Some (PoolPbuf 3)], with_objs h (with_reass (\<lambda>_. r) (frag_fw frag_heap no_reass)))
    \<and> packet h (Some (PoolPbuf 3)) xs \<and> chain_data h xs = hd0 @ [1, 2, 3, 4, 5, 6, 7, 8, 9, 10, 11] \<and> whole_header frag_first 31 hd0"
proof -
  let ?H = "\<lambda>x. if x = PoolPbuf 3 then frag_first else frag_second"
  let ?P = "[(0, data_first), (8, data_second)]" and ?fs = "[(PoolPbuf 2, 8, data_second), (PoolPbuf 3, 0, data_first)]"
  have ne: "data_first \<noteq> data_second" "data_first \<noteq> []" "data_second \<noteq> []" by (auto simp: data_first_def data_second_def)
  have ar: "\<forall>f \<in> set ?fs. arrives (objs (frag_fw frag_heap no_reass)) ?H frag_first ?P f"
    using demo_frag_hdr demo_frag_rx [of frag_first data_first] demo_frag_rx [of frag_second data_second]
    by (simp add: arrives_def frag_heap_def)
  have all: "tiles 0 ?P" "?P \<noteq> []" "length (concat (map snd ?P)) \<le> 65515" "mset (map snd ?fs) = mset ?P" "distinct (map fst ?fs)"
    using ne by (simp_all add: add_mset_commute)
  have room: "unat (ip_reass_pbufcount (rstk (frag_fw frag_heap no_reass))) + length ?fs \<le> 10"
      "length [] < memp_num (pool_REASSDATA (rstk (frag_fw frag_heap no_reass)))" "reass_ok (rstk (frag_fw frag_heap no_reass)) []"
      "\<forall>j \<in> set []. \<forall>d. rd_obj (rstk (frag_fw frag_heap no_reass)) j = Some d \<longrightarrow> \<not> IP_ADDRESSES_AND_ID_MATCH (rd_iphdr d) frag_first"
    using demo_reass_ok demo_pool_avail(2) by (simp_all add: no_reass_def)
  have "ptrs_ok demo_repr (fst ` set ?fs)" using demo_ptrs by simp
  from fragments_become_datagram [where E = frag_env, OF all ar this room] show ?thesis
    by (auto simp: data_first_def data_second_def simp del: chain_data_simps)
qed

text \<open>The first fragment waits behind another datagram and comes again.\<close>

definition wait_entry :: ip_reassdata where
  "wait_entry = (new_rd None frag_first)\<lparr>rd_p := Some (PoolPbuf 2)\<rparr>"

definition wait_stack :: "unit reass_stack" where
  "wait_stack = no_reass\<lparr>rd_obj := [2 \<mapsto> wait_entry, 3 \<mapsto> new_rd (Some 2) (frag_first[5 := 6])], reassdatagrams := Some 3,
     ip_reass_pbufcount := 1, pool_REASSDATA := pool_PBUF_POOL demo_chain\<rparr>"

definition wait_heap :: pheap where
  "wait_heap = [PoolPbuf 3 \<mapsto> ip_rx_buf (frag_first @ data_first),
     PoolPbuf 2 \<mapsto> helper_in demo_repr 0 data_first (ip_rx_buf (frag_first @ data_first))]"

lemma wait_stack_ok: "reass_ok wait_stack ([3] @ 2 # [])"
    "\<forall>j \<in> set [3]. \<forall>d. rd_obj wait_stack j = Some d \<longrightarrow> \<not> IP_ADDRESSES_AND_ID_MATCH (rd_iphdr d) frag_first"
proof -
  have "{..<4} - {3, 2} = {0, 1 :: nat}" by auto
  then show "reass_ok wait_stack ([3] @ 2 # [])"
    using demo_chain_avail demo_chain_num by (simp add: reass_ok_def wait_stack_def no_reass_def new_rd_def wait_entry_def)
  show "\<forall>j \<in> set [3]. \<forall>d. rd_obj wait_stack j = Some d \<longrightarrow> \<not> IP_ADDRESSES_AND_ID_MATCH (rd_iphdr d) frag_first"
    by (simp add: wait_stack_def new_rd_def IP_ADDRESSES_AND_ID_MATCH_def frag_first_def half_at_def rd16_def)
qed

theorem overlapping_fragment_is_refused_witness:
  "ip4_reass_ip frag_env demo_repr (Some (PoolPbuf 3)) (frag_fw wait_heap wait_stack) =
     Inr (None, rx_freed 3 (with_rd 2 wait_entry (frag_fw wait_heap wait_stack)))"
proof -
  have rx: "frag_rx (ip_rx_buf (frag_first @ data_first)) frag_first data_first" by (rule demo_frag_rx) simp_all
  have "frag_at demo_repr (helper_in demo_repr 0 data_first (ip_rx_buf (frag_first @ data_first))) None 0 data_first"
    by (rule helper_frag_at [OF rx _ demo_ptrs]) simp
  then have seg: "frag_seg demo_repr (objs (frag_fw wait_heap wait_stack)) (rd_p wait_entry) [(PoolPbuf 2, 0, data_first)] None"
    by (auto simp: wait_heap_def wait_entry_def)
  have ptr: "ptrs_ok demo_repr (insert (PoolPbuf 3) (fst ` set [(PoolPbuf 2, 0 :: nat, data_first)]))" using demo_ptrs by (simp add: insert_commute)
  have e: "rd_obj (rstk (frag_fw wait_heap wait_stack)) 2 = Some wait_entry" "rd_iphdr wait_entry = frag_first"
    "unat (ip_reass_pbufcount (rstk (frag_fw wait_heap wait_stack))) + 1 \<le> 10"
    "objs (frag_fw wait_heap wait_stack) (PoolPbuf 3) = Some (ip_rx_buf (frag_first @ data_first))"
    by (simp_all add: wait_stack_def wait_entry_def new_rd_def wait_heap_def)
  have z: "be16 frag_first 6 mod 8192 = 0" by (simp add: be16_def frag_first_def)
  from overlapping_fragment_is_refused [where E = frag_env and mf = True and s = "frag_fw wait_heap wait_stack" and e = 3 and i = 2 and js = "[3]"
      and ks = "[]" and st = 0 and f = "(PoolPbuf 2, 0, data_first)", OF rx _ _ e(4,3) _ _ e(1) _ _ seg _ _ _ _ ptr]
  show ?thesis
    using demo_frag_hdr wait_stack_ok by (simp add: e(2) z in_order_def chain_fuel_def)
qed

end
