(* ===== verification/Spec2Isabelle.thy ===== *)
theory Spec2Isabelle
  imports Ncm_Props Ncm_Standalone Usb_Desc Fx3_DmaProps Lwip_PbufProps Fx3_RxProps Lwip_Send Lwip_ChksumProps Lwip_AddrText Lwip_RamPbuf
    Lwip_TimerProps Lwip_EchoNcm Lwip_ReassProps
begin

text \<open>
  A verification of the FX3 NCM firmware: a USB network adapter on the Cypress FX3, with a CDC-NCM class
  driver, the support code of the FX3 library and the lwIP network stack.

  \<^bold>\<open>The program and its model.\<close>  The host sees a USB device that carries Ethernet frames in NCM transfer
  blocks (NTBs).  Paths are relative to src/.

  \<^item> The \<^emph>\<open>NCM driver\<close> (lib/ncm) collects datagrams of the network stack into NTBs and takes received NTBs
    apart.  Ntb_Ring: the lists of block pointers (struct.c); Ntb_Layout: the wire format (ncm.h);
    Ncm_State: the driver state \<^verbatim>\<open>ncm_if\<close> and the constant objects (struct.c, struct.h); Ncm_Tx, Ncm_Rx,
    Ncm_Net: the functions of tx.c, rx.c and net.c.  The functions of usb.h and the callbacks of net.h that
    the driver calls are the record \<^typ>\<open>('w, 'd) ncm_env\<close>, which the application fills.
  \<^item> The \<^emph>\<open>stand-alone copy\<close> of the driver (directory ncm): Ncm_Standalone, its tx.c and net.c; struct.c and rx.c are the
    files of the linked driver.
  \<^item> The \<^emph>\<open>USB descriptors\<close> (src/usb_desc.c): Usb_Desc.
  \<^item> The \<^emph>\<open>support code\<close> of the FX3 library (src/cyfx/cyfx_tx.c): Fx3_Mem (memory routines), Fx3_Heap (the
    driver heap with its corruption checks), Fx3_Bitmap and Fx3_DmaBuf (the DMA buffer allocator).
  \<^item> The \<^emph>\<open>network stack\<close> (lib/lwip), in the configuration of lwipopts.h: Lwip_Mem (the heap, core/mem.c), Lwip_Memp (core/memp.c),
    Lwip_Pbuf (core/pbuf.c), Lwip_Addr (byte order and addresses), Lwip_Netif (core/netif.c),
    Lwip_Ethernet (netif/ethernet.c), Lwip_Etharp (core/ipv4/etharp.c), Lwip_Chksum (core/inet_chksum.c),
    Lwip_AddrText (core/ipv4/ip4_addr.c: address text and netmasks), Lwip_Timers (core/timeouts.c),
    Lwip_Ip4 (core/ipv4/ip4.c and icmp.c: input, output, echo replies and error messages) and Lwip_Reass (core/ipv4/ip4_frag.c: reassembly).  The ARP table is kept in the
    stack's part of the state, the record \<^typ>\<open>'y arp_stack\<close>, and in its rest the globals of IP, the record
    \<^typ>\<open>'z ip_stack\<close>, and those of reassembly in \<^typ>\<open>'r reass_stack\<close>.
  \<^item> The \<^emph>\<open>application\<close> (src/main.c): Fx3_App holds what the driver and the stack call and the network
    thread, Fx3_AppUsb the USB callbacks, the application thread and start-up.  \<^const>\<open>app_env\<close> is the
    driver's environment made of the application's functions.

  \<^bold>\<open>How code is modelled.\<close>  A C function is a state transformer with an error result
  (\<^typ>\<open>('s, 'a) act\<close>, Ncm_Prelude): a null or dangling pointer, an access outside an object and a loop that
  does not end are errors, so a theorem that a run succeeds says that none of them happens.  The state
  is an explicit record: \<^typ>\<open>ncm_interface_t\<close> for the driver, \<^typ>\<open>('h, 'x, 'k) app\<close> for the
  application with the packet buffers, the network interface and the support code it sits on, and
  \<^typ>\<open>('h, 'x, 'k) fw\<close> for the whole firmware.  Integers have the widths of the C types and wrap around;
  blocks and DMA memory are functions from offsets to bytes; packet buffers are objects in a store named by
  their addresses.  The FX3 library and its RTOS are not in the repository: they are the record
  \<^typ>\<open>'k sdk\<close> over a state of their own, and what a theorem needs of them is a hypothesis
  (\<^const>\<open>sdk_masks\<close> and \<^const>\<open>sdk_channels\<close>, from the documented behaviour).  The parts of the stack that
  are not modelled are the record \<^typ>\<open>('h, 'x, 'k) lwip\<close>.

  \<^bold>\<open>What is proved.\<close>
  \<^item> Ncm_Machine: the driver as a state machine of all its operations in any order, the invariant of its
    reachable states (each transmit block has one owner, blocks under construction are well formed), and
    the two places where it stops making progress.  Ncm_Props: which block a sent datagram goes to
    (\<^const>\<open>tx_appended\<close>), how a received block is handed over from the completion of its transfer on, what
    activating the interface notifies, and where the code fails (lists that shrink, blocks that never come
    back, tables of received blocks that are not validated).  Ncm_Standalone: the data path of the stand-alone copy is the same,
    its notifications and its answer to a request for the NTB parameters are not.
  \<^item> Fx3_DmaProps, Fx3_Heap, Fx3_Mem: allocated buffers are disjoint over every sequence of calls, release
    undoes allocation, the checked heap is a well-formed list of blocks, and the unrolled memory loops are
    the simple ones.
  \<^item> Lwip_Chain, Lwip_Alloc, Lwip_PbufProps: the chain invariant of packet buffers, and what copying, taking,
    concatenating, freeing and allocating do to the bytes of a packet, to the reference counts and the pool.
  \<^item> Fx3_Machine: threads, callbacks and output calls of the stack in any order, with an invariant that is
    carried through the driver by the locale \<open>env_inv\<close>, interpreted on the application's environment.
    Fx3_Channels: the life of the DMA channels.  Fx3_AppProps and Fx3_RxProps: end-to-end transmission of a
    packet from the stack's buffer chain to an NTB, decoding of control requests, and the paths of a
    received frame.

  \<^item> Lwip_ArpTable, Lwip_Arp, Lwip_ArpProps: the invariant of the ARP table over every sequence of operations, what
    an update, a look-up, the timer and the output function do.  Lwip_Send: an IP packet on its way through
    address resolution, Ethernet layer, application and driver into an NTB (\<^const>\<open>with_etharp\<close> fills the
    parameters of the application with the modelled functions).
  \<^item> Lwip_Chksum, Lwip_ChksumProps: the checksum routines are the one's complement sum of RFC 1071 for every
    alignment and every way a packet is spread over buffers (\<^const>\<open>rfc1071\<close> is the reference).  Lwip_AddrText:
    addresses survive printing and parsing, and the accepted netmasks are the prefixes.
  \<^item> Lwip_MemList, Lwip_MemOps: the headers in the heap's memory represent a list of blocks that tiles it, and
    allocation, release and shrinking are simple operations on that list (\<^const>\<open>ab_malloc\<close>, \<^const>\<open>ab_free\<close>,
    \<^const>\<open>trimmed\<close>).  Lwip_MemProps: over every sequence of calls and stores the clients' areas stay disjoint and keep
    their data.  Lwip_RamPbuf: packet buffers on this heap (\<^const>\<open>heap_env\<close> fills their parameter);
    their payload is what the heap's memory holds.
  \<^item> Lwip_TimerList, Lwip_TimerProps: the linked timeouts represent a list in the order of their due times, on a
    clock that wraps around; setting and deleting are insertion and removal, and the expiry loop ends and sets
    each cyclic timer again.  The clock and the handlers of the protocols are the record \<^typ>\<open>'x timer_env\<close>.
  \<^item> Lwip_IpOut: the header that is written in front of a packet, and that the checksum summed up field by field is
    that of RFC 1071.  Lwip_IpIn: what the input function does is decided by \<^const>\<open>ip_verdict\<close>, a function
    of the bytes.  Lwip_Icmp, Lwip_Ping: the reply to an echo request and its adjusted checksum.
    Lwip_IpProps: the properties of the layer.  Lwip_EchoNcm: a ping from the Ethernet frame that is received to the NTB
    with the reply (\<^const>\<open>with_ip4\<close> fills IP into the stack).  Fragmentation, reassembly and the transport protocols are the record
    \<^typ>\<open>('h, 'z, 'k) ip_env\<close>.
  \<^item> Lwip_Frags: the fragments that wait in their buffers, linked through a structure that replaces their headers, represent a
    list of pieces, and queueing a fragment is the insertion into this list (\<^const>\<open>frag_insert\<close>).  Lwip_ReassRun, Lwip_ReassSteps:
    joining a complete queue, and one fragment after the other.  Lwip_ReassProps: a datagram is put together in every order of
    arrival, and overlapping fragments are refused.  How a pointer to a buffer looks in memory is the record \<^typ>\<open>pbuf_repr\<close>; that it
    can be read back is the hypothesis \<^const>\<open>ptrs_ok\<close>.

  The interfaces are locales, each interpreted on the definitions of the component that provides it:
  \<open>ntb_fifo\<close> for the pointer lists, \<open>frame_rel\<close>, \<open>step_rel\<close> and \<open>usbd_frame\<close> for relations that the
  operations of the driver keep, \<open>block_pool\<close> for the DMA buffers and for the heap of the stack, \<open>element_pool\<close> for the memory pools and
  \<open>env_inv\<close> for invariants of the driver's environment, \<open>env_world\<close> for the part of the world that the transmit
  path leaves alone, and \<open>arp_link\<close> for the output function under address resolution.

  \<^bold>\<open>Bounds and fuel.\<close>  Loops over a chain of packet buffers carry \<^const>\<open>chain_fuel\<close> = 65537 turns, one more
  than a chain with a 16-bit total length of non-empty buffers can have; a theorem about a packet bounds the
  length of its chain by it, and a cyclic chain is the error \<^const>\<open>NoReturn\<close>.  The loops of the heap carry
  \<^const>\<open>heap_fuel\<close> = 1601 turns; a well-formed heap has at most 80 blocks.  A walk over the timeouts carries one turn more than
  the pool has elements; the fuel of \<^const>\<open>sys_check_timeouts\<close> is an argument, two turns for each timer are enough.  A walk over the datagrams that wait for fragments carries
  one turn more than their pool has elements.  \<^const>\<open>link_output_app\<close>,
  \<^const>\<open>force_u2\<close> and \<^const>\<open>print_usb_log\<close> may run for ever: their fuel is an argument, theorems give the
  amount that is enough (one turn for a granted packet, 4096 for the log) or show that none is.

  \<^bold>\<open>Abstractions.\<close>  A handler runs to its end before the next one starts; preemption inside a handler is not
  modelled.  Debug output and statistics are left out, except for those of the heap
  and the pools.  Payload memory is not cleared by an allocation: the bytes a fresh buffer holds are a parameter, the field
  \<open>uninit\<close> of \<^typ>\<open>'h mem_env\<close>.  The assertions of lwIP have no effect, as arch/cc.h of this port defines them.

  \<^bold>\<open>Not modelled.\<close>  Fragmentation on output, TCP, UDP and the applications of lwIP (lwip_init and the iperf
  server are parameters); loopback queue and IPv6 of netif.c, which the configuration switches off; the C++
  support files, the start-up assembly and the build scripts.
\<close>

end
